(* ===== verification/Prelude.thy ===== *)
theory Prelude
  imports Main "HOL-Library.Word" "HOL-Library.AList" "HOL-Library.Multiset"
begin

text \<open>
  Shared vocabulary of the development: the pieces of Go and of its standard library
  that the components use, and the generic lemmas about them.

  \<^item> Go strings and byte slices are byte sequences, as HOL \<open>string\<close>s are (a \<open>char\<close> is a
    byte). \<open>trim_space\<close> is \<open>strings.TrimSpace\<close> on UTF-8, with every Unicode space.
    \<open>to_lower\<close>, \<open>to_upper\<close> and \<open>equal_fold\<close> map the ASCII letters and leave bytes from 128
    on unchanged: the case pairs of other alphabets are outside the model.
  \<^item> \<open>int64\<close> is a 64-bit word, read as signed with \<open>sint\<close>; \<open>+\<close> and \<open>*\<close> wrap.
  \<^item> \<open>time.Time\<close> is the number of nanoseconds since the Unix epoch, \<open>time.Duration\<close> an
    \<open>int64\<close> or an \<open>int\<close> within its range; \<open>rfc3339\<close> prints a UTC time to the second.
  \<^item> A Go map is an association list with one entry per key, in the order a loop over the
    map happens to visit it; statements hold for every such order.
  \<^item> An error is the left summand of a sum, so every early return is a branch.
\<close>

named_theorems go_defs "definitions of the Go vocabulary, unfolded to evaluate closed terms"

type_synonym i64 = "64 word"
type_synonym time = int
type_synonym 'v gomap = "(string \<times> 'v) list"

subsection \<open>Bytes and strings\<close>

definition byte :: "char \<Rightarrow> nat" where
  "byte c = of_char c"

lemma byte_bound: "byte c < 256"
  by (simp add: byte_def)

lemma byte_inj: "byte a = byte b \<longleftrightarrow> a = b"
  by (simp add: byte_def)

lemma byte_char_of [simp]: "n < 256 \<Longrightarrow> byte (char_of n) = n"
  by (simp add: byte_def)

lemma char_of_byte [simp]: "char_of (byte c) = c"
  by (simp add: byte_def)

text \<open>Length in bytes of the white space a byte sequence starts with, 0 if there is none.\<close>

fun space_len :: "nat list \<Rightarrow> nat" where
  "space_len [] = 0"
| "space_len (a # s) =
     (if a = 32 \<or> (9 \<le> a \<and> a \<le> 13) then 1
      else (case s of
        [] \<Rightarrow> 0
      | b # t \<Rightarrow>
         (if a = 194 \<and> (b = 133 \<or> b = 160) then 2
          else (case t of
            [] \<Rightarrow> 0
          | c # _ \<Rightarrow>
             (if (a = 225 \<and> b = 154 \<and> c = 128)
                 \<or> (a = 226 \<and> b = 128 \<and> ((128 \<le> c \<and> c \<le> 138) \<or> c = 168 \<or> c = 169 \<or> c = 175))
                 \<or> (a = 226 \<and> b = 129 \<and> c = 159)
                 \<or> (a = 227 \<and> b = 128 \<and> c = 128)
              then 3 else 0)))))"

text \<open>The same at the end of a sequence, given reversed.\<close>

definition space_len_rev :: "nat list \<Rightarrow> nat" where
  "space_len_rev s =
     (if space_len (take 1 s) = 1 then 1
      else if space_len (rev (take 2 s)) = 2 then 2
      else if space_len (rev (take 3 s)) = 3 then 3 else 0)"

function strip_by :: "(nat list \<Rightarrow> nat) \<Rightarrow> string \<Rightarrow> string" where
  "strip_by f s =
     (if s = [] \<or> f (map byte s) = 0 then s else strip_by f (drop (f (map byte s)) s))"
  by pat_completeness auto
termination
  by (relation "measure (\<lambda>(f, s). length s)") auto

declare strip_by.simps [simp del]

definition trim_space :: "string \<Rightarrow> string" where
  "trim_space s = rev (strip_by space_len_rev (rev (strip_by space_len s)))"

definition lower_char :: "char \<Rightarrow> char" where
  "lower_char c = (if 65 \<le> byte c \<and> byte c \<le> 90 then char_of (byte c + 32) else c)"

definition upper_char :: "char \<Rightarrow> char" where
  "upper_char c = (if 97 \<le> byte c \<and> byte c \<le> 122 then char_of (byte c - 32) else c)"

definition to_lower :: "string \<Rightarrow> string" where
  "to_lower s = map lower_char s"

definition to_upper :: "string \<Rightarrow> string" where
  "to_upper s = map upper_char s"

definition equal_fold :: "string \<Rightarrow> string \<Rightarrow> bool" where
  "equal_fold a b \<longleftrightarrow> to_lower a = to_lower b"

fun has_prefix :: "string \<Rightarrow> string \<Rightarrow> bool" where
  "has_prefix s [] = True"
| "has_prefix [] (c # p) = False"
| "has_prefix (d # s) (c # p) = (d = c \<and> has_prefix s p)"

definition has_suffix :: "string \<Rightarrow> string \<Rightarrow> bool" where
  "has_suffix s p = has_prefix (rev s) (rev p)"

definition trim_prefix :: "string \<Rightarrow> string \<Rightarrow> string" where
  "trim_prefix s p = (if has_prefix s p then drop (length p) s else s)"

definition trim_suffix :: "string \<Rightarrow> string \<Rightarrow> string" where
  "trim_suffix s p = (if has_suffix s p then take (length s - length p) s else s)"

text \<open>\<open>strings.Split\<close> and \<open>strings.SplitN(s, sep, 2)\<close> for a separator of one byte.\<close>

fun split_on :: "char \<Rightarrow> string \<Rightarrow> string list" where
  "split_on c [] = [[]]"
| "split_on c (x # s) =
     (if x = c then [] # split_on c s
      else (case split_on c s of [] \<Rightarrow> [[x]] | w # ws \<Rightarrow> (x # w) # ws))"

fun split_2 :: "char \<Rightarrow> string \<Rightarrow> string \<times> string option" where
  "split_2 c [] = ([], None)"
| "split_2 c (x # s) =
     (if x = c then ([], Some s) else (case split_2 c s of (w, r) \<Rightarrow> (x # w, r)))"

definition trim_left_char :: "char \<Rightarrow> string \<Rightarrow> string" where
  "trim_left_char c s = dropWhile (\<lambda>x. x = c) s"

definition trim_right_char :: "char \<Rightarrow> string \<Rightarrow> string" where
  "trim_right_char c s = rev (dropWhile (\<lambda>x. x = c) (rev s))"

fun contains_sub :: "string \<Rightarrow> string \<Rightarrow> bool" where
  "contains_sub [] p = (p = [])"
| "contains_sub (x # s) p = (has_prefix (x # s) p \<or> contains_sub s p)"

fun join_with :: "string \<Rightarrow> string list \<Rightarrow> string" where
  "join_with sep [] = []"
| "join_with sep [w] = w"
| "join_with sep (w # v # ws) = w @ sep @ join_with sep (v # ws)"

text \<open>Bytes compare as Go's string order does: lexicographically by byte value.\<close>

fun str_less :: "string \<Rightarrow> string \<Rightarrow> bool" where
  "str_less s [] = False"
| "str_less [] (y # t) = True"
| "str_less (x # s) (y # t) = (byte x < byte y \<or> (x = y \<and> str_less s t))"

definition str_le :: "string \<Rightarrow> string \<Rightarrow> bool" where
  "str_le a b \<longleftrightarrow> \<not> str_less b a"

lemma str_less_irrefl: "\<not> str_less s s"
  by (induction s) simp_all

lemma str_less_trans: "str_less a b \<Longrightarrow> str_less b c \<Longrightarrow> str_less a c"
proof (induction a b arbitrary: c rule: str_less.induct)
  case (3 x s y t)
  then show ?case by (cases c) auto
qed (case_tac c; simp)+

lemma str_less_total: "str_less a b \<or> a = b \<or> str_less b a"
proof (induction a b rule: str_less.induct)
  case (1 s)
  then show ?case by (cases s) simp_all
next
  case (3 x s y t)
  then show ?case using byte_inj [of x y] by (auto simp: not_less)
qed simp

lemma str_le_total: "str_le a b \<or> str_le b a"
  using str_less_trans [of a b a] str_less_irrefl [of a] by (auto simp: str_le_def)

lemma str_le_trans: "str_le a b \<Longrightarrow> str_le b c \<Longrightarrow> str_le a c"
  unfolding str_le_def using str_less_total [of b c] str_less_total [of a b] str_less_trans by blast

lemma str_le_antisym: "str_le a b \<Longrightarrow> str_le b a \<Longrightarrow> a = b"
  unfolding str_le_def using str_less_total by blast

lemma str_le_refl [simp]: "str_le a a"
  by (simp add: str_le_def str_less_irrefl)

text \<open>A stable insertion sort by a total preorder, for the sorted listings.\<close>

fun ins_by :: "('a \<Rightarrow> 'a \<Rightarrow> bool) \<Rightarrow> 'a \<Rightarrow> 'a list \<Rightarrow> 'a list" where
  "ins_by le x [] = [x]"
| "ins_by le x (y # ys) = (if le x y then x # y # ys else y # ins_by le x ys)"

fun sort_by :: "('a \<Rightarrow> 'a \<Rightarrow> bool) \<Rightarrow> 'a list \<Rightarrow> 'a list" where
  "sort_by le [] = []"
| "sort_by le (x # xs) = ins_by le x (sort_by le xs)"

text \<open>\<open>[a-zA-Z0-9]\<close> and the identifier class most regular expressions of the code share.\<close>

definition is_digit :: "char \<Rightarrow> bool" where
  "is_digit c \<longleftrightarrow> 48 \<le> byte c \<and> byte c \<le> 57"

definition is_lower :: "char \<Rightarrow> bool" where
  "is_lower c \<longleftrightarrow> 97 \<le> byte c \<and> byte c \<le> 122"

definition is_upper :: "char \<Rightarrow> bool" where
  "is_upper c \<longleftrightarrow> 65 \<le> byte c \<and> byte c \<le> 90"

definition is_alnum :: "char \<Rightarrow> bool" where
  "is_alnum c \<longleftrightarrow> is_digit c \<or> is_lower c \<or> is_upper c"

subsection \<open>Errors in sequence\<close>

definition also_then :: "'e + 'a \<Rightarrow> ('a \<Rightarrow> 'e + 'b) \<Rightarrow> 'e + 'b" where
  "also_then m k = (case m of Inl e \<Rightarrow> Inl e | Inr x \<Rightarrow> k x)"

definition require :: "bool \<Rightarrow> 'e \<Rightarrow> 'e + unit" where
  "require b e = (if b then Inr () else Inl e)"

definition some_or :: "'e \<Rightarrow> 'a option \<Rightarrow> 'e + 'a" where
  "some_or e x = (case x of None \<Rightarrow> Inl e | Some v \<Rightarrow> Inr v)"

lemma also_then_Inr [simp]: "also_then m k = Inr y \<longleftrightarrow> (\<exists>x. m = Inr x \<and> k x = Inr y)"
  by (cases m) (auto simp: also_then_def)

lemma require_Inr [simp]: "require b e = Inr u \<longleftrightarrow> b"
  by (simp add: require_def)

lemma some_or_Inr [simp]: "some_or e x = Inr y \<longleftrightarrow> x = Some y"
  by (cases x) (simp_all add: some_or_def)

subsection \<open>Trimming\<close>

text \<open>A string that starts and ends with a visible ASCII character is its own trimming.\<close>

definition visible :: "char \<Rightarrow> bool" where
  "visible c \<longleftrightarrow> 33 \<le> byte c \<and> byte c \<le> 126"

lemma alnum_visible: "is_alnum c \<Longrightarrow> visible c"
  by (auto simp: is_alnum_def is_digit_def is_lower_def is_upper_def visible_def)

lemma space_len_visible: "visible c \<Longrightarrow> space_len (byte c # s) = 0"
  by (cases s; cases "tl s") (auto simp: visible_def)

lemma space_len_rev_visible:
  assumes "visible c"
  shows "space_len_rev (byte c # s) = 0"
proof -
  have b: "byte c < 128" "byte c \<noteq> 32" "\<not> (9 \<le> byte c \<and> byte c \<le> 13)"
    using assms by (auto simp: visible_def)
  show ?thesis
  proof (cases s)
    case (Cons x t)
    then show ?thesis using b by (cases t) (auto simp: space_len_rev_def numeral_2_eq_2 numeral_3_eq_3)
  qed (use b in \<open>auto simp: space_len_rev_def numeral_2_eq_2 numeral_3_eq_3\<close>)
qed

lemma strip_by_stop: "f (map byte s) = 0 \<Longrightarrow> strip_by f s = s"
  by (subst strip_by.simps) simp

lemma trim_space_visible:
  assumes "s \<noteq> []" and "visible (hd s)" and "visible (last s)"
  shows "trim_space s = s"
proof -
  have "strip_by space_len s = s"
    using assms(1,2) space_len_visible by (cases s) (auto intro!: strip_by_stop)
  moreover have "strip_by space_len_rev (rev s) = rev s"
    using assms(1,3) space_len_rev_visible by (cases s rule: rev_cases) (auto intro!: strip_by_stop)
  ultimately show ?thesis by (simp add: trim_space_def)
qed

lemma trim_space_Nil [simp]: "trim_space [] = []"
  by (simp add: trim_space_def strip_by.simps)

lemma strip_by_result: "strip_by f s = [] \<or> f (map byte (strip_by f s)) = 0"
proof (induction f s rule: strip_by.induct)
  case (1 f s)
  then show ?case
    by (cases "s = [] \<or> f (map byte s) = 0") (auto simp: strip_by.simps [of f s])
qed

lemma strip_by_suffix: "\<exists>u. s = u @ strip_by f s"
proof (induction f s rule: strip_by.induct)
  case (1 f s)
  show ?case
  proof (cases "s = [] \<or> f (map byte s) = 0")
    case True
    then show ?thesis by (simp add: strip_by.simps [of f s])
  next
    case False
    then obtain u where "drop (f (map byte s)) s = u @ strip_by f (drop (f (map byte s)) s)" using 1 [OF False] by blast
    then have "s = (take (f (map byte s)) s @ u) @ strip_by f (drop (f (map byte s)) s)"
      by (metis append.assoc append_take_drop_id)
    then show ?thesis using False by (simp add: strip_by.simps [of f s] del: append_assoc) blast
  qed
qed

lemma space_len_append: "space_len s \<noteq> 0 \<Longrightarrow> space_len (s @ t) = space_len s"
proof (cases s)
  case (Cons a r)
  assume n: "space_len s \<noteq> 0"
  show ?thesis
  proof (cases "a = 32 \<or> (9 \<le> a \<and> a \<le> 13)")
    case True
    then show ?thesis using Cons by simp
  next
    case False
    then obtain b r2 where b: "r = b # r2" using n Cons by (cases r) auto
    show ?thesis
    proof (cases "a = 194 \<and> (b = 133 \<or> b = 160)")
      case True
      then show ?thesis using Cons b by auto
    next
      case no: False
      then obtain c r3 where "r2 = c # r3" using n Cons b False by (cases r2) auto
      then show ?thesis using Cons b False no by simp
    qed
  qed
qed simp

lemma trim_space_idem [simp]: "trim_space (trim_space s) = trim_space s"
proof -
  let ?u = "strip_by space_len s" and ?r = "trim_space s"
  have r: "rev ?r = strip_by space_len_rev (rev ?u)" by (simp add: trim_space_def)
  obtain x where "rev ?u = x @ rev ?r" using strip_by_suffix [of "rev ?u" space_len_rev] r by auto
  then have u: "?u = ?r @ rev x" by (metis rev_append rev_rev_ident)
  have "space_len (map byte ?r) = 0"
  proof (rule ccontr)
    assume a: "space_len (map byte ?r) \<noteq> 0"
    then have "space_len (map byte ?u) \<noteq> 0" using u space_len_append [OF a, of "map byte (rev x)"] by simp
    then have "?u = []" using strip_by_result [of space_len s] by simp
    then show False using a u by simp
  qed
  then have 1: "strip_by space_len ?r = ?r" by (rule strip_by_stop)
  have "rev ?r = [] \<or> space_len_rev (map byte (rev ?r)) = 0"
    using strip_by_result [of space_len_rev "rev ?u"] r by simp
  then have "strip_by space_len_rev (rev ?r) = rev ?r"
    by (auto intro: strip_by_stop simp: strip_by.simps [of _ "[]"])
  then show ?thesis using 1 by (metis rev_rev_ident trim_space_def)
qed

lemma equal_fold_refl [simp]: "equal_fold s s"
  by (simp add: equal_fold_def)

end
