(* ===== verification/Encoding.thy ===== *)
theory Encoding
  imports Prelude
begin

text \<open>
  Text encodings of the standard library the code relies on, written out: decimal numbers,
  lower-case hex, base64 in the raw URL and the padded standard alphabet, big-endian words
  and RFC 3339 timestamps. The lemmas are the round trips and the shape facts (length,
  alphabet, no separator byte inside) the signed tokens, digests and certificates need.
\<close>

subsection \<open>Decimal\<close>

definition digit_char :: "nat \<Rightarrow> char" where
  "digit_char n = char_of (48 + n mod 10)"

fun dec_nat :: "nat \<Rightarrow> string" where
  "dec_nat n = (if n < 10 then [digit_char n] else dec_nat (n div 10) @ [digit_char n])"

declare dec_nat.simps [simp del]

definition dec_int :: "int \<Rightarrow> string" where
  "dec_int i = (if i < 0 then CHR ''-'' # dec_nat (nat (- i)) else dec_nat (nat i))"

text \<open>The value of a run of digits, most significant first.\<close>

definition digits_value :: "string \<Rightarrow> nat" where
  "digits_value s = foldl (\<lambda>v c. 10 * v + (byte c - 48)) 0 s"

lemma is_digit_digit_char [simp]: "is_digit (digit_char n)"
proof -
  have "n mod 10 < 10" by simp
  then have "48 + n mod 10 < 256" by linarith
  then show ?thesis by (simp add: is_digit_def digit_char_def)
qed

lemma byte_digit_char [simp]: "byte (digit_char n) = 48 + n mod 10"
proof -
  have "n mod 10 < 10" by simp
  then have "48 + n mod 10 < 256" by linarith
  then show ?thesis by (simp add: digit_char_def)
qed

lemma digits_value_snoc: "digits_value (s @ [c]) = 10 * digits_value s + (byte c - 48)"
  by (simp add: digits_value_def)

lemma dec_nat_digits: "list_all is_digit (dec_nat n)"
proof (induction n rule: dec_nat.induct)
  case (1 n)
  then show ?case by (cases "n < 10") (simp_all add: dec_nat.simps [of n])
qed

lemma dec_nat_nonempty [simp]: "dec_nat n \<noteq> []"
  by (subst dec_nat.simps) simp

lemma digits_value_dec_nat [simp]: "digits_value (dec_nat n) = n"
proof (induction n rule: dec_nat.induct)
  case (1 n)
  show ?case
  proof (cases "n < 10")
    case True
    then show ?thesis by (subst dec_nat.simps) (simp add: digits_value_def)
  next
    case False
    with "1.IH" have "digits_value (dec_nat (n div 10)) = n div 10" by simp
    then have "digits_value (dec_nat n) = 10 * (n div 10) + n mod 10"
      using False by (subst dec_nat.simps) (simp add: digits_value_snoc)
    then show ?thesis by simp
  qed
qed

lemma dec_nat_inj: "dec_nat a = dec_nat b \<longleftrightarrow> a = b"
  by (metis digits_value_dec_nat)

text \<open>Zero padding to a width, as the verbs \<open>%0nd\<close> and the time layouts do.\<close>

definition pad_dec :: "nat \<Rightarrow> nat \<Rightarrow> string" where
  "pad_dec w n = (let d = dec_nat n in replicate (w - length d) (CHR ''0'') @ d)"

text \<open>
  \<open>strconv.ParseInt(s, 10, 64)\<close>: an optional sign, then at least one digit, the value within
  the 64-bit range. Anything else is an error (\<open>None\<close>).
\<close>

definition parse_int64 :: "string \<Rightarrow> int option" where
  "parse_int64 s =
     (let (neg, d) = (case s of
            [] \<Rightarrow> (False, [])
          | c # r \<Rightarrow> if c = CHR ''-'' then (True, r) else if c = CHR ''+'' then (False, r) else (False, s));
          v = (if neg then - int (digits_value d) else int (digits_value d))
      in if d = [] \<or> \<not> list_all is_digit d then None
         else if - (2 ^ 63) \<le> v \<and> v < 2 ^ 63 then Some v else None)"

lemma parse_int64_range: "parse_int64 s = Some v \<Longrightarrow> - (2 ^ 63) \<le> v \<and> v < 2 ^ 63"
  by (auto simp: parse_int64_def Let_def split: list.splits if_splits prod.splits)

lemma parse_int64_dec_nat:
  assumes "n < 2 ^ 63"
  shows "parse_int64 (dec_nat n) = Some (int n)"
proof -
  obtain c r where cr: "dec_nat n = c # r" by (cases "dec_nat n") auto
  have "is_digit c" using dec_nat_digits [of n] cr by simp
  then have "c \<noteq> CHR ''-''" "c \<noteq> CHR ''+''" by (auto simp: is_digit_def byte_def)
  moreover have "list_all is_digit (c # r)" using dec_nat_digits [of n] cr by simp
  moreover have "digits_value (c # r) = n" using digits_value_dec_nat [of n] cr by simp
  moreover have "int n < 2 ^ 63" using assms by (metis of_nat_less_numeral_power_cancel_iff)
  ultimately show ?thesis using cr by (simp add: parse_int64_def)
qed

subsection \<open>Hex\<close>

definition hex_char :: "nat \<Rightarrow> char" where
  "hex_char n = (if n < 10 then char_of (48 + n) else char_of (87 + n))"

definition hex_value :: "char \<Rightarrow> nat option" where
  "hex_value c =
     (if is_digit c then Some (byte c - 48)
      else if 97 \<le> byte c \<and> byte c \<le> 102 then Some (byte c - 87)
      else if 65 \<le> byte c \<and> byte c \<le> 70 then Some (byte c - 55)
      else None)"

definition hex_encode :: "string \<Rightarrow> string" where
  "hex_encode s = concat (map (\<lambda>c. [hex_char (byte c div 16), hex_char (byte c mod 16)]) s)"

fun hex_decode :: "string \<Rightarrow> string option" where
  "hex_decode [] = Some []"
| "hex_decode [c] = None"
| "hex_decode (c # d # s) =
     (case (hex_value c, hex_value d, hex_decode s) of
        (Some h, Some l, Some r) \<Rightarrow> Some (char_of (16 * h + l) # r)
      | _ \<Rightarrow> None)"

lemma hex_value_hex_char: "n < 16 \<Longrightarrow> hex_value (hex_char n) = Some n"
  by (auto simp: hex_value_def hex_char_def is_digit_def)

lemma hex_decode_encode [simp]: "hex_decode (hex_encode s) = Some s"
proof (induction s)
  case Nil
  show ?case by (simp add: hex_encode_def)
next
  case (Cons c s)
  have "byte c div 16 < 16" using byte_bound [of c] by linarith
  moreover have "byte c mod 16 < 16" by simp
  moreover have "16 * (byte c div 16) + byte c mod 16 = byte c" by simp
  moreover have "char_of (byte c) = c" by simp
  ultimately show ?case
    using Cons.IH by (simp add: hex_encode_def hex_value_hex_char)
qed

lemma length_hex_encode [simp]: "length (hex_encode s) = 2 * length s"
  by (induction s) (simp_all add: hex_encode_def)

lemma hex_encode_inj: "hex_encode a = hex_encode b \<Longrightarrow> a = b"
  by (metis hex_decode_encode option.inject)

lemma hex_decode_length: "hex_decode s = Some b \<Longrightarrow> length s = 2 * length b"
  by (induction s arbitrary: b rule: hex_decode.induct) (auto split: option.splits)

subsection \<open>Base64\<close>

definition b64_char :: "bool \<Rightarrow> nat \<Rightarrow> char" where
  "b64_char url n =
     (if n < 26 then char_of (65 + n) else if n < 52 then char_of (71 + n)
      else if n < 62 then char_of (n - 4)
      else if n = 62 then (if url then CHR ''-'' else CHR ''+'')
      else (if url then CHR ''_'' else CHR ''/''))"

definition b64_value :: "bool \<Rightarrow> char \<Rightarrow> nat option" where
  "b64_value url c =
     (if is_upper c then Some (byte c - 65) else if is_lower c then Some (byte c - 71)
      else if is_digit c then Some (byte c + 4)
      else if c = (if url then CHR ''-'' else CHR ''+'') then Some 62
      else if c = (if url then CHR ''_'' else CHR ''/'') then Some 63
      else None)"

fun to_sextets :: "nat list \<Rightarrow> nat list" where
  "to_sextets [] = []"
| "to_sextets [a] = [a div 4, (a mod 4) * 16]"
| "to_sextets [a, b] = [a div 4, (a mod 4) * 16 + b div 16, (b mod 16) * 4]"
| "to_sextets (a # b # c # s) =
     [a div 4, (a mod 4) * 16 + b div 16, (b mod 16) * 4 + c div 64, c mod 64] @ to_sextets s"

text \<open>Trailing bits of a short last group are ignored, as the non-strict decoder does.\<close>

fun of_sextets :: "nat list \<Rightarrow> nat list option" where
  "of_sextets [] = Some []"
| "of_sextets [w] = None"
| "of_sextets [w, x] = Some [w * 4 + x div 16]"
| "of_sextets [w, x, y] = Some [w * 4 + x div 16, (x mod 16) * 16 + y div 4]"
| "of_sextets (w # x # y # z # s) =
     map_option (\<lambda>r. (w * 4 + x div 16) # ((x mod 16) * 16 + y div 4) # ((y mod 4) * 64 + z) # r)
       (of_sextets s)"

fun all_some :: "'a option list \<Rightarrow> 'a list option" where
  "all_some [] = Some []"
| "all_some (None # xs) = None"
| "all_some (Some x # xs) = map_option (Cons x) (all_some xs)"

text \<open>The decoders skip carriage returns and line feeds.\<close>

definition drop_eol :: "string \<Rightarrow> string" where
  "drop_eol s = filter (\<lambda>c. byte c \<noteq> 10 \<and> byte c \<noteq> 13) s"

definition b64_body :: "bool \<Rightarrow> string \<Rightarrow> string option" where
  "b64_body url s =
     Option.bind (all_some (map (b64_value url) s)) (\<lambda>v. map_option (map char_of) (of_sextets v))"

definition raw_url_encode :: "string \<Rightarrow> string" where
  "raw_url_encode s = map (b64_char True) (to_sextets (map byte s))"

definition raw_url_decode :: "string \<Rightarrow> string option" where
  "raw_url_decode s = b64_body True (drop_eol s)"

definition raw_std_encode :: "string \<Rightarrow> string" where
  "raw_std_encode s = map (b64_char False) (to_sextets (map byte s))"

definition std_pad :: "nat \<Rightarrow> string" where
  "std_pad n = (if n mod 4 = 2 then ''=='' else if n mod 4 = 3 then ''='' else [])"

definition std_encode :: "string \<Rightarrow> string" where
  "std_encode s = raw_std_encode s @ std_pad (length (raw_std_encode s))"

definition std_decode :: "string \<Rightarrow> string option" where
  "std_decode s =
     (let f = drop_eol s; body = takeWhile (\<lambda>c. c \<noteq> CHR ''='') f;
          pad = dropWhile (\<lambda>c. c \<noteq> CHR ''='') f
      in if length body mod 4 \<noteq> 1 \<and> pad = std_pad (length body) then b64_body False body
         else None)"

lemma b64_value_char: "n < 64 \<Longrightarrow> b64_value url (b64_char url n) = Some n"
  by (auto simp: b64_value_def b64_char_def is_upper_def is_lower_def is_digit_def byte_def)

lemma b64_char_alphabet:
  "n < 64 \<Longrightarrow> is_alnum (b64_char url n) \<or> b64_char url n \<in> (if url then set ''-_'' else set ''+/'')"
  by (auto simp: b64_char_def is_alnum_def is_upper_def is_lower_def is_digit_def)

lemma is_alnum_byte: "is_alnum c \<Longrightarrow> 48 \<le> byte c \<and> byte c \<le> 122"
  by (auto simp: is_alnum_def is_upper_def is_lower_def is_digit_def)

lemma b64_char_plain:
  assumes "n < 64"
  shows "byte (b64_char url n) \<notin> {10, 13, 46, 61}"
  using assms by (auto simp: b64_char_def byte_def)

lemma split_div:
  fixes h l n :: nat
  assumes "l < n"
  shows "(h * n + l) div n = h" and "(h * n + l) mod n = l"
  using assms by simp_all

lemma sextet_parts:
  fixes a b c :: nat
  assumes "a < 256" "b < 256" "c < 256"
  shows "a div 4 < 64" and "a mod 4 * 16 + b div 16 < 64" and "b mod 16 * 4 + c div 64 < 64"
    and "a div 4 * 4 + (a mod 4 * 16 + b div 16) div 16 = a"
    and "(a mod 4 * 16 + b div 16) mod 16 * 16 + (b mod 16 * 4 + c div 64) div 4 = b"
    and "(b mod 16 * 4 + c div 64) mod 4 * 64 + c mod 64 = c"
proof -
  have l: "b div 16 < 16" "c div 64 < 4" "a mod 4 < 4" "b mod 16 < 16"
    using assms by (simp_all add: less_mult_imp_div_less)
  show "a div 4 < 64" using assms by (simp add: less_mult_imp_div_less)
  show "a mod 4 * 16 + b div 16 < 64" "b mod 16 * 4 + c div 64 < 64" using l by linarith+
  show "a div 4 * 4 + (a mod 4 * 16 + b div 16) div 16 = a"
    by (simp only: split_div [OF l(1)] div_mult_mod_eq)
  show "(a mod 4 * 16 + b div 16) mod 16 * 16 + (b mod 16 * 4 + c div 64) div 4 = b"
    by (simp only: split_div [OF l(1)] split_div [OF l(2)]) (simp add: div_mult_mod_eq)
  show "(b mod 16 * 4 + c div 64) mod 4 * 64 + c mod 64 = c"
    by (simp only: split_div [OF l(2)] div_mult_mod_eq)
qed

lemma to_sextets_bound: "list_all (\<lambda>a. a < 256) s \<Longrightarrow> list_all (\<lambda>a. a < 64) (to_sextets s)"
proof (induction s rule: to_sextets.induct)
  case (3 a b)
  then have "a < 256" "b < 256" by simp_all
  then show ?case using sextet_parts [of a b 0] by simp
next
  case (4 a b c s)
  then have "a < 256" "b < 256" "c < 256" by simp_all
  then show ?case using 4 sextet_parts [of a b c] by simp
qed auto

lemma of_to_sextets: "list_all (\<lambda>a. a < 256) s \<Longrightarrow> of_sextets (to_sextets s) = Some s"
proof (induction s rule: to_sextets.induct)
  case (2 a)
  then show ?case by simp
next
  case (3 a b)
  then have "a < 256" "b < 256" by simp_all
  then show ?case using sextet_parts [of a b 0] by simp
next
  case (4 a b c s)
  then have "a < 256" "b < 256" "c < 256" by simp_all
  then show ?case using 4 sextet_parts [of a b c] by simp
qed simp

lemma all_some_map: "list_all (\<lambda>x. f x = Some (g x)) xs \<Longrightarrow> all_some (map f xs) = Some (map g xs)"
  by (induction xs) simp_all

lemma bytes_bound: "list_all (\<lambda>a. a < 256) (map byte s)"
  by (induction s) (simp_all add: byte_bound)

lemma b64_body_encode: "b64_body url (map (b64_char url) (to_sextets (map byte s))) = Some s"
proof -
  have "list_all (\<lambda>a. a < 64) (to_sextets (map byte s))"
    by (rule to_sextets_bound [OF bytes_bound])
  then have "list_all (\<lambda>a. (b64_value url \<circ> b64_char url) a = Some (id a)) (to_sextets (map byte s))"
    by (auto simp: list_all_iff b64_value_char)
  then have "all_some (map (b64_value url \<circ> b64_char url) (to_sextets (map byte s)))
      = Some (map id (to_sextets (map byte s)))"
    by (rule all_some_map)
  then show ?thesis
    by (simp add: b64_body_def of_to_sextets [OF bytes_bound] comp_def)
qed

lemma b64_encoded_plain:
  assumes "c \<in> set (map (b64_char url) (to_sextets (map byte s)))"
  shows "byte c \<notin> {10, 13, 46, 61}"
proof -
  have "list_all (\<lambda>a. a < 64) (to_sextets (map byte s))"
    by (rule to_sextets_bound [OF bytes_bound])
  then show ?thesis using assms b64_char_plain by (auto simp: list_all_iff)
qed

lemma drop_eol_encoded:
  "drop_eol (map (b64_char url) (to_sextets (map byte s))) = map (b64_char url) (to_sextets (map byte s))"
  unfolding drop_eol_def by (rule filter_True) (use b64_encoded_plain in blast)

lemma raw_url_decode_encode [simp]: "raw_url_decode (raw_url_encode s) = Some s"
  by (simp add: raw_url_decode_def raw_url_encode_def drop_eol_encoded b64_body_encode)

lemma raw_url_encode_inj: "raw_url_encode a = raw_url_encode b \<Longrightarrow> a = b"
  by (metis raw_url_decode_encode option.inject)

lemma raw_url_encode_no_dot: "CHR ''.'' \<notin> set (raw_url_encode s)"
  using b64_encoded_plain [of "CHR ''.''" True s] by (auto simp: raw_url_encode_def byte_def)

lemma length_to_sextets: "length (to_sextets s) mod 4 \<noteq> 1"
  by (induction s rule: to_sextets.induct) simp_all

lemma std_decode_encode [simp]: "std_decode (std_encode s) = Some s"
proof -
  define e where "e = map (b64_char False) (to_sextets (map byte s))"
  have plain: "\<And>c. c \<in> set e \<Longrightarrow> byte c \<notin> {10, 13, 46, 61}"
    unfolding e_def by (rule b64_encoded_plain)
  then have noeq: "\<And>c. c \<in> set e \<Longrightarrow> c \<noteq> CHR ''=''" by (force simp: byte_def)
  have "drop_eol (std_pad (length e)) = std_pad (length e)"
    by (simp add: std_pad_def drop_eol_def byte_def)
  moreover have "drop_eol e = e" by (simp add: e_def drop_eol_encoded)
  ultimately have d: "drop_eol (std_encode s) = e @ std_pad (length e)"
    by (simp add: std_encode_def raw_std_encode_def e_def [symmetric] drop_eol_def)
  have "takeWhile (\<lambda>c. c \<noteq> CHR ''='') (e @ std_pad (length e)) = e"
    using noeq by (simp add: takeWhile_append2 std_pad_def)
  moreover have "dropWhile (\<lambda>c. c \<noteq> CHR ''='') (e @ std_pad (length e)) = std_pad (length e)"
    using noeq by (simp add: dropWhile_append2 std_pad_def)
  moreover have "length e mod 4 \<noteq> 1" using length_to_sextets by (simp add: e_def)
  ultimately show ?thesis
    by (simp add: std_decode_def Let_def d) (simp add: e_def b64_body_encode)
qed

subsection \<open>Big-endian words\<close>

definition be_value :: "string \<Rightarrow> nat" where
  "be_value s = foldl (\<lambda>v c. 256 * v + byte c) 0 s"

fun be_bytes :: "nat \<Rightarrow> nat \<Rightarrow> string" where
  "be_bytes 0 v = []"
| "be_bytes (Suc n) v = be_bytes n (v div 256) @ [char_of (v mod 256)]"

lemma length_be_bytes [simp]: "length (be_bytes n v) = n"
  by (induction n arbitrary: v) simp_all

lemma be_value_snoc: "be_value (s @ [c]) = 256 * be_value s + byte c"
  by (simp add: be_value_def)

lemma be_value_bytes: "v < 256 ^ n \<Longrightarrow> be_value (be_bytes n v) = v"
proof (induction n arbitrary: v)
  case 0
  then show ?case by (simp add: be_value_def)
next
  case (Suc n)
  then have "v div 256 < 256 ^ n" by (simp add: less_mult_imp_div_less mult.commute)
  then have "be_value (be_bytes (Suc n) v) = 256 * (v div 256) + byte (char_of (v mod 256))"
    by (simp only: be_bytes.simps be_value_snoc Suc.IH)
  also have "byte (char_of (v mod 256)) = v mod 256" by (rule byte_char_of) simp
  finally show ?case by simp
qed

lemma be_value_bound: "be_value s < 256 ^ length s"
proof (induction s rule: rev_induct)
  case (snoc c s)
  have "byte c < 256" by (rule byte_bound)
  moreover have "be_value s + 1 \<le> 256 ^ length s" using snoc by simp
  then have "256 * (be_value s + 1) \<le> 256 * 256 ^ length s" by (rule mult_le_mono2)
  ultimately show ?case by (simp add: be_value_snoc)
qed (simp add: be_value_def)

subsection \<open>Timestamps\<close>

definition second :: int where "second = 1000000000"
definition minute :: int where "minute = 60 * second"
definition hour :: int where "hour = 60 * minute"

text \<open>The zero \<open>time.Time\<close>, 1 January of year 1, which \<open>IsZero\<close> tests for.\<close>

definition zero_time :: time where "zero_time = - 62135596800 * second"

text \<open>Proleptic Gregorian date of a day counted from 1 January 1970.\<close>

definition civil_of_days :: "int \<Rightarrow> int \<times> int \<times> int" where
  "civil_of_days days =
     (let z = days + 719468; era = z div 146097; doe = z mod 146097;
          yoe = (doe - doe div 1460 + doe div 36524 - doe div 146096) div 365;
          doy = doe - (365 * yoe + yoe div 4 - yoe div 100);
          mp = (5 * doy + 2) div 153;
          d = doy - (153 * mp + 2) div 5 + 1;
          m = (if mp < 10 then mp + 3 else mp - 9);
          y = yoe + era * 400
      in (if m \<le> 2 then y + 1 else y, m, d))"

definition year_text :: "int \<Rightarrow> string" where
  "year_text y = (if y < 0 then CHR ''-'' # pad_dec 4 (nat (- y)) else pad_dec 4 (nat y))"

definition rfc3339 :: "time \<Rightarrow> string" where
  "rfc3339 t =
     (let s = t div second; r = s mod 86400
      in (case civil_of_days (s div 86400) of
           (y, m, d) \<Rightarrow> year_text y @ ''-'' @ pad_dec 2 (nat m) @ ''-'' @ pad_dec 2 (nat d)
             @ ''T'' @ pad_dec 2 (nat (r div 3600)) @ '':'' @ pad_dec 2 (nat (r div 60 mod 60))
             @ '':'' @ pad_dec 2 (nat (r mod 60)) @ ''Z''))"

lemma rfc3339_nonempty [simp]: "rfc3339 t \<noteq> []"
  by (simp add: rfc3339_def Let_def split: prod.splits)

lemma rfc3339_epoch: "rfc3339 0 = ''1970-01-01T00:00:00Z''"
  by code_simp

lemma rfc3339_sample: "rfc3339 (1729512000 * 1000000000) = ''2024-10-21T12:00:00Z''"
  by code_simp

lemma trim_rfc3339 [simp]: "trim_space (rfc3339 t) = rfc3339 t"
proof (rule trim_space_visible)
  have v: "is_digit c \<Longrightarrow> visible c" for c by (auto simp: is_digit_def visible_def)
  have p: "pad_dec k n \<noteq> [] \<and> list_all is_digit (pad_dec k n)" for k n
    using dec_nat_digits [of n]
    by (auto simp: pad_dec_def Let_def list_all_iff is_digit_def byte_def)
  have "visible (hd (pad_dec k n))" for k n
    using p [of k n] v by (cases "pad_dec k n") auto
  then have "year_text y \<noteq> [] \<and> visible (hd (year_text y))" for y
    using p by (auto simp: year_text_def visible_def byte_def)
  then show "visible (hd (rfc3339 t))"
    by (simp add: rfc3339_def Let_def split: prod.split)
  show "visible (last (rfc3339 t))"
    by (simp add: rfc3339_def Let_def visible_def byte_def split: prod.split)
qed simp

end
