(* ===== verification/Policy.thy ===== *)
theory Policy
  imports Encoding
begin

text \<open>
  Package \<open>internal/policy\<close>: the data of grants, pins, requests, receipts and approvals
  (\<open>types.go\<close>) and the seven-pin evaluation (\<open>engine.go\<close>). Amounts are \<open>int64\<close> cents, so
  the budget comparison is the wrapping one the code makes. A status read back from the
  state file can be any string, hence the \<open>Other\<close> constructors.
\<close>

subsection \<open>Data (types.go)\<close>

datatype grant_status = GrantActive | GrantRevoked | GrantExpired | GrantOther string

record identity_attestation =
  ia_id :: string
  ia_subject :: string
  ia_issuer :: string
  ia_audience :: string
  ia_method :: string
  ia_issued_at :: time
  ia_expires_at :: time
  ia_key_id :: string
  ia_signature :: string

record spend_policy_pin =
  limit_cents :: i64
  spent_cents :: i64
  window_start :: time
  window_end :: time

record pins =
  identity_sub :: string
  authority_chain :: "string list"
  capabilities_allowed :: "string list"
  allowed_classes :: "string list"
  spend_policy :: spend_policy_pin
  allowed_targets :: "string list"
  threshold_cents :: i64

record grant =
  g_id :: string
  g_sub :: string
  g_status :: grant_status
  g_delegated_by :: string
  g_pins :: pins
  g_created_at :: time
  g_updated_at :: time
  g_revoked_at :: "time option"
  g_attestation :: "identity_attestation option"

datatype pin_status = PinPass | PinFail | PinRequiresApproval

datatype decision = DecisionAllow | DecisionBlock | DecisionRequireApproval | DecisionOther string

record action_request =
  req_grant_id :: string
  req_sub :: string
  req_capability :: string
  req_data_class :: string
  req_target :: string
  req_cost :: i64
  req_approval_id :: string
  req_approval_granted :: bool

record evaluation_result =
  er_decision :: decision
  er_pin_states :: "pin_status gomap"
  er_reasons :: "string gomap"

record receipt =
  r_id :: string
  r_grant_id :: string
  r_sub :: string
  r_authority :: "string list"
  r_pin_states :: "pin_status gomap"
  r_decision :: decision
  r_capability :: string
  r_data_class :: string
  r_target :: string
  r_cost :: i64
  r_approval_ref :: string
  r_attestation_id :: string
  r_created_at :: time
  r_key_id :: string
  r_signature :: string

datatype approval_status =
  ApprovalPending | ApprovalApproved | ApprovalRejected | ApprovalOther string

record approval_request =
  a_id :: string
  a_grant_id :: string
  a_receipt_id :: string
  a_sub :: string
  a_capability :: string
  a_data_class :: string
  a_target :: string
  a_cost :: i64
  a_status :: approval_status
  a_requested_at :: time
  a_resolved_at :: "time option"
  a_approver_sub :: string
  a_approver_attestation :: "identity_attestation option"
  a_reason :: string

subsection \<open>Evaluation (engine.go)\<close>

text \<open>\<open>contains\<close>: some item equals the value up to outer space and letter case.\<close>

fun contains_item :: "string list \<Rightarrow> string \<Rightarrow> bool" where
  "contains_item [] value = False"
| "contains_item (item # items) value =
     (if equal_fold (trim_space item) (trim_space value) then True else contains_item items value)"

text \<open>Each pin yields its state and, unless it passes, a reason.\<close>

type_synonym pin_outcome = "pin_status \<times> string option"

definition identity_pin :: "grant \<Rightarrow> action_request \<Rightarrow> pin_outcome" where
  "identity_pin g q =
     (if g_status g \<noteq> GrantActive then (PinFail, Some ''grant is not active'')
      else if req_sub q = [] \<or> req_sub q \<noteq> identity_sub (g_pins g) \<or> req_sub q \<noteq> g_sub g
      then (PinFail, Some ''subject mismatch'')
      else (PinPass, None))"

definition authority_pin :: "grant \<Rightarrow> action_request \<Rightarrow> pin_outcome" where
  "authority_pin g q =
     (let chain = authority_chain (g_pins g) in
      if chain = [] then (PinFail, Some ''missing authority chain'')
      else let leaf = trim_space (last chain) in
        if leaf = [] \<or> \<not> equal_fold leaf (req_sub q)
        then (PinFail, Some ''authority leaf does not match acting subject'')
        else if g_delegated_by g \<noteq> [] \<and> \<not> contains_item chain (g_delegated_by g)
        then (PinFail, Some ''delegator is not present in authority chain'')
        else (PinPass, None))"

definition capability_pin :: "grant \<Rightarrow> action_request \<Rightarrow> pin_outcome" where
  "capability_pin g q =
     (if contains_item (capabilities_allowed (g_pins g)) (req_capability q) then (PinPass, None)
      else (PinFail, Some ''capability not allowed''))"

definition data_pin :: "grant \<Rightarrow> action_request \<Rightarrow> pin_outcome" where
  "data_pin g q =
     (if contains_item (allowed_classes (g_pins g)) (req_data_class q) then (PinPass, None)
      else (PinFail, Some ''data class not allowed''))"

definition spend_pin :: "grant \<Rightarrow> action_request \<Rightarrow> time \<Rightarrow> pin_outcome" where
  "spend_pin g q now =
     (let sp = spend_policy (g_pins g) in
      if now < window_start sp \<or> now > window_end sp then (PinFail, Some ''outside spend window'')
      else if sint (spent_cents sp + req_cost q) > sint (limit_cents sp)
      then (PinFail, Some ''budget exceeded'')
      else (PinPass, None))"

definition target_pin :: "grant \<Rightarrow> action_request \<Rightarrow> pin_outcome" where
  "target_pin g q =
     (if contains_item (allowed_targets (g_pins g)) (req_target q) then (PinPass, None)
      else (PinFail, Some ''target not allowed''))"

definition approval_pin :: "grant \<Rightarrow> action_request \<Rightarrow> pin_outcome" where
  "approval_pin g q =
     (if sint (threshold_cents (g_pins g)) > 0 \<and> sint (req_cost q) \<ge> sint (threshold_cents (g_pins g))
      then (if req_approval_granted q then (PinPass, None)
            else (PinRequiresApproval, Some ''cost crosses approval threshold''))
      else (PinPass, None))"

definition pin_outcomes :: "grant \<Rightarrow> action_request \<Rightarrow> time \<Rightarrow> pin_outcome gomap" where
  "pin_outcomes g q now =
     [(''identity'', identity_pin g q), (''authority_chain'', authority_pin g q),
      (''capabilities'', capability_pin g q), (''data_policy'', data_pin g q),
      (''spend_policy'', spend_pin g q now), (''execution_targets'', target_pin g q),
      (''approval'', approval_pin g q)]"

text \<open>The two loops over the pin states, which stop at the first hit in any order.\<close>

definition decide :: "pin_status list \<Rightarrow> decision" where
  "decide sts =
     (if list_ex (\<lambda>st. st = PinFail) sts then DecisionBlock
      else if list_ex (\<lambda>st. st = PinRequiresApproval) sts then DecisionRequireApproval
      else DecisionAllow)"

definition evaluate_action :: "grant \<Rightarrow> action_request \<Rightarrow> time \<Rightarrow> evaluation_result" where
  "evaluate_action g q now =
     (let outs = pin_outcomes g q now;
          states = map (\<lambda>(k, st, r). (k, st)) outs
      in \<lparr>er_decision = decide (map snd states), er_pin_states = states,
          er_reasons = List.map_filter (\<lambda>(k, st, r). map_option (Pair k) r) outs\<rparr>)"

subsection \<open>Lemmas\<close>

named_theorems pin_defs "definitions of the seven pins"
declare identity_pin_def [pin_defs] authority_pin_def [pin_defs] capability_pin_def [pin_defs]
  data_pin_def [pin_defs] spend_pin_def [pin_defs] target_pin_def [pin_defs] approval_pin_def [pin_defs]

lemma decide_perm: "set xs = set ys \<Longrightarrow> decide xs = decide ys"
  by (simp add: decide_def list_ex_iff)

lemma decide_allow: "decide sts = DecisionAllow \<longleftrightarrow> (\<forall>st \<in> set sts. st = PinPass)"
  by (auto simp: decide_def list_ex_iff) (metis pin_status.exhaust)

lemma decide_block: "decide sts = DecisionBlock \<longleftrightarrow> PinFail \<in> set sts"
  by (auto simp: decide_def list_ex_iff)

lemma decide_require:
  "decide sts = DecisionRequireApproval \<longleftrightarrow> PinRequiresApproval \<in> set sts \<and> PinFail \<notin> set sts"
  by (auto simp: decide_def list_ex_iff)

lemma contains_item_iff:
  "contains_item items v \<longleftrightarrow> (\<exists>i \<in> set items. equal_fold (trim_space i) (trim_space v))"
  by (induction items) auto

text \<open>What each pin checks, as a proposition.\<close>

definition subject_ok :: "grant \<Rightarrow> action_request \<Rightarrow> bool" where
  "subject_ok g q \<longleftrightarrow> g_status g = GrantActive \<and> req_sub q \<noteq> [] \<and> req_sub q = identity_sub (g_pins g)
     \<and> req_sub q = g_sub g"

definition authority_ok :: "grant \<Rightarrow> action_request \<Rightarrow> bool" where
  "authority_ok g q \<longleftrightarrow>
     (\<exists>up leaf. authority_chain (g_pins g) = up @ [leaf] \<and> trim_space leaf \<noteq> []
        \<and> equal_fold (trim_space leaf) (req_sub q))
     \<and> (g_delegated_by g = [] \<or> contains_item (authority_chain (g_pins g)) (g_delegated_by g))"

definition scope_ok :: "grant \<Rightarrow> action_request \<Rightarrow> bool" where
  "scope_ok g q \<longleftrightarrow> contains_item (capabilities_allowed (g_pins g)) (req_capability q)
     \<and> contains_item (allowed_classes (g_pins g)) (req_data_class q)
     \<and> contains_item (allowed_targets (g_pins g)) (req_target q)"

definition spend_ok :: "grant \<Rightarrow> action_request \<Rightarrow> time \<Rightarrow> bool" where
  "spend_ok g q now \<longleftrightarrow>
     window_start (spend_policy (g_pins g)) \<le> now \<and> now \<le> window_end (spend_policy (g_pins g))
     \<and> sint (spent_cents (spend_policy (g_pins g)) + req_cost q) \<le> sint (limit_cents (spend_policy (g_pins g)))"

definition needs_approval :: "grant \<Rightarrow> action_request \<Rightarrow> bool" where
  "needs_approval g q \<longleftrightarrow> 0 < sint (threshold_cents (g_pins g))
     \<and> sint (threshold_cents (g_pins g)) \<le> sint (req_cost q)"

lemma identity_pin_pass: "fst (identity_pin g q) = (if subject_ok g q then PinPass else PinFail)"
  by (auto simp: identity_pin_def subject_ok_def)

lemma authority_pin_pass: "fst (authority_pin g q) = (if authority_ok g q then PinPass else PinFail)"
proof (cases "authority_chain (g_pins g)" rule: rev_cases)
  case Nil
  then show ?thesis by (simp add: authority_pin_def authority_ok_def)
next
  case (snoc up leaf)
  then show ?thesis by (auto simp: authority_pin_def authority_ok_def Let_def)
qed

lemma spend_pin_pass: "fst (spend_pin g q now) = (if spend_ok g q now then PinPass else PinFail)"
  by (auto simp: spend_pin_def spend_ok_def Let_def)

lemma approval_pin_pass:
  "fst (approval_pin g q) =
     (if needs_approval g q \<and> \<not> req_approval_granted q then PinRequiresApproval else PinPass)"
  by (auto simp: approval_pin_def needs_approval_def)

lemma scope_pins_pass:
  "fst (capability_pin g q) = (if contains_item (capabilities_allowed (g_pins g)) (req_capability q) then PinPass else PinFail)"
  "fst (data_pin g q) = (if contains_item (allowed_classes (g_pins g)) (req_data_class q) then PinPass else PinFail)"
  "fst (target_pin g q) = (if contains_item (allowed_targets (g_pins g)) (req_target q) then PinPass else PinFail)"
  by (simp_all add: capability_pin_def data_pin_def target_pin_def)

lemmas pins_pass = identity_pin_pass authority_pin_pass spend_pin_pass approval_pin_pass scope_pins_pass

lemma pin_states_evaluate:
  "er_pin_states (evaluate_action g q now) = map (\<lambda>(k, o1). (k, fst o1)) (pin_outcomes g q now)"
  by (simp add: evaluate_action_def Let_def case_prod_unfold)

lemma decision_evaluate:
  "er_decision (evaluate_action g q now) = decide (map (fst \<circ> snd) (pin_outcomes g q now))"
  by (simp add: evaluate_action_def Let_def case_prod_unfold comp_def)

lemma pin_lookup_evaluate:
  "map_of (er_pin_states (evaluate_action g q now)) k
     = map_option fst (map_of (pin_outcomes g q now) k)"
  by (simp add: pin_states_evaluate map_of_map)

definition gate_ok :: "grant \<Rightarrow> action_request \<Rightarrow> time \<Rightarrow> bool" where
  "gate_ok g q now \<longleftrightarrow> subject_ok g q \<and> authority_ok g q \<and> scope_ok g q \<and> spend_ok g q now"

lemma evaluate_decision_cases:
  "er_decision (evaluate_action g q now) =
     (if \<not> gate_ok g q now then DecisionBlock
      else if needs_approval g q \<and> \<not> req_approval_granted q then DecisionRequireApproval
      else DecisionAllow)"
  by (simp add: decision_evaluate decide_def pin_outcomes_def pins_pass gate_ok_def scope_ok_def)

subsection \<open>Properties\<close>

text \<open>
  (C1) The decision of \<open>EvaluateAction\<close>, characterised: it is \<open>allow\<close> exactly when the grant is active
  and names the acting subject, the authority chain ends in that subject and contains the delegator,
  capability, data class and target are listed, the time is inside the spend window with the cost
  within budget, and the approval threshold is not crossed or an approval was granted. Every one of
  the seven pins has a state, and a reason is given for exactly the pins that do not pass.
\<close>

theorem evaluate_action_decision:
  "(er_decision (evaluate_action g q now) = DecisionAllow \<longleftrightarrow>
      gate_ok g q now \<and> (needs_approval g q \<longrightarrow> req_approval_granted q))
   \<and> (er_decision (evaluate_action g q now) = DecisionRequireApproval \<longleftrightarrow>
      gate_ok g q now \<and> needs_approval g q \<and> \<not> req_approval_granted q)
   \<and> map fst (er_pin_states (evaluate_action g q now)) =
      [''identity'', ''authority_chain'', ''capabilities'', ''data_policy'', ''spend_policy'', ''execution_targets'', ''approval'']
   \<and> map fst (er_reasons (evaluate_action g q now)) =
      map fst (filter (\<lambda>(k, st). st \<noteq> PinPass) (er_pin_states (evaluate_action g q now)))"
proof -
  have each: "fst (identity_pin g q) = PinPass \<longleftrightarrow> snd (identity_pin g q) = None"
    "fst (authority_pin g q) = PinPass \<longleftrightarrow> snd (authority_pin g q) = None"
    "fst (capability_pin g q) = PinPass \<longleftrightarrow> snd (capability_pin g q) = None"
    "fst (data_pin g q) = PinPass \<longleftrightarrow> snd (data_pin g q) = None"
    "fst (spend_pin g q now) = PinPass \<longleftrightarrow> snd (spend_pin g q now) = None"
    "fst (target_pin g q) = PinPass \<longleftrightarrow> snd (target_pin g q) = None"
    "fst (approval_pin g q) = PinPass \<longleftrightarrow> snd (approval_pin g q) = None"
    by (simp_all add: pin_defs Let_def)
  have pin: "fst o1 = PinPass \<longleftrightarrow> snd o1 = None"
    if "(k, o1) \<in> set (pin_outcomes g q now)" for k o1
    using that each by (auto simp: pin_outcomes_def)
  have "map fst (List.map_filter (\<lambda>(k, st, r). map_option (Pair k) r) outs)
      = map fst (filter (\<lambda>(k, st). st \<noteq> PinPass) (map (\<lambda>(k, st, r). (k, st)) outs))"
    if "\<And>k o1. (k, o1) \<in> set outs \<Longrightarrow> fst o1 = PinPass \<longleftrightarrow> snd o1 = None" for outs :: "pin_outcome gomap"
    using that
  proof (induction outs)
    case (Cons x outs)
    obtain k st r where x: "x = (k, st, r)" by (cases x) auto
    have "st = PinPass \<longleftrightarrow> r = None" using Cons.prems [of k "(st, r)"] x by simp
    then show ?case using Cons x by (auto simp: List.map_filter_simps split: option.splits)
  qed (simp add: List.map_filter_simps)
  from this [OF pin] have "map fst (er_reasons (evaluate_action g q now)) =
      map fst (filter (\<lambda>(k, st). st \<noteq> PinPass) (er_pin_states (evaluate_action g q now)))"
    by (simp add: evaluate_action_def Let_def)
  then show ?thesis
    by (auto simp: evaluate_decision_cases pin_states_evaluate pin_outcomes_def)
qed

lemma evaluate_action_decision_witness:
  "let g = \<lparr>g_id = ''g'', g_sub = ''a'', g_status = GrantActive, g_delegated_by = [],
     g_pins = \<lparr>identity_sub = ''a'', authority_chain = [''a''], capabilities_allowed = [''chat''],
       allowed_classes = [''public''],
       spend_policy = \<lparr>limit_cents = 10, spent_cents = 9, window_start = 0, window_end = 9\<rparr>,
       allowed_targets = [''t''], threshold_cents = 0\<rparr>,
     g_created_at = 0, g_updated_at = 0, g_revoked_at = None, g_attestation = None\<rparr>;
     q = \<lparr>req_grant_id = ''g'', req_sub = ''a'', req_capability = ''Chat '', req_data_class = ''public'',
       req_target = ''t'', req_cost = 1, req_approval_id = [], req_approval_granted = False\<rparr>
   in er_decision (evaluate_action g q 5) = DecisionAllow"
proof -
  let ?g = "\<lparr>g_id = ''g'', g_sub = ''a'', g_status = GrantActive, g_delegated_by = [],
     g_pins = \<lparr>identity_sub = ''a'', authority_chain = [''a''], capabilities_allowed = [''chat''],
       allowed_classes = [''public''],
       spend_policy = \<lparr>limit_cents = 10, spent_cents = 9, window_start = 0, window_end = 9\<rparr>,
       allowed_targets = [''t''], threshold_cents = 0\<rparr>,
     g_created_at = 0, g_updated_at = 0, g_revoked_at = None, g_attestation = None\<rparr>"
  let ?q = "\<lparr>req_grant_id = ''g'', req_sub = ''a'', req_capability = ''Chat '', req_data_class = ''public'',
       req_target = ''t'', req_cost = 1, req_approval_id = [], req_approval_granted = False\<rparr>"
  have e: "trim_space ''a'' = ''a''" "trim_space ''chat'' = ''chat''" "trim_space ''Chat '' = ''Chat''"
    "trim_space ''public'' = ''public''" "trim_space ''t'' = ''t''" "equal_fold ''chat'' ''Chat''"
    by code_simp+
  have "gate_ok ?g ?q 5 \<and> \<not> needs_approval ?g ?q"
    by (simp add: gate_ok_def subject_ok_def authority_ok_def scope_ok_def spend_ok_def needs_approval_def e)
  then show ?thesis using evaluate_action_decision [of ?g ?q 5] by (simp add: Let_def)
qed

text \<open>
  Budget: when the arithmetic does not overflow, an allowed or approvable action leaves the spent
  amount within the grant's limit, and the action happens inside the spend window.
\<close>

theorem allowed_within_budget:
  assumes "er_decision (evaluate_action g q now) \<noteq> DecisionBlock"
    and "0 \<le> sint (spent_cents (spend_policy (g_pins g)))" and "0 \<le> sint (req_cost q)"
    and "sint (spent_cents (spend_policy (g_pins g))) + sint (req_cost q) < 2 ^ 63"
  shows "sint (spent_cents (spend_policy (g_pins g))) + sint (req_cost q) \<le> sint (limit_cents (spend_policy (g_pins g)))
     \<and> window_start (spend_policy (g_pins g)) \<le> now \<and> now \<le> window_end (spend_policy (g_pins g))"
proof -
  have "spend_ok g q now"
    using assms(1) by (auto simp: evaluate_decision_cases gate_ok_def split: if_splits)
  moreover have "sint (spent_cents (spend_policy (g_pins g)) + req_cost q)
      = sint (spent_cents (spend_policy (g_pins g))) + sint (req_cost q)"
    using assms(2-4) by (simp add: sint_word_ariths signed_take_bit_int_eq_self)
  ultimately show ?thesis by (simp add: spend_ok_def)
qed

lemma allowed_within_budget_witness:
  "let g = \<lparr>g_id = ''g'', g_sub = ''a'', g_status = GrantActive, g_delegated_by = [],
     g_pins = \<lparr>identity_sub = ''a'', authority_chain = [''a''], capabilities_allowed = [''chat''],
       allowed_classes = [''public''],
       spend_policy = \<lparr>limit_cents = 10, spent_cents = 8, window_start = 0, window_end = 9\<rparr>,
       allowed_targets = [''t''], threshold_cents = 1\<rparr>,
     g_created_at = 0, g_updated_at = 0, g_revoked_at = None, g_attestation = None\<rparr>;
     q = \<lparr>req_grant_id = ''g'', req_sub = ''a'', req_capability = ''chat'', req_data_class = ''public'',
       req_target = ''t'', req_cost = 2, req_approval_id = [], req_approval_granted = False\<rparr>
   in er_decision (evaluate_action g q 5) \<noteq> DecisionBlock
      \<and> sint (spent_cents (spend_policy (g_pins g))) + sint (req_cost q) \<le> sint (limit_cents (spend_policy (g_pins g)))"
proof -
  let ?g = "\<lparr>g_id = ''g'', g_sub = ''a'', g_status = GrantActive, g_delegated_by = [],
     g_pins = \<lparr>identity_sub = ''a'', authority_chain = [''a''], capabilities_allowed = [''chat''],
       allowed_classes = [''public''],
       spend_policy = \<lparr>limit_cents = 10, spent_cents = 8, window_start = 0, window_end = 9\<rparr>,
       allowed_targets = [''t''], threshold_cents = 1\<rparr>,
     g_created_at = 0, g_updated_at = 0, g_revoked_at = None, g_attestation = None\<rparr>"
  let ?q = "\<lparr>req_grant_id = ''g'', req_sub = ''a'', req_capability = ''chat'', req_data_class = ''public'',
       req_target = ''t'', req_cost = 2, req_approval_id = [], req_approval_granted = False\<rparr>"
  have e: "trim_space ''a'' = ''a''" "trim_space ''chat'' = ''chat''" "trim_space ''public'' = ''public''" "trim_space ''t'' = ''t''"
    by code_simp+
  have "gate_ok ?g ?q 5"
    by (simp add: gate_ok_def subject_ok_def authority_ok_def scope_ok_def spend_ok_def e)
  then have "er_decision (evaluate_action ?g ?q 5) \<noteq> DecisionBlock" by (simp add: evaluate_decision_cases)
  then show ?thesis using allowed_within_budget [of ?g ?q 5] by (simp add: Let_def)
qed

text \<open>
  The budget comparison itself is an \<open>int64\<close> sum: a cost that makes it overflow passes the spend pin
  although it exceeds the limit.
\<close>

theorem spend_pin_overflow:
  assumes "window_start (spend_policy (g_pins g)) \<le> now" and "now \<le> window_end (spend_policy (g_pins g))"
    and "0 < sint (spent_cents (spend_policy (g_pins g)))" and "0 \<le> sint (limit_cents (spend_policy (g_pins g)))"
    and "req_cost q = 0x7FFFFFFFFFFFFFFF"
  shows "fst (spend_pin g q now) = PinPass"
proof -
  let ?s = "spent_cents (spend_policy (g_pins g))"
  have c: "sint (0x7FFFFFFFFFFFFFFF :: i64) = 2 ^ 63 - 1" by simp
  have b: "sint ?s < 2 ^ 63" using sint_lt [of ?s] by simp
  have "sint (?s + 0x7FFFFFFFFFFFFFFF) = signed_take_bit 63 (sint ?s + (2 ^ 63 - 1))"
    using sint_word_ariths(1) [of ?s "0x7FFFFFFFFFFFFFFF"] c by simp
  also have "\<dots> = signed_take_bit 63 (sint ?s - 2 ^ 63 - 1)"
  proof -
    have "sint ?s + (2 ^ 63 - 1) = (sint ?s - 2 ^ 63 - 1) + 2 ^ 64" by simp
    then have "(sint ?s + (2 ^ 63 - 1)) mod 2 ^ 64 = (sint ?s - 2 ^ 63 - 1) mod 2 ^ 64"
      by (metis mod_add_self2)
    then show ?thesis by (simp add: signed_take_bit_eq_iff_take_bit_eq take_bit_eq_mod)
  qed
  also have "\<dots> = sint ?s - 2 ^ 63 - 1"
    using assms(3) b by (simp add: signed_take_bit_int_eq_self)
  finally have "sint (?s + 0x7FFFFFFFFFFFFFFF) < 0" using b by simp
  then show ?thesis using assms by (simp add: spend_pin_pass spend_ok_def)
qed

end
