(* ===== verification/Signing.thy ===== *)
theory Signing
  imports Policy
begin

text \<open>
  Package \<open>internal/policy\<close>, the signed artifacts: receipts (\<open>receipt.go\<close>), hosted identity
  attestations (\<open>attestation.go\<close>) and grant export tokens (\<open>export.go\<close>).

  Ed25519 and the JSON encoder are parameters: \<open>sg\<close> signs and \<open>vf\<close> verifies a byte string,
  \<open>mar\<close> encodes a value (\<open>None\<close> when \<open>json.Marshal\<close> fails) and \<open>unm\<close> decodes one. The
  theorems name what they need of them: that a signature made with the private key verifies
  under its public key, and that decoding inverts encoding. Base64 is the concrete one.
\<close>

datatype sign_error =
    MarshalFailed | BadBase64 | MissingReceiptSignature | InvalidReceiptSignature
  | MissingAttestationId | InvalidSubject | InvalidIssuer | InvalidAudience | InvalidMethod
  | NotCurrentlyValid | InvalidAttestationSignature
  | InvalidTokenFormat | InvalidSignature | UnmarshalFailed | ExportExpired

subsection \<open>Receipts\<close>

definition new_receipt :: "string \<Rightarrow> grant \<Rightarrow> action_request \<Rightarrow> evaluation_result \<Rightarrow> time \<Rightarrow> receipt" where
  "new_receipt rid g q res now =
     \<lparr>r_id = rid, r_grant_id = g_id g, r_sub = req_sub q,
      r_authority = authority_chain (g_pins g), r_pin_states = er_pin_states res,
      r_decision = er_decision res, r_capability = req_capability q,
      r_data_class = req_data_class q, r_target = req_target q, r_cost = req_cost q,
      r_approval_ref = [],
      r_attestation_id = (case g_attestation g of None \<Rightarrow> [] | Some a \<Rightarrow> ia_id a),
      r_created_at = now, r_key_id = [], r_signature = []\<rparr>"

record signable_receipt =
  s_id :: string
  s_grant_id :: string
  s_sub :: string
  s_authority :: "string list"
  s_pin_states :: "pin_status gomap"
  s_decision :: decision
  s_capability :: string
  s_data_class :: string
  s_target :: string
  s_cost :: i64
  s_approval_ref :: string
  s_attestation_id :: string
  s_created_at :: time

definition signable_of :: "receipt \<Rightarrow> signable_receipt" where
  "signable_of r =
     \<lparr>s_id = r_id r, s_grant_id = r_grant_id r, s_sub = r_sub r, s_authority = r_authority r,
      s_pin_states = r_pin_states r, s_decision = r_decision r, s_capability = r_capability r,
      s_data_class = r_data_class r, s_target = r_target r, s_cost = r_cost r,
      s_approval_ref = r_approval_ref r, s_attestation_id = r_attestation_id r,
      s_created_at = r_created_at r\<rparr>"

definition receipt_payload_bytes :: "(signable_receipt \<Rightarrow> string option) \<Rightarrow> receipt \<Rightarrow> sign_error + string" where
  "receipt_payload_bytes mar r =
     (case mar (signable_of r) of None \<Rightarrow> Inl MarshalFailed | Some b \<Rightarrow> Inr b)"

definition sign_receipt ::
  "(signable_receipt \<Rightarrow> string option) \<Rightarrow> ('sk \<Rightarrow> string \<Rightarrow> string) \<Rightarrow> receipt \<Rightarrow> 'sk \<Rightarrow> string
     \<Rightarrow> sign_error + receipt" where
  "sign_receipt mar sg r priv kid =
     (case receipt_payload_bytes mar r of
        Inl e \<Rightarrow> Inl e
      | Inr payload \<Rightarrow>
          Inr (r\<lparr>r_key_id := kid, r_signature := raw_url_encode (sg priv payload)\<rparr>))"

definition verify_receipt ::
  "(signable_receipt \<Rightarrow> string option) \<Rightarrow> ('pk \<Rightarrow> string \<Rightarrow> string \<Rightarrow> bool) \<Rightarrow> receipt \<Rightarrow> 'pk
     \<Rightarrow> sign_error + unit" where
  "verify_receipt mar vf r pub =
     (if r_signature r = [] then Inl MissingReceiptSignature
      else case receipt_payload_bytes mar r of
        Inl e \<Rightarrow> Inl e
      | Inr payload \<Rightarrow>
          (case raw_url_decode (r_signature r) of
             None \<Rightarrow> Inl BadBase64
           | Some sig \<Rightarrow> if \<not> vf pub payload sig then Inl InvalidReceiptSignature else Inr ()))"

subsection \<open>Identity attestations\<close>

definition ck_sub_char :: "char \<Rightarrow> bool" where
  "ck_sub_char c \<longleftrightarrow> is_alnum c \<or> c \<in> set ''._:@/-''"

definition ck_sub_ok :: "string \<Rightarrow> bool" where
  "ck_sub_ok s \<longleftrightarrow> 3 \<le> length s \<and> length s \<le> 256 \<and> list_all ck_sub_char s"

text \<open>The signable attestation is the record without its signature.\<close>

record signable_attestation =
  sa_id :: string
  sa_subject :: string
  sa_issuer :: string
  sa_audience :: string
  sa_method :: string
  sa_issued_at :: time
  sa_expires_at :: time
  sa_key_id :: string

definition signable_attestation_of :: "identity_attestation \<Rightarrow> signable_attestation" where
  "signable_attestation_of a =
     \<lparr>sa_id = ia_id a, sa_subject = ia_subject a, sa_issuer = ia_issuer a,
      sa_audience = ia_audience a, sa_method = ia_method a, sa_issued_at = ia_issued_at a,
      sa_expires_at = ia_expires_at a, sa_key_id = ia_key_id a\<rparr>"

definition verify_identity_attestation ::
  "(signable_attestation \<Rightarrow> string option) \<Rightarrow> ('pk \<Rightarrow> string \<Rightarrow> string \<Rightarrow> bool)
     \<Rightarrow> identity_attestation \<Rightarrow> 'pk \<Rightarrow> string \<Rightarrow> time \<Rightarrow> sign_error + unit" where
  "verify_identity_attestation mar vf a pub expected_issuer now =
     (if trim_space (ia_id a) = [] then Inl MissingAttestationId
      else if \<not> ck_sub_ok (ia_subject a) then Inl InvalidSubject
      else if ia_issuer a \<noteq> expected_issuer then Inl InvalidIssuer
      else if ia_audience a \<noteq> ''21pins'' then Inl InvalidAudience
      else if ia_method a \<noteq> ''hosted_ck'' then Inl InvalidMethod
      else if now + 2 * minute < ia_issued_at a \<or> \<not> (now - 2 * minute < ia_expires_at a)
      then Inl NotCurrentlyValid
      else case mar (signable_attestation_of a) of
        None \<Rightarrow> Inl MarshalFailed
      | Some payload \<Rightarrow>
          (case raw_url_decode (ia_signature a) of
             None \<Rightarrow> Inl BadBase64
           | Some sig \<Rightarrow> if \<not> vf pub payload sig then Inl InvalidAttestationSignature else Inr ()))"

definition sign_identity_attestation ::
  "(signable_attestation \<Rightarrow> string option) \<Rightarrow> ('sk \<Rightarrow> string \<Rightarrow> string)
     \<Rightarrow> identity_attestation \<Rightarrow> 'sk \<Rightarrow> sign_error + identity_attestation" where
  "sign_identity_attestation mar sg a priv =
     (case mar (signable_attestation_of a) of
        None \<Rightarrow> Inl MarshalFailed
      | Some payload \<Rightarrow> Inr (a\<lparr>ia_signature := raw_url_encode (sg priv payload)\<rparr>))"

subsection \<open>Grant exports\<close>

record grant_export_payload =
  gx_grant_id :: string
  gx_sub :: string
  gx_pins :: pins
  gx_issued_at :: time
  gx_expires_at :: time
  gx_key_id :: string

definition export_payload :: "grant \<Rightarrow> string \<Rightarrow> time \<Rightarrow> int \<Rightarrow> grant_export_payload" where
  "export_payload g kid now ttl =
     (let t = (if ttl \<le> 0 then 15 * minute else ttl)
      in \<lparr>gx_grant_id = g_id g, gx_sub = g_sub g, gx_pins = g_pins g, gx_issued_at = now,
          gx_expires_at = now + t, gx_key_id = kid\<rparr>)"

definition sign_grant_export ::
  "(grant_export_payload \<Rightarrow> string option) \<Rightarrow> ('sk \<Rightarrow> string \<Rightarrow> string) \<Rightarrow> grant \<Rightarrow> 'sk \<Rightarrow> string
     \<Rightarrow> time \<Rightarrow> int \<Rightarrow> sign_error + string" where
  "sign_grant_export mar sg g priv kid now ttl =
     (case mar (export_payload g kid now ttl) of
        None \<Rightarrow> Inl MarshalFailed
      | Some b \<Rightarrow> Inr (raw_url_encode b @ ''.'' @ raw_url_encode (sg priv b)))"

definition verify_grant_export ::
  "(string \<Rightarrow> grant_export_payload option) \<Rightarrow> ('pk \<Rightarrow> string \<Rightarrow> string \<Rightarrow> bool) \<Rightarrow> string \<Rightarrow> 'pk
     \<Rightarrow> time \<Rightarrow> sign_error + grant_export_payload" where
  "verify_grant_export unm vf token pub now =
     (case split_on (CHR ''.'') token of
        [p0, p1] \<Rightarrow>
          (case raw_url_decode p0 of
             None \<Rightarrow> Inl BadBase64
           | Some payload_bytes \<Rightarrow>
               (case raw_url_decode p1 of
                  None \<Rightarrow> Inl BadBase64
                | Some sig \<Rightarrow>
                    if \<not> vf pub payload_bytes sig then Inl InvalidSignature
                    else (case unm payload_bytes of
                        None \<Rightarrow> Inl UnmarshalFailed
                      | Some payload \<Rightarrow>
                          if now > gx_expires_at payload then Inl ExportExpired else Inr payload)))
      | _ \<Rightarrow> Inl InvalidTokenFormat)"

subsection \<open>Lemmas\<close>

lemma split_on_plain: "c \<notin> set s \<Longrightarrow> split_on c s = [s]"
  by (induction s) auto

lemma split_on_append: "c \<notin> set s \<Longrightarrow> split_on c (s @ c # t) = s # split_on c t"
  by (induction s) (auto split: list.splits)

lemma split_on_nonempty [simp]: "split_on c s \<noteq> []"
  by (induction s) (auto split: list.splits)

lemma length_split_on: "length (split_on c s) = Suc (count_list s c)"
  by (induction s) (auto split: list.splits)

lemma signable_of_sign [simp]:
  "signable_of (r\<lparr>r_key_id := k, r_signature := s\<rparr>) = signable_of r"
  "signable_of (r\<lparr>r_key_id := k\<rparr>) = signable_of r"
  by (simp_all add: signable_of_def)

lemma signable_attestation_of_sign [simp]:
  "signable_attestation_of (a\<lparr>ia_signature := s\<rparr>) = signable_attestation_of a"
  by (simp add: signable_attestation_of_def)

lemma raw_url_encode_empty: "raw_url_encode s = [] \<longleftrightarrow> s = []"
proof
  assume "raw_url_encode s = []"
  then have "raw_url_decode [] = Some s" using raw_url_decode_encode [of s] by simp
  then show "s = []" by (simp add: raw_url_decode_def drop_eol_def b64_body_def)
qed (simp add: raw_url_encode_def)

lemma verify_receipt_iff:
  "verify_receipt mar vf r pub = Inr () \<longleftrightarrow>
     (\<exists>payload sig. r_signature r \<noteq> [] \<and> mar (signable_of r) = Some payload
        \<and> raw_url_decode (r_signature r) = Some sig \<and> vf pub payload sig)"
  by (auto simp: verify_receipt_def receipt_payload_bytes_def split: option.splits)

lemma verify_attestation_iff:
  "verify_identity_attestation mar vf a pub iss now = Inr () \<longleftrightarrow>
     trim_space (ia_id a) \<noteq> [] \<and> ck_sub_ok (ia_subject a) \<and> ia_issuer a = iss
     \<and> ia_audience a = ''21pins'' \<and> ia_method a = ''hosted_ck''
     \<and> ia_issued_at a \<le> now + 2 * minute \<and> now - 2 * minute < ia_expires_at a
     \<and> (\<exists>payload sig. mar (signable_attestation_of a) = Some payload
          \<and> raw_url_decode (ia_signature a) = Some sig \<and> vf pub payload sig)"
  by (auto simp: verify_identity_attestation_def split: option.splits)

lemma verify_grant_export_token:
  assumes "unm b = Some p"
  shows "verify_grant_export unm vf (raw_url_encode b @ ''.'' @ raw_url_encode sig) pub now =
     (if \<not> vf pub b sig then Inl InvalidSignature
      else if now > gx_expires_at p then Inl ExportExpired else Inr p)"
proof -
  have "split_on (CHR ''.'') (raw_url_encode b @ ''.'' @ raw_url_encode sig)
      = [raw_url_encode b, raw_url_encode sig]"
    using split_on_append [OF raw_url_encode_no_dot, of b "raw_url_encode sig"]
    by (simp add: split_on_plain raw_url_encode_no_dot)
  then show ?thesis using assms by (simp add: verify_grant_export_def)
qed

subsection \<open>Properties\<close>

text \<open>
  Receipts that say the same: every field but the key id and the signature, the states of the pins
  as the map they are. The encoder's contract is stated over the values it is given: on those with
  property \<open>V\<close> (texts in valid UTF-8, a time that JSON can write) two values have one encoding
  exactly when they are the same; a map is written with its keys sorted.
\<close>

definition same_signable :: "signable_receipt \<Rightarrow> signable_receipt \<Rightarrow> bool" where
  "same_signable a b \<longleftrightarrow> map_of (s_pin_states a) = map_of (s_pin_states b)
     \<and> a\<lparr>s_pin_states := []\<rparr> = b\<lparr>s_pin_states := []\<rparr>"

definition same_receipt :: "receipt \<Rightarrow> receipt \<Rightarrow> bool" where
  "same_receipt r q \<longleftrightarrow> r_id r = r_id q \<and> r_grant_id r = r_grant_id q \<and> r_sub r = r_sub q
     \<and> r_authority r = r_authority q \<and> map_of (r_pin_states r) = map_of (r_pin_states q)
     \<and> r_decision r = r_decision q \<and> r_capability r = r_capability q \<and> r_data_class r = r_data_class q
     \<and> r_target r = r_target q \<and> r_cost r = r_cost q \<and> r_approval_ref r = r_approval_ref q
     \<and> r_attestation_id r = r_attestation_id q \<and> r_created_at r = r_created_at q"

definition faithful_encoding :: "(signable_receipt \<Rightarrow> bool) \<Rightarrow> (signable_receipt \<Rightarrow> string option) \<Rightarrow> bool" where
  "faithful_encoding V mar \<longleftrightarrow>
     (\<forall>a b p. V a \<and> V b \<and> mar a = Some p \<longrightarrow> (mar b = Some p \<longleftrightarrow> same_signable a b))"

lemma same_signable_of: "same_signable (signable_of r) (signable_of q) \<longleftrightarrow> same_receipt r q"
  by (auto simp: same_signable_def same_receipt_def signable_of_def)

text \<open>
  (C8) Receipts: signing succeeds whenever the receipt can be encoded, and changes the key id and the
  signature only; and a receipt that carries the signature verifies under the matching public key
  exactly when each of the thirteen signed fields is the one that was signed, whatever its key id says.
  The hypotheses are the contracts of the scheme (a signature verifies for the message it was made
  for and no other) and of the encoder.
\<close>

theorem receipt_sign_verify:
  assumes "\<And>m m'. vf pub m' (sg priv m) \<longleftrightarrow> m' = m" and "sg priv payload \<noteq> []"
    and "faithful_encoding V mar" and "V (signable_of r)" and "mar (signable_of r) = Some payload"
  shows "\<exists>r'. sign_receipt mar sg r priv kid = Inr r' \<and> same_receipt r' r \<and> r_key_id r' = kid
     \<and> verify_receipt mar vf r' pub = Inr ()
     \<and> (\<forall>q. r_signature q = r_signature r' \<and> V (signable_of q) \<longrightarrow>
          (verify_receipt mar vf q pub = Inr () \<longleftrightarrow> same_receipt q r)
          \<and> (mar (signable_of q) \<noteq> None \<and> \<not> same_receipt q r \<longrightarrow>
               verify_receipt mar vf q pub = Inl InvalidReceiptSignature))"
proof -
  let ?r = "r\<lparr>r_key_id := kid, r_signature := raw_url_encode (sg priv payload)\<rparr>"
  have s: "sign_receipt mar sg r priv kid = Inr ?r"
    using assms(5) by (simp add: sign_receipt_def receipt_payload_bytes_def)
  have r: "same_receipt ?r r" by (simp add: same_receipt_def)
  have e: "mar (signable_of q) = Some payload \<longleftrightarrow> same_receipt q r" if "V (signable_of q)" for q
    using assms(3-5) that same_signable_of [of r q] by (auto simp: faithful_encoding_def same_receipt_def)
  have v: "verify_receipt mar vf q pub = (case mar (signable_of q) of None \<Rightarrow> Inl MarshalFailed
      | Some m \<Rightarrow> if m = payload then Inr () else Inl InvalidReceiptSignature)"
    if "r_signature q = r_signature ?r" for q
    using that assms(1,2) by (simp add: verify_receipt_def receipt_payload_bytes_def raw_url_encode_empty split: option.split)
  have ok: "verify_receipt mar vf ?r pub = Inr ()" using v [of ?r] assms(5) by simp
  have q: "(verify_receipt mar vf q pub = Inr () \<longleftrightarrow> same_receipt q r)
      \<and> (mar (signable_of q) \<noteq> None \<and> \<not> same_receipt q r \<longrightarrow> verify_receipt mar vf q pub = Inl InvalidReceiptSignature)"
    if "r_signature q = r_signature ?r" "V (signable_of q)" for q
    using e [OF that(2)] unfolding v [OF that(1)] by (cases "mar (signable_of q)") auto
  have k: "r_key_id ?r = kid" by simp
  show ?thesis using s r k ok q by blast
qed

definition sample_receipt :: "i64 \<Rightarrow> receipt" where
  "sample_receipt cost = \<lparr>r_id = ''rcpt_1'', r_grant_id = ''g'', r_sub = ''a'', r_authority = [], r_pin_states = [],
     r_decision = DecisionAllow, r_capability = [], r_data_class = [], r_target = [], r_cost = cost,
     r_approval_ref = [], r_attestation_id = [], r_created_at = 0, r_key_id = [], r_signature = []\<rparr>"

text \<open>A receipt over 5 cents is signed; with the cost changed to 500 it is refused.\<close>

lemma receipt_sign_verify_witness:
  "let mar = (\<lambda>s. Some (dec_int (sint (s_cost s)))); sg = (\<lambda>k m. k @ m); vf = (\<lambda>k m s. s = k @ m)
   in \<exists>r'. sign_receipt mar sg (sample_receipt 5) ''k'' ''id'' = Inr r' \<and> verify_receipt mar vf r' ''k'' = Inr ()
     \<and> verify_receipt mar vf (r'\<lparr>r_cost := 500\<rparr>) ''k'' = Inl InvalidReceiptSignature"
proof -
  let ?V = "\<lambda>s. s = signable_of (sample_receipt 5) \<or> s = signable_of (sample_receipt 500)"
  let ?mar = "\<lambda>s. Some (dec_int (sint (s_cost s)))"
  have d: "dec_int (sint (s_cost (signable_of (sample_receipt 5)))) = ''5''"
    "dec_int (sint (s_cost (signable_of (sample_receipt 500)))) = ''500''" by code_simp+
  have n: "\<not> same_receipt (sample_receipt 5) (sample_receipt 500)" "\<not> same_receipt (sample_receipt 500) (sample_receipt 5)"
    "same_receipt (sample_receipt 5) (sample_receipt 5)" "same_receipt (sample_receipt 500) (sample_receipt 500)"
    by (simp_all add: same_receipt_def sample_receipt_def)
  have f: "faithful_encoding ?V ?mar"
    unfolding faithful_encoding_def using d n by (auto simp: same_signable_of)
  have "\<exists>r'. sign_receipt ?mar (\<lambda>k m. k @ m) (sample_receipt 5) ''k'' ''id'' = Inr r' \<and> same_receipt r' (sample_receipt 5)
     \<and> r_key_id r' = ''id'' \<and> verify_receipt ?mar (\<lambda>k m s. s = k @ m) r' ''k'' = Inr ()
     \<and> (\<forall>q. r_signature q = r_signature r' \<and> ?V (signable_of q) \<longrightarrow>
          (verify_receipt ?mar (\<lambda>k m s. s = k @ m) q ''k'' = Inr () \<longleftrightarrow> same_receipt q (sample_receipt 5))
          \<and> (?mar (signable_of q) \<noteq> None \<and> \<not> same_receipt q (sample_receipt 5) \<longrightarrow>
               verify_receipt ?mar (\<lambda>k m s. s = k @ m) q ''k'' = Inl InvalidReceiptSignature))"
    by (rule receipt_sign_verify [where payload = "''5''" and V = ?V]) (use f d(1) in \<open>auto simp: sample_receipt_def\<close>)
  then obtain r' where r: "sign_receipt ?mar (\<lambda>k m. k @ m) (sample_receipt 5) ''k'' ''id'' = Inr r'"
      "same_receipt r' (sample_receipt 5)" "verify_receipt ?mar (\<lambda>k m s. s = k @ m) r' ''k'' = Inr ()"
    and q: "\<And>q. r_signature q = r_signature r' \<Longrightarrow> ?V (signable_of q) \<Longrightarrow> \<not> same_receipt q (sample_receipt 5) \<Longrightarrow>
      verify_receipt ?mar (\<lambda>k m s. s = k @ m) q ''k'' = Inl InvalidReceiptSignature"
    by blast
  have p: "r_pin_states r' = []" using r(2) by (simp add: same_receipt_def sample_receipt_def)
  have "signable_of (r'\<lparr>r_cost := 500\<rparr>) = signable_of (sample_receipt 500)"
    using r(2) p by (simp add: signable_of_def same_receipt_def sample_receipt_def)
  moreover have "\<not> same_receipt (r'\<lparr>r_cost := 500\<rparr>) (sample_receipt 5)"
    by (simp add: same_receipt_def sample_receipt_def)
  ultimately have "verify_receipt ?mar (\<lambda>k m s. s = k @ m) (r'\<lparr>r_cost := 500\<rparr>) ''k'' = Inl InvalidReceiptSignature"
    using q [of "r'\<lparr>r_cost := 500\<rparr>"] by simp
  then show ?thesis using r by (simp add: Let_def)
qed

text \<open>
  Grant exports: the token of a grant verifies to exactly its id, subject and pins until its
  expiry and is refused after it; the default life time is fifteen minutes.
\<close>

theorem grant_export_roundtrip:
  assumes "\<forall>m. vf pub m (sg priv m)" and "mar (export_payload g kid now ttl) = Some b"
    and "unm b = Some (export_payload g kid now ttl)"
  shows "\<exists>token. sign_grant_export mar sg g priv kid now ttl = Inr token
     \<and> verify_grant_export unm vf token pub later =
          (if later \<le> now + (if ttl \<le> 0 then 15 * minute else ttl)
           then Inr \<lparr>gx_grant_id = g_id g, gx_sub = g_sub g, gx_pins = g_pins g, gx_issued_at = now,
                     gx_expires_at = now + (if ttl \<le> 0 then 15 * minute else ttl), gx_key_id = kid\<rparr>
           else Inl ExportExpired)"
proof -
  let ?p = "export_payload g kid now ttl" and ?token = "raw_url_encode b @ ''.'' @ raw_url_encode (sg priv b)"
  have "sign_grant_export mar sg g priv kid now ttl = Inr ?token"
    using assms(2) by (simp add: sign_grant_export_def)
  moreover have "verify_grant_export unm vf ?token pub later
      = (if gx_expires_at ?p < later then Inl ExportExpired else Inr ?p)"
    using verify_grant_export_token [of unm b ?p, OF assms(3), of vf "sg priv b" pub later] assms(1) by simp
  ultimately show ?thesis by (intro exI [of _ ?token]) (simp add: export_payload_def Let_def)
qed

lemma grant_export_roundtrip_witness:
  "let g = \<lparr>g_id = ''g'', g_sub = ''a'', g_status = GrantActive, g_delegated_by = [],
     g_pins = \<lparr>identity_sub = ''a'', authority_chain = [''a''], capabilities_allowed = [], allowed_classes = [],
       spend_policy = \<lparr>limit_cents = 10, spent_cents = 8, window_start = 0, window_end = 9\<rparr>,
       allowed_targets = [], threshold_cents = 1\<rparr>,
     g_created_at = 0, g_updated_at = 0, g_revoked_at = None, g_attestation = None\<rparr>
   in \<exists>token p. sign_grant_export (\<lambda>p. Some (gx_grant_id p)) (\<lambda>k m. k @ m) g ''k'' ''id'' 5 0 = Inr token
        \<and> verify_grant_export (\<lambda>b. Some (export_payload g ''id'' 5 0)) (\<lambda>k m s. s = k @ m) token ''k'' 6 = Inr p
        \<and> gx_grant_id p = ''g''"
proof -
  let ?g = "\<lparr>g_id = ''g'', g_sub = ''a'', g_status = GrantActive, g_delegated_by = [],
     g_pins = \<lparr>identity_sub = ''a'', authority_chain = [''a''], capabilities_allowed = [], allowed_classes = [],
       spend_policy = \<lparr>limit_cents = 10, spent_cents = 8, window_start = 0, window_end = 9\<rparr>,
       allowed_targets = [], threshold_cents = 1\<rparr>,
     g_created_at = 0, g_updated_at = 0, g_revoked_at = None, g_attestation = None\<rparr>"
  show ?thesis
    using grant_export_roundtrip [of "\<lambda>k m s. s = k @ m" "''k''" "\<lambda>k m. k @ m" "''k''" "\<lambda>p. Some (gx_grant_id p)"
        ?g "''id''" 5 0 "''g''" "\<lambda>b. Some (export_payload ?g ''id'' 5 0)" 6]
    by (auto simp: export_payload_def Let_def minute_def second_def)
qed

text \<open>
  Hosted attestations: one is accepted exactly when it has an id, a well-formed subject, the
  expected issuer, this audience and method, is within its validity up to two minutes of clock skew,
  and its signature verifies; and what \<open>SignIdentityAttestation\<close> produces from such fields is accepted.
\<close>

theorem attestation_accepted_iff:
  "(verify_identity_attestation mar vf a pub iss now = Inr () \<longleftrightarrow>
     trim_space (ia_id a) \<noteq> [] \<and> 3 \<le> length (ia_subject a) \<and> length (ia_subject a) \<le> 256
     \<and> (\<forall>c \<in> set (ia_subject a). is_alnum c \<or> c \<in> {CHR ''.'', CHR ''_'', CHR '':'', CHR ''@'', CHR ''/'', CHR ''-''})
     \<and> ia_issuer a = iss \<and> ia_audience a = ''21pins'' \<and> ia_method a = ''hosted_ck''
     \<and> ia_issued_at a - 2 * minute \<le> now \<and> now < ia_expires_at a + 2 * minute
     \<and> (\<exists>payload sig. mar (signable_attestation_of a) = Some payload
          \<and> raw_url_decode (ia_signature a) = Some sig \<and> vf pub payload sig))
   \<and> (\<forall>payload. mar (signable_attestation_of a) = Some payload \<and> vf pub payload (sg priv payload)
          \<and> trim_space (ia_id a) \<noteq> [] \<and> ck_sub_ok (ia_subject a) \<and> ia_issuer a = iss
          \<and> ia_audience a = ''21pins'' \<and> ia_method a = ''hosted_ck'' \<and> ia_issued_at a \<le> now \<and> now < ia_expires_at a
       \<longrightarrow> (\<exists>a'. sign_identity_attestation mar sg a priv = Inr a'
              \<and> verify_identity_attestation mar vf a' pub iss now = Inr ()))"
proof -
  have m: "0 < minute" by (simp add: minute_def second_def)
  have "verify_identity_attestation mar vf a pub iss now = Inr () \<longleftrightarrow>
     trim_space (ia_id a) \<noteq> [] \<and> 3 \<le> length (ia_subject a) \<and> length (ia_subject a) \<le> 256
     \<and> (\<forall>c \<in> set (ia_subject a). is_alnum c \<or> c \<in> {CHR ''.'', CHR ''_'', CHR '':'', CHR ''@'', CHR ''/'', CHR ''-''})
     \<and> ia_issuer a = iss \<and> ia_audience a = ''21pins'' \<and> ia_method a = ''hosted_ck''
     \<and> ia_issued_at a - 2 * minute \<le> now \<and> now < ia_expires_at a + 2 * minute
     \<and> (\<exists>payload sig. mar (signable_attestation_of a) = Some payload
          \<and> raw_url_decode (ia_signature a) = Some sig \<and> vf pub payload sig)"
    unfolding verify_attestation_iff ck_sub_ok_def ck_sub_char_def list_all_iff
    by (auto simp: algebra_simps)
  moreover have "verify_identity_attestation mar vf (a\<lparr>ia_signature := raw_url_encode (sg priv payload)\<rparr>) pub iss now = Inr ()"
    if "mar (signable_attestation_of a) = Some payload" "vf pub payload (sg priv payload)"
      "trim_space (ia_id a) \<noteq> []" "ck_sub_ok (ia_subject a)" "ia_issuer a = iss"
      "ia_audience a = ''21pins''" "ia_method a = ''hosted_ck''" "ia_issued_at a \<le> now" "now < ia_expires_at a" for payload
    using that m by (simp add: verify_attestation_iff)
  ultimately show ?thesis by (auto simp: sign_identity_attestation_def)
qed

lemma attestation_accepted_iff_witness:
  "\<exists>a'. sign_identity_attestation (\<lambda>a. Some (sa_id a)) (\<lambda>k m. k @ m)
        (\<lparr>ia_id = ''att'', ia_subject = ''ck:bob'', ia_issuer = ''iss'', ia_audience = ''21pins'', ia_method = ''hosted_ck'',
          ia_issued_at = 0, ia_expires_at = 100, ia_key_id = [], ia_signature = []\<rparr>) ''k'' = Inr a'
     \<and> verify_identity_attestation (\<lambda>a. Some (sa_id a)) (\<lambda>k m s. s = k @ m) a' ''k'' ''iss'' 50 = Inr ()"
proof -
  let ?a = "\<lparr>ia_id = ''att'', ia_subject = ''ck:bob'', ia_issuer = ''iss'', ia_audience = ''21pins'', ia_method = ''hosted_ck'',
          ia_issued_at = 0, ia_expires_at = 100, ia_key_id = [], ia_signature = []\<rparr>"
  have e: "trim_space ''att'' = ''att''" "ck_sub_ok ''ck:bob''" by code_simp+
  show ?thesis
    using attestation_accepted_iff [of "\<lambda>a. Some (sa_id a)" "\<lambda>k m s. s = k @ m" ?a "''k''" "''iss''" 50 "\<lambda>k m. k @ m" "''k''"] e
    by (simp add: signable_attestation_of_def)
qed

end
