(* ===== verification/StoreBase.thy ===== *)
theory StoreBase
  imports Signing
begin

text \<open>
  Package \<open>internal/store\<close>, the part all its operations share (\<open>store.go\<close>): the persisted
  \<open>State\<close>, the state file, loading, reloading, and the save that replaces the file atomically
  and rolls the memory back when it fails.

  The file system is the \<open>disk\<close> field of the store (the content of the file at \<open>path\<close>) and an
  \<open>io\<close> record that says which system calls of one operation succeed; every theorem holds for
  each such record. JSON is read and written as the value it stands for. Operations hold the
  mutex for their whole body, so each is one step \<open>store \<Rightarrow> result \<times> store\<close>.
\<close>

subsection \<open>State\<close>

datatype key_status = KeyActive | KeyPending | KeyPrevious | KeyRevoked | KeyOther string

record provider_key_record =
  pk_id :: string
  pk_status :: key_status
  pk_secret :: string
  pk_created_at :: string
  pk_verified_at :: string
  pk_revoked_at :: string
  pk_expires_at :: string

record provider_key_set =
  active_key_id :: string
  pending_key_id :: string
  previous_key_id :: string
  ks_keys :: "provider_key_record list"

record provider_model =
  pm_id :: string
  pm_name :: string
  pm_context_window :: i64
  pm_prompt_price :: i64
  pm_completion_price :: i64
  pm_pricing_source :: string

record model_catalog =
  mc_provider :: string
  mc_synced_at :: string
  mc_models :: "provider_model list"

record usage_event =
  ue_id :: string
  ue_created_at :: time
  ue_source :: string
  ue_provider :: string
  ue_model :: string
  ue_requested_model :: string
  ue_app_token_name :: string
  ue_billing_mode :: string
  ue_prompt_tokens :: i64
  ue_completion_tokens :: i64
  ue_cache_read_tokens :: i64
  ue_cache_write_tokens :: i64
  ue_total_tokens :: i64
  ue_cost_micros :: i64
  ue_currency :: string
  ue_pricing_source :: string
  ue_warning :: string
  ue_request_id :: string
  ue_receipt_id :: string

record token_record =
  t_name :: string
  t_hash :: string
  t_scopes :: "string list"
  t_created_at :: string
  t_revoked_at :: string
  t_last_used_at :: string

record signing_keys =
  sk_key_id :: string
  sk_public_b64 :: string
  sk_private_b64 :: string

record state =
  provider_keys :: "string gomap"
  provider_keysets :: "provider_key_set gomap"
  model_catalogs :: "model_catalog gomap"
  tokens :: "token_record list"
  grants :: "grant list"
  receipts :: "receipt list"
  approvals :: "approval_request list"
  signing :: signing_keys
  usage_events :: "usage_event list"

definition empty_state :: state where
  "empty_state =
     \<lparr>provider_keys = [], provider_keysets = [], model_catalogs = [], tokens = [], grants = [],
      receipts = [], approvals = [],
      signing = \<lparr>sk_key_id = [], sk_public_b64 = [], sk_private_b64 = []\<rparr>, usage_events = []\<rparr>"

subsection \<open>The state file\<close>

datatype content = EmptyContent | Unparsable | Encoded state

text \<open>\<open>NotRegular\<close> is a symlink (with what its target holds, if it can be read) or a special file.\<close>

datatype disk_file = NoFile | NotRegular "content option" | Regular content

record store =
  mem :: state
  disk :: disk_file

text \<open>Which groups of system calls succeed in one operation.\<close>

record io =
  io_mkdir :: bool
  io_lstat :: bool
  io_chmod :: bool
  io_read :: bool
  io_write :: bool

datatype store_error =
    MkdirFailed | LstatFailed | NotRegularFile | ChmodFailed | ReadFailed | ParseFailed
  | SaveFailed | SaveAndRestoreFailed store_error
  | ProviderAndKeyRequired | RotationInProgress | ProviderRequired | NoPendingRotation
  | PendingKeyNotFound | KeepHoursNegative | PendingNotVerified | NoPreviousForRollback
  | RollbackKeysNotFound | NoPreviousToRevoke | PreviousKeyNotFound | ProviderAndKeyIdRequired
  | ProviderNotFound | CannotRevokeActive | KeyIdNotFound
  | NameRequired | RandomFailed | TokenRequired | TokenNotFound
  | GrantNotFound | ReceiptNotFound | ApprovalNotFound | InvalidApprovalStatus | ApprovalAlreadyResolved
  | KeyGenerationFailed | KeyDecodeFailed

definition validate_state_path :: "io \<Rightarrow> store \<Rightarrow> store_error + bool" where
  "validate_state_path io s =
     (if \<not> io_lstat io then Inl LstatFailed
      else case disk s of
        NoFile \<Rightarrow> Inr False
      | NotRegular _ \<Rightarrow> Inl NotRegularFile
      | Regular _ \<Rightarrow> Inr True)"

definition read_file :: "io \<Rightarrow> store \<Rightarrow> content option" where
  "read_file io s =
     (if \<not> io_read io then None
      else case disk s of NoFile \<Rightarrow> None | NotRegular c \<Rightarrow> c | Regular c \<Rightarrow> Some c)"

definition reload :: "io \<Rightarrow> store \<Rightarrow> (store_error + unit) \<times> store" where
  "reload io s =
     (case read_file io s of
        None \<Rightarrow> (Inl ReadFailed, s)
      | Some EmptyContent \<Rightarrow> (Inr (), s\<lparr>mem := empty_state\<rparr>)
      | Some Unparsable \<Rightarrow> (Inl ParseFailed, s)
      | Some (Encoded st) \<Rightarrow> (Inr (), s\<lparr>mem := st\<rparr>))"

definition save :: "io \<Rightarrow> store \<Rightarrow> (store_error + unit) \<times> store" where
  "save io s =
     (case validate_state_path io s of
        Inl e \<Rightarrow> (Inl e, s)
      | Inr present \<Rightarrow>
          if io_write io then (Inr (), s\<lparr>disk := Regular (Encoded (mem s))\<rparr>)
          else if present then
            (case reload io s of
               (Inr _, s') \<Rightarrow> (Inl SaveFailed, s')
             | (Inl e, s') \<Rightarrow> (Inl (SaveAndRestoreFailed e), s'))
          else (Inl SaveFailed, s))"

text \<open>The end of every mutating operation: install the new state, save, return \<open>r\<close>.\<close>

definition finish :: "io \<Rightarrow> state \<Rightarrow> 'r \<Rightarrow> store \<Rightarrow> (store_error + 'r) \<times> store" where
  "finish io st r s =
     (case save io (s\<lparr>mem := st\<rparr>) of
        (Inl e, s') \<Rightarrow> (Inl e, s')
      | (Inr _, s') \<Rightarrow> (Inr r, s'))"

text \<open>
  A mutating operation: a body that either returns an error before it has changed anything
  or yields the new state and the result, which is then saved.
\<close>

definition transact :: "(state \<Rightarrow> store_error + (state \<times> 'r)) \<Rightarrow> io \<Rightarrow> store \<Rightarrow> (store_error + 'r) \<times> store" where
  "transact body io s =
     (case body (mem s) of
        Inl e \<Rightarrow> (Inl e, s)
      | Inr (st, r) \<Rightarrow> finish io st r s)"

subsection \<open>Provider names\<close>

definition provider_aliases :: "string gomap" where
  "provider_aliases =
     [(''claude'', ''anthropic''), (''codex'', ''openai''), (''deepseek.com'', ''deepseek''),
      (''deepseek-ai'', ''deepseek''), (''experiments.hetzner.com'', ''hetzner''),
      (''hetzner.com'', ''hetzner''), (''inference.hetzner.com'', ''hetzner''),
      (''maple'', ''trymaple''), (''openrouter.ai'', ''openrouter''), (''trymaple.ai'', ''trymaple''),
      (''api.venice.ai'', ''venice''), (''venice.ai'', ''venice''), (''google'', ''gemini''),
      (''google-ai-studio'', ''gemini''), (''googleaistudio'', ''gemini''),
      (''generativelanguage'', ''gemini'')]"

definition supported_providers :: "string list" where
  "supported_providers =
     [''anthropic'', ''deepseek'', ''gemini'', ''hetzner'', ''ollama'', ''openai'', ''openrouter'',
      ''trymaple'', ''venice'']"

definition canonical_provider :: "string \<Rightarrow> string \<times> bool" where
  "canonical_provider provider =
     (let normalized = to_lower (trim_space provider) in
      if normalized = [] then ([], False)
      else case map_of provider_aliases normalized of
        Some c \<Rightarrow> (c, True)
      | None \<Rightarrow> (normalized, False))"

definition normalize_provider :: "string \<Rightarrow> string" where
  "normalize_provider provider = fst (canonical_provider provider)"

subsection \<open>Contract of an operation that saves\<close>

text \<open>
  What the callers of a store operation rely on: when it returns a value, memory and file
  agree; when it returns an error, the file is as it was. The locale derives what follows
  for reopening the store and for a further operation; every mutating operation of the
  package is an instance.
\<close>

definition in_sync :: "store \<Rightarrow> bool" where
  "in_sync s \<longleftrightarrow> disk s = Regular (Encoded (mem s))"

locale durable =
  fixes run :: "io \<Rightarrow> store \<Rightarrow> (store_error + 'r) \<times> store"
  assumes run_ok: "run io s = (Inr r, s') \<Longrightarrow> in_sync s'"
    and run_err: "run io s = (Inl e, s') \<Longrightarrow> disk s' = disk s"
begin

lemma reload_after_ok:
  assumes "run io s = (Inr r, s')" and "io_read io'"
  shows "reload io' s' = (Inr (), s')"
  using run_ok [OF assms(1)] assms(2) by (simp add: in_sync_def reload_def read_file_def)

lemma reload_after_err:
  assumes "run io s = (Inl e, s')" and "in_sync s" and "io_read io'"
  shows "reload io' s' = (Inr (), s)"
  using run_err [OF assms(1)] assms(2,3)
  by (cases s, cases s') (simp add: in_sync_def reload_def read_file_def)

lemma all_or_nothing:
  "in_sync (snd (run io s)) \<or> disk (snd (run io s)) = disk s"
  by (cases "run io s"; cases "fst (run io s)") (auto dest: run_ok run_err)

end

text \<open>With a state invariant that the new state of a successful run satisfies.\<close>

definition file_holds :: "(state \<Rightarrow> bool) \<Rightarrow> disk_file \<Rightarrow> bool" where
  "file_holds P f = (case f of
       Regular (Encoded st) \<Rightarrow> P st
     | NotRegular (Some (Encoded st)) \<Rightarrow> P st
     | _ \<Rightarrow> True)"

definition store_holds :: "(state \<Rightarrow> bool) \<Rightarrow> store \<Rightarrow> bool" where
  "store_holds P s \<longleftrightarrow> P (mem s) \<and> file_holds P (disk s)"

locale durable_inv = durable run for run :: "io \<Rightarrow> store \<Rightarrow> (store_error + 'r) \<times> store" +
  fixes P :: "state \<Rightarrow> bool"
  assumes run_keeps: "store_holds P s \<Longrightarrow> store_holds P (snd (run io s))"
begin

lemma run_list_keeps:
  "store_holds P s \<Longrightarrow> store_holds P (fold (\<lambda>io s. snd (run io s)) ios s)"
  by (induction ios arbitrary: s) (simp_all add: run_keeps)

end

subsection \<open>Lemmas\<close>

lemma read_file_holds: "file_holds P (disk s) \<Longrightarrow> read_file io s = Some (Encoded st) \<Longrightarrow> P st"
  by (auto simp: file_holds_def read_file_def split: disk_file.splits if_splits)

lemma reload_file: "reload io s = (r, s') \<Longrightarrow> disk s' = disk s"
  by (auto simp: reload_def split: option.splits content.splits)

lemma save_ok: "save io s = (Inr u, s') \<Longrightarrow> in_sync s' \<and> mem s' = mem s"
  by (auto simp: save_def in_sync_def split: sum.splits if_splits prod.splits)

lemma save_err: "save io s = (Inl e, s') \<Longrightarrow> disk s' = disk s"
  by (auto dest: reload_file simp: save_def split: sum.splits if_splits prod.splits)

lemma save_err_mem:
  assumes "save io s = (Inl e, s')" and "disk s = Regular (Encoded st)" and "io_lstat io" and "io_read io"
  shows "mem s' = st"
  using assms(1) by (cases "io_write io") (auto simp: save_def validate_state_path_def reload_def read_file_def assms(2-4))

lemma finish_ok: "finish io st r s = (Inr r', s') \<Longrightarrow> r' = r \<and> in_sync s' \<and> mem s' = st"
  using save_ok by (fastforce simp: finish_def split: prod.splits sum.splits)

lemma finish_err: "finish io st r s = (Inl e, s') \<Longrightarrow> disk s' = disk s"
  using save_err by (fastforce simp: finish_def split: prod.splits sum.splits)

lemma reload_mem_holds:
  assumes "P (mem s)" and "file_holds P (disk s)" and "P empty_state" and "reload io s = (r, s')"
  shows "P (mem s')"
proof (cases "read_file io s")
  case None
  then show ?thesis using assms by (auto simp: reload_def)
next
  case (Some c)
  show ?thesis
  proof (cases c)
    case EmptyContent
    then show ?thesis using Some assms by (auto simp: reload_def)
  next
    case Unparsable
    then show ?thesis using Some assms by (auto simp: reload_def)
  next
    case (Encoded st)
    then have "P st" using Some assms(2) by (simp add: read_file_holds)
    then show ?thesis using Some Encoded assms by (auto simp: reload_def)
  qed
qed

lemma save_holds:
  assumes "store_holds P s" and "P empty_state"
  shows "store_holds P (snd (save io s))"
proof -
  have r: "P (mem (snd (reload io s))) \<and> disk (snd (reload io s)) = disk s"
    using assms reload_mem_holds [of P s io] by (cases "reload io s") (auto simp: store_holds_def dest: reload_file)
  show ?thesis
    using assms r by (auto simp: save_def store_holds_def file_holds_def split: sum.splits prod.splits)
qed

lemma finish_holds:
  assumes "P st" and "store_holds P s" and "P empty_state"
  shows "store_holds P (snd (finish io st r s))"
proof -
  have "store_holds P (s\<lparr>mem := st\<rparr>)" using assms by (simp add: store_holds_def)
  then have "store_holds P (snd (save io (s\<lparr>mem := st\<rparr>)))" by (rule save_holds) (rule assms)
  then show ?thesis by (auto simp: finish_def split: prod.splits sum.splits)
qed

lemma finish_success: "io_lstat io \<Longrightarrow> io_write io \<Longrightarrow> disk s = Regular c \<Longrightarrow>
   finish io st r s = (Inr r, \<lparr>mem = st, disk = Regular (Encoded st)\<rparr>)"
  by (cases s) (simp add: finish_def save_def validate_state_path_def)

lemma transact_ok:
  "transact body io s = (Inr r, s') \<Longrightarrow> in_sync s' \<and> body (mem s) = Inr (mem s', r)"
  by (auto simp: transact_def dest: finish_ok split: sum.splits prod.splits)

lemma transact_err: "transact body io s = (Inl e, s') \<Longrightarrow> disk s' = disk s"
  by (auto simp: transact_def dest: finish_err split: sum.splits prod.splits)

lemma transact_body_err: "body (mem s) = Inl e \<Longrightarrow> transact body io s = (Inl e, s)"
  by (simp add: transact_def)

lemma transact_success:
  "io_lstat io \<Longrightarrow> io_write io \<Longrightarrow> disk s = Regular c \<Longrightarrow> body (mem s) = Inr (st, r) \<Longrightarrow>
   transact body io s = (Inr r, \<lparr>mem = st, disk = Regular (Encoded st)\<rparr>)"
  by (simp add: transact_def finish_success)

text \<open>A failed save of a store that was in sync restores the memory, if the file can be read.\<close>

lemma transact_err_restores:
  assumes "transact body io s = (Inl e, s')" and "in_sync s" and "io_lstat io" and "io_read io"
  shows "s' = s"
proof (cases "body (mem s)")
  case (Inl e')
  then show ?thesis using assms(1) by (simp add: transact_def)
next
  case (Inr p)
  obtain st r where p: "p = (st, r)" by (cases p)
  have d: "disk s = Regular (Encoded (mem s))" using assms(2) by (simp add: in_sync_def)
  have "\<exists>e'. save io (s\<lparr>mem := st\<rparr>) = (Inl e', s')"
    using assms(1) Inr p by (auto simp: transact_def finish_def split: sum.splits prod.splits)
  then obtain e' where sv: "save io (s\<lparr>mem := st\<rparr>) = (Inl e', s')" by blast
  have "mem s' = mem s" using save_err_mem [OF sv] d assms(3,4) by simp
  moreover have "disk s' = disk s" using save_err [OF sv] by simp
  ultimately show ?thesis by (cases s; cases s') simp
qed

lemma transact_holds:
  assumes "\<And>st st' r. P st \<Longrightarrow> body st = Inr (st', r) \<Longrightarrow> P st'" and "P empty_state"
    and "store_holds P s"
  shows "store_holds P (snd (transact body io s))"
proof (cases "body (mem s)")
  case (Inl e)
  then show ?thesis using assms by (simp add: transact_def)
next
  case (Inr p)
  obtain st r where p: "p = (st, r)" by (cases p)
  have "P st" using assms Inr p by (auto simp: store_holds_def)
  then show ?thesis using Inr p assms by (simp add: transact_def finish_holds)
qed

lemma durable_transact: "durable (transact body)"
  by unfold_locales (auto dest: transact_ok transact_err)

lemma durable_inv_transact:
  assumes "\<And>st st' r. P st \<Longrightarrow> body st = Inr (st', r) \<Longrightarrow> P st'" and "P empty_state"
  shows "durable_inv (transact body) P"
  by (intro durable_inv.intro durable_transact durable_inv_axioms.intro transact_holds)
     (use assms in auto)

text \<open>Aliases never name another alias, so a canonical name is a fixed point.\<close>

lemma to_lower_idem [simp]: "to_lower (to_lower s) = to_lower s"
proof -
  have "lower_char (lower_char c) = lower_char c" for c
    by (auto simp: lower_char_def)
  then show ?thesis by (simp add: to_lower_def)
qed

lemma alias_table:
  "list_all (\<lambda>(a, c). c \<in> set supported_providers \<and> map_of provider_aliases c = None) provider_aliases"
  by code_simp

lemma alias_target:
  "map_of provider_aliases a = Some c \<Longrightarrow> c \<in> set supported_providers \<and> map_of provider_aliases c = None"
  using alias_table by (auto simp: list_all_iff dest: map_of_SomeD)

subsection \<open>A working disk\<close>

definition io_ok :: io where
  "io_ok = \<lparr>io_mkdir = True, io_lstat = True, io_chmod = True, io_read = True, io_write = True\<rparr>"

definition saved :: "state \<Rightarrow> store" where
  "saved st = \<lparr>mem = st, disk = Regular (Encoded st)\<rparr>"

lemma io_ok_simps [simp]: "io_mkdir io_ok" "io_lstat io_ok" "io_chmod io_ok" "io_read io_ok" "io_write io_ok"
  by (simp_all add: io_ok_def)

lemma saved_simps [simp]: "mem (saved st) = st" "disk (saved st) = Regular (Encoded st)" "in_sync (saved st)"
  by (simp_all add: saved_def in_sync_def)

lemma transact_saved: "body st = Inr (st', r) \<Longrightarrow> transact body io_ok (saved st) = (Inr r, saved st')"
  using transact_success [of io_ok "saved st" "Encoded st" body st' r] by (simp add: saved_def)

end
