(* ===== verification/ProviderKeys.thy ===== *)
theory ProviderKeys
  imports StoreBase
begin

text \<open>
  Provider API keys (\<open>store.go\<close>): one key set per provider with at most one active and one
  pending key, rotation in four steps, revocation, and the legacy map of plain keys that is
  kept equal to the active secrets.

  \<open>now\<close> is the clock reading of an operation and \<open>rnd\<close> the eight bytes that \<open>rand.Read\<close>
  gives it (zero bytes when it fails, as the code ignores that error).
\<close>

subsection \<open>Records of a key set\<close>

definition generate_key_id :: "string \<Rightarrow> string" where
  "generate_key_id buf = ''key_'' @ hex_encode buf"

fun find_key_index :: "provider_key_record list \<Rightarrow> string \<Rightarrow> nat option" where
  "find_key_index [] kid = None"
| "find_key_index (k # ks) kid = (if pk_id k = kid then Some 0 else map_option Suc (find_key_index ks kid))"

definition new_key :: "string \<Rightarrow> key_status \<Rightarrow> string \<Rightarrow> string \<Rightarrow> string \<Rightarrow> provider_key_record" where
  "new_key kid status secret created verified =
     \<lparr>pk_id = kid, pk_status = status, pk_secret = secret, pk_created_at = created,
      pk_verified_at = verified, pk_revoked_at = [], pk_expires_at = []\<rparr>"

definition ensure_keyset :: "state \<Rightarrow> string \<Rightarrow> provider_key_set" where
  "ensure_keyset st provider =
     (case map_of (provider_keysets st) provider of
        Some ks \<Rightarrow> ks
      | None \<Rightarrow> \<lparr>active_key_id = [], pending_key_id = [], previous_key_id = [], ks_keys = []\<rparr>)"

definition put_keyset :: "string \<Rightarrow> provider_key_set \<Rightarrow> state \<Rightarrow> state" where
  "put_keyset provider ks st = st\<lparr>provider_keysets := AList.update provider ks (provider_keysets st)\<rparr>"

definition sync_active :: "string \<Rightarrow> state \<Rightarrow> state" where
  "sync_active provider st =
     (let drop_it = st\<lparr>provider_keys := AList.delete provider (provider_keys st)\<rparr> in
      case map_of (provider_keysets st) provider of
        None \<Rightarrow> drop_it
      | Some ks \<Rightarrow>
          if active_key_id ks = [] then drop_it
          else (case find_key_index (ks_keys ks) (active_key_id ks) of
                  None \<Rightarrow> drop_it
                | Some i \<Rightarrow>
                    st\<lparr>provider_keys := AList.update provider (pk_secret (ks_keys ks ! i)) (provider_keys st)\<rparr>))"

subsection \<open>Migration of plain keys\<close>

definition migrate_one :: "time \<Rightarrow> (string \<Rightarrow> string) \<Rightarrow> string \<times> string \<Rightarrow> bool \<times> state \<Rightarrow> bool \<times> state" where
  "migrate_one now rnd = (\<lambda>(provider, key) (changed, st).
     if trim_space key = [] then
       (True, st\<lparr>provider_keys := AList.delete provider (provider_keys st)\<rparr>)
     else if map_of (provider_keysets st) provider \<noteq> None then (changed, st)
     else
       (let rec = new_key (generate_key_id (rnd provider)) KeyActive key (rfc3339 now) (rfc3339 now)
        in (True, put_keyset provider
              \<lparr>active_key_id = pk_id rec, pending_key_id = [], previous_key_id = [], ks_keys = [rec]\<rparr> st)))"

definition migrate_provider_keys :: "time \<Rightarrow> (string \<Rightarrow> string) \<Rightarrow> state \<Rightarrow> bool \<times> state" where
  "migrate_provider_keys now rnd st =
     (let (changed, st1) = fold (migrate_one now rnd) (provider_keys st) (False, st)
      in (changed, fold sync_active (map fst (provider_keysets st1)) st1))"

subsection \<open>The operations on one key set\<close>

definition retire_key :: "string \<Rightarrow> provider_key_record \<Rightarrow> provider_key_record" where
  "retire_key now k =
     (if pk_status k = KeyActive \<or> pk_status k = KeyPending \<or> pk_status k = KeyPrevious
      then k\<lparr>pk_status := KeyRevoked, pk_revoked_at := (if pk_revoked_at k = [] then now else pk_revoked_at k)\<rparr>
      else k)"

definition ks_set :: "string \<Rightarrow> string \<Rightarrow> string \<Rightarrow> provider_key_set \<Rightarrow> provider_key_set" where
  "ks_set now kid key ks =
     ks\<lparr>ks_keys := map (retire_key now) (ks_keys ks) @ [new_key kid KeyActive key now now],
        active_key_id := kid, pending_key_id := [], previous_key_id := []\<rparr>"

definition ks_start :: "string \<Rightarrow> string \<Rightarrow> string \<Rightarrow> provider_key_set \<Rightarrow> store_error + provider_key_set" where
  "ks_start now kid key ks =
     (if pending_key_id ks \<noteq> [] then Inl RotationInProgress
      else Inr (ks\<lparr>ks_keys := ks_keys ks @ [new_key kid KeyPending key now []], pending_key_id := kid\<rparr>))"

definition ks_verify :: "string \<Rightarrow> provider_key_set \<Rightarrow> store_error + provider_key_set" where
  "ks_verify now ks =
     (if pending_key_id ks = [] then Inl NoPendingRotation
      else case find_key_index (ks_keys ks) (pending_key_id ks) of
        None \<Rightarrow> Inl PendingKeyNotFound
      | Some i \<Rightarrow> Inr (ks\<lparr>ks_keys := (ks_keys ks)[i := (ks_keys ks ! i)\<lparr>pk_verified_at := now\<rparr>]\<rparr>))"

text \<open>\<open>time.Duration(keepPreviousHours) * time.Hour\<close> is an \<open>int64\<close> product and wraps.\<close>

definition keep_until :: "time \<Rightarrow> i64 \<Rightarrow> string" where
  "keep_until now hours = rfc3339 (now + sint (hours * 3600000000000))"

definition ks_commit :: "time \<Rightarrow> i64 \<Rightarrow> provider_key_set \<Rightarrow> store_error + provider_key_set" where
  "ks_commit now hours ks =
     (if pending_key_id ks = [] then Inl NoPendingRotation
      else case find_key_index (ks_keys ks) (pending_key_id ks) of
        None \<Rightarrow> Inl PendingKeyNotFound
      | Some p \<Rightarrow>
          if trim_space (pk_verified_at (ks_keys ks ! p)) = [] then Inl PendingNotVerified
          else
            (let ks1 =
               (if active_key_id ks = [] then ks
                else case find_key_index (ks_keys ks) (active_key_id ks) of
                  None \<Rightarrow> ks
                | Some a \<Rightarrow>
                    let k = ks_keys ks ! a in
                    if hours = 0 then
                      ks\<lparr>ks_keys := (ks_keys ks)[a := k\<lparr>pk_status := KeyRevoked,
                                       pk_revoked_at := rfc3339 now, pk_expires_at := []\<rparr>],
                         previous_key_id := []\<rparr>
                    else
                      ks\<lparr>ks_keys := (ks_keys ks)[a := k\<lparr>pk_status := KeyPrevious,
                                       pk_expires_at := keep_until now hours\<rparr>],
                         previous_key_id := pk_id k\<rparr>);
                 kp = ks_keys ks1 ! p
             in Inr (ks1\<lparr>ks_keys := (ks_keys ks1)[p := kp\<lparr>pk_status := KeyActive,
                                        pk_expires_at := [], pk_revoked_at := []\<rparr>],
                        active_key_id := pk_id kp, pending_key_id := []\<rparr>)))"

definition ks_rollback :: "string \<Rightarrow> provider_key_set \<Rightarrow> store_error + provider_key_set" where
  "ks_rollback now ks =
     (if previous_key_id ks = [] then Inl NoPreviousForRollback
      else case (find_key_index (ks_keys ks) (previous_key_id ks), find_key_index (ks_keys ks) (active_key_id ks)) of
        (Some p, Some a) \<Rightarrow>
          (let keys1 = (ks_keys ks)[a := (ks_keys ks ! a)\<lparr>pk_status := KeyPrevious, pk_expires_at := now\<rparr>];
               keys2 = keys1[p := (keys1 ! p)\<lparr>pk_status := KeyActive, pk_expires_at := []\<rparr>]
           in Inr (ks\<lparr>ks_keys := keys2, active_key_id := previous_key_id ks,
                      previous_key_id := active_key_id ks\<rparr>))
      | _ \<Rightarrow> Inl RollbackKeysNotFound)"

definition revoke_at :: "string \<Rightarrow> nat \<Rightarrow> provider_key_record list \<Rightarrow> provider_key_record list" where
  "revoke_at now i keys =
     keys[i := (keys ! i)\<lparr>pk_status := KeyRevoked, pk_revoked_at := now, pk_expires_at := []\<rparr>]"

definition ks_revoke_previous :: "string \<Rightarrow> provider_key_set \<Rightarrow> store_error + provider_key_set" where
  "ks_revoke_previous now ks =
     (if previous_key_id ks = [] then Inl NoPreviousToRevoke
      else case find_key_index (ks_keys ks) (previous_key_id ks) of
        None \<Rightarrow> Inl PreviousKeyNotFound
      | Some i \<Rightarrow> Inr (ks\<lparr>ks_keys := revoke_at now i (ks_keys ks), previous_key_id := []\<rparr>))"

definition ks_revoke :: "string \<Rightarrow> string \<Rightarrow> provider_key_set \<Rightarrow> store_error + provider_key_set" where
  "ks_revoke now kid ks =
     (if active_key_id ks = kid then Inl CannotRevokeActive
      else case find_key_index (ks_keys ks) kid of
        None \<Rightarrow> Inl KeyIdNotFound
      | Some i \<Rightarrow>
          Inr (ks\<lparr>ks_keys := revoke_at now i (ks_keys ks),
                  pending_key_id := (if pending_key_id ks = kid then [] else pending_key_id ks),
                  previous_key_id := (if previous_key_id ks = kid then [] else previous_key_id ks)\<rparr>))"

subsection \<open>The operations on the state\<close>

definition set_key_body :: "time \<Rightarrow> string \<Rightarrow> string \<Rightarrow> string \<Rightarrow> state \<Rightarrow> store_error + state \<times> unit" where
  "set_key_body now rnd provider0 key0 st =
     (let provider = normalize_provider provider0; key = trim_space key0 in
      if provider = [] \<or> key = [] then Inl ProviderAndKeyRequired
      else Inr (sync_active provider (put_keyset provider
             (ks_set (rfc3339 now) (generate_key_id rnd) key (ensure_keyset st provider)) st), ()))"

definition rotate_start_body :: "time \<Rightarrow> string \<Rightarrow> string \<Rightarrow> string \<Rightarrow> state \<Rightarrow> store_error + state \<times> string" where
  "rotate_start_body now rnd provider0 key0 st =
     (let provider = normalize_provider provider0; key = trim_space key0 in
      if provider = [] \<or> key = [] then Inl ProviderAndKeyRequired
      else case ks_start (rfc3339 now) (generate_key_id rnd) key (ensure_keyset st provider) of
        Inl e \<Rightarrow> Inl e
      | Inr ks \<Rightarrow> Inr (put_keyset provider ks st, generate_key_id rnd))"

text \<open>The operations that need an existing key set: \<open>missing\<close> is the error without one.\<close>

definition on_keyset ::
  "bool \<Rightarrow> store_error \<Rightarrow> (provider_key_set \<Rightarrow> store_error + provider_key_set) \<Rightarrow> string \<Rightarrow> state
     \<Rightarrow> store_error + state \<times> provider_key_set" where
  "on_keyset sync missing f provider st =
     (case map_of (provider_keysets st) provider of
        None \<Rightarrow> Inl missing
      | Some ks \<Rightarrow>
          (case f ks of
             Inl e \<Rightarrow> Inl e
           | Inr ks' \<Rightarrow>
               let st' = put_keyset provider ks' st
               in Inr (if sync then sync_active provider st' else st', ks')))"

definition rotate_verify_body :: "time \<Rightarrow> string \<Rightarrow> state \<Rightarrow> store_error + state \<times> string" where
  "rotate_verify_body now provider0 st =
     (let provider = normalize_provider provider0 in
      if provider = [] then Inl ProviderRequired
      else map_sum id (\<lambda>(st', ks). (st', pending_key_id ks))
             (on_keyset False NoPendingRotation (ks_verify (rfc3339 now)) provider st))"

definition rotate_commit_body :: "time \<Rightarrow> string \<Rightarrow> i64 \<Rightarrow> state \<Rightarrow> store_error + state \<times> unit" where
  "rotate_commit_body now provider0 hours st =
     (let provider = normalize_provider provider0 in
      if provider = [] then Inl ProviderRequired
      else if sint hours < 0 then Inl KeepHoursNegative
      else map_sum id (\<lambda>(st', ks). (st', ()))
             (on_keyset True NoPendingRotation (ks_commit now hours) provider st))"

definition rotate_rollback_body :: "time \<Rightarrow> string \<Rightarrow> state \<Rightarrow> store_error + state \<times> unit" where
  "rotate_rollback_body now provider0 st =
     (let provider = normalize_provider provider0 in
      if provider = [] then Inl ProviderRequired
      else map_sum id (\<lambda>(st', ks). (st', ()))
             (on_keyset True NoPreviousForRollback (ks_rollback (rfc3339 now)) provider st))"

definition revoke_previous_body :: "time \<Rightarrow> string \<Rightarrow> state \<Rightarrow> store_error + state \<times> unit" where
  "revoke_previous_body now provider0 st =
     (let provider = normalize_provider provider0 in
      if provider = [] then Inl ProviderRequired
      else map_sum id (\<lambda>(st', ks). (st', ()))
             (on_keyset False NoPreviousToRevoke (ks_revoke_previous (rfc3339 now)) provider st))"

definition revoke_key_body :: "time \<Rightarrow> string \<Rightarrow> string \<Rightarrow> state \<Rightarrow> store_error + state \<times> unit" where
  "revoke_key_body now provider0 kid0 st =
     (let provider = normalize_provider provider0; kid = trim_space kid0 in
      if provider = [] \<or> kid = [] then Inl ProviderAndKeyIdRequired
      else map_sum id (\<lambda>(st', ks). (st', ()))
             (on_keyset False ProviderNotFound (ks_revoke (rfc3339 now) kid) provider st))"

definition get_provider_key :: "string \<Rightarrow> state \<Rightarrow> string" where
  "get_provider_key provider0 st =
     (let provider = normalize_provider provider0;
          legacy = (case map_of (provider_keys st) provider of None \<Rightarrow> [] | Some k \<Rightarrow> k) in
      case map_of (provider_keysets st) provider of
        None \<Rightarrow> legacy
      | Some ks \<Rightarrow>
          if active_key_id ks = [] then legacy
          else (case find_key_index (ks_keys ks) (active_key_id ks) of
                  None \<Rightarrow> legacy
                | Some i \<Rightarrow> pk_secret (ks_keys ks ! i)))"

text \<open>\<open>slices.SortFunc\<close> gives one of the sorted permutations: newest \<open>CreatedAt\<close> first.\<close>

definition provider_key_history :: "string \<Rightarrow> state \<Rightarrow> provider_key_record list" where
  "provider_key_history provider0 st =
     (case map_of (provider_keysets st) (normalize_provider provider0) of
        None \<Rightarrow> []
      | Some ks \<Rightarrow> sort_by (\<lambda>a b. str_le (pk_created_at b) (pk_created_at a)) (ks_keys ks))"

definition list_providers :: "state \<Rightarrow> string list" where
  "list_providers st =
     sort_by str_le (remdups (map fst (provider_keys st)
        @ map fst (filter (\<lambda>(p, ks). active_key_id ks \<noteq> []) (provider_keysets st))))"

definition set_provider_key where
  "set_provider_key now rnd provider key = transact (set_key_body now rnd provider key)"
definition rotate_provider_key_start where
  "rotate_provider_key_start now rnd provider key = transact (rotate_start_body now rnd provider key)"
definition rotate_provider_key_verify where
  "rotate_provider_key_verify now provider = transact (rotate_verify_body now provider)"
definition rotate_provider_key_commit where
  "rotate_provider_key_commit now provider hours = transact (rotate_commit_body now provider hours)"
definition rotate_provider_key_rollback where
  "rotate_provider_key_rollback now provider = transact (rotate_rollback_body now provider)"
definition revoke_previous_provider_key where
  "revoke_previous_provider_key now provider = transact (revoke_previous_body now provider)"
definition revoke_provider_key where
  "revoke_provider_key now provider kid = transact (revoke_key_body now provider kid)"

subsection \<open>Finding and updating records\<close>

definition find_key :: "string \<Rightarrow> provider_key_record list \<Rightarrow> provider_key_record option" where
  "find_key kid keys = find (\<lambda>k. pk_id k = kid) keys"

definition edit_key ::
  "string \<Rightarrow> (provider_key_record \<Rightarrow> provider_key_record) \<Rightarrow> provider_key_record list \<Rightarrow> provider_key_record list" where
  "edit_key kid g keys = map (\<lambda>k. if pk_id k = kid then g k else k) keys"

lemma find_key_index_None: "find_key_index keys kid = None \<longleftrightarrow> kid \<notin> pk_id ` set keys"
  by (induction keys) auto

lemma find_key_index_find:
  "find_key_index keys kid = Some i \<Longrightarrow> i < length keys \<and> find_key kid keys = Some (keys ! i) \<and> pk_id (keys ! i) = kid"
  by (induction keys arbitrary: i) (auto simp: find_key_def split: if_splits)

lemma find_key_Some: "find_key kid keys = Some k \<Longrightarrow> k \<in> set keys \<and> pk_id k = kid"
  by (auto simp: find_key_def find_Some_iff)

lemma find_key_None: "find_key kid keys = None \<longleftrightarrow> kid \<notin> pk_id ` set keys"
  by (auto simp: find_key_def find_None_iff)

lemma find_key_append [simp]:
  "find_key kid (keys @ [k]) = (case find_key kid keys of Some k' \<Rightarrow> Some k' | None \<Rightarrow> if pk_id k = kid then Some k else None)"
  by (induction keys) (auto simp: find_key_def)

lemma find_key_map [simp]:
  assumes "\<And>k. pk_id (g k) = pk_id k"
  shows "find_key kid (map g keys) = map_option g (find_key kid keys)"
  by (induction keys) (auto simp: find_key_def assms)

lemma find_key_edit:
  assumes "\<And>k. pk_id (g k) = pk_id k"
  shows "find_key x (edit_key kid g keys) = map_option (\<lambda>k. if pk_id k = kid then g k else k) (find_key x keys)"
  unfolding edit_key_def by (rule find_key_map) (simp add: assms)

lemma update_is_edit:
  assumes "distinct (map pk_id keys)" and "find_key_index keys kid = Some i"
  shows "keys[i := g (keys ! i)] = edit_key kid g keys"
  using assms
proof (induction keys arbitrary: i)
  case (Cons k keys)
  show ?case
  proof (cases "pk_id k = kid")
    case True
    then have "map (\<lambda>k. if pk_id k = kid then g k else k) keys = keys"
      using Cons.prems(1) by (intro map_idI) (metis distinct.simps(2) imageI list.set_map list.simps(9))
    then show ?thesis using True Cons.prems(2) by (simp add: edit_key_def)
  next
    case False
    then obtain j where "find_key_index keys kid = Some j" "i = Suc j" using Cons.prems(2) by auto
    then show ?thesis using False Cons by (simp add: edit_key_def)
  qed
qed simp

lemma edit_key_simps [simp]:
  assumes "\<And>k. pk_id (g k) = pk_id k"
  shows "map pk_id (edit_key kid g keys) = map pk_id keys"
    and "pk_id ` set (edit_key kid g keys) = pk_id ` set keys"
proof -
  show ids: "map pk_id (edit_key kid g keys) = map pk_id keys"
    by (simp add: edit_key_def assms)
  show "pk_id ` set (edit_key kid g keys) = pk_id ` set keys"
    using ids by (metis list.set_map)
qed

lemma set_edit_key: "set (edit_key kid g keys) = (\<lambda>k. if pk_id k = kid then g k else k) ` set keys"
  by (simp add: edit_key_def)

subsection \<open>Well-formed key sets\<close>

text \<open>
  Ids are distinct and nonempty; a key is active (pending) exactly when the set names it as
  such, so there is at most one of each; the named previous key has that status. More than
  one key can have the status previous: a second commit keeps the older one.
\<close>

definition key_ok :: "string \<Rightarrow> string \<Rightarrow> string \<Rightarrow> provider_key_record \<Rightarrow> bool" where
  "key_ok a p v k \<longleftrightarrow> pk_id k \<noteq> []
     \<and> (pk_status k = KeyActive \<longleftrightarrow> pk_id k = a)
     \<and> (pk_status k = KeyPending \<longleftrightarrow> pk_id k = p)
     \<and> (pk_id k = v \<longrightarrow> pk_status k = KeyPrevious)"

definition keyset_ok :: "provider_key_set \<Rightarrow> bool" where
  "keyset_ok ks \<longleftrightarrow>
     distinct (map pk_id (ks_keys ks))
     \<and> (\<forall>k \<in> set (ks_keys ks). key_ok (active_key_id ks) (pending_key_id ks) (previous_key_id ks) k)
     \<and> {active_key_id ks, pending_key_id ks, previous_key_id ks} - {[]} \<subseteq> pk_id ` set (ks_keys ks)"

definition active_secret :: "provider_key_set \<Rightarrow> string option" where
  "active_secret ks = (if active_key_id ks = [] then None
     else map_option pk_secret (find_key (active_key_id ks) (ks_keys ks)))"

lemma keyset_ok_empty [simp]:
  "keyset_ok \<lparr>active_key_id = [], pending_key_id = [], previous_key_id = [], ks_keys = []\<rparr>"
  by (simp add: keyset_ok_def)

lemma generate_key_id_nonempty [simp]: "generate_key_id buf \<noteq> []"
  by (simp add: generate_key_id_def)

lemma new_key_simps [simp]:
  "pk_id (new_key kid st sec c v) = kid" "pk_status (new_key kid st sec c v) = st"
  "pk_secret (new_key kid st sec c v) = sec" "pk_verified_at (new_key kid st sec c v) = v"
  by (simp_all add: new_key_def)

lemma retire_key_simps [simp]:
  "pk_id (retire_key now k) = pk_id k" "pk_secret (retire_key now k) = pk_secret k"
  "pk_status (retire_key now k) \<noteq> KeyActive" "pk_status (retire_key now k) \<noteq> KeyPending"
  "pk_status (retire_key now k) \<noteq> KeyPrevious"
  by (auto simp: retire_key_def)

lemma keyset_ok_ids:
  assumes "keyset_ok ks"
  shows "distinct (map pk_id (ks_keys ks))" and "[] \<notin> pk_id ` set (ks_keys ks)"
  using assms by (auto simp: keyset_ok_def key_ok_def)

lemma keyset_ok_id_ne: "keyset_ok ks \<Longrightarrow> k \<in> set (ks_keys ks) \<Longrightarrow> pk_id k \<noteq> []"
  by (auto simp: keyset_ok_def key_ok_def)

text \<open>The operations with records edited by id rather than by index.\<close>

definition demote :: "time \<Rightarrow> i64 \<Rightarrow> provider_key_record \<Rightarrow> provider_key_record" where
  "demote now hours k =
     (if hours = 0 then k\<lparr>pk_status := KeyRevoked, pk_revoked_at := rfc3339 now, pk_expires_at := []\<rparr>
      else k\<lparr>pk_status := KeyPrevious, pk_expires_at := keep_until now hours\<rparr>)"

definition promote :: "provider_key_record \<Rightarrow> provider_key_record" where
  "promote k = k\<lparr>pk_status := KeyActive, pk_expires_at := [], pk_revoked_at := []\<rparr>"

lemma demote_simps [simp]:
  "pk_id (demote now h k) = pk_id k" "pk_secret (demote now h k) = pk_secret k"
  "pk_id (promote k) = pk_id k" "pk_secret (promote k) = pk_secret k" "pk_status (promote k) = KeyActive"
  "pk_status (demote now h k) = (if h = 0 then KeyRevoked else KeyPrevious)"
  by (auto simp: demote_def promote_def)

lemma ks_verify_edit:
  assumes "keyset_ok ks" and "ks_verify now ks = Inr ks'"
  shows "pending_key_id ks \<noteq> []
     \<and> ks' = ks\<lparr>ks_keys := edit_key (pending_key_id ks) (\<lambda>k. k\<lparr>pk_verified_at := now\<rparr>) (ks_keys ks)\<rparr>"
  using assms(2) update_is_edit [OF keyset_ok_ids(1) [OF assms(1)], of "pending_key_id ks" _ "\<lambda>k. k\<lparr>pk_verified_at := now\<rparr>"]
  by (auto simp: ks_verify_def split: if_splits option.splits)

lemma revoke_at_edit:
  assumes "distinct (map pk_id keys)" and "find_key_index keys kid = Some i"
  shows "revoke_at now i keys
     = edit_key kid (\<lambda>k. k\<lparr>pk_status := KeyRevoked, pk_revoked_at := now, pk_expires_at := []\<rparr>) keys"
  using update_is_edit [OF assms] by (simp add: revoke_at_def)

lemma ks_revoke_edit:
  assumes "keyset_ok ks" and "ks_revoke now kid ks = Inr ks'"
  shows "kid \<noteq> active_key_id ks \<and> kid \<in> pk_id ` set (ks_keys ks)
     \<and> ks' = ks\<lparr>ks_keys := edit_key kid (\<lambda>k. k\<lparr>pk_status := KeyRevoked, pk_revoked_at := now, pk_expires_at := []\<rparr>) (ks_keys ks),
                 pending_key_id := (if pending_key_id ks = kid then [] else pending_key_id ks),
                 previous_key_id := (if previous_key_id ks = kid then [] else previous_key_id ks)\<rparr>"
  using assms(2) revoke_at_edit [OF keyset_ok_ids(1) [OF assms(1)]] find_key_index_None [of "ks_keys ks" kid]
  by (fastforce simp: ks_revoke_def split: if_splits option.splits)

lemma ks_revoke_previous_edit:
  assumes "keyset_ok ks" and "ks_revoke_previous now ks = Inr ks'"
  shows "previous_key_id ks \<noteq> []
     \<and> ks' = ks\<lparr>ks_keys := edit_key (previous_key_id ks) (\<lambda>k. k\<lparr>pk_status := KeyRevoked, pk_revoked_at := now, pk_expires_at := []\<rparr>) (ks_keys ks),
                 previous_key_id := []\<rparr>"
  using assms(2) revoke_at_edit [OF keyset_ok_ids(1) [OF assms(1)]]
  by (fastforce simp: ks_revoke_previous_def split: if_splits option.splits)

lemma find_key_index_cong:
  "map pk_id keys = map pk_id keys' \<Longrightarrow> find_key_index keys kid = find_key_index keys' kid"
  by (induction keys keys' rule: list_induct2') auto

lemma ks_rollback_edit:
  assumes ok: "keyset_ok ks" and run: "ks_rollback now ks = Inr ks'"
  shows "previous_key_id ks \<noteq> [] \<and> active_key_id ks \<noteq> [] \<and> active_key_id ks \<noteq> previous_key_id ks
     \<and> ks' = ks\<lparr>ks_keys := edit_key (previous_key_id ks) (\<lambda>k. k\<lparr>pk_status := KeyActive, pk_expires_at := []\<rparr>)
                   (edit_key (active_key_id ks) (\<lambda>k. k\<lparr>pk_status := KeyPrevious, pk_expires_at := now\<rparr>) (ks_keys ks)),
                 active_key_id := previous_key_id ks, previous_key_id := active_key_id ks\<rparr>"
proof -
  obtain p a where prev: "previous_key_id ks \<noteq> []"
    and p: "find_key_index (ks_keys ks) (previous_key_id ks) = Some p"
    and a: "find_key_index (ks_keys ks) (active_key_id ks) = Some a"
    using run by (auto simp: ks_rollback_def split: if_splits option.splits)
  let ?f = "\<lambda>k. k\<lparr>pk_status := KeyPrevious, pk_expires_at := now\<rparr>"
  let ?keys1 = "edit_key (active_key_id ks) ?f (ks_keys ks)"
  have d: "distinct (map pk_id (ks_keys ks))" using ok by (rule keyset_ok_ids)
  have k1: "(ks_keys ks)[a := ?f (ks_keys ks ! a)] = ?keys1" using update_is_edit [OF d a] .
  have ids: "map pk_id ?keys1 = map pk_id (ks_keys ks)" by simp
  have p1: "find_key_index ?keys1 (previous_key_id ks) = Some p"
    using p find_key_index_cong [OF ids] by simp
  have d1: "distinct (map pk_id ?keys1)" using d by simp
  have k2: "?keys1[p := (?keys1 ! p)\<lparr>pk_status := KeyActive, pk_expires_at := []\<rparr>]
      = edit_key (previous_key_id ks) (\<lambda>k. k\<lparr>pk_status := KeyActive, pk_expires_at := []\<rparr>) ?keys1"
    using update_is_edit [OF d1 p1] .
  have eq: "ks' = ks\<lparr>ks_keys := edit_key (previous_key_id ks) (\<lambda>k. k\<lparr>pk_status := KeyActive, pk_expires_at := []\<rparr>) ?keys1,
                 active_key_id := previous_key_id ks, previous_key_id := active_key_id ks\<rparr>"
    using run prev p a k1 k2 by (simp add: ks_rollback_def Let_def)
  have ap: "active_key_id ks \<in> pk_id ` set (ks_keys ks)" using a find_key_index_None [of "ks_keys ks" "active_key_id ks"] by auto
  have act: "active_key_id ks \<noteq> []" using ap keyset_ok_ids(2) [OF ok] by auto
  have "active_key_id ks \<noteq> previous_key_id ks"
    using ok ap by (auto simp: keyset_ok_def key_ok_def)
  then show ?thesis using prev eq act by blast
qed

lemma ks_commit_edit:
  assumes ok: "keyset_ok ks" and run: "ks_commit now hours ks = Inr ks'"
  shows "pending_key_id ks \<noteq> [] \<and> pending_key_id ks \<noteq> active_key_id ks
     \<and> (\<exists>k. find_key (pending_key_id ks) (ks_keys ks) = Some k \<and> trim_space (pk_verified_at k) \<noteq> [])
     \<and> ks' = ks\<lparr>ks_keys := edit_key (pending_key_id ks) promote
                   (edit_key (active_key_id ks) (demote now hours) (ks_keys ks)),
                 active_key_id := pending_key_id ks, pending_key_id := [],
                 previous_key_id := (if active_key_id ks = [] then previous_key_id ks
                                     else if hours = 0 then [] else active_key_id ks)\<rparr>"
proof -
  let ?keys1 = "edit_key (active_key_id ks) (demote now hours) (ks_keys ks)"
  have pend: "pending_key_id ks \<noteq> []" using run by (auto simp: ks_commit_def split: if_splits)
  obtain p where p: "find_key_index (ks_keys ks) (pending_key_id ks) = Some p"
    using run pend by (auto simp: ks_commit_def split: option.splits)
  have ver: "trim_space (pk_verified_at (ks_keys ks ! p)) \<noteq> []"
    using run pend p by (auto simp: ks_commit_def)
  have d: "distinct (map pk_id (ks_keys ks))" using ok by (rule keyset_ok_ids)
  have p1: "find_key_index ?keys1 (pending_key_id ks) = Some p"
    using p find_key_index_cong [of ?keys1 "ks_keys ks"] by simp
  have d1: "distinct (map pk_id ?keys1)" using d by simp
  have k2: "?keys1[p := promote (?keys1 ! p)] = edit_key (pending_key_id ks) promote ?keys1"
    using update_is_edit [OF d1 p1] .
  have idp: "pk_id (?keys1 ! p) = pending_key_id ks" using find_key_index_find [OF p1] by simp
  have eq: "ks' = ks\<lparr>ks_keys := edit_key (pending_key_id ks) promote ?keys1,
                 active_key_id := pending_key_id ks, pending_key_id := [],
                 previous_key_id := (if active_key_id ks = [] then previous_key_id ks
                                     else if hours = 0 then [] else active_key_id ks)\<rparr>"
  proof (cases "active_key_id ks = []")
    case True
    then have "?keys1 = ks_keys ks"
      using keyset_ok_ids(2) [OF ok] unfolding edit_key_def by (intro map_idI) (metis imageI)
    then show ?thesis using run pend p ver True k2 idp by (auto simp: ks_commit_def Let_def promote_def)
  next
    case False
    then have "active_key_id ks \<in> pk_id ` set (ks_keys ks)" using ok by (auto simp: keyset_ok_def)
    then obtain a where a: "find_key_index (ks_keys ks) (active_key_id ks) = Some a"
      using find_key_index_None [of "ks_keys ks" "active_key_id ks"] by auto
    have k1: "(ks_keys ks)[a := demote now hours (ks_keys ks ! a)] = ?keys1"
      using update_is_edit [OF d a] .
    show ?thesis
      using run pend p ver False a k1 k2 idp find_key_index_find [OF a]
      by (auto simp: ks_commit_def Let_def promote_def demote_def)
  qed
  have "pending_key_id ks \<in> pk_id ` set (ks_keys ks)"
    using p find_key_index_None [of "ks_keys ks" "pending_key_id ks"] by auto
  then have "pending_key_id ks \<noteq> active_key_id ks" using ok by (auto simp: keyset_ok_def key_ok_def)
  then show ?thesis using pend eq ver find_key_index_find [OF p] by blast
qed

subsection \<open>Every operation keeps the key set well formed\<close>

text \<open>
  The contract of an operation on an existing key set. \<open>sync\<close> says whether its caller
  updates the legacy map afterwards; one that does not must leave the active secret alone.
\<close>

locale keyset_op =
  fixes f :: "provider_key_set \<Rightarrow> store_error + provider_key_set" and sync :: bool
  assumes keeps_ok: "keyset_ok ks \<Longrightarrow> f ks = Inr ks' \<Longrightarrow> keyset_ok ks'"
    and keeps_active: "\<not> sync \<Longrightarrow> keyset_ok ks \<Longrightarrow> f ks = Inr ks' \<Longrightarrow> active_secret ks' = active_secret ks"

lemma diff_subset_trans: "A - N \<subseteq> X \<Longrightarrow> X - N \<subseteq> Y \<Longrightarrow> A - N \<subseteq> Y"
  by blast

lemma keyset_ok_map:
  assumes ok: "keyset_ok ks" and ids: "\<And>k. pk_id (h k) = pk_id k"
    and each: "\<And>k. key_ok (active_key_id ks) (pending_key_id ks) (previous_key_id ks) k \<Longrightarrow> key_ok a p v (h k)"
    and sub: "{a, p, v} - {[]} \<subseteq> {active_key_id ks, pending_key_id ks, previous_key_id ks}"
  shows "keyset_ok \<lparr>active_key_id = a, pending_key_id = p, previous_key_id = v, ks_keys = map h (ks_keys ks)\<rparr>"
proof -
  have "map pk_id (map h (ks_keys ks)) = map pk_id (ks_keys ks)" by (simp add: ids)
  then have img: "pk_id ` h ` set (ks_keys ks) = pk_id ` set (ks_keys ks)"
    by (metis list.set_map)
  have "{a, p, v} - {[]} \<subseteq> pk_id ` set (ks_keys ks)"
    using diff_subset_trans [OF sub] ok unfolding keyset_ok_def by (elim conjE)
  moreover have "\<forall>k \<in> set (map h (ks_keys ks)). key_ok a p v k"
    using ok each unfolding keyset_ok_def by auto
  moreover have "distinct (map pk_id (map h (ks_keys ks)))"
    using keyset_ok_ids(1) [OF ok] by (simp add: ids comp_def)
  ultimately show ?thesis by (simp add: keyset_ok_def img)
qed

lemma keyset_eta:
  "ks\<lparr>ks_keys := x, active_key_id := a, pending_key_id := p, previous_key_id := v\<rparr>
     = \<lparr>active_key_id = a, pending_key_id = p, previous_key_id = v, ks_keys = x\<rparr>"
  by (cases ks) simp

lemma active_secret_map:
  "(\<And>k. pk_id (h k) = pk_id k \<and> pk_secret (h k) = pk_secret k) \<Longrightarrow>
   active_secret \<lparr>active_key_id = active_key_id ks, pending_key_id = p, previous_key_id = v,
                 ks_keys = map h (ks_keys ks)\<rparr> = active_secret ks"
  by (simp add: active_secret_def option.map_comp comp_def)

lemma ks_verify_ok:
  assumes "keyset_ok ks" and "ks_verify now ks = Inr ks'"
  shows "keyset_ok ks' \<and> active_secret ks' = active_secret ks"
proof -
  let ?h = "\<lambda>k. if pk_id k = pending_key_id ks then k\<lparr>pk_verified_at := now\<rparr> else k"
  have eq: "ks' = \<lparr>active_key_id = active_key_id ks, pending_key_id = pending_key_id ks,
      previous_key_id = previous_key_id ks, ks_keys = map ?h (ks_keys ks)\<rparr>"
    using ks_verify_edit [OF assms] by (cases ks) (simp add: edit_key_def)
  show ?thesis unfolding eq
    by (intro conjI keyset_ok_map [OF assms(1)] active_secret_map) (auto simp: key_ok_def)
qed

lemma ks_revoke_ok:
  assumes "keyset_ok ks" and "ks_revoke now kid ks = Inr ks'"
  shows "keyset_ok ks' \<and> active_secret ks' = active_secret ks"
proof -
  let ?h = "\<lambda>k. if pk_id k = kid then k\<lparr>pk_status := KeyRevoked, pk_revoked_at := now, pk_expires_at := []\<rparr> else k"
  have e: "kid \<noteq> active_key_id ks" using ks_revoke_edit [OF assms] by simp
  have eq: "ks' = \<lparr>active_key_id = active_key_id ks,
      pending_key_id = (if pending_key_id ks = kid then [] else pending_key_id ks),
      previous_key_id = (if previous_key_id ks = kid then [] else previous_key_id ks),
      ks_keys = map ?h (ks_keys ks)\<rparr>"
    using ks_revoke_edit [OF assms] by (cases ks) (simp add: edit_key_def)
  show ?thesis unfolding eq using e
    by (intro conjI keyset_ok_map [OF assms(1)] active_secret_map) (auto simp: key_ok_def)
qed

lemma ks_revoke_previous_ok:
  assumes "keyset_ok ks" and "ks_revoke_previous now ks = Inr ks'"
  shows "keyset_ok ks' \<and> active_secret ks' = active_secret ks"
proof -
  let ?h = "\<lambda>k. if pk_id k = previous_key_id ks then k\<lparr>pk_status := KeyRevoked, pk_revoked_at := now, pk_expires_at := []\<rparr> else k"
  have eq: "ks' = \<lparr>active_key_id = active_key_id ks, pending_key_id = pending_key_id ks,
      previous_key_id = [], ks_keys = map ?h (ks_keys ks)\<rparr>"
    using ks_revoke_previous_edit [OF assms] by (cases ks) (simp add: edit_key_def)
  show ?thesis unfolding eq
    by (intro conjI keyset_ok_map [OF assms(1)] active_secret_map) (auto simp: key_ok_def)
qed

lemma ks_rollback_ok:
  assumes "keyset_ok ks" and "ks_rollback now ks = Inr ks'"
  shows "keyset_ok ks'"
proof -
  let ?f = "\<lambda>k. if pk_id k = active_key_id ks then k\<lparr>pk_status := KeyPrevious, pk_expires_at := now\<rparr> else k"
  let ?g = "\<lambda>k. if pk_id k = previous_key_id ks then k\<lparr>pk_status := KeyActive, pk_expires_at := []\<rparr> else k"
  have e: "active_key_id ks \<noteq> previous_key_id ks" using ks_rollback_edit [OF assms] by simp
  have eq: "ks' = \<lparr>active_key_id = previous_key_id ks, pending_key_id = pending_key_id ks,
      previous_key_id = active_key_id ks, ks_keys = map (\<lambda>k. ?g (?f k)) (ks_keys ks)\<rparr>"
    using ks_rollback_edit [OF assms] by (cases ks) (simp add: edit_key_def comp_def)
  show ?thesis unfolding eq
    by (intro keyset_ok_map [OF assms(1)]) (use e in \<open>auto simp: key_ok_def split: if_splits\<close>)
qed

lemma ks_commit_ok:
  assumes "keyset_ok ks" and "ks_commit now hours ks = Inr ks'"
  shows "keyset_ok ks'"
proof -
  let ?f = "\<lambda>k. if pk_id k = active_key_id ks then demote now hours k else k"
  let ?g = "\<lambda>k. if pk_id k = pending_key_id ks then promote k else k"
  let ?v = "if active_key_id ks = [] then previous_key_id ks else if hours = 0 then [] else active_key_id ks"
  have e: "pending_key_id ks \<noteq> active_key_id ks" using ks_commit_edit [OF assms] by simp
  have eq: "ks' = \<lparr>active_key_id = pending_key_id ks, pending_key_id = [],
      previous_key_id = ?v, ks_keys = map (\<lambda>k. ?g (?f k)) (ks_keys ks)\<rparr>"
    using ks_commit_edit [OF assms] by (cases ks) (simp add: edit_key_def comp_def)
  show ?thesis unfolding eq
    by (intro keyset_ok_map [OF assms(1)])
       (use e in \<open>auto simp: key_ok_def split: if_splits\<close>)
qed

interpretation verify_op: keyset_op "ks_verify now" False for now
  by unfold_locales (use ks_verify_ok in blast)+
interpretation commit_op: keyset_op "ks_commit now hours" True for now hours
  by unfold_locales (use ks_commit_ok in blast)+
interpretation rollback_op: keyset_op "ks_rollback now" True for now
  by unfold_locales (use ks_rollback_ok in blast)+
interpretation revoke_previous_op: keyset_op "ks_revoke_previous now" False for now
  by unfold_locales (use ks_revoke_previous_ok in blast)+
interpretation revoke_op: keyset_op "ks_revoke now kid" False for now kid
  by unfold_locales (use ks_revoke_ok in blast)+

lemma ks_start_ok:
  assumes ok: "keyset_ok ks" and fresh: "kid \<noteq> []" "kid \<notin> pk_id ` set (ks_keys ks)"
    and run: "ks_start now kid key ks = Inr ks'"
  shows "keyset_ok ks' \<and> active_secret ks' = active_secret ks \<and> pending_key_id ks' = kid"
proof -
  have p: "pending_key_id ks = []"
    and eq: "ks' = \<lparr>active_key_id = active_key_id ks, pending_key_id = kid,
      previous_key_id = previous_key_id ks, ks_keys = ks_keys ks @ [new_key kid KeyPending key now []]\<rparr>"
    using run by (cases ks; auto simp: ks_start_def split: if_splits)+
  have ids: "active_key_id ks = [] \<or> active_key_id ks \<in> pk_id ` set (ks_keys ks)"
    "previous_key_id ks = [] \<or> previous_key_id ks \<in> pk_id ` set (ks_keys ks)"
    using ok unfolding keyset_ok_def by blast+
  then have ne: "kid \<noteq> active_key_id ks" "kid \<noteq> previous_key_id ks" using fresh by auto
  have "\<forall>k \<in> set (ks_keys ks). key_ok (active_key_id ks) kid (previous_key_id ks) k"
  proof
    fix k assume k: "k \<in> set (ks_keys ks)"
    then have "key_ok (active_key_id ks) [] (previous_key_id ks) k" using ok p by (simp add: keyset_ok_def)
    then show "key_ok (active_key_id ks) kid (previous_key_id ks) k"
      using k fresh by (auto simp: key_ok_def)
  qed
  then have "keyset_ok ks'"
    using ids ne fresh keyset_ok_ids(1) [OF ok] unfolding eq
    by (auto simp: keyset_ok_def key_ok_def)
  moreover have "active_secret ks' = active_secret ks"
    using ne unfolding eq active_secret_def by (simp split: option.splits)
  ultimately show ?thesis using eq by simp
qed

lemma ks_set_ok:
  assumes ok: "keyset_ok ks" and fresh: "kid \<noteq> []" "kid \<notin> pk_id ` set (ks_keys ks)"
  shows "keyset_ok (ks_set now kid key ks) \<and> active_secret (ks_set now kid key ks) = Some key"
proof -
  let ?ks = "ks_set now kid key ks"
  have eq: "?ks = \<lparr>active_key_id = kid, pending_key_id = [], previous_key_id = [],
      ks_keys = map (retire_key now) (ks_keys ks) @ [new_key kid KeyActive key now now]\<rparr>"
    by (cases ks) (simp add: ks_set_def)
  have none: "find_key kid (ks_keys ks) = None" using fresh find_key_None by blast
  have "\<forall>k \<in> set (ks_keys ks). key_ok kid [] [] (retire_key now k)"
    using fresh(2) keyset_ok_id_ne [OF ok] by (auto simp: key_ok_def)
  then have "keyset_ok ?ks"
    using fresh keyset_ok_ids(1) [OF ok] unfolding eq
    by (auto simp: keyset_ok_def key_ok_def comp_def)
  moreover have "active_secret ?ks = Some key"
    using fresh none unfolding eq active_secret_def by simp
  ultimately show ?thesis ..
qed

subsection \<open>The invariant of the provider key state\<close>

definition providers_ok :: "state \<Rightarrow> bool" where
  "providers_ok st \<longleftrightarrow>
     distinct (map fst (provider_keysets st))
     \<and> (\<forall>p ks. map_of (provider_keysets st) p = Some ks \<longrightarrow> keyset_ok ks)
     \<and> (\<forall>p. map_of (provider_keys st) p = Option.bind (map_of (provider_keysets st) p) active_secret)"

lemma map_of_update [simp]: "map_of (AList.update k v xs) = (map_of xs)(k \<mapsto> v)"
  by (rule update_conv')

lemma map_of_delete [simp]: "map_of (AList.delete k xs) = (map_of xs)(k := None)"
  by (rule delete_conv')

lemma active_secret_index:
  "active_secret ks = (if active_key_id ks = [] then None
     else map_option (\<lambda>i. pk_secret (ks_keys ks ! i)) (find_key_index (ks_keys ks) (active_key_id ks)))"
  using find_key_index_find [of "ks_keys ks" "active_key_id ks"]
    find_key_index_None [of "ks_keys ks" "active_key_id ks"] find_key_None [of "active_key_id ks" "ks_keys ks"]
  by (cases "find_key_index (ks_keys ks) (active_key_id ks)") (auto simp: active_secret_def)

lemma sync_active_maps [simp]:
  "provider_keysets (sync_active p st) = provider_keysets st"
  "map_of (provider_keys (sync_active p st))
     = (map_of (provider_keys st))(p := Option.bind (map_of (provider_keysets st) p) active_secret)"
  by (auto simp: sync_active_def Let_def active_secret_index split: option.splits)

lemma put_keyset_maps [simp]:
  "provider_keysets (put_keyset p ks st) = AList.update p ks (provider_keysets st)"
  "provider_keys (put_keyset p ks st) = provider_keys st"
  by (simp_all add: put_keyset_def)

lemma providers_ok_put:
  assumes "providers_ok st" and "keyset_ok ks"
  shows "providers_ok (sync_active p (put_keyset p ks st))"
    and "active_secret ks = Option.bind (map_of (provider_keysets st) p) active_secret
           \<Longrightarrow> providers_ok (put_keyset p ks st)"
  using assms by (auto simp: providers_ok_def distinct_update)

lemma get_provider_key_ok:
  "providers_ok st \<Longrightarrow> get_provider_key p st =
     (case Option.bind (map_of (provider_keysets st) (normalize_provider p)) active_secret of
        None \<Rightarrow> [] | Some k \<Rightarrow> k)"
  by (auto simp: get_provider_key_def Let_def providers_ok_def active_secret_index split: option.splits)

lemma providers_ok_empty [simp]: "providers_ok empty_state"
  by (simp add: providers_ok_def empty_state_def)

lemma ensure_keyset_ok: "providers_ok st \<Longrightarrow> keyset_ok (ensure_keyset st p)"
  by (auto simp: ensure_keyset_def providers_ok_def split: option.splits)

lemma ensure_keyset_secret:
  "active_secret (ensure_keyset st p) = Option.bind (map_of (provider_keysets st) p) active_secret"
  by (auto simp: ensure_keyset_def active_secret_def split: option.splits)

context keyset_op
begin

lemma on_keyset_ok:
  assumes "providers_ok st" and "on_keyset sync missing f p st = Inr (st', ks')"
  shows "providers_ok st'"
    and "\<exists>ks. map_of (provider_keysets st) p = Some ks \<and> f ks = Inr ks'"
    and "provider_keysets st' = AList.update p ks' (provider_keysets st)"
proof -
  obtain ks where ks: "map_of (provider_keysets st) p = Some ks" "f ks = Inr ks'"
    and st': "st' = (if sync then sync_active p (put_keyset p ks' st) else put_keyset p ks' st)"
    using assms(2) by (auto simp: on_keyset_def Let_def split: option.splits sum.splits)
  have ok: "keyset_ok ks" using assms(1) ks(1) unfolding providers_ok_def by blast
  show "\<exists>ks. map_of (provider_keysets st) p = Some ks \<and> f ks = Inr ks'" using ks by blast
  show "provider_keysets st' = AList.update p ks' (provider_keysets st)" using st' by simp
  show "providers_ok st'"
    using providers_ok_put [OF assms(1) keeps_ok [OF ok ks(2)]] keeps_active [OF _ ok ks(2)] ks(1) st'
    by (cases sync) simp_all
qed

lemma on_keyset_get:
  assumes "\<not> sync" and "providers_ok st" and "on_keyset sync missing f p st = Inr (st', ks')"
  shows "get_provider_key q st' = get_provider_key q st"
proof -
  obtain ks where ks: "map_of (provider_keysets st) p = Some ks" "f ks = Inr ks'"
    using on_keyset_ok(2) [OF assms(2,3)] by blast
  have "keyset_ok ks" using assms(2) ks(1) unfolding providers_ok_def by blast
  then have "active_secret ks' = active_secret ks" using keeps_active assms(1) ks(2) by blast
  then show ?thesis
    using ks(1) on_keyset_ok(1,3) [OF assms(2,3)] assms(2) by (simp add: get_provider_key_ok)
qed

lemma on_keyset_other:
  assumes "providers_ok st" and "on_keyset sync missing f p st = Inr (st', ks')" and "normalize_provider q \<noteq> p"
  shows "get_provider_key q st' = get_provider_key q st"
  using on_keyset_ok(1,3) [OF assms(1,2)] assms(1,3) by (simp add: get_provider_key_ok)

end

subsection \<open>Steps of the state\<close>

definition key_fresh :: "string \<Rightarrow> string \<Rightarrow> state \<Rightarrow> bool" where
  "key_fresh rnd provider st \<longleftrightarrow>
     generate_key_id rnd \<notin> pk_id ` set (ks_keys (ensure_keyset st (normalize_provider provider)))"

text \<open>One successful operation on the provider keys; a generated id is not one of the provider's ids.\<close>

inductive key_step :: "state \<Rightarrow> state \<Rightarrow> bool" where
  step_set: "set_key_body now rnd p key st = Inr (st', ()) \<Longrightarrow> key_fresh rnd p st \<Longrightarrow> key_step st st'"
| step_start: "rotate_start_body now rnd p key st = Inr (st', kid) \<Longrightarrow> key_fresh rnd p st \<Longrightarrow> key_step st st'"
| step_verify: "rotate_verify_body now p st = Inr (st', kid) \<Longrightarrow> key_step st st'"
| step_commit: "rotate_commit_body now p hours st = Inr (st', ()) \<Longrightarrow> key_step st st'"
| step_rollback: "rotate_rollback_body now p st = Inr (st', ()) \<Longrightarrow> key_step st st'"
| step_revoke_previous: "revoke_previous_body now p st = Inr (st', ()) \<Longrightarrow> key_step st st'"
| step_revoke: "revoke_key_body now p kid st = Inr (st', ()) \<Longrightarrow> key_step st st'"

inductive_cases key_stepE: "key_step st st'"

lemma map_sum_Inr: "map_sum id f x = Inr y \<longleftrightarrow> (\<exists>z. x = Inr z \<and> y = f z)"
  by (cases x) auto

lemmas key_bodies = set_key_body_def rotate_start_body_def rotate_verify_body_def rotate_commit_body_def
  rotate_rollback_body_def revoke_previous_body_def revoke_key_body_def

lemma set_key_step:
  assumes "providers_ok st" and "key_fresh rnd p st" and "set_key_body now rnd p key st = Inr (st', r)"
  shows "providers_ok st'" and "get_provider_key p st' = trim_space key"
    and "normalize_provider q \<noteq> normalize_provider p \<Longrightarrow> get_provider_key q st' = get_provider_key q st"
proof -
  let ?ks = "ks_set (rfc3339 now) (generate_key_id rnd) (trim_space key) (ensure_keyset st (normalize_provider p))"
  have st': "st' = sync_active (normalize_provider p) (put_keyset (normalize_provider p) ?ks st)"
    using assms(3) by (auto simp: set_key_body_def Let_def split: if_splits)
  have k: "keyset_ok ?ks" "active_secret ?ks = Some (trim_space key)"
    using ks_set_ok [OF ensure_keyset_ok [OF assms(1)] generate_key_id_nonempty] assms(2)
    by (simp_all add: key_fresh_def)
  show ok: "providers_ok st'" unfolding st' by (rule providers_ok_put(1) [OF assms(1) k(1)])
  show "get_provider_key p st' = trim_space key"
    using k(2) by (simp add: get_provider_key_ok [OF ok [unfolded st']] st')
  show "get_provider_key q st' = get_provider_key q st" if "normalize_provider q \<noteq> normalize_provider p"
    using that by (simp add: get_provider_key_ok [OF ok [unfolded st']] get_provider_key_ok [OF assms(1)] st')
qed

lemma rotate_start_step:
  assumes "providers_ok st" and "key_fresh rnd p st" and "rotate_start_body now rnd p key st = Inr (st', kid)"
  shows "providers_ok st'" and "get_provider_key q st' = get_provider_key q st"
    and "\<exists>ks'. ks_start (rfc3339 now) (generate_key_id rnd) (trim_space key) (ensure_keyset st (normalize_provider p)) = Inr ks'
           \<and> st' = put_keyset (normalize_provider p) ks' st \<and> keyset_ok ks' \<and> kid = generate_key_id rnd"
proof -
  obtain ks' where run: "ks_start (rfc3339 now) (generate_key_id rnd) (trim_space key) (ensure_keyset st (normalize_provider p)) = Inr ks'"
    and st': "st' = put_keyset (normalize_provider p) ks' st" and kid: "kid = generate_key_id rnd"
    using assms(3) by (auto simp: rotate_start_body_def Let_def split: if_splits sum.splits)
  have k: "keyset_ok ks'" "active_secret ks' = active_secret (ensure_keyset st (normalize_provider p))"
    using ks_start_ok [OF ensure_keyset_ok [OF assms(1)] generate_key_id_nonempty _ run] assms(2)
    by (simp_all add: key_fresh_def)
  show ok: "providers_ok st'" unfolding st'
    by (rule providers_ok_put(2) [OF assms(1) k(1)]) (simp add: k(2) ensure_keyset_secret)
  show "get_provider_key q st' = get_provider_key q st"
    by (simp add: get_provider_key_ok [OF ok [unfolded st']] get_provider_key_ok [OF assms(1)] st' k(2) ensure_keyset_secret)
  show "\<exists>ks'. ks_start (rfc3339 now) (generate_key_id rnd) (trim_space key) (ensure_keyset st (normalize_provider p)) = Inr ks'
           \<and> st' = put_keyset (normalize_provider p) ks' st \<and> keyset_ok ks' \<and> kid = generate_key_id rnd"
    using run st' k(1) kid by blast
qed

lemma key_step_ok:
  assumes "providers_ok st" and "key_step st st'"
  shows "providers_ok st'"
  using assms(2)
proof cases
  case (step_set now rnd p key)
  then show ?thesis using set_key_step(1) assms(1) by blast
next
  case (step_start now rnd p key kid)
  then show ?thesis using rotate_start_step(1) assms(1) by blast
qed (use assms(1) in \<open>auto simp: key_bodies Let_def map_sum_Inr split: if_splits
       dest: verify_op.on_keyset_ok(1) commit_op.on_keyset_ok(1) rollback_op.on_keyset_ok(1)
         revoke_previous_op.on_keyset_ok(1) revoke_op.on_keyset_ok(1)\<close>)

interpretation set_key_store: durable "set_provider_key now rnd p key" for now rnd p key
  unfolding set_provider_key_def by (rule durable_transact)
interpretation rotate_start_store: durable "rotate_provider_key_start now rnd p key" for now rnd p key
  unfolding rotate_provider_key_start_def by (rule durable_transact)

lemma provider_op_inv:
  assumes "\<And>st st' r. body st = Inr (st', r) \<Longrightarrow> key_step st st'"
  shows "durable_inv (transact body) providers_ok"
  by (rule durable_inv_transact) (use assms key_step_ok in \<open>auto intro: providers_ok_empty\<close>)

interpretation rotate_verify_store: durable_inv "rotate_provider_key_verify now p" providers_ok for now p
  unfolding rotate_provider_key_verify_def by (rule provider_op_inv) (rule step_verify)
interpretation rotate_commit_store: durable_inv "rotate_provider_key_commit now p hours" providers_ok for now p hours
  unfolding rotate_provider_key_commit_def by (rule provider_op_inv) (auto intro: step_commit)
interpretation rotate_rollback_store: durable_inv "rotate_provider_key_rollback now p" providers_ok for now p
  unfolding rotate_provider_key_rollback_def by (rule provider_op_inv) (auto intro: step_rollback)
interpretation revoke_previous_store: durable_inv "revoke_previous_provider_key now p" providers_ok for now p
  unfolding revoke_previous_provider_key_def by (rule provider_op_inv) (auto intro: step_revoke_previous)
interpretation revoke_key_store: durable_inv "revoke_provider_key now p kid" providers_ok for now p kid
  unfolding revoke_provider_key_def by (rule provider_op_inv) (auto intro: step_revoke)

subsection \<open>Loading an older state\<close>

definition single_key :: "string \<Rightarrow> string \<Rightarrow> string \<Rightarrow> provider_key_set" where
  "single_key now buf k =
     \<lparr>active_key_id = generate_key_id buf, pending_key_id = [], previous_key_id = [],
      ks_keys = [new_key (generate_key_id buf) KeyActive k now now]\<rparr>"

lemma single_key_ok [simp]: "keyset_ok (single_key now buf k)" "active_secret (single_key now buf k) = Some k"
  by (auto simp: single_key_def keyset_ok_def key_ok_def active_secret_def find_key_def)

lemma migrate_one_simps:
  "provider_keysets (snd (migrate_one now rnd (p, k) (c, st))) =
     (if trim_space k = [] \<or> map_of (provider_keysets st) p \<noteq> None then provider_keysets st
      else AList.update p (single_key (rfc3339 now) (rnd p) k) (provider_keysets st))"
  "provider_keys (snd (migrate_one now rnd (p, k) (c, st))) =
     (if trim_space k = [] then AList.delete p (provider_keys st) else provider_keys st)"
  by (simp_all add: migrate_one_def Let_def single_key_def)

lemma migrate_fold_keysets:
  assumes "distinct (map fst kvs)"
  shows "map_of (provider_keysets (snd (fold (migrate_one now rnd) kvs (c, st)))) q =
     (case map_of (provider_keysets st) q of
        Some ks \<Rightarrow> Some ks
      | None \<Rightarrow> (case map_of kvs q of
          None \<Rightarrow> None
        | Some k \<Rightarrow> if trim_space k = [] then None else Some (single_key (rfc3339 now) (rnd q) k)))"
  using assms
proof (induction kvs arbitrary: c st)
  case (Cons kv kvs)
  obtain p k where kv: "kv = (p, k)" by (cases kv)
  obtain c1 st1 where a: "migrate_one now rnd (p, k) (c, st) = (c1, st1)" by fastforce
  have ks1: "provider_keysets st1 = (if trim_space k = [] \<or> map_of (provider_keysets st) p \<noteq> None then provider_keysets st
      else AList.update p (single_key (rfc3339 now) (rnd p) k) (provider_keysets st))"
    using migrate_one_simps(1) [of now rnd p k c st] a by simp
  have none: "map_of kvs p = None" using Cons.prems kv by (simp add: map_of_eq_None_iff)
  have ih: "map_of (provider_keysets (snd (fold (migrate_one now rnd) kvs (c1, st1)))) q =
     (case map_of (provider_keysets st1) q of
        Some ks \<Rightarrow> Some ks
      | None \<Rightarrow> (case map_of kvs q of
          None \<Rightarrow> None
        | Some k \<Rightarrow> if trim_space k = [] then None else Some (single_key (rfc3339 now) (rnd q) k)))"
    using Cons by simp
  have step: "fold (migrate_one now rnd) (kv # kvs) (c, st) = fold (migrate_one now rnd) kvs (c1, st1)"
    by (simp add: kv a)
  show ?case unfolding step unfolding ih ks1 unfolding kv using none by (cases "q = p") (auto split: option.splits)
qed (simp split: option.splits)

lemma migrate_fold_keys:
  "map_of (provider_keys (snd (fold (migrate_one now rnd) kvs (c, st)))) q =
     (if \<exists>k. (q, k) \<in> set kvs \<and> trim_space k = [] then None else map_of (provider_keys st) q)"
proof (induction kvs arbitrary: c st)
  case (Cons kv kvs)
  obtain p k where kv: "kv = (p, k)" by (cases kv)
  obtain c1 st1 where a: "migrate_one now rnd (p, k) (c, st) = (c1, st1)" by fastforce
  have "provider_keys st1 = (if trim_space k = [] then AList.delete p (provider_keys st) else provider_keys st)"
    using migrate_one_simps(2) [of now rnd p k c st] a by simp
  then show ?case using Cons [of c1 st1] by (auto simp: kv a)
qed simp

lemma migrate_fold_distinct:
  "distinct (map fst (provider_keysets st)) \<Longrightarrow>
   distinct (map fst (provider_keysets (snd (fold (migrate_one now rnd) kvs (c, st)))))"
proof (induction kvs arbitrary: c st)
  case (Cons kv kvs)
  obtain p k where kv: "kv = (p, k)" by (cases kv)
  obtain c1 st1 where a: "migrate_one now rnd (p, k) (c, st) = (c1, st1)" by fastforce
  have "distinct (map fst (provider_keysets st1))"
    using migrate_one_simps(1) [of now rnd p k c st] a Cons.prems by (auto simp: distinct_update split: if_splits)
  then show ?case using Cons.IH kv a by simp
qed simp

lemma sync_all_maps:
  "provider_keysets (fold sync_active ps st) = provider_keysets st"
  "map_of (provider_keys (fold sync_active ps st)) q =
     (if q \<in> set ps then Option.bind (map_of (provider_keysets st) q) active_secret else map_of (provider_keys st) q)"
  by (induction ps arbitrary: st) auto

definition loadable :: "state \<Rightarrow> bool" where
  "loadable st \<longleftrightarrow> distinct (map fst (provider_keys st)) \<and> distinct (map fst (provider_keysets st))
     \<and> (\<forall>p ks. map_of (provider_keysets st) p = Some ks \<longrightarrow> keyset_ok ks)"

lemma migrate_keysets:
  assumes "loadable st"
  shows "map_of (provider_keysets (snd (migrate_provider_keys now rnd st))) q =
     (case map_of (provider_keysets st) q of
        Some ks \<Rightarrow> Some ks
      | None \<Rightarrow> (case map_of (provider_keys st) q of
          None \<Rightarrow> None
        | Some k \<Rightarrow> if trim_space k = [] then None else Some (single_key (rfc3339 now) (rnd q) k)))"
proof -
  obtain c st1 where f: "fold (migrate_one now rnd) (provider_keys st) (False, st) = (c, st1)" by fastforce
  have "provider_keysets (snd (migrate_provider_keys now rnd st)) = provider_keysets st1"
    by (simp add: migrate_provider_keys_def f sync_all_maps)
  then show ?thesis
    using migrate_fold_keysets [of "provider_keys st" now rnd False st q] assms f by (simp add: loadable_def)
qed

lemma migrate_ok:
  assumes "loadable st"
  shows "providers_ok (snd (migrate_provider_keys now rnd st))"
proof -
  obtain c st1 where f: "fold (migrate_one now rnd) (provider_keys st) (False, st) = (c, st1)" by fastforce
  have st': "snd (migrate_provider_keys now rnd st) = fold sync_active (map fst (provider_keysets st1)) st1"
    by (simp add: migrate_provider_keys_def f)
  have keysets: "provider_keysets (snd (migrate_provider_keys now rnd st)) = provider_keysets st1"
    by (simp add: st' sync_all_maps)
  have "distinct (map fst (provider_keysets st1))"
    using migrate_fold_distinct [of st now rnd "provider_keys st" False] assms f by (simp add: loadable_def)
  moreover have "keyset_ok ks" if "map_of (provider_keysets st1) p = Some ks" for p ks
    using that migrate_keysets [OF assms, of now rnd p] assms keysets
    by (auto simp: loadable_def split: option.splits if_splits)
  moreover have "map_of (provider_keys (snd (migrate_provider_keys now rnd st))) p
      = Option.bind (map_of (provider_keysets st1) p) active_secret" for p
  proof (cases "map_of (provider_keysets st1) p")
    case None
    have ks: "map_of (provider_keysets st) p = None \<and>
        (\<forall>k. map_of (provider_keys st) p = Some k \<longrightarrow> trim_space k = [])"
      using None migrate_keysets [OF assms, of now rnd p] keysets by (auto split: option.splits if_splits)
    then have "map_of (provider_keys st1) p = None"
      using migrate_fold_keys [of now rnd "provider_keys st" False st p] f
      by (cases "map_of (provider_keys st) p") (auto dest: map_of_SomeD)
    moreover have "p \<notin> set (map fst (provider_keysets st1))" using None by (simp add: map_of_eq_None_iff)
    ultimately show ?thesis using None by (simp add: st' sync_all_maps)
  next
    case (Some ks)
    then have "p \<in> set (map fst (provider_keysets st1))" by (force dest: map_of_SomeD)
    then show ?thesis by (simp add: st' sync_all_maps)
  qed
  ultimately show ?thesis unfolding providers_ok_def keysets by blast
qed

subsection \<open>The rotation of a key, step by step\<close>

lemma on_keyset_eval:
  "map_of (provider_keysets st) p = Some ks \<Longrightarrow> f ks = Inr ks' \<Longrightarrow>
   on_keyset sync missing f p st =
     Inr (if sync then sync_active p (put_keyset p ks' st) else put_keyset p ks' st, ks')"
  by (simp add: on_keyset_def Let_def)

lemma find_key_exists: "kid \<in> pk_id ` set keys \<Longrightarrow> \<exists>i. find_key_index keys kid = Some i"
  using find_key_index_None [of keys kid] by auto

lemma ks_verify_succeeds:
  assumes "keyset_ok ks" and "pending_key_id ks \<noteq> []"
  shows "\<exists>ks'. ks_verify now ks = Inr ks'"
proof -
  have "pending_key_id ks \<in> pk_id ` set (ks_keys ks)" using assms by (auto simp: keyset_ok_def)
  then show ?thesis using assms(2) find_key_exists by (fastforce simp: ks_verify_def)
qed

lemma ks_commit_succeeds:
  assumes "keyset_ok ks" and "pending_key_id ks \<noteq> []"
    and "find_key (pending_key_id ks) (ks_keys ks) = Some k"
  shows "if trim_space (pk_verified_at k) = [] then ks_commit now hours ks = Inl PendingNotVerified
         else \<exists>ks'. ks_commit now hours ks = Inr ks'"
proof -
  have "pending_key_id ks \<in> pk_id ` set (ks_keys ks)" using assms by (auto simp: keyset_ok_def)
  then obtain i where i: "find_key_index (ks_keys ks) (pending_key_id ks) = Some i" using find_key_exists by blast
  have "ks_keys ks ! i = k" using find_key_index_find [OF i] assms(3) by simp
  then show ?thesis using i assms(2) by (simp add: ks_commit_def Let_def)
qed

lemma ks_rollback_succeeds:
  assumes "keyset_ok ks" and "previous_key_id ks \<noteq> []" and "active_key_id ks \<noteq> []"
  shows "\<exists>ks'. ks_rollback now ks = Inr ks'"
proof -
  have "previous_key_id ks \<in> pk_id ` set (ks_keys ks)" "active_key_id ks \<in> pk_id ` set (ks_keys ks)"
    using assms by (auto simp: keyset_ok_def)
  then obtain i j where "find_key_index (ks_keys ks) (previous_key_id ks) = Some i"
    "find_key_index (ks_keys ks) (active_key_id ks) = Some j"
    using find_key_exists by meson
  then show ?thesis using assms(2) by (simp add: ks_rollback_def Let_def)
qed

text \<open>Where a key set stands after each step: the record of the new key, the active secret before.\<close>

lemma ks_start_then_verify:
  assumes ok: "keyset_ok ks" and fresh: "kid \<noteq> []" "kid \<notin> pk_id ` set (ks_keys ks)"
    and start: "ks_start now kid key ks = Inr ks1" and verify: "ks_verify now' ks1 = Inr ks2"
  shows "find_key kid (ks_keys ks1) = Some (new_key kid KeyPending key now [])"
    and "find_key kid (ks_keys ks2) = Some ((new_key kid KeyPending key now [])\<lparr>pk_verified_at := now'\<rparr>)"
    and "pending_key_id ks2 = kid" and "active_key_id ks2 = active_key_id ks"
proof -
  have none: "find_key kid (ks_keys ks) = None" using fresh find_key_None by blast
  have ks1: "ks1 = ks\<lparr>ks_keys := ks_keys ks @ [new_key kid KeyPending key now []], pending_key_id := kid\<rparr>"
    using start by (simp add: ks_start_def split: if_splits)
  show f: "find_key kid (ks_keys ks1) = Some (new_key kid KeyPending key now [])" using none ks1 by simp
  have ks2: "ks2 = ks1\<lparr>ks_keys := edit_key kid (\<lambda>k. k\<lparr>pk_verified_at := now'\<rparr>) (ks_keys ks1)\<rparr>"
    using ks_verify_edit [OF _ verify] ks_start_ok [OF ok fresh start] by simp
  show "find_key kid (ks_keys ks2) = Some ((new_key kid KeyPending key now [])\<lparr>pk_verified_at := now'\<rparr>)"
    using f by (simp add: ks2 find_key_edit)
  show "pending_key_id ks2 = kid" "active_key_id ks2 = active_key_id ks" by (simp_all add: ks2 ks1)
qed

lemma ks_commit_secret:
  assumes "keyset_ok ks" and "ks_commit now hours ks = Inr ks'"
  shows "active_secret ks' = map_option pk_secret (find_key (pending_key_id ks) (ks_keys ks))"
proof -
  note e = ks_commit_edit [OF assms]
  then obtain k where k: "find_key (pending_key_id ks) (ks_keys ks) = Some k" by blast
  show ?thesis using e k by (auto simp: active_secret_def find_key_edit)
qed

lemma ks_commit_rollback_secret:
  assumes ok: "keyset_ok ks" and com: "ks_commit now hours ks = Inr ks1" and "hours \<noteq> 0"
    and act: "active_key_id ks \<noteq> []" and roll: "ks_rollback now' ks1 = Inr ks2"
  shows "active_secret ks2 = active_secret ks"
proof -
  note c = ks_commit_edit [OF ok com] and r = ks_rollback_edit [OF ks_commit_ok [OF ok com] roll]
  have "active_key_id ks \<in> pk_id ` set (ks_keys ks)" using ok act by (auto simp: keyset_ok_def)
  then obtain k where k: "find_key (active_key_id ks) (ks_keys ks) = Some k"
    using find_key_None [of "active_key_id ks" "ks_keys ks"] by fastforce
  show ?thesis using c r k assms(3) act by (auto simp: active_secret_def find_key_edit)
qed

lemma rollback_after_commit:
  assumes ok: "providers_ok st" and com: "rotate_commit_body t3 p hours st = Inr (st', ())"
    and old: "get_provider_key p st \<noteq> []" and keep: "hours \<noteq> 0"
  shows "\<exists>st4. rotate_rollback_body t4 p st' = Inr (st4, ()) \<and> get_provider_key p st4 = get_provider_key p st"
proof -
  let ?P = "normalize_provider p"
  obtain ks' where o: "on_keyset True NoPendingRotation (ks_commit t3 hours) ?P st = Inr (st', ks')" and P: "?P \<noteq> []"
    using com by (auto simp: rotate_commit_body_def Let_def map_sum_Inr split: if_splits)
  obtain ks where ks: "map_of (provider_keysets st) ?P = Some ks" and c: "ks_commit t3 hours ks = Inr ks'"
    using commit_op.on_keyset_ok(2) [OF ok o] by blast
  have kok: "keyset_ok ks" using ok ks unfolding providers_ok_def by blast
  have act: "active_key_id ks \<noteq> []"
    using old ks by (auto simp: get_provider_key_ok [OF ok] active_secret_def split: if_splits)
  note e = ks_commit_edit [OF kok c] and ok' = commit_op.on_keyset_ok(1) [OF ok o]
  obtain ks4 where ks4: "ks_rollback (rfc3339 t4) ks' = Inr ks4"
    using ks_rollback_succeeds [OF ks_commit_ok [OF kok c]] e act keep by auto
  have m: "map_of (provider_keysets st') ?P = Some ks'" using commit_op.on_keyset_ok(3) [OF ok o] by simp
  define st4 where "st4 = sync_active ?P (put_keyset ?P ks4 st')"
  have o4: "on_keyset True NoPreviousForRollback (ks_rollback (rfc3339 t4)) ?P st' = Inr (st4, ks4)"
    using on_keyset_eval [OF m, of "ks_rollback (rfc3339 t4)", OF ks4] by (simp add: st4_def)
  have "active_secret ks4 = active_secret ks" by (rule ks_commit_rollback_secret [OF kok c keep act ks4])
  moreover have "map_of (provider_keysets st4) ?P = Some ks4" by (simp add: st4_def)
  ultimately have "get_provider_key p st4 = get_provider_key p st"
    using get_provider_key_ok [OF rollback_op.on_keyset_ok(1) [OF ok' o4], of p]
      get_provider_key_ok [OF ok, of p] ks by simp
  moreover have "rotate_rollback_body t4 p st' = Inr (st4, ())" using o4 P by (simp add: rotate_rollback_body_def)
  ultimately show ?thesis by blast
qed

subsection \<open>Properties\<close>

text \<open>
  A successful \<open>SetProviderKey\<close> makes the trimmed key the one \<open>GetProviderKey\<close> returns for
  every spelling of the provider, changes no other provider's key, and survives reopening the
  state file.
\<close>

theorem set_provider_key_readable:
  assumes "providers_ok (mem s)" and "key_fresh rnd p (mem s)"
    and "set_provider_key now rnd p key io s = (Inr (), s')" and "normalize_provider p' = normalize_provider p"
  shows "get_provider_key p' (mem s') = trim_space key
     \<and> (\<forall>q. normalize_provider q \<noteq> normalize_provider p
           \<longrightarrow> get_provider_key q (mem s') = get_provider_key q (mem s))
     \<and> (\<forall>io'. io_read io' \<longrightarrow> reload io' s' = (Inr (), s'))"
proof -
  have body: "set_key_body now rnd p key (mem s) = Inr (mem s', ())"
    using transact_ok assms(3) by (fastforce simp: set_provider_key_def)
  have "get_provider_key p' (mem s') = get_provider_key p (mem s')"
    using assms(4) by (simp add: get_provider_key_def)
  then show ?thesis
    using set_key_step [OF assms(1,2) body] set_key_store.reload_after_ok [OF assms(3)] by simp
qed

lemma set_provider_key_readable_witness:
  "\<exists>s'. set_provider_key 0 ''abcdefgh'' ''claude'' '' sk '' io_ok (saved empty_state) = (Inr (), s')
     \<and> get_provider_key ''anthropic'' (mem s') = ''sk''"
proof -
  have n: "normalize_provider ''anthropic'' = ''anthropic''" "normalize_provider ''claude'' = ''anthropic''"
    by code_simp+
  have t: "trim_space '' sk '' = ''sk''" by code_simp
  have "\<exists>st'. set_key_body 0 ''abcdefgh'' ''claude'' '' sk '' empty_state = Inr (st', ())"
    by (simp add: set_key_body_def n t Let_def)
  then obtain st' where body: "set_key_body 0 ''abcdefgh'' ''claude'' '' sk '' empty_state = Inr (st', ())" ..
  have run: "set_provider_key 0 ''abcdefgh'' ''claude'' '' sk '' io_ok (saved empty_state) = (Inr (), saved st')"
    unfolding set_provider_key_def by (rule transact_saved [of "set_key_body _ _ _ _", OF body])
  have f: "key_fresh ''abcdefgh'' ''claude'' (mem (saved empty_state))"
    by (simp add: key_fresh_def ensure_keyset_def empty_state_def)
  show ?thesis
    using set_provider_key_readable [OF _ f run, of "''anthropic''"] run t n by simp
qed

text \<open>
  (C4) Rotation: from any well-formed state without a pending key, start, verify and commit
  succeed in that order; the key in use changes only at the commit, a commit before the
  verification is refused, and when the previous key is kept a rollback brings it back.
\<close>

theorem rotation_lifecycle:
  assumes ok: "providers_ok st" and fresh: "key_fresh rnd p st"
    and args: "normalize_provider p \<noteq> []" "trim_space key \<noteq> []" "0 \<le> sint hours"
    and idle: "pending_key_id (ensure_keyset st (normalize_provider p)) = []"
  shows "\<exists>kid st1 st2 st3.
     rotate_start_body t1 rnd p key st = Inr (st1, kid)
     \<and> rotate_commit_body t2 p hours st1 = Inl PendingNotVerified
     \<and> rotate_verify_body t2 p st1 = Inr (st2, kid)
     \<and> rotate_commit_body t3 p hours st2 = Inr (st3, ())
     \<and> get_provider_key p st1 = get_provider_key p st
     \<and> get_provider_key p st2 = get_provider_key p st
     \<and> get_provider_key p st3 = trim_space key
     \<and> (get_provider_key p st \<noteq> [] \<and> hours \<noteq> 0 \<longrightarrow>
          (\<exists>st4. rotate_rollback_body t4 p st3 = Inr (st4, ()) \<and> get_provider_key p st4 = get_provider_key p st))"
proof -
  let ?P = "normalize_provider p" and ?kid = "generate_key_id rnd"
  let ?ks = "ensure_keyset st ?P"
  have kok: "keyset_ok ?ks" by (rule ensure_keyset_ok [OF ok])
  have kf: "?kid \<notin> pk_id ` set (ks_keys ?ks)" using fresh by (simp add: key_fresh_def)
  have "\<exists>ks1. ks_start (rfc3339 t1) ?kid (trim_space key) ?ks = Inr ks1" using idle by (simp add: ks_start_def)
  then obtain ks1 where ks1: "ks_start (rfc3339 t1) ?kid (trim_space key) ?ks = Inr ks1" ..
  note k1 = ks_start_ok [OF kok generate_key_id_nonempty kf ks1]
  define st1 where "st1 = put_keyset ?P ks1 st"
  have b1: "rotate_start_body t1 rnd p key st = Inr (st1, ?kid)"
    using args ks1 by (simp add: rotate_start_body_def Let_def st1_def)
  note s1 = rotate_start_step(1,2) [OF ok fresh b1]
  have m1: "map_of (provider_keysets st1) ?P = Some ks1" by (simp add: st1_def)
  obtain ks2 where ks2: "ks_verify (rfc3339 t2) ks1 = Inr ks2"
    using ks_verify_succeeds [of ks1] k1 by auto
  note k2 = ks_verify_ok [OF conjunct1 [OF k1] ks2]
    and f = ks_start_then_verify [OF kok generate_key_id_nonempty kf ks1 ks2]
  define st2 where "st2 = put_keyset ?P ks2 st1"
  have o2: "on_keyset False NoPendingRotation (ks_verify (rfc3339 t2)) ?P st1 = Inr (st2, ks2)"
    using on_keyset_eval [OF m1, of "ks_verify (rfc3339 t2)", OF ks2] by (simp add: st2_def)
  have b2: "rotate_verify_body t2 p st1 = Inr (st2, ?kid)"
    using o2 args f(3) by (simp add: rotate_verify_body_def)
  have early: "rotate_commit_body t2 p hours st1 = Inl PendingNotVerified"
    using ks_commit_succeeds [of ks1 _ t2 hours] k1 f(1) m1 args
    by (auto simp: rotate_commit_body_def on_keyset_def)
  have g2: "get_provider_key p st2 = get_provider_key p st1" "providers_ok st2"
    using verify_op.on_keyset_get [OF _ s1(1) o2] verify_op.on_keyset_ok(1) [OF s1(1) o2] by simp_all
  have m2: "map_of (provider_keysets st2) ?P = Some ks2" by (simp add: st2_def)
  obtain ks3 where ks3: "ks_commit t3 hours ks2 = Inr ks3"
    using ks_commit_succeeds [OF conjunct1 [OF k2], of _ t3 hours] f by auto
  define st3 where "st3 = sync_active ?P (put_keyset ?P ks3 st2)"
  have o3: "on_keyset True NoPendingRotation (ks_commit t3 hours) ?P st2 = Inr (st3, ks3)"
    using on_keyset_eval [OF m2, of "ks_commit t3 hours", OF ks3] by (simp add: st3_def)
  have b3: "rotate_commit_body t3 p hours st2 = Inr (st3, ())"
    using o3 args by (simp add: rotate_commit_body_def)
  have ok3: "providers_ok st3" using commit_op.on_keyset_ok(1) [OF g2(2) o3] .
  have m3: "map_of (provider_keysets st3) ?P = Some ks3" by (simp add: st3_def)
  have "active_secret ks3 = Some (trim_space key)"
    using ks_commit_secret [OF conjunct1 [OF k2] ks3] f by simp
  then have g3: "get_provider_key p st3 = trim_space key" using get_provider_key_ok [OF ok3] m3 by simp
  have roll: "\<exists>st4. rotate_rollback_body t4 p st3 = Inr (st4, ()) \<and> get_provider_key p st4 = get_provider_key p st"
    if "get_provider_key p st \<noteq> [] \<and> hours \<noteq> 0"
    using rollback_after_commit [OF g2(2) b3] g2(1) s1(2) that by metis
  show ?thesis using b1 early b2 b3 s1(2) g2(1) g3 roll by metis
qed

lemma rotation_lifecycle_witness:
  "\<exists>kid st1 st2 st3.
     rotate_start_body 1 ''abcdefgh'' ''openai'' ''new'' empty_state = Inr (st1, kid)
     \<and> rotate_verify_body 2 ''openai'' st1 = Inr (st2, kid)
     \<and> rotate_commit_body 3 ''openai'' 24 st2 = Inr (st3, ())
     \<and> get_provider_key ''openai'' st2 = [] \<and> get_provider_key ''openai'' st3 = ''new''"
proof -
  have n: "normalize_provider ''openai'' = ''openai''" by code_simp
  have t: "trim_space ''new'' = ''new''" by code_simp
  have f: "key_fresh ''abcdefgh'' ''openai'' empty_state" and i: "pending_key_id (ensure_keyset empty_state ''openai'') = []"
    and g: "get_provider_key ''openai'' empty_state = []"
    by (simp_all add: key_fresh_def ensure_keyset_def empty_state_def get_provider_key_def Let_def n)
  show ?thesis
    using rotation_lifecycle [OF providers_ok_empty f, where key = "''new''" and hours = 24
        and ?t1.0 = 1 and ?t2.0 = 2 and ?t3.0 = 3] n t i g by auto
qed

text \<open>
  (C5) Whatever sequence of key operations follows the migration of a loadable state file, each
  provider has at most one active and one pending key, ids stay distinct, and the legacy map
  holds exactly the active secrets.
\<close>

theorem provider_keys_invariant:
  assumes "loadable st0" and "key_step\<^sup>*\<^sup>* (snd (migrate_provider_keys now rnd st0)) st"
    and "map_of (provider_keysets st) p = Some ks"
  shows "distinct (map pk_id (ks_keys ks))
     \<and> (\<forall>k \<in> set (ks_keys ks). \<forall>k' \<in> set (ks_keys ks). pk_status k = pk_status k'
          \<and> (pk_status k = KeyActive \<or> pk_status k = KeyPending) \<longrightarrow> k = k')
     \<and> map_of (provider_keys st) p = active_secret ks"
proof -
  have "providers_ok st"
    using assms(2) by induction (auto intro: migrate_ok assms(1) key_step_ok)
  then have ok: "keyset_ok ks" and legacy: "map_of (provider_keys st) p = active_secret ks"
    using assms(3) by (auto simp: providers_ok_def)
  have inj: "inj_on pk_id (set (ks_keys ks))" using keyset_ok_ids(1) [OF ok] by (simp add: distinct_map)
  have "k = k'" if "k \<in> set (ks_keys ks)" "k' \<in> set (ks_keys ks)" "pk_status k = pk_status k'"
    "pk_status k = KeyActive \<or> pk_status k = KeyPending" for k k'
  proof -
    have "key_ok (active_key_id ks) (pending_key_id ks) (previous_key_id ks) k"
      "key_ok (active_key_id ks) (pending_key_id ks) (previous_key_id ks) k'"
      using ok that(1,2) by (simp_all add: keyset_ok_def)
    then have "pk_id k = pk_id k'" using that(3,4) by (auto simp: key_ok_def)
    then show ?thesis using inj that(1,2) by (simp add: inj_on_def)
  qed
  then show ?thesis using legacy keyset_ok_ids(1) [OF ok] by blast
qed

lemma provider_keys_invariant_witness:
  "let st = snd (migrate_provider_keys 0 (\<lambda>p. ''abcdefgh'') (empty_state\<lparr>provider_keys := [(''openai'', ''sk'')]\<rparr>))
   in \<exists>ks. map_of (provider_keysets st) ''openai'' = Some ks \<and> map_of (provider_keys st) ''openai'' = active_secret ks
        \<and> active_secret ks = Some ''sk''"
proof -
  let ?init = "empty_state\<lparr>provider_keys := [(''openai'', ''sk'')]\<rparr>"
  have l: "loadable ?init" by (simp add: loadable_def empty_state_def)
  have "trim_space ''sk'' = ''sk''" by code_simp
  then have m: "map_of (provider_keysets (snd (migrate_provider_keys 0 (\<lambda>p. ''abcdefgh'') ?init))) ''openai''
      = Some (single_key (rfc3339 0) ''abcdefgh'' ''sk'')"
    by (simp add: migrate_keysets [OF l]) (simp add: empty_state_def)
  show ?thesis
    using provider_keys_invariant [OF l rtranclp.rtrancl_refl m] m by (simp add: Let_def)
qed

text \<open>
  Revocation, of the previous key or by id, never changes the key any provider has in use,
  and naming the active key's id is refused.
\<close>

theorem revocation_spares_active_key:
  assumes "providers_ok st"
  shows "(\<forall>st'. revoke_key_body now p kid st = Inr (st', ()) \<or> revoke_previous_body now p st = Inr (st', ())
            \<longrightarrow> get_provider_key q st' = get_provider_key q st)
     \<and> (\<forall>ks. map_of (provider_keysets st) (normalize_provider p) = Some ks \<and> active_key_id ks = trim_space kid
            \<longrightarrow> (\<exists>e. revoke_key_body now p kid st = Inl e))"
proof (intro conjI allI impI)
  fix st' assume "revoke_key_body now p kid st = Inr (st', ()) \<or> revoke_previous_body now p st = Inr (st', ())"
  then obtain ks' f m where o: "on_keyset False m f (normalize_provider p) st = Inr (st', ks')"
    and f: "f = ks_revoke (rfc3339 now) (trim_space kid) \<or> f = ks_revoke_previous (rfc3339 now)"
    by (auto simp: revoke_key_body_def revoke_previous_body_def Let_def map_sum_Inr split: if_splits)
  then show "get_provider_key q st' = get_provider_key q st"
    using revoke_op.on_keyset_get [OF _ assms] revoke_previous_op.on_keyset_get [OF _ assms] by blast
next
  fix ks assume "map_of (provider_keysets st) (normalize_provider p) = Some ks \<and> active_key_id ks = trim_space kid"
  then show "\<exists>e. revoke_key_body now p kid st = Inl e"
    by (auto simp: revoke_key_body_def on_keyset_def ks_revoke_def Let_def)
qed

lemma revocation_spares_active_key_witness:
  "let st = snd (migrate_provider_keys 0 (\<lambda>p. ''abcdefgh'') (empty_state\<lparr>provider_keys := [(''openai'', ''sk'')]\<rparr>))
   in \<exists>e. revoke_key_body 5 ''openai'' (generate_key_id ''abcdefgh'') st = Inl e"
proof -
  let ?init = "empty_state\<lparr>provider_keys := [(''openai'', ''sk'')]\<rparr>"
  let ?st = "snd (migrate_provider_keys 0 (\<lambda>p. ''abcdefgh'') ?init)"
  have l: "loadable ?init" by (simp add: loadable_def empty_state_def)
  have "trim_space ''sk'' = ''sk''" and n: "normalize_provider ''openai'' = ''openai''"
    and t: "trim_space (generate_key_id ''abcdefgh'') = generate_key_id ''abcdefgh''" by code_simp+
  then have "map_of (provider_keysets ?st) ''openai'' = Some (single_key (rfc3339 0) ''abcdefgh'' ''sk'')"
    by (simp add: migrate_keysets [OF l]) (simp add: empty_state_def)
  then show ?thesis
    using revocation_spares_active_key [OF migrate_ok [OF l], of 5 "''openai''" "generate_key_id ''abcdefgh''"] n t
    by (simp add: single_key_def Let_def)
qed

end
