(* ===== verification/StoreData.thy ===== *)
theory StoreData
  imports ProviderKeys
begin

text \<open>
  Opening the store, the model catalogs and the usage events (\<open>store.go\<close>).
\<close>

subsection \<open>Opening (New, loadOrInit)\<close>

definition load_or_init :: "io \<Rightarrow> time \<Rightarrow> (string \<Rightarrow> string) \<Rightarrow> disk_file \<Rightarrow> (store_error + unit) \<times> store" where
  "load_or_init io now rnd f =
     (let s = \<lparr>mem = empty_state, disk = f\<rparr> in
      if \<not> io_mkdir io then (Inl MkdirFailed, s)
      else case validate_state_path io s of
        Inl e \<Rightarrow> (Inl e, s)
      | Inr present \<Rightarrow>
          if \<not> present then save io s
          else if \<not> io_chmod io then (Inl ChmodFailed, s)
          else (case reload io s of
             (Inl e, s1) \<Rightarrow> (Inl e, s1)
           | (Inr _, s1) \<Rightarrow>
               (case migrate_provider_keys now rnd (mem s1) of
                  (changed, st) \<Rightarrow>
                    if changed then save io (s1\<lparr>mem := st\<rparr>) else (Inr (), s1\<lparr>mem := st\<rparr>))))"

definition new_store :: "io \<Rightarrow> time \<Rightarrow> (string \<Rightarrow> string) \<Rightarrow> disk_file \<Rightarrow> store_error + store" where
  "new_store io now rnd f =
     (case load_or_init io now rnd f of (Inl e, _) \<Rightarrow> Inl e | (Inr _, s) \<Rightarrow> Inr s)"

subsection \<open>Model catalogs\<close>

definition save_model_catalog_body :: "time \<Rightarrow> string \<Rightarrow> provider_model list \<Rightarrow> state \<Rightarrow> store_error + state \<times> unit" where
  "save_model_catalog_body now provider0 models st =
     (let provider = normalize_provider provider0 in
      if provider = [] then Inl ProviderRequired
      else let out = sort_by (\<lambda>a b. str_le (pm_id a) (pm_id b)) models
        in Inr (st\<lparr>model_catalogs := AList.update provider
             \<lparr>mc_provider = provider, mc_synced_at = rfc3339 now, mc_models = out\<rparr> (model_catalogs st)\<rparr>, ()))"

definition save_model_catalog where
  "save_model_catalog now provider models = transact (save_model_catalog_body now provider models)"

definition get_model_catalog :: "string \<Rightarrow> state \<Rightarrow> model_catalog option" where
  "get_model_catalog provider0 st = map_of (model_catalogs st) (normalize_provider provider0)"

definition list_model_catalogs :: "state \<Rightarrow> model_catalog gomap" where
  "list_model_catalogs st = model_catalogs st"

subsection \<open>Usage events\<close>

definition add_usage_event_body :: "time \<Rightarrow> string \<Rightarrow> usage_event \<Rightarrow> state \<Rightarrow> store_error + state \<times> unit" where
  "add_usage_event_body now rnd event st =
     (let e1 = (if trim_space (ue_id event) = []
                then event\<lparr>ue_id := ''use_'' @ drop 4 (generate_key_id rnd)\<rparr> else event);
          e2 = (if ue_created_at e1 = zero_time then e1\<lparr>ue_created_at := now\<rparr> else e1)
      in Inr (st\<lparr>usage_events := usage_events st @ [e2]\<rparr>, ()))"

definition add_usage_event where
  "add_usage_event now rnd event = transact (add_usage_event_body now rnd event)"

text \<open>Newest first, ties by descending id.\<close>

definition newer_event :: "usage_event \<Rightarrow> usage_event \<Rightarrow> bool" where
  "newer_event a b \<longleftrightarrow> ue_created_at a > ue_created_at b
     \<or> (ue_created_at a = ue_created_at b \<and> str_le (ue_id b) (ue_id a))"

definition list_usage_events :: "state \<Rightarrow> usage_event list" where
  "list_usage_events st = sort_by newer_event (usage_events st)"

subsection \<open>Lemmas\<close>

lemma sort_by_set [simp]: "set (sort_by le xs) = set xs"
proof -
  have "set (ins_by le x ys) = insert x (set ys)" for x ys by (induction ys) auto
  then show ?thesis by (induction xs) auto
qed

lemma length_sort_by [simp]: "length (sort_by le xs) = length xs"
proof -
  have "length (ins_by le x ys) = Suc (length ys)" for x ys by (induction ys) auto
  then show ?thesis by (induction xs) auto
qed

lemma sort_by_mset: "mset (sort_by le xs) = mset xs"
proof -
  have "mset (ins_by le x ys) = add_mset x (mset ys)" for x ys by (induction ys) auto
  then show ?thesis by (induction xs) auto
qed

lemma sorted_sort_by:
  assumes "\<And>a b. le a b \<or> le b a" and "\<And>a b c. le a b \<Longrightarrow> le b c \<Longrightarrow> le a c"
  shows "sorted_wrt le (sort_by le xs)"
proof -
  have "sorted_wrt le ys \<Longrightarrow> sorted_wrt le (ins_by le x ys)" for x ys
  proof (induction ys)
    case (Cons y ys)
    have set: "set (ins_by le x ys) = insert x (set ys)" by (induction ys) auto
    show ?case
    proof (cases "le x y")
      case True
      then show ?thesis using Cons.prems assms(2) by auto
    next
      case False
      then have "le y x" using assms(1) by blast
      then show ?thesis using False Cons set by auto
    qed
  qed simp
  then show ?thesis by (induction xs) auto
qed

lemma newer_event_total: "newer_event a b \<or> newer_event b a"
  using str_le_total [of "ue_id a" "ue_id b"] unfolding newer_event_def by (metis linorder_neqE)

lemma newer_event_trans: "newer_event a b \<Longrightarrow> newer_event b c \<Longrightarrow> newer_event a c"
  using str_le_trans [of "ue_id c" "ue_id b" "ue_id a"] unfolding newer_event_def by (elim disjE conjE) auto

interpretation catalog_store: durable "save_model_catalog now p ms" for now p ms
  unfolding save_model_catalog_def by (rule durable_transact)
interpretation usage_store: durable "add_usage_event now rnd e" for now rnd e
  unfolding add_usage_event_def by (rule durable_transact)

lemma migrate_unchanged_fields:
  "tokens (snd (migrate_provider_keys now rnd st)) = tokens st"
  "grants (snd (migrate_provider_keys now rnd st)) = grants st"
  "receipts (snd (migrate_provider_keys now rnd st)) = receipts st"
  "approvals (snd (migrate_provider_keys now rnd st)) = approvals st"
  "usage_events (snd (migrate_provider_keys now rnd st)) = usage_events st"
proof -
  define same where "same a b \<longleftrightarrow> tokens a = tokens b \<and> grants a = grants b \<and> receipts a = receipts b
    \<and> approvals a = approvals b \<and> usage_events a = usage_events b" for a b :: state
  have one: "same (snd (migrate_one now rnd kv cs)) (snd cs)" for kv cs
    by (auto simp: migrate_one_def same_def put_keyset_def Let_def split: prod.splits)
  have f: "same (snd (fold (migrate_one now rnd) kvs cs)) (snd cs)" for kvs cs
  proof (induction kvs arbitrary: cs)
    case (Cons kv kvs)
    then show ?case using one [of kv cs] by (auto simp: same_def)
  qed (simp add: same_def)
  have sy: "same (sync_active p s) s" for p s
    by (auto simp: sync_active_def same_def Let_def split: option.splits)
  have g: "same (fold sync_active ps s) s" for ps s
  proof (induction ps arbitrary: s)
    case (Cons p ps)
    then show ?case using sy [of p s] by (auto simp: same_def)
  qed (simp add: same_def)
  have "same (snd (migrate_provider_keys now rnd st)) st"
    using f [of "provider_keys st" "(False, st)"] g
    by (auto simp: migrate_provider_keys_def Let_def same_def split: prod.splits)
  then show "tokens (snd (migrate_provider_keys now rnd st)) = tokens st"
    "grants (snd (migrate_provider_keys now rnd st)) = grants st"
    "receipts (snd (migrate_provider_keys now rnd st)) = receipts st"
    "approvals (snd (migrate_provider_keys now rnd st)) = approvals st"
    "usage_events (snd (migrate_provider_keys now rnd st)) = usage_events st"
    by (simp_all add: same_def)
qed

subsection \<open>Properties\<close>

text \<open>
  Opening a state file: a symlink or special file is refused and left as it is; from a
  regular file with a loadable state, \<open>New\<close> yields a store with a well-formed key state, the same
  tokens, grants, receipts, approvals and usage events, and every plain key without a key set
  readable as before.
\<close>

theorem open_store_safe:
  "(\<forall>c s. f = NotRegular c \<longrightarrow> new_store io now rnd f \<noteq> Inr s)
   \<and> (\<forall>st s. f = Regular (Encoded st) \<and> loadable st \<and> new_store io now rnd f = Inr s \<longrightarrow>
        providers_ok (mem s) \<and> tokens (mem s) = tokens st \<and> grants (mem s) = grants st
        \<and> receipts (mem s) = receipts st \<and> approvals (mem s) = approvals st
        \<and> usage_events (mem s) = usage_events st
        \<and> (\<forall>p k. map_of (provider_keysets st) (normalize_provider p) = None
              \<and> map_of (provider_keys st) (normalize_provider p) = Some k \<and> trim_space k \<noteq> []
              \<longrightarrow> get_provider_key p (mem s) = k))"
proof (intro conjI allI impI; (elim conjE)?)
  fix c s assume "f = NotRegular c"
  then show "new_store io now rnd f \<noteq> Inr s"
    by (auto simp: new_store_def load_or_init_def validate_state_path_def Let_def split: sum.splits prod.splits if_splits)
next
  fix st s assume f: "f = Regular (Encoded st)" and l: "loadable st" and ok: "new_store io now rnd f = Inr s"
  let ?m = "snd (migrate_provider_keys now rnd st)"
  have m: "mem s = ?m"
    using ok f by (auto simp: new_store_def load_or_init_def validate_state_path_def reload_def read_file_def
      Let_def split: sum.splits prod.splits if_splits dest!: save_ok)
  show "providers_ok (mem s)" using migrate_ok [OF l] m by simp
  show "tokens (mem s) = tokens st" "grants (mem s) = grants st" "receipts (mem s) = receipts st"
    "approvals (mem s) = approvals st" "usage_events (mem s) = usage_events st"
    using migrate_unchanged_fields [of now rnd st] m by simp_all
  fix p k assume "map_of (provider_keysets st) (normalize_provider p) = None"
    "map_of (provider_keys st) (normalize_provider p) = Some k" "trim_space k \<noteq> []"
  then show "get_provider_key p (mem s) = k"
    using migrate_keysets [OF l, of now rnd "normalize_provider p"] by (simp add: m get_provider_key_ok [OF migrate_ok [OF l]])
qed

lemma open_store_safe_witness:
  "\<exists>s. new_store io_ok 0 (\<lambda>p. ''abcdefgh'') (Regular (Encoded (empty_state\<lparr>provider_keys := [(''openai'', ''sk'')]\<rparr>))) = Inr s
     \<and> get_provider_key ''codex'' (mem s) = ''sk''"
proof -
  let ?init = "empty_state\<lparr>provider_keys := [(''openai'', ''sk'')]\<rparr>"
  have l: "loadable ?init" by (simp add: loadable_def empty_state_def)
  have n: "normalize_provider ''codex'' = ''openai''" and t: "trim_space ''sk'' = ''sk''" by code_simp+
  have "\<exists>s. new_store io_ok 0 (\<lambda>p. ''abcdefgh'') (Regular (Encoded ?init)) = Inr s"
    by (simp add: new_store_def load_or_init_def validate_state_path_def reload_def read_file_def save_def
        split: prod.splits)
  then obtain s where s: "new_store io_ok 0 (\<lambda>p. ''abcdefgh'') (Regular (Encoded ?init)) = Inr s" ..
  then show ?thesis
    using open_store_safe [of "Regular (Encoded ?init)" io_ok 0 "\<lambda>p. ''abcdefgh''"] l n t
    by (auto simp: empty_state_def)
qed

end
