(* ===== verification/Tokens.thy ===== *)
theory Tokens
  imports StoreData
begin

text \<open>
  Gateway tokens (\<open>store.go\<close>) and the separate check of SSH tokens (\<open>ssh_auth.go\<close>). A token is
  kept as the hash of its secret; \<open>sha\<close> is the digest function \<open>sha256.Sum256\<close>, a parameter.
  Both validations reload the state file first, so a long-running gateway sees tokens that
  another process created or revoked.
\<close>

subsection \<open>Hash and scopes\<close>

definition token_hash :: "(string \<Rightarrow> string) \<Rightarrow> string \<Rightarrow> string" where
  "token_hash sha raw0 = (let raw = trim_space raw0 in if raw = [] then [] else hex_encode (sha raw))"

definition token_of_random :: "string \<Rightarrow> string" where
  "token_of_random buf = ''p21_'' @ hex_encode buf"

fun token_allows_scope :: "string list \<Rightarrow> string \<Rightarrow> bool" where
  "token_allows_scope [] required = (required = [])"
| "token_allows_scope (s # ss) required =
     (required = [] \<or> s = ''proxy:*'' \<or> s = required
      \<or> (has_suffix s ''*'' \<and> has_prefix required (trim_suffix s ''*''))
      \<or> token_allows_scope ss required)"

text \<open>Edit the first element that satisfies a predicate, as the code's search loops do.\<close>

fun edit_first :: "('a \<Rightarrow> bool) \<Rightarrow> ('a \<Rightarrow> 'a) \<Rightarrow> 'a list \<Rightarrow> ('a \<times> 'a list) option" where
  "edit_first P g [] = None"
| "edit_first P g (x # xs) =
     (if P x then Some (g x, g x # xs)
      else map_option (\<lambda>(y, ys). (y, x # ys)) (edit_first P g xs))"

subsection \<open>Creating and revoking\<close>

text \<open>\<open>rnd\<close> is what \<open>rand.Read\<close> delivers, \<open>None\<close> when it fails.\<close>

definition create_token_body ::
  "(string \<Rightarrow> string) \<Rightarrow> time \<Rightarrow> string option \<Rightarrow> string \<Rightarrow> string list \<Rightarrow> state \<Rightarrow> store_error + state \<times> string" where
  "create_token_body sha now rnd name0 scopes0 st =
     (let name = trim_space name0 in
      if name = [] then Inl NameRequired
      else let scopes = (if scopes0 = [] then [''proxy:*''] else scopes0) in
        case rnd of
          None \<Rightarrow> Inl RandomFailed
        | Some buf \<Rightarrow>
            let raw = token_of_random buf
            in Inr (st\<lparr>tokens := tokens st @ [\<lparr>t_name = name, t_hash = token_hash sha raw, t_scopes = scopes,
                   t_created_at = rfc3339 now, t_revoked_at = [], t_last_used_at = []\<rparr>]\<rparr>, raw))"

definition create_token where
  "create_token sha now rnd name scopes = transact (create_token_body sha now rnd name scopes)"

definition list_tokens :: "state \<Rightarrow> token_record list" where
  "list_tokens st = tokens st"

definition revoke_token_body :: "(string \<Rightarrow> string) \<Rightarrow> time \<Rightarrow> string \<Rightarrow> state \<Rightarrow> store_error + state \<times> unit" where
  "revoke_token_body sha now name_or_raw0 st =
     (let name_or_raw = trim_space name_or_raw0 in
      if name_or_raw = [] then Inl TokenRequired
      else let h = token_hash sha name_or_raw in
        case edit_first (\<lambda>t. t_name t = name_or_raw \<or> (h \<noteq> [] \<and> t_hash t = h))
               (\<lambda>t. t\<lparr>t_revoked_at := rfc3339 now\<rparr>) (tokens st) of
          None \<Rightarrow> Inl TokenNotFound
        | Some (_, ts) \<Rightarrow> Inr (st\<lparr>tokens := ts\<rparr>, ()))"

definition revoke_token where
  "revoke_token sha now name_or_raw = transact (revoke_token_body sha now name_or_raw)"

subsection \<open>Validating\<close>

text \<open>The loop: skip other hashes and revoked records, stop at the first that is left.\<close>

definition live_token :: "string \<Rightarrow> token_record \<Rightarrow> bool" where
  "live_token h t \<longleftrightarrow> t_hash t = h \<and> t_revoked_at t = []"

definition validate_token_record ::
  "(string \<Rightarrow> string) \<Rightarrow> io \<Rightarrow> time \<Rightarrow> string \<Rightarrow> string \<Rightarrow> store \<Rightarrow> token_record option \<times> store" where
  "validate_token_record sha io now raw required s =
     (let h = token_hash sha raw in
      if h = [] then (None, s)
      else let s1 = snd (reload io s) in
        case edit_first (live_token h) (\<lambda>t. t\<lparr>t_last_used_at := rfc3339 now\<rparr>) (tokens (mem s1)) of
          None \<Rightarrow> (None, s1)
        | Some (t, ts) \<Rightarrow>
            if \<not> token_allows_scope (t_scopes t) required then (None, s1)
            else (Some t, snd (save io (s1\<lparr>mem := (mem s1)\<lparr>tokens := ts\<rparr>\<rparr>))))"

definition validate_token where
  "validate_token sha io now raw required s =
     (case validate_token_record sha io now raw required s of (t, s') \<Rightarrow> (t \<noteq> None, s'))"

definition validate_ssh_token ::
  "(string \<Rightarrow> string) \<Rightarrow> io \<Rightarrow> string \<Rightarrow> string \<Rightarrow> store \<Rightarrow> token_record option \<times> store" where
  "validate_ssh_token sha io raw scope s =
     (let h = token_hash sha raw in
      if h = [] \<or> (scope \<noteq> ''ssh:use'' \<and> scope \<noteq> ''ssh:approve'') then (None, s)
      else case validate_state_path io s of
        Inl _ \<Rightarrow> (None, s)
      | Inr _ \<Rightarrow>
          (case reload io s of
             (Inl _, s1) \<Rightarrow> (None, s1)
           | (Inr _, s1) \<Rightarrow>
               (case find (live_token h) (tokens (mem s1)) of
                  None \<Rightarrow> (None, s1)
                | Some t \<Rightarrow>
                    if scope \<notin> set (t_scopes t) then (None, s1)
                    else if length (filter (\<lambda>other. t_name other = t_name t \<and> t_revoked_at other = []) (tokens (mem s1))) \<noteq> 1
                    then (None, s1)
                    else (Some t, s1))))"

subsection \<open>Lemmas\<close>

lemma edit_first_None: "edit_first P g xs = None \<longleftrightarrow> (\<forall>x \<in> set xs. \<not> P x)"
  by (induction xs) auto

lemma edit_first_Some:
  "edit_first P g xs = Some (y, ys) \<Longrightarrow>
     \<exists>us x vs. xs = us @ x # vs \<and> (\<forall>u \<in> set us. \<not> P u) \<and> P x \<and> y = g x \<and> ys = us @ g x # vs"
proof (induction xs arbitrary: y ys)
  case (Cons a xs)
  show ?case
  proof (cases "P a")
    case True
    then show ?thesis using Cons.prems by (intro exI [of _ "[]"] exI [of _ a] exI [of _ xs]) auto
  next
    case False
    then obtain ys' where "edit_first P g xs = Some (y, ys')" and ys: "ys = a # ys'" using Cons.prems by auto
    then obtain us x vs where "xs = us @ x # vs" "\<forall>u \<in> set us. \<not> P u" "P x" "y = g x" "ys' = us @ g x # vs"
      using Cons.IH by blast
    then show ?thesis using False ys by (intro exI [of _ "a # us"] exI [of _ x] exI [of _ vs]) auto
  qed
qed simp

lemma edit_first_append:
  "\<forall>u \<in> set us. \<not> P u \<Longrightarrow> P x \<Longrightarrow> edit_first P g (us @ x # vs) = Some (g x, us @ g x # vs)"
  by (induction us) auto

lemma edit_first_find: "edit_first P g xs = Some (y, ys) \<Longrightarrow> \<exists>x. find P xs = Some x \<and> y = g x"
  by (induction xs arbitrary: ys) (auto split: if_splits)

lemma find_edit_first: "find P xs = Some x \<Longrightarrow> \<exists>ys. edit_first P g xs = Some (g x, ys)"
  by (induction xs) (auto split: if_splits)

lemma edit_first_map:
  "edit_first P g xs = Some (y, ys) \<Longrightarrow> (\<And>x. f (g x) = f x) \<Longrightarrow> map f ys = map f xs"
  by (auto dest!: edit_first_Some)

text \<open>A scope is granted by \<open>proxy:*\<close>, by itself, or by a pattern \<open>p*\<close> with \<open>p\<close> a prefix.\<close>

definition scope_matches :: "string \<Rightarrow> string \<Rightarrow> bool" where
  "scope_matches s required \<longleftrightarrow> s = ''proxy:*'' \<or> s = required \<or> (\<exists>p q. s = p @ ''*'' \<and> required = p @ q)"

lemma has_prefix_iff: "has_prefix s p \<longleftrightarrow> (\<exists>q. s = p @ q)"
  by (induction s p rule: has_prefix.induct) auto

lemma has_suffix_iff: "has_suffix s p \<longleftrightarrow> (\<exists>q. s = q @ p)"
  by (auto simp: has_suffix_def has_prefix_iff) (metis rev_append rev_rev_ident)

lemma trim_suffix_append [simp]: "trim_suffix (p @ q) q = p"
  by (auto simp: trim_suffix_def has_suffix_iff)

lemma token_allows_scope_iff:
  "token_allows_scope scopes required \<longleftrightarrow> required = [] \<or> (\<exists>s \<in> set scopes. scope_matches s required)"
proof (induction scopes)
  case (Cons s ss)
  have "(has_suffix s ''*'' \<and> has_prefix required (trim_suffix s ''*'')) \<longleftrightarrow> (\<exists>p q. s = p @ ''*'' \<and> required = p @ q)"
    by (auto simp: has_suffix_iff has_prefix_iff)
  then show ?case using Cons by (auto simp: scope_matches_def)
qed simp

lemma token_hash_nonempty: "trim_space raw \<noteq> [] \<Longrightarrow> sha (trim_space raw) \<noteq> [] \<Longrightarrow> token_hash sha raw \<noteq> []"
  using length_hex_encode [of "sha (trim_space raw)"] by (cases "hex_encode (sha (trim_space raw))") (simp_all add: token_hash_def)

lemma hex_encode_visible: "c \<in> set (hex_encode s) \<Longrightarrow> visible c"
proof -
  have v: "visible (hex_char n)" if "n < 16" for n
    using that by (simp add: hex_char_def visible_def)
  show "c \<in> set (hex_encode s) \<Longrightarrow> visible c"
    using v byte_bound by (auto simp: hex_encode_def less_mult_imp_div_less)
qed

lemma trim_token [simp]: "trim_space (token_of_random buf) = token_of_random buf"
proof (rule trim_space_visible)
  have "c \<in> set (token_of_random buf) \<Longrightarrow> visible c" for c
    using hex_encode_visible by (auto simp: token_of_random_def visible_def byte_def)
  then show "visible (hd (token_of_random buf))" "visible (last (token_of_random buf))"
    by (simp_all add: token_of_random_def)
qed (simp add: token_of_random_def)

interpretation create_token_store: durable "create_token sha now rnd name scopes" for sha now rnd name scopes
  unfolding create_token_def by (rule durable_transact)
interpretation revoke_token_store: durable "revoke_token sha now t" for sha now t
  unfolding revoke_token_def by (rule durable_transact)

subsection \<open>Stores in which a secret is revoked\<close>

definition all_revoked :: "string \<Rightarrow> state \<Rightarrow> bool" where
  "all_revoked h st \<longleftrightarrow> (\<forall>t \<in> set (tokens st). t_hash t = h \<longrightarrow> t_revoked_at t \<noteq> [])"

lemma all_revoked_empty [simp]: "all_revoked h empty_state"
  by (simp add: all_revoked_def empty_state_def)

lemma all_revoked_create:
  "(\<And>b. rnd = Some b \<Longrightarrow> token_hash sha (token_of_random b) \<noteq> h) \<Longrightarrow> all_revoked h st \<Longrightarrow>
   create_token_body sha now rnd name scopes st = Inr (st', r) \<Longrightarrow> all_revoked h st'"
  by (auto simp: create_token_body_def all_revoked_def Let_def split: if_splits option.splits)

lemma all_revoked_edit:
  assumes "all_revoked h st" and "edit_first P g (tokens st) = Some (t, ts)"
    and "\<And>t. t_hash (g t) = t_hash t \<and> (t_revoked_at (g t) = [] \<longrightarrow> t_revoked_at t = [])"
  shows "all_revoked h (st\<lparr>tokens := ts\<rparr>)"
  using edit_first_Some [OF assms(2)] assms(1,3) by (auto simp: all_revoked_def)

lemma reload_holds: "store_holds P s \<Longrightarrow> P empty_state \<Longrightarrow> store_holds P (snd (reload io s))"
  using reload_mem_holds [of P s io] reload_file [of io s]
  by (cases "reload io s") (auto simp: store_holds_def)

lemma validate_ssh_store:
  "snd (validate_ssh_token sha io raw scope s) = s \<or> snd (validate_ssh_token sha io raw scope s) = snd (reload io s)"
  by (auto simp: validate_ssh_token_def Let_def split: sum.splits prod.splits option.splits)

lemma validate_all_revoked:
  assumes "store_holds (all_revoked (token_hash sha raw)) s"
  shows "fst (validate_token_record sha io now raw required s) = None"
    and "fst (validate_ssh_token sha io raw scope s) = None"
proof -
  let ?h = "token_hash sha raw"
  have "all_revoked ?h (mem (snd (reload io s)))"
    using reload_holds [OF assms, of io] by (simp add: store_holds_def)
  then have n: "\<forall>t \<in> set (tokens (mem (snd (reload io s)))). \<not> live_token ?h t"
    by (auto simp: all_revoked_def live_token_def)
  then show "fst (validate_token_record sha io now raw required s) = None"
    by (auto simp: validate_token_record_def Let_def split: option.splits dest!: edit_first_Some)
  have "find (live_token ?h) (tokens (mem (snd (reload io s)))) = None"
    using n by (simp add: find_None_iff)
  then show "fst (validate_ssh_token sha io raw scope s) = None"
    by (auto simp: validate_ssh_token_def Let_def split: sum.splits prod.splits option.splits)
qed

subsection \<open>Properties\<close>

text \<open>
  A token just created is accepted exactly for the scopes it was given, whatever the state of
  the disk at the time of the check: \<open>proxy:*\<close>, the scope itself, or a pattern whose prefix it has.
\<close>

theorem created_token_validates:
  assumes "create_token sha now (Some buf) name scopes io s = (Inr raw, s')"
    and "sha (token_of_random buf) \<noteq> []"
    and "\<forall>t \<in> set (tokens (mem s)). t_hash t \<noteq> token_hash sha (token_of_random buf)"
  shows "(\<exists>t. fst (validate_token_record sha io' now' raw required s') = Some t \<and> t_name t = trim_space name)
         \<longleftrightarrow> required = [] \<or> (\<exists>sc \<in> set (if scopes = [] then [''proxy:*''] else scopes). scope_matches sc required)"
proof -
  let ?h = "token_hash sha (token_of_random buf)" and ?sc = "if scopes = [] then [''proxy:*''] else scopes"
  let ?t = "\<lparr>t_name = trim_space name, t_hash = ?h, t_scopes = ?sc, t_created_at = rfc3339 now,
              t_revoked_at = [], t_last_used_at = []\<rparr>"
  have t: "in_sync s' \<and> create_token_body sha now (Some buf) name scopes (mem s) = Inr (mem s', raw)"
    by (rule transact_ok [OF assms(1) [unfolded create_token_def]])
  then have raw: "raw = token_of_random buf" and ts: "tokens (mem s') = tokens (mem s) @ [?t]"
    by (auto simp: create_token_body_def Let_def split: if_splits dest!: sym [of _ "mem s'"])
  have "mem (snd (reload io' s')) = mem s'"
    using t by (auto simp: reload_def read_file_def in_sync_def)
  moreover have "\<forall>u \<in> set (tokens (mem s)). \<not> live_token ?h u" using assms(3) by (auto simp: live_token_def)
  then have "edit_first (live_token ?h) (\<lambda>t. t\<lparr>t_last_used_at := rfc3339 now'\<rparr>) (tokens (mem s'))
      = Some (?t\<lparr>t_last_used_at := rfc3339 now'\<rparr>, tokens (mem s) @ [?t\<lparr>t_last_used_at := rfc3339 now'\<rparr>])"
    unfolding ts by (rule edit_first_append) (simp add: live_token_def)
  moreover have "?h \<noteq> []" using token_hash_nonempty [of "token_of_random buf" sha] assms(2)
    by (simp add: token_of_random_def [symmetric]) (simp add: token_of_random_def)
  ultimately show ?thesis
    unfolding raw validate_token_record_def Let_def token_allows_scope_iff [symmetric] by simp
qed

lemma created_token_validates_witness:
  "\<exists>s'. create_token id 0 (Some ''abc'') ''ci'' [''proxy:openai*''] io_ok (saved empty_state) = (Inr ''p21_616263'', s')
     \<and> (\<exists>t. fst (validate_token_record id io_ok 1 ''p21_616263'' ''proxy:openai/gpt'' s') = Some t)"
proof -
  have n: "trim_space ''ci'' = ''ci''" and r: "token_of_random ''abc'' = ''p21_616263''" by code_simp+
  have "\<exists>st'. create_token_body id 0 (Some ''abc'') ''ci'' [''proxy:openai*''] empty_state = Inr (st', ''p21_616263'')"
    by (simp add: create_token_body_def n r Let_def)
  then obtain st' where b: "create_token_body id 0 (Some ''abc'') ''ci'' [''proxy:openai*''] empty_state
      = Inr (st', ''p21_616263'')" ..
  have c: "create_token id 0 (Some ''abc'') ''ci'' [''proxy:openai*''] io_ok (saved empty_state)
      = (Inr ''p21_616263'', saved st')"
    unfolding create_token_def by (rule transact_saved [of "create_token_body _ _ _ _ _", OF b])
  have "scope_matches ''proxy:openai*'' ''proxy:openai/gpt''"
    by (simp add: scope_matches_def)
  then show ?thesis
    using created_token_validates [OF c, where io' = io_ok and now' = 1 and required = "''proxy:openai/gpt''"] c r
    by (auto simp: empty_state_def)
qed

text \<open>
  An SSH token is accepted only when the state file is a regular file that can be read now, the
  scope asked for is one of the two SSH scopes and is listed literally (a wildcard never counts),
  and no other live token has its name.
\<close>

theorem ssh_token_accepted_iff:
  "fst (validate_ssh_token sha io raw scope s) = Some t \<longleftrightarrow>
     (\<exists>st. io_lstat io \<and> io_read io \<and> (disk s = Regular (Encoded st) \<or> disk s = Regular EmptyContent \<and> st = empty_state)
        \<and> token_hash sha raw \<noteq> [] \<and> (scope = ''ssh:use'' \<or> scope = ''ssh:approve'')
        \<and> find (live_token (token_hash sha raw)) (tokens st) = Some t \<and> scope \<in> set (t_scopes t)
        \<and> filter (\<lambda>u. t_name u = t_name t \<and> t_revoked_at u = []) (tokens st) = [t])"
proof -
  have one: "filter (\<lambda>u. t_name u = t_name t \<and> t_revoked_at u = []) ts = [t]
      \<longleftrightarrow> length (filter (\<lambda>u. t_name u = t_name t \<and> t_revoked_at u = []) ts) = 1"
    if f: "find (live_token h) ts = Some t" for h ts
  proof
    assume "length (filter (\<lambda>u. t_name u = t_name t \<and> t_revoked_at u = []) ts) = 1"
    then obtain u where u: "filter (\<lambda>u. t_name u = t_name t \<and> t_revoked_at u = []) ts = [u]"
      by (auto simp: length_Suc_conv)
    have "t \<in> set ts \<and> t_revoked_at t = []" using f by (auto simp: find_Some_iff live_token_def)
    then have "t \<in> set (filter (\<lambda>u. t_name u = t_name t \<and> t_revoked_at u = []) ts)" by simp
    then show "filter (\<lambda>u. t_name u = t_name t \<and> t_revoked_at u = []) ts = [t]" unfolding u by simp
  qed simp
  show ?thesis
  proof (cases "disk s")
    case (Regular c)
    then show ?thesis
      using one by (cases c) (auto simp: validate_ssh_token_def validate_state_path_def reload_def read_file_def
        Let_def split: option.splits if_splits)
  qed (auto simp: validate_ssh_token_def validate_state_path_def reload_def read_file_def Let_def split: option.splits)
qed

text \<open>
  Revoking by name edits the first record with that name, even one that is revoked already: when
  a name is used a second time after its first token was revoked, revoking the name reports success
  and leaves the second token live.
\<close>

theorem revoke_by_name_misses_live:
  assumes "tokens st = [old, new]" and "t_name old = nm" and "t_name new = nm"
    and "t_revoked_at old \<noteq> []" and "t_revoked_at new = []" and "trim_space nm = nm" and "nm \<noteq> []"
  shows "\<exists>st'. revoke_token_body sha now nm st = Inr (st', ()) \<and> new \<in> set (tokens st')"
  using assms by (simp add: revoke_token_body_def Let_def)

end
