(* ===== verification/Grants.thy ===== *)
theory Grants
  imports Tokens
begin

text \<open>
  Grants, receipts, approvals and signing keys in the store (\<open>policy_store.go\<close>), and the
  random identifiers (\<open>policy/id.go\<close>).
\<close>

subsection \<open>Identifiers and signing keys\<close>

definition new_id :: "string \<Rightarrow> string \<Rightarrow> string" where
  "new_id prefix buf = prefix @ ''_'' @ hex_encode buf"

text \<open>\<open>gen\<close> is what \<open>ed25519.GenerateKey\<close> returns: a public and a private key, or an error.\<close>

definition ensure_signing_keys :: "io \<Rightarrow> (string \<times> string) option \<Rightarrow> store \<Rightarrow> (store_error + signing_keys) \<times> store" where
  "ensure_signing_keys io gen s =
     (if sk_key_id (signing (mem s)) \<noteq> [] then (Inr (signing (mem s)), s)
      else case gen of
        None \<Rightarrow> (Inl KeyGenerationFailed, s)
      | Some (pub, priv) \<Rightarrow>
          let keys = \<lparr>sk_key_id = ''local-ed25519-v1'', sk_public_b64 = std_encode pub, sk_private_b64 = std_encode priv\<rparr>
          in finish io ((mem s)\<lparr>signing := keys\<rparr>) keys s)"

definition signing_keypair ::
  "io \<Rightarrow> (string \<times> string) option \<Rightarrow> store \<Rightarrow> (store_error + string \<times> string \<times> string) \<times> store" where
  "signing_keypair io gen s =
     (case ensure_signing_keys io gen s of
        (Inl e, s') \<Rightarrow> (Inl e, s')
      | (Inr keys, s') \<Rightarrow>
          (case std_decode (sk_public_b64 keys) of
             None \<Rightarrow> (Inl KeyDecodeFailed, s')
           | Some pub \<Rightarrow>
               (case std_decode (sk_private_b64 keys) of
                  None \<Rightarrow> (Inl KeyDecodeFailed, s')
                | Some priv \<Rightarrow> (Inr (pub, priv, sk_key_id keys), s'))))"

subsection \<open>Grants\<close>

definition create_grant_body :: "time \<Rightarrow> string \<Rightarrow> grant \<Rightarrow> state \<Rightarrow> store_error + state \<times> grant" where
  "create_grant_body now buf g st =
     (let g1 = g\<lparr>g_id := (if g_id g = [] then new_id ''grt'' buf else g_id g),
                 g_status := GrantActive, g_created_at := now, g_updated_at := now\<rparr>
      in Inr (st\<lparr>grants := grants st @ [g1]\<rparr>, g1))"

definition get_grant :: "string \<Rightarrow> state \<Rightarrow> store_error + grant" where
  "get_grant gid st =
     (case find (\<lambda>g. g_id g = gid) (grants st) of None \<Rightarrow> Inl GrantNotFound | Some g \<Rightarrow> Inr g)"

definition list_grants :: "state \<Rightarrow> grant list" where
  "list_grants st = sort_by (\<lambda>a b. g_created_at a \<le> g_created_at b) (grants st)"

definition revoke_grant_body :: "time \<Rightarrow> string \<Rightarrow> state \<Rightarrow> store_error + state \<times> unit" where
  "revoke_grant_body now gid st =
     (case edit_first (\<lambda>g. g_id g = gid)
             (\<lambda>g. g\<lparr>g_status := GrantRevoked, g_updated_at := now, g_revoked_at := Some now\<rparr>) (grants st) of
        None \<Rightarrow> Inl GrantNotFound
      | Some (_, gs) \<Rightarrow> Inr (st\<lparr>grants := gs\<rparr>, ()))"

definition add_spend :: "i64 \<Rightarrow> time \<Rightarrow> grant \<Rightarrow> grant" where
  "add_spend amount now g =
     g\<lparr>g_pins := (g_pins g)\<lparr>spend_policy := (spend_policy (g_pins g))
          \<lparr>spent_cents := spent_cents (spend_policy (g_pins g)) + amount\<rparr>\<rparr>, g_updated_at := now\<rparr>"

definition add_grant_spend_body :: "time \<Rightarrow> string \<Rightarrow> i64 \<Rightarrow> state \<Rightarrow> store_error + state \<times> unit" where
  "add_grant_spend_body now gid amount st =
     (case edit_first (\<lambda>g. g_id g = gid) (add_spend amount now) (grants st) of
        None \<Rightarrow> Inl GrantNotFound
      | Some (_, gs) \<Rightarrow> Inr (st\<lparr>grants := gs\<rparr>, ()))"

subsection \<open>Receipts\<close>

definition add_receipt_body :: "receipt \<Rightarrow> state \<Rightarrow> store_error + state \<times> unit" where
  "add_receipt_body r st = Inr (st\<lparr>receipts := receipts st @ [r]\<rparr>, ())"

definition get_receipt :: "string \<Rightarrow> state \<Rightarrow> store_error + receipt" where
  "get_receipt rid st =
     (case find (\<lambda>r. r_id r = rid) (receipts st) of None \<Rightarrow> Inl ReceiptNotFound | Some r \<Rightarrow> Inr r)"

definition list_receipts :: "string \<Rightarrow> state \<Rightarrow> receipt list" where
  "list_receipts gid st = filter (\<lambda>r. gid = [] \<or> r_grant_id r = gid) (receipts st)"

subsection \<open>Approvals\<close>

definition create_approval_body :: "time \<Rightarrow> string \<Rightarrow> approval_request \<Rightarrow> state \<Rightarrow> store_error + state \<times> approval_request" where
  "create_approval_body now buf a st =
     (let a1 = a\<lparr>a_id := (if a_id a = [] then new_id ''apr'' buf else a_id a),
                 a_status := ApprovalPending, a_requested_at := now\<rparr>
      in Inr (st\<lparr>approvals := approvals st @ [a1]\<rparr>, a1))"

definition get_approval :: "string \<Rightarrow> state \<Rightarrow> store_error + approval_request" where
  "get_approval aid st =
     (case find (\<lambda>a. a_id a = aid) (approvals st) of None \<Rightarrow> Inl ApprovalNotFound | Some a \<Rightarrow> Inr a)"

definition list_approvals :: "string \<Rightarrow> state \<Rightarrow> approval_request list" where
  "list_approvals gid st = filter (\<lambda>a. gid = [] \<or> a_grant_id a = gid) (approvals st)"

definition resolve_approval_body ::
  "time \<Rightarrow> string \<Rightarrow> approval_status \<Rightarrow> string \<Rightarrow> string \<Rightarrow> identity_attestation \<Rightarrow> state
     \<Rightarrow> store_error + state \<times> approval_request" where
  "resolve_approval_body now aid status approver reason att st =
     (if status \<noteq> ApprovalApproved \<and> status \<noteq> ApprovalRejected then Inl InvalidApprovalStatus
      else case find (\<lambda>a. a_id a = aid) (approvals st) of
        None \<Rightarrow> Inl ApprovalNotFound
      | Some a \<Rightarrow>
          if a_status a \<noteq> ApprovalPending then Inl ApprovalAlreadyResolved
          else case edit_first (\<lambda>a. a_id a = aid)
                 (\<lambda>a. a\<lparr>a_status := status, a_approver_sub := approver,
                        a_approver_attestation := (if trim_space (ia_id att) \<noteq> [] then Some att
                                                   else a_approver_attestation a),
                        a_reason := reason, a_resolved_at := Some now\<rparr>) (approvals st) of
            None \<Rightarrow> Inl ApprovalNotFound
          | Some (a', as) \<Rightarrow> Inr (st\<lparr>approvals := as\<rparr>, a'))"

definition no_attestation :: identity_attestation where
  "no_attestation = \<lparr>ia_id = [], ia_subject = [], ia_issuer = [], ia_audience = [], ia_method = [],
     ia_issued_at = zero_time, ia_expires_at = zero_time, ia_key_id = [], ia_signature = []\<rparr>"

subsection \<open>The operations on the store\<close>

definition create_grant where "create_grant now buf g = transact (create_grant_body now buf g)"
definition revoke_grant where "revoke_grant now gid = transact (revoke_grant_body now gid)"
definition add_grant_spend where "add_grant_spend now gid amount = transact (add_grant_spend_body now gid amount)"
definition add_receipt where "add_receipt r = transact (add_receipt_body r)"
definition create_approval where "create_approval now buf a = transact (create_approval_body now buf a)"
definition resolve_approval_with_attestation where
  "resolve_approval_with_attestation now aid status approver reason att =
     transact (resolve_approval_body now aid status approver reason att)"
definition resolve_approval where
  "resolve_approval now aid status approver reason =
     resolve_approval_with_attestation now aid status approver reason no_attestation"

interpretation create_grant_store: durable "create_grant now buf g" for now buf g
  unfolding create_grant_def by (rule durable_transact)
interpretation revoke_grant_store: durable "revoke_grant now gid" for now gid
  unfolding revoke_grant_def by (rule durable_transact)
interpretation spend_store: durable "add_grant_spend now gid n" for now gid n
  unfolding add_grant_spend_def by (rule durable_transact)
interpretation receipt_store: durable "add_receipt r" for r
  unfolding add_receipt_def by (rule durable_transact)
interpretation create_approval_store: durable "create_approval now buf a" for now buf a
  unfolding create_approval_def by (rule durable_transact)
interpretation resolve_store: durable "resolve_approval_with_attestation now aid st sub reason att" for now aid st sub reason att
  unfolding resolve_approval_with_attestation_def by (rule durable_transact)

subsection \<open>Tables\<close>

text \<open>
  The interface the callers use of the three tables: lookup by id returns the first row, so
  appending rows never changes what an id already resolves to.
\<close>

locale id_table =
  fixes rows :: "state \<Rightarrow> 'a list" and row_id :: "'a \<Rightarrow> string"
    and lookup :: "string \<Rightarrow> state \<Rightarrow> store_error + 'a" and missing :: store_error
  assumes lookup_find: "lookup i st = (case find (\<lambda>x. row_id x = i) (rows st) of None \<Rightarrow> Inl missing | Some x \<Rightarrow> Inr x)"
begin

lemma find_append: "find P (xs @ ys) = (case find P xs of None \<Rightarrow> find P ys | Some x \<Rightarrow> Some x)"
  by (induction xs) auto

lemma lookup_appended:
  assumes "rows st' = rows st @ [x]"
  shows "lookup i st' = (case lookup i st of Inr y \<Rightarrow> Inr y | Inl e \<Rightarrow> if row_id x = i then Inr x else Inl e)"
  by (auto simp: lookup_find assms find_append split: option.splits)

lemma lookup_edited:
  assumes "edit_first (\<lambda>x. row_id x = i) g (rows st) = Some (y, ys)" and "rows st' = ys"
    and "\<And>x. row_id (g x) = row_id x"
  shows "\<exists>x. lookup i st = Inr x \<and> y = g x \<and> lookup i st' = Inr y"
    and "j \<noteq> i \<Longrightarrow> lookup j st' = lookup j st"
proof -
  obtain us x vs where e: "rows st = us @ x # vs" "\<forall>u \<in> set us. row_id u \<noteq> i" "row_id x = i" "y = g x" "ys = us @ g x # vs"
    using edit_first_Some [OF assms(1)] by blast
  have n: "find (\<lambda>x. row_id x = i) us = None" using e(2) by (simp add: find_None_iff)
  show "\<exists>x. lookup i st = Inr x \<and> y = g x \<and> lookup i st' = Inr y"
    using n e assms by (simp add: lookup_find find_append)
  show "lookup j st' = lookup j st" if "j \<noteq> i"
    using that e assms by (auto simp: lookup_find find_append split: option.splits)
qed

lemma lookup_missing: "lookup i st = Inl e \<longleftrightarrow> e = missing \<and> i \<notin> row_id ` set (rows st)"
  by (auto simp: lookup_find find_None_iff find_Some_iff split: option.splits)

end

interpretation grant_table: id_table grants g_id get_grant GrantNotFound
  by unfold_locales (simp add: get_grant_def)
interpretation receipt_table: id_table receipts r_id get_receipt ReceiptNotFound
  by unfold_locales (simp add: get_receipt_def)
interpretation approval_table: id_table approvals a_id get_approval ApprovalNotFound
  by unfold_locales (simp add: get_approval_def)

subsection \<open>Steps of the policy state\<close>

inductive policy_step :: "state \<Rightarrow> state \<Rightarrow> bool" where
  ps_create_grant: "create_grant_body now buf g st = Inr (st', g') \<Longrightarrow> policy_step st st'"
| ps_revoke_grant: "revoke_grant_body now gid st = Inr (st', ()) \<Longrightarrow> policy_step st st'"
| ps_spend: "add_grant_spend_body now gid n st = Inr (st', ()) \<Longrightarrow> policy_step st st'"
| ps_receipt: "add_receipt_body r st = Inr (st', ()) \<Longrightarrow> policy_step st st'"
| ps_create_approval: "create_approval_body now buf a st = Inr (st', a') \<Longrightarrow> policy_step st st'"
| ps_resolve: "resolve_approval_body now aid status sub reason att st = Inr (st', a') \<Longrightarrow> policy_step st st'"

inductive_cases policy_stepE: "policy_step st st'"

lemmas policy_bodies = create_grant_body_def revoke_grant_body_def add_grant_spend_body_def
  add_receipt_body_def create_approval_body_def resolve_approval_body_def

lemma policy_body_simps:
  "create_grant_body now buf g st = Inr (st', g') \<Longrightarrow>
     \<exists>x. grants st' = grants st @ [x] \<and> approvals st' = approvals st \<and> receipts st' = receipts st"
  "create_approval_body now buf a st = Inr (st', a') \<Longrightarrow>
     \<exists>x. approvals st' = approvals st @ [x] \<and> grants st' = grants st \<and> receipts st' = receipts st"
  "add_receipt_body r st = Inr (st', ()) \<Longrightarrow>
     receipts st' = receipts st @ [r] \<and> grants st' = grants st \<and> approvals st' = approvals st"
  by (auto simp: policy_bodies Let_def)

lemma lookup_same_rows: "grants st' = grants st \<Longrightarrow> get_grant i st' = get_grant i st"
  "approvals st' = approvals st \<Longrightarrow> get_approval i st' = get_approval i st"
  "receipts st' = receipts st \<Longrightarrow> get_receipt i st' = get_receipt i st"
  by (simp_all add: get_grant_def get_approval_def get_receipt_def)

lemma add_spend_simps [simp]:
  "g_id (add_spend n now g) = g_id g" "g_status (add_spend n now g) = g_status g"
  "g_sub (add_spend n now g) = g_sub g" "g_delegated_by (add_spend n now g) = g_delegated_by g"
  "spent_cents (spend_policy (g_pins (add_spend n now g))) = spent_cents (spend_policy (g_pins g)) + n"
  "limit_cents (spend_policy (g_pins (add_spend n now g))) = limit_cents (spend_policy (g_pins g))"
  by (simp_all add: add_spend_def)

text \<open>What each operation does to the grant an id names.\<close>

lemma revoke_grant_effect:
  assumes "revoke_grant_body now gid st = Inr (st', ())"
  shows "\<exists>g. get_grant gid st = Inr g
      \<and> get_grant gid st' = Inr (g\<lparr>g_status := GrantRevoked, g_updated_at := now, g_revoked_at := Some now\<rparr>)"
    and "j \<noteq> gid \<Longrightarrow> get_grant j st' = get_grant j st"
    and "approvals st' = approvals st"
proof -
  obtain y gs where e: "edit_first (\<lambda>g. g_id g = gid)
      (\<lambda>g. g\<lparr>g_status := GrantRevoked, g_updated_at := now, g_revoked_at := Some now\<rparr>) (grants st) = Some (y, gs)"
    and s: "st' = st\<lparr>grants := gs\<rparr>"
    using assms by (auto simp: revoke_grant_body_def split: option.splits)
  have r: "grants st' = gs" using s by simp
  show "\<exists>g. get_grant gid st = Inr g
      \<and> get_grant gid st' = Inr (g\<lparr>g_status := GrantRevoked, g_updated_at := now, g_revoked_at := Some now\<rparr>)"
    using grant_table.lookup_edited(1) [OF e r] by auto
  show "get_grant j st' = get_grant j st" if "j \<noteq> gid"
    using grant_table.lookup_edited(2) [OF e r _ that] by simp
  show "approvals st' = approvals st" using s by simp
qed

lemma add_spend_effect:
  assumes "add_grant_spend_body now gid n st = Inr (st', ())"
  shows "\<exists>g. get_grant gid st = Inr g \<and> get_grant gid st' = Inr (add_spend n now g)"
    and "j \<noteq> gid \<Longrightarrow> get_grant j st' = get_grant j st"
    and "approvals st' = approvals st"
proof -
  obtain y gs where e: "edit_first (\<lambda>g. g_id g = gid) (add_spend n now) (grants st) = Some (y, gs)"
    and s: "st' = st\<lparr>grants := gs\<rparr>"
    using assms by (auto simp: add_grant_spend_body_def split: option.splits)
  have r: "grants st' = gs" using s by simp
  show "\<exists>g. get_grant gid st = Inr g \<and> get_grant gid st' = Inr (add_spend n now g)"
    using grant_table.lookup_edited(1) [OF e r] by auto
  show "get_grant j st' = get_grant j st" if "j \<noteq> gid"
    using grant_table.lookup_edited(2) [OF e r _ that] by simp
  show "approvals st' = approvals st" using s by simp
qed

lemma resolve_effect:
  assumes "resolve_approval_body now aid status sub reason att st = Inr (st', a')"
  shows "\<exists>a. get_approval aid st = Inr a \<and> get_approval aid st' = Inr a' \<and> a_status a = ApprovalPending
      \<and> a_status a' = status \<and> status \<in> {ApprovalApproved, ApprovalRejected} \<and> a_grant_id a' = a_grant_id a
      \<and> a_sub a' = a_sub a \<and> a_capability a' = a_capability a \<and> a_data_class a' = a_data_class a
      \<and> a_target a' = a_target a \<and> a_cost a' = a_cost a \<and> a_receipt_id a' = a_receipt_id a"
    and "j \<noteq> aid \<Longrightarrow> get_approval j st' = get_approval j st"
    and "grants st' = grants st"
proof -
  obtain a as where f: "find (\<lambda>a. a_id a = aid) (approvals st) = Some a" and p: "a_status a = ApprovalPending"
    and st: "status \<in> {ApprovalApproved, ApprovalRejected}"
    and e: "edit_first (\<lambda>a. a_id a = aid)
        (\<lambda>a. a\<lparr>a_status := status, a_approver_sub := sub,
                a_approver_attestation := (if trim_space (ia_id att) \<noteq> [] then Some att else a_approver_attestation a),
                a_reason := reason, a_resolved_at := Some now\<rparr>) (approvals st) = Some (a', as)"
    and s: "st' = st\<lparr>approvals := as\<rparr>"
    using assms by (auto simp: resolve_approval_body_def split: option.splits if_splits)
  have r: "approvals st' = as" using s by simp
  have g: "get_approval aid st = Inr a" using f by (simp add: get_approval_def)
  show "\<exists>a. get_approval aid st = Inr a \<and> get_approval aid st' = Inr a' \<and> a_status a = ApprovalPending
      \<and> a_status a' = status \<and> status \<in> {ApprovalApproved, ApprovalRejected} \<and> a_grant_id a' = a_grant_id a
      \<and> a_sub a' = a_sub a \<and> a_capability a' = a_capability a \<and> a_data_class a' = a_data_class a
      \<and> a_target a' = a_target a \<and> a_cost a' = a_cost a \<and> a_receipt_id a' = a_receipt_id a"
    using approval_table.lookup_edited(1) [OF e r] g p st by auto
  show "get_approval j st' = get_approval j st" if "j \<noteq> aid"
    using approval_table.lookup_edited(2) [OF e r _ that] by simp
  show "grants st' = grants st" using s by simp
qed

lemma grant_step_keeps:
  assumes "policy_step st st'" and "get_grant gid st = Inr g"
  shows "\<exists>g'. get_grant gid st' = Inr g' \<and> g_id g' = g_id g \<and> (g_status g = GrantRevoked \<longrightarrow> g_status g' = GrantRevoked)"
  using assms(1)
proof cases
  case (ps_create_grant now buf g0 g')
  then obtain x where "grants st' = grants st @ [x]" using policy_body_simps(1) by blast
  then show ?thesis using grant_table.lookup_appended assms(2) by simp
next
  case (ps_revoke_grant now j)
  then show ?thesis using revoke_grant_effect(1,2) [OF ps_revoke_grant] assms(2) by (cases "gid = j") auto
next
  case (ps_spend now j n)
  then show ?thesis using add_spend_effect(1,2) [OF ps_spend] assms(2) by (cases "gid = j") auto
next
  case (ps_receipt r)
  then show ?thesis using policy_body_simps(3) lookup_same_rows(1) assms(2) by metis
next
  case (ps_create_approval now buf a a')
  then show ?thesis using policy_body_simps(2) lookup_same_rows(1) assms(2) by metis
next
  case (ps_resolve now aid status sub reason att a')
  then show ?thesis using resolve_effect(3) lookup_same_rows(1) assms(2) by metis
qed

lemma approval_step_keeps:
  assumes "policy_step st st'" and "get_approval aid st = Inr a"
  shows "\<exists>a'. get_approval aid st' = Inr a' \<and> (a_status a \<noteq> ApprovalPending \<longrightarrow> a' = a)
     \<and> (a_status a' = ApprovalPending \<longrightarrow> a' = a)
     \<and> a_grant_id a' = a_grant_id a \<and> a_sub a' = a_sub a \<and> a_capability a' = a_capability a
     \<and> a_data_class a' = a_data_class a \<and> a_target a' = a_target a \<and> a_cost a' = a_cost a"
  using assms(1)
proof cases
  case (ps_create_grant now buf g0 g')
  then show ?thesis using policy_body_simps(1) lookup_same_rows(2) assms(2) by metis
next
  case (ps_revoke_grant now j)
  then show ?thesis using revoke_grant_effect(3) lookup_same_rows(2) assms(2) by metis
next
  case (ps_spend now j n)
  then show ?thesis using add_spend_effect(3) lookup_same_rows(2) assms(2) by metis
next
  case (ps_receipt r)
  then show ?thesis using policy_body_simps(3) lookup_same_rows(2) assms(2) by metis
next
  case (ps_create_approval now buf a0 a')
  then obtain x where "approvals st' = approvals st @ [x]" using policy_body_simps(2) by blast
  then show ?thesis using approval_table.lookup_appended assms(2) by simp
next
  case (ps_resolve now j status sub reason att a')
  then show ?thesis using resolve_effect(1,2) [OF ps_resolve] assms(2) by (cases "aid = j") auto
qed

lemma policy_steps_keep:
  assumes "policy_step\<^sup>*\<^sup>* st st'"
  shows "get_grant gid st = Inr g \<Longrightarrow>
      \<exists>g'. get_grant gid st' = Inr g' \<and> (g_status g = GrantRevoked \<longrightarrow> g_status g' = GrantRevoked)"
    and "get_approval aid st = Inr a \<Longrightarrow>
      \<exists>a'. get_approval aid st' = Inr a' \<and> (a_status a \<noteq> ApprovalPending \<longrightarrow> a' = a)
        \<and> a_grant_id a' = a_grant_id a \<and> a_sub a' = a_sub a \<and> a_capability a' = a_capability a
        \<and> a_data_class a' = a_data_class a \<and> a_target a' = a_target a \<and> a_cost a' = a_cost a"
  using assms
proof (induction rule: rtranclp_induct)
  case (step y z)
  { case 1
    then obtain g1 where "get_grant gid y = Inr g1" "g_status g = GrantRevoked \<longrightarrow> g_status g1 = GrantRevoked"
      using step.IH(1) by blast
    then show ?case using grant_step_keeps [OF step.hyps(2), of gid g1] by auto }
  { case 2
    then obtain a1 where a1: "get_approval aid y = Inr a1" "a_status a \<noteq> ApprovalPending \<longrightarrow> a1 = a"
      "a_grant_id a1 = a_grant_id a \<and> a_sub a1 = a_sub a \<and> a_capability a1 = a_capability a
        \<and> a_data_class a1 = a_data_class a \<and> a_target a1 = a_target a \<and> a_cost a1 = a_cost a"
      using step.IH(2) by blast
    then show ?case using approval_step_keeps [OF step.hyps(2) a1(1)] by auto }
next
  case base
  { case 1 then show ?case by blast }
  { case 2 then show ?case by blast }
qed

subsection \<open>Properties\<close>

text \<open>
  (C7) A revoked grant never authorises anything again: after the revocation, whatever policy
  operations follow (creating a grant with the same id included), evaluating any request against the
  grant its id names gives \<open>block\<close>.
\<close>

theorem revoked_grant_blocks_forever:
  assumes "revoke_grant_body now gid st = Inr (st1, ())" and "policy_step\<^sup>*\<^sup>* st1 st2"
  shows "\<exists>g. get_grant gid st2 = Inr g
     \<and> er_decision (evaluate_action g q t) = DecisionBlock
     \<and> map_of (er_pin_states (evaluate_action g q t)) ''identity'' = Some PinFail"
proof -
  obtain g1 where "get_grant gid st1 = Inr g1" "g_status g1 = GrantRevoked"
    using revoke_grant_effect(1) [OF assms(1)] by auto
  then obtain g where g: "get_grant gid st2 = Inr g" "g_status g = GrantRevoked"
    using policy_steps_keep(1) [OF assms(2)] by blast
  then show ?thesis
    by (auto simp: evaluate_decision_cases gate_ok_def subject_ok_def pin_lookup_evaluate pin_outcomes_def identity_pin_def)
qed

definition sample_grant :: grant where
  "sample_grant = \<lparr>g_id = ''grt_1'', g_sub = ''ck:alice'', g_status = GrantActive, g_delegated_by = [],
     g_pins = \<lparr>identity_sub = ''ck:alice'', authority_chain = [''ck:alice''], capabilities_allowed = [''chat''],
       allowed_classes = [''public''],
       spend_policy = \<lparr>limit_cents = 1000, spent_cents = 0, window_start = 0, window_end = 100\<rparr>,
       allowed_targets = [''openai''], threshold_cents = 500\<rparr>,
     g_created_at = 0, g_updated_at = 0, g_revoked_at = None, g_attestation = None\<rparr>"

lemma revoked_grant_blocks_forever_witness:
  "\<exists>st1 g. revoke_grant_body 5 ''grt_1'' (empty_state\<lparr>grants := [sample_grant]\<rparr>) = Inr (st1, ())
     \<and> get_grant ''grt_1'' st1 = Inr g
     \<and> er_decision (evaluate_action g \<lparr>req_grant_id = ''grt_1'', req_sub = ''ck:alice'', req_capability = ''chat'',
          req_data_class = ''public'', req_target = ''openai'', req_cost = 1, req_approval_id = [],
          req_approval_granted = False\<rparr> 7) = DecisionBlock"
proof -
  have "\<exists>st1. revoke_grant_body 5 ''grt_1'' (empty_state\<lparr>grants := [sample_grant]\<rparr>) = Inr (st1, ())"
    by (simp add: revoke_grant_body_def sample_grant_def)
  then obtain st1 where r: "revoke_grant_body 5 ''grt_1'' (empty_state\<lparr>grants := [sample_grant]\<rparr>) = Inr (st1, ())" ..
  show ?thesis using revoked_grant_blocks_forever [OF r rtranclp.rtrancl_refl] r by blast
qed

text \<open>Spends by several requests, one after the other.\<close>

fun add_spends :: "(time \<times> string \<times> i64) list \<Rightarrow> state \<Rightarrow> store_error + state" where
  "add_spends [] st = Inr st"
| "add_spends ((now, gid, n) # ops) st =
     (case add_grant_spend_body now gid n st of Inl e \<Rightarrow> Inl e | Inr (st', _) \<Rightarrow> add_spends ops st')"

text \<open>
  The ledger of a grant is exact: after any sequence of recorded spends, on this and on other
  grants, its spent amount is the old one plus the sum of its own spends (in \<open>int64\<close> arithmetic),
  its limit is unchanged, and no approval is touched.
\<close>

theorem spend_ledger_exact:
  assumes "add_spends ops st = Inr st'" and "get_grant gid st = Inr g"
  shows "\<exists>g'. get_grant gid st' = Inr g'
     \<and> spent_cents (spend_policy (g_pins g')) = spent_cents (spend_policy (g_pins g))
          + sum_list (map (\<lambda>(_, _, n). n) (filter (\<lambda>(_, i, _). i = gid) ops))
     \<and> limit_cents (spend_policy (g_pins g')) = limit_cents (spend_policy (g_pins g))
     \<and> g_status g' = g_status g \<and> approvals st' = approvals st"
  using assms
proof (induction ops arbitrary: st g)
  case (Cons op ops)
  obtain now i n where op: "op = (now, i, n)" by (cases op)
  obtain st1 where s1: "add_grant_spend_body now i n st = Inr (st1, ())" and rest: "add_spends ops st1 = Inr st'"
    using Cons.prems(1) op by (auto split: sum.splits)
  show ?case
  proof (cases "i = gid")
    case True
    then have "get_grant gid st1 = Inr (add_spend n now g)"
      using add_spend_effect(1) [OF s1] Cons.prems(2) by auto
    then show ?thesis using Cons.IH [OF rest] add_spend_effect(3) [OF s1] op True by (auto simp: add.assoc)
  next
    case False
    then have "get_grant gid st1 = Inr g" using add_spend_effect(2) [OF s1] Cons.prems(2) by simp
    then show ?thesis using Cons.IH [OF rest] add_spend_effect(3) [OF s1] op False by auto
  qed
qed simp

lemma spend_ledger_exact_witness:
  "\<exists>st' g'. add_spends [(1, ''grt_1'', 30), (2, ''grt_1'', 12)] (empty_state\<lparr>grants := [sample_grant]\<rparr>) = Inr st'
     \<and> get_grant ''grt_1'' st' = Inr g' \<and> spent_cents (spend_policy (g_pins g')) = 42"
proof -
  let ?st = "empty_state\<lparr>grants := [sample_grant]\<rparr>"
  have "\<exists>st'. add_spends [(1, ''grt_1'', 30), (2, ''grt_1'', 12)] ?st = Inr st'"
    by (simp add: add_grant_spend_body_def sample_grant_def)
  then obtain st' where a: "add_spends [(1, ''grt_1'', 30), (2, ''grt_1'', 12)] ?st = Inr st'" ..
  have g: "get_grant ''grt_1'' ?st = Inr sample_grant" by (simp add: get_grant_def sample_grant_def)
  show ?thesis using spend_ledger_exact [OF a g] a by (auto simp: sample_grant_def)
qed

text \<open>
  Resolving an approval is final: it succeeds only on a pending request, with \<open>approved\<close> or
  \<open>rejected\<close>, and after it neither a second resolution nor any other policy operation changes the
  record or what was asked for (grant, subject, action, target and cost).
\<close>

theorem approval_resolution_final:
  assumes "resolve_approval_body now aid status sub reason att st = Inr (st1, a1)" and "policy_step\<^sup>*\<^sup>* st1 st2"
  shows "get_approval aid st2 = Inr a1 \<and> a_status a1 = status \<and> status \<in> {ApprovalApproved, ApprovalRejected}
     \<and> (\<exists>a. get_approval aid st = Inr a \<and> a_status a = ApprovalPending
          \<and> (a_grant_id a1, a_sub a1, a_capability a1, a_data_class a1, a_target a1, a_cost a1)
            = (a_grant_id a, a_sub a, a_capability a, a_data_class a, a_target a, a_cost a))
     \<and> (\<forall>now' status' sub' reason' att'. \<exists>e. resolve_approval_body now' aid status' sub' reason' att' st2 = Inl e)"
proof -
  obtain a where a: "get_approval aid st = Inr a" "get_approval aid st1 = Inr a1" "a_status a = ApprovalPending"
    "a_status a1 = status" "status \<in> {ApprovalApproved, ApprovalRejected}"
    "(a_grant_id a1, a_sub a1, a_capability a1, a_data_class a1, a_target a1, a_cost a1)
       = (a_grant_id a, a_sub a, a_capability a, a_data_class a, a_target a, a_cost a)"
    using resolve_effect(1) [OF assms(1)] by auto
  have g: "get_approval aid st2 = Inr a1"
    using policy_steps_keep(2) [OF assms(2) a(2)] a(4,5) by auto
  have "\<exists>e. resolve_approval_body now' aid status' sub' reason' att' st2 = Inl e" for now' status' sub' reason' att'
  proof (rule ccontr)
    assume "\<nexists>e. resolve_approval_body now' aid status' sub' reason' att' st2 = Inl e"
    then obtain st3 a3 where r: "resolve_approval_body now' aid status' sub' reason' att' st2 = Inr (st3, a3)"
      by (metis obj_sumE surj_pair)
    then show False using resolve_effect(1) [OF r] g a(4,5) by auto
  qed
  then show ?thesis using g a by blast
qed

lemma approval_resolution_final_witness:
  "\<exists>st1 a1. resolve_approval_body 9 ''apr_1'' ApprovalApproved ''ck:bob'' ''ok'' no_attestation
       (empty_state\<lparr>approvals := [\<lparr>a_id = ''apr_1'', a_grant_id = ''grt_1'', a_receipt_id = [], a_sub = ''ck:alice'',
          a_capability = ''chat'', a_data_class = ''public'', a_target = ''openai'', a_cost = 700,
          a_status = ApprovalPending, a_requested_at = 1, a_resolved_at = None, a_approver_sub = [],
          a_approver_attestation = None, a_reason = []\<rparr>]\<rparr>) = Inr (st1, a1)
     \<and> get_approval ''apr_1'' st1 = Inr a1
     \<and> (\<exists>e. resolve_approval_body 10 ''apr_1'' ApprovalRejected ''ck:eve'' [] no_attestation st1 = Inl e)"
proof -
  let ?st = "empty_state\<lparr>approvals := [\<lparr>a_id = ''apr_1'', a_grant_id = ''grt_1'', a_receipt_id = [], a_sub = ''ck:alice'',
          a_capability = ''chat'', a_data_class = ''public'', a_target = ''openai'', a_cost = 700,
          a_status = ApprovalPending, a_requested_at = 1, a_resolved_at = None, a_approver_sub = [],
          a_approver_attestation = None, a_reason = []\<rparr>]\<rparr>"
  have "\<exists>st1 a1. resolve_approval_body 9 ''apr_1'' ApprovalApproved ''ck:bob'' ''ok'' no_attestation ?st = Inr (st1, a1)"
    by (simp add: resolve_approval_body_def)
  then obtain st1 a1 where
    r: "resolve_approval_body 9 ''apr_1'' ApprovalApproved ''ck:bob'' ''ok'' no_attestation ?st = Inr (st1, a1)" by blast
  show ?thesis using approval_resolution_final [OF r rtranclp.rtrancl_refl] r by blast
qed

text \<open>
  The signing key pair is generated once: the first successful call returns exactly the generated
  pair, decoded from the state, and every later call (also after reopening the file, whatever the
  random source would give) returns the same pair without writing anything.
\<close>

theorem signing_keypair_stable:
  assumes "signing_keypair io (Some (pub, priv)) s = (Inr k, s1)" and "sk_key_id (signing (mem s)) = []"
  shows "k = (pub, priv, ''local-ed25519-v1'')
     \<and> (\<forall>io' gen. signing_keypair io' gen s1 = (Inr k, s1))
     \<and> (\<forall>io'. io_read io' \<longrightarrow> reload io' s1 = (Inr (), s1))"
proof -
  let ?keys = "\<lparr>sk_key_id = ''local-ed25519-v1'', sk_public_b64 = std_encode pub, sk_private_b64 = std_encode priv\<rparr>"
  have "finish io ((mem s)\<lparr>signing := ?keys\<rparr>) ?keys s = (Inr ?keys, s1) \<and> k = (pub, priv, ''local-ed25519-v1'')"
  proof (cases "finish io ((mem s)\<lparr>signing := ?keys\<rparr>) ?keys s")
    case (Pair r s')
    show ?thesis
    proof (cases r)
      case (Inl e)
      then show ?thesis using assms Pair by (simp add: signing_keypair_def ensure_signing_keys_def)
    next
      case (Inr keys)
      then have "keys = ?keys" using finish_ok Pair by metis
      then show ?thesis using assms Pair Inr by (simp add: signing_keypair_def ensure_signing_keys_def)
    qed
  qed
  then have "in_sync s1" "mem s1 = (mem s)\<lparr>signing := ?keys\<rparr>" and k: "k = (pub, priv, ''local-ed25519-v1'')"
    using finish_ok [of io "(mem s)\<lparr>signing := ?keys\<rparr>" ?keys s ?keys s1] by blast+
  then show ?thesis
    by (auto simp: signing_keypair_def ensure_signing_keys_def reload_def read_file_def in_sync_def)
qed

lemma signing_keypair_stable_witness:
  "\<exists>s1. signing_keypair io_ok (Some (''PUB'', ''PRIV'')) (saved empty_state)
          = (Inr (''PUB'', ''PRIV'', ''local-ed25519-v1''), s1)
     \<and> signing_keypair io_ok None s1 = (Inr (''PUB'', ''PRIV'', ''local-ed25519-v1''), s1)"
proof -
  have e: "sk_key_id (signing (mem (saved empty_state))) = []" by (simp add: empty_state_def)
  have "\<exists>k s1. signing_keypair io_ok (Some (''PUB'', ''PRIV'')) (saved empty_state) = (Inr k, s1)"
    using e by (simp add: signing_keypair_def ensure_signing_keys_def Let_def finish_success [of io_ok "saved empty_state" "Encoded empty_state"])
  then obtain k s1 where r: "signing_keypair io_ok (Some (''PUB'', ''PRIV'')) (saved empty_state) = (Inr k, s1)" by blast
  show ?thesis using signing_keypair_stable [OF r e] r by auto
qed

end
