(* ===== verification/StoreCalls.thy ===== *)
theory StoreCalls
  imports Grants
begin

text \<open>
  All the calls of the store (\<open>store.go\<close>, \<open>policy_store.go\<close>) as one step relation, and several
  processes that work on one state file: each has its own memory, loaded when it started, and every
  call that saves writes that whole memory. The property is the revocation of a token.
\<close>

subsection \<open>The calls of one process\<close>

text \<open>The calls that change the state and are not about tokens.\<close>

datatype store_op =
    SetKey time string string string
  | RotateStart time string string string
  | RotateVerify time string
  | RotateCommit time string i64
  | RotateRollback time string
  | RevokePrevious time string
  | RevokeKey time string string
  | SaveCatalog time string "provider_model list"
  | AddUsage time string usage_event
  | SigningKeypair "(string \<times> string) option"
  | CreateGrant time string grant
  | RevokeGrant time string
  | AddGrantSpend time string i64
  | AddReceipt receipt
  | CreateApproval time string approval_request
  | ResolveApproval time string approval_status string string identity_attestation

fun run_op :: "store_op \<Rightarrow> io \<Rightarrow> store \<Rightarrow> store" where
  "run_op (SetKey now rnd p k) io s = snd (set_provider_key now rnd p k io s)"
| "run_op (RotateStart now rnd p k) io s = snd (rotate_provider_key_start now rnd p k io s)"
| "run_op (RotateVerify now p) io s = snd (rotate_provider_key_verify now p io s)"
| "run_op (RotateCommit now p hours) io s = snd (rotate_provider_key_commit now p hours io s)"
| "run_op (RotateRollback now p) io s = snd (rotate_provider_key_rollback now p io s)"
| "run_op (RevokePrevious now p) io s = snd (revoke_previous_provider_key now p io s)"
| "run_op (RevokeKey now p kid) io s = snd (revoke_provider_key now p kid io s)"
| "run_op (SaveCatalog now p models) io s = snd (save_model_catalog now p models io s)"
| "run_op (AddUsage now rnd e) io s = snd (add_usage_event now rnd e io s)"
| "run_op (SigningKeypair gen) io s = snd (signing_keypair io gen s)"
| "run_op (CreateGrant now buf g) io s = snd (create_grant now buf g io s)"
| "run_op (RevokeGrant now gid) io s = snd (revoke_grant now gid io s)"
| "run_op (AddGrantSpend now gid amount) io s = snd (add_grant_spend now gid amount io s)"
| "run_op (AddReceipt r) io s = snd (add_receipt r io s)"
| "run_op (CreateApproval now buf a) io s = snd (create_approval now buf a io s)"
| "run_op (ResolveApproval now aid status approver reason att) io s =
     snd (resolve_approval_with_attestation now aid status approver reason att io s)"

text \<open>
  One call, whatever its result. A new token's hash differs from the hashes \<open>hs\<close> of the
  secrets one follows.
\<close>

inductive token_step :: "(string \<Rightarrow> string) \<Rightarrow> string set \<Rightarrow> store \<Rightarrow> store \<Rightarrow> bool" for sha hs where
  ts_create: "(\<And>b. rnd = Some b \<Longrightarrow> token_hash sha (token_of_random b) \<notin> hs) \<Longrightarrow>
     token_step sha hs s (snd (create_token sha now rnd name scopes io s))"
| ts_revoke: "token_step sha hs s (snd (revoke_token sha now name_or_raw io s))"
| ts_validate: "token_step sha hs s (snd (validate_token_record sha io now raw required s))"
| ts_ssh: "token_step sha hs s (snd (validate_ssh_token sha io raw scope s))"
| ts_other: "token_step sha hs s (run_op c io s)"

subsection \<open>Several processes on one file\<close>

text \<open>
  The memories of the running processes and the file. A process calls, starts (and opens the
  store, which may migrate and save), or ends.
\<close>

type_synonym machine = "state list \<times> disk_file"

inductive machine_step :: "(string \<Rightarrow> string) \<Rightarrow> string set \<Rightarrow> machine \<Rightarrow> machine \<Rightarrow> bool" for sha hs where
  ms_call: "i < length ms \<Longrightarrow> token_step sha hs \<lparr>mem = ms ! i, disk = f\<rparr> s' \<Longrightarrow>
     machine_step sha hs (ms, f) (ms[i := mem s'], disk s')"
| ms_start: "new_store io now rnd f = Inr s' \<Longrightarrow> machine_step sha hs (ms, f) (ms @ [mem s'], disk s')"
| ms_start_fails: "snd (load_or_init io now rnd f) = s' \<Longrightarrow> machine_step sha hs (ms, f) (ms, disk s')"
| ms_ends: "machine_step sha hs (us @ st # vs, f) (us @ vs, f)"

inductive_cases machine_stepE: "machine_step sha hs m m'"

subsection \<open>What the calls keep\<close>

lemma keeps_tokens_holds:
  assumes "\<And>st st' r. body st = Inr (st', r) \<Longrightarrow> tokens st' = tokens st" and "store_holds (all_revoked h) s"
  shows "store_holds (all_revoked h) (snd (transact body io s))"
  by (rule transact_holds [OF _ _ assms(2)]) (use assms(1) in \<open>auto simp: all_revoked_def empty_state_def\<close>)

lemma put_keyset_tokens [simp]: "tokens (put_keyset p ks st) = tokens st"
  by (simp add: put_keyset_def)

lemma sync_active_tokens [simp]: "tokens (sync_active p st) = tokens st"
  by (simp add: sync_active_def Let_def split: option.split)

lemma on_keyset_tokens: "on_keyset sync missing f p st = Inr (st', ks) \<Longrightarrow> tokens st' = tokens st"
  by (auto simp: on_keyset_def Let_def split: option.splits sum.splits if_splits)

lemma key_body_tokens:
  "map_sum id (\<lambda>(st', ks). (st', g ks)) (on_keyset sync missing f p st) = Inr (st', r) \<Longrightarrow> tokens st' = tokens st"
  by (cases "on_keyset sync missing f p st") (auto dest: on_keyset_tokens)

lemma run_op_holds:
  assumes s: "store_holds (all_revoked h) s"
  shows "store_holds (all_revoked h) (run_op c io s)"
proof (cases c)
  case (SigningKeypair gen)
  have "snd (signing_keypair io gen s) = snd (ensure_signing_keys io gen s)"
    by (simp add: signing_keypair_def split: prod.split sum.split option.split)
  moreover have "store_holds (all_revoked h) (snd (ensure_signing_keys io gen s))"
  proof -
    have "all_revoked h ((mem s)\<lparr>signing := k\<rparr>)" for k
      using s by (simp add: store_holds_def all_revoked_def)
    then show ?thesis
      using s by (simp add: ensure_signing_keys_def Let_def finish_holds split: option.split prod.split)
  qed
  ultimately show ?thesis using SigningKeypair by simp
qed (auto intro!: keeps_tokens_holds [OF _ s] dest: key_body_tokens
      simp: set_provider_key_def rotate_provider_key_start_def rotate_provider_key_verify_def
        rotate_provider_key_commit_def rotate_provider_key_rollback_def revoke_previous_provider_key_def
        revoke_provider_key_def save_model_catalog_def add_usage_event_def create_grant_def revoke_grant_def
        add_grant_spend_def add_receipt_def create_approval_def resolve_approval_with_attestation_def
        set_key_body_def rotate_start_body_def rotate_verify_body_def rotate_commit_body_def
        rotate_rollback_body_def revoke_previous_body_def revoke_key_body_def save_model_catalog_body_def
        add_usage_event_body_def create_grant_body_def revoke_grant_body_def add_grant_spend_body_def
        add_receipt_body_def create_approval_body_def resolve_approval_body_def Let_def
      split: if_splits sum.splits option.splits)

lemma all_revoked_step:
  assumes "token_step sha hs s s'" and "h \<in> hs" and s: "store_holds (all_revoked h) s"
  shows "store_holds (all_revoked h) s'"
  using assms(1)
proof cases
  case (ts_create rnd now name scopes io)
  have "\<And>b. rnd = Some b \<Longrightarrow> token_hash sha (token_of_random b) \<noteq> h" using ts_create(2) assms(2) by blast
  then show ?thesis unfolding ts_create(1) create_token_def
    by (intro transact_holds [OF _ _ s]) (use all_revoked_create in blast, simp)
next
  case (ts_revoke now name_or_raw io)
  show ?thesis unfolding ts_revoke revoke_token_def
    by (intro transact_holds [OF _ _ s])
       (auto simp: revoke_token_body_def Let_def split: if_splits option.splits intro: all_revoked_edit)
next
  case (ts_validate io now raw required)
  let ?s1 = "snd (reload io s)"
  have s1: "store_holds (all_revoked h) ?s1" by (rule reload_holds [OF s]) simp
  have "store_holds (all_revoked h) (snd (save io (?s1\<lparr>mem := (mem ?s1)\<lparr>tokens := ts\<rparr>\<rparr>)))"
    if e: "edit_first (live_token k) (\<lambda>t. t\<lparr>t_last_used_at := rfc3339 now\<rparr>) (tokens (mem ?s1)) = Some (t, ts)" for k t ts
  proof (rule save_holds)
    have "all_revoked h (mem ?s1)" using s1 by (simp add: store_holds_def)
    then have "all_revoked h ((mem ?s1)\<lparr>tokens := ts\<rparr>)" by (rule all_revoked_edit [OF _ e]) simp
    then show "store_holds (all_revoked h) (?s1\<lparr>mem := (mem ?s1)\<lparr>tokens := ts\<rparr>\<rparr>)"
      using s1 by (simp add: store_holds_def)
  qed simp
  then show ?thesis using s s1
    unfolding ts_validate by (auto simp: validate_token_record_def Let_def split: option.splits)
next
  case (ts_ssh io raw scope)
  then show ?thesis using validate_ssh_store [of sha io raw scope s] s reload_holds [OF s, of io] by auto
next
  case (ts_other c io)
  then show ?thesis using run_op_holds [OF s] by simp
qed

lemma migrate_tokens:
  assumes "migrate_provider_keys now rnd st = (changed, st')"
  shows "tokens st' = tokens st"
proof -
  have one: "tokens (snd (migrate_one now rnd pk c)) = tokens (snd c)" for pk c
    by (cases pk; cases c) (simp add: migrate_one_def Let_def)
  have "tokens (snd (fold (migrate_one now rnd) ps c)) = tokens (snd c)" for ps c
    by (induction ps arbitrary: c) (simp_all add: one)
  moreover have "tokens (fold sync_active ps x) = tokens x" for ps x
    by (induction ps arbitrary: x) simp_all
  ultimately show ?thesis using assms
    by (auto simp: migrate_provider_keys_def split: prod.splits) (metis snd_conv)
qed

lemma opened_holds:
  assumes f: "file_holds (all_revoked h) f"
  shows "store_holds (all_revoked h) (snd (load_or_init io now rnd f))"
proof -
  let ?s = "\<lparr>mem = empty_state, disk = f\<rparr>"
  have s: "store_holds (all_revoked h) ?s" using f by (simp add: store_holds_def)
  obtain r s1 where r: "reload io ?s = (r, s1)" by (cases "reload io ?s")
  have s1: "store_holds (all_revoked h) s1" using reload_holds [OF s, of io] r by simp
  obtain changed st where m: "migrate_provider_keys now rnd (mem s1) = (changed, st)"
    by (cases "migrate_provider_keys now rnd (mem s1)")
  have st: "store_holds (all_revoked h) (s1\<lparr>mem := st\<rparr>)"
    using s1 migrate_tokens [OF m] by (simp add: store_holds_def all_revoked_def)
  show ?thesis
    using s s1 st save_holds [OF s, of io] save_holds [OF st, of io]
    by (auto simp: load_or_init_def Let_def r m split: sum.splits)
qed

definition machine_revoked :: "string \<Rightarrow> machine \<Rightarrow> bool" where
  "machine_revoked h m \<longleftrightarrow> (\<forall>st \<in> set (fst m). all_revoked h st) \<and> file_holds (all_revoked h) (snd m)"

lemma machine_revoked_store:
  "machine_revoked h (ms, f) \<Longrightarrow> i < length ms \<Longrightarrow> store_holds (all_revoked h) \<lparr>mem = ms ! i, disk = f\<rparr>"
  by (simp add: machine_revoked_def store_holds_def)

lemma machine_revoked_step:
  assumes "machine_step sha hs m m'" and "h \<in> hs" and m: "machine_revoked h m"
  shows "machine_revoked h m'"
  using assms(1)
proof cases
  case (ms_call i ms f s')
  have "store_holds (all_revoked h) s'"
    using all_revoked_step [OF ms_call(4) assms(2)] machine_revoked_store m ms_call(1,3) by blast
  then show ?thesis
    using m ms_call(1,2) by (auto simp: machine_revoked_def store_holds_def dest!: subsetD [OF set_update_subset_insert])
next
  case (ms_start io now rnd f s' ms)
  have "s' = snd (load_or_init io now rnd f)"
    using ms_start(3) by (auto simp: new_store_def split: prod.splits sum.splits)
  then show ?thesis using m ms_start(1,2) opened_holds [of h f io now rnd] by (auto simp: machine_revoked_def store_holds_def)
next
  case (ms_start_fails io now rnd f s' ms)
  then show ?thesis using m opened_holds [of h f io now rnd] by (auto simp: machine_revoked_def store_holds_def)
next
  case (ms_ends us st vs f)
  then show ?thesis using m by (auto simp: machine_revoked_def)
qed

lemma machine_revoked_steps:
  "(machine_step sha hs)\<^sup>*\<^sup>* m m' \<Longrightarrow> h \<in> hs \<Longrightarrow> machine_revoked h m \<Longrightarrow> machine_revoked h m'"
  by (induction rule: rtranclp_induct) (auto intro: machine_revoked_step)

text \<open>
  A process that loaded the file before the revocation still has the live record: its next save,
  here of a usage event, writes the record back. Validation reloads first; the save does not.
\<close>

lemma stale_save_restores_token:
  assumes "validate_state_path io_ok \<lparr>mem = st, disk = f\<rparr> = Inr present"
  shows "\<exists>st'. disk (snd (add_usage_event now rnd e io_ok \<lparr>mem = st, disk = f\<rparr>)) = Regular (Encoded st')
     \<and> tokens st' = tokens st"
proof -
  obtain c where "f = Regular c \<or> f = NoFile" using assms by (auto simp: validate_state_path_def io_ok_def split: disk_file.splits)
  then show ?thesis
    by (auto simp: add_usage_event_def transact_def add_usage_event_body_def finish_def save_def Let_def
        validate_state_path_def io_ok_def)
qed

subsection \<open>Property\<close>

text \<open>
  (C6) Revoking by the raw secret is effective and permanent for the processes that work with the
  file from then on: when the call succeeds, no token is named like the secret and no two records
  have one hash, then after any calls of the revoking process and of processes started later, in any
  interleaving (every call of the store that saves, openings, tokens created with other hashes),
  each of them rejects the secret in both validations. A process that had loaded the file before
  is not covered: \<open>stale_save_restores_token\<close>.
\<close>

theorem revocation_is_permanent:
  assumes "revoke_token sha now raw io s = (Inr (), s1)"
    and "\<forall>t \<in> set (tokens (mem s)). t_name t \<noteq> trim_space raw"
    and "distinct (map t_hash (tokens (mem s)))"
    and "(machine_step sha hs)\<^sup>*\<^sup>* ([mem s1], disk s1) (ms, f)" and "token_hash sha raw \<in> hs"
    and "i < length ms"
  shows "fst (validate_token_record sha io' now' raw required \<lparr>mem = ms ! i, disk = f\<rparr>) = None
     \<and> fst (validate_ssh_token sha io' raw scope \<lparr>mem = ms ! i, disk = f\<rparr>) = None"
proof -
  let ?h = "token_hash sha raw"
  have h: "token_hash sha (trim_space raw) = ?h" by (simp add: token_hash_def)
  have t: "in_sync s1 \<and> revoke_token_body sha now raw (mem s) = Inr (mem s1, ())"
    by (rule transact_ok [OF assms(1) [unfolded revoke_token_def]])
  then have "trim_space raw \<noteq> []" by (auto simp: revoke_token_body_def Let_def)
  then obtain t ts where e: "edit_first (\<lambda>t. t_name t = trim_space raw \<or> (?h \<noteq> [] \<and> t_hash t = ?h))
      (\<lambda>t. t\<lparr>t_revoked_at := rfc3339 now\<rparr>) (tokens (mem s)) = Some (t, ts)" and m: "tokens (mem s1) = ts"
    using t h by (auto simp: revoke_token_body_def Let_def split: option.splits dest!: sym [of _ "mem s1"])
  obtain us x vs where x: "tokens (mem s) = us @ x # vs" "ts = us @ x\<lparr>t_revoked_at := rfc3339 now\<rparr> # vs" "t_hash x = ?h"
    using edit_first_Some [OF e] assms(2) by auto
  have "all_revoked ?h (mem s1)" using x m assms(3) by (auto simp: all_revoked_def) (metis imageI)+
  then have "machine_revoked ?h ([mem s1], disk s1)"
    using t by (simp add: machine_revoked_def file_holds_def in_sync_def)
  then have "machine_revoked ?h (ms, f)" using machine_revoked_steps [OF assms(4,5)] by blast
  then show ?thesis using machine_revoked_store [OF _ assms(6)] validate_all_revoked by blast
qed

text \<open>The token is revoked, the process records a usage event, another process starts and checks the secret.\<close>

lemma revocation_is_permanent_witness:
  "\<forall>e. \<exists>s1 s2 st'. revoke_token id 0 ''p21_616263'' io_ok
       (saved (empty_state\<lparr>tokens := [\<lparr>t_name = ''ci'', t_hash = token_hash id ''p21_616263'', t_scopes = [''proxy:*''],
          t_created_at = [], t_revoked_at = [], t_last_used_at = []\<rparr>]\<rparr>)) = (Inr (), s1)
     \<and> s2 = run_op (AddUsage 1 [] e) io_ok s1 \<and> disk s2 = Regular (Encoded st')
     \<and> fst (validate_token_record id io_ok 2 ''p21_616263'' ''proxy:openai'' \<lparr>mem = mem s2, disk = disk s2\<rparr>) = None"
proof
  fix e
  let ?st = "empty_state\<lparr>tokens := [\<lparr>t_name = ''ci'', t_hash = token_hash id ''p21_616263'', t_scopes = [''proxy:*''],
          t_created_at = [], t_revoked_at = [], t_last_used_at = []\<rparr>]\<rparr>"
  have t: "trim_space ''p21_616263'' = ''p21_616263''" by code_simp
  have h: "token_hash id ''p21_616263'' \<noteq> []" by code_simp
  have "\<exists>st'. revoke_token_body id 0 ''p21_616263'' ?st = Inr (st', ())"
    using h by (simp add: revoke_token_body_def Let_def t)
  then obtain st1 where b: "revoke_token_body id 0 ''p21_616263'' ?st = Inr (st1, ())" ..
  have r: "revoke_token id 0 ''p21_616263'' io_ok (saved ?st) = (Inr (), saved st1)"
    unfolding revoke_token_def by (rule transact_saved [of "revoke_token_body _ _ _", OF b])
  let ?s2 = "run_op (AddUsage 1 [] e) io_ok (saved st1)" and ?hs = "{token_hash id ''p21_616263''}"
  obtain st2 where a: "add_usage_event_body 1 [] e st1 = Inr (st2, ())" by (auto simp: add_usage_event_body_def Let_def)
  have s2: "?s2 = saved st2"
    using transact_saved [of "add_usage_event_body 1 [] e", OF a] by (simp add: add_usage_event_def)
  have c: "token_step id ?hs \<lparr>mem = [mem (saved st1)] ! 0, disk = disk (saved st1)\<rparr> ?s2"
    using ts_other [of id ?hs "saved st1" "AddUsage 1 [] e" io_ok] by (simp add: saved_def)
  have "machine_step id ?hs ([mem (saved st1)], disk (saved st1)) ([mem (saved st1)][0 := mem ?s2], disk ?s2)"
    using ms_call [OF _ c] by simp
  then have "(machine_step id ?hs)\<^sup>*\<^sup>* ([mem (saved st1)], disk (saved st1)) ([mem ?s2], disk ?s2)" by simp
  then have "fst (validate_token_record id io_ok 2 ''p21_616263'' ''proxy:openai'' \<lparr>mem = [mem ?s2] ! 0, disk = disk ?s2\<rparr>) = None"
    using revocation_is_permanent [OF r, of ?hs "[mem ?s2]" "disk ?s2" 0] t by simp
  then show "\<exists>s1 s2 st'. revoke_token id 0 ''p21_616263'' io_ok (saved ?st) = (Inr (), s1)
     \<and> s2 = run_op (AddUsage 1 [] e) io_ok s1 \<and> disk s2 = Regular (Encoded st')
     \<and> fst (validate_token_record id io_ok 2 ''p21_616263'' ''proxy:openai'' \<lparr>mem = mem s2, disk = disk s2\<rparr>) = None" using r s2 by (auto simp: saved_def)
qed

end
