(* ===== verification/Usage.thy ===== *)
theory Usage
  imports Grants "HOL-Library.Signed_Division"
begin

text \<open>
  Package \<open>internal/usage\<close>: reading token usage from provider responses and estimating the
  cost. JSON text is decoded by a parameter; the values a decoded object holds are a datatype
  whose numbers (\<open>float64\<close>) are abstract, with the three conversions the code makes of them in
  \<open>float_ops\<close>: \<open>int64(f)\<close>, \<open>int64(math.Round(f * 1_000_000))\<close> and \<open>f > 0\<close>.
\<close>

datatype 'f json =
    JNull | JBool bool | JNum 'f | JStr string | JArr "'f json list" | JObj "(string \<times> 'f json) list"

record 'f float_ops =
  f_int :: "'f \<Rightarrow> i64"
  f_micros :: "'f \<Rightarrow> i64"
  f_pos :: "'f \<Rightarrow> bool"

record parsed_usage =
  pu_request_id :: string
  pu_model :: string
  pu_prompt :: i64
  pu_completion :: i64
  pu_cache_read :: i64
  pu_cache_write :: i64
  pu_total :: i64
  pu_cost_micros :: i64
  pu_cost_source :: string
  pu_warning :: string

record cost_estimate =
  ce_micros :: i64
  ce_source :: string
  ce_currency :: string

record price =
  pr_prompt :: i64
  pr_completion :: i64
  pr_source :: string

record 'f chat_usage_envelope =
  env_id :: string
  env_model :: string
  env_usage :: "(string \<times> 'f json) list option"
  env_cost :: "(string \<times> 'f json) list option"

definition empty_usage :: parsed_usage where
  "empty_usage = \<lparr>pu_request_id = [], pu_model = [], pu_prompt = 0, pu_completion = 0, pu_cache_read = 0,
     pu_cache_write = 0, pu_total = 0, pu_cost_micros = 0, pu_cost_source = [], pu_warning = []\<rparr>"

subsection \<open>Reading\<close>

fun int_from_map :: "'f float_ops \<Rightarrow> (string \<times> 'f json) list \<Rightarrow> string list \<Rightarrow> i64" where
  "int_from_map ops m [] = 0"
| "int_from_map ops m (k # ks) =
     (case map_of m k of Some (JNum f) \<Rightarrow> f_int ops f | _ \<Rightarrow> int_from_map ops m ks)"

text \<open>\<open>None\<close> stands for the 0 the code returns when no key holds a number.\<close>

fun float_from_map :: "(string \<times> 'f json) list option \<Rightarrow> string list \<Rightarrow> 'f option" where
  "float_from_map None ks = None"
| "float_from_map (Some m) [] = None"
| "float_from_map (Some m) (k # ks) =
     (case map_of m k of Some (JNum f) \<Rightarrow> Some f | _ \<Rightarrow> float_from_map (Some m) ks)"

definition parse_chat_usage ::
  "'f float_ops \<Rightarrow> (string \<Rightarrow> 'f chat_usage_envelope option) \<Rightarrow> string \<Rightarrow> parsed_usage \<times> bool" where
  "parse_chat_usage ops dec body =
     (case dec body of
        None \<Rightarrow> (empty_usage, False)
      | Some env \<Rightarrow>
          if trim_space (env_id env) = [] \<and> trim_space (env_model env) = [] \<and> env_usage env = None
          then (empty_usage, False)
          else let p0 = empty_usage\<lparr>pu_request_id := env_id env, pu_model := env_model env\<rparr> in
            (case env_usage env of
               None \<Rightarrow> (p0\<lparr>pu_warning := ''usage_missing''\<rparr>, True)
             | Some u \<Rightarrow>
                 let prompt = int_from_map ops u [''prompt_tokens'', ''input_tokens''];
                     completion = int_from_map ops u [''completion_tokens'', ''output_tokens''];
                     total0 = int_from_map ops u [''total_tokens''];
                     total = (if total0 = 0 then prompt + completion else total0);
                     cached0 = int_from_map ops u [''cache_read_input_tokens''];
                     cached = (case map_of u ''prompt_tokens_details'' of
                         Some (JObj d) \<Rightarrow>
                           (let c = int_from_map ops d [''cached_tokens''] in if 0 <s c then c else cached0)
                       | _ \<Rightarrow> cached0);
                     p1 = p0\<lparr>pu_prompt := prompt, pu_completion := completion, pu_total := total,
                            pu_cache_read := cached,
                            pu_cache_write := int_from_map ops u [''cache_creation_input_tokens'', ''cache_write_input_tokens'']\<rparr>;
                     p2 = (case float_from_map (env_cost env) [''usd''] of
                         Some f \<Rightarrow> if f_pos ops f
                           then p1\<lparr>pu_cost_micros := f_micros ops f, pu_cost_source := ''provider_response''\<rparr> else p1
                       | None \<Rightarrow> p1);
                     p3 = (if prompt = 0 \<and> completion = 0 \<and> total = 0
                           then p2\<lparr>pu_warning := ''usage_tokens_missing''\<rparr> else p2)
                 in (p3, True)))"

text \<open>\<open>bytes.Split\<close> on a separator of two bytes; \<open>split_on\<close> is the one-byte case.\<close>

fun split_pair :: "char \<Rightarrow> char \<Rightarrow> string \<Rightarrow> string list" where
  "split_pair a b [] = [[]]"
| "split_pair a b [x] = [[x]]"
| "split_pair a b (x # y # s) =
     (if x = a \<and> y = b then [] # split_pair a b s
      else (case split_pair a b (y # s) of [] \<Rightarrow> [[x]] | w # ws \<Rightarrow> (x # w) # ws))"

definition newline :: char where "newline = CHR 0x0A"

definition sse_data_part :: "string \<Rightarrow> string option" where
  "sse_data_part line0 =
     (let line = trim_space line0 in
      if has_prefix line ''data:'' then
        (let part = trim_space (trim_prefix line ''data:'') in
         if part \<noteq> [] \<and> part \<noteq> ''[DONE]'' then Some part else None)
      else None)"

definition frame_data :: "string \<Rightarrow> string list" where
  "frame_data frame = List.map_filter sse_data_part (split_on newline frame)"

definition usage_reported :: "parsed_usage \<Rightarrow> bool" where
  "usage_reported p \<longleftrightarrow> 0 <s pu_prompt p \<or> 0 <s pu_completion p \<or> 0 <s pu_total p \<or> pu_warning p \<noteq> []"

fun sse_scan ::
  "'f float_ops \<Rightarrow> (string \<Rightarrow> 'f chat_usage_envelope option) \<Rightarrow> string list \<Rightarrow> parsed_usage \<times> bool \<Rightarrow> parsed_usage \<times> bool" where
  "sse_scan ops dec [] acc = acc"
| "sse_scan ops dec (frame # frames) acc =
     (let parts = frame_data frame in
      if parts = [] then sse_scan ops dec frames acc
      else case parse_chat_usage ops dec (join_with [newline] parts) of
        (parsed, ok) \<Rightarrow>
          if ok \<and> usage_reported parsed then sse_scan ops dec frames (parsed, True)
          else sse_scan ops dec frames acc)"

definition parse_sse_usage ::
  "'f float_ops \<Rightarrow> (string \<Rightarrow> 'f chat_usage_envelope option) \<Rightarrow> string \<Rightarrow> parsed_usage \<times> bool" where
  "parse_sse_usage ops dec body = sse_scan ops dec (split_pair newline newline body) (empty_usage, False)"

subsection \<open>Cost\<close>

text \<open>\<open>int64\<close> division truncates toward zero.\<close>

definition cost_micros :: "i64 \<Rightarrow> i64 \<Rightarrow> price \<Rightarrow> i64" where
  "cost_micros prompt completion p =
     word_of_int (sint (prompt * pr_prompt p + completion * pr_completion p) sdiv 1000000)"

definition estimate_openrouter_cost :: "string \<Rightarrow> i64 \<Rightarrow> i64 \<Rightarrow> price option \<Rightarrow> cost_estimate" where
  "estimate_openrouter_cost model prompt completion catalog =
     (let unknown = \<lparr>ce_micros = 0, ce_source = ''unknown'', ce_currency = ''USD''\<rparr>;
          static = (if model = ''openai/gpt-4o-mini''
             then Some \<lparr>pr_prompt = 150000, pr_completion = 600000, pr_source = ''static''\<rparr> else None);
          chosen = (case catalog of
             Some p \<Rightarrow> if 0 <s pr_prompt p \<and> 0 <s pr_completion p
               then Some (if trim_space (pr_source p) = [] then p\<lparr>pr_source := ''openrouter_catalog''\<rparr> else p)
               else static
           | None \<Rightarrow> static)
      in (case chosen of
            None \<Rightarrow> unknown
          | Some p \<Rightarrow> \<lparr>ce_micros = cost_micros prompt completion p, ce_source = pr_source p, ce_currency = ''USD''\<rparr>))"

definition merge_stream_options :: "(string \<times> 'f json) list \<Rightarrow> (string \<times> 'f json) list" where
  "merge_stream_options payload =
     (let existing = (case map_of payload ''stream_options'' of Some (JObj m) \<Rightarrow> m | _ \<Rightarrow> [])
      in AList.update ''stream_options'' (JObj (AList.update ''include_usage'' (JBool True) existing)) payload)"

subsection \<open>Lemmas\<close>

lemma sse_scan_last:
  "sse_scan ops dec frames acc =
     (case rev (List.map_filter (\<lambda>frame. if frame_data frame = [] then None
            else (case parse_chat_usage ops dec (join_with [newline] (frame_data frame)) of
               (p, ok) \<Rightarrow> if ok \<and> usage_reported p then Some p else None)) frames) of
        [] \<Rightarrow> acc | p # _ \<Rightarrow> (p, True))"
  by (induction frames arbitrary: acc) (auto simp: List.map_filter_simps Let_def split: prod.splits list.splits)

lemma split_pair_nonempty [simp]: "split_pair a b s \<noteq> []"
  by (induction a b s rule: split_pair.induct) (auto split: list.splits)

lemma cost_micros_exact:
  assumes "0 \<le> sint p" "0 \<le> sint c" "0 \<le> sint (pr_prompt pr)" "0 \<le> sint (pr_completion pr)"
    and "sint p * sint (pr_prompt pr) + sint c * sint (pr_completion pr) < 2 ^ 63"
  shows "sint (cost_micros p c pr) = (sint p * sint (pr_prompt pr) + sint c * sint (pr_completion pr)) div 1000000"
proof -
  let ?n = "sint p * sint (pr_prompt pr) + sint c * sint (pr_completion pr)"
  have n0: "0 \<le> ?n" using assms by simp
  have "sint (p * pr_prompt pr + c * pr_completion pr) = signed_take_bit 63 ?n"
    by (simp add: sint_word_ariths signed_take_bit_add signed_take_bit_mult)
  also have "\<dots> = ?n" using n0 assms(5) by (simp add: signed_take_bit_int_eq_self)
  finally have e: "cost_micros p c pr = word_of_int (?n sdiv 1000000)" by (simp add: cost_micros_def)
  have d: "?n sdiv 1000000 = ?n div 1000000" using n0 by (cases "?n = 0") (simp_all add: signed_divide_int_def)
  have "0 \<le> ?n div 1000000" "?n div 1000000 < 2 ^ 63"
    using n0 assms(5) by (auto simp: div_less_dividend pos_imp_zdiv_nonneg_iff intro: le_less_trans [OF zdiv_mono2])
  then show ?thesis using e d by (simp add: signed_take_bit_int_eq_self sint_sbintrunc')
qed

subsection \<open>Properties\<close>

text \<open>
  The usage of a streamed response is the one of its last frame that reports usage: frames
  without data lines, with undecodable data or with neither tokens nor a warning are skipped, and
  nothing is found exactly when no frame reports usage.
\<close>

theorem sse_usage_is_last_report:
  "parse_sse_usage ops dec body =
     (let reports = List.map_filter (\<lambda>frame. if frame_data frame = [] then None
            else (case parse_chat_usage ops dec (join_with [newline] (frame_data frame)) of
               (p, ok) \<Rightarrow> if ok \<and> usage_reported p then Some p else None)) (split_pair newline newline body)
      in if reports = [] then (empty_usage, False) else (last reports, True))"
  unfolding parse_sse_usage_def sse_scan_last Let_def
  by (auto split: list.splits simp: last_rev [symmetric] hd_rev)

text \<open>
  The OpenRouter estimate: a catalog price with both rates positive is used, otherwise only the
  model with a static price has one; without overflow the amount is the exact token cost rounded down
  to whole micros, and an unknown model costs 0 with source \<open>unknown\<close>.
\<close>

theorem openrouter_cost_exact:
  assumes "0 \<le> sint prompt" and "0 \<le> sint completion"
  shows "(case catalog of
            Some p \<Rightarrow> 0 < sint (pr_prompt p) \<and> 0 < sint (pr_completion p)
              \<and> sint prompt * sint (pr_prompt p) + sint completion * sint (pr_completion p) < 2 ^ 63 \<longrightarrow>
              sint (ce_micros (estimate_openrouter_cost model prompt completion catalog))
                = (sint prompt * sint (pr_prompt p) + sint completion * sint (pr_completion p)) div 1000000
              \<and> ce_source (estimate_openrouter_cost model prompt completion catalog) \<noteq> []
          | None \<Rightarrow> model \<noteq> ''openai/gpt-4o-mini'' \<longrightarrow>
              ce_micros (estimate_openrouter_cost model prompt completion catalog) = 0
              \<and> ce_source (estimate_openrouter_cost model prompt completion catalog) = ''unknown'')"
proof (cases catalog)
  case (Some p)
  have "sint (cost_micros prompt completion p)
      = (sint prompt * sint (pr_prompt p) + sint completion * sint (pr_completion p)) div 1000000"
    if "0 < sint (pr_prompt p)" "0 < sint (pr_completion p)"
      "sint prompt * sint (pr_prompt p) + sint completion * sint (pr_completion p) < 2 ^ 63"
    using cost_micros_exact [OF assms] that by simp
  moreover have "cost_micros prompt completion (p\<lparr>pr_source := x\<rparr>) = cost_micros prompt completion p" for x
    by (simp add: cost_micros_def)
  moreover have "trim_space (pr_source p) \<noteq> [] \<Longrightarrow> pr_source p \<noteq> []" by auto
  ultimately show ?thesis using Some
    by (auto simp: estimate_openrouter_cost_def Let_def word_sless_alt)
qed (auto simp: estimate_openrouter_cost_def Let_def)

lemma openrouter_cost_exact_witness:
  "sint (ce_micros (estimate_openrouter_cost ''m'' 1000 500 (Some \<lparr>pr_prompt = 2000000, pr_completion = 4000000, pr_source = []\<rparr>))) = 4000"
  using openrouter_cost_exact [where prompt = "1000 :: i64" and completion = "500 :: i64" and model = "''m''"
      and catalog = "Some \<lparr>pr_prompt = 2000000, pr_completion = 4000000, pr_source = []\<rparr>"]
  by simp

end
