(* ===== verification/Hosted.thy ===== *)
theory Hosted
  imports Usage
begin

text \<open>
  Packages \<open>internal/hosted\<close> (verification of stored attestations, the hosted client and its
  smoke check) and \<open>internal/identity\<close> (the acting subject).

  Parameters: the environment variables \<open>getenv\<close>, \<open>url.Parse\<close> as the pair of scheme and host it
  yields, \<open>x509.ParsePKIXPublicKey\<close> on Ed25519 keys (\<open>spki\<close>), the signature check and the HTTP
  transport, whose replies are values.
\<close>

datatype hosted_error =
    MissingIssuer | BadIssuer | PublicKeyMissing | PublicKeyUndecodable | PublicKeyWrongForm
  | AttestationRejected sign_error
  | TransportError | HostedStatus nat string | BadResponseBody | ContextDone
  | ApprovedWithoutAttestation | IssuerMismatch | SessionDenied string | SessionExpired string
  | UnexpectedStatus string | NotReachable string | MissingSessionId | NotPending string

record att_crypto =
  ac_marshal :: "signable_attestation \<Rightarrow> string option"
  ac_verify :: "string \<Rightarrow> string \<Rightarrow> string \<Rightarrow> bool"
  ac_spki :: "string \<Rightarrow> string option"
  ac_url :: "string \<Rightarrow> (string \<times> string) option"
  ac_getenv :: "string \<Rightarrow> string"

subsection \<open>Pinned public keys\<close>

definition public_key_env_name :: "string \<Rightarrow> string" where
  "public_key_env_name kid =
     ''PINS21_HOSTED_PUBLIC_KEY_''
       @ map (\<lambda>c. if c = CHR ''-'' \<or> c = CHR ''.'' then CHR ''_'' else c) (to_upper kid)"

definition public_key_from_env :: "att_crypto \<Rightarrow> string \<Rightarrow> hosted_error + string" where
  "public_key_from_env cr kid =
     (let b64 = ac_getenv cr (public_key_env_name kid) in
      if b64 = [] then Inl PublicKeyMissing
      else case std_decode b64 of
        None \<Rightarrow> Inl PublicKeyUndecodable
      | Some decoded \<Rightarrow>
          if length decoded = 32 then Inr decoded
          else (case ac_spki cr decoded of Some pub \<Rightarrow> Inr pub | None \<Rightarrow> Inl PublicKeyWrongForm))"

definition verify_stored_attestation :: "att_crypto \<Rightarrow> identity_attestation \<Rightarrow> time \<Rightarrow> hosted_error + unit" where
  "verify_stored_attestation cr a now =
     (let issuer = trim_space (ia_issuer a) in
      if issuer = [] then Inl MissingIssuer
      else if (case ac_url cr issuer of None \<Rightarrow> True | Some (scheme, host) \<Rightarrow> scheme \<noteq> ''https'' \<or> host = [])
      then Inl BadIssuer
      else case public_key_from_env cr (ia_key_id a) of
        Inl e \<Rightarrow> Inl e
      | Inr pub \<Rightarrow>
          (case verify_identity_attestation (ac_marshal cr) (ac_verify cr) a pub issuer now of
             Inl e \<Rightarrow> Inl (AttestationRejected e)
           | Inr _ \<Rightarrow> Inr ()))"

subsection \<open>The hosted client\<close>

definition default_base_url :: "(string \<Rightarrow> string) \<Rightarrow> string" where
  "default_base_url getenv = (let v = getenv ''PINS21_HOSTED_URL'' in if v \<noteq> [] then v else ''https://21pins.com'')"

definition base_url :: "(string \<Rightarrow> string) \<Rightarrow> string \<Rightarrow> string" where
  "base_url getenv configured = (if trim_space configured \<noteq> [] then configured else default_base_url getenv)"

record session_start =
  ss_session_id :: string
  ss_verification_url :: string
  ss_user_code :: string
  ss_expires_at :: string
  ss_poll_interval :: i64
  ss_issuer :: string

record poll_response =
  po_status :: string
  po_attestation :: "identity_attestation option"
  po_error :: string

text \<open>An HTTP exchange: no reply, or a status code with a body that decodes to \<open>v\<close> or does not.\<close>

datatype 'v exchange = NoReply | Reply nat string "'v option"

definition health_url :: "string \<Rightarrow> string" where
  "health_url base = trim_right_char (CHR ''/'') base @ ''/health''"

definition session_url :: "string \<Rightarrow> string" where
  "session_url base = trim_right_char (CHR ''/'') base @ ''/v1/ck/attestation-sessions''"

definition poll_url :: "(string \<Rightarrow> string) \<Rightarrow> string \<Rightarrow> string \<Rightarrow> string \<Rightarrow> string" where
  "poll_url query_escape base sid code = session_url base @ ''/'' @ sid @ ''?user_code='' @ query_escape code"

text \<open>State, attestation availability and whether an error text is set.\<close>

definition hosted_status :: "unit exchange \<Rightarrow> string \<times> bool \<times> string option" where
  "hosted_status x =
     (case x of
        NoReply \<Rightarrow> (''offline'', False, Some ''transport'')
      | Reply code body v \<Rightarrow>
          if 200 \<le> code \<and> code < 300 then (''reachable'', True, None)
          else (''degraded'', False, Some (''health check returned '' @ dec_nat code)))"

text \<open>What \<open>StartAttestationSession\<close> and \<open>PollAttestation\<close> make of a reply.\<close>

definition decode_reply :: "'v exchange \<Rightarrow> hosted_error + 'v" where
  "decode_reply x =
     (case x of
        NoReply \<Rightarrow> Inl TransportError
      | Reply code body v \<Rightarrow>
          if code < 200 \<or> 300 \<le> code then Inl (HostedStatus code (trim_space body))
          else (case v of None \<Rightarrow> Inl BadResponseBody | Some r \<Rightarrow> Inr r))"

definition poll_interval_seconds :: "session_start \<Rightarrow> i64" where
  "poll_interval_seconds s = (if sint (ss_poll_interval s) < 1 then 2 else ss_poll_interval s)"

text \<open>What the polling loop wakes up for: the context ends, or a tick with the reply to its poll.\<close>

datatype wakeup = CtxDone | Tick "poll_response exchange"

definition accept_approved ::
  "att_crypto \<Rightarrow> session_start \<Rightarrow> string \<Rightarrow> time \<Rightarrow> poll_response \<Rightarrow> hosted_error + identity_attestation" where
  "accept_approved cr session expected now r =
     (case po_attestation r of
        None \<Rightarrow> Inl ApprovedWithoutAttestation
      | Some a \<Rightarrow>
          let issuer0 = trim_space (ss_issuer session);
              issuer = (if issuer0 = [] then expected else issuer0)
          in if trim_space (ia_issuer a) \<noteq> issuer then Inl IssuerMismatch
             else (case verify_stored_attestation cr a now of Inl e \<Rightarrow> Inl e | Inr _ \<Rightarrow> Inr a))"

text \<open>The loop over its wake-ups; \<open>None\<close> while it is still waiting after the last of them.\<close>

fun poll_loop ::
  "att_crypto \<Rightarrow> session_start \<Rightarrow> string \<Rightarrow> time \<Rightarrow> wakeup list \<Rightarrow> (hosted_error + identity_attestation) option" where
  "poll_loop cr session expected now [] = None"
| "poll_loop cr session expected now (CtxDone # ws) = Some (Inl ContextDone)"
| "poll_loop cr session expected now (Tick x # ws) =
     (case decode_reply x of
        Inl e \<Rightarrow> Some (Inl e)
      | Inr r \<Rightarrow>
          if po_status r = ''pending'' then poll_loop cr session expected now ws
          else if po_status r = ''approved'' then Some (accept_approved cr session expected now r)
          else if po_status r = ''denied'' then Some (Inl (SessionDenied (po_error r)))
          else if po_status r = ''expired'' then Some (Inl (SessionExpired (po_error r)))
          else Some (Inl (UnexpectedStatus (po_status r))))"

definition complete_hosted_attestation ::
  "att_crypto \<Rightarrow> session_start exchange \<Rightarrow> string \<Rightarrow> time \<Rightarrow> wakeup list \<Rightarrow> (hosted_error + identity_attestation) option" where
  "complete_hosted_attestation cr start expected now ws =
     (case decode_reply start of
        Inl e \<Rightarrow> Some (Inl e)
      | Inr session \<Rightarrow> poll_loop cr session expected now ws)"

subsection \<open>Smoke check\<close>

record smoke_report =
  sm_url :: string
  sm_health :: string
  sm_session_id :: string
  sm_poll_status :: string
  sm_key_env :: string
  sm_key_loaded :: bool

definition verify_smoke_public_key_env :: "att_crypto \<Rightarrow> string \<Rightarrow> hosted_error + string" where
  "verify_smoke_public_key_env cr kid =
     public_key_from_env cr (if trim_space kid = [] then ''hosted-ed25519-v1'' else kid)"

definition smoke ::
  "att_crypto \<Rightarrow> string \<Rightarrow> string \<Rightarrow> unit exchange \<Rightarrow> session_start exchange \<Rightarrow> poll_response exchange
     \<Rightarrow> smoke_report \<times> hosted_error option" where
  "smoke cr configured kid0 health start poll =
     (let kid = (if trim_space kid0 = [] then ''hosted-ed25519-v1'' else kid0);
          r0 = \<lparr>sm_url = base_url (ac_getenv cr) configured, sm_health = fst (hosted_status health), sm_session_id = [],
                sm_poll_status = [], sm_key_env = public_key_env_name kid,
                sm_key_loaded = (case verify_smoke_public_key_env cr kid of Inl _ \<Rightarrow> False | Inr _ \<Rightarrow> True)\<rparr>
      in if sm_health r0 \<noteq> ''reachable'' then (r0, Some (NotReachable (sm_health r0)))
         else case decode_reply start of
           Inl e \<Rightarrow> (r0, Some e)
         | Inr session \<Rightarrow>
             if trim_space (ss_session_id session) = [] then (r0, Some MissingSessionId)
             else let r1 = r0\<lparr>sm_session_id := ss_session_id session\<rparr> in
               (case decode_reply poll of
                  Inl e \<Rightarrow> (r1, Some e)
                | Inr p \<Rightarrow>
                    let r2 = r1\<lparr>sm_poll_status := po_status p\<rparr>
                    in if po_status p \<noteq> ''pending'' then (r2, Some (NotPending (po_status p))) else (r2, None)))"

subsection \<open>The acting subject (identity/ck.go)\<close>

datatype identity_error = SubRequired | WhoamiFailed | NoSubjectInOutput

definition ck_class :: "char \<Rightarrow> bool" where
  "ck_class c \<longleftrightarrow> is_alnum c \<or> c = CHR ''_'' \<or> c = CHR ''-''"

text \<open>The leftmost match of \<open>ck_sub_[A-Za-z0-9_-]+\<close>.\<close>

fun find_ck_subject :: "string \<Rightarrow> string" where
  "find_ck_subject [] = []"
| "find_ck_subject (c # s) =
     (if has_prefix (c # s) ''ck_sub_'' \<and> takeWhile ck_class (drop 7 (c # s)) \<noteq> []
      then ''ck_sub_'' @ takeWhile ck_class (drop 7 (c # s))
      else find_ck_subject s)"

definition resolve_subject :: "string \<Rightarrow> bool \<Rightarrow> string option \<Rightarrow> identity_error + string" where
  "resolve_subject explicit0 use_ck whoami =
     (let explicit = trim_space explicit0 in
      if explicit \<noteq> [] then Inr explicit
      else if \<not> use_ck then Inl SubRequired
      else case whoami of
        None \<Rightarrow> Inl WhoamiFailed
      | Some out \<Rightarrow> if find_ck_subject out = [] then Inl NoSubjectInOutput else Inr (find_ck_subject out))"

subsection \<open>Lemmas\<close>

definition pending_tick :: "wakeup \<Rightarrow> bool" where
  "pending_tick w \<longleftrightarrow> (\<exists>x r. w = Tick x \<and> decode_reply x = Inr r \<and> po_status r = ''pending'')"

lemma poll_loop_pending:
  "list_all pending_tick ws \<Longrightarrow> poll_loop cr s e now (ws @ vs) = poll_loop cr s e now vs"
  by (induction ws) (auto simp: pending_tick_def)

lemma poll_loop_waiting: "poll_loop cr s e now ws = None \<longleftrightarrow> list_all pending_tick ws"
proof (induction ws)
  case (Cons w ws)
  then show ?case by (cases w) (auto simp: pending_tick_def split: sum.splits)
qed simp

lemma poll_loop_accepts:
  "poll_loop cr s e now ws = Some (Inr a) \<longleftrightarrow>
     (\<exists>us x r vs. ws = us @ Tick x # vs \<and> list_all pending_tick us \<and> decode_reply x = Inr r
        \<and> po_status r = ''approved'' \<and> accept_approved cr s e now r = Inr a)"
proof
  assume "poll_loop cr s e now ws = Some (Inr a)"
  then show "\<exists>us x r vs. ws = us @ Tick x # vs \<and> list_all pending_tick us \<and> decode_reply x = Inr r
        \<and> po_status r = ''approved'' \<and> accept_approved cr s e now r = Inr a"
  proof (induction ws)
    case (Cons w ws)
    show ?case
    proof (cases "pending_tick w")
      case True
      then have "poll_loop cr s e now ws = Some (Inr a)" using Cons.prems by (auto simp: pending_tick_def)
      then obtain us x r vs where "ws = us @ Tick x # vs" "list_all pending_tick us" "decode_reply x = Inr r"
        "po_status r = ''approved''" "accept_approved cr s e now r = Inr a" using Cons.IH by blast
      then show ?thesis using True by (intro exI [of _ "w # us"]) auto
    next
      case False
      then obtain x r where "w = Tick x" "decode_reply x = Inr r" "po_status r = ''approved''"
        "accept_approved cr s e now r = Inr a"
        using Cons.prems by (cases w) (auto simp: pending_tick_def split: sum.splits if_splits)
      then show ?thesis by (intro exI [of _ "[]"]) auto
    qed
  qed simp
qed (auto simp: poll_loop_pending)

lemma verify_stored_iff:
  "verify_stored_attestation cr a now = Inr () \<longleftrightarrow>
     (\<exists>host pub. trim_space (ia_issuer a) \<noteq> [] \<and> ac_url cr (trim_space (ia_issuer a)) = Some (''https'', host) \<and> host \<noteq> []
        \<and> public_key_from_env cr (ia_key_id a) = Inr pub
        \<and> verify_identity_attestation (ac_marshal cr) (ac_verify cr) a pub (trim_space (ia_issuer a)) now = Inr ())"
  by (auto simp: verify_stored_attestation_def Let_def split: option.splits sum.splits)

subsection \<open>Properties\<close>

text \<open>
  The hosted attestation flow returns an attestation only when the session started, every earlier
  poll answered \<open>pending\<close>, and the poll that answered \<open>approved\<close> carried one whose trimmed issuer
  is the session's (or the expected) issuer, an https URL with a host, and which verifies under the
  public key pinned in the environment for its key id; it never returns while only pending answers came.
\<close>

theorem hosted_attestation_sound:
  assumes "complete_hosted_attestation cr start expected now ws = Some (Inr a)"
  shows "\<exists>session us x r vs host pub payload sig.
     decode_reply start = Inr session \<and> ws = us @ Tick x # vs \<and> list_all pending_tick us
     \<and> decode_reply x = Inr r \<and> po_status r = ''approved'' \<and> po_attestation r = Some a
     \<and> trim_space (ia_issuer a) = (if trim_space (ss_issuer session) = [] then expected else trim_space (ss_issuer session))
     \<and> ac_url cr (ia_issuer a) = Some (''https'', host) \<and> host \<noteq> []
     \<and> public_key_from_env cr (ia_key_id a) = Inr pub
     \<and> ac_marshal cr (signable_attestation_of a) = Some payload
     \<and> raw_url_decode (ia_signature a) = Some sig \<and> ac_verify cr pub payload sig"
proof -
  obtain session where s: "decode_reply start = Inr session" and p: "poll_loop cr session expected now ws = Some (Inr a)"
    using assms by (auto simp: complete_hosted_attestation_def split: sum.splits)
  obtain us x r vs where w: "ws = us @ Tick x # vs" "list_all pending_tick us" "decode_reply x = Inr r"
    "po_status r = ''approved''" "accept_approved cr session expected now r = Inr a"
    using p unfolding poll_loop_accepts by blast
  have r: "po_attestation r = Some a" "verify_stored_attestation cr a now = Inr ()"
    "trim_space (ia_issuer a) = (if trim_space (ss_issuer session) = [] then expected else trim_space (ss_issuer session))"
    using w(5) by (auto simp: accept_approved_def Let_def split: option.splits if_splits sum.splits)
  obtain host pub where v: "ac_url cr (trim_space (ia_issuer a)) = Some (''https'', host)" "host \<noteq> []"
    "public_key_from_env cr (ia_key_id a) = Inr pub"
    "verify_identity_attestation (ac_marshal cr) (ac_verify cr) a pub (trim_space (ia_issuer a)) now = Inr ()"
    using r(2) unfolding verify_stored_iff by blast
  have i: "ia_issuer a = trim_space (ia_issuer a)" using v(4) unfolding verify_attestation_iff by blast
  obtain payload sig where g: "ac_marshal cr (signable_attestation_of a) = Some payload"
     "raw_url_decode (ia_signature a) = Some sig" "ac_verify cr pub payload sig"
    using v(4) unfolding verify_attestation_iff by blast
  have "ac_url cr (ia_issuer a) = Some (''https'', host)" using v(1) i by simp
  then show ?thesis using s w r v(2,3) g by blast
qed

definition sample_crypto :: "att_crypto" where
  "sample_crypto = \<lparr>ac_marshal = (\<lambda>a. Some (sa_id a)), ac_verify = (\<lambda>k m s. s = m), ac_spki = (\<lambda>b. Some b),
     ac_url = (\<lambda>u. Some (''https'', u)), ac_getenv = (\<lambda>n. ''UFVC'')\<rparr>"

definition sample_attestation :: identity_attestation where
  "sample_attestation = \<lparr>ia_id = ''att'', ia_subject = ''ck:bob'', ia_issuer = ''iss'', ia_audience = ''21pins'',
     ia_method = ''hosted_ck'', ia_issued_at = 0, ia_expires_at = 100, ia_key_id = ''k'', ia_signature = ''YXR0''\<rparr>"

lemma sample_attestation_verifies: "verify_stored_attestation sample_crypto sample_attestation 50 = Inr ()"
  by code_simp

lemma hosted_attestation_sound_witness:
  "complete_hosted_attestation sample_crypto
       (Reply 200 [] (Some \<lparr>ss_session_id = ''s'', ss_verification_url = [], ss_user_code = ''c'', ss_expires_at = [],
          ss_poll_interval = 0, ss_issuer = ''iss''\<rparr>)) [] 50
       [Tick (Reply 200 [] (Some \<lparr>po_status = ''pending'', po_attestation = None, po_error = []\<rparr>)),
        Tick (Reply 200 [] (Some \<lparr>po_status = ''approved'', po_attestation = Some sample_attestation, po_error = []\<rparr>))]
       = Some (Inr sample_attestation)
     \<and> (\<exists>host. ac_url sample_crypto (ia_issuer sample_attestation) = Some (''https'', host) \<and> host \<noteq> [])"
proof -
  let ?start = "Reply 200 [] (Some \<lparr>ss_session_id = ''s'', ss_verification_url = [], ss_user_code = ''c'', ss_expires_at = [],
          ss_poll_interval = 0, ss_issuer = ''iss''\<rparr>)"
  let ?ws = "[Tick (Reply 200 [] (Some \<lparr>po_status = ''pending'', po_attestation = None, po_error = []\<rparr>)),
        Tick (Reply 200 [] (Some \<lparr>po_status = ''approved'', po_attestation = Some sample_attestation, po_error = []\<rparr>))]"
  have t: "trim_space ''iss'' = ''iss''" by code_simp
  have c: "complete_hosted_attestation sample_crypto ?start [] 50 ?ws = Some (Inr sample_attestation)"
    using sample_attestation_verifies
    by (simp add: complete_hosted_attestation_def decode_reply_def accept_approved_def t) (simp add: sample_attestation_def t)
  have "\<exists>host. ac_url sample_crypto (ia_issuer sample_attestation) = Some (''https'', host) \<and> host \<noteq> []"
    using hosted_attestation_sound [OF c] by (elim exE conjE) (intro exI conjI)
  then show ?thesis using c by simp
qed

text \<open>
  The acting subject: an explicit one wins whatever the rest; otherwise, only when asked to use
  ConsentKeys, the answer is a \<open>ck_sub_\<close> identifier that occurs in the tool's output, and there is an
  error when it occurs nowhere.
\<close>

theorem resolve_subject_spec:
  "(trim_space explicit \<noteq> [] \<longrightarrow> resolve_subject explicit use_ck whoami = Inr (trim_space explicit))
   \<and> (trim_space explicit = [] \<and> use_ck \<and> whoami = Some out \<longrightarrow>
        (case resolve_subject explicit use_ck whoami of
           Inr sub \<Rightarrow> (\<exists>us vs x. out = us @ sub @ vs \<and> sub = ''ck_sub_'' @ x \<and> x \<noteq> [] \<and> list_all ck_class x)
         | Inl e \<Rightarrow> (\<nexists>us vs c. out = us @ ''ck_sub_'' @ c # vs \<and> ck_class c)))
   \<and> (trim_space explicit = [] \<and> (\<not> use_ck \<or> whoami = None) \<longrightarrow> (\<exists>e. resolve_subject explicit use_ck whoami = Inl e))"
proof -
  have found: "\<exists>us vs x. s = us @ find_ck_subject s @ vs \<and> find_ck_subject s = ''ck_sub_'' @ x \<and> x \<noteq> [] \<and> list_all ck_class x"
    if "find_ck_subject s \<noteq> []" for s
    using that
  proof (induction s)
    case (Cons c s)
    let ?t = "takeWhile ck_class (drop 7 (c # s))"
    show ?case
    proof (cases "has_prefix (c # s) ''ck_sub_'' \<and> ?t \<noteq> []")
      case True
      then obtain q where q: "c # s = ''ck_sub_'' @ q" by (auto simp: has_prefix_iff)
      have f: "find_ck_subject (c # s) = ''ck_sub_'' @ ?t" using True by simp
      have "c # s = [] @ find_ck_subject (c # s) @ dropWhile ck_class q"
        unfolding f using q by simp
      moreover have "list_all ck_class ?t" by (auto simp: list_all_iff dest: set_takeWhileD)
      ultimately show ?thesis using f True by blast
    next
      case False
      then have f: "find_ck_subject (c # s) = find_ck_subject s" by auto
      then obtain us vs x where "s = us @ find_ck_subject s @ vs" "find_ck_subject s = ''ck_sub_'' @ x" "x \<noteq> []" "list_all ck_class x"
        using Cons by metis
      then show ?thesis unfolding f by (intro exI [of _ "c # us"] exI [of _ vs] exI [of _ x]) simp
    qed
  qed simp
  have none: "\<not> ck_class c" if "find_ck_subject s = []" "s = us @ ''ck_sub_'' @ c # vs" for s us c vs
    using that
  proof (induction s arbitrary: us)
    case (Cons d s)
    show ?case
    proof (cases us)
      case Nil
      then show ?thesis using Cons.prems by (auto split: if_splits)
    next
      case (Cons u us')
      have "find_ck_subject s = []" using Cons.prems(1) by (auto split: if_splits)
      then show ?thesis using Cons.IH [of us'] Cons.prems(2) Cons by simp
    qed
  qed simp
  show ?thesis
    using found [of out] none [of out] by (auto simp: resolve_subject_def Let_def split: option.splits)
qed

lemma resolve_subject_spec_witness:
  "resolve_subject '' alice '' True None = Inr ''alice''"
proof -
  have "trim_space '' alice '' = ''alice''" by code_simp
  then show ?thesis using resolve_subject_spec [of "'' alice ''" True None "[]"] by simp
qed

end
