(* ===== verification/Gateway.thy ===== *)
theory Gateway
  imports Hosted
begin

text \<open>
  Package \<open>internal/gateway\<close>: authentication, policy enforcement, routing to providers, usage
  accounting and the usage endpoints (\<open>server.go\<close>, \<open>model.go\<close>).

  A handler takes the \<open>world\<close> of the request (clock readings, random bytes, the outcome of
  the system calls of each store operation by its number in the handler, the codecs, the crypto,
  the provider's answer) and the store, and yields the reply, the requests sent upstream and the
  new store. Header names are canonical, paths are clean (\<open>ServeMux\<close> redirects others).
\<close>

subsection \<open>Configuration\<close>

record config =
  c_ssh_dir :: string
  c_host :: string
  c_port :: int
  c_openai :: string
  c_openrouter :: string
  c_ollama :: string
  c_anthropic :: string
  c_deepseek :: string
  c_gemini :: string
  c_venice :: string
  c_hetzner :: string
  c_trymaple :: string

definition or_default :: "string \<Rightarrow> string \<Rightarrow> string" where
  "or_default v d = (if v = [] then d else v)"

definition server_config :: "config \<Rightarrow> config" where
  "server_config cfg = cfg
     \<lparr>c_openai := or_default (c_openai cfg) ''https://api.openai.com'',
      c_openrouter := or_default (c_openrouter cfg) ''https://openrouter.ai'',
      c_ollama := or_default (c_ollama cfg) ''http://127.0.0.1:11434'',
      c_anthropic := or_default (c_anthropic cfg) ''https://api.anthropic.com'',
      c_deepseek := or_default (c_deepseek cfg) ''https://api.deepseek.com'',
      c_gemini := or_default (c_gemini cfg) ''https://generativelanguage.googleapis.com'',
      c_venice := or_default (c_venice cfg) ''https://api.venice.ai'',
      c_hetzner := or_default (c_hetzner cfg) ''https://inference.hetzner.com'',
      c_trymaple := or_default (c_trymaple cfg) ''http://127.0.0.1:8080''\<rparr>"

definition listen_addr :: "config \<Rightarrow> string" where
  "listen_addr cfg =
     (let host = trim_space (c_host cfg) in
      (if host = [] then ''127.0.0.1'' else host) @ '':'' @ dec_int (if c_port cfg = 0 then 8787 else c_port cfg))"

definition provider_base :: "config \<Rightarrow> string \<Rightarrow> string option" where
  "provider_base cfg provider =
     (if provider = ''openai'' then Some (c_openai cfg)
      else if provider = ''openrouter'' then Some (c_openrouter cfg)
      else if provider = ''ollama'' then Some (c_ollama cfg)
      else if provider = ''anthropic'' then Some (c_anthropic cfg)
      else if provider = ''deepseek'' then Some (c_deepseek cfg)
      else if provider = ''gemini'' then Some (c_gemini cfg)
      else if provider = ''venice'' then Some (c_venice cfg)
      else if provider = ''hetzner'' then Some (c_hetzner cfg)
      else if provider = ''trymaple'' then Some (c_trymaple cfg)
      else None)"

definition no_slash :: "string \<Rightarrow> string" where
  "no_slash s = trim_right_char (CHR ''/'') s"

definition chat_target :: "config \<Rightarrow> string \<Rightarrow> string option" where
  "chat_target cfg provider =
     (if provider = ''openai'' then Some (no_slash (c_openai cfg) @ ''/v1/chat/completions'')
      else if provider = ''openrouter'' then Some (no_slash (c_openrouter cfg) @ ''/api/v1/chat/completions'')
      else if provider = ''deepseek'' then Some (no_slash (c_deepseek cfg) @ ''/v1/chat/completions'')
      else if provider = ''ollama'' then Some (no_slash (c_ollama cfg) @ ''/v1/chat/completions'')
      else if provider = ''venice'' then Some (no_slash (c_venice cfg) @ ''/api/v1/chat/completions'')
      else if provider = ''hetzner'' then Some (no_slash (c_hetzner cfg) @ ''/api/v1/chat/completions'')
      else if provider = ''trymaple'' then Some (no_slash (c_trymaple cfg) @ ''/v1/chat/completions'')
      else None)"

subsection \<open>Requests, replies and the world\<close>

record request =
  rq_method :: string
  rq_path :: string
  rq_query :: string
  rq_remote :: string
  rq_header :: "string \<Rightarrow> string"
  rq_body :: string
  rq_body_err :: bool

record upstream_request =
  up_target :: string
  up_method :: string
  up_headers :: "(string \<times> string) list"
  up_body :: string

record upstream_response =
  rs_status :: nat
  rs_header :: "string \<Rightarrow> string"
  rs_body :: string

text \<open>
  What handing a request to \<open>http.DefaultClient\<close> yields: no response, or one whose body is read to
  its end or breaks off. A redirect that the client follows is inside this outcome: the further
  requests are the library's, and are not in the list of requests that the gateway sends.
\<close>

datatype upstream = UpError | UpOk upstream_response | UpBroken upstream_response

datatype reply =
    NoContentReply
  | ErrorReply nat string
  | DeniedReply nat evaluation_result string "(string \<times> string) list"
  | ForwardReply upstream_response
  | JsonReply nat string
  | UsageReply "(string \<times> i64) list" "usage_event list"
  | HtmlReply

record 'f world =
  w_clk :: "nat \<Rightarrow> time"
  w_rnd :: "nat \<Rightarrow> string"
  w_io :: "nat \<Rightarrow> io"
  w_gen :: "(string \<times> string) option"
  w_sha :: "string \<Rightarrow> string"
  w_att :: att_crypto
  w_receipt_marshal :: "signable_receipt \<Rightarrow> string option"
  w_sign :: "string \<Rightarrow> string \<Rightarrow> string"
  w_unmarshal :: "string \<Rightarrow> (string \<times> 'f json) list option"
  w_marshal :: "(string \<times> 'f json) list \<Rightarrow> string"
  w_usage :: "string \<Rightarrow> 'f chat_usage_envelope option"
  w_floats :: "'f float_ops"
  w_escape :: "string \<Rightarrow> string"
  w_loopback :: "string \<Rightarrow> bool"
  w_upstream :: "upstream_request \<Rightarrow> upstream"

subsection \<open>Tokens and models\<close>

definition bearer_token :: "string \<Rightarrow> string" where
  "bearer_token header0 =
     (let header = trim_space header0 in
      if header = [] then []
      else if has_prefix (to_lower header) (to_lower ''Bearer '') then trim_space (drop 7 header)
      else [])"

datatype model_error = ModelRequired | ModelFormat

definition split_provider_model :: "string \<Rightarrow> model_error + string \<times> string" where
  "split_provider_model model =
     (let trimmed = trim_space model in
      if trimmed = [] then Inl ModelRequired
      else case split_2 (CHR ''/'') trimmed of
        (p, None) \<Rightarrow> Inl ModelFormat
      | (p, Some m) \<Rightarrow>
          if trim_space p = [] \<or> trim_space m = [] then Inl ModelFormat
          else Inr (fst (canonical_provider p), trim_space m))"

definition model_error_text :: "model_error \<Rightarrow> string" where
  "model_error_text e =
     (case e of ModelRequired \<Rightarrow> ''model is required'' | ModelFormat \<Rightarrow> ''model must be in provider/model format'')"

definition with_auth ::
  "'f world \<Rightarrow> string \<Rightarrow> request \<Rightarrow> (store \<Rightarrow> reply \<times> upstream_request list \<times> store)
     \<Rightarrow> store \<Rightarrow> reply \<times> upstream_request list \<times> store" where
  "with_auth w scope r next s =
     (if rq_method r = ''OPTIONS'' then (NoContentReply, [], s)
      else case validate_token (w_sha w) (w_io w 0) (w_clk w 0) (bearer_token (rq_header r ''Authorization'')) scope s of
        (False, s1) \<Rightarrow> (ErrorReply 401 ''invalid token'', [], s1)
      | (True, s1) \<Rightarrow> next s1)"

subsection \<open>Policy enforcement\<close>

definition empty_receipt :: receipt where
  "empty_receipt = \<lparr>r_id = [], r_grant_id = [], r_sub = [], r_authority = [], r_pin_states = [],
     r_decision = DecisionOther [], r_capability = [], r_data_class = [], r_target = [], r_cost = 0,
     r_approval_ref = [], r_attestation_id = [], r_created_at = zero_time, r_key_id = [], r_signature = []\<rparr>"

datatype policy_header = NoGrantHeader | BadPolicyHeaders string | PolicyHeaders action_request

text \<open>The headers of a policy request, read before the store is touched.\<close>

definition read_policy_headers :: "(string \<Rightarrow> string) \<Rightarrow> string \<Rightarrow> policy_header" where
  "read_policy_headers h target =
     (let gid = trim_space (h ''X-21Pins-Grant-ID'');
          sub = trim_space (h ''X-21Pins-Sub'');
          cap = trim_space (h ''X-21Pins-Capability'');
          dc = trim_space (h ''X-21Pins-Data-Class'');
          raw = trim_space (h ''X-21Pins-Cost-Cents'');
          req = (\<lambda>cost. \<lparr>req_grant_id = gid, req_sub = sub, req_capability = cap, req_data_class = dc,
                         req_target = target, req_cost = cost,
                         req_approval_id = trim_space (h ''X-21Pins-Approval-ID''), req_approval_granted = False\<rparr>)
      in if gid = [] then NoGrantHeader
         else if sub = [] \<or> cap = [] \<or> dc = [] then BadPolicyHeaders ''policy headers required''
         else if raw = [] then PolicyHeaders (req 0)
         else case parse_int64 raw of
           None \<Rightarrow> BadPolicyHeaders ''invalid X-21Pins-Cost-Cents''
         | Some v \<Rightarrow> if v < 0 then BadPolicyHeaders ''invalid X-21Pins-Cost-Cents''
             else PolicyHeaders (req (word_of_int v)))"

definition approval_matches :: "approval_request \<Rightarrow> action_request \<Rightarrow> bool" where
  "approval_matches a q \<longleftrightarrow> a_status a = ApprovalApproved \<and> a_grant_id a = req_grant_id q \<and> a_sub a = req_sub q
     \<and> a_capability a = req_capability q \<and> a_data_class a = req_data_class q \<and> a_target a = req_target q
     \<and> a_cost a = req_cost q"

definition check_approval :: "'f world \<Rightarrow> action_request \<Rightarrow> state \<Rightarrow> string + bool" where
  "check_approval w q st =
     (if req_approval_id q = [] then Inr False
      else case get_approval (req_approval_id q) st of
        Inl _ \<Rightarrow> Inl ''approval does not match policy request''
      | Inr a \<Rightarrow>
          if \<not> approval_matches a q then Inl ''approval does not match policy request''
          else case a_approver_attestation a of
            None \<Rightarrow> Inl ''approval missing approver attestation''
          | Some att \<Rightarrow>
              if ia_subject att \<noteq> a_approver_sub a then Inl ''approval missing approver attestation''
              else (case verify_stored_attestation (w_att w) att (w_clk w 1) of
                 Inl _ \<Rightarrow> Inl ''invalid approver attestation''
               | Inr _ \<Rightarrow> Inr True))"

definition link_header :: string where
  \<open>link_header = ''</v1/usage>; rel="usage", </v1/chat/completions>; rel="payment"''\<close>

definition denied_reply :: "evaluation_result \<Rightarrow> string \<Rightarrow> reply" where
  "denied_reply res rid =
     (if er_decision res = DecisionRequireApproval then DeniedReply 428 res rid []
      else if map_of (er_pin_states res) ''spend_policy'' = Some PinFail
              \<and> map_of (er_reasons res) ''spend_policy'' = Some ''budget exceeded''
      then DeniedReply 402 res rid
             [(''Link'', link_header), (''X-21Pins-Payment-Reason'', ''budget_exceeded'')]
      else DeniedReply 403 res rid [])"

definition sign_or_keep :: "'f world \<Rightarrow> (store_error + string \<times> string \<times> string) \<Rightarrow> receipt \<Rightarrow> receipt" where
  "sign_or_keep w keys r =
     (case keys of
        Inl _ \<Rightarrow> r
      | Inr (pub, priv, kid) \<Rightarrow>
          (case sign_receipt (w_receipt_marshal w) (w_sign w) r priv kid of Inl _ \<Rightarrow> empty_receipt | Inr r' \<Rightarrow> r'))"

text \<open>\<open>Inr\<close> is the receipt id of an allowed request, empty when no grant was named.\<close>

definition enforce_policy :: "'f world \<Rightarrow> (string \<Rightarrow> string) \<Rightarrow> string \<Rightarrow> store \<Rightarrow> (reply + string) \<times> store" where
  "enforce_policy w h target s =
     (case read_policy_headers h target of
        NoGrantHeader \<Rightarrow> (Inr [], s)
      | BadPolicyHeaders msg \<Rightarrow> (Inl (ErrorReply 400 msg), s)
      | PolicyHeaders q0 \<Rightarrow>
          (case get_grant (req_grant_id q0) (mem s) of
             Inl _ \<Rightarrow> (Inl (ErrorReply 403 ''grant not found''), s)
           | Inr g \<Rightarrow>
               (case check_approval w q0 (mem s) of
                  Inl msg \<Rightarrow> (Inl (ErrorReply 403 msg), s)
                | Inr granted \<Rightarrow>
                    let q = q0\<lparr>req_approval_granted := granted\<rparr>;
                        now = w_clk w 2;
                        res = evaluate_action g q now;
                        r0 = new_receipt (new_id ''rcp'' (w_rnd w 0)) g q res now;
                        r1 = (if req_approval_id q \<noteq> [] then r0\<lparr>r_approval_ref := req_approval_id q\<rparr> else r0)
                    in (case signing_keypair (w_io w 1) (w_gen w) s of
                       (keys, s1) \<Rightarrow>
                         let r2 = sign_or_keep w keys r1;
                             s2 = snd (add_receipt r2 (w_io w 2) s1)
                         in if er_decision res = DecisionAllow then
                              (Inr (r_id r2),
                               if 0 <s req_cost q
                               then snd (add_grant_spend (w_clk w 3) (req_grant_id q) (req_cost q) (w_io w 3) s2)
                               else s2)
                            else (Inl (denied_reply res (r_id r2)), s2)))))"

subsection \<open>Forwarding\<close>

text \<open>
  \<open>providerRequest\<close>: no request without a key, except to the two local providers. The header
  list holds what \<open>req.Header.Set\<close> sets.
\<close>

definition auth_headers :: "string \<Rightarrow> string \<Rightarrow> (string \<times> string) list" where
  "auth_headers provider key =
     (if provider \<in> set [''openai'', ''openrouter'', ''deepseek'', ''venice'', ''hetzner'']
      then [(''Authorization'', ''Bearer '' @ key)]
      else if provider = ''trymaple'' then (if key \<noteq> [] then [(''Authorization'', ''Bearer '' @ key)] else [])
      else if provider = ''anthropic''
      then [(''x-api-key'', key), (''anthropic-version'', ''2023-06-01'')]
      else [])"

definition provider_request ::
  "string \<Rightarrow> string \<Rightarrow> string \<Rightarrow> (string \<Rightarrow> string) \<Rightarrow> string \<Rightarrow> state \<Rightarrow> string + upstream_request" where
  "provider_request provider target method incoming body st =
     (let key = get_provider_key provider st in
      if key = [] \<and> provider \<noteq> ''ollama'' \<and> provider \<noteq> ''trymaple''
      then Inl (''no API key configured for provider '' @ provider)
      else Inr \<lparr>up_target = target, up_method = method,
                up_headers = (''Content-Type'', incoming ''Content-Type'') # auth_headers provider key, up_body = body\<rparr>)"

datatype forwarded = NotSent string | SendFailed upstream_request | Buffered upstream_request upstream_response

definition forward_buffered ::
  "'f world \<Rightarrow> string \<Rightarrow> string \<Rightarrow> string \<Rightarrow> (string \<Rightarrow> string) \<Rightarrow> string \<Rightarrow> state \<Rightarrow> forwarded" where
  "forward_buffered w provider target method incoming body st =
     (case provider_request provider target method incoming body st of
        Inl e \<Rightarrow> NotSent e
      | Inr q \<Rightarrow>
          (case w_upstream w q of UpError \<Rightarrow> SendFailed q | UpBroken _ \<Rightarrow> SendFailed q | UpOk resp \<Rightarrow> Buffered q resp))"

definition sent_requests :: "forwarded \<Rightarrow> upstream_request list" where
  "sent_requests f = (case f of NotSent _ \<Rightarrow> [] | SendFailed q \<Rightarrow> [q] | Buffered q _ \<Rightarrow> [q])"

subsection \<open>Usage accounting\<close>

definition catalog_usage_price :: "string \<Rightarrow> string \<Rightarrow> state \<Rightarrow> price option" where
  "catalog_usage_price provider model st =
     (case get_model_catalog provider st of
        None \<Rightarrow> None
      | Some c \<Rightarrow>
          map_option (\<lambda>m. \<lparr>pr_prompt = pm_prompt_price m, pr_completion = pm_completion_price m,
                           pr_source = pm_pricing_source m\<rparr>)
            (find (\<lambda>m. pm_id m = model \<and> 0 <s pm_prompt_price m \<and> 0 <s pm_completion_price m) (mc_models c)))"

definition source_for_token_name :: "string \<Rightarrow> string" where
  "source_for_token_name name0 =
     (let name = trim_space name0 in
      if equal_fold name ''pi'' then ''pi'' else if name \<noteq> [] then name else ''api'')"

definition response_cost :: "string \<Rightarrow> string \<Rightarrow> parsed_usage \<Rightarrow> state \<Rightarrow> cost_estimate" where
  "response_cost provider model p st =
     (let unknown = \<lparr>ce_micros = 0, ce_source = ''unknown'', ce_currency = ''USD''\<rparr> in
      if pu_warning p \<noteq> [] \<and> pu_prompt p = 0 \<and> pu_completion p = 0 \<and> pu_total p = 0 then unknown
      else if 0 <s pu_cost_micros p
      then \<lparr>ce_micros = pu_cost_micros p, ce_source = pu_cost_source p, ce_currency = ''USD''\<rparr>
      else if provider = ''openrouter''
      then estimate_openrouter_cost model (pu_prompt p) (pu_completion p) (catalog_usage_price ''openrouter'' model st)
      else case catalog_usage_price provider model st of
        Some pr \<Rightarrow> \<lparr>ce_micros = cost_micros (pu_prompt p) (pu_completion p) pr, ce_source = pr_source pr, ce_currency = ''USD''\<rparr>
      | None \<Rightarrow> unknown)"

definition record_provider_usage ::
  "'f world \<Rightarrow> request \<Rightarrow> upstream_response \<Rightarrow> string \<Rightarrow> string \<Rightarrow> string \<Rightarrow> string \<Rightarrow> store \<Rightarrow> store" where
  "record_provider_usage w r resp provider requested provider_model rid s =
     (let (p0, ok) = (if contains_sub (to_lower (rs_header resp ''Content-Type'')) ''text/event-stream''
                      then parse_sse_usage (w_floats w) (w_usage w) (rs_body resp)
                      else parse_chat_usage (w_floats w) (w_usage w) (rs_body resp));
          p = (if ok then p0 else empty_usage\<lparr>pu_model := provider_model, pu_warning := ''usage_unparseable''\<rparr>);
          model = (if pu_model p = [] then provider_model else pu_model p);
          cost = response_cost provider model p (mem s);
          (tok, s1) = validate_token_record (w_sha w) (w_io w 4) (w_clk w 4)
                        (bearer_token (rq_header r ''Authorization'')) ''proxy:chat'' s;
          name = (case tok of None \<Rightarrow> [] | Some t \<Rightarrow> t_name t)
      in snd (add_usage_event (w_clk w 5) (w_rnd w 1)
           \<lparr>ue_id = [], ue_created_at = w_clk w 5, ue_source = source_for_token_name name, ue_provider = provider,
            ue_model = model, ue_requested_model = requested, ue_app_token_name = name, ue_billing_mode = ''api'',
            ue_prompt_tokens = pu_prompt p, ue_completion_tokens = pu_completion p,
            ue_cache_read_tokens = pu_cache_read p, ue_cache_write_tokens = pu_cache_write p,
            ue_total_tokens = pu_total p, ue_cost_micros = ce_micros cost, ue_currency = ce_currency cost,
            ue_pricing_source = ce_source cost, ue_warning = pu_warning p, ue_request_id = pu_request_id p,
            ue_receipt_id = rid\<rparr> (w_io w 5) s1))"

definition success_status :: "upstream_response \<Rightarrow> bool" where
  "success_status resp \<longleftrightarrow> 200 \<le> rs_status resp \<and> rs_status resp < 300"

subsection \<open>Handlers\<close>

definition apply_venice_defaults :: "(string \<times> 'f json) list \<Rightarrow> (string \<times> 'f json) list" where
  "apply_venice_defaults payload =
     (let p0 = (case map_of payload ''venice_parameters'' of Some (JObj m) \<Rightarrow> m | _ \<Rightarrow> []);
          p1 = (if map_of p0 ''include_venice_system_prompt'' = None
                then AList.update ''include_venice_system_prompt'' (JBool False) p0 else p0);
          p2 = (if map_of p1 ''enable_web_search'' = None
                then AList.update ''enable_web_search'' (JStr ''off'') p1 else p1)
      in AList.update ''venice_parameters'' (JObj p2) payload)"

definition prepare_payload :: "string \<Rightarrow> string \<Rightarrow> (string \<times> 'f json) list \<Rightarrow> (string \<times> 'f json) list \<times> bool" where
  "prepare_payload provider provider_model payload0 =
     (let streaming = (map_of payload0 ''stream'' = Some (JBool True));
          p1 = AList.update ''model'' (JStr provider_model) payload0;
          p2 = (if provider = ''openrouter'' \<and> streaming then merge_stream_options p1 else p1);
          p3 = (if provider = ''venice'' then apply_venice_defaults p2 else p2)
      in (p3, streaming))"

text \<open>After enforcement: send, reply, and account for the answer where the provider is metered.\<close>

definition send_chat ::
  "'f world \<Rightarrow> request \<Rightarrow> string \<Rightarrow> string \<Rightarrow> string \<Rightarrow> string \<Rightarrow> bool \<Rightarrow> string \<Rightarrow> string \<Rightarrow> store
     \<Rightarrow> reply \<times> upstream_request list \<times> store" where
  "send_chat w r provider target requested provider_model streaming body rid s =
     (if provider = ''openrouter'' \<or> provider = ''venice'' then
        (if streaming then
           (case provider_request provider target ''POST'' (rq_header r) body (mem s) of
              Inl e \<Rightarrow> (ErrorReply 502 e, [], s)
            | Inr q \<Rightarrow>
                (case w_upstream w q of
                   UpError \<Rightarrow> (ErrorReply 502 ''upstream'', [q], s)
                 | UpBroken resp \<Rightarrow> (ForwardReply resp, [q], s)
                 | UpOk resp \<Rightarrow> (ForwardReply resp, [q],
                     if success_status resp then record_provider_usage w r resp provider requested provider_model rid s else s)))
         else
           (case forward_buffered w provider target ''POST'' (rq_header r) body (mem s) of
              NotSent e \<Rightarrow> (ErrorReply 502 e, [], s)
            | SendFailed q \<Rightarrow> (ErrorReply 502 ''upstream'', [q], s)
            | Buffered q resp \<Rightarrow> (ForwardReply resp, [q],
                if success_status resp then record_provider_usage w r resp provider requested provider_model rid s else s)))
      else
        (case forward_buffered w provider target ''POST'' (rq_header r) body (mem s) of
           NotSent e \<Rightarrow> (ErrorReply 502 e, [], s)
         | SendFailed q \<Rightarrow> (ErrorReply 502 ''upstream'', [q], s)
         | Buffered q resp \<Rightarrow> (ForwardReply resp, [q], s)))"

definition handle_chat :: "'f world \<Rightarrow> config \<Rightarrow> request \<Rightarrow> store \<Rightarrow> reply \<times> upstream_request list \<times> store" where
  "handle_chat w cfg r s =
     (if rq_method r \<noteq> ''POST'' then (ErrorReply 405 ''method not allowed'', [], s)
      else if rq_body_err r then (ErrorReply 400 ''invalid body'', [], s)
      else case w_unmarshal w (rq_body r) of
        None \<Rightarrow> (ErrorReply 400 ''invalid json'', [], s)
      | Some payload \<Rightarrow>
          let model = (case map_of payload ''model'' of Some (JStr m) \<Rightarrow> m | _ \<Rightarrow> []) in
          (case split_provider_model model of
             Inl e \<Rightarrow> (ErrorReply 400 (model_error_text e), [], s)
           | Inr (provider, provider_model) \<Rightarrow>
               (case chat_target cfg provider of
                  None \<Rightarrow> (ErrorReply 400 ''provider not supported on openai-compatible endpoint'', [], s)
                | Some target \<Rightarrow>
                    (case enforce_policy w (rq_header r) provider s of
                       (Inl rep, s1) \<Rightarrow> (rep, [], s1)
                     | (Inr rid, s1) \<Rightarrow>
                         (case prepare_payload provider provider_model payload of
                            (payload', streaming) \<Rightarrow>
                              send_chat w r provider target model provider_model streaming (w_marshal w payload') rid s1)))))"

definition handle_passthrough :: "'f world \<Rightarrow> config \<Rightarrow> request \<Rightarrow> store \<Rightarrow> reply \<times> upstream_request list \<times> store" where
  "handle_passthrough w cfg r s =
     (case split_2 (CHR ''/'') (trim_prefix (rq_path r) ''/v1/providers/'') of
        (p, None) \<Rightarrow> (ErrorReply 400 ''expected /v1/providers/{provider}/{path}'', [], s)
      | (p, Some rest) \<Rightarrow>
          let provider = fst (canonical_provider p);
              rest_path = ''/'' @ trim_left_char (CHR ''/'') rest;
              key_param = ''key='' @ w_escape w (get_provider_key ''gemini'' (mem s));
              query = (if provider = ''gemini''
                       then (if rq_query r = [] then key_param else rq_query r @ ''&'' @ key_param)
                       else rq_query r)
          in (case provider_base cfg provider of
                None \<Rightarrow> (ErrorReply 400 (''unsupported provider: '' @ provider), [], s)
              | Some base \<Rightarrow>
                  let url = no_slash base @ rest_path @ (if query = [] then [] else ''?'' @ query) in
                  (case enforce_policy w (rq_header r) provider s of
                     (Inl rep, s1) \<Rightarrow> (rep, [], s1)
                   | (Inr _, s1) \<Rightarrow>
                       (case forward_buffered w provider url (rq_method r) (rq_header r) (rq_body r) (mem s1) of
                          NotSent e \<Rightarrow> (ErrorReply 502 ''upstream request failed'', [], s1)
                        | SendFailed q \<Rightarrow> (ErrorReply 502 ''upstream request failed'', [q], s1)
                        | Buffered q resp \<Rightarrow> (ForwardReply resp, [q], s1)))))"

fun usage_totals :: "usage_event list \<Rightarrow> (string \<times> i64) list" where
  "usage_totals events =
     [(''requests'', of_nat (length events)),
      (''prompt_tokens'', fold (\<lambda>e n. n + ue_prompt_tokens e) events 0),
      (''completion_tokens'', fold (\<lambda>e n. n + ue_completion_tokens e) events 0),
      (''cache_read_tokens'', fold (\<lambda>e n. n + ue_cache_read_tokens e) events 0),
      (''cache_write_tokens'', fold (\<lambda>e n. n + ue_cache_write_tokens e) events 0),
      (''total_tokens'', fold (\<lambda>e n. n + ue_total_tokens e) events 0),
      (''estimated_cost_micros'', fold (\<lambda>e n. n + ue_cost_micros e) events 0)]"

definition is_loopback_request :: "'f world \<Rightarrow> request \<Rightarrow> bool" where
  "is_loopback_request w r \<longleftrightarrow> trim_space (rq_remote r) \<noteq> [] \<and> w_loopback w (rq_remote r)"

definition handle_usage :: "'f world \<Rightarrow> request \<Rightarrow> store \<Rightarrow> reply \<times> upstream_request list \<times> store" where
  "handle_usage w r s =
     (if \<not> is_loopback_request w r then (ErrorReply 403 ''usage endpoint is loopback-only'', [], s)
      else if rq_method r = ''OPTIONS'' then (NoContentReply, [], s)
      else if rq_method r \<noteq> ''GET'' then (ErrorReply 405 ''method not allowed'', [], s)
      else case validate_token (w_sha w) (w_io w 0) (w_clk w 0) (bearer_token (rq_header r ''Authorization'')) ''usage:read'' s of
        (False, s1) \<Rightarrow> (ErrorReply 401 ''invalid token'', [], s1)
      | (True, s1) \<Rightarrow>
          let events = list_usage_events (mem s1) in (UsageReply (usage_totals events) events, [], s1))"

definition handle_usage_ui :: "'f world \<Rightarrow> request \<Rightarrow> store \<Rightarrow> reply \<times> upstream_request list \<times> store" where
  "handle_usage_ui w r s =
     (if \<not> is_loopback_request w r then (ErrorReply 403 ''usage UI is loopback-only'', [], s)
      else if rq_method r \<noteq> ''GET'' then (ErrorReply 405 ''method not allowed'', [], s)
      else (HtmlReply, [], s))"

definition handle_root :: "request \<Rightarrow> store \<Rightarrow> reply \<times> upstream_request list \<times> store" where
  "handle_root r s =
     (if rq_path r \<noteq> ''/'' then (ErrorReply 404 ''not found'', [], s)
      else (JsonReply 200 ''21pins gateway'', [], s))"

subsection \<open>Routing and CORS\<close>

text \<open>The SSH routes (\<open>ssh.go\<close>) are a separate handler, an argument here.\<close>

definition serve ::
  "'f world \<Rightarrow> config \<Rightarrow> (request \<Rightarrow> store \<Rightarrow> reply \<times> upstream_request list \<times> store)
     \<Rightarrow> request \<Rightarrow> store \<Rightarrow> reply \<times> upstream_request list \<times> store" where
  "serve w cfg ssh r s =
     (let p = rq_path r in
      if p = ''/health'' then (JsonReply 200 ''ok'', [], s)
      else if p = ''/v1/chat/completions'' then with_auth w ''proxy:chat'' r (handle_chat w cfg r) s
      else if has_prefix p ''/v1/providers/'' then with_auth w ''proxy:providers'' r (handle_passthrough w cfg r) s
      else if p = ''/v1/usage'' then handle_usage w r s
      else if p = ''/ui'' then handle_usage_ui w r s
      else if p = ''/v1/ssh/leases'' \<or> has_prefix p ''/v1/ssh/leases/'' then ssh r s
      else handle_root r s)"

definition is_usage_surface :: "string \<Rightarrow> bool" where
  "is_usage_surface path \<longleftrightarrow> path = ''/v1/usage'' \<or> path = ''/ui''"

definition cors_set :: "string \<Rightarrow> bool" where
  "cors_set path \<longleftrightarrow> (\<not> is_usage_surface path \<and> \<not> has_prefix path ''/v1/ssh/'')
     \<or> path = ''/v1/chat/completions'' \<or> has_prefix path ''/v1/providers/''"

subsection \<open>Lemmas\<close>

definition policy_allows :: "'f world \<Rightarrow> (string \<Rightarrow> string) \<Rightarrow> string \<Rightarrow> state \<Rightarrow> bool" where
  "policy_allows w h target st \<longleftrightarrow>
     trim_space (h ''X-21Pins-Grant-ID'') = []
     \<or> (\<exists>q g granted. read_policy_headers h target = PolicyHeaders q \<and> get_grant (req_grant_id q) st = Inr g
          \<and> check_approval w q st = Inr granted
          \<and> gate_ok g q (w_clk w 2) \<and> (needs_approval g q \<longrightarrow> granted))"

lemma gate_ok_granted [simp]: "gate_ok g (q\<lparr>req_approval_granted := b\<rparr>) now = gate_ok g q now"
  "needs_approval g (q\<lparr>req_approval_granted := b\<rparr>) = needs_approval g q"
  by (simp_all add: gate_ok_def subject_ok_def authority_ok_def scope_ok_def spend_ok_def needs_approval_def)

lemma read_no_grant: "read_policy_headers h target = NoGrantHeader \<longleftrightarrow> trim_space (h ''X-21Pins-Grant-ID'') = []"
  by (auto simp: read_policy_headers_def Let_def split: option.splits)

lemma read_policy_cost:
  "read_policy_headers h target = PolicyHeaders q \<Longrightarrow> 0 \<le> sint (req_cost q) \<and> req_target q = target
     \<and> req_grant_id q = trim_space (h ''X-21Pins-Grant-ID'') \<and> req_sub q = trim_space (h ''X-21Pins-Sub'')
     \<and> req_approval_granted q = False"
proof -
  have "0 \<le> sint (word_of_int v :: i64)" if "parse_int64 s = Some v" "\<not> v < 0" for s v
    using parse_int64_range [OF that(1)] that(2) by (simp add: sint_sbintrunc' signed_take_bit_int_eq_self)
  then show "read_policy_headers h target = PolicyHeaders q \<Longrightarrow> 0 \<le> sint (req_cost q) \<and> req_target q = target
     \<and> req_grant_id q = trim_space (h ''X-21Pins-Grant-ID'') \<and> req_sub q = trim_space (h ''X-21Pins-Sub'')
     \<and> req_approval_granted q = False"
    by (auto simp: read_policy_headers_def Let_def split: option.splits if_splits)
qed

lemma evaluate_allow_iff:
  "er_decision (evaluate_action g q now) = DecisionAllow \<longleftrightarrow>
     gate_ok g q now \<and> (needs_approval g q \<longrightarrow> req_approval_granted q)"
  by (auto simp: evaluate_decision_cases)

lemma enforce_allowed_iff:
  "(\<exists>rid. fst (enforce_policy w h target s) = Inr rid) \<longleftrightarrow> policy_allows w h target (mem s)"
proof (cases "read_policy_headers h target")
  case NoGrantHeader
  then have "trim_space (h ''X-21Pins-Grant-ID'') = []" using read_no_grant [of h target] by blast
  then show ?thesis by (simp add: enforce_policy_def policy_allows_def NoGrantHeader)
next
  case (BadPolicyHeaders msg)
  then show ?thesis using read_no_grant [of h target] by (simp add: enforce_policy_def policy_allows_def)
next
  case (PolicyHeaders q)
  then have n: "trim_space (h ''X-21Pins-Grant-ID'') \<noteq> []" using read_no_grant [of h target] by simp
  show ?thesis
  proof (cases "get_grant (req_grant_id q) (mem s)")
    case (Inl e)
    then show ?thesis using PolicyHeaders n by (simp add: enforce_policy_def policy_allows_def)
  next
    case (Inr g)
    show ?thesis
    proof (cases "check_approval w q (mem s)")
      case (Inl e)
      then show ?thesis using PolicyHeaders Inr n by (simp add: enforce_policy_def policy_allows_def)
    next
      case (Inr granted)
      then show ?thesis using PolicyHeaders \<open>get_grant (req_grant_id q) (mem s) = Inr g\<close> n
        by (simp add: enforce_policy_def policy_allows_def Let_def case_prod_unfold evaluate_allow_iff)
    qed
  qed
qed

lemma sent_headers:
  "q \<in> set (sent_requests (forward_buffered w provider target m inc body st)) \<Longrightarrow>
     provider_request provider target m inc body st = Inr q"
  by (auto simp: forward_buffered_def sent_requests_def split: sum.splits upstream.splits)

lemma forwarded_cases:
  "case forward_buffered w provider target m inc body st of
      NotSent e \<Rightarrow> True
    | SendFailed q \<Rightarrow> provider_request provider target m inc body st = Inr q
    | Buffered q resp \<Rightarrow> provider_request provider target m inc body st = Inr q"
  by (auto simp: forward_buffered_def split: sum.splits upstream.splits)

text \<open>
  What a request to a known provider carries: of the client's headers only the content type, and
  this provider's key in the one place that provider reads it from (for \<open>gemini\<close> that is the
  URL, and \<open>ollama\<close> has none). Without a key only the two local providers are contacted.
\<close>

definition clean_request :: "string \<Rightarrow> (string \<Rightarrow> string) \<Rightarrow> state \<Rightarrow> upstream_request \<Rightarrow> bool" where
  "clean_request provider inc st q \<longleftrightarrow>
     (let key = get_provider_key provider st in
      up_headers q = (''Content-Type'', inc ''Content-Type'') #
        (if provider = ''anthropic'' then [(''x-api-key'', key), (''anthropic-version'', ''2023-06-01'')]
         else if provider = ''gemini'' \<or> provider = ''ollama'' \<or> key = [] then []
         else [(''Authorization'', ''Bearer '' @ key)])
      \<and> (key = [] \<longrightarrow> provider = ''ollama'' \<or> provider = ''trymaple''))"

text \<open>The chat route: the model names the provider, and the body is the client's payload with the model rewritten.\<close>

definition chat_forward :: "'f world \<Rightarrow> config \<Rightarrow> request \<Rightarrow> string \<Rightarrow> upstream_request \<Rightarrow> bool" where
  "chat_forward w cfg r provider q \<longleftrightarrow> (\<exists>payload pm. w_unmarshal w (rq_body r) = Some payload
     \<and> split_provider_model (case map_of payload ''model'' of Some (JStr m) \<Rightarrow> m | _ \<Rightarrow> []) = Inr (provider, pm)
     \<and> chat_target cfg provider = Some (up_target q) \<and> up_method q = ''POST''
     \<and> up_body q = w_marshal w (fst (prepare_payload provider pm payload)))"

text \<open>
  The provider route: the path names the provider; the URL is its base, a slash, the rest of the
  path without leading slashes and the client's query, to which \<open>gemini\<close>'s key is added.
\<close>

definition path_forward :: "'f world \<Rightarrow> config \<Rightarrow> request \<Rightarrow> state \<Rightarrow> string \<Rightarrow> upstream_request \<Rightarrow> bool" where
  "path_forward w cfg r st provider q \<longleftrightarrow> (\<exists>p rest base tail.
     split_2 (CHR ''/'') (trim_prefix (rq_path r) ''/v1/providers/'') = (p, Some rest)
     \<and> provider = fst (canonical_provider p) \<and> provider_base cfg provider = Some base
     \<and> up_target q = no_slash base @ ''/'' @ trim_left_char (CHR ''/'') rest @ tail
     \<and> (provider \<noteq> ''gemini'' \<longrightarrow> tail = (if rq_query r = [] then [] else ''?'' @ rq_query r))
     \<and> (provider = ''gemini'' \<longrightarrow> tail = ''?'' @ (if rq_query r = [] then [] else rq_query r @ ''&'')
          @ ''key='' @ w_escape w (get_provider_key ''gemini'' st))
     \<and> up_method q = rq_method r \<and> up_body q = rq_body r)"

lemma known_providers:
  "provider_base cfg provider \<noteq> None \<longleftrightarrow> provider \<in> set [''openai'', ''openrouter'', ''ollama'', ''anthropic'',
     ''deepseek'', ''gemini'', ''venice'', ''hetzner'', ''trymaple'']"
  by (simp add: provider_base_def)

lemma auth_headers_known:
  "provider_base cfg provider \<noteq> None \<Longrightarrow> key = [] \<longrightarrow> provider = ''ollama'' \<or> provider = ''trymaple'' \<Longrightarrow>
     auth_headers provider key =
       (if provider = ''anthropic'' then [(''x-api-key'', key), (''anthropic-version'', ''2023-06-01'')]
        else if provider = ''gemini'' \<or> provider = ''ollama'' \<or> key = [] then []
        else [(''Authorization'', ''Bearer '' @ key)])"
  unfolding known_providers auth_headers_def by auto

lemma provider_request_clean:
  assumes p: "provider_request provider target m inc body st = Inr q" and k: "provider_base cfg provider \<noteq> None"
  shows "clean_request provider inc st q \<and> up_target q = target \<and> up_method q = m \<and> up_body q = body"
proof -
  let ?key = "get_provider_key provider st"
  have c: "\<not> (?key = [] \<and> provider \<noteq> ''ollama'' \<and> provider \<noteq> ''trymaple'')"
  proof
    assume "?key = [] \<and> provider \<noteq> ''ollama'' \<and> provider \<noteq> ''trymaple''"
    then have "provider_request provider target m inc body st = Inl (''no API key configured for provider '' @ provider)"
      unfolding provider_request_def Let_def by (rule if_P)
    then show False using p by simp
  qed
  then have "provider_request provider target m inc body st = Inr \<lparr>up_target = target, up_method = m,
      up_headers = (''Content-Type'', inc ''Content-Type'') # auth_headers provider ?key, up_body = body\<rparr>"
    unfolding provider_request_def Let_def by (rule if_not_P)
  then have q: "q = \<lparr>up_target = target, up_method = m,
      up_headers = (''Content-Type'', inc ''Content-Type'') # auth_headers provider ?key, up_body = body\<rparr>"
    using p by simp
  have n: "?key = [] \<longrightarrow> provider = ''ollama'' \<or> provider = ''trymaple''" using c by blast
  show ?thesis
    unfolding clean_request_def Let_def q using n auth_headers_known [OF k n] by simp
qed

lemma send_chat_sent:
  assumes "send_chat w r provider target requested pm streaming body rid s = (rep, sent, s')" and "q \<in> set sent"
    and "provider_base cfg provider \<noteq> None"
  shows "sent = [q] \<and> clean_request provider (rq_header r) (mem s) q \<and> up_target q = target
    \<and> up_method q = ''POST'' \<and> up_body q = body"
proof -
  have "sent = [q] \<and> provider_request provider target ''POST'' (rq_header r) body (mem s) = Inr q"
    using assms forwarded_cases [where w = w and provider = provider and target = target and m = "''POST''"
          and inc = "rq_header r" and body = body and st = "mem s"]
    by (auto simp: send_chat_def split: if_splits sum.splits upstream.splits forwarded.splits)
  then show ?thesis using provider_request_clean assms(3) by blast
qed

end
