(* ===== verification/GatewayProps.thy ===== *)
theory GatewayProps
  imports Gateway
begin

text \<open>
  Properties of the gateway: what may be forwarded, what enforcement records, budgets under
  sequential and interleaved requests, usage totals, and the surfaces closed to other hosts.
\<close>

subsection \<open>What is sent\<close>

lemma handle_chat_sent:
  assumes "handle_chat w cfg r s = (rep, sent, s')" and "q \<in> set sent"
  shows "\<exists>provider rid s1. provider_base cfg provider \<noteq> None
     \<and> enforce_policy w (rq_header r) provider s = (Inr rid, s1)
     \<and> sent = [q] \<and> clean_request provider (rq_header r) (mem s1) q \<and> chat_forward w cfg r provider q"
proof -
  obtain payload provider pm target rid s1 streaming body where
    c: "w_unmarshal w (rq_body r) = Some payload"
      "split_provider_model (case map_of payload ''model'' of Some (JStr m) \<Rightarrow> m | _ \<Rightarrow> []) = Inr (provider, pm)"
      "chat_target cfg provider = Some target" "enforce_policy w (rq_header r) provider s = (Inr rid, s1)"
      "prepare_payload provider pm payload = (body, streaming)"
    and f: "send_chat w r provider target (case map_of payload ''model'' of Some (JStr m) \<Rightarrow> m | _ \<Rightarrow> []) pm streaming
      (w_marshal w body) rid s1 = (rep, sent, s')"
    using assms by (auto simp: handle_chat_def Let_def split: if_splits option.splits sum.splits prod.splits)
  have k: "provider_base cfg provider \<noteq> None"
    using c(3) by (auto simp: chat_target_def provider_base_def split: if_splits)
  show ?thesis using c k send_chat_sent [OF f assms(2) k] unfolding chat_forward_def by force
qed

lemma handle_passthrough_sent:
  assumes "handle_passthrough w cfg r s = (rep, sent, s')" and "q \<in> set sent"
  shows "\<exists>provider rid s1. provider_base cfg provider \<noteq> None
     \<and> enforce_policy w (rq_header r) provider s = (Inr rid, s1)
     \<and> sent = [q] \<and> clean_request provider (rq_header r) (mem s1) q \<and> path_forward w cfg r (mem s) provider q"
proof -
  obtain p rest where sp: "split_2 (CHR ''/'') (trim_prefix (rq_path r) ''/v1/providers/'') = (p, Some rest)"
    using assms by (auto simp: handle_passthrough_def split: option.splits prod.splits)
  define provider where "provider = fst (canonical_provider p)"
  define key where "key = ''key='' @ w_escape w (get_provider_key ''gemini'' (mem s))"
  define query where "query = (if provider = ''gemini'' then (if rq_query r = [] then key else rq_query r @ ''&'' @ key)
    else rq_query r)"
  obtain base rid s1 where
    c: "provider_base cfg provider = Some base" "enforce_policy w (rq_header r) provider s = (Inr rid, s1)"
    and f: "(case forward_buffered w provider (no_slash base @ (''/'' @ trim_left_char (CHR ''/'') rest)
                  @ (if query = [] then [] else ''?'' @ query)) (rq_method r) (rq_header r) (rq_body r) (mem s1) of
                NotSent e \<Rightarrow> (ErrorReply 502 ''upstream request failed'', [], s1)
              | SendFailed q \<Rightarrow> (ErrorReply 502 ''upstream request failed'', [q], s1)
              | Buffered q resp \<Rightarrow> (ForwardReply resp, [q], s1)) = (rep, sent, s')"
    using assms unfolding handle_passthrough_def sp prod.case option.case Let_def
      provider_def [symmetric] key_def [symmetric] query_def [symmetric]
    by (auto split: option.splits sum.splits prod.splits)
  have "sent = [q] \<and> provider_request provider (no_slash base @ (''/'' @ trim_left_char (CHR ''/'') rest)
      @ (if query = [] then [] else ''?'' @ query)) (rq_method r) (rq_header r) (rq_body r) (mem s1) = Inr q"
    using f assms(2) forwarded_cases [where w = w and provider = provider and m = "rq_method r"
        and target = "no_slash base @ (''/'' @ trim_left_char (CHR ''/'') rest) @ (if query = [] then [] else ''?'' @ query)"
        and inc = "rq_header r" and body = "rq_body r" and st = "mem s1"]
    by (cases "forward_buffered w provider (no_slash base @ (''/'' @ trim_left_char (CHR ''/'') rest)
      @ (if query = [] then [] else ''?'' @ query)) (rq_method r) (rq_header r) (rq_body r) (mem s1)") auto
  then have q: "sent = [q]" "clean_request provider (rq_header r) (mem s1) q"
      "up_target q = no_slash base @ (''/'' @ trim_left_char (CHR ''/'') rest) @ (if query = [] then [] else ''?'' @ query)"
      "up_method q = rq_method r" "up_body q = rq_body r"
    using provider_request_clean [of provider _ "rq_method r" "rq_header r" "rq_body r" "mem s1" q cfg] c(1) by auto
  have "path_forward w cfg r (mem s) provider q"
    unfolding path_forward_def
    by (intro exI [of _ p] exI [of _ rest] exI [of _ base] exI [of _ "if query = [] then [] else ''?'' @ query"])
      (use sp c(1) q(3-5) in \<open>auto simp: provider_def query_def key_def\<close>)
  then show ?thesis using c q(1,2) by blast
qed

lemma with_auth_sent:
  assumes "with_auth w scope r next s = (rep, sent, s')" and "q \<in> set sent"
  shows "\<exists>s1. validate_token (w_sha w) (w_io w 0) (w_clk w 0) (bearer_token (rq_header r ''Authorization'')) scope s = (True, s1)
     \<and> next s1 = (rep, sent, s')"
  using assms by (auto simp: with_auth_def split: if_splits prod.splits bool.splits)

text \<open>
  (C2) The gateway hands a request to the HTTP client only with a live token of the route's scope
  and, when it names a grant, only when the policy allows it there and then; it hands over one
  request, and that request is determined: the headers of \<open>clean_request\<close>, and on the chat route
  the provider's chat endpoint, \<open>POST\<close> and the payload with the model rewritten, on the provider
  route the URL of \<open>path_forward\<close> with the client's method and body. What the client does with a
  redirect it is answered with is outside this statement.
\<close>

theorem forwarding_authorised:
  assumes "serve w cfg ssh r s = (rep, sent, s')" and "q \<in> set sent" and "\<And>r s. fst (snd (ssh r s)) = []"
  shows "\<exists>scope provider s1 s2 rid. sent = [q]
     \<and> validate_token (w_sha w) (w_io w 0) (w_clk w 0) (bearer_token (rq_header r ''Authorization'')) scope s = (True, s1)
     \<and> policy_allows w (rq_header r) provider (mem s1)
     \<and> enforce_policy w (rq_header r) provider s1 = (Inr rid, s2)
     \<and> provider_base cfg provider \<noteq> None \<and> clean_request provider (rq_header r) (mem s2) q
     \<and> (scope = ''proxy:chat'' \<and> rq_path r = ''/v1/chat/completions'' \<and> chat_forward w cfg r provider q
        \<or> scope = ''proxy:providers'' \<and> has_prefix (rq_path r) ''/v1/providers/'' \<and> path_forward w cfg r (mem s1) provider q)"
proof -
  have ssh: "ssh r s = (rep, sent, s') \<Longrightarrow> sent = []" using assms(3) [of r s] by auto
  consider (chat) "rq_path r = ''/v1/chat/completions''" "with_auth w ''proxy:chat'' r (handle_chat w cfg r) s = (rep, sent, s')"
    | (pass) "has_prefix (rq_path r) ''/v1/providers/''"
        "with_auth w ''proxy:providers'' r (handle_passthrough w cfg r) s = (rep, sent, s')"
    using assms(1,2) ssh
    by (auto simp: serve_def Let_def handle_usage_def handle_usage_ui_def handle_root_def split: if_splits prod.splits bool.splits)
  then show ?thesis
  proof cases
    case chat
    obtain s1 where v: "validate_token (w_sha w) (w_io w 0) (w_clk w 0) (bearer_token (rq_header r ''Authorization'')) ''proxy:chat'' s = (True, s1)"
      and n: "handle_chat w cfg r s1 = (rep, sent, s')" using with_auth_sent [OF chat(2) assms(2)] by blast
    obtain provider rid s2 where c: "provider_base cfg provider \<noteq> None"
      "enforce_policy w (rq_header r) provider s1 = (Inr rid, s2)" "sent = [q]"
      "clean_request provider (rq_header r) (mem s2) q" "chat_forward w cfg r provider q"
      using handle_chat_sent [OF n assms(2)] by blast
    have "policy_allows w (rq_header r) provider (mem s1)"
      using enforce_allowed_iff [of w "rq_header r" provider s1] c(2) by auto
    then show ?thesis using v c chat(1) by blast
  next
    case pass
    obtain s1 where v: "validate_token (w_sha w) (w_io w 0) (w_clk w 0) (bearer_token (rq_header r ''Authorization'')) ''proxy:providers'' s = (True, s1)"
      and n: "handle_passthrough w cfg r s1 = (rep, sent, s')" using with_auth_sent [OF pass(2) assms(2)] by blast
    obtain provider rid s2 where c: "provider_base cfg provider \<noteq> None"
      "enforce_policy w (rq_header r) provider s1 = (Inr rid, s2)" "sent = [q]"
      "clean_request provider (rq_header r) (mem s2) q" "path_forward w cfg r (mem s1) provider q"
      using handle_passthrough_sent [OF n assms(2)] by blast
    have "policy_allows w (rq_header r) provider (mem s1)"
      using enforce_allowed_iff [of w "rq_header r" provider s1] c(2) by auto
    then show ?thesis using v c pass(1) by blast
  qed
qed

subsection \<open>What enforcement records\<close>

lemma signing_saved:
  "\<exists>sg. snd (signing_keypair io_ok gen (saved st)) = saved (st\<lparr>signing := sg\<rparr>)"
proof (cases "sk_key_id (signing st) = [] \<and> gen \<noteq> None")
  case True
  then obtain pub priv where g: "gen = Some (pub, priv)" by auto
  let ?k = "\<lparr>sk_key_id = ''local-ed25519-v1'', sk_public_b64 = std_encode pub, sk_private_b64 = std_encode priv\<rparr>"
  have "finish io_ok (st\<lparr>signing := ?k\<rparr>) ?k (saved st) = (Inr ?k, saved (st\<lparr>signing := ?k\<rparr>))"
    using finish_success [of io_ok "saved st" "Encoded st" "st\<lparr>signing := ?k\<rparr>" ?k] by (simp add: saved_def)
  then show ?thesis using True g by (auto simp: signing_keypair_def ensure_signing_keys_def Let_def)
next
  case False
  then have "snd (signing_keypair io_ok gen (saved st)) = saved st"
    by (auto simp: signing_keypair_def ensure_signing_keys_def split: option.splits)
  moreover have "st = st\<lparr>signing := signing st\<rparr>" by simp
  ultimately show ?thesis by metis
qed

definition recorded_for :: "action_request \<Rightarrow> evaluation_result \<Rightarrow> receipt \<Rightarrow> bool" where
  "recorded_for q res r \<longleftrightarrow> r_decision r = er_decision res \<and> r_pin_states r = er_pin_states res \<and> r_sub r = req_sub q
     \<and> r_capability r = req_capability q \<and> r_data_class r = req_data_class q \<and> r_target r = req_target q
     \<and> r_cost r = req_cost q \<and> r_approval_ref r = req_approval_id q"

lemma sign_or_keep_recorded:
  assumes "\<forall>x. w_receipt_marshal w x \<noteq> None"
  shows "recorded_for q res (sign_or_keep w keys r) \<longleftrightarrow> recorded_for q res r" and "r_id (sign_or_keep w keys r) = r_id r"
proof -
  obtain b where b: "w_receipt_marshal w (signable_of r) = Some b" using assms by fastforce
  have "sign_or_keep w keys r = r \<or> (\<exists>k s. sign_or_keep w keys r = r\<lparr>r_key_id := k, r_signature := s\<rparr>)"
    using b by (cases keys) (auto simp: sign_or_keep_def sign_receipt_def receipt_payload_bytes_def)
  then show "recorded_for q res (sign_or_keep w keys r) \<longleftrightarrow> recorded_for q res r"
    and "r_id (sign_or_keep w keys r) = r_id r"
    by (auto simp: recorded_for_def)
qed

text \<open>The state after enforcement of a request that names a grant, on a disk that works.\<close>

lemma enforce_saved:
  assumes io: "\<forall>i. w_io w i = io_ok" and h: "read_policy_headers h target = PolicyHeaders q"
    and g: "get_grant (req_grant_id q) st = Inr g" and a: "check_approval w q st = Inr granted"
    and res: "res = evaluate_action g (q\<lparr>req_approval_granted := granted\<rparr>) (w_clk w 2)"
  shows "\<exists>r sg st'. snd (enforce_policy w h target (saved st)) = saved st'
     \<and> (if er_decision res = DecisionAllow \<and> 0 <s req_cost q
        then add_grant_spend_body (w_clk w 3) (req_grant_id q) (req_cost q)
               (st\<lparr>signing := sg, receipts := receipts st @ [r]\<rparr>) = Inr (st', ())
        else st' = st\<lparr>signing := sg, receipts := receipts st @ [r]\<rparr>)
     \<and> ((\<forall>x. w_receipt_marshal w x \<noteq> None) \<longrightarrow> recorded_for q res r)
     \<and> (er_decision res = DecisionAllow \<longrightarrow> fst (enforce_policy w h target (saved st)) = Inr (r_id r))"
proof -
  let ?q = "q\<lparr>req_approval_granted := granted\<rparr>"
  obtain keys s1 where k: "signing_keypair (w_io w 1) (w_gen w) (saved st) = (keys, s1)" by fastforce
  obtain sg where s1: "s1 = saved (st\<lparr>signing := sg\<rparr>)" using signing_saved [of "w_gen w" st] k io by auto
  define r1 where "r1 = (let r0 = new_receipt (new_id ''rcp'' (w_rnd w 0)) g ?q res (w_clk w 2)
      in if req_approval_id q \<noteq> [] then r0\<lparr>r_approval_ref := req_approval_id q\<rparr> else r0)"
  define r where "r = sign_or_keep w keys r1"
  let ?st2 = "st\<lparr>signing := sg, receipts := receipts st @ [r]\<rparr>"
  have s2: "add_receipt r (w_io w 2) s1 = (Inr (), saved ?st2)"
    unfolding add_receipt_def s1 using io by (simp add: add_receipt_body_def transact_saved [of "add_receipt_body r"])
  have e: "enforce_policy w h target (saved st) =
      (if er_decision res = DecisionAllow
       then (Inr (r_id r), if 0 <s req_cost q
               then snd (add_grant_spend (w_clk w 3) (req_grant_id q) (req_cost q) (w_io w 3) (saved ?st2)) else saved ?st2)
       else (Inl (denied_reply res (r_id r)), saved ?st2))"
    using h g a k s2
    by (cases "req_approval_id q = []") (simp_all add: enforce_policy_def res [symmetric] r_def r1_def Let_def)
  have "recorded_for q res r1"
    unfolding r1_def Let_def by (cases "req_approval_id q = []") (simp_all add: recorded_for_def new_receipt_def)
  then have rec: "(\<forall>x. w_receipt_marshal w x \<noteq> None) \<longrightarrow> recorded_for q res r"
    using sign_or_keep_recorded(1) [of w q res keys r1] unfolding r_def by blast
  have "\<exists>x st'. edit_first (\<lambda>g. g_id g = req_grant_id q) (add_spend (req_cost q) (w_clk w 3)) (grants ?st2) = Some (x, st')"
    using g by (auto simp: get_grant_def split: option.splits dest: find_edit_first [where g = "add_spend (req_cost q) (w_clk w 3)"])
  then obtain st' where sp: "add_grant_spend_body (w_clk w 3) (req_grant_id q) (req_cost q) ?st2 = Inr (st', ())"
    by (auto simp: add_grant_spend_body_def)
  have "add_grant_spend (w_clk w 3) (req_grant_id q) (req_cost q) (w_io w 3) (saved ?st2) = (Inr (), saved st')"
    unfolding add_grant_spend_def using io transact_saved [of "add_grant_spend_body (w_clk w 3) (req_grant_id q) (req_cost q)", OF sp] by simp
  then show ?thesis using e rec sp by (intro exI [of _ r] exI [of _ sg]) auto
qed

text \<open>
  On a working disk a request that names an existing grant, with headers and approval in order,
  leaves exactly one new receipt, which records the decision, the pin states, what was asked for and
  the approval; an allowed request adds its cost to the grant's spent amount, any other decision leaves
  it, and no approval and no other grant changes.
\<close>

theorem enforcement_records:
  assumes io: "\<forall>i. w_io w i = io_ok" and h: "read_policy_headers h target = PolicyHeaders q"
    and g: "get_grant (req_grant_id q) st = Inr g" and a: "check_approval w q st = Inr granted"
    and m: "\<forall>x. w_receipt_marshal w x \<noteq> None"
    and res: "res = evaluate_action g (q\<lparr>req_approval_granted := granted\<rparr>) (w_clk w 2)"
  shows "\<exists>st' r g'. snd (enforce_policy w h target (saved st)) = saved st'
     \<and> receipts st' = receipts st @ [r] \<and> recorded_for q res r
     \<and> approvals st' = approvals st
     \<and> get_grant (req_grant_id q) st' = Inr g'
     \<and> spent_cents (spend_policy (g_pins g')) = spent_cents (spend_policy (g_pins g))
          + (if er_decision res = DecisionAllow then req_cost q else 0)
     \<and> limit_cents (spend_policy (g_pins g')) = limit_cents (spend_policy (g_pins g))
     \<and> (\<forall>j. j \<noteq> req_grant_id q \<longrightarrow> get_grant j st' = get_grant j st)"
proof -
  obtain r sg st' where e: "snd (enforce_policy w h target (saved st)) = saved st'" and r: "recorded_for q res r"
    and st': "if er_decision res = DecisionAllow \<and> 0 <s req_cost q
        then add_grant_spend_body (w_clk w 3) (req_grant_id q) (req_cost q)
               (st\<lparr>signing := sg, receipts := receipts st @ [r]\<rparr>) = Inr (st', ())
        else st' = st\<lparr>signing := sg, receipts := receipts st @ [r]\<rparr>"
    using enforce_saved [OF io h g a res] m by blast
  let ?st2 = "st\<lparr>signing := sg, receipts := receipts st @ [r]\<rparr>"
  have same: "get_grant j ?st2 = get_grant j st" for j by (simp add: get_grant_def)
  have c0: "0 \<le> sint (req_cost q)" using read_policy_cost [OF h] by blast
  show ?thesis
  proof (cases "er_decision res = DecisionAllow \<and> 0 <s req_cost q")
    case True
    then have sp: "add_grant_spend_body (w_clk w 3) (req_grant_id q) (req_cost q) ?st2 = Inr (st', ())" using st' by simp
    have "get_grant (req_grant_id q) st' = Inr (add_spend (req_cost q) (w_clk w 3) g)"
      using add_spend_effect(1) [OF sp] g same by auto
    moreover have "approvals st' = approvals st" using add_spend_effect(3) [OF sp] by simp
    moreover have "receipts st' = receipts st @ [r]"
      using sp by (auto simp: add_grant_spend_body_def split: option.splits)
    moreover have "\<forall>j. j \<noteq> req_grant_id q \<longrightarrow> get_grant j st' = get_grant j st"
      using add_spend_effect(2) [OF sp] same by simp
    ultimately show ?thesis using e r True by (intro exI [of _ st'] exI [of _ r] exI) auto
  next
    case False
    then have "er_decision res = DecisionAllow \<Longrightarrow> sint (req_cost q) = 0" using c0 by (auto simp: word_sless_alt)
    then have "(if er_decision res = DecisionAllow then req_cost q else 0) = 0"
      using signed_word_eqI [of "req_cost q" 0] by auto
    moreover have "st' = ?st2" using st' False by simp
    ultimately show ?thesis using e r same g by (intro exI [of _ st'] exI [of _ r] exI [of _ g]) simp
  qed
qed

subsection \<open>Budgets\<close>

text \<open>A grant within a budget that leaves room for the sum of spent amount and one more cost.\<close>

definition within_budget :: "string \<Rightarrow> state \<Rightarrow> bool" where
  "within_budget gid st \<longleftrightarrow> (\<forall>g. get_grant gid st = Inr g \<longrightarrow>
     0 \<le> sint (spent_cents (spend_policy (g_pins g)))
     \<and> sint (spent_cents (spend_policy (g_pins g))) \<le> sint (limit_cents (spend_policy (g_pins g)))
     \<and> sint (limit_cents (spend_policy (g_pins g))) < 2 ^ 62)"

lemma sint_add_small:
  fixes a b :: i64
  assumes "0 \<le> sint a" "0 \<le> sint b" "sint a < 2 ^ 62" "sint b < 2 ^ 62"
  shows "sint (a + b) = sint a + sint b"
  using assms by (simp add: sint_word_ariths signed_take_bit_int_eq_self)

lemma enforce_unchanged:
  assumes "\<nexists>q. read_policy_headers h target = PolicyHeaders q \<and> (\<exists>g. get_grant (req_grant_id q) st = Inr g)
     \<and> (\<exists>b. check_approval w q st = Inr b)"
  shows "snd (enforce_policy w h target (saved st)) = saved st"
  using assms by (auto simp: enforce_policy_def split: policy_header.splits sum.splits)

lemma enforce_keeps_budget:
  assumes io: "\<forall>i. w_io w i = io_ok" and b: "within_budget gid st"
    and small: "\<forall>q. read_policy_headers h target = PolicyHeaders q \<longrightarrow> sint (req_cost q) < 2 ^ 62"
  shows "\<exists>st'. snd (enforce_policy w h target (saved st)) = saved st' \<and> within_budget gid st'"
proof (cases "\<exists>q g granted. read_policy_headers h target = PolicyHeaders q \<and> get_grant (req_grant_id q) st = Inr g
     \<and> check_approval w q st = Inr granted")
  case False
  then have "snd (enforce_policy w h target (saved st)) = saved st" by (intro enforce_unchanged) blast
  then show ?thesis using b by blast
next
  case True
  then obtain q g granted where q: "read_policy_headers h target = PolicyHeaders q"
    "get_grant (req_grant_id q) st = Inr g" "check_approval w q st = Inr granted" by blast
  define res where "res = evaluate_action g (q\<lparr>req_approval_granted := granted\<rparr>) (w_clk w 2)"
  obtain r sg st' where e: "snd (enforce_policy w h target (saved st)) = saved st'"
    and st': "if er_decision res = DecisionAllow \<and> 0 <s req_cost q
        then add_grant_spend_body (w_clk w 3) (req_grant_id q) (req_cost q)
               (st\<lparr>signing := sg, receipts := receipts st @ [r]\<rparr>) = Inr (st', ())
        else st' = st\<lparr>signing := sg, receipts := receipts st @ [r]\<rparr>"
    using enforce_saved [OF io q res_def] by blast
  let ?st2 = "st\<lparr>signing := sg, receipts := receipts st @ [r]\<rparr>"
  have same: "get_grant j ?st2 = get_grant j st" for j by (simp add: get_grant_def)
  have "within_budget gid st'"
  proof (cases "er_decision res = DecisionAllow \<and> 0 <s req_cost q")
    case False
    then have "st' = ?st2" using st' by simp
    then show ?thesis using b same by (simp add: within_budget_def)
  next
    case True
    then have sp: "add_grant_spend_body (w_clk w 3) (req_grant_id q) (req_cost q) ?st2 = Inr (st', ())" using st' by simp
    show ?thesis
    proof (cases "gid = req_grant_id q")
      case False
      then show ?thesis using b same add_spend_effect(2) [OF sp] by (simp add: within_budget_def)
    next
      case eq: True
      have g': "get_grant gid st' = Inr (add_spend (req_cost q) (w_clk w 3) g)"
        using add_spend_effect(1) [OF sp] q(2) same eq by auto
      have c: "0 \<le> sint (req_cost q)" "sint (req_cost q) < 2 ^ 62" using read_policy_cost [OF q(1)] small q(1) by blast+
      have bg: "0 \<le> sint (spent_cents (spend_policy (g_pins g)))"
        "sint (spent_cents (spend_policy (g_pins g))) \<le> sint (limit_cents (spend_policy (g_pins g)))"
        "sint (limit_cents (spend_policy (g_pins g))) < 2 ^ 62" using b q(2) eq by (auto simp: within_budget_def)
      have "gate_ok g q (w_clk w 2)" using True unfolding res_def evaluate_allow_iff by simp
      then have "sint (spent_cents (spend_policy (g_pins g)) + req_cost q) \<le> sint (limit_cents (spend_policy (g_pins g)))"
        by (simp add: gate_ok_def spend_ok_def)
      moreover have "sint (spent_cents (spend_policy (g_pins g)) + req_cost q)
          = sint (spent_cents (spend_policy (g_pins g))) + sint (req_cost q)"
        using sint_add_small bg c by simp
      ultimately show ?thesis using g' bg c by (simp add: within_budget_def)
    qed
  qed
  then show ?thesis using e by blast
qed

text \<open>Requests handled one after the other, each in its own world.\<close>

fun enforce_all :: "('f world \<times> (string \<Rightarrow> string) \<times> string) list \<Rightarrow> store \<Rightarrow> store" where
  "enforce_all [] s = s"
| "enforce_all ((w, h, target) # rs) s = enforce_all rs (snd (enforce_policy w h target s))"

text \<open>
  (C3) Budgets hold under sequential requests, on a store whose memory equals its file and whose system
  calls all succeed: whatever policy requests are handled one after the other (any grants, targets,
  approvals and clocks, each cost below \<open>2^62\<close> cents), a grant within its limit, which is below \<open>2^62\<close>
  cents, stays within it. Larger amounts can wrap around, and interleaved requests can overrun.
\<close>

theorem sequential_budget_safe:
  assumes "within_budget gid st"
    and "\<forall>(w, h, target) \<in> set rs. (\<forall>i. w_io w i = io_ok)
          \<and> (\<forall>q. read_policy_headers h target = PolicyHeaders q \<longrightarrow> sint (req_cost q) < 2 ^ 62)"
  shows "\<exists>st'. enforce_all rs (saved st) = saved st' \<and> within_budget gid st'"
  using assms
proof (induction rs arbitrary: st)
  case (Cons x rs)
  obtain w h target where x: "x = (w, h, target)" by (cases x)
  obtain st1 where s1: "snd (enforce_policy w h target (saved st)) = saved st1" "within_budget gid st1"
    using enforce_keeps_budget [of w gid st h target] Cons.prems x by auto
  then show ?case using Cons.IH [OF s1(2)] Cons.prems(2) x by simp
qed auto

subsection \<open>Interleaved requests\<close>

text \<open>
  The server handles requests concurrently and the store locks one operation at a time: between
  the \<open>GetGrant\<close> that a decision rests on and its \<open>AddGrantSpend\<close> another request can do the same.
  A request is waiting, decided (with the cost it is going to record) or finished.
\<close>

datatype phase = Waiting action_request | Decided string i64 | Finished

inductive race_step :: "time \<Rightarrow> state \<times> phase list \<Rightarrow> state \<times> phase list \<Rightarrow> bool" for now where
  race_decide: "i < length ps \<Longrightarrow> ps ! i = Waiting q \<Longrightarrow> get_grant (req_grant_id q) st = Inr g \<Longrightarrow>
     er_decision (evaluate_action g q now) = DecisionAllow \<Longrightarrow>
     race_step now (st, ps) (st, ps[i := Decided (req_grant_id q) (req_cost q)])"
| race_refuse: "i < length ps \<Longrightarrow> ps ! i = Waiting q \<Longrightarrow>
     (\<And>g. get_grant (req_grant_id q) st = Inr g \<Longrightarrow> er_decision (evaluate_action g q now) \<noteq> DecisionAllow) \<Longrightarrow>
     race_step now (st, ps) (st, ps[i := Finished])"
| race_spend: "i < length ps \<Longrightarrow> ps ! i = Decided gid c \<Longrightarrow> add_grant_spend_body now gid c st = Inr (st', ()) \<Longrightarrow>
     race_step now (st, ps) (st', ps[i := Finished])"

inductive_cases race_stepE: "race_step now x y"

text \<open>Two requests that each fit into what is left can both be allowed, and the grant ends above its limit.\<close>

theorem interleaved_requests_overspend:
  assumes g: "get_grant gid st = Inr g" and q: "req_grant_id q = gid"
    and ok: "er_decision (evaluate_action g q now) = DecisionAllow"
    and big: "sint (limit_cents (spend_policy (g_pins g)))
                < sint (spent_cents (spend_policy (g_pins g)) + req_cost q + req_cost q)"
  shows "\<exists>st' g'. (race_step now)\<^sup>*\<^sup>* (st, [Waiting q, Waiting q]) (st', [Finished, Finished])
     \<and> get_grant gid st' = Inr g'
     \<and> sint (limit_cents (spend_policy (g_pins g'))) < sint (spent_cents (spend_policy (g_pins g')))"
proof -
  let ?d = "Decided gid (req_cost q)"
  have spend: "\<exists>st'. add_grant_spend_body now gid (req_cost q) s = Inr (st', ()) \<and> get_grant gid st' = Inr (add_spend (req_cost q) now x)"
    if "get_grant gid s = Inr x" for s x
  proof -
    have f: "find (\<lambda>g. g_id g = gid) (grants s) = Some x" using that by (simp add: get_grant_def split: option.splits)
    obtain gs where "edit_first (\<lambda>g. g_id g = gid) (add_spend (req_cost q) now) (grants s) = Some (add_spend (req_cost q) now x, gs)"
      using find_edit_first [OF f, where g = "add_spend (req_cost q) now"] by blast
    then have a: "add_grant_spend_body now gid (req_cost q) s = Inr (s\<lparr>grants := gs\<rparr>, ())" by (simp add: add_grant_spend_body_def)
    show ?thesis using a add_spend_effect(1) [OF a] that by auto
  qed
  have 1: "race_step now (st, [Waiting q, Waiting q]) (st, [?d, Waiting q])"
    using race_decide [of 0 "[Waiting q, Waiting q]" q st g now] g q ok by simp
  have 2: "race_step now (st, [?d, Waiting q]) (st, [?d, ?d])"
    using race_decide [of 1 "[?d, Waiting q]" q st g now] g q ok by simp
  obtain st1 where s1: "add_grant_spend_body now gid (req_cost q) st = Inr (st1, ())"
    "get_grant gid st1 = Inr (add_spend (req_cost q) now g)" using spend [OF g] by blast
  obtain st2 where s2: "add_grant_spend_body now gid (req_cost q) st1 = Inr (st2, ())"
    "get_grant gid st2 = Inr (add_spend (req_cost q) now (add_spend (req_cost q) now g))" using spend [OF s1(2)] by blast
  have 3: "race_step now (st, [?d, ?d]) (st1, [Finished, ?d])"
    using race_spend [of 0 "[?d, ?d]" gid "req_cost q" now st st1] s1 by simp
  have 4: "race_step now (st1, [Finished, ?d]) (st2, [Finished, Finished])"
    using race_spend [of 1 "[Finished, ?d]" gid "req_cost q" now st1 st2] s2 by simp
  have "(race_step now)\<^sup>*\<^sup>* (st, [Waiting q, Waiting q]) (st2, [Finished, Finished])"
    using 1 2 3 4 by (meson rtranclp.rtrancl_into_rtrancl rtranclp.rtrancl_refl)
  then show ?thesis using s2(2) big by (intro exI [of _ st2]) (auto simp: add.assoc)
qed

subsection \<open>Witnesses\<close>

definition sample_world :: "unit world" where
  "sample_world = \<lparr>w_clk = (\<lambda>i. 7), w_rnd = (\<lambda>i. ''0123456789''), w_io = (\<lambda>i. io_ok), w_gen = Some (''PUB'', ''PRIV''),
     w_sha = id, w_att = sample_crypto, w_receipt_marshal = (\<lambda>r. Some (s_id r)), w_sign = (\<lambda>k m. k @ m),
     w_unmarshal = (\<lambda>b. Some []), w_marshal = (\<lambda>p. []), w_usage = (\<lambda>b. None),
     w_floats = \<lparr>f_int = (\<lambda>f. 0), f_micros = (\<lambda>f. 0), f_pos = (\<lambda>f. False)\<rparr>, w_escape = id, w_loopback = (\<lambda>a. True),
     w_upstream = (\<lambda>q. UpOk \<lparr>rs_status = 200, rs_header = (\<lambda>h. []), rs_body = []\<rparr>)\<rparr>"

definition sample_config :: config where
  "sample_config = \<lparr>c_ssh_dir = [], c_host = [], c_port = 0, c_openai = ''http://o'', c_openrouter = ''http://r'',
     c_ollama = ''http://l'', c_anthropic = ''http://a'', c_deepseek = ''http://d'', c_gemini = ''http://g'',
     c_venice = ''http://v'', c_hetzner = ''http://h'', c_trymaple = ''http://t''\<rparr>"

definition sample_headers :: "string \<Rightarrow> string" where
  "sample_headers n =
     (if n = ''Authorization'' then ''Bearer abc''
      else if n = ''X-21Pins-Grant-ID'' then ''grt_1'' else if n = ''X-21Pins-Sub'' then ''ck:alice''
      else if n = ''X-21Pins-Capability'' then ''chat'' else if n = ''X-21Pins-Data-Class'' then ''public''
      else if n = ''X-21Pins-Cost-Cents'' then ''25'' else [])"

definition sample_state :: state where
  "sample_state = empty_state\<lparr>grants := [sample_grant],
     tokens := [\<lparr>t_name = ''ci'', t_hash = hex_encode ''abc'', t_scopes = [''proxy:*''], t_created_at = [],
                t_revoked_at = [], t_last_used_at = []\<rparr>],
     provider_keys := [(''openai'', ''sk'')]\<rparr>"

definition sample_request :: request where
  "sample_request = \<lparr>rq_method = ''GET'', rq_path = ''/v1/providers/openai/v1/models'', rq_query = [], rq_remote = [],
     rq_header = sample_headers, rq_body = [], rq_body_err = False\<rparr>"

lemma sample_serve:
  "fst (snd (serve sample_world sample_config (\<lambda>r s. (NoContentReply, [], s)) sample_request (saved sample_state)))
     = [\<lparr>up_target = ''http://o/v1/models'', up_method = ''GET'',
         up_headers = [(''Content-Type'', []), (''Authorization'', ''Bearer sk'')], up_body = []\<rparr>]"
  by code_simp

lemma forwarding_authorised_witness:
  "\<exists>scope s1. validate_token id io_ok 7 ''abc'' scope (saved sample_state) = (True, s1)
     \<and> (\<exists>provider. policy_allows sample_world sample_headers provider (mem s1))"
proof -
  let ?ssh = "\<lambda>r s. (NoContentReply, [], s)"
  obtain rep sent s' where r: "serve sample_world sample_config ?ssh sample_request (saved sample_state) = (rep, sent, s')"
    by (metis prod_cases3)
  then have h: "hd sent \<in> set sent" using sample_serve by simp
  have n: "\<And>r s. fst (snd (?ssh r s)) = []" by simp
  obtain scope provider s1 where v: "validate_token (w_sha sample_world) (w_io sample_world 0) (w_clk sample_world 0)
       (bearer_token (rq_header sample_request ''Authorization'')) scope (saved sample_state) = (True, s1)"
    "policy_allows sample_world (rq_header sample_request) provider (mem s1)"
    using forwarding_authorised [OF r h n] by blast
  have b: "bearer_token (sample_headers ''Authorization'') = ''abc''" by code_simp
  show ?thesis using v b by (auto simp: sample_world_def sample_request_def)
qed

definition sample_action :: action_request where
  "sample_action = \<lparr>req_grant_id = ''grt_1'', req_sub = ''ck:alice'', req_capability = ''chat'', req_data_class = ''public'',
     req_target = ''openai'', req_cost = 25, req_approval_id = [], req_approval_granted = False\<rparr>"

lemma sample_reads: "read_policy_headers sample_headers ''openai'' = PolicyHeaders sample_action"
  by code_simp

lemma sample_allowed: "er_decision (evaluate_action sample_grant sample_action 7) = DecisionAllow"
  by code_simp

lemma sample_grant_found: "get_grant ''grt_1'' sample_state = Inr sample_grant"
  by (simp add: get_grant_def sample_state_def sample_grant_def)

lemma enforcement_records_witness:
  "\<exists>st' r g'. snd (enforce_policy sample_world sample_headers ''openai'' (saved sample_state)) = saved st'
     \<and> receipts st' = [r] \<and> r_cost r = 25 \<and> get_grant ''grt_1'' st' = Inr g'
     \<and> spent_cents (spend_policy (g_pins g')) = 25"
proof -
  have w: "\<forall>i. w_io sample_world i = io_ok" "\<forall>x. w_receipt_marshal sample_world x \<noteq> None" "w_clk sample_world 2 = 7"
    by (simp_all add: sample_world_def)
  have c: "check_approval sample_world sample_action sample_state = Inr False"
    by (simp add: check_approval_def sample_action_def)
  have g: "get_grant (req_grant_id sample_action) sample_state = Inr sample_grant"
    using sample_grant_found by (simp add: sample_action_def)
  have q: "sample_action\<lparr>req_approval_granted := False\<rparr> = sample_action" by (simp add: sample_action_def)
  show ?thesis
    using enforcement_records [OF w(1) sample_reads g c w(2) refl] sample_allowed w(3) q
    by (auto simp: sample_action_def sample_grant_def recorded_for_def sample_state_def empty_state_def)
qed

lemma sequential_budget_safe_witness:
  "\<exists>st'. enforce_all [(sample_world, sample_headers, ''openai''), (sample_world, sample_headers, ''openai'')] (saved sample_state)
         = saved st' \<and> within_budget ''grt_1'' st'"
proof (rule sequential_budget_safe)
  show "within_budget ''grt_1'' sample_state"
    using sample_grant_found by (simp add: within_budget_def) (simp add: sample_grant_def)
  show "\<forall>(w, h, target) \<in> set [(sample_world, sample_headers, ''openai''), (sample_world, sample_headers, ''openai'')].
      (\<forall>i. w_io w i = io_ok) \<and> (\<forall>q. read_policy_headers h target = PolicyHeaders q \<longrightarrow> sint (req_cost q) < 2 ^ 62)"
    using sample_reads by (simp add: sample_world_def sample_action_def)
qed

subsection \<open>Usage\<close>

lemma fold_plus: "fold (\<lambda>e n. n + f e) es (k :: i64) = k + sum_list (map f es)"
  by (induction es arbitrary: k) (simp_all add: add.assoc)

lemma sum_sorted: "sum_list (map f (sort_by le es)) = (sum_list (map f es) :: i64)"
  by (metis mset_map sort_by_mset sum_mset_sum_list)

lemma sorted_events [simp]: "sorted_wrt newer_event (sort_by newer_event es)"
  by (rule sorted_sort_by [OF newer_event_total newer_event_trans])

text \<open>
  The usage endpoint answers only a loopback \<open>GET\<close> with a live token that has \<open>usage:read\<close>; it then
  lists every stored event once, newest first, and its totals are the sums over the stored events,
  whatever the order. Nothing is ever sent to a provider, and neither this surface nor the SSH routes
  carry CORS headers.
\<close>

theorem usage_endpoint_spec:
  "handle_usage w r s = (rep, sent, s') \<Longrightarrow>
     sent = [] \<and> \<not> cors_set ''/v1/usage'' \<and> \<not> cors_set (''/v1/ssh/'' @ rest)
     \<and> (\<not> is_loopback_request w r \<longrightarrow> s' = s \<and> rep = ErrorReply 403 ''usage endpoint is loopback-only'')
     \<and> (\<forall>totals events. rep = UsageReply totals events \<longrightarrow>
          is_loopback_request w r \<and> rq_method r = ''GET''
          \<and> validate_token (w_sha w) (w_io w 0) (w_clk w 0) (bearer_token (rq_header r ''Authorization'')) ''usage:read'' s = (True, s')
          \<and> mset events = mset (usage_events (mem s')) \<and> sorted_wrt newer_event events
          \<and> map_of totals ''requests'' = Some (of_nat (length (usage_events (mem s'))))
          \<and> map_of totals ''total_tokens'' = Some (sum_list (map ue_total_tokens (usage_events (mem s'))))
          \<and> map_of totals ''estimated_cost_micros'' = Some (sum_list (map ue_cost_micros (usage_events (mem s')))))"
  by (auto simp: handle_usage_def Let_def list_usage_events_def fold_plus sum_sorted sort_by_mset
      cors_set_def is_usage_surface_def has_prefix_iff
      split: if_splits prod.splits bool.splits)

lemma usage_endpoint_spec_witness:
  "\<exists>totals s'. handle_usage sample_world (sample_request\<lparr>rq_remote := ''127.0.0.1''\<rparr>) (saved sample_state)
         = (UsageReply totals [], [], s') \<and> map_of totals ''requests'' = Some 0"
proof -
  let ?r = "sample_request\<lparr>rq_remote := ''127.0.0.1''\<rparr>"
  obtain rep sent s' where h: "handle_usage sample_world ?r (saved sample_state) = (rep, sent, s')"
    by (metis prod_cases3)
  have "case handle_usage sample_world ?r (saved sample_state) of
      (UsageReply t e, _, s') \<Rightarrow> e = [] \<and> usage_events (mem s') = [] | _ \<Rightarrow> False"
    by code_simp
  then obtain totals where u: "rep = UsageReply totals []" "usage_events (mem s') = []"
    using h by (auto split: reply.splits)
  show ?thesis using usage_endpoint_spec [OF h] u h by auto
qed

end
