(* ===== verification/Files.thy ===== *)
theory Files
  imports Tokens
begin

unbundle bit_operations_syntax

text \<open>
  What the SSH packages take from Go and from the operating system: UTF-8 and the control and
  format characters, \<open>filepath\<close> on Unix paths, identifiers, \<open>time.ParseDuration\<close>, and the
  checks of owner, kind and permission bits of the files they trust.

  A file system is a function from paths to what \<open>lstat\<close> or \<open>open\<close> returns; every
  theorem holds for each such function.
\<close>

subsection \<open>Runes\<close>

text \<open>
  \<open>utf8.DecodeRune\<close> of a byte sequence: the rune and its length, \<open>None\<close> on an invalid
  encoding (overlong forms, surrogates and values above U+10FFFF are invalid).
\<close>

definition cont :: "nat \<Rightarrow> bool" where
  "cont b \<longleftrightarrow> 128 \<le> b \<and> b < 192"

fun decode_rune :: "nat list \<Rightarrow> (nat \<times> nat) option" where
  "decode_rune [] = None"
| "decode_rune (a # s) =
     (if a < 128 then Some (a, 1)
      else case s of
        [] \<Rightarrow> None
      | b # t \<Rightarrow>
         if \<not> cont b then None
         else if 194 \<le> a \<and> a < 224 then Some ((a - 192) * 64 + (b - 128), 2)
         else case t of
           [] \<Rightarrow> None
         | c # u \<Rightarrow>
            if \<not> cont c then None
            else if 224 \<le> a \<and> a < 240 then
              (let r = (a - 224) * 4096 + (b - 128) * 64 + (c - 128) in
               if r < 2048 \<or> (55296 \<le> r \<and> r < 57344) then None else Some (r, 3))
            else case u of
              [] \<Rightarrow> None
            | d # _ \<Rightarrow>
               if \<not> cont d \<or> a < 240 \<or> 245 \<le> a then None
               else (let r = (a - 240) * 262144 + (b - 128) * 4096 + (c - 128) * 64 + (d - 128) in
                     if r < 65536 \<or> 1114112 \<le> r then None else Some (r, 4)))"

lemma decode_rune_length: "decode_rune s = Some (r, n) \<Longrightarrow> 0 < n"
  by (cases s) (auto simp: Let_def split: if_splits list.splits)

function runes :: "nat list \<Rightarrow> nat list option" where
  "runes s =
     (if s = [] then Some []
      else case decode_rune s of
        None \<Rightarrow> None
      | Some (r, n) \<Rightarrow> if n = 0 then None else map_option (Cons r) (runes (drop n s)))"
  by pat_completeness auto
termination by (relation "measure length") auto

declare runes.simps [simp del]

definition valid_utf8 :: "string \<Rightarrow> bool" where
  "valid_utf8 s \<longleftrightarrow> runes (map byte s) \<noteq> None"

text \<open>\<open>unicode.IsControl\<close> and the category \<open>Cf\<close>.\<close>

definition control_rune :: "nat \<Rightarrow> bool" where
  "control_rune r \<longleftrightarrow> r < 32 \<or> (127 \<le> r \<and> r < 160)"

definition format_ranges :: "(nat \<times> nat) list" where
  "format_ranges =
     [(0xAD, 0xAD), (0x600, 0x605), (0x61C, 0x61C), (0x6DD, 0x6DD), (0x70F, 0x70F), (0x890, 0x891),
      (0x8E2, 0x8E2), (0x180E, 0x180E), (0x200B, 0x200F), (0x202A, 0x202E), (0x2060, 0x2064),
      (0x2066, 0x206F), (0xFEFF, 0xFEFF), (0xFFF9, 0xFFFB), (0x110BD, 0x110BD), (0x110CD, 0x110CD),
      (0x13430, 0x1343F), (0x1BCA0, 0x1BCA3), (0x1D173, 0x1D17A), (0xE0001, 0xE0001), (0xE0020, 0xE007F)]"

definition format_rune :: "nat \<Rightarrow> bool" where
  "format_rune r \<longleftrightarrow> list_ex (\<lambda>(lo, hi). lo \<le> r \<and> r \<le> hi) format_ranges"

text \<open>No format character is below U+00AD; evaluation tests that first.\<close>

lemma format_rune_code [code]:
  "format_rune r \<longleftrightarrow> \<not> r < 173 \<and> list_ex (\<lambda>(lo, hi). lo \<le> r \<and> r \<le> hi) format_ranges"
proof -
  have "\<forall>p \<in> set format_ranges. 173 \<le> fst p" by (simp add: format_ranges_def)
  then show ?thesis by (fastforce simp: format_rune_def list_ex_iff)
qed

text \<open>The runes a \<open>range\<close> loop over a string sees; an invalid byte reads as U+FFFD.\<close>

function range_runes :: "nat list \<Rightarrow> nat list" where
  "range_runes s =
     (if s = [] then []
      else case decode_rune s of
        None \<Rightarrow> 0xFFFD # range_runes (drop 1 s)
      | Some (r, n) \<Rightarrow> r # range_runes (drop (max 1 n) s))"
  by pat_completeness auto
termination by (relation "measure length") auto

declare range_runes.simps [simp del]

definition hidden_rune :: "nat \<Rightarrow> bool" where
  "hidden_rune r \<longleftrightarrow> control_rune r \<or> format_rune r"

text \<open>On ASCII text the runes are the bytes.\<close>

lemma runes_ascii: "list_all (\<lambda>b. b < 128) s \<Longrightarrow> runes s = Some s"
  by (induction s) (subst runes.simps, simp)+

lemma range_runes_ascii: "list_all (\<lambda>b. b < 128) s \<Longrightarrow> range_runes s = s"
  by (induction s) (subst range_runes.simps, simp)+

text \<open>A byte below 128 of valid UTF-8 text is one of its runes.\<close>

lemma decode_rune_multi: "decode_rune s = Some (r, n) \<Longrightarrow> (r < 128 \<and> n = 1 \<and> hd s = r) \<or> (\<forall>b \<in> set (take n s). 128 \<le> b)"
  by (cases s) (auto simp: Let_def cont_def split: if_splits list.splits)

lemma ascii_in_runes:
  "runes s = Some rs \<Longrightarrow> b \<in> set s \<Longrightarrow> b < 128 \<Longrightarrow> b \<in> set rs"
proof (induction s arbitrary: rs rule: runes.induct)
  case (1 s)
  then have "s \<noteq> []" by auto
  then obtain r n rs' where d: "decode_rune s = Some (r, n)" "n \<noteq> 0" and
    t: "runes (drop n s) = Some rs'" "rs = r # rs'"
    using "1.prems"(1) by (subst (asm) runes.simps) (auto split: option.splits if_splits)
  show ?case
  proof (cases "b \<in> set (drop n s)")
    case True
    then show ?thesis using "1.IH" [OF \<open>s \<noteq> []\<close> d(1) refl] d(2) t "1.prems"(3) by auto
  next
    case False
    then have "b \<in> set (take n s)" using "1.prems"(2) by (metis UnE append_take_drop_id set_append)
    then have "hd s = r \<and> n = 1" using decode_rune_multi [OF d(1)] "1.prems"(3) by fastforce
    then show ?thesis using \<open>b \<in> set (take n s)\<close> t(2) \<open>s \<noteq> []\<close> by (cases s) auto
  qed
qed

subsection \<open>Identifiers and paths\<close>

text \<open>\<open>^[a-zA-Z0-9][a-zA-Z0-9_-]{0,63}$\<close>, the pattern three packages share.\<close>

definition ident_char :: "char \<Rightarrow> bool" where
  "ident_char c \<longleftrightarrow> is_alnum c \<or> c = CHR ''_'' \<or> c = CHR ''-''"

definition identifier_ok :: "string \<Rightarrow> bool" where
  "identifier_ok s \<longleftrightarrow> s \<noteq> [] \<and> is_alnum (hd s) \<and> list_all ident_char (tl s) \<and> length s \<le> 64"

text \<open>\<open>filepath.Clean\<close>, \<open>Dir\<close> and \<open>Base\<close> on Unix. The accumulator holds the kept elements reversed.\<close>

fun clean_elems :: "bool \<Rightarrow> string list \<Rightarrow> string list \<Rightarrow> string list" where
  "clean_elems rooted acc [] = rev acc"
| "clean_elems rooted acc (c # cs) =
     (if c = [] \<or> c = ''.'' then clean_elems rooted acc cs
      else if c = ''..'' then
        (if acc \<noteq> [] \<and> hd acc \<noteq> ''..'' then clean_elems rooted (tl acc) cs
         else if rooted then clean_elems rooted acc cs
         else clean_elems rooted (c # acc) cs)
      else clean_elems rooted (c # acc) cs)"

definition path_clean :: "string \<Rightarrow> string" where
  "path_clean p =
     (if p = [] then ''.''
      else if hd p = CHR ''/'' then CHR ''/'' # join_with ''/'' (clean_elems True [] (split_on (CHR ''/'') p))
      else (case clean_elems False [] (split_on (CHR ''/'') p) of
              [] \<Rightarrow> ''.'' | cs \<Rightarrow> join_with ''/'' cs))"

definition path_dir :: "string \<Rightarrow> string" where
  "path_dir p = path_clean (rev (dropWhile (\<lambda>c. c \<noteq> CHR ''/'') (rev p)))"

definition path_base :: "string \<Rightarrow> string" where
  "path_base p =
     (if p = [] then ''.''
      else let s = trim_right_char (CHR ''/'') p in
           if s = [] then ''/'' else last (split_on (CHR ''/'') s))"

subsection \<open>Durations\<close>

text \<open>
  \<open>time.ParseDuration\<close>. The nanoseconds of a decimal fraction are computed by the library in
  \<open>float64\<close>; \<open>frac digits unit\<close> stands for that part, for the digits after the point. The
  bounds on the 64-bit intermediate values, and their wrap-around, are the library's.
\<close>

definition unit_ns :: "string \<Rightarrow> nat option" where
  "unit_ns u =
     (if u = ''ns'' then Some 1
      else if u = ''us'' \<or> map byte u = [194, 181, 115] \<or> map byte u = [206, 188, 115] then Some 1000
      else if u = ''ms'' then Some 1000000
      else if u = ''s'' then Some 1000000000
      else if u = ''m'' then Some 60000000000
      else if u = ''h'' then Some 3600000000000
      else None)"

definition unit_char :: "char \<Rightarrow> bool" where
  "unit_char c \<longleftrightarrow> c \<noteq> CHR ''.'' \<and> \<not> is_digit c"

text \<open>One number with its unit: its nanoseconds and the rest, \<open>None\<close> if malformed or too large.\<close>

definition duration_part :: "(string \<Rightarrow> nat \<Rightarrow> nat) \<Rightarrow> string \<Rightarrow> (nat \<times> string) option" where
  "duration_part frac s =
     (let whole = takeWhile is_digit s; rest = dropWhile is_digit s;
          dotted = (rest \<noteq> [] \<and> hd rest = CHR ''.'');
          fdigits = (if dotted then takeWhile is_digit (tl rest) else []);
          rest2 = (if dotted then dropWhile is_digit (tl rest) else rest);
          u = takeWhile unit_char rest2
      in if digits_value whole > 2 ^ 63 then None
         else if whole = [] \<and> fdigits = [] then None
         else if u = [] then None
         else case unit_ns u of
           None \<Rightarrow> None
         | Some n \<Rightarrow>
             if digits_value whole > 2 ^ 63 div n then None
             else (let v = (digits_value whole * n + (if digits_value fdigits > 0 then frac fdigits n else 0)) mod 2 ^ 64 in
                   if v > 2 ^ 63 then None else Some (v, dropWhile unit_char rest2)))"

lemma duration_part_shorter: "duration_part frac s = Some (v, r) \<Longrightarrow> length r < length s"
proof -
  assume a: "duration_part frac s = Some (v, r)"
  define rest where "rest = dropWhile is_digit s"
  define rest2 where "rest2 = (if rest \<noteq> [] \<and> hd rest = CHR ''.'' then dropWhile is_digit (tl rest) else rest)"
  have u: "takeWhile unit_char rest2 \<noteq> []" and r: "r = dropWhile unit_char rest2"
    using a unfolding duration_part_def Let_def rest2_def rest_def by (auto split: if_splits option.splits)
  have "length rest \<le> length s" by (simp add: rest_def length_dropWhile_le)
  moreover have "length rest2 \<le> length rest"
    unfolding rest2_def using length_dropWhile_le [of is_digit "tl rest"] by (auto intro: order_trans)
  moreover have "length r < length rest2"
    using u r by (metis add.left_neutral length_append length_greater_0_conv less_add_same_cancel2 takeWhile_dropWhile_id)
  ultimately show ?thesis by simp
qed

function duration_parts :: "(string \<Rightarrow> nat \<Rightarrow> nat) \<Rightarrow> nat \<Rightarrow> string \<Rightarrow> nat option" where
  "duration_parts frac d s =
     (if s = [] then Some d
      else case duration_part frac s of
        None \<Rightarrow> None
      | Some (v, r) \<Rightarrow>
          if (d + v) mod 2 ^ 64 > 2 ^ 63 then None else duration_parts frac ((d + v) mod 2 ^ 64) r)"
  by pat_completeness auto
termination
  by (relation "measure (\<lambda>(f, d, s). length s)") (auto dest: duration_part_shorter)

declare duration_parts.simps [simp del]

definition parse_duration :: "(string \<Rightarrow> nat \<Rightarrow> nat) \<Rightarrow> string \<Rightarrow> int option" where
  "parse_duration frac s =
     (let neg = (s \<noteq> [] \<and> hd s = CHR ''-'');
          body = (if s \<noteq> [] \<and> (hd s = CHR ''-'' \<or> hd s = CHR ''+'') then tl s else s)
      in if body = ''0'' then Some 0
         else if body = [] then None
         else case duration_parts frac 0 body of
           None \<Rightarrow> None
         | Some d \<Rightarrow>
             if neg then Some (- int d)
             else if d > 2 ^ 63 - 1 then None else Some (int d))"

subsection \<open>Files the program trusts\<close>

datatype node_kind = RegularFile | Directory | Symlink | OtherFile

record node =
  n_kind :: node_kind
  n_uid :: nat
  n_perm :: nat

definition no_bits :: "nat \<Rightarrow> node \<Rightarrow> bool" where
  "no_bits bits n \<longleftrightarrow> (n_perm n AND bits) = 0"

text \<open>Outcome of \<open>os.Lstat\<close>.\<close>

datatype lstat_result = Missing | LstatError | Found node

subsection \<open>Absolute paths\<close>

definition plain_elem :: "string \<Rightarrow> bool" where
  "plain_elem c \<longleftrightarrow> c \<noteq> [] \<and> c \<noteq> ''.'' \<and> c \<noteq> ''..'' \<and> CHR ''/'' \<notin> set c"

definition abs_path :: "string list \<Rightarrow> string" where
  "abs_path cs = CHR ''/'' # join_with ''/'' cs"

lemma split_on_no_sep: "w \<in> set (split_on c s) \<Longrightarrow> c \<notin> set w"
  by (induction s arbitrary: w) (auto split: if_splits list.splits)

lemma split_on_join:
  "ws \<noteq> [] \<Longrightarrow> \<forall>w \<in> set ws. c \<notin> set w \<Longrightarrow> split_on c (join_with [c] ws) = ws"
proof (induction "[c]" ws rule: join_with.induct)
  case (2 w)
  then show ?case by (simp add: split_on_plain)
next
  case (3 w v ws)
  then show ?case using split_on_append [of c w "join_with [c] (v # ws)"] by simp
qed simp

lemma clean_elems_plain: "list_all plain_elem cs \<Longrightarrow> clean_elems True acc cs = rev acc @ cs"
  by (induction cs arbitrary: acc) (simp_all add: plain_elem_def)

lemma clean_elems_result:
  "list_all plain_elem acc \<Longrightarrow> \<forall>c \<in> set cs. CHR ''/'' \<notin> set c \<Longrightarrow> list_all plain_elem (clean_elems True acc cs)"
proof (induction cs arbitrary: acc)
  case (Cons c cs)
  have t: "list_all plain_elem (tl acc)" using Cons.prems(1) by (cases acc) simp_all
  show ?case using Cons.IH [OF Cons.prems(1)] Cons.IH [OF t] Cons.IH [of "c # acc"] Cons.prems
    by (auto simp: plain_elem_def)
qed (auto simp: list_all_iff)

lemma path_clean_abs: "list_all plain_elem cs \<Longrightarrow> path_clean (abs_path cs) = abs_path cs"
proof (cases "cs = []")
  case False
  assume p: "list_all plain_elem cs"
  then have "split_on (CHR ''/'') (join_with ''/'' cs) = cs"
    using False by (intro split_on_join) (auto simp: list_all_iff plain_elem_def)
  then show ?thesis using p by (simp add: path_clean_def abs_path_def clean_elems_plain)
qed (simp add: path_clean_def abs_path_def)

text \<open>The fixed points of \<open>Clean\<close> that start with a slash are the paths with plain elements.\<close>

lemma clean_abs_path:
  assumes "path_clean s = s" and "s \<noteq> []" and "hd s = CHR ''/''"
  obtains cs where "s = abs_path cs" and "list_all plain_elem cs"
proof
  show "s = abs_path (clean_elems True [] (split_on (CHR ''/'') s))"
    using assms by (simp add: path_clean_def abs_path_def)
  show "list_all plain_elem (clean_elems True [] (split_on (CHR ''/'') s))"
    by (rule clean_elems_result) (simp_all add: split_on_no_sep)
qed

lemma join_with_snoc: "cs \<noteq> [] \<Longrightarrow> join_with sep (cs @ [c]) = join_with sep cs @ sep @ c"
  by (induction sep cs rule: join_with.induct) auto

lemma clean_elems_append_empty: "clean_elems rooted acc (cs @ [[]]) = clean_elems rooted acc cs"
  by (induction rooted acc cs rule: clean_elems.induct) auto

lemma split_on_snoc_sep: "split_on c (s @ [c]) = split_on c s @ [[]]"
  by (induction s) (auto split: list.splits)

lemma path_clean_trailing:
  "path_clean (CHR ''/'' # s @ ''/'') = path_clean (CHR ''/'' # s)"
  by (simp add: path_clean_def split_on_snoc_sep clean_elems_append_empty)

lemma path_dir_abs:
  assumes "list_all plain_elem (cs @ [c])"
  shows "path_dir (abs_path (cs @ [c])) = abs_path cs"
proof -
  have c: "CHR ''/'' \<notin> set c" using assms by (simp add: plain_elem_def)
  have drop: "rev (dropWhile (\<lambda>x. x \<noteq> CHR ''/'') (rev (p @ CHR ''/'' # c))) = p @ ''/''" for p
  proof -
    have "dropWhile (\<lambda>x. x \<noteq> CHR ''/'') (rev c @ CHR ''/'' # rev p) = CHR ''/'' # rev p"
      using c by (subst dropWhile_append2) auto
    then show ?thesis by simp
  qed
  show ?thesis
  proof (cases "cs = []")
    case True
    then show ?thesis using drop [of "[]"] by (simp add: path_dir_def abs_path_def path_clean_def)
  next
    case False
    have "abs_path (cs @ [c]) = abs_path cs @ CHR ''/'' # c"
      using False by (simp add: abs_path_def join_with_snoc)
    then have "path_dir (abs_path (cs @ [c])) = path_clean (abs_path cs @ ''/'')"
      unfolding path_dir_def using drop by metis
    also have "\<dots> = path_clean (abs_path cs)" by (simp add: abs_path_def path_clean_trailing)
    also have "\<dots> = abs_path cs" using assms by (simp add: path_clean_abs)
    finally show ?thesis .
  qed
qed

lemma path_dir_root [simp]: "path_dir ''/'' = ''/''"
  by code_simp

end
