(* ===== verification/SshCommand.thy ===== *)
theory SshCommand
  imports Files
begin

unbundle bit_operations_syntax

text \<open>
  Package \<open>internal/sshcommand\<close> (\<open>gate.go\<close>): the forced command of an SSH role. It parses the
  literal command the client asked for, looks it up in the allowlist of a root-owned policy
  file and runs the fixed program of the matching rule, never a shell.

  Every refusal of the package is the one error \<open>Denied\<close>, here \<open>None\<close> or \<open>False\<close>. SHA-256 and
  the JSON form of rules and policies are fields of the environment.
\<close>

subsection \<open>Rules and policies\<close>

record rule =
  rl_command :: "string list"
  rl_exec :: "string list"

record role_policy =
  rp_user :: string
  rp_rules :: "rule list"

record command_policy =
  cp_workspace :: string
  cp_host :: string
  cp_roles :: "role_policy gomap"

record authority =
  au_binary :: string
  au_policy_file :: string
  au_rules :: "rule list"
  au_fixture :: bool

text \<open>\<open>^/[a-zA-Z0-9_./-]+$\<close>\<close>

definition path_word :: "string \<Rightarrow> bool" where
  "path_word s \<longleftrightarrow> (case s of
       c # r \<Rightarrow> c = CHR ''/'' \<and> r \<noteq> [] \<and> list_all (\<lambda>c. is_alnum c \<or> c \<in> set ''_./-'') r
     | [] \<Rightarrow> False)"

definition clean_path :: "string \<Rightarrow> bool" where
  "clean_path s \<longleftrightarrow> path_word s \<and> path_clean s = s \<and> \<not> contains_sub s ''//''"

definition unsafe_text :: "string \<Rightarrow> bool" where
  "unsafe_text s =
     (case runes (map byte s) of None \<Rightarrow> True | Some rs \<Rightarrow> list_ex hidden_rune rs)"

definition shells :: "string list" where
  "shells = [''sh'', ''bash'', ''dash'', ''zsh'', ''ksh'', ''csh'', ''fish'', ''env'', ''python'', ''python3'',
             ''node'', ''perl'', ''ruby'']"

definition shell_meta :: "char set" where
  "shell_meta = set ([CHR '';'', CHR ''$'', CHR 0x60, CHR ''|'', CHR ''&'', CHR ''<'', CHR ''>'', CHR 0x5C]
                     @ ''(){}'')"

definition word_ok :: "string \<Rightarrow> bool" where
  "word_ok v \<longleftrightarrow> v \<noteq> [] \<and> length v \<le> 256 \<and> \<not> unsafe_text v"

definition rule_ok :: "rule \<Rightarrow> bool" where
  "rule_ok r \<longleftrightarrow>
     rl_command r \<noteq> [] \<and> length (rl_command r) \<le> 8 \<and> rl_exec r \<noteq> [] \<and> length (rl_exec r) \<le> 16
     \<and> clean_path (hd (rl_exec r))
     \<and> path_base (hd (rl_exec r)) \<notin> set shells
     \<and> list_all word_ok (rl_command r @ rl_exec r)
     \<and> list_all (\<lambda>v. \<forall>c \<in> set v. c \<notin> shell_meta) (rl_command r)"

text \<open>The key under which a command is remembered: its words joined by NUL.\<close>

definition command_key :: "string list \<Rightarrow> string" where
  "command_key ws = join_with [CHR 0x00] ws"

fun check_rules :: "string list \<Rightarrow> rule list \<Rightarrow> bool" where
  "check_rules seen [] = True"
| "check_rules seen (r # rs) =
     (rule_ok r \<and> command_key (rl_command r) \<notin> set seen
      \<and> check_rules (command_key (rl_command r) # seen) rs)"

definition validate_rules :: "rule list \<Rightarrow> bool" where
  "validate_rules rules \<longleftrightarrow> rules \<noteq> [] \<and> length rules \<le> 32 \<and> check_rules [] rules"

definition validate_authority :: "authority \<Rightarrow> bool" where
  "validate_authority a \<longleftrightarrow>
     clean_path (au_binary a) \<and> clean_path (au_policy_file a) \<and> au_rules a \<noteq> [] \<and> validate_rules (au_rules a)"

fun check_roles :: "string list \<Rightarrow> role_policy gomap \<Rightarrow> bool" where
  "check_roles users [] = True"
| "check_roles users ((role, r) # rest) =
     (identifier_ok role \<and> identifier_ok (rp_user r) \<and> rp_user r \<noteq> ''root'' \<and> rp_user r \<notin> set users
      \<and> validate_rules (rp_rules r) \<and> check_roles (rp_user r # users) rest)"

definition validate_policy :: "command_policy \<Rightarrow> bool" where
  "validate_policy p \<longleftrightarrow>
     identifier_ok (cp_workspace p) \<and> identifier_ok (cp_host p) \<and> cp_roles p \<noteq> [] \<and> length (cp_roles p) \<le> 32
     \<and> check_roles [] (cp_roles p)"

definition policy_role :: "command_policy \<Rightarrow> string \<Rightarrow> string \<Rightarrow> string \<Rightarrow> string \<Rightarrow> role_policy option" where
  "policy_role p workspace host role username =
     (if \<not> validate_policy p \<or> cp_workspace p \<noteq> workspace \<or> cp_host p \<noteq> host then None
      else case map_of (cp_roles p) role of
        None \<Rightarrow> None
      | Some r \<Rightarrow> if rp_user r \<noteq> username then None else Some r)"

subsection \<open>Digest and forced command\<close>

type_synonym rules_hash = "rule list \<Rightarrow> string"

text \<open>\<open>hash\<close> is \<open>sha256\<close> of the JSON of the rules: 32 bytes.\<close>

definition rules_digest :: "rules_hash \<Rightarrow> rule list \<Rightarrow> string" where
  "rules_digest hash rules = hex_encode (hash rules)"

definition forced_command ::
    "rules_hash \<Rightarrow> authority \<Rightarrow> string \<Rightarrow> string \<Rightarrow> string \<Rightarrow> string \<Rightarrow> string option" where
  "forced_command hash a workspace host role username =
     (if \<not> validate_authority a \<or> \<not> identifier_ok workspace \<or> \<not> identifier_ok host \<or> \<not> identifier_ok role
         \<or> \<not> identifier_ok username \<or> username = ''root'' then None
      else Some (au_binary a @ '' ssh gate --policy '' @ au_policy_file a @ '' --workspace '' @ workspace
             @ '' --host '' @ host @ '' --role '' @ role @ '' --user '' @ username
             @ '' --rules-digest '' @ rules_digest hash (au_rules a)
             @ (if au_fixture a then '' --dev-fixture'' else [])))"

subsection \<open>The literal grammar\<close>

definition quote :: char where "quote = CHR 0x27"
definition dquote :: char where "dquote = CHR 0x22"

definition bare_char :: "char \<Rightarrow> bool" where
  "bare_char c \<longleftrightarrow> is_alnum c \<or> c \<in> set ''/_.,:@%+=-''"

text \<open>
  One word, up to a space or the end: quoted pieces, the three characters the client writes
  for a quote inside a quoted piece, and bare characters.
\<close>

function take_word :: "string \<Rightarrow> string \<Rightarrow> (string \<times> string) option" where
  "take_word w s =
     (case s of
        [] \<Rightarrow> Some (w, [])
      | c # r \<Rightarrow>
          if c = CHR '' '' then Some (w, s)
          else if c = quote then
            (if quote \<notin> set r then None
             else take_word (w @ takeWhile (\<lambda>x. x \<noteq> quote) r) (tl (dropWhile (\<lambda>x. x \<noteq> quote) r)))
          else if c = dquote then
            (if take 3 s \<noteq> [dquote, quote, dquote] then None else take_word (w @ [quote]) (drop 3 s))
          else if bare_char c then take_word (w @ [c]) r
          else None)"
  by pat_completeness auto
termination
proof (relation "measure (\<lambda>(w, s). length s)", goal_cases)
  case (2 w s c r)
  have "length (tl (dropWhile (\<lambda>x. x \<noteq> quote) r)) \<le> length r"
    using length_dropWhile_le [of "\<lambda>x. x \<noteq> quote" r] by (simp add: diff_le_self order_trans)
  then show ?case using 2 by simp
qed auto

declare take_word.simps [simp del]

lemma take_word_Nil [simp]: "take_word w [] = Some (w, [])"
  by (simp add: take_word.simps)

lemma take_word_Cons:
  "take_word w (c # r) =
     (if c = CHR '' '' then Some (w, c # r)
      else if c = quote then
        (if quote \<notin> set r then None
         else take_word (w @ takeWhile (\<lambda>x. x \<noteq> quote) r) (tl (dropWhile (\<lambda>x. x \<noteq> quote) r)))
      else if c = dquote then
        (if take 3 (c # r) \<noteq> [dquote, quote, dquote] then None else take_word (w @ [quote]) (drop 3 (c # r)))
      else if bare_char c then take_word (w @ [c]) r
      else None)"
  by (subst take_word.simps) simp

lemma tl_dropWhile_le: "length (tl (dropWhile P r)) \<le> length r"
  using length_dropWhile_le [of P r] by (simp add: diff_le_self order_trans)

lemma take_word_length: "take_word w s = Some (v, r) \<Longrightarrow> length r \<le> length s"
proof (induction w s rule: take_word.induct)
  case (1 w s)
  show ?case
  proof (cases s)
    case (Cons c t)
    note ih = "1.IH" [OF Cons]
    show ?thesis
      using "1.prems" ih tl_dropWhile_le [of "\<lambda>x. x \<noteq> quote" t] Cons
      by (cases "c = CHR '' ''"; cases "c = quote"; cases "c = dquote")
         (auto simp: take_word_Cons split: if_splits)
  qed (use "1.prems" in simp)
qed

definition skip_spaces :: "string \<Rightarrow> string" where
  "skip_spaces s = dropWhile (\<lambda>c. c = CHR '' '') s"

text \<open>A word starts at a character that is no space, so it consumes at least that one.\<close>

lemma take_word_progress:
  assumes "take_word [] s = Some (v, r)" and "s \<noteq> []" and "hd s \<noteq> CHR '' ''"
  shows "length r < length s"
proof -
  obtain c t where s: "s = c # t" using assms(2) by (cases s) auto
  have "(\<exists>w u. take_word w u = Some (v, r) \<and> length u \<le> length t)"
    using assms(1,3) s tl_dropWhile_le [of "\<lambda>x. x \<noteq> quote" t]
    by (fastforce simp: take_word_Cons split: if_splits)
  then show ?thesis using s take_word_length by fastforce
qed

function parse_words :: "string list \<Rightarrow> string \<Rightarrow> string list option" where
  "parse_words out s =
     (if skip_spaces s = [] then Some out
      else case take_word [] (skip_spaces s) of
        None \<Rightarrow> None
      | Some (w, r) \<Rightarrow>
          if length w > 256 \<or> length out \<ge> 8 then None else parse_words (out @ [w]) r)"
  by pat_completeness auto
termination
proof (relation "measure (\<lambda>(out, s). length s)", goal_cases)
  case (2 out s a w r)
  have "hd (skip_spaces s) \<noteq> CHR '' ''"
    using 2(1) unfolding skip_spaces_def by (rule hd_dropWhile)
  then have "length r < length (skip_spaces s)" using 2 by (auto intro: take_word_progress)
  moreover have "length (skip_spaces s) \<le> length s" by (simp add: skip_spaces_def length_dropWhile_le)
  ultimately show ?case by simp
qed simp

declare parse_words.simps [simp del]

definition parse_command :: "string \<Rightarrow> string list option" where
  "parse_command s =
     (if s = [] \<or> length s > 2048 \<or> unsafe_text s then None
      else case parse_words [] s of
        None \<Rightarrow> None
      | Some out \<Rightarrow> if out = [] then None else Some out)"

definition authorize_argv :: "role_policy \<Rightarrow> string list \<Rightarrow> string list option" where
  "authorize_argv r argv =
     (if \<not> validate_rules (rp_rules r) then None
      else map_option rl_exec (find (\<lambda>rule. rl_command rule = argv) (rp_rules r)))"

subsection \<open>Trusted files and the gate\<close>

text \<open>An opened file: its \<open>fstat\<close> and what reading it returns (\<open>None\<close> if the read fails).\<close>

record opened =
  op_node :: node
  op_data :: "string option"

record gate_env =
  ge_euid :: nat
  ge_uid :: nat
  ge_self :: "string option"
  ge_user :: "(string \<times> string) option"
  ge_lstat :: "string \<Rightarrow> node option"
  ge_open :: "string \<Rightarrow> opened option"
  ge_chdir :: bool
  ge_decode :: "string \<Rightarrow> command_policy option"
  ge_rules_hash :: rules_hash

definition trusted_dir :: "node \<Rightarrow> bool" where
  "trusted_dir n \<longleftrightarrow> n_kind n = Directory \<and> no_bits 0x12 n \<and> n_uid n = 0"

text \<open>The loop over the parent directories, which has no bound of its own.\<close>

partial_function (option) dirs_trusted :: "(string \<Rightarrow> node option) \<Rightarrow> string \<Rightarrow> bool option" where
  "dirs_trusted lstat dir =
     (case lstat dir of
        None \<Rightarrow> Some False
      | Some n \<Rightarrow>
          if \<not> trusted_dir n then Some False
          else if dir = ''/'' then Some True
          else dirs_trusted lstat (path_dir dir))"

definition trusted_file :: "nat \<Rightarrow> bool \<Rightarrow> node \<Rightarrow> bool" where
  "trusted_file uid fixture n \<longleftrightarrow>
     n_kind n = RegularFile \<and> no_bits 0x12 n
     \<and> (n_uid n = (if fixture then uid else 0) \<or> (fixture \<and> n_uid n = 0))"

definition trusted_open :: "gate_env \<Rightarrow> string \<Rightarrow> bool \<Rightarrow> opened option" where
  "trusted_open g path fixture =
     (if \<not> clean_path path then None
      else if \<not> fixture \<and> dirs_trusted (ge_lstat g) (path_dir path) \<noteq> Some True then None
      else case ge_open g path of
        None \<Rightarrow> None
      | Some f \<Rightarrow> if trusted_file (ge_uid g) fixture (op_node f) then Some f else None)"

definition load_policy :: "gate_env \<Rightarrow> string \<Rightarrow> bool \<Rightarrow> command_policy option" where
  "load_policy g path fixture =
     (case trusted_open g path fixture of
        None \<Rightarrow> None
      | Some f \<Rightarrow>
          (case op_data f of
             None \<Rightarrow> None
           | Some b \<Rightarrow>
               if length b > 65536 then None
               else (case ge_decode g b of
                       None \<Rightarrow> None
                     | Some p \<Rightarrow> if validate_policy p then Some p else None)))"

record exec_call =
  ex_path :: string
  ex_argv :: "string list"
  ex_environ :: "string list"

definition gate_environ :: "string list" where
  "gate_environ = [''PATH=/usr/bin:/bin'', ''LANG=C'', ''LC_ALL=C'', ''HOME=/'']"

text \<open>The program part: look the words up and check the program before it is run.\<close>

definition gate_exec :: "gate_env \<Rightarrow> role_policy \<Rightarrow> string \<Rightarrow> bool \<Rightarrow> exec_call option" where
  "gate_exec g r original fixture =
     (case parse_command original of
        None \<Rightarrow> None
      | Some argv \<Rightarrow>
          (case authorize_argv r argv of
             None \<Rightarrow> None
           | Some exec \<Rightarrow>
               (case trusted_open g (hd exec) fixture of
                  None \<Rightarrow> None
                | Some f \<Rightarrow>
                    if no_bits 0x49 (op_node f) then None
                    else if \<not> ge_chdir g then None
                    else Some \<lparr>ex_path = hd exec, ex_argv = exec, ex_environ = gate_environ\<rparr>)))"

definition gate_run ::
    "gate_env \<Rightarrow> string \<Rightarrow> string \<Rightarrow> string \<Rightarrow> string \<Rightarrow> string \<Rightarrow> string \<Rightarrow> string \<Rightarrow> bool \<Rightarrow> exec_call option" where
  "gate_run g policy_path workspace host role username digest original fixture =
     (if ge_euid g = 0 \<and> \<not> fixture then None
      else case ge_self g of
        None \<Rightarrow> None
      | Some self \<Rightarrow>
          if trusted_open g self fixture = None then None
          else case ge_user g of
            None \<Rightarrow> None
          | Some (name, uid) \<Rightarrow>
              if name \<noteq> username \<or> uid \<noteq> dec_nat (ge_uid g) then None
              else case load_policy g policy_path fixture of
                None \<Rightarrow> None
              | Some p \<Rightarrow>
                  (case policy_role p workspace host role name of
                     None \<Rightarrow> None
                   | Some r \<Rightarrow>
                       if length digest \<noteq> 64 \<or> digest \<noteq> rules_digest (ge_rules_hash g) (rp_rules r) then None
                       else gate_exec g r original fixture))"

subsection \<open>Rules\<close>

lemma clean_path_abs:
  assumes "clean_path s"
  obtains cs where "s = abs_path cs" and "list_all plain_elem cs" and "cs \<noteq> []"
proof -
  have "s \<noteq> []" "hd s = CHR ''/''" "path_clean s = s" "tl s \<noteq> []"
    using assms by (auto simp: clean_path_def path_word_def split: list.splits)
  then obtain cs where "s = abs_path cs" "list_all plain_elem cs" using clean_abs_path by blast
  moreover from this \<open>tl s \<noteq> []\<close> have "cs \<noteq> []" by (auto simp: abs_path_def)
  ultimately show ?thesis using that by blast
qed

text \<open>A validated word holds no byte of a control character, in particular no NUL.\<close>

lemma word_ok_ascii:
  assumes "word_ok v" and "c \<in> set v" and "byte c < 128"
  shows "\<not> control_rune (byte c)"
proof
  assume k: "control_rune (byte c)"
  obtain rs where rs: "runes (map byte v) = Some rs" "\<not> list_ex hidden_rune rs"
    using assms(1) by (auto simp: word_ok_def unsafe_text_def split: option.splits)
  have "byte c \<in> set rs" using ascii_in_runes [OF rs(1)] assms(2,3) by auto
  then show False using rs(2) k by (auto simp: list_ex_iff hidden_rune_def)
qed

lemma word_ok_no_nul: "word_ok v \<Longrightarrow> CHR 0x00 \<notin> set v"
  using word_ok_ascii [of v "CHR 0x00"] by (auto simp: control_rune_def byte_def)

lemma rule_ok_words: "rule_ok r \<Longrightarrow> list_all word_ok (rl_command r) \<and> list_all word_ok (rl_exec r)"
  by (simp add: rule_ok_def)

text \<open>So distinct commands have distinct keys, and the check of the keys is a check of the commands.\<close>

lemma command_key_inj:
  assumes "list_all word_ok a" and "list_all word_ok b" and "a \<noteq> []" and "b \<noteq> []"
    and "command_key a = command_key b"
  shows "a = b"
proof -
  have "split_on (CHR 0x00) (command_key ws) = ws" if "list_all word_ok ws" "ws \<noteq> []" for ws
    unfolding command_key_def using that word_ok_no_nul by (intro split_on_join) (auto simp: list_all_iff)
  then show ?thesis using assms by metis
qed

lemma check_rules_ok: "check_rules seen rs \<Longrightarrow> list_all rule_ok rs"
  by (induction seen rs rule: check_rules.induct) auto

lemma check_rules_fresh: "check_rules seen rs \<Longrightarrow> r \<in> set rs \<Longrightarrow> command_key (rl_command r) \<notin> set seen"
  by (induction seen rs rule: check_rules.induct) auto

lemma check_rules_distinct: "check_rules seen rs \<Longrightarrow> distinct (map rl_command rs)"
  by (induction seen rs rule: check_rules.induct) (auto dest: check_rules_fresh)

lemma validate_rules_facts:
  assumes "validate_rules rs"
  shows "list_all rule_ok rs" and "distinct (map rl_command rs)"
  using assms check_rules_ok check_rules_distinct by (auto simp: validate_rules_def)

lemma find_distinct:
  assumes "distinct (map f xs)" and "x \<in> set xs"
  shows "find (\<lambda>y. f y = f x) xs = Some x"
  using assms by (induction xs) (auto simp: image_iff)

text \<open>A command is run exactly by the one rule that lists it.\<close>

lemma authorize_argv_iff:
  assumes "validate_rules (rp_rules r)"
  shows "authorize_argv r argv = Some exec \<longleftrightarrow>
    (\<exists>rule \<in> set (rp_rules r). rl_command rule = argv \<and> rl_exec rule = exec)"
proof
  assume "authorize_argv r argv = Some exec"
  then show "\<exists>rule \<in> set (rp_rules r). rl_command rule = argv \<and> rl_exec rule = exec"
    using assms by (auto simp: authorize_argv_def find_Some_iff intro!: bexI [OF _ nth_mem])
next
  assume "\<exists>rule \<in> set (rp_rules r). rl_command rule = argv \<and> rl_exec rule = exec"
  then obtain rule where "rule \<in> set (rp_rules r)" "rl_command rule = argv" "rl_exec rule = exec" by blast
  then show "authorize_argv r argv = Some exec"
    using assms find_distinct [OF validate_rules_facts(2) [OF assms]] by (auto simp: authorize_argv_def)
qed

lemma check_roles_map:
  "check_roles users roles \<Longrightarrow> map_of roles role = Some r \<Longrightarrow> validate_rules (rp_rules r) \<and> rp_user r \<noteq> ''root''"
  by (induction users roles rule: check_roles.induct) (auto split: if_splits)

lemma policy_role_facts:
  assumes "policy_role p w h role u = Some r"
  shows "validate_policy p" "cp_workspace p = w" "cp_host p = h" "map_of (cp_roles p) role = Some r"
    "rp_user r = u" "validate_rules (rp_rules r)" "u \<noteq> ''root''"
  using assms check_roles_map
  by (auto simp: policy_role_def validate_policy_def split: if_splits option.splits)

subsection \<open>The walk over the parent directories\<close>

lemma dirs_trusted_abs:
  "list_all plain_elem cs \<Longrightarrow>
   dirs_trusted lstat (abs_path cs) =
     Some (\<forall>i \<le> length cs. case lstat (abs_path (take i cs)) of None \<Rightarrow> False | Some n \<Rightarrow> trusted_dir n)"
proof (induction cs rule: rev_induct)
  case Nil
  then show ?case by (subst dirs_trusted.simps) (simp add: abs_path_def split: option.split)
next
  case (snoc c cs)
  have ne: "abs_path (cs @ [c]) \<noteq> ''/''"
    using snoc.prems by (cases "cs = []") (auto simp: abs_path_def join_with_snoc plain_elem_def)
  have ih: "dirs_trusted lstat (path_dir (abs_path (cs @ [c]))) =
      Some (\<forall>i \<le> length cs. case lstat (abs_path (take i cs)) of None \<Rightarrow> False | Some n \<Rightarrow> trusted_dir n)"
    using snoc path_dir_abs [of cs c] by simp
  have all: "(\<forall>i \<le> Suc (length cs). P i) \<longleftrightarrow> P (Suc (length cs)) \<and> (\<forall>i \<le> length cs. P i)" for P
    by (auto simp: le_Suc_eq)
  show ?case
    using ne by (subst dirs_trusted.simps) (auto simp: ih all split: option.split)
qed

text \<open>The path elements of a clean path and the directories above it.\<close>

definition above :: "string \<Rightarrow> string list" where
  "above p = (let cs = split_on (CHR ''/'') (tl p) in map (\<lambda>i. abs_path (take i cs)) [0..<length cs])"

lemma above_abs:
  assumes "list_all plain_elem cs" and "cs \<noteq> []"
  shows "above (abs_path cs) = map (\<lambda>i. abs_path (take i cs)) [0..<length cs]"
proof -
  have "split_on (CHR ''/'') (join_with ''/'' cs) = cs"
    using assms by (intro split_on_join) (auto simp: list_all_iff plain_elem_def)
  then show ?thesis by (simp add: above_def abs_path_def Let_def)
qed

text \<open>
  (C11) The loop of \<open>trustedOpen\<close> over the parent directories ends for every path it is given,
  and accepts exactly when each directory above the file, up to the root, exists, is a
  directory and no symbolic link, belongs to root and is writable for nobody else.
\<close>

theorem directory_walk_terminates:
  assumes "clean_path p"
  shows "dirs_trusted lstat (path_dir p) =
    Some (list_all (\<lambda>d. case lstat d of None \<Rightarrow> False
                   | Some n \<Rightarrow> n_kind n = Directory \<and> n_uid n = 0 \<and> no_bits 0x12 n) (above p))"
proof -
  obtain cs where cs: "p = abs_path cs" "list_all plain_elem cs" "cs \<noteq> []"
    using clean_path_abs [OF assms] .
  then obtain ds c where ds: "cs = ds @ [c]" by (cases cs rule: rev_cases) auto
  have "path_dir p = abs_path ds" using path_dir_abs cs ds by simp
  moreover have "list_all plain_elem ds" using cs(2) ds by simp
  moreover have "above p = map (\<lambda>i. abs_path (take i ds)) [0..<Suc (length ds)]"
    using above_abs [OF cs(2,3)] cs(1) ds by simp
  moreover have "trusted_dir n \<longleftrightarrow> n_kind n = Directory \<and> n_uid n = 0 \<and> no_bits 0x12 n" for n
    by (auto simp: trusted_dir_def)
  moreover have "list_all P (map f [0..<Suc k]) \<longleftrightarrow> (\<forall>i \<le> k. P (f i))" for P :: "string \<Rightarrow> bool" and f k
    by (auto simp: list_all_iff less_Suc_eq_le simp del: upt_Suc)
  ultimately show ?thesis by (simp only: dirs_trusted_abs)
qed

definition sample_lstat :: "string \<Rightarrow> node option" where
  "sample_lstat p = Some \<lparr>n_kind = Directory, n_uid = 0, n_perm = 0x1ED\<rparr>"

theorem directory_walk_terminates_witness:
  "dirs_trusted sample_lstat (path_dir ''/usr/bin/uptime'') = Some True
   \<and> dirs_trusted (\<lambda>p. if p = ''/'' then None else sample_lstat p) (path_dir ''/usr/bin/uptime'') = Some False"
proof -
  have c: "clean_path ''/usr/bin/uptime''" by code_simp
  have a: "above ''/usr/bin/uptime'' = [''/'', ''/usr'', ''/usr/bin'']" by code_simp
  have b: "no_bits 0x12 \<lparr>n_kind = Directory, n_uid = 0, n_perm = 0x1ED\<rparr>" by code_simp
  show ?thesis
    using directory_walk_terminates [OF c, of sample_lstat] b
      directory_walk_terminates [OF c, of "\<lambda>p. if p = ''/'' then None else sample_lstat p"]
    by (simp add: a sample_lstat_def)
qed

text \<open>
  (C9) Whenever the gate runs a program, the policy file passed every trust and validation
  check for this workspace and host, the role belongs to the account the process runs as
  (never root), the digest in the forced command is the digest of the rules in the file, and the
  words of the client's command are, literally, the command of exactly one rule of that role; the
  program, its arguments and its environment are the ones of that rule, whatever else the client
  sent, and the program is a trusted executable file and no shell or interpreter.
\<close>

theorem gate_runs_only_listed:
  assumes "gate_run g policy_path w h role u digest original fixture = Some x"
  shows "\<exists>p r rule. load_policy g policy_path fixture = Some p \<and> cp_workspace p = w \<and> cp_host p = h
    \<and> map_of (cp_roles p) role = Some r \<and> rp_user r = u \<and> u \<noteq> ''root''
    \<and> ge_user g = Some (u, dec_nat (ge_uid g)) \<and> (ge_euid g \<noteq> 0 \<or> fixture)
    \<and> digest = rules_digest (ge_rules_hash g) (rp_rules r)
    \<and> rule \<in> set (rp_rules r) \<and> parse_command original = Some (rl_command rule)
    \<and> (\<forall>rule' \<in> set (rp_rules r). rl_command rule' = rl_command rule \<longrightarrow> rule' = rule)
    \<and> x = \<lparr>ex_path = hd (rl_exec rule), ex_argv = rl_exec rule, ex_environ = gate_environ\<rparr>
    \<and> path_base (ex_path x) \<notin> set shells
    \<and> (\<exists>f. trusted_open g (ex_path x) fixture = Some f \<and> \<not> no_bits 0x49 (op_node f))"
proof -
  obtain uid p r where u: "ge_user g = Some (u, uid)" "uid = dec_nat (ge_uid g)" "ge_euid g \<noteq> 0 \<or> fixture"
    and p: "load_policy g policy_path fixture = Some p" and r: "policy_role p w h role u = Some r"
    and d: "digest = rules_digest (ge_rules_hash g) (rp_rules r)" and x: "gate_exec g r original fixture = Some x"
    using assms by (auto simp: gate_run_def split: if_splits option.splits)
  note f = policy_role_facts [OF r]
  obtain argv ex fl where a: "parse_command original = Some argv" "authorize_argv r argv = Some ex"
    and t: "trusted_open g (hd ex) fixture = Some fl" "\<not> no_bits 0x49 (op_node fl)"
    and xe: "x = \<lparr>ex_path = hd ex, ex_argv = ex, ex_environ = gate_environ\<rparr>"
    using x by (auto simp: gate_exec_def split: option.splits if_splits)
  obtain rule where rule: "rule \<in> set (rp_rules r)" "rl_command rule = argv" "rl_exec rule = ex"
    using a(2) authorize_argv_iff [OF f(6)] by blast
  have one: "rule' = rule" if "rule' \<in> set (rp_rules r)" "rl_command rule' = argv" for rule'
    using validate_rules_facts(2) [OF f(6)] rule that by (auto simp: distinct_map inj_on_def)
  have "path_base (hd ex) \<notin> set shells"
    using validate_rules_facts(1) [OF f(6)] rule by (auto simp: list_all_iff rule_ok_def)
  moreover have "x = \<lparr>ex_path = hd (rl_exec rule), ex_argv = rl_exec rule, ex_environ = gate_environ\<rparr>"
    and "parse_command original = Some (rl_command rule)"
    and "\<forall>rule' \<in> set (rp_rules r). rl_command rule' = rl_command rule \<longrightarrow> rule' = rule"
    and "ge_user g = Some (u, dec_nat (ge_uid g))" and "ex_path x = hd ex"
    using xe rule(2,3) a(1) one u(1,2) by simp_all
  ultimately show ?thesis
    using p f(2,3,4,5,7) u(3) d rule(1) t by metis
qed

definition sample_rules :: "rule list" where
  "sample_rules = [\<lparr>rl_command = [''status''], rl_exec = [''/usr/bin/uptime'']\<rparr>,
                   \<lparr>rl_command = [''platform''], rl_exec = [''/usr/bin/uname'', ''-s'']\<rparr>]"

definition sample_policy :: command_policy where
  "sample_policy = \<lparr>cp_workspace = ''local'', cp_host = ''web'',
     cp_roles = [(''observe'', \<lparr>rp_user = ''agent'', rp_rules = sample_rules\<rparr>)]\<rparr>"

definition sample_hash :: rules_hash where
  "sample_hash rs = replicate 32 (CHR 0x5A)"

definition sample_gate :: gate_env where
  "sample_gate = \<lparr>ge_euid = 1000, ge_uid = 1000, ge_self = Some ''/usr/local/bin/21pins'',
     ge_user = Some (''agent'', ''1000''), ge_lstat = sample_lstat,
     ge_open = (\<lambda>p. Some \<lparr>op_node = \<lparr>n_kind = RegularFile, n_uid = 0, n_perm = 0x1ED\<rparr>, op_data = Some []\<rparr>),
     ge_chdir = True, ge_decode = (\<lambda>b. Some sample_policy), ge_rules_hash = sample_hash\<rparr>"

lemma sample_open:
  assumes "clean_path p"
  shows "trusted_open sample_gate p False
    = Some \<lparr>op_node = \<lparr>n_kind = RegularFile, n_uid = 0, n_perm = 0x1ED\<rparr>, op_data = Some []\<rparr>"
proof -
  obtain cs c where cs: "p = abs_path (cs @ [c])" "list_all plain_elem (cs @ [c])"
    using clean_path_abs [OF assms] by (metis rev_exhaust)
  then have "path_dir p = abs_path cs" by (simp add: path_dir_abs)
  moreover have "trusted_dir \<lparr>n_kind = Directory, n_uid = 0, n_perm = 0x1ED\<rparr>" by code_simp
  ultimately have "dirs_trusted sample_lstat (path_dir p) = Some True"
    using cs(2) by (simp add: dirs_trusted_abs sample_lstat_def)
  moreover have "trusted_file 1000 False \<lparr>n_kind = RegularFile, n_uid = 0, n_perm = 0x1ED\<rparr>" by code_simp
  ultimately show ?thesis using assms by (simp add: trusted_open_def sample_gate_def)
qed

lemma sample_gate_run:
  "gate_run sample_gate ''/etc/ssh/21pins/commands.json'' ''local'' ''web'' ''observe'' ''agent''
     (rules_digest sample_hash sample_rules) ''platform'' False
   = Some \<lparr>ex_path = ''/usr/bin/uname'', ex_argv = [''/usr/bin/uname'', ''-s''], ex_environ = gate_environ\<rparr>"
proof -
  have c: "clean_path ''/etc/ssh/21pins/commands.json''" "clean_path ''/usr/local/bin/21pins''"
    "clean_path ''/usr/bin/uname''" by code_simp+
  have p: "policy_role sample_policy ''local'' ''web'' ''observe'' ''agent''
      = Some \<lparr>rp_user = ''agent'', rp_rules = sample_rules\<rparr>" by code_simp
  have v: "validate_policy sample_policy" by code_simp
  have l: "load_policy sample_gate ''/etc/ssh/21pins/commands.json'' False = Some sample_policy"
    using sample_open [OF c(1)] v by (simp add: load_policy_def) (simp add: sample_gate_def)
  have x: "gate_exec sample_gate \<lparr>rp_user = ''agent'', rp_rules = sample_rules\<rparr> ''platform'' False
      = Some \<lparr>ex_path = ''/usr/bin/uname'', ex_argv = [''/usr/bin/uname'', ''-s''], ex_environ = gate_environ\<rparr>"
  proof -
    have "parse_command ''platform'' = Some [''platform'']" by code_simp
    moreover have "authorize_argv \<lparr>rp_user = ''agent'', rp_rules = sample_rules\<rparr> [''platform'']
        = Some [''/usr/bin/uname'', ''-s'']" by code_simp
    moreover have "\<not> no_bits 0x49 \<lparr>n_kind = RegularFile, n_uid = 0, n_perm = 0x1ED\<rparr>" by code_simp
    ultimately show ?thesis
      using sample_open [OF c(3)] by (simp add: gate_exec_def) (simp add: sample_gate_def)
  qed
  have d: "length (rules_digest sample_hash sample_rules) = 64" by code_simp
  have i: "dec_nat 1000 = ''1000''" by code_simp
  have g: "ge_self sample_gate = Some ''/usr/local/bin/21pins''" "ge_user sample_gate = Some (''agent'', ''1000'')"
    "ge_euid sample_gate = 1000" "ge_uid sample_gate = 1000" "ge_rules_hash sample_gate = sample_hash"
    by (simp_all add: sample_gate_def)
  show ?thesis
    unfolding gate_run_def g option.case sample_open [OF c(2)] l prod.case p i using d x by simp
qed

theorem gate_runs_only_listed_witness:
  "\<exists>r rule. map_of (cp_roles sample_policy) ''observe'' = Some r \<and> rp_user r = ''agent''
     \<and> rule \<in> set (rp_rules r) \<and> parse_command ''platform'' = Some (rl_command rule)"
proof -
  have "p = sample_policy" if "load_policy sample_gate path False = Some p" for p path
    using that by (auto simp: load_policy_def sample_gate_def split: option.splits if_splits)
  then show ?thesis using gate_runs_only_listed [OF sample_gate_run] by blast
qed

end
