(* ===== verification/SshConfig.thy ===== *)
theory SshConfig
  imports SshCommand
begin

text \<open>
  Package \<open>internal/sshaccess\<close>, first part (\<open>lease.go\<close>): the configuration of hosts and roles
  and its validation, bounded durations, public keys and their fingerprints, the digest of the
  scope a lease is bound to, and the role a requester gets. \<open>DNSAdminHost\<close> and \<open>WGBerylHost\<close>
  (\<open>dns_admin.go\<close>, \<open>wg_beryl.go\<close>) build two fixed hosts from the rules of \<open>internal/dnsadmin\<close>.

  \<open>ssh_env\<close> holds what the code takes from the library by value: SHA-256, the JSON form of a
  scope and of rules, the nanoseconds of a decimal fraction.
\<close>

subsection \<open>Types\<close>

datatype ssh_error =
    SshDenied
  | InvalidDuration | InvalidWorkspace | InvalidRenewal | InvalidClockSkew | LogicalHostRequired
  | RoleNeedsAuthority | OneGateRequired | InvalidGatedRole | InvalidRoleLogin | InvalidDefaultLease
  | InvalidRoleCeiling | InvalidRequesterCeiling | InvalidRequesterPolicy | RootNeedsApproval
  | SingleCaKey | CaKeyRequired | OnlyEd25519 | RawKeyRequired | InvalidEd25519
  | ConfigUnavailable | ConfigInvalid | CaUnavailable | CaChanged
  | PrivateDirRequired | PrivateFileRequired | PrivateFileTooLarge | NonRegularState | SystemError
  | BoundedPurpose | WriterUnavailable | LeaseStateInvalid | CapacityReached | InvalidReason
  | SerialExhausted | SignerUnavailable | SigningFailed

record actor =
  ac_id :: string
  ac_name :: string
  ac_can_approve :: bool

record role =
  ro_ssh_user :: string
  ro_default_lease :: string
  ro_max_lease :: string
  ro_max_cert_ttl :: string
  ro_requesters :: "string gomap"
  ro_requester_max :: "string gomap"
  ro_explicit :: bool
  ro_pty :: bool
  ro_port_forwarding :: bool
  ro_agent_forwarding :: bool
  ro_x11 :: bool
  ro_authority :: "authority option"

record host =
  ho_alias :: string
  ho_jump_alias :: string
  ho_roles :: "role gomap"

record ca =
  ca_mode :: string
  ca_public_key_file :: string
  ca_secret_ref :: string
  ca_agent_socket :: string
  ca_fingerprint :: string

record ssh_config =
  sc_workspace :: string
  sc_ca :: ca
  sc_cert_ttl :: string
  sc_renew_before :: string
  sc_clock_skew :: string
  sc_hosts :: "host gomap"

text \<open>The anonymous struct \<open>scopeDigest\<close> marshals.\<close>

record scope =
  sp_workspace :: string
  sp_host :: string
  sp_role :: string
  sp_alias :: string
  sp_jump :: string
  sp_policy :: role
  sp_ca :: ca
  sp_ttl :: string
  sp_skew :: string

record ssh_env =
  se_frac :: "string \<Rightarrow> nat \<Rightarrow> nat"
  se_sha256 :: "string \<Rightarrow> string"
  se_scope_json :: "scope \<Rightarrow> string"
  se_rules_hash :: rules_hash

definition empty_role :: role where
  "empty_role = \<lparr>ro_ssh_user = [], ro_default_lease = [], ro_max_lease = [], ro_max_cert_ttl = [],
     ro_requesters = [], ro_requester_max = [], ro_explicit = False, ro_pty = False,
     ro_port_forwarding = False, ro_agent_forwarding = False, ro_x11 = False, ro_authority = None\<rparr>"

definition empty_host :: host where
  "empty_host = \<lparr>ho_alias = [], ho_jump_alias = [], ho_roles = []\<rparr>"

text \<open>Reading a Go map: the zero value when the key is absent.\<close>

definition at_or :: "'v \<Rightarrow> 'v gomap \<Rightarrow> string \<Rightarrow> 'v" where
  "at_or z m k = (case map_of m k of None \<Rightarrow> z | Some v \<Rightarrow> v)"

subsection \<open>Durations\<close>

definition max_duration :: int where "max_duration = 30 * 24 * hour"

definition bounded_duration :: "ssh_env \<Rightarrow> string \<Rightarrow> ssh_error + int" where
  "bounded_duration env v =
     (case parse_duration (se_frac env) v of
        None \<Rightarrow> Inl InvalidDuration
      | Some d \<Rightarrow> if d \<le> 0 \<or> d > max_duration then Inl InvalidDuration else Inr d)"

text \<open>The value where the code ignores the error: zero.\<close>

definition duration_or_0 :: "ssh_env \<Rightarrow> string \<Rightarrow> int" where
  "duration_or_0 env v = (case bounded_duration env v of Inl _ \<Rightarrow> 0 | Inr d \<Rightarrow> d)"

subsection \<open>Validation\<close>

definition role_fault :: "ssh_env \<Rightarrow> string \<Rightarrow> role \<Rightarrow> ssh_error option" where
  "role_fault env name r =
     (if \<not> identifier_ok name \<or> \<not> identifier_ok (ro_ssh_user r) then Some InvalidRoleLogin
      else case bounded_duration env (ro_max_lease r) of
        Inl e \<Rightarrow> Some e
      | Inr mx \<Rightarrow>
          (case bounded_duration env (ro_default_lease r) of
             Inl _ \<Rightarrow> Some InvalidDefaultLease
           | Inr df \<Rightarrow>
               if df > mx then Some InvalidDefaultLease
               else case bounded_duration env (ro_max_cert_ttl r) of
                 Inl _ \<Rightarrow> Some InvalidRoleCeiling
               | Inr cp \<Rightarrow>
                   if cp > mx then Some InvalidRoleCeiling
                   else if \<not> list_all (\<lambda>(user, v). (case bounded_duration env v of
                          Inl _ \<Rightarrow> False
                        | Inr d \<Rightarrow> d \<le> mx \<and> at_or [] (ro_requesters r) user \<noteq> [])) (ro_requester_max r)
                   then Some InvalidRequesterCeiling
                   else if \<not> list_all (\<lambda>(user, mode). identifier_ok user
                          \<and> (mode = ''approval'' \<or> mode = ''preapproved'')) (ro_requesters r)
                   then Some InvalidRequesterPolicy
                   else if ro_requesters r \<noteq> [] \<and> ro_ssh_user r = ''root'' \<and> \<not> ro_explicit r
                   then Some RootNeedsApproval
                   else None))"

definition gated_ok :: "ca \<Rightarrow> string list \<Rightarrow> role \<Rightarrow> authority \<Rightarrow> bool" where
  "gated_ok c users r a \<longleftrightarrow>
     validate_authority a \<and> ro_ssh_user r \<noteq> ''root'' \<and> ro_ssh_user r \<notin> set users
     \<and> \<not> ro_pty r \<and> \<not> ro_port_forwarding r \<and> \<not> ro_agent_forwarding r \<and> \<not> ro_x11 r
     \<and> \<not> (au_fixture a \<and> ca_mode c \<noteq> ''dev'')"

text \<open>The loop over the roles of a host, with the users seen and the gate of the host so far.\<close>

fun roles_fault ::
    "ssh_env \<Rightarrow> ca \<Rightarrow> string list \<Rightarrow> string \<Rightarrow> string \<Rightarrow> role gomap \<Rightarrow> ssh_error option" where
  "roles_fault env c users policy_file binary [] = None"
| "roles_fault env c users policy_file binary ((name, r) # rest) =
     (case ro_authority r of
        None \<Rightarrow>
          if ca_mode c = ''agent'' then Some RoleNeedsAuthority
          else (case role_fault env name r of
                  Some e \<Rightarrow> Some e
                | None \<Rightarrow> roles_fault env c users policy_file binary rest)
      | Some a \<Rightarrow>
          if policy_file \<noteq> [] \<and> (policy_file \<noteq> au_policy_file a \<or> binary \<noteq> au_binary a) then Some OneGateRequired
          else if \<not> gated_ok c users r a then Some InvalidGatedRole
          else (case role_fault env name r of
                  Some e \<Rightarrow> Some e
                | None \<Rightarrow> roles_fault env c (ro_ssh_user r # users) (au_policy_file a) (au_binary a) rest))"

fun hosts_fault :: "ssh_env \<Rightarrow> ca \<Rightarrow> host gomap \<Rightarrow> ssh_error option" where
  "hosts_fault env c [] = None"
| "hosts_fault env c ((h, v) # rest) =
     (if \<not> identifier_ok h \<or> \<not> identifier_ok (ho_alias v)
         \<or> (ho_jump_alias v \<noteq> [] \<and> \<not> identifier_ok (ho_jump_alias v)) then Some LogicalHostRequired
      else case roles_fault env c [] [] [] (ho_roles v) of
        Some e \<Rightarrow> Some e
      | None \<Rightarrow> hosts_fault env c rest)"

definition validate_config :: "ssh_env \<Rightarrow> ssh_config \<Rightarrow> ssh_error option" where
  "validate_config env c =
     (if \<not> identifier_ok (sc_workspace c) then Some InvalidWorkspace
      else case bounded_duration env (sc_cert_ttl c) of
        Inl e \<Rightarrow> Some e
      | Inr ttl \<Rightarrow>
          (case bounded_duration env (sc_renew_before c) of
             Inl _ \<Rightarrow> Some InvalidRenewal
           | Inr renew \<Rightarrow>
               if renew \<ge> ttl then Some InvalidRenewal
               else case parse_duration (se_frac env) (sc_clock_skew c) of
                 None \<Rightarrow> Some InvalidClockSkew
               | Some skew \<Rightarrow>
                   if skew < 0 \<or> skew > 2 * minute then Some InvalidClockSkew
                   else hosts_fault env (sc_ca c) (sc_hosts c)))"

subsection \<open>Public keys\<close>

text \<open>\<open>strings.Fields\<close>: the maximal runs without white space.\<close>

function fields_from :: "string \<Rightarrow> string \<Rightarrow> string list" where
  "fields_from w s =
     (case s of
        [] \<Rightarrow> (if w = [] then [] else [w])
      | c # r \<Rightarrow>
          (let n = space_len (map byte s) in
           if n = 0 then fields_from (w @ [c]) r
           else (if w = [] then [] else [w]) @ fields_from [] (drop n s)))"
  by pat_completeness auto
termination by (relation "measure (\<lambda>(w, s). length s)") auto

declare fields_from.simps [simp del]

definition string_fields :: "string \<Rightarrow> string list" where
  "string_fields s = fields_from [] s"

definition has_eol :: "string \<Rightarrow> bool" where
  "has_eol s \<longleftrightarrow> CHR 0x0D \<in> set s \<or> CHR 0x0A \<in> set s"

definition ed25519_blob :: "string \<Rightarrow> bool" where
  "ed25519_blob b \<longleftrightarrow> length b = 51 \<and> be_value (take 4 b) = 11 \<and> take 11 (drop 4 b) = ''ssh-ed25519''
     \<and> be_value (take 4 (drop 15 b)) = 32"

definition key_fingerprint :: "ssh_env \<Rightarrow> string \<Rightarrow> string" where
  "key_fingerprint env b = ''SHA256:'' @ raw_std_encode (se_sha256 env b)"

definition public_fingerprint :: "ssh_env \<Rightarrow> string \<Rightarrow> ssh_error + string" where
  "public_fingerprint env pub =
     (if length pub > 256 \<or> has_eol pub \<or> contains_sub pub ''PRIVATE'' then Inl OnlyEd25519
      else case string_fields pub of
        [kind, text] \<Rightarrow>
          if kind \<noteq> ''ssh-ed25519'' then Inl RawKeyRequired
          else (case std_decode text of
                  None \<Rightarrow> Inl InvalidEd25519
                | Some b \<Rightarrow> if ed25519_blob b then Inr (key_fingerprint env b) else Inl InvalidEd25519)
      | _ \<Rightarrow> Inl RawKeyRequired)"

definition ca_public :: "ssh_env \<Rightarrow> string \<Rightarrow> ssh_error + string" where
  "ca_public env v =
     (let t = trim_space v in
      if length t > 4096 \<or> has_eol t then Inl SingleCaKey
      else case string_fields t of
        kind # text # _ \<Rightarrow>
          (case public_fingerprint env (join_with '' '' [kind, text]) of
             Inl e \<Rightarrow> Inl e
           | Inr _ \<Rightarrow> Inr (join_with '' '' [kind, text]))
      | _ \<Rightarrow> Inl CaKeyRequired)"

subsection \<open>Scope and role\<close>

definition scope_of :: "ssh_config \<Rightarrow> string \<Rightarrow> string \<Rightarrow> scope" where
  "scope_of c h r =
     (let v = at_or empty_host (sc_hosts c) h in
      \<lparr>sp_workspace = sc_workspace c, sp_host = h, sp_role = r, sp_alias = ho_alias v, sp_jump = ho_jump_alias v,
       sp_policy = at_or empty_role (ho_roles v) r, sp_ca = sc_ca c, sp_ttl = sc_cert_ttl c,
       sp_skew = sc_clock_skew c\<rparr>)"

definition scope_digest :: "ssh_env \<Rightarrow> ssh_config \<Rightarrow> string \<Rightarrow> string \<Rightarrow> string" where
  "scope_digest env c h r = hex_encode (se_sha256 env (se_scope_json env (scope_of c h r)))"

definition service_role :: "ssh_env \<Rightarrow> ssh_config \<Rightarrow> actor \<Rightarrow> string \<Rightarrow> string \<Rightarrow> ssh_error + role" where
  "service_role env c a h r =
     (case map_of (sc_hosts c) h of
        None \<Rightarrow> Inl SshDenied
      | Some v \<Rightarrow>
          (case map_of (ho_roles v) r of
             None \<Rightarrow> Inl SshDenied
           | Some ro \<Rightarrow>
               if ac_id a = [] \<or> at_or [] (ro_requesters ro) (ac_name a) = [] then Inl SshDenied
               else let limit = at_or [] (ro_requester_max ro) (ac_name a) in
                 if limit = [] then Inr ro
                 else (case (bounded_duration env limit, bounded_duration env (ro_default_lease ro),
                             bounded_duration env (ro_max_cert_ttl ro)) of
                         (Inr ceiling, Inr df, Inr cert) \<Rightarrow>
                           Inr (ro\<lparr>ro_max_lease := limit,
                                   ro_default_lease := (if df > ceiling then limit else ro_default_lease ro),
                                   ro_max_cert_ttl := (if cert > ceiling then limit else ro_max_cert_ttl ro)\<rparr>)
                       | _ \<Rightarrow> Inl SshDenied)))"

subsection \<open>Fixed hosts\<close>

definition manifest_digest_ok :: "string \<Rightarrow> bool" where
  "manifest_digest_ok d \<longleftrightarrow> (case hex_decode d of None \<Rightarrow> False | Some b \<Rightarrow> length b = 32) \<and> to_lower d = d"

definition sudo_rule :: "string \<Rightarrow> string \<Rightarrow> string list \<times> string \<Rightarrow> rule" where
  "sudo_rule tool d = (\<lambda>(words, op).
     \<lparr>rl_command = words, rl_exec = [''/usr/bin/sudo'', ''-n'', ''/usr/local/bin/21pins'', tool, op, d]\<rparr>)"

definition dns_operations :: "string list" where
  "dns_operations = [''dns-query'', ''dns-test'', ''technitium-status'', ''technitium-filtering'', ''guest-isolation'']"

definition dns_rules :: "string \<Rightarrow> rule list option" where
  "dns_rules d =
     (if \<not> manifest_digest_ok d then None
      else Some (map (sudo_rule ''dns-admin'' d)
        (zip [[''dns'', ''query''], [''dns'', ''test''], [''technitium'', ''status''], [''technitium'', ''filtering''],
              [''guest'', ''isolation'']] dns_operations)))"

definition wireguard_operations :: "string list" where
  "wireguard_operations = [''peer-enroll'', ''peer-inspect'']"

definition wireguard_rules :: "string \<Rightarrow> rule list option" where
  "wireguard_rules d =
     (if \<not> manifest_digest_ok d then None
      else Some (map (sudo_rule ''wg-beryl'' d)
        (zip [[''beryl'', ''enroll''], [''beryl'', ''inspect'']] wireguard_operations)))"

definition sudoers_text :: "string \<Rightarrow> rule list \<Rightarrow> string" where
  "sudoers_text account rules =
     ''Defaults:'' @ account @ '' env_reset, !setenv, !requiretty, secure_path=/usr/sbin:/usr/bin'' @ [CHR 0x0A]
     @ account @ '' ALL=(root) NOPASSWD: NOSETENV: ''
     @ join_with '', '' (map (\<lambda>r. join_with '' '' (drop 2 (rl_exec r))) rules) @ [CHR 0x0A]"

definition dns_sudoers :: "string \<Rightarrow> string option" where
  "dns_sudoers d = map_option (sudoers_text ''pins-dns-agent'') (dns_rules d)"

definition wireguard_sudoers :: "string \<Rightarrow> string option" where
  "wireguard_sudoers d = map_option (sudoers_text ''pins-wg-agent'') (wireguard_rules d)"

definition reviewed_host :: "string \<Rightarrow> string \<Rightarrow> string \<Rightarrow> string \<Rightarrow> rule list \<Rightarrow> host" where
  "reviewed_host role_name account alias jump rules =
     \<lparr>ho_alias = alias, ho_jump_alias = jump, ho_roles = [(role_name, empty_role
        \<lparr>ro_ssh_user := account, ro_default_lease := ''15m'', ro_max_lease := ''30m'', ro_max_cert_ttl := ''5m'',
         ro_explicit := True, ro_requesters := [(''pi'', ''approval'')],
         ro_authority := Some \<lparr>au_binary = ''/usr/local/bin/21pins'',
           au_policy_file = ''/etc/ssh/21pins/commands.json'', au_rules = rules, au_fixture = False\<rparr>\<rparr>)]\<rparr>"

definition dns_admin_host :: "string \<Rightarrow> string \<Rightarrow> string \<Rightarrow> ssh_error + host" where
  "dns_admin_host d alias jump =
     (if \<not> identifier_ok alias \<or> \<not> identifier_ok jump then Inl SshDenied
      else case dns_rules d of
        None \<Rightarrow> Inl SshDenied
      | Some rules \<Rightarrow> Inr (reviewed_host ''dns-admin'' ''pins-dns-agent'' alias jump rules))"

definition wg_beryl_host :: "string \<Rightarrow> string \<Rightarrow> string \<Rightarrow> ssh_error + host" where
  "wg_beryl_host d alias jump =
     (if \<not> identifier_ok alias \<or> \<not> identifier_ok jump then Inl SshDenied
      else case wireguard_rules d of
        None \<Rightarrow> Inl SshDenied
      | Some rules \<Rightarrow> Inr (reviewed_host ''wg-beryl'' ''pins-wg-agent'' alias jump rules))"

subsection \<open>Private files\<close>

text \<open>A file of the private directory: its node, its size and the value it holds.\<close>

datatype 'c private_file = Absent | Present node nat 'c

definition file_limit :: nat where "file_limit = 16 * 1024 * 1024"

definition private_dir :: "nat \<Rightarrow> lstat_result \<Rightarrow> bool \<Rightarrow> lstat_result \<Rightarrow> ssh_error option" where
  "private_dir uid first mkdir again =
     (let info = (if first = Missing \<and> mkdir then again else first) in
      case info of
        Found n \<Rightarrow>
          if n_uid n \<noteq> uid \<or> n_kind n \<noteq> Directory \<or> \<not> no_bits 0x3F n then Some PrivateDirRequired else None
      | _ \<Rightarrow> Some SystemError)"

definition private_node :: "nat \<Rightarrow> node \<Rightarrow> bool" where
  "private_node uid n \<longleftrightarrow> n_uid n = uid \<and> n_kind n = RegularFile \<and> no_bits 0x3F n"

text \<open>\<open>open\<close> with \<open>O_NOFOLLOW\<close>, then the checks; \<open>None\<close> inside: the file does not exist.\<close>

definition private_open :: "nat \<Rightarrow> bool \<Rightarrow> 'c private_file \<Rightarrow> ssh_error + (nat \<times> 'c) option" where
  "private_open uid opens f =
     (case f of
        Absent \<Rightarrow> if opens then Inr None else Inl SystemError
      | Present n sz c \<Rightarrow>
          if \<not> opens \<or> n_kind n = Symlink then Inl SystemError
          else if \<not> private_node uid n then Inl PrivateFileRequired
          else Inr (Some (sz, c)))"

definition check_private :: "nat \<Rightarrow> bool \<Rightarrow> 'c private_file \<Rightarrow> ssh_error option" where
  "check_private uid opens f =
     (case private_open uid opens f of
        Inl e \<Rightarrow> Some e | Inr None \<Rightarrow> Some SystemError | Inr (Some _) \<Rightarrow> None)"

definition read_private :: "nat \<Rightarrow> bool \<Rightarrow> bool \<Rightarrow> 'c private_file \<Rightarrow> ssh_error + 'c option" where
  "read_private uid opens reads f =
     (case private_open uid opens f of
        Inl e \<Rightarrow> Inl e
      | Inr None \<Rightarrow> Inr None
      | Inr (Some (sz, c)) \<Rightarrow>
          if sz > file_limit then Inl PrivateFileTooLarge
          else if \<not> reads then Inl SystemError
          else Inr (Some c))"

text \<open>
  \<open>AtomicPrivate\<close>: a temporary file of mode 0600 is written, synced and renamed over the
  old one, which must be a regular file or absent.
\<close>

definition atomic_private ::
    "nat \<Rightarrow> bool \<Rightarrow> bool \<Rightarrow> nat \<Rightarrow> 'c \<Rightarrow> 'c private_file \<Rightarrow> ssh_error option \<times> 'c private_file" where
  "atomic_private uid lstats writes sz c f =
     (if \<not> lstats then (Some SystemError, f)
      else case f of
        Present n _ _ \<Rightarrow>
          if n_kind n \<noteq> RegularFile then (Some NonRegularState, f)
          else if \<not> writes then (Some SystemError, f)
          else (None, Present \<lparr>n_kind = RegularFile, n_uid = uid, n_perm = 0x180\<rparr> sz c)
      | Absent \<Rightarrow>
          if \<not> writes then (Some SystemError, f)
          else (None, Present \<lparr>n_kind = RegularFile, n_uid = uid, n_perm = 0x180\<rparr> sz c))"

subsection \<open>Loading the service\<close>

text \<open>What one call of \<open>Load\<close> finds: the files, and whether the directory is private.\<close>

record load_input =
  ld_config :: "ssh_config option private_file"
  ld_opens :: bool
  ld_reads :: bool
  ld_ca_file :: "string option"
  ld_dir :: "ssh_error option"

definition new_service :: "ssh_env \<Rightarrow> ssh_error option \<Rightarrow> ssh_config \<Rightarrow> ssh_error + ssh_config" where
  "new_service env dir c =
     (case validate_config env c of
        Some e \<Rightarrow> Inl e
      | None \<Rightarrow> (case dir of Some e \<Rightarrow> Inl e | None \<Rightarrow> Inr c))"

definition pin_ca :: "ssh_env \<Rightarrow> string option \<Rightarrow> ssh_config \<Rightarrow> ssh_error + ssh_config" where
  "pin_ca env ca_file c =
     (if ca_public_key_file (sc_ca c) = [] then Inr c
      else case ca_file of
        None \<Rightarrow> Inl CaUnavailable
      | Some text \<Rightarrow>
          (case ca_public env text of
             Inl e \<Rightarrow> Inl e
           | Inr canonical \<Rightarrow>
               (case public_fingerprint env canonical of
                  Inl e \<Rightarrow> Inl e
                | Inr fp \<Rightarrow>
                    if ca_fingerprint (sc_ca c) \<noteq> [] \<and> ca_fingerprint (sc_ca c) \<noteq> fp then Inl CaChanged
                    else Inr (c\<lparr>sc_ca := (sc_ca c)\<lparr>ca_fingerprint := fp\<rparr>\<rparr>))))"

definition load_service :: "ssh_env \<Rightarrow> nat \<Rightarrow> load_input \<Rightarrow> ssh_error + ssh_config" where
  "load_service env uid i =
     (case read_private uid (ld_opens i) (ld_reads i) (ld_config i) of
        Inr (Some (Some c)) \<Rightarrow>
          (case pin_ca env (ld_ca_file i) c of
             Inl e \<Rightarrow> Inl e
           | Inr c' \<Rightarrow> new_service env (ld_dir i) c')
      | Inr (Some None) \<Rightarrow> Inl ConfigInvalid
      | _ \<Rightarrow> Inl ConfigUnavailable)"

subsection \<open>Lemmas\<close>

lemma bounded_duration_range: "bounded_duration env v = Inr d \<Longrightarrow> 0 < d \<and> d \<le> max_duration"
  by (auto simp: bounded_duration_def split: option.splits if_splits)

lemma duration_or_0_nonneg: "0 \<le> duration_or_0 env v"
  using bounded_duration_range [of env v] by (auto simp: duration_or_0_def less_imp_le split: sum.splits)

text \<open>What an accepted role promises.\<close>

definition role_ok :: "ssh_env \<Rightarrow> role \<Rightarrow> bool" where
  "role_ok env r \<longleftrightarrow>
     (\<exists>mx df cp. bounded_duration env (ro_max_lease r) = Inr mx \<and> bounded_duration env (ro_default_lease r) = Inr df
        \<and> bounded_duration env (ro_max_cert_ttl r) = Inr cp \<and> df \<le> mx \<and> cp \<le> mx)
     \<and> (ro_requesters r \<noteq> [] \<and> ro_ssh_user r = ''root'' \<longrightarrow> ro_explicit r)"

lemma role_fault_None:
  assumes "role_fault env name r = None"
  obtains mx df cp where "identifier_ok name" "identifier_ok (ro_ssh_user r)"
    "bounded_duration env (ro_max_lease r) = Inr mx" "bounded_duration env (ro_default_lease r) = Inr df"
    "bounded_duration env (ro_max_cert_ttl r) = Inr cp" "df \<le> mx" "cp \<le> mx"
    "\<forall>(user, v) \<in> set (ro_requester_max r). \<exists>d. bounded_duration env v = Inr d \<and> d \<le> mx"
    "ro_requesters r \<noteq> [] \<and> ro_ssh_user r = ''root'' \<longrightarrow> ro_explicit r"
proof -
  note a = assms [unfolded role_fault_def]
  have i: "identifier_ok name" "identifier_ok (ro_ssh_user r)" using a by (metis option.distinct(1))+
  obtain mx where mx: "bounded_duration env (ro_max_lease r) = Inr mx"
    using a i by (cases "bounded_duration env (ro_max_lease r)") simp_all
  obtain df where df: "bounded_duration env (ro_default_lease r) = Inr df" "df \<le> mx"
    using a i mx by (cases "bounded_duration env (ro_default_lease r)") (simp_all split: if_split_asm)
  obtain cp where cp: "bounded_duration env (ro_max_cert_ttl r) = Inr cp" "cp \<le> mx"
    using a i mx df by (cases "bounded_duration env (ro_max_cert_ttl r)") (simp_all split: if_split_asm)
  have b: "list_all (\<lambda>(user, v). (case bounded_duration env v of
              Inl _ \<Rightarrow> False | Inr d \<Rightarrow> d \<le> mx \<and> at_or [] (ro_requesters r) user \<noteq> [])) (ro_requester_max r)"
    using a i mx df cp by (simp_all split: if_split_asm)
  have c: "ro_requesters r \<noteq> [] \<and> ro_ssh_user r = ''root'' \<longrightarrow> ro_explicit r"
    using a i mx df cp by (simp split: if_split_asm) blast
  have "\<forall>(user, v) \<in> set (ro_requester_max r). \<exists>d. bounded_duration env v = Inr d \<and> d \<le> mx"
  proof (intro ballI, clarify)
    fix user v
    assume m: "(user, v) \<in> set (ro_requester_max r)"
    show "\<exists>d. bounded_duration env v = Inr d \<and> d \<le> mx"
      using b m by (cases "bounded_duration env v") (auto simp: list_all_iff)
  qed
  then show ?thesis using that i mx df cp c by blast
qed

lemma roles_fault_None:
  "roles_fault env c users pf gb roles = None \<Longrightarrow> (name, r) \<in> set roles \<Longrightarrow>
     role_fault env name r = None
     \<and> (case ro_authority r of None \<Rightarrow> ca_mode c \<noteq> ''agent'' | Some a \<Rightarrow> \<exists>us. gated_ok c us r a)"
proof (induction env c users pf gb roles rule: roles_fault.induct)
  case (2 env c users pf gb n ro rest)
  show ?case
  proof (cases "ro_authority ro")
    case None
    then have m: "ca_mode c \<noteq> ''agent''" using "2.prems"(1) by (simp split: if_split_asm)
    then have f: "role_fault env n ro = None" "roles_fault env c users pf gb rest = None"
      using "2.prems"(1) None by (simp_all split: option.splits)
    show ?thesis using "2.IH"(1) [OF None m f] "2.prems"(2) f None m by auto
  next
    case (Some a)
    then have g: "\<not> (pf \<noteq> [] \<and> (pf \<noteq> au_policy_file a \<or> gb \<noteq> au_binary a))" "gated_ok c users ro a"
      using "2.prems"(1) by (simp_all split: if_split_asm)
    then have f: "role_fault env n ro = None"
      "roles_fault env c (ro_ssh_user ro # users) (au_policy_file a) (au_binary a) rest = None"
      using "2.prems"(1) Some by (simp_all split: option.splits if_split_asm)
    have "\<not> \<not> gated_ok c users ro a" using g by simp
    then show ?thesis using "2.IH"(2) [OF Some g(1) _ f] "2.prems"(2) f Some g(2) by auto
  qed
qed simp

lemma hosts_fault_None:
  "hosts_fault env c hosts = None \<Longrightarrow> (h, v) \<in> set hosts \<Longrightarrow>
     identifier_ok h \<and> identifier_ok (ho_alias v) \<and> roles_fault env c [] [] [] (ho_roles v) = None"
  by (induction hosts) (auto split: option.splits if_splits)

lemma validate_config_None:
  assumes "validate_config env c = None"
  obtains ttl renew skew where "identifier_ok (sc_workspace c)" "bounded_duration env (sc_cert_ttl c) = Inr ttl"
    "bounded_duration env (sc_renew_before c) = Inr renew" "renew < ttl"
    "parse_duration (se_frac env) (sc_clock_skew c) = Some skew" "0 \<le> skew" "skew \<le> 2 * minute"
    "hosts_fault env (sc_ca c) (sc_hosts c) = None"
proof -
  note a = assms [unfolded validate_config_def]
  have i: "identifier_ok (sc_workspace c)" using a by (simp split: if_split_asm)
  obtain ttl where t: "bounded_duration env (sc_cert_ttl c) = Inr ttl"
    using a i by (cases "bounded_duration env (sc_cert_ttl c)") simp_all
  obtain renew where r: "bounded_duration env (sc_renew_before c) = Inr renew" "renew < ttl"
    using a i t by (cases "bounded_duration env (sc_renew_before c)") (simp_all split: if_split_asm)
  obtain skew where k: "parse_duration (se_frac env) (sc_clock_skew c) = Some skew"
    using a i t r by (cases "parse_duration (se_frac env) (sc_clock_skew c)") simp_all
  show ?thesis using that i t r k a by (simp split: if_split_asm)
qed

text \<open>The role a requester gets is within the role of the configuration.\<close>

lemma service_role_bounds:
  assumes "validate_config env c = None" and "service_role env c a h r = Inr ro"
  shows "role_ok env ro"
    and "\<exists>v ro'. map_of (sc_hosts c) h = Some v \<and> map_of (ho_roles v) r = Some ro'
           \<and> at_or [] (ro_requesters ro') (ac_name a) \<noteq> [] \<and> ac_id a \<noteq> []
           \<and> ro = ro'\<lparr>ro_max_lease := ro_max_lease ro, ro_default_lease := ro_default_lease ro,
                      ro_max_cert_ttl := ro_max_cert_ttl ro\<rparr>
           \<and> duration_or_0 env (ro_max_lease ro) \<le> duration_or_0 env (ro_max_lease ro')
           \<and> duration_or_0 env (ro_max_cert_ttl ro) \<le> duration_or_0 env (ro_max_cert_ttl ro')"
proof -
  obtain v ro' where v: "map_of (sc_hosts c) h = Some v" "map_of (ho_roles v) r = Some ro'"
    and q: "ac_id a \<noteq> []" "at_or [] (ro_requesters ro') (ac_name a) \<noteq> []"
    using assms(2) by (auto simp: service_role_def split: option.splits if_splits)
  have rf: "role_fault env r ro' = None"
  proof (rule validate_config_None [OF assms(1)])
    assume "hosts_fault env (sc_ca c) (sc_hosts c) = None"
    then have "roles_fault env (sc_ca c) [] [] [] (ho_roles v) = None"
      using hosts_fault_None map_of_SomeD [OF v(1)] by blast
    then show "role_fault env r ro' = None" using roles_fault_None map_of_SomeD [OF v(2)] by blast
  qed
  obtain mx df cp where d: "bounded_duration env (ro_max_lease ro') = Inr mx"
    "bounded_duration env (ro_default_lease ro') = Inr df" "bounded_duration env (ro_max_cert_ttl ro') = Inr cp"
    "df \<le> mx" "cp \<le> mx" and lim: "\<forall>(user, v) \<in> set (ro_requester_max ro'). \<exists>d. bounded_duration env v = Inr d \<and> d \<le> mx"
    and root: "ro_requesters ro' \<noteq> [] \<and> ro_ssh_user ro' = ''root'' \<longrightarrow> ro_explicit ro'"
    by (rule role_fault_None [OF rf])
  let ?limit = "at_or [] (ro_requester_max ro') (ac_name a)"
  have "role_ok env ro \<and> ro = ro'\<lparr>ro_max_lease := ro_max_lease ro, ro_default_lease := ro_default_lease ro,
                      ro_max_cert_ttl := ro_max_cert_ttl ro\<rparr>
           \<and> duration_or_0 env (ro_max_lease ro) \<le> duration_or_0 env (ro_max_lease ro')
           \<and> duration_or_0 env (ro_max_cert_ttl ro) \<le> duration_or_0 env (ro_max_cert_ttl ro')"
  proof (cases "?limit = []")
    case True
    then have "ro = ro'" using assms(2) v q by (simp add: service_role_def)
    then show ?thesis using d root by (auto simp: role_ok_def)
  next
    case False
    then obtain l where "(ac_name a, ?limit) \<in> set (ro_requester_max ro')"
      by (auto simp: at_or_def split: option.splits dest: map_of_SomeD)
    then obtain l where l: "bounded_duration env ?limit = Inr l" "l \<le> mx" using lim by fastforce
    have ro: "ro = ro'\<lparr>ro_max_lease := ?limit, ro_default_lease := (if df > l then ?limit else ro_default_lease ro'),
        ro_max_cert_ttl := (if cp > l then ?limit else ro_max_cert_ttl ro')\<rparr>"
      using assms(2) v q False l d by (auto simp: service_role_def Let_def)
    show ?thesis using d root l unfolding ro
      by (cases "df > l"; cases "cp > l") (simp_all add: role_ok_def duration_or_0_def)
  qed
  then show "role_ok env ro"
    and "\<exists>v ro'. map_of (sc_hosts c) h = Some v \<and> map_of (ho_roles v) r = Some ro'
           \<and> at_or [] (ro_requesters ro') (ac_name a) \<noteq> [] \<and> ac_id a \<noteq> []
           \<and> ro = ro'\<lparr>ro_max_lease := ro_max_lease ro, ro_default_lease := ro_default_lease ro,
                      ro_max_cert_ttl := ro_max_cert_ttl ro\<rparr>
           \<and> duration_or_0 env (ro_max_lease ro) \<le> duration_or_0 env (ro_max_lease ro')
           \<and> duration_or_0 env (ro_max_cert_ttl ro) \<le> duration_or_0 env (ro_max_cert_ttl ro')"
    using v q by blast+
qed

subsection \<open>Canonical keys\<close>

text \<open>The encoding of a key is unique: base64 text of whole groups decodes to one value only.\<close>

lemma b64_char_value: "b64_value url c = Some n \<Longrightarrow> b64_char url n = c \<and> n < 64"
proof -
  assume a: "b64_value url c = Some n"
  have "char_of (65 + (byte c - 65)) = c" if "is_upper c" using that by (simp add: is_upper_def)
  moreover have "char_of (71 + (byte c - 71)) = c" if "is_lower c" using that by (simp add: is_lower_def)
  moreover have "char_of (byte c + 4 - 4) = c" by simp
  ultimately show ?thesis using a
    by (auto simp: b64_value_def b64_char_def is_upper_def is_lower_def is_digit_def split: if_splits)
qed

lemma of_sextets_length:
  "of_sextets v = Some b \<Longrightarrow> length b mod 3 = 0 \<Longrightarrow> length v mod 4 \<noteq> 1 \<Longrightarrow> length v mod 4 = 0"
proof (induction v arbitrary: b rule: of_sextets.induct)
  case (5 w x y z s)
  then obtain r where "of_sextets s = Some r" "b = (w * 4 + x div 16) # ((x mod 16) * 16 + y div 4) # ((y mod 4) * 64 + z) # r"
    by auto
  then show ?case using "5.IH" [of r] "5.prems" by (simp add: mod_Suc split: if_splits)
qed auto

lemma sextets_of_triple:
  fixes w x y z :: nat
  assumes "w < 64" "x < 64" "y < 64" "z < 64"
  shows "(w * 4 + x div 16) div 4 = w" and "(w * 4 + x div 16) mod 4 * 16 + ((x mod 16) * 16 + y div 4) div 16 = x"
    and "((x mod 16) * 16 + y div 4) mod 16 * 4 + ((y mod 4) * 64 + z) div 64 = y"
    and "((y mod 4) * 64 + z) mod 64 = z"
proof -
  have l: "x div 16 < 4" "y div 4 < 16" using assms by (simp_all add: less_mult_imp_div_less)
  show "(w * 4 + x div 16) div 4 = w" by (simp only: split_div [OF l(1)])
  show "(w * 4 + x div 16) mod 4 * 16 + ((x mod 16) * 16 + y div 4) div 16 = x"
    by (simp only: split_div [OF l(1)] split_div [OF l(2)] div_mult_mod_eq)
  show "((x mod 16) * 16 + y div 4) mod 16 * 4 + ((y mod 4) * 64 + z) div 64 = y"
    by (simp only: split_div [OF l(2)] split_div [OF assms(4)] div_mult_mod_eq)
  show "((y mod 4) * 64 + z) mod 64 = z" by (simp only: split_div [OF assms(4)])
qed

lemma to_of_sextets:
  "of_sextets v = Some b \<Longrightarrow> length v mod 4 = 0 \<Longrightarrow> \<forall>n \<in> set v. n < 64 \<Longrightarrow> to_sextets b = v"
proof (induction v arbitrary: b rule: of_sextets.induct)
  case (5 w x y z s)
  then obtain r where r: "of_sextets s = Some r"
    "b = (w * 4 + x div 16) # ((x mod 16) * 16 + y div 4) # ((y mod 4) * 64 + z) # r" by auto
  have "length s mod 4 = 0" using "5.prems"(2) by (simp add: mod_Suc split: if_splits)
  then have "to_sextets r = s" using "5.IH" [OF r(1)] "5.prems"(3) by simp
  then show ?case using r(2) sextets_of_triple [of w x y z] "5.prems"(3) by simp
qed auto

lemma of_sextets_bytes: "of_sextets v = Some b \<Longrightarrow> \<forall>n \<in> set v. n < 64 \<Longrightarrow> \<forall>n \<in> set b. n < 256"
proof (induction v arbitrary: b rule: of_sextets.induct)
  case (3 w x)
  then have "x div 16 < 4" "w < 64" by (auto simp: less_mult_imp_div_less)
  then show ?case using 3 by auto
next
  case (4 w x y)
  then have "x div 16 < 4" "y div 4 < 16" "w < 64" "x mod 16 < 16" by (auto simp: less_mult_imp_div_less)
  then show ?case using 4 by auto
next
  case (5 w x y z s)
  then obtain r where r: "of_sextets s = Some r"
    "b = (w * 4 + x div 16) # ((x mod 16) * 16 + y div 4) # ((y mod 4) * 64 + z) # r" by auto
  have "x div 16 < 4" "y div 4 < 16" "w < 64" "z < 64" "x mod 16 < 16" "y mod 4 < 4"
    using "5.prems"(2) by (auto simp: less_mult_imp_div_less)
  then show ?case using "5.IH" [OF r(1)] "5.prems"(2) r(2) by auto
qed auto

lemma all_some_Some: "all_some xs = Some ys \<Longrightarrow> xs = map Some ys"
  by (induction xs arbitrary: ys rule: all_some.induct) auto

lemma b64_body_unique:
  assumes "b64_body url s = Some b" and "length b mod 3 = 0" and "length s mod 4 \<noteq> 1"
  shows "s = map (b64_char url) (to_sextets (map byte b)) \<and> length s mod 4 = 0"
proof -
  obtain v bs where v: "all_some (map (b64_value url) s) = Some v" "of_sextets v = Some bs" "b = map char_of bs"
    using assms(1) by (auto simp: b64_body_def bind_eq_Some_conv)
  have m: "map (b64_value url) s = map Some v" by (rule all_some_Some [OF v(1)])
  then have len: "length v = length s" by (metis length_map)
  have "\<forall>n \<in> set v. n < 64"
  proof
    fix n assume "n \<in> set v"
    then have "Some n \<in> set (map (b64_value url) s)" using m by simp
    then show "n < 64" using b64_char_value by auto
  qed
  moreover from this have "map byte b = bs"
    using of_sextets_bytes [OF v(2)] v(3) by (auto simp: comp_def intro: map_idI)
  moreover have l: "length v mod 4 = 0"
    using of_sextets_length [OF v(2)] assms(2,3) v(3) len by simp
  ultimately have t: "to_sextets (map byte b) = v" using to_of_sextets [OF v(2)] by simp
  have "map (b64_char url) v = s"
  proof (rule nth_equalityI)
    fix k assume k: "k < length (map (b64_char url) v)"
    then have "b64_value url (s ! k) = Some (v ! k)" using m len by (metis length_map nth_map)
    then show "map (b64_char url) v ! k = s ! k" using b64_char_value k by simp
  qed (simp add: len)
  then show ?thesis using t l len by simp
qed

lemma std_decode_unique:
  assumes "std_decode t = Some b" and "\<not> has_eol t" and "length b mod 3 = 0"
  shows "t = std_encode b"
proof -
  have e: "drop_eol t = t"
    unfolding drop_eol_def
  proof (rule filter_True, rule ballI)
    fix c assume c: "c \<in> set t"
    then have "c \<noteq> CHR 0x0A" "c \<noteq> CHR 0x0D" using assms(2) by (auto simp: has_eol_def)
    moreover have "byte (CHR 0x0A) = 10" "byte (CHR 0x0D) = 13" by (simp_all add: byte_def)
    ultimately show "byte c \<noteq> 10 \<and> byte c \<noteq> 13" by (metis byte_inj)
  qed
  let ?body = "takeWhile (\<lambda>c. c \<noteq> CHR ''='') t" and ?pad = "dropWhile (\<lambda>c. c \<noteq> CHR ''='') t"
  have b: "length ?body mod 4 \<noteq> 1" "?pad = std_pad (length ?body)" "b64_body False ?body = Some b"
    using assms(1) e by (auto simp: std_decode_def Let_def split: if_splits)
  note w = b64_body_unique [OF b(3) assms(3) b(1)]
  have u: "?body = raw_std_encode b" using w by (simp add: raw_std_encode_def)
  have l: "length (raw_std_encode b) mod 4 = 0" using w u by metis
  have "?pad = []" using b(2) l u by (simp add: std_pad_def)
  then have "t = ?body" by (metis append_Nil2 takeWhile_dropWhile_id)
  then show ?thesis using u l by (simp add: std_encode_def std_pad_def)
qed

lemma be_bytes_value: "be_bytes (length s) (be_value s) = s"
proof (induction s rule: rev_induct)
  case (snoc c s)
  have "(256 * be_value s + byte c) div 256 = be_value s" "(256 * be_value s + byte c) mod 256 = byte c"
    using byte_bound [of c] by simp_all
  then show ?case using snoc by (simp add: be_value_snoc)
qed (simp add: be_value_def)

definition ed25519_wire :: "string \<Rightarrow> string" where
  "ed25519_wire k = be_bytes 4 11 @ ''ssh-ed25519'' @ be_bytes 4 32 @ k"

lemma ed25519_blob_wire: "ed25519_blob b \<longleftrightarrow> (\<exists>k. length k = 32 \<and> b = ed25519_wire k)"
proof
  assume a: "ed25519_blob b"
  then have "take 4 b = be_bytes 4 11" "take 4 (drop 15 b) = be_bytes 4 32"
    using be_bytes_value [of "take 4 b"] be_bytes_value [of "take 4 (drop 15 b)"] by (simp_all add: ed25519_blob_def)
  moreover have "b = take 4 b @ take 11 (drop 4 b) @ take 4 (drop 15 b) @ drop 19 b"
    using append_take_drop_id [of 4 b] append_take_drop_id [of 11 "drop 4 b"] append_take_drop_id [of 4 "drop 15 b"]
    by simp
  ultimately have "b = ed25519_wire (drop 19 b)" using a by (metis ed25519_blob_def ed25519_wire_def)
  then show "\<exists>k. length k = 32 \<and> b = ed25519_wire k"
    using a by (intro exI [of _ "drop 19 b"]) (simp add: ed25519_blob_def)
next
  assume "\<exists>k. length k = 32 \<and> b = ed25519_wire k"
  then show "ed25519_blob b"
    by (auto simp: ed25519_blob_def ed25519_wire_def be_value_bytes)
qed

lemma fields_from_chars: "v \<in> set (fields_from w s) \<Longrightarrow> set v \<subseteq> set w \<union> set s"
proof (induction w s arbitrary: v rule: fields_from.induct)
  case (1 w s)
  show ?case
  proof (cases s)
    case Nil
    then show ?thesis using "1.prems" by (auto simp: fields_from.simps [of w "[]"] split: if_splits)
  next
    case (Cons c r)
    let ?n = "space_len (map byte s)"
    show ?thesis
    proof (cases "?n = 0")
      case True
      then have "fields_from w s = fields_from (w @ [c]) r"
        using Cons by (subst fields_from.simps) (simp del: space_len.simps)
      then show ?thesis using "1.IH"(1) [OF Cons refl True] "1.prems" Cons by auto
    next
      case False
      then have "fields_from w s = (if w = [] then [] else [w]) @ fields_from [] (drop ?n s)"
        using Cons by (subst fields_from.simps) (simp del: space_len.simps)
      then show ?thesis using "1.IH"(2) [OF Cons refl False] "1.prems" set_drop_subset [of ?n s]
        by (fastforce split: if_splits)
    qed
  qed
qed

lemma string_fields_chars: "v \<in> set (string_fields s) \<Longrightarrow> set v \<subseteq> set s"
  using fields_from_chars [of v "[]" s] by (simp add: string_fields_def)

text \<open>
  (C21) A public key is accepted exactly when it is one line of two fields, the literal type
  and the canonical base64 text of a 32-byte key in its SSH wire form, and the fingerprint is the
  hash of that form. So one key has one accepted text, up to the white space around the fields:
  no second encoding of a key can pass for another key.
\<close>

theorem public_key_canonical:
  "public_fingerprint env pub = Inr fp \<longleftrightarrow>
     length pub \<le> 256 \<and> \<not> has_eol pub \<and> \<not> contains_sub pub ''PRIVATE''
     \<and> (\<exists>k. length k = 32 \<and> string_fields pub = [''ssh-ed25519'', std_encode (ed25519_wire k)]
            \<and> fp = key_fingerprint env (ed25519_wire k))"
proof (cases "length pub \<le> 256 \<and> \<not> has_eol pub \<and> \<not> contains_sub pub ''PRIVATE''")
  case False
  then show ?thesis by (auto simp: public_fingerprint_def)
next
  case True
  show ?thesis
  proof
    assume a: "public_fingerprint env pub = Inr fp"
    then obtain body b where f: "string_fields pub = [''ssh-ed25519'', body]" "std_decode body = Some b" "ed25519_blob b"
      and fp: "fp = key_fingerprint env b"
      using True by (auto simp: public_fingerprint_def split: list.splits if_splits option.splits)
    obtain k where k: "length k = 32" "b = ed25519_wire k" using f(3) ed25519_blob_wire by blast
    have "set body \<subseteq> set pub" using string_fields_chars [of body pub] f(1) by simp
    then have "\<not> has_eol body" using True by (auto simp: has_eol_def)
    then have "body = std_encode b" using std_decode_unique f(2,3) by (simp add: ed25519_blob_def)
    then show "length pub \<le> 256 \<and> \<not> has_eol pub \<and> \<not> contains_sub pub ''PRIVATE''
     \<and> (\<exists>k. length k = 32 \<and> string_fields pub = [''ssh-ed25519'', std_encode (ed25519_wire k)]
            \<and> fp = key_fingerprint env (ed25519_wire k))"
      using True f(1) fp k by blast
  next
    assume "length pub \<le> 256 \<and> \<not> has_eol pub \<and> \<not> contains_sub pub ''PRIVATE''
     \<and> (\<exists>k. length k = 32 \<and> string_fields pub = [''ssh-ed25519'', std_encode (ed25519_wire k)]
            \<and> fp = key_fingerprint env (ed25519_wire k))"
    then show "public_fingerprint env pub = Inr fp"
      using ed25519_blob_wire by (auto simp: public_fingerprint_def)
  qed
qed

end
