(* ===== verification/SshHosts.thy ===== *)
theory SshHosts
  imports SshConfig
begin

text \<open>
  The hosts the program ships (\<open>dns_admin.go\<close>, \<open>wg_beryl.go\<close> of \<open>internal/sshaccess\<close>, with the rules
  of \<open>internal/dnsadmin\<close>) against the validation of \<open>lease.go\<close> and the gate of \<open>gate.go\<close>, and a sample
  configuration the witnesses use.
\<close>

text \<open>Durations written as a whole number of one unit.\<close>

lemma parse_duration_whole:
  assumes ds: "list_all is_digit ds" "ds \<noteq> []" "digits_value ds \<le> 1000"
    and u: "unit_ns u = Some n" "list_all unit_char u" "u \<noteq> []" and n: "0 < n" "n \<le> 3600000000000"
  shows "parse_duration frac (ds @ u) = Some (int (digits_value ds * n))"
proof -
  obtain x us where x: "u = x # us" "unit_char x" using u(2,3) by (cases u) auto
  then have nd: "\<not> is_digit x" "x \<noteq> CHR ''.''" by (auto simp: unit_char_def)
  have t: "takeWhile is_digit (ds @ u) = ds" "dropWhile is_digit (ds @ u) = u"
    using ds(1) x nd by (auto simp: list_all_iff)
  have w: "takeWhile unit_char u = u" "dropWhile unit_char u = []" using u(2) by (auto simp: list_all_iff)
  have z: "digits_value [] = 0" by (simp add: digits_value_def)
  have "2 ^ 63 div 3600000000000 \<le> (2 ^ 63 :: nat) div n" using n by (intro div_le_mono2)
  then have d: "digits_value ds \<le> 2 ^ 63 div n" using ds(3) by simp
  have m: "digits_value ds * n \<le> 1000 * 3600000000000" using ds(3) n(2) by (rule mult_le_mono)
  have "hd u \<noteq> CHR ''.''" "u \<noteq> []" using x nd by simp_all
  then have p: "duration_part frac (ds @ u) = Some (digits_value ds * n, [])"
    unfolding duration_part_def Let_def t using ds(2,3) d m u(1) by (simp add: w z)
  have parts: "duration_parts frac 0 (ds @ u) = Some (digits_value ds * n)"
    using p m ds(2) by (subst duration_parts.simps) (simp add: duration_parts.simps [of _ _ "[]"])
  obtain c r where c: "ds = c # r" "is_digit c" using ds(1,2) by (cases ds) auto
  then have "c \<noteq> CHR ''-''" "c \<noteq> CHR ''+''" by (auto simp: is_digit_def byte_def)
  then have "parse_duration frac (ds @ u) = (case duration_parts frac 0 (ds @ u) of None \<Rightarrow> None
      | Some d \<Rightarrow> if d > 2 ^ 63 - 1 then None else Some (int d))"
    using c x by (simp add: parse_duration_def split: option.split)
  then show ?thesis using parts m by simp
qed

lemma unit_m: "unit_ns ''m'' = Some 60000000000" "list_all unit_char ''m''"
  and unit_s: "unit_ns ''s'' = Some 1000000000" "list_all unit_char ''s''"
  and unit_h: "unit_ns ''h'' = Some 3600000000000" "list_all unit_char ''h''"
  by (simp_all add: unit_ns_def unit_char_def is_digit_def byte_def)

lemma some_durations [simp]:
  "parse_duration frac ''15m'' = Some 900000000000" "parse_duration frac ''30m'' = Some 1800000000000"
  "parse_duration frac ''5m'' = Some 300000000000" "parse_duration frac ''30s'' = Some 30000000000"
  "parse_duration frac ''1h'' = Some 3600000000000"
  using parse_duration_whole [OF _ _ _ unit_m, of "''15''" frac] parse_duration_whole [OF _ _ _ unit_m, of "''30''" frac]
    parse_duration_whole [OF _ _ _ unit_m, of "''5''" frac] parse_duration_whole [OF _ _ _ unit_s, of "''30''" frac]
    parse_duration_whole [OF _ _ _ unit_h, of "''1''" frac]
  by (simp_all add: is_digit_def byte_def digits_value_def)

lemma some_bounded [simp]:
  "bounded_duration env ''15m'' = Inr 900000000000" "bounded_duration env ''30m'' = Inr 1800000000000"
  "bounded_duration env ''5m'' = Inr 300000000000" "bounded_duration env ''1h'' = Inr 3600000000000"
  by (simp_all add: bounded_duration_def max_duration_def hour_def minute_def second_def)

text \<open>Fields of visible words.\<close>

lemma fields_from_Cons: "fields_from w (c # r) =
  (if space_len (byte c # map byte r) = 0 then fields_from (w @ [c]) r
   else (if w = [] then [] else [w]) @ fields_from [] (drop (space_len (byte c # map byte r)) (c # r)))"
  by (subst fields_from.simps) (simp add: Let_def del: space_len.simps)

lemma fields_visible: "list_all visible w \<Longrightarrow> fields_from u (w @ s) = fields_from (u @ w) s"
  by (induction w arbitrary: u) (simp_all add: fields_from_Cons space_len_visible del: space_len.simps)

lemma fields_from_Nil [simp]: "fields_from w [] = (if w = [] then [] else [w])"
  by (subst fields_from.simps) simp

lemma two_fields:
  assumes "list_all visible a" and "list_all visible b" and "a \<noteq> []" and "b \<noteq> []"
  shows "string_fields (a @ '' '' @ b) = [a, b]"
proof -
  have "fields_from a (CHR '' '' # b) = a # fields_from [] b"
    using assms(3) by (simp add: fields_from_Cons byte_def)
  moreover have "fields_from [] b = [b]" using fields_visible [OF assms(2), of "[]" "[]"] assms(4) by simp
  ultimately show ?thesis using fields_visible [OF assms(1), of "[]" "'' '' @ b"] by (simp add: string_fields_def)
qed

lemma std_encode_visible: "list_all visible (std_encode b)"
proof -
  have "list_all (\<lambda>n. n < 64) (to_sextets (map byte b))" by (rule to_sextets_bound [OF bytes_bound])
  moreover have "visible (b64_char False n)" if "n < 64" for n
    using that by (auto simp: b64_char_def visible_def byte_def)
  ultimately have "list_all visible (raw_std_encode b)"
    unfolding raw_std_encode_def list_all_iff set_map by blast
  then show ?thesis by (simp add: std_encode_def std_pad_def visible_def byte_def)
qed

text \<open>The words of the fixed rules, the digest included.\<close>

lemma visible_runes:
  "list_all visible s \<Longrightarrow> runes (map byte s) = Some (map byte s) \<and> \<not> list_ex hidden_rune (map byte s)"
proof -
  assume v: "list_all visible s"
  then have "list_all (\<lambda>b. b < 128) (map byte s)" by (auto simp: list_all_iff visible_def)
  moreover have "\<not> hidden_rune (byte c)" if "visible c" for c
    using that by (auto simp: hidden_rune_def control_rune_def format_rune_code visible_def)
  ultimately show ?thesis using v runes_ascii by (auto simp: list_ex_iff list_all_iff)
qed

lemma word_ok_visible: "list_all visible v \<Longrightarrow> v \<noteq> [] \<Longrightarrow> length v \<le> 256 \<Longrightarrow> word_ok v"
  using visible_runes [of v] by (simp add: word_ok_def unsafe_text_def)

lemma hex_value_visible: "hex_value c = Some n \<Longrightarrow> visible c"
  by (auto simp: hex_value_def visible_def is_digit_def split: if_splits)

lemma hex_decode_visible: "hex_decode s = Some b \<Longrightarrow> list_all visible s"
  by (induction s arbitrary: b rule: hex_decode.induct) (auto split: option.splits dest: hex_value_visible)

lemma digest_word: "manifest_digest_ok d \<Longrightarrow> word_ok d"
  by (rule word_ok_visible)
     (auto simp: manifest_digest_ok_def split: option.splits dest: hex_decode_visible hex_decode_length)

lemma fixed_words:
  "list_all word_ok [''/usr/bin/sudo'', ''-n'', ''/usr/local/bin/21pins'', ''dns-admin'', ''wg-beryl'', ''dns'', ''query'', ''test'',
     ''technitium'', ''status'', ''filtering'', ''guest'', ''isolation'', ''beryl'', ''enroll'', ''inspect'', ''dns-query'', ''dns-test'',
     ''technitium-status'', ''technitium-filtering'', ''guest-isolation'', ''peer-enroll'', ''peer-inspect'']"
  by code_simp

lemma fixed_paths: "clean_path ''/usr/bin/sudo''" "clean_path ''/usr/local/bin/21pins''"
  "clean_path ''/etc/ssh/21pins/commands.json''" "path_base ''/usr/bin/sudo'' \<notin> set shells"
  by code_simp+

lemma sudo_rule_ok:
  assumes "manifest_digest_ok d" and "list_all word_ok words" and "words \<noteq> []" "length words \<le> 8"
    and "word_ok op" "word_ok tool" and "list_all (\<lambda>v. \<forall>c \<in> set v. c \<notin> shell_meta) words"
  shows "rule_ok (sudo_rule tool d (words, op))"
  using assms digest_word [OF assms(1)] fixed_words fixed_paths by (simp add: rule_ok_def sudo_rule_def)


lemma check_rules_intro:
  "list_all rule_ok rs \<Longrightarrow> distinct (map (command_key \<circ> rl_command) rs) \<Longrightarrow>
   \<forall>r \<in> set rs. command_key (rl_command r) \<notin> set seen \<Longrightarrow> check_rules seen rs"
proof (induction rs arbitrary: seen)
  case (Cons r rs)
  have "check_rules (command_key (rl_command r) # seen) rs"
  proof (rule Cons.IH)
    show "\<forall>s \<in> set rs. command_key (rl_command s) \<notin> set (command_key (rl_command r) # seen)"
      using Cons.prems(2,3) by (auto simp: image_iff)
  qed (use Cons.prems in simp_all)
  then show ?case using Cons.prems by simp
qed simp

lemma plain_words: "list_all (\<lambda>v. \<forall>c \<in> set v. c \<notin> shell_meta)
    [''dns'', ''query'', ''test'', ''technitium'', ''status'', ''filtering'', ''guest'', ''isolation'', ''beryl'', ''enroll'', ''inspect'']"
  by code_simp

lemma dns_rules_ok: "dns_rules d = Some rules \<Longrightarrow> validate_rules rules"
proof -
  assume "dns_rules d = Some rules"
  then have m: "manifest_digest_ok d" and r: "rules = map (sudo_rule ''dns-admin'' d)
        (zip [[''dns'', ''query''], [''dns'', ''test''], [''technitium'', ''status''], [''technitium'', ''filtering''],
              [''guest'', ''isolation'']] dns_operations)"
    by (auto simp: dns_rules_def split: if_splits)
  have ok: "list_all rule_ok rules"
    using fixed_words plain_words by (simp add: r dns_operations_def sudo_rule_ok [OF m])
  have "map (command_key \<circ> rl_command) rules = map command_key [[''dns'', ''query''], [''dns'', ''test''],
      [''technitium'', ''status''], [''technitium'', ''filtering''], [''guest'', ''isolation'']]"
    by (simp add: r dns_operations_def sudo_rule_def)
  moreover have "distinct \<dots>" by code_simp
  ultimately have "distinct (map (command_key \<circ> rl_command) rules)" by simp
  then show ?thesis using ok check_rules_intro [of rules "[]"] r by (simp add: validate_rules_def dns_operations_def)
qed

lemma wireguard_rules_ok: "wireguard_rules d = Some rules \<Longrightarrow> validate_rules rules"
proof -
  assume "wireguard_rules d = Some rules"
  then have m: "manifest_digest_ok d" and r: "rules = map (sudo_rule ''wg-beryl'' d)
        (zip [[''beryl'', ''enroll''], [''beryl'', ''inspect'']] wireguard_operations)"
    by (auto simp: wireguard_rules_def split: if_splits)
  have ok: "list_all rule_ok rules"
    using fixed_words plain_words by (simp add: r wireguard_operations_def sudo_rule_ok [OF m])
  have "map (command_key \<circ> rl_command) rules = map command_key [[''beryl'', ''enroll''], [''beryl'', ''inspect'']]"
    by (simp add: r wireguard_operations_def sudo_rule_def)
  moreover have "distinct \<dots>" by code_simp
  ultimately have "distinct (map (command_key \<circ> rl_command) rules)" by simp
  then show ?thesis using ok check_rules_intro [of rules "[]"] r by (simp add: validate_rules_def wireguard_operations_def)
qed

lemma reviewed_host_ok:
  assumes "validate_rules rules" and "identifier_ok role_name" and "identifier_ok account" and "account \<noteq> ''root''"
  shows "roles_fault env c [] [] [] (ho_roles (reviewed_host role_name account alias jump rules)) = None"
proof -
  have "rules \<noteq> []" using assms(1) by (simp add: validate_rules_def)
  then have a: "validate_authority \<lparr>au_binary = ''/usr/local/bin/21pins'',
      au_policy_file = ''/etc/ssh/21pins/commands.json'', au_rules = rules, au_fixture = False\<rparr>"
    using assms(1) fixed_paths by (simp add: validate_authority_def)
  have p: "identifier_ok ''pi''" by code_simp
  show ?thesis
    using a p assms(2-4)
    by (simp add: reviewed_host_def gated_ok_def role_fault_def empty_role_def at_or_def)
qed

text \<open>
  The two hosts the program ships, for DNS administration and for the WireGuard gateway, pass
  the validation of the configuration they are added to, whatever that configuration is and in
  either CA mode: their rules satisfy the gate, their account is not root, and their role needs
  an explicit approval.
\<close>

theorem shipped_hosts_accepted:
  assumes "dns_admin_host d alias jump = Inr h \<or> wg_beryl_host d alias jump = Inr h"
    and "identifier_ok name" and "validate_config env c = None"
  shows "validate_config env (c\<lparr>sc_hosts := (name, h) # sc_hosts c\<rparr>) = None
    \<and> list_all (\<lambda>(_, r). ro_explicit r \<and> ro_authority r \<noteq> None \<and> ro_ssh_user r \<noteq> ''root'') (ho_roles h)"
proof -
  have i: "identifier_ok ''dns-admin''" "identifier_ok ''wg-beryl''" "identifier_ok ''pins-dns-agent''"
    "identifier_ok ''pins-wg-agent''" by code_simp+
  obtain rn ac rules where h: "h = reviewed_host rn ac alias jump rules" "validate_rules rules"
    "identifier_ok rn" "identifier_ok ac" "ac \<noteq> ''root''" and al: "identifier_ok alias" "identifier_ok jump"
    using assms(1) i dns_rules_ok wireguard_rules_ok
    by (auto simp: dns_admin_host_def wg_beryl_host_def split: if_splits option.splits)
  have f: "ho_alias h = alias" "ho_jump_alias h = jump" using h(1) by (simp_all add: reviewed_host_def)
  have "roles_fault env (sc_ca c) [] [] [] (ho_roles h) = None"
    using reviewed_host_ok h by simp
  then have "hosts_fault env (sc_ca c) ((name, h) # sc_hosts c) = hosts_fault env (sc_ca c) (sc_hosts c)"
    using assms(2) al f by (simp split: option.split)
  then have "validate_config env (c\<lparr>sc_hosts := (name, h) # sc_hosts c\<rparr>) = validate_config env c"
    by (simp add: validate_config_def del: hosts_fault.simps split: sum.split option.split)
  moreover have "list_all (\<lambda>(_, r). ro_explicit r \<and> ro_authority r \<noteq> None \<and> ro_ssh_user r \<noteq> ''root'') (ho_roles h)"
    using h(5) by (simp add: h(1) reviewed_host_def)
  ultimately show ?thesis using assms(3) by simp
qed

definition ssh_sample_env :: ssh_env where
  "ssh_sample_env = \<lparr>se_frac = (\<lambda>_ _. 0), se_sha256 = (\<lambda>s. replicate 32 (CHR ''h'')), se_scope_json = (\<lambda>_. []),
     se_rules_hash = sample_hash\<rparr>"

definition ssh_sample_role :: role where
  "ssh_sample_role = empty_role\<lparr>ro_ssh_user := ''agent'', ro_default_lease := ''15m'', ro_max_lease := ''30m'',
     ro_max_cert_ttl := ''5m'', ro_requesters := [(''pi'', ''approval''), (''bot'', ''preapproved'')]\<rparr>"

definition ssh_sample_config :: ssh_config where
  "ssh_sample_config = \<lparr>sc_workspace = ''local'', sc_ca = \<lparr>ca_mode = ''dev'', ca_public_key_file = [], ca_secret_ref = [],
     ca_agent_socket = [], ca_fingerprint = []\<rparr>, sc_cert_ttl = ''15m'', sc_renew_before = ''5m'', sc_clock_skew = ''30s'',
     sc_hosts = [(''web'', \<lparr>ho_alias = ''web'', ho_jump_alias = [], ho_roles = [(''observe'', ssh_sample_role)]\<rparr>)]\<rparr>"

lemma ssh_sample_valid: "validate_config env ssh_sample_config = None"
proof -
  have "identifier_ok ''local''" "identifier_ok ''web''" "identifier_ok ''observe''" "identifier_ok ''agent''"
    "identifier_ok ''pi''" "identifier_ok ''bot''" by code_simp+
  then show ?thesis
    by (simp add: validate_config_def ssh_sample_config_def role_fault_def ssh_sample_role_def empty_role_def
        at_or_def minute_def second_def)
qed

theorem shipped_hosts_accepted_witness:
  "\<exists>h. dns_admin_host (hex_encode (replicate 32 (CHR ''d''))) ''dns'' ''jump'' = Inr h
     \<and> validate_config ssh_sample_env (ssh_sample_config\<lparr>sc_hosts := (''dns'', h) # sc_hosts ssh_sample_config\<rparr>) = None"
proof -
  have i: "identifier_ok ''dns''" "identifier_ok ''jump''" by code_simp+
  have "manifest_digest_ok (hex_encode (replicate 32 (CHR ''d'')))" by code_simp
  then obtain h where h: "dns_admin_host (hex_encode (replicate 32 (CHR ''d''))) ''dns'' ''jump'' = Inr h"
    using i by (auto simp: dns_admin_host_def dns_rules_def)
  then show ?thesis using shipped_hosts_accepted [OF disjI1 [OF h] i(1) ssh_sample_valid] by blast
qed

end
