(* ===== verification/SshLease.thy ===== *)
theory SshLease
  imports SshConfig
begin

text \<open>
  Package \<open>internal/sshaccess\<close>, the lease service (\<open>lease.go\<close>): leases, issued certificates, the
  state file \<open>leases.json\<close> and the operations \<open>Open\<close>, \<open>Get\<close>, \<open>List\<close>, \<open>Approve\<close>, \<open>Close\<close> and \<open>Issue\<close>.

  Each operation runs under an exclusive file lock, so it is one step on the file. The clock
  and the authorization callback may answer differently each time one operation asks: they
  are functions of the number of the question. The state file is read and written as the value
  it stands for; a save may fail, and then the old file stays.
\<close>

subsection \<open>Types\<close>

datatype status = PendingApproval | Active | Completed | Cancelled | Revoked | Expired | StatusOther string

record lease =
  le_id :: string
  le_workspace :: string
  le_requester_id :: string
  le_requester :: string
  le_agent_class :: string
  le_host_id :: string
  le_role_id :: string
  le_ssh_user :: string
  le_ssh_alias :: string
  le_ssh_jump_alias :: string
  le_renew_before :: string
  le_objective_id :: string
  le_purpose :: string
  le_fingerprint :: string
  le_principal :: string
  le_estimated :: string
  le_policy_digest :: string
  le_opened_at :: time
  le_hard_expires_at :: time
  le_closed_at :: "time option"
  le_status :: status
  le_termination_reason :: string
  le_approved_by :: string
  le_policy :: role

record issuance =
  is_lease_id :: string
  is_serial :: i64
  is_fingerprint :: string
  is_valid_after :: time
  is_valid_before :: time
  is_issued_at :: time

record open_request =
  oq_host_id :: string
  oq_role_id :: string
  oq_agent_class :: string
  oq_objective_id :: string
  oq_purpose :: string
  oq_estimated :: string
  oq_max_duration :: string
  oq_public_key :: string

record sign_request =
  sr_public_key :: string
  sr_lease_id :: string
  sr_serial :: i64
  sr_principal :: string
  sr_key_id :: string
  sr_valid_after :: time
  sr_valid_before :: time
  sr_force_command :: string
  sr_pty :: bool
  sr_port_forwarding :: bool
  sr_agent_forwarding :: bool
  sr_x11 :: bool

record lease_state =
  ds_next_serial :: i64
  ds_leases :: "lease gomap"
  ds_issuances :: "issuance list"

record issue_result =
  ir_lease :: lease
  ir_certificate :: string
  ir_issuance :: issuance

text \<open>The JSON of the state file: not decodable, decodable with \<open>leases\<close> null, or a state.\<close>

datatype lease_json = NotJson | NullLeases | LeaseState lease_state

type_synonym lease_file = "lease_json private_file"

text \<open>
  The service: its configuration, the signer (\<open>None\<close>: nil), the authorization callback
  (\<open>None\<close>: nil), and for a live configuration what each later \<open>Load\<close> yields.
\<close>

record service =
  sv_config :: ssh_config
  sv_signer :: "(sign_request \<Rightarrow> string option) option"
  sv_authorize :: "(nat \<Rightarrow> actor \<Rightarrow> bool) option"
  sv_live :: "(nat \<Rightarrow> ssh_error + ssh_config) option"

datatype flock_result = Locked | WouldBlock | FlockError

text \<open>What one transaction meets: its directory, its lock, the reads and the saves by number.\<close>

record lease_io =
  li_uid :: nat
  li_dir :: "ssh_error option"
  li_lock :: "ssh_error option"
  li_flock :: "nat \<Rightarrow> flock_result"
  li_wall :: "nat \<Rightarrow> time"
  li_opens :: bool
  li_reads :: bool
  li_lstats :: bool
  li_writes :: "nat \<Rightarrow> bool"
  li_json_size :: "lease_state \<Rightarrow> nat"

definition empty_lease_state :: lease_state where
  "empty_lease_state = \<lparr>ds_next_serial = 0, ds_leases = [], ds_issuances = []\<rparr>"

subsection \<open>Durations as text\<close>

text \<open>\<open>time.Duration.String\<close>, for the \<open>renew_before\<close> a lease records.\<close>

definition frac_text :: "nat \<Rightarrow> nat \<Rightarrow> string" where
  "frac_text w v = (if v = 0 then [] else CHR ''.'' # trim_right_char (CHR ''0'') (pad_dec w v))"

definition nat_duration_text :: "nat \<Rightarrow> string" where
  "nat_duration_text u =
     (if u = 0 then ''0s''
      else if u < 1000 then dec_nat u @ ''ns''
      else if u < 1000000 then dec_nat (u div 1000) @ frac_text 3 (u mod 1000) @ [char_of (194 :: nat), char_of (181 :: nat), CHR ''s'']
      else if u < 1000000000 then dec_nat (u div 1000000) @ frac_text 6 (u mod 1000000) @ ''ms''
      else (let s = u div 1000000000; out = dec_nat (s mod 60) @ frac_text 9 (u mod 1000000000) @ ''s'' in
            if s div 60 = 0 then out
            else let out2 = dec_nat (s div 60 mod 60) @ ''m'' @ out in
              if s div 3600 = 0 then out2 else dec_nat (s div 3600) @ ''h'' @ out2))"

definition duration_text :: "int \<Rightarrow> string" where
  "duration_text d = (if d < 0 then CHR ''-'' # nat_duration_text (nat (- d)) else nat_duration_text (nat d))"

subsection \<open>The transaction\<close>

text \<open>
  The loop that polls the lock: \<open>None\<close> is running out of fuel, \<open>Some True\<close> the lock,
  \<open>Some False\<close> giving up. \<open>i\<close> counts the attempts; the first reading of the clock sets the deadline, ten
  seconds later, and each failed attempt reads it again.
\<close>

fun flock_loop :: "nat \<Rightarrow> (nat \<Rightarrow> flock_result) \<Rightarrow> (nat \<Rightarrow> time) \<Rightarrow> time \<Rightarrow> nat \<Rightarrow> bool option" where
  "flock_loop 0 try wall deadline i = None"
| "flock_loop (Suc fuel) try wall deadline i =
     (case try i of
        Locked \<Rightarrow> Some True
      | FlockError \<Rightarrow> Some False
      | WouldBlock \<Rightarrow> if wall (Suc i) > deadline then Some False else flock_loop fuel try wall deadline (Suc i))"

definition lock_wait :: time where "lock_wait = 10 * second"
definition lock_pause :: time where "lock_pause = 10000000"

definition flock_fuel :: nat where "flock_fuel = 1002"

definition save_leases :: "lease_io \<Rightarrow> nat \<Rightarrow> lease_state \<Rightarrow> lease_file \<Rightarrow> ssh_error option \<times> lease_file" where
  "save_leases io k d f =
     (if li_json_size io d > file_limit then (Some CapacityReached, f)
      else atomic_private (li_uid io) (li_lstats io) (li_writes io k) (li_json_size io d) (LeaseState d) f)"

text \<open>
  \<open>transaction fn\<close>: the body gets the state and the file (\<open>Issue\<close> saves inside its body) and
  yields its result and the new state; the final save has number 1.
\<close>

definition lease_transaction ::
    "(lease_state \<Rightarrow> lease_file \<Rightarrow> (ssh_error + lease_state \<times> 'r) \<times> lease_file) \<Rightarrow> lease_io \<Rightarrow> lease_file
     \<Rightarrow> (ssh_error + 'r) \<times> lease_file" where
  "lease_transaction fn io f =
     (case li_dir io of
        Some e \<Rightarrow> (Inl e, f)
      | None \<Rightarrow>
      (case li_lock io of
         Some e \<Rightarrow> (Inl e, f)
       | None \<Rightarrow>
          if flock_loop flock_fuel (li_flock io) (li_wall io) (li_wall io 0 + lock_wait) 0 \<noteq> Some True
          then (Inl WriterUnavailable, f)
          else case (case read_private (li_uid io) (li_opens io) (li_reads io) f of
                       Inl e \<Rightarrow> Inl e
                     | Inr None \<Rightarrow> Inr empty_lease_state
                     | Inr (Some (LeaseState d)) \<Rightarrow> Inr d
                     | Inr (Some _) \<Rightarrow> Inl LeaseStateInvalid) of
            Inl e \<Rightarrow> (Inl e, f)
          | Inr d \<Rightarrow>
              (case fn d f of
                 (Inl e, f') \<Rightarrow> (Inl e, f')
               | (Inr (d', r), f') \<Rightarrow>
                   (case save_leases io 1 d' f' of
                      (Some e, f'') \<Rightarrow> (Inl e, f'')
                    | (None, f'') \<Rightarrow> (Inr r, f'')))))"

text \<open>A body that does not touch the file.\<close>

definition plain_body ::
    "(lease_state \<Rightarrow> ssh_error + lease_state \<times> 'r) \<Rightarrow> lease_state \<Rightarrow> lease_file
     \<Rightarrow> (ssh_error + lease_state \<times> 'r) \<times> lease_file" where
  "plain_body b d f = (b d, f)"

text \<open>\<open>d.Leases[k] = l\<close>\<close>

definition put_lease_at :: "string \<Rightarrow> lease \<Rightarrow> lease_state \<Rightarrow> lease_state" where
  "put_lease_at k l d = d\<lparr>ds_leases := AList.update k l (ds_leases d)\<rparr>"

subsection \<open>Open\<close>

definition pending_or_active :: "lease \<Rightarrow> bool" where
  "pending_or_active l \<longleftrightarrow> le_status l = Active \<or> le_status l = PendingApproval"

definition purpose_ok :: "string \<Rightarrow> bool" where
  "purpose_ok p \<longleftrightarrow> p \<noteq> [] \<and> length p \<le> 256 \<and> \<not> list_ex hidden_rune (range_runes (map byte p))"

definition same_request ::
    "ssh_env \<Rightarrow> ssh_config \<Rightarrow> actor \<Rightarrow> open_request \<Rightarrow> time \<Rightarrow> lease \<Rightarrow> bool" where
  "same_request env c a q now l \<longleftrightarrow>
     le_requester_id l = ac_id a \<and> le_host_id l = oq_host_id q \<and> le_role_id l = oq_role_id q
     \<and> le_objective_id l = oq_objective_id q \<and> le_purpose l = oq_purpose q \<and> le_agent_class l = oq_agent_class q
     \<and> le_policy_digest l = scope_digest env c (oq_host_id q) (oq_role_id q)
     \<and> pending_or_active l \<and> now < le_hard_expires_at l"

definition lease_principal :: "string \<Rightarrow> string \<Rightarrow> string \<Rightarrow> string" where
  "lease_principal w h r = ''21pins:'' @ w @ '':'' @ h @ '':'' @ r"

definition renew_window :: "ssh_env \<Rightarrow> ssh_config \<Rightarrow> role \<Rightarrow> int" where
  "renew_window env c r =
     (let renew = duration_or_0 env (sc_renew_before c);
          ttl = (case bounded_duration env (ro_max_cert_ttl r) of
                   Inr cp \<Rightarrow> min cp (duration_or_0 env (sc_cert_ttl c))
                 | Inl _ \<Rightarrow> duration_or_0 env (sc_cert_ttl c))
      in if renew \<ge> ttl then ttl div 3 else renew)"

definition new_lease ::
    "ssh_env \<Rightarrow> ssh_config \<Rightarrow> actor \<Rightarrow> open_request \<Rightarrow> role \<Rightarrow> int \<Rightarrow> string \<Rightarrow> string \<Rightarrow> time \<Rightarrow> lease" where
  "new_lease env c a q r window fp rid now =
     (let h = at_or empty_host (sc_hosts c) (oq_host_id q) in
      \<lparr>le_id = rid, le_workspace = sc_workspace c, le_requester_id = ac_id a, le_requester = ac_name a,
       le_agent_class = oq_agent_class q, le_host_id = oq_host_id q, le_role_id = oq_role_id q,
       le_ssh_user = ro_ssh_user r, le_ssh_alias = ho_alias h, le_ssh_jump_alias = ho_jump_alias h,
       le_renew_before = duration_text (renew_window env c r), le_objective_id = oq_objective_id q,
       le_purpose = oq_purpose q, le_fingerprint = fp,
       le_principal = lease_principal (sc_workspace c) (oq_host_id q) (oq_role_id q),
       le_estimated = oq_estimated q,
       le_policy_digest = scope_digest env c (oq_host_id q) (oq_role_id q),
       le_opened_at = now, le_hard_expires_at = now + window, le_closed_at = None,
       le_status = (if at_or [] (ro_requesters r) (ac_name a) = ''preapproved'' \<and> \<not> ro_explicit r
                    then Active else PendingApproval),
       le_termination_reason = [], le_approved_by = [], le_policy = r\<rparr>)"

text \<open>The loop over the leases stops at the first one with the key's fingerprint.\<close>

definition open_body ::
    "ssh_env \<Rightarrow> ssh_config \<Rightarrow> actor \<Rightarrow> open_request \<Rightarrow> role \<Rightarrow> int \<Rightarrow> string \<Rightarrow> string \<Rightarrow> time
     \<Rightarrow> lease_state \<Rightarrow> ssh_error + lease_state \<times> lease" where
  "open_body env c a q r window fp rid now d =
     (case find (\<lambda>(_, l). le_fingerprint l = fp) (ds_leases d) of
        Some (_, l) \<Rightarrow> if same_request env c a q now l then Inr (d, l) else Inl SshDenied
      | None \<Rightarrow> (let l = new_lease env c a q r window fp rid now in Inr (put_lease_at (le_id l) l d, l)))"

definition open_window :: "ssh_env \<Rightarrow> role \<Rightarrow> open_request \<Rightarrow> ssh_error + int" where
  "open_window env r q =
     (if oq_max_duration q = [] then Inr (duration_or_0 env (ro_default_lease r))
      else case bounded_duration env (oq_max_duration q) of
        Inl _ \<Rightarrow> Inl SshDenied
      | Inr w \<Rightarrow> if w > duration_or_0 env (ro_max_lease r) then Inl SshDenied else Inr w)"

definition open_checks :: "ssh_env \<Rightarrow> ssh_config \<Rightarrow> actor \<Rightarrow> open_request \<Rightarrow> ssh_error + string \<times> role \<times> int" where
  "open_checks env c a q =
     (case public_fingerprint env (oq_public_key q) of
        Inl e \<Rightarrow> Inl e
      | Inr fp \<Rightarrow>
          if \<not> identifier_ok (oq_agent_class q) \<or> \<not> identifier_ok (oq_objective_id q) \<or> \<not> purpose_ok (oq_purpose q)
          then Inl BoundedPurpose
          else case service_role env c a (oq_host_id q) (oq_role_id q) of
            Inl e \<Rightarrow> Inl e
          | Inr r \<Rightarrow>
              (case open_window env r q of
                 Inl e \<Rightarrow> Inl e
               | Inr w \<Rightarrow>
                   if oq_estimated q \<noteq> [] then
                     (case bounded_duration env (oq_estimated q) of
                        Inl e \<Rightarrow> Inl e | Inr _ \<Rightarrow> Inr (fp, r, w))
                   else Inr (fp, r, w)))"

text \<open>\<open>rnd\<close> is the sixteen random bytes of \<open>randomID\<close>.\<close>

definition open_lease ::
    "ssh_env \<Rightarrow> service \<Rightarrow> (nat \<Rightarrow> time) \<Rightarrow> string \<Rightarrow> actor \<Rightarrow> open_request \<Rightarrow> lease_io \<Rightarrow> lease_file
     \<Rightarrow> (ssh_error + lease) \<times> lease_file" where
  "open_lease env s clock rnd a q io f =
     (case open_checks env (sv_config s) a q of
        Inl e \<Rightarrow> (Inl e, f)
      | Inr (fp, r, w) \<Rightarrow>
          lease_transaction (plain_body (open_body env (sv_config s) a q r w fp (hex_encode rnd) (clock 0))) io f)"

subsection \<open>Get, List, Approve, Close\<close>

definition expire :: "lease \<Rightarrow> time \<Rightarrow> lease" where
  "expire l now =
     (if pending_or_active l \<and> \<not> now < le_hard_expires_at l
      then l\<lparr>le_status := Expired, le_closed_at := Some now,
             le_termination_reason := ''authorization_window_expired''\<rparr>
      else l)"

definition may_see :: "actor \<Rightarrow> lease \<Rightarrow> bool" where
  "may_see a l \<longleftrightarrow> le_requester_id l = ac_id a \<or> ac_can_approve a"

definition get_body :: "(nat \<Rightarrow> time) \<Rightarrow> actor \<Rightarrow> string \<Rightarrow> lease_state \<Rightarrow> ssh_error + lease_state \<times> lease" where
  "get_body clock a i d =
     (case map_of (ds_leases d) i of
        None \<Rightarrow> Inl SshDenied
      | Some l \<Rightarrow>
          if \<not> may_see a l then Inl SshDenied
          else (let l' = expire l (clock 0) in Inr (put_lease_at i l' d, l')))"

definition get_lease where
  "get_lease clock a i = lease_transaction (plain_body (get_body clock a i))"

text \<open>The loop of \<open>List\<close> over the keys; \<open>k\<close> counts the readings of the clock.\<close>

fun list_loop ::
    "(nat \<Rightarrow> time) \<Rightarrow> actor \<Rightarrow> string \<Rightarrow> nat \<Rightarrow> lease gomap \<Rightarrow> lease gomap \<times> lease list" where
  "list_loop clock a objective k [] = ([], [])"
| "list_loop clock a objective k ((i, l) # rest) =
     (if may_see a l \<and> (objective = [] \<or> objective = le_objective_id l) then
        (let l' = expire l (clock k) in
         (case list_loop clock a objective (Suc k) rest of (m, out) \<Rightarrow> ((i, l') # m, l' # out)))
      else (case list_loop clock a objective k rest of (m, out) \<Rightarrow> ((i, l) # m, out)))"

definition list_body ::
    "(nat \<Rightarrow> time) \<Rightarrow> actor \<Rightarrow> string \<Rightarrow> lease_state \<Rightarrow> ssh_error + lease_state \<times> lease list" where
  "list_body clock a objective d =
     (case list_loop clock a objective 0 (ds_leases d) of (m, out) \<Rightarrow> Inr (d\<lparr>ds_leases := m\<rparr>, out))"

definition list_leases where
  "list_leases clock a objective = lease_transaction (plain_body (list_body clock a objective))"

definition authorized :: "service \<Rightarrow> nat \<Rightarrow> actor \<Rightarrow> bool" where
  "authorized s k a \<longleftrightarrow> (case sv_authorize s of None \<Rightarrow> True | Some f \<Rightarrow> f k a)"

definition approve_body ::
    "ssh_env \<Rightarrow> service \<Rightarrow> (nat \<Rightarrow> time) \<Rightarrow> actor \<Rightarrow> string \<Rightarrow> lease_state \<Rightarrow> ssh_error + lease_state \<times> lease" where
  "approve_body env s clock a i d =
     (case map_of (ds_leases d) i of
        None \<Rightarrow> Inl SshDenied
      | Some l0 \<Rightarrow>
          if \<not> ac_can_approve a \<or> ac_id a = le_requester_id l0 \<or> \<not> authorized s 0 a then Inl SshDenied
          else (let l = expire l0 (clock 0) in
            if le_status l \<noteq> PendingApproval then Inl SshDenied
            else if le_policy_digest l \<noteq> scope_digest env (sv_config s) (le_host_id l) (le_role_id l)
            then Inl SshDenied
            else (let l' = l\<lparr>le_status := Active, le_approved_by := ac_id a\<rparr> in Inr (put_lease_at i l' d, l'))))"

definition approve_lease where
  "approve_lease env s clock a i = lease_transaction (plain_body (approve_body env s clock a i))"

definition close_reasons :: "string list" where
  "close_reasons = [''complete'', ''cancelled'', ''revoked'', ''blocked'', ''shutdown'', ''lost_client'']"

definition close_body ::
    "(nat \<Rightarrow> time) \<Rightarrow> actor \<Rightarrow> string \<Rightarrow> status \<Rightarrow> string \<Rightarrow> lease_state \<Rightarrow> ssh_error + lease_state \<times> lease" where
  "close_body clock a i st reason d =
     (case map_of (ds_leases d) i of
        None \<Rightarrow> Inl SshDenied
      | Some l0 \<Rightarrow>
          if \<not> may_see a l0 then Inl SshDenied
          else (let l = expire l0 (clock 0);
                    l' = (if pending_or_active l
                          then l\<lparr>le_status := st, le_closed_at := Some (clock 1), le_termination_reason := reason\<rparr>
                          else l)
                in Inr (put_lease_at i l' d, l')))"

definition close_lease ::
    "(nat \<Rightarrow> time) \<Rightarrow> actor \<Rightarrow> string \<Rightarrow> status \<Rightarrow> string \<Rightarrow> lease_io \<Rightarrow> lease_file
     \<Rightarrow> (ssh_error + lease) \<times> lease_file" where
  "close_lease clock a i st reason io f =
     (if st \<noteq> Completed \<and> st \<noteq> Cancelled \<and> st \<noteq> Revoked then (Inl SshDenied, f)
      else if st = Revoked \<and> \<not> ac_can_approve a then (Inl SshDenied, f)
      else if reason \<notin> set close_reasons then (Inl InvalidReason, f)
      else lease_transaction (plain_body (close_body clock a i st reason)) io f)"

subsection \<open>Issue\<close>

text \<open>The configuration an operation sees when it asks again: the \<open>k\<close>-th fresh load, or its own.\<close>

definition current_config :: "service \<Rightarrow> nat \<Rightarrow> ssh_error + ssh_config" where
  "current_config s k =
     (case sv_live s of
        None \<Rightarrow> Inr (sv_config s)
      | Some fresh \<Rightarrow> (case fresh k of Inl _ \<Rightarrow> Inl SshDenied | Inr c \<Rightarrow> Inr c))"

definition truncate_second :: "time \<Rightarrow> time" where
  "truncate_second t = t - t mod second"

definition skew_or_0 :: "ssh_env \<Rightarrow> ssh_config \<Rightarrow> int" where
  "skew_or_0 env c = (case parse_duration (se_frac env) (sc_clock_skew c) of None \<Rightarrow> 0 | Some d \<Rightarrow> d)"

text \<open>The end of a certificate: the shorter of the two ceilings, cut at the end of the lease.\<close>

definition valid_until :: "ssh_env \<Rightarrow> ssh_config \<Rightarrow> role \<Rightarrow> lease \<Rightarrow> time \<Rightarrow> time" where
  "valid_until env c r l now =
     (let ttl = min (duration_or_0 env (sc_cert_ttl c)) (duration_or_0 env (ro_max_cert_ttl r));
          before = truncate_second (now + ttl)
      in if le_hard_expires_at l < before then truncate_second (le_hard_expires_at l) else before)"

text \<open>The checks before a serial is reserved: the lease, the role and the end of the certificate.\<close>

definition issue_checks ::
    "ssh_env \<Rightarrow> service \<Rightarrow> (nat \<Rightarrow> time) \<Rightarrow> actor \<Rightarrow> string \<Rightarrow> string \<Rightarrow> lease_state
     \<Rightarrow> ssh_error + lease \<times> role \<times> time" where
  "issue_checks env s clock a i fp d =
     (case map_of (ds_leases d) i of
        None \<Rightarrow> Inl SshDenied
      | Some l0 \<Rightarrow>
          if le_requester_id l0 \<noteq> ac_id a then Inl SshDenied
          else (let l = expire l0 (clock 0) in
            if le_status l \<noteq> Active \<or> le_fingerprint l \<noteq> fp then Inl SshDenied
            else case current_config s 0 of
              Inl e \<Rightarrow> Inl e
            | Inr c \<Rightarrow>
                (case service_role env c a (le_host_id l) (le_role_id l) of
                   Inl _ \<Rightarrow> Inl SshDenied
                 | Inr r \<Rightarrow>
                     if \<not> authorized s 0 a
                        \<or> le_policy_digest l \<noteq> scope_digest env c (le_host_id l) (le_role_id l) then Inl SshDenied
                     else let before = valid_until env (sv_config s) r l (clock 0) in
                       if \<not> clock 0 < before then Inl SshDenied else Inr (l, r, before))))"

definition force_text :: "ssh_env \<Rightarrow> lease \<Rightarrow> role \<Rightarrow> ssh_error + string" where
  "force_text env l r =
     (case ro_authority r of
        None \<Rightarrow> Inr []
      | Some au \<Rightarrow>
          (case forced_command (se_rules_hash env) au (le_workspace l) (le_host_id l) (le_role_id l) (le_ssh_user l) of
             None \<Rightarrow> Inl SshDenied
           | Some t \<Rightarrow> Inr t))"

definition sign_request_of ::
    "ssh_env \<Rightarrow> service \<Rightarrow> string \<Rightarrow> string \<Rightarrow> lease \<Rightarrow> role \<Rightarrow> i64 \<Rightarrow> time \<Rightarrow> time \<Rightarrow> string \<Rightarrow> sign_request" where
  "sign_request_of env s i pub l r serial now before force =
     \<lparr>sr_public_key = pub, sr_lease_id = i, sr_serial = serial, sr_principal = le_principal l,
      sr_key_id = ''21pins:'' @ i @ '':'' @ le_agent_class l @ '':'' @ le_objective_id l,
      sr_valid_after = now - skew_or_0 env (sv_config s), sr_valid_before = before, sr_force_command = force,
      sr_pty = ro_pty r, sr_port_forwarding = ro_port_forwarding r,
      sr_agent_forwarding = ro_agent_forwarding r, sr_x11 = ro_x11 r\<rparr>"

definition issuance_of :: "ssh_env \<Rightarrow> sign_request \<Rightarrow> string \<Rightarrow> time \<Rightarrow> issuance" where
  "issuance_of env q cert now =
     \<lparr>is_lease_id = sr_lease_id q, is_serial = sr_serial q,
      is_fingerprint = key_fingerprint env cert, is_valid_after = sr_valid_after q,
      is_valid_before = sr_valid_before q, is_issued_at = now\<rparr>"

text \<open>After the reserve: sign, then check configuration, clock and authorization once more.\<close>

definition issue_sign ::
    "ssh_env \<Rightarrow> service \<Rightarrow> (nat \<Rightarrow> time) \<Rightarrow> actor \<Rightarrow> string \<Rightarrow> string \<Rightarrow> lease \<Rightarrow> role \<Rightarrow> time
     \<Rightarrow> lease_state \<Rightarrow> ssh_error + lease_state \<times> issue_result" where
  "issue_sign env s clock a i pub l r before d =
     (case sv_signer s of
        None \<Rightarrow> Inl SignerUnavailable
      | Some sign \<Rightarrow>
          (case force_text env l r of
             Inl e \<Rightarrow> Inl e
           | Inr force \<Rightarrow>
               (let q = sign_request_of env s i pub l r (ds_next_serial d) (clock 0) before force in
                case sign q of
                  None \<Rightarrow> Inl SigningFailed
                | Some cert \<Rightarrow>
                    (case current_config s 1 of
                       Inl e \<Rightarrow> Inl e
                     | Inr c \<Rightarrow>
                         if \<not> clock 1 < before \<or> \<not> authorized s 1 a
                            \<or> le_policy_digest l \<noteq> scope_digest env c (le_host_id l) (le_role_id l)
                         then Inl SshDenied
                         else let iss = issuance_of env q cert (clock 0) in
                           Inr (d\<lparr>ds_issuances := ds_issuances d @ [iss]\<rparr>,
                                \<lparr>ir_lease = l, ir_certificate = cert, ir_issuance = iss\<rparr>)))))"

text \<open>The state with the next serial reserved, saved (number 0) before anything is signed.\<close>

definition reserve_serial :: "string \<Rightarrow> lease \<Rightarrow> lease_state \<Rightarrow> lease_state" where
  "reserve_serial i l d = (put_lease_at i l d)\<lparr>ds_next_serial := ds_next_serial d + 1\<rparr>"

definition issue_body ::
    "ssh_env \<Rightarrow> service \<Rightarrow> (nat \<Rightarrow> time) \<Rightarrow> actor \<Rightarrow> string \<Rightarrow> string \<Rightarrow> string \<Rightarrow> lease_io
     \<Rightarrow> lease_state \<Rightarrow> lease_file \<Rightarrow> (ssh_error + lease_state \<times> issue_result) \<times> lease_file" where
  "issue_body env s clock a i pub fp io d f =
     (case issue_checks env s clock a i fp d of
        Inl e \<Rightarrow> (Inl e, f)
      | Inr (l, r, before) \<Rightarrow>
          if ds_next_serial d = - 1 then (Inl SerialExhausted, f)
          else let d1 = reserve_serial i l d in
            (case save_leases io 0 d1 f of
               (Some e, f1) \<Rightarrow> (Inl e, f1)
             | (None, f1) \<Rightarrow> (issue_sign env s clock a i pub l r before d1, f1)))"

definition issue_certificate ::
    "ssh_env \<Rightarrow> service \<Rightarrow> (nat \<Rightarrow> time) \<Rightarrow> actor \<Rightarrow> string \<Rightarrow> string \<Rightarrow> lease_io \<Rightarrow> lease_file
     \<Rightarrow> (ssh_error + issue_result) \<times> lease_file" where
  "issue_certificate env s clock a i pub io f =
     (case public_fingerprint env pub of
        Inl e \<Rightarrow> (Inl e, f)
      | Inr fp \<Rightarrow> lease_transaction (issue_body env s clock a i pub fp io) io f)"

end
