(* ===== verification/LeaseMachine.thy ===== *)
theory LeaseMachine
  imports SshLease
begin

text \<open>
  The abstract lease machine and the proof that the lease service implements it.

  \<open>machine\<close> keeps, for each lease, who owns it, the key and the scope it is bound to, when it ends,
  its phase and who approved it, then the last serial and the certificates issued. \<open>lease_step\<close> is what
  may happen to it. \<open>abs_state\<close> reads a machine off the content of \<open>leases.json\<close>. The locale
  \<open>lease_operation\<close> is the contract of one operation of the service towards the machine; each
  operation of the code is an instance, and the facts of the machine carry over to the file.
\<close>

subsection \<open>The machine\<close>

record held =
  hd_owner :: string
  hd_key :: string
  hd_scope :: string
  hd_until :: time
  hd_phase :: status
  hd_approver :: string

record machine =
  ma_leases :: "string \<Rightarrow> held option"
  ma_serial :: nat
  ma_issued :: "(nat \<times> string \<times> time) list"

definition live_phase :: "status \<Rightarrow> bool" where
  "live_phase p \<longleftrightarrow> p = Active \<or> p = PendingApproval"

text \<open>\<open>isTerminal\<close> of the command line: every other status.\<close>

definition final_phase :: "status \<Rightarrow> bool" where
  "final_phase p \<longleftrightarrow> p \<noteq> Active \<and> p \<noteq> PendingApproval"

inductive lease_step :: "machine \<Rightarrow> machine \<Rightarrow> bool" where
  step_open: "ma_leases m i = None \<Longrightarrow> (\<And>j h'. ma_leases m j = Some h' \<Longrightarrow> hd_key h' \<noteq> hd_key h) \<Longrightarrow>
    live_phase (hd_phase h) \<Longrightarrow> hd_approver h = [] \<Longrightarrow>
    lease_step m (m\<lparr>ma_leases := (ma_leases m)(i \<mapsto> h)\<rparr>)"
| step_approve: "ma_leases m i = Some h \<Longrightarrow> hd_phase h = PendingApproval \<Longrightarrow> who \<noteq> hd_owner h \<Longrightarrow>
    lease_step m (m\<lparr>ma_leases := (ma_leases m)(i \<mapsto> h\<lparr>hd_phase := Active, hd_approver := who\<rparr>)\<rparr>)"
| step_end: "ma_leases m i = Some h \<Longrightarrow> live_phase (hd_phase h) \<Longrightarrow> final_phase p \<Longrightarrow>
    lease_step m (m\<lparr>ma_leases := (ma_leases m)(i \<mapsto> h\<lparr>hd_phase := p\<rparr>)\<rparr>)"
| step_expire: "(\<And>i. i \<in> S \<Longrightarrow> \<exists>h. ma_leases m i = Some h \<and> live_phase (hd_phase h)) \<Longrightarrow>
    lease_step m (m\<lparr>ma_leases := (\<lambda>i. if i \<in> S then map_option (\<lambda>h. h\<lparr>hd_phase := Expired\<rparr>) (ma_leases m i)
                                       else ma_leases m i)\<rparr>)"
| step_reserve: "lease_step m (m\<lparr>ma_serial := Suc (ma_serial m)\<rparr>)"
| step_issue: "ma_leases m i = Some h \<Longrightarrow> hd_phase h = Active \<Longrightarrow> before \<le> hd_until h \<Longrightarrow>
    lease_step m (m\<lparr>ma_serial := Suc (ma_serial m), ma_issued := ma_issued m @ [(Suc (ma_serial m), i, before)]\<rparr>)"

inductive_cases lease_stepE: "lease_step m m'"

abbreviation lease_steps :: "machine \<Rightarrow> machine \<Rightarrow> bool" where
  "lease_steps \<equiv> lease_step\<^sup>*\<^sup>*"

text \<open>Serials are used once and never exceed the counter.\<close>

definition machine_ok :: "machine \<Rightarrow> bool" where
  "machine_ok m \<longleftrightarrow> distinct (map fst (ma_issued m)) \<and> (\<forall>(n, j, t) \<in> set (ma_issued m). n \<le> ma_serial m)"

lemma lease_step_ok: "lease_step m m' \<Longrightarrow> machine_ok m \<Longrightarrow> machine_ok m'"
  by (induction rule: lease_step.induct) (fastforce simp: machine_ok_def)+

lemma lease_steps_ok: "lease_steps m m' \<Longrightarrow> machine_ok m \<Longrightarrow> machine_ok m'"
  by (induction rule: rtranclp_induct) (auto intro: lease_step_ok)

text \<open>What a lease is bound to never changes, and a closed lease never changes at all.\<close>

definition held_evolves :: "held \<Rightarrow> held \<Rightarrow> bool" where
  "held_evolves h h' \<longleftrightarrow>
     hd_owner h' = hd_owner h \<and> hd_key h' = hd_key h \<and> hd_scope h' = hd_scope h \<and> hd_until h' = hd_until h
     \<and> (final_phase (hd_phase h) \<longrightarrow> h' = h)
     \<and> (hd_phase h = Active \<longrightarrow> hd_approver h' = hd_approver h)"

lemma held_evolves_refl [simp]: "held_evolves h h"
  by (simp add: held_evolves_def)

lemma lease_step_held:
  "lease_step m m' \<Longrightarrow> ma_leases m i = Some h \<Longrightarrow> \<exists>h'. ma_leases m' i = Some h' \<and> held_evolves h h'"
proof (induction rule: lease_step.induct)
  case (step_expire S m)
  then show ?case by (force simp: held_evolves_def live_phase_def final_phase_def)
qed (auto simp: held_evolves_def live_phase_def final_phase_def)

lemma final_stays:
  "lease_steps m m' \<Longrightarrow> ma_leases m i = Some h \<Longrightarrow> final_phase (hd_phase h) \<Longrightarrow> ma_leases m' i = Some h"
proof (induction rule: rtranclp_induct)
  case (step m1 m2)
  then show ?case using lease_step_held [of m1 m2 i h] by (auto simp: held_evolves_def)
qed

lemma binding_fixed:
  "lease_steps m m' \<Longrightarrow> ma_leases m i = Some h \<Longrightarrow>
   \<exists>h'. ma_leases m' i = Some h' \<and> hd_owner h' = hd_owner h \<and> hd_key h' = hd_key h \<and> hd_scope h' = hd_scope h
     \<and> hd_until h' = hd_until h"
proof (induction rule: rtranclp_induct)
  case (step m1 m2)
  then obtain h1 where h1: "ma_leases m1 i = Some h1" "hd_owner h1 = hd_owner h" "hd_key h1 = hd_key h"
    "hd_scope h1 = hd_scope h" "hd_until h1 = hd_until h" by blast
  then show ?case using lease_step_held [OF step.hyps(2) h1(1)] by (auto simp: held_evolves_def)
qed simp

definition machine_grows :: "machine \<Rightarrow> machine \<Rightarrow> bool" where
  "machine_grows m m' \<longleftrightarrow> ma_serial m \<le> ma_serial m' \<and> (\<exists>xs. ma_issued m' = ma_issued m @ xs
     \<and> (\<forall>(n, j, t) \<in> set xs. ma_serial m < n \<and> n \<le> ma_serial m'))"

lemma lease_step_grows: "lease_step m m' \<Longrightarrow> machine_grows m m'"
  by (induction rule: lease_step.induct) (auto simp: machine_grows_def)

lemma machine_grows_trans: "machine_grows a b \<Longrightarrow> machine_grows b c \<Longrightarrow> machine_grows a c"
  unfolding machine_grows_def by fastforce

lemma lease_steps_grow: "lease_steps m m' \<Longrightarrow> machine_grows m m'"
proof (induction rule: rtranclp_induct)
  case base
  then show ?case by (simp add: machine_grows_def)
next
  case (step m1 m2)
  then show ?case using lease_step_grows machine_grows_trans by blast
qed

text \<open>A certificate is only issued for an active lease and within its window: once a lease is
  closed, its certificates are the ones it already has.\<close>

lemma no_issue_when_final:
  "lease_steps m m' \<Longrightarrow> ma_leases m i = Some h \<Longrightarrow> final_phase (hd_phase h) \<Longrightarrow>
   filter (\<lambda>(n, j, t). j = i) (ma_issued m') = filter (\<lambda>(n, j, t). j = i) (ma_issued m)"
proof (induction rule: rtranclp_induct)
  case (step m1 m2)
  have f: "ma_leases m1 i = Some h" using final_stays step.hyps(1) step.prems by blast
  from step.hyps(2) have "filter (\<lambda>(n, j, t). j = i) (ma_issued m2) = filter (\<lambda>(n, j, t). j = i) (ma_issued m1)"
    by (cases rule: lease_step.cases) (use f step.prems in \<open>auto simp: final_phase_def\<close>)
  then show ?case using step by simp
qed simp

subsection \<open>Abstraction\<close>

definition abs_lease :: "lease \<Rightarrow> held" where
  "abs_lease l = \<lparr>hd_owner = le_requester_id l, hd_key = le_fingerprint l, hd_scope = le_policy_digest l,
     hd_until = le_hard_expires_at l, hd_phase = le_status l, hd_approver = le_approved_by l\<rparr>"

definition abs_state :: "lease_state \<Rightarrow> machine" where
  "abs_state d = \<lparr>ma_leases = (\<lambda>i. map_option abs_lease (map_of (ds_leases d) i)),
     ma_serial = unat (ds_next_serial d),
     ma_issued = map (\<lambda>x. (unat (is_serial x), is_lease_id x, is_valid_before x)) (ds_issuances d)\<rparr>"

definition state_ok :: "lease_state \<Rightarrow> bool" where
  "state_ok d \<longleftrightarrow> machine_ok (abs_state d)"

text \<open>The state a transaction reads; a missing file is the empty state.\<close>

fun file_state :: "lease_file \<Rightarrow> lease_state option" where
  "file_state Absent = Some empty_lease_state"
| "file_state (Present n sz (LeaseState d)) = Some d"
| "file_state (Present n sz _) = None"

lemma abs_put [simp]: "abs_state (put_lease_at i l d)
    = (abs_state d)\<lparr>ma_leases := (ma_leases (abs_state d))(i \<mapsto> abs_lease l)\<rparr>"
  by (auto simp: abs_state_def put_lease_at_def update_conv' fun_eq_iff)

lemma abs_leases: "ma_leases (abs_state d) i = map_option abs_lease (map_of (ds_leases d) i)"
  by (simp add: abs_state_def)

lemma abs_held [simp]: "hd_owner (abs_lease l) = le_requester_id l" "hd_key (abs_lease l) = le_fingerprint l"
  "hd_scope (abs_lease l) = le_policy_digest l" "hd_until (abs_lease l) = le_hard_expires_at l"
  "hd_phase (abs_lease l) = le_status l" "hd_approver (abs_lease l) = le_approved_by l"
  by (simp_all add: abs_lease_def)

lemma same_machine: "map_of (ds_leases d) i = Some l \<Longrightarrow>
   (abs_state d)\<lparr>ma_leases := (ma_leases (abs_state d))(i \<mapsto> abs_lease l)\<rparr> = abs_state d"
  by (auto simp: abs_leases fun_eq_iff)

subsection \<open>Saving and the transaction\<close>

lemma save_leases_cases:
  assumes "save_leases io k d f = (r, f')"
  shows "(r = None \<and> file_state f' = Some d) \<or> (r \<noteq> None \<and> f' = f)"
  using assms by (auto simp: save_leases_def atomic_private_def split: private_file.splits if_splits)

lemma read_private_state:
  assumes "(case read_private u o1 o2 f of Inl e \<Rightarrow> Inl e | Inr None \<Rightarrow> Inr empty_lease_state
              | Inr (Some (LeaseState d)) \<Rightarrow> Inr d | Inr (Some _) \<Rightarrow> Inl LeaseStateInvalid) = Inr d"
  shows "file_state f = Some d"
  using assms
  by (auto simp: read_private_def private_open_def split: private_file.splits if_splits sum.splits option.splits
        lease_json.splits)

text \<open>Whatever happens in a transaction, either it never ran its body or the body decides.\<close>

lemma lease_transaction_cases:
  assumes "lease_transaction fn io f = (res, f')"
  shows "(f' = f \<and> isl res) \<or>
    (\<exists>d br f1. file_state f = Some d \<and> fn d f = (br, f1) \<and>
       ((f' = f1 \<and> isl res) \<or> (\<exists>d' r. br = Inr (d', r) \<and> file_state f' = Some d' \<and> res = Inr r)))"
proof -
  let ?rd = "case read_private (li_uid io) (li_opens io) (li_reads io) f of Inl e \<Rightarrow> Inl e
      | Inr None \<Rightarrow> Inr empty_lease_state | Inr (Some (LeaseState d)) \<Rightarrow> Inr d | Inr (Some _) \<Rightarrow> Inl LeaseStateInvalid"
  consider (stop) "f' = f" "isl res" | (go) d where "?rd = Inr d"
    "(case fn d f of (Inl e, f1) \<Rightarrow> (Inl e, f1) | (Inr (d', r), f1) \<Rightarrow>
        (case save_leases io 1 d' f1 of (Some e, f2) \<Rightarrow> (Inl e, f2) | (None, f2) \<Rightarrow> (Inr r, f2))) = (res, f')"
    using assms unfolding lease_transaction_def
    by (cases ?rd) (auto split: option.splits if_splits)
  then show ?thesis
  proof cases
    case stop
    then show ?thesis by simp
  next
    case (go d)
    obtain br f1 where b: "fn d f = (br, f1)" by (cases "fn d f")
    have "(f' = f1 \<and> isl res) \<or> (\<exists>d' r. br = Inr (d', r) \<and> file_state f' = Some d' \<and> res = Inr r)"
    proof (cases br)
      case (Inl e)
      then show ?thesis using go(2) b by auto
    next
      case (Inr p)
      obtain d' r where p: "p = (d', r)" by (cases p)
      obtain sr f2 where s: "save_leases io 1 d' f1 = (sr, f2)" by (cases "save_leases io 1 d' f1")
      then show ?thesis using go(2) b Inr p save_leases_cases [OF s] by (auto split: option.splits)
    qed
    then show ?thesis using read_private_state [OF go(1)] b by blast
  qed
qed

subsection \<open>The contract of an operation\<close>

text \<open>
  \<open>fresh\<close> is what the operation needs of the state: that the random id \<open>Open\<close> has drawn is not
  in use; the other operations need nothing.
\<close>

locale lease_operation =
  fixes run :: "lease_io \<Rightarrow> lease_file \<Rightarrow> (ssh_error + 'r) \<times> lease_file"
    and fresh :: "lease_state \<Rightarrow> bool"
  assumes run_simulates: "run io f = (res, f') \<Longrightarrow> f' = f \<or>
    (\<exists>d d'. file_state f = Some d \<and> file_state f' = Some d'
       \<and> (fresh d \<longrightarrow> state_ok d \<longrightarrow> lease_steps (abs_state d) (abs_state d')))"
begin

lemma simulates:
  assumes "file_state f = Some d" and "fresh d" and "state_ok d"
  shows "\<exists>d'. file_state (snd (run io f)) = Some d' \<and> state_ok d' \<and> lease_steps (abs_state d) (abs_state d')"
proof -
  obtain res f' where r: "run io f = (res, f')" by (cases "run io f")
  then show ?thesis
    using run_simulates [OF r] assms lease_steps_ok by (auto simp: state_ok_def)
qed

lemma unreadable_stays:
  assumes "file_state f = None"
  shows "snd (run io f) = f"
  using run_simulates [of io f "fst (run io f)" "snd (run io f)"] assms by auto

end

text \<open>An operation whose errors leave the file as it was.\<close>

locale lease_atomic = lease_operation run fresh
  for run :: "lease_io \<Rightarrow> lease_file \<Rightarrow> (ssh_error + 'r) \<times> lease_file" and fresh :: "lease_state \<Rightarrow> bool" +
  assumes run_err: "run io f = (Inl e, f') \<Longrightarrow> f' = f"
begin

lemma refused_changes_nothing: "isl (fst (run io f)) \<Longrightarrow> snd (run io f) = f"
  using run_err [of io f _ "snd (run io f)"] by (cases "run io f"; cases "fst (run io f)") auto

end

lemma plain_transaction_cases:
  assumes "lease_transaction (plain_body b) io f = (res, f')"
  shows "(f' = f \<and> isl res) \<or> (\<exists>d d' r. file_state f = Some d \<and> b d = Inr (d', r) \<and> file_state f' = Some d' \<and> res = Inr r)"
  using lease_transaction_cases [OF assms] by (auto simp: plain_body_def)

lemma plain_atomic:
  assumes "\<And>d d' r. b d = Inr (d', r) \<Longrightarrow> fresh d \<Longrightarrow> lease_steps (abs_state d) (abs_state d')"
  shows "lease_atomic (lease_transaction (plain_body b)) fresh"
  by unfold_locales (use assms in \<open>auto dest!: plain_transaction_cases\<close>)

text \<open>A check before the transaction that may refuse keeps the contract.\<close>

lemma guarded_atomic:
  assumes "\<And>x. lease_atomic (run x) fresh"
  shows "lease_atomic (\<lambda>io f. case c of Inl e \<Rightarrow> (Inl e, f) | Inr x \<Rightarrow> run x io f) fresh"
proof (cases c)
  case (Inl e)
  then show ?thesis by unfold_locales auto
next
  case (Inr x)
  then show ?thesis using assms [of x] by (simp add: eta_contract_eq)
qed

subsection \<open>Bodies\<close>

lemma expire_cases: "expire l t = l \<or> (live_phase (le_status l) \<and> le_status (expire l t) = Expired
    \<and> abs_lease (expire l t) = (abs_lease l)\<lparr>hd_phase := Expired\<rparr>)"
  by (auto simp: expire_def pending_or_active_def live_phase_def abs_lease_def)

lemma expire_live: "live_phase (le_status (expire l t)) \<Longrightarrow> expire l t = l"
  using expire_cases [of l t] by (auto simp: live_phase_def)

lemma final_expired: "final_phase Expired"
  by (simp add: final_phase_def)

lemma end_steps:
  assumes "map_of (ds_leases d) i = Some l" and "live_phase (le_status l)" and "final_phase p"
    and "abs_lease l' = (abs_lease l)\<lparr>hd_phase := p\<rparr>"
  shows "lease_steps (abs_state d) (abs_state (put_lease_at i l' d))"
proof -
  have "ma_leases (abs_state d) i = Some (abs_lease l)" using assms(1) by (simp add: abs_leases)
  then have "lease_step (abs_state d) (abs_state (put_lease_at i l' d))"
    using step_end [of "abs_state d" i "abs_lease l" p] assms by simp
  then show ?thesis by simp
qed

lemma expire_steps:
  assumes "map_of (ds_leases d) i = Some l"
  shows "lease_steps (abs_state d) (abs_state (put_lease_at i (expire l t) d))"
proof (cases "expire l t = l")
  case True
  then show ?thesis using assms by (simp add: same_machine)
next
  case False
  then have "live_phase (le_status l)" "abs_lease (expire l t) = (abs_lease l)\<lparr>hd_phase := Expired\<rparr>"
    using expire_cases [of l t] by auto
  then show ?thesis by (rule end_steps [OF assms _ final_expired])
qed

lemma open_steps:
  assumes "open_body env c a q r w fp rid now d = Inr (d', l)" and "map_of (ds_leases d) rid = None"
  shows "lease_steps (abs_state d) (abs_state d')"
proof (cases "find (\<lambda>(_, l). le_fingerprint l = fp) (ds_leases d)")
  case None
  let ?l = "new_lease env c a q r w fp rid now"
  have l: "le_fingerprint ?l = fp" "le_id ?l = rid" "live_phase (le_status ?l)" "le_approved_by ?l = []"
    by (auto simp: new_lease_def Let_def live_phase_def)
  have old: "le_fingerprint l' \<noteq> fp" if "map_of (ds_leases d) j = Some l'" for j l'
    using None map_of_SomeD [OF that] by (auto simp: find_None_iff)
  have key: "hd_key h \<noteq> hd_key (abs_lease ?l)" if "ma_leases (abs_state d) j = Some h" for j h
    using that l(1) by (auto simp: abs_leases dest: old)
  have "lease_step (abs_state d) (abs_state (put_lease_at rid ?l d))"
    unfolding abs_put by (rule step_open) (use assms(2) l key in \<open>simp_all add: abs_leases\<close>)
  moreover have "open_body env c a q r w fp rid now d = Inr (put_lease_at rid ?l d, ?l)"
    using None l by (simp add: open_body_def Let_def)
  then have "d' = put_lease_at rid ?l d" using assms(1) by simp
  ultimately show ?thesis by simp
next
  case (Some p)
  then have "d' = d" using assms(1) by (auto simp: open_body_def split: prod.splits if_splits)
  then show ?thesis by simp
qed

lemma get_steps: "get_body clock a i d = Inr (d', l) \<Longrightarrow> lease_steps (abs_state d) (abs_state d')"
  by (auto simp: get_body_def Let_def intro: expire_steps split: option.splits if_splits)

lemma approve_steps:
  assumes "approve_body env s clock a i d = Inr (d', l)"
  shows "lease_steps (abs_state d) (abs_state d')"
proof -
  obtain l0 where l0: "map_of (ds_leases d) i = Some l0" and who: "ac_id a \<noteq> le_requester_id l0"
    and st: "le_status (expire l0 (clock 0)) = PendingApproval"
    and d': "d' = put_lease_at i ((expire l0 (clock 0))\<lparr>le_status := Active, le_approved_by := ac_id a\<rparr>) d"
    using assms by (auto simp: approve_body_def Let_def split: option.splits if_splits)
  have e: "expire l0 (clock 0) = l0" using st by (intro expire_live) (simp add: live_phase_def)
  have "lease_step (abs_state d) (abs_state d')"
    using step_approve [of "abs_state d" i "abs_lease l0" "ac_id a"] l0 who st e d'
    by (simp add: abs_leases abs_lease_def)
  then show ?thesis by simp
qed

lemma close_steps:
  assumes "close_body clock a i st reason d = Inr (d', l)" and "final_phase st"
  shows "lease_steps (abs_state d) (abs_state d')"
proof -
  obtain l0 where l0: "map_of (ds_leases d) i = Some l0" and v: "may_see a l0"
    using assms(1) by (auto simp: close_body_def split: option.splits if_splits)
  define l1 where "l1 = (if pending_or_active (expire l0 (clock 0))
        then (expire l0 (clock 0))\<lparr>le_status := st, le_closed_at := Some (clock 1), le_termination_reason := reason\<rparr>
        else expire l0 (clock 0))"
  have "close_body clock a i st reason d = Inr (put_lease_at i l1 d, l1)"
    using l0 v by (simp add: close_body_def Let_def l1_def)
  then have l: "l = l1" and d': "d' = put_lease_at i l d" using assms(1) by simp_all
  show ?thesis
  proof (cases "pending_or_active (expire l0 (clock 0))")
    case True
    then have "live_phase (le_status (expire l0 (clock 0)))" by (simp add: pending_or_active_def live_phase_def)
    then have "expire l0 (clock 0) = l0" and "live_phase (le_status l0)" using expire_live by metis+
    moreover have "abs_lease l1 = (abs_lease l0)\<lparr>hd_phase := st\<rparr>"
      using True calculation(1) by (simp add: abs_lease_def l1_def)
    ultimately show ?thesis using end_steps [OF l0 _ assms(2), of l1] l d' by simp
  next
    case False
    then show ?thesis using expire_steps [OF l0] l d' by (simp add: l1_def)
  qed
qed

lemma list_loop_map:
  "list_loop clock a objective k m = (m', out) \<Longrightarrow>
   map_of m' i = map_of m i \<or> (\<exists>l t. map_of m i = Some l \<and> map_of m' i = Some (expire l t))"
proof (induction clock a objective k m arbitrary: m' out rule: list_loop.induct)
  case (2 clock a objective k j l rest)
  show ?case
  proof (cases "may_see a l \<and> (objective = [] \<or> objective = le_objective_id l)")
    case True
    obtain m o' where r: "list_loop clock a objective (Suc k) rest = (m, o')"
      by (cases "list_loop clock a objective (Suc k) rest")
    then have "m' = (j, expire l (clock k)) # m" using "2.prems" True by (simp add: Let_def)
    then show ?thesis using "2.IH"(1) [OF True refl r] by auto
  next
    case False
    obtain m o' where r: "list_loop clock a objective k rest = (m, o')"
      by (cases "list_loop clock a objective k rest")
    then have "m' = (j, l) # m" using "2.prems" False by (auto simp: Let_def)
    then show ?thesis using "2.IH"(2) [OF False r] by auto
  qed
qed auto

lemma list_steps:
  assumes "list_body clock a objective d = Inr (d', ls)"
  shows "lease_steps (abs_state d) (abs_state d')"
proof -
  obtain m where m: "list_loop clock a objective 0 (ds_leases d) = (m, ls)" and d': "d' = d\<lparr>ds_leases := m\<rparr>"
    using assms by (auto simp: list_body_def split: prod.splits)
  note pt = list_loop_map [OF m]
  let ?S = "{i. \<exists>l t. map_of (ds_leases d) i = Some l \<and> map_of m i = Some (expire l t) \<and> live_phase (le_status l)
               \<and> le_status (expire l t) = Expired}"
  have "ma_leases (abs_state d') i = (if i \<in> ?S
      then map_option (\<lambda>h. h\<lparr>hd_phase := Expired\<rparr>) (ma_leases (abs_state d) i) else ma_leases (abs_state d) i)" for i
  proof (cases "map_of m i = map_of (ds_leases d) i")
    case True
    then show ?thesis using d' by (auto simp: abs_leases live_phase_def)
  next
    case False
    then obtain l t where lt: "map_of (ds_leases d) i = Some l" "map_of m i = Some (expire l t)" "expire l t \<noteq> l"
      using pt [of i] by auto
    then have c: "live_phase (le_status l)" "le_status (expire l t) = Expired"
      "abs_lease (expire l t) = (abs_lease l)\<lparr>hd_phase := Expired\<rparr>" using expire_cases [of l t] by auto
    then have "i \<in> ?S" using lt by blast
    then show ?thesis using lt c d' by (simp add: abs_leases)
  qed
  then have "abs_state d' = (abs_state d)\<lparr>ma_leases := (\<lambda>i. if i \<in> ?S
      then map_option (\<lambda>h. h\<lparr>hd_phase := Expired\<rparr>) (ma_leases (abs_state d) i) else ma_leases (abs_state d) i)\<rparr>"
    using d' by (auto simp: abs_state_def fun_eq_iff)
  moreover have "lease_step (abs_state d) \<dots>" by (rule step_expire) (auto simp: abs_leases)
  ultimately show ?thesis by simp
qed

subsection \<open>Issue\<close>

lemma truncate_second_le: "truncate_second t \<le> t"
  by (simp add: truncate_second_def second_def)

lemma valid_until_le: "valid_until env c r l now \<le> le_hard_expires_at l"
  using truncate_second_le by (auto simp: valid_until_def Let_def not_less)

lemma valid_until_ttl:
  "valid_until env c r l now \<le> now + min (duration_or_0 env (sc_cert_ttl c)) (duration_or_0 env (ro_max_cert_ttl r))"
proof -
  let ?t = "now + min (duration_or_0 env (sc_cert_ttl c)) (duration_or_0 env (ro_max_cert_ttl r))"
  have "truncate_second (le_hard_expires_at l) \<le> ?t" if "le_hard_expires_at l < truncate_second ?t"
    using truncate_second_le [of "le_hard_expires_at l"] truncate_second_le [of ?t] that by linarith
  then show ?thesis using truncate_second_le [of ?t] by (auto simp: valid_until_def Let_def)
qed

text \<open>What the checks establish.\<close>

lemma issue_checks_facts:
  assumes "issue_checks env s clock a i fp d = Inr (l, r, before)"
  shows "map_of (ds_leases d) i = Some l" and "le_requester_id l = ac_id a" and "le_status l = Active"
    and "clock 0 < le_hard_expires_at l" and "le_fingerprint l = fp" and "authorized s 0 a"
    and "before = valid_until env (sv_config s) r l (clock 0)" and "clock 0 < before"
    and "\<exists>c. current_config s 0 = Inr c \<and> service_role env c a (le_host_id l) (le_role_id l) = Inr r
           \<and> le_policy_digest l = scope_digest env c (le_host_id l) (le_role_id l)"
proof -
  obtain l0 where l0: "map_of (ds_leases d) i = Some l0" "le_requester_id l0 = ac_id a"
    using assms by (auto simp: issue_checks_def split: option.splits if_splits)
  have st: "le_status (expire l0 (clock 0)) = Active" "le_fingerprint (expire l0 (clock 0)) = fp"
    using assms l0 by (auto simp: issue_checks_def Let_def split: if_splits)
  have e: "expire l0 (clock 0) = l0" using st(1) by (intro expire_live) (simp add: live_phase_def)
  have a: "le_status l0 = Active" "le_fingerprint l0 = fp" using st e by simp_all
  then have t: "clock 0 < le_hard_expires_at l0"
    using e by (cases l0) (auto simp: expire_def pending_or_active_def split: if_splits)
  obtain c where c: "current_config s 0 = Inr c"
    using assms l0 a e by (cases "current_config s 0") (simp_all add: issue_checks_def Let_def)
  obtain ro where ro: "service_role env c a (le_host_id l0) (le_role_id l0) = Inr ro"
    using assms l0 a e c
    by (cases "service_role env c a (le_host_id l0) (le_role_id l0)") (simp_all add: issue_checks_def Let_def)
  have "authorized s 0 a \<and> le_policy_digest l0 = scope_digest env c (le_host_id l0) (le_role_id l0)
      \<and> l = l0 \<and> r = ro \<and> before = valid_until env (sv_config s) r l (clock 0) \<and> clock 0 < before"
    using assms l0 a e c ro by (auto simp: issue_checks_def Let_def split: if_splits)
  then show "map_of (ds_leases d) i = Some l" and "le_requester_id l = ac_id a" and "le_status l = Active"
    and "clock 0 < le_hard_expires_at l" and "le_fingerprint l = fp" and "authorized s 0 a"
    and "before = valid_until env (sv_config s) r l (clock 0)" and "clock 0 < before"
    and "\<exists>c. current_config s 0 = Inr c \<and> service_role env c a (le_host_id l) (le_role_id l) = Inr r
           \<and> le_policy_digest l = scope_digest env c (le_host_id l) (le_role_id l)"
    using l0 a t c ro by blast+
qed

lemma issue_sign_facts:
  assumes "issue_sign env s clock a i pub l r before d = Inr (d', res)"
  shows "\<exists>sign force q cert. sv_signer s = Some sign \<and> force_text env l r = Inr force
      \<and> q = sign_request_of env s i pub l r (ds_next_serial d) (clock 0) before force \<and> sign q = Some cert
      \<and> clock 1 < before \<and> authorized s 1 a
      \<and> (\<exists>c. current_config s 1 = Inr c \<and> le_policy_digest l = scope_digest env c (le_host_id l) (le_role_id l))
      \<and> d' = d\<lparr>ds_issuances := ds_issuances d @ [issuance_of env q cert (clock 0)]\<rparr>
      \<and> res = \<lparr>ir_lease = l, ir_certificate = cert, ir_issuance = issuance_of env q cert (clock 0)\<rparr>"
  using assms by (auto simp: issue_sign_def Let_def split: option.splits sum.splits if_splits)

lemma unat_next: "(n :: i64) \<noteq> - 1 \<Longrightarrow> unat (n + 1) = Suc (unat n)"
  using unatSuc [of n] by (metis add.commute add_eq_0_iff)

lemma abs_reserve:
  assumes "map_of (ds_leases d) i = Some l" and "ds_next_serial d \<noteq> - 1"
  shows "abs_state (reserve_serial i l d) = (abs_state d)\<lparr>ma_serial := Suc (ma_serial (abs_state d))\<rparr>"
  using assms unat_next [OF assms(2)]
  by (auto simp: reserve_serial_def abs_state_def put_lease_at_def update_conv' fun_eq_iff)

lemma issue_steps:
  assumes c: "issue_checks env s clock a i fp d = Inr (l, r, before)" and n: "ds_next_serial d \<noteq> - 1"
    and g: "issue_sign env s clock a i pub l r before (reserve_serial i l d) = Inr (d', res)"
  shows "lease_steps (abs_state d) (abs_state d')"
proof -
  let ?d1 = "reserve_serial i l d" and ?m = "abs_state d"
  note f = issue_checks_facts [OF c]
  have m1: "abs_state ?d1 = ?m\<lparr>ma_serial := Suc (ma_serial ?m)\<rparr>" by (rule abs_reserve [OF f(1) n])
  obtain x where x: "d' = ?d1\<lparr>ds_issuances := ds_issuances ?d1 @ [x]\<rparr>" "is_serial x = ds_next_serial ?d1"
    "is_lease_id x = i" "is_valid_before x = before"
    using issue_sign_facts [OF g] by (auto simp: issuance_of_def sign_request_of_def)
  have "lease_step ?m (?m\<lparr>ma_serial := Suc (ma_serial ?m), ma_issued := ma_issued ?m @ [(Suc (ma_serial ?m), i, before)]\<rparr>)"
    by (rule step_issue [of _ i "abs_lease l"]) (use f(1,3,7) valid_until_le in \<open>auto simp: abs_leases\<close>)
  moreover have "abs_state d' = (abs_state ?d1)\<lparr>ma_issued := ma_issued (abs_state ?d1) @ [(ma_serial (abs_state ?d1), i, before)]\<rparr>"
    using x by (simp add: abs_state_def)
  ultimately show ?thesis using m1 by simp
qed

text \<open>The file after the body: unchanged, or with the serial reserved.\<close>

lemma issue_body_cases:
  assumes "issue_body env s clock a i pub fp io d f = (br, f1)"
  shows "(f1 = f \<and> isl br) \<or> (\<exists>l r before. issue_checks env s clock a i fp d = Inr (l, r, before)
     \<and> ds_next_serial d \<noteq> - 1 \<and> file_state f1 = Some (reserve_serial i l d)
     \<and> br = issue_sign env s clock a i pub l r before (reserve_serial i l d))"
proof (cases "issue_checks env s clock a i fp d")
  case (Inl e)
  then show ?thesis using assms by (auto simp: issue_body_def)
next
  case (Inr p)
  obtain l r before where p: "p = (l, r, before)" by (cases p)
  obtain sr f2 where sv: "save_leases io 0 (reserve_serial i l d) f = (sr, f2)"
    by (cases "save_leases io 0 (reserve_serial i l d) f")
  show ?thesis
    using assms Inr p sv save_leases_cases [OF sv]
    by (cases sr) (auto simp: issue_body_def Let_def split: if_splits)
qed

subsection \<open>The operations meet the contract\<close>

abbreviation no_need :: "lease_state \<Rightarrow> bool" where
  "no_need \<equiv> \<lambda>_. True"

interpretation get_op: lease_atomic "get_lease clock a i" no_need for clock a i
  unfolding get_lease_def by (rule plain_atomic) (rule get_steps)

interpretation list_op: lease_atomic "list_leases clock a objective" no_need for clock a objective
  unfolding list_leases_def by (rule plain_atomic) (rule list_steps)

interpretation approve_op: lease_atomic "approve_lease env s clock a i" no_need for env s clock a i
  unfolding approve_lease_def by (rule plain_atomic) (rule approve_steps)

interpretation close_op: lease_atomic "close_lease clock a i st reason" no_need for clock a i st reason
proof -
  show "lease_atomic (close_lease clock a i st reason) no_need"
  proof (cases "final_phase st \<and> st \<noteq> Expired")
    case True
    then have "lease_atomic (lease_transaction (plain_body (close_body clock a i st reason))) no_need"
      by (intro plain_atomic) (auto intro: close_steps)
    then have t: "lease_operation (lease_transaction (plain_body (close_body clock a i st reason))) no_need"
      and e: "\<And>io f e f'. lease_transaction (plain_body (close_body clock a i st reason)) io f = (Inl e, f') \<Longrightarrow> f' = f"
      by (auto simp: lease_atomic_def lease_atomic_axioms_def)
    show ?thesis
      by unfold_locales
         (use lease_operation.run_simulates [OF t] e in \<open>auto simp: close_lease_def split: if_splits\<close>)
  next
    case False
    then show ?thesis by unfold_locales (auto simp: close_lease_def final_phase_def)
  qed
qed

interpretation open_op: lease_atomic "open_lease env s clock rnd a q" "\<lambda>d. map_of (ds_leases d) (hex_encode rnd) = None"
  for env s clock rnd a q
proof -
  have "lease_atomic (\<lambda>io f. case open_checks env (sv_config s) a q of Inl e \<Rightarrow> (Inl e, f)
      | Inr x \<Rightarrow> (case x of (fp, r, w) \<Rightarrow> lease_transaction
          (plain_body (open_body env (sv_config s) a q r w fp (hex_encode rnd) (clock 0)))) io f)
      (\<lambda>d. map_of (ds_leases d) (hex_encode rnd) = None)"
    by (rule guarded_atomic) (auto intro!: plain_atomic open_steps split: prod.split)
  moreover have "open_lease env s clock rnd a q = (\<lambda>io f. case open_checks env (sv_config s) a q of Inl e \<Rightarrow> (Inl e, f)
      | Inr x \<Rightarrow> (case x of (fp, r, w) \<Rightarrow> lease_transaction
          (plain_body (open_body env (sv_config s) a q r w fp (hex_encode rnd) (clock 0)))) io f)"
    by (auto simp: open_lease_def fun_eq_iff split: sum.split prod.split)
  ultimately show "lease_atomic (open_lease env s clock rnd a q) (\<lambda>d. map_of (ds_leases d) (hex_encode rnd) = None)"
    by simp
qed

interpretation issue_op: lease_operation "issue_certificate env s clock a i pub" no_need for env s clock a i pub
proof
  fix io f res f'
  assume run: "issue_certificate env s clock a i pub io f = (res, f')"
  show "f' = f \<or> (\<exists>d d'. file_state f = Some d \<and> file_state f' = Some d'
      \<and> (no_need d \<longrightarrow> state_ok d \<longrightarrow> lease_steps (abs_state d) (abs_state d')))"
  proof (cases "public_fingerprint env pub")
    case (Inl e)
    then show ?thesis using run by (simp add: issue_certificate_def)
  next
    case (Inr fp)
    then have t: "lease_transaction (issue_body env s clock a i pub fp io) io f = (res, f')"
      using run by (simp add: issue_certificate_def)
    show ?thesis
    proof (rule disjE [OF lease_transaction_cases [OF t]])
      assume "\<exists>d br f1. file_state f = Some d \<and> issue_body env s clock a i pub fp io d f = (br, f1) \<and>
         ((f' = f1 \<and> isl res) \<or> (\<exists>d' r. br = Inr (d', r) \<and> file_state f' = Some d' \<and> res = Inr r))"
      then obtain d br f1 where d: "file_state f = Some d" and b: "issue_body env s clock a i pub fp io d f = (br, f1)"
        and e: "(f' = f1 \<and> isl res) \<or> (\<exists>d' r. br = Inr (d', r) \<and> file_state f' = Some d' \<and> res = Inr r)" by blast
      from issue_body_cases [OF b] show ?thesis
      proof (elim disjE exE conjE)
        assume "f1 = f" "isl br"
        then show ?thesis using e by auto
      next
        fix l r before
        assume c: "issue_checks env s clock a i fp d = Inr (l, r, before)" and n: "ds_next_serial d \<noteq> - 1"
          and f1: "file_state f1 = Some (reserve_serial i l d)"
          and br: "br = issue_sign env s clock a i pub l r before (reserve_serial i l d)"
        have "lease_step (abs_state d) (abs_state (reserve_serial i l d))"
          using abs_reserve [OF issue_checks_facts(1) [OF c] n] step_reserve by simp
        then show ?thesis using e d f1 br issue_steps [OF c n] by fastforce
      qed
    qed auto
  qed
qed

end
