(* ===== verification/LeaseProps.thy ===== *)
theory LeaseProps
  imports LeaseMachine SshHosts
begin

text \<open>
  The properties of the lease service (\<open>lease.go\<close>) as its callers see them: whole runs of
  operations on one state file, any of which may fail, and what a single successful or refused
  operation has done.
\<close>

subsection \<open>Runs\<close>

datatype lease_cmd =
    CmdOpen service "nat \<Rightarrow> time" string actor open_request
  | CmdGet "nat \<Rightarrow> time" actor string
  | CmdList "nat \<Rightarrow> time" actor string
  | CmdApprove service "nat \<Rightarrow> time" actor string
  | CmdClose "nat \<Rightarrow> time" actor string status string
  | CmdIssue service "nat \<Rightarrow> time" actor string string

fun run_cmd :: "ssh_env \<Rightarrow> lease_cmd \<Rightarrow> lease_io \<Rightarrow> lease_file \<Rightarrow> lease_file" where
  "run_cmd env (CmdOpen s clock rnd a q) io f = snd (open_lease env s clock rnd a q io f)"
| "run_cmd env (CmdGet clock a i) io f = snd (get_lease clock a i io f)"
| "run_cmd env (CmdList clock a objective) io f = snd (list_leases clock a objective io f)"
| "run_cmd env (CmdApprove s clock a i) io f = snd (approve_lease env s clock a i io f)"
| "run_cmd env (CmdClose clock a i st reason) io f = snd (close_lease clock a i st reason io f)"
| "run_cmd env (CmdIssue s clock a i pub) io f = snd (issue_certificate env s clock a i pub io f)"

text \<open>The only assumption on chance: the random id an \<open>Open\<close> draws is not in use.\<close>

fun cmd_fresh :: "lease_cmd \<Rightarrow> lease_state \<Rightarrow> bool" where
  "cmd_fresh (CmdOpen s clock rnd a q) d = (map_of (ds_leases d) (hex_encode rnd) = None)"
| "cmd_fresh _ d = True"

fun run_all :: "ssh_env \<Rightarrow> (lease_cmd \<times> lease_io) list \<Rightarrow> lease_file \<Rightarrow> lease_file" where
  "run_all env [] f = f"
| "run_all env ((c, io) # cs) f = run_all env cs (run_cmd env c io f)"

fun all_fresh :: "ssh_env \<Rightarrow> (lease_cmd \<times> lease_io) list \<Rightarrow> lease_file \<Rightarrow> bool" where
  "all_fresh env [] f = True"
| "all_fresh env ((c, io) # cs) f =
     ((case file_state f of None \<Rightarrow> True | Some d \<Rightarrow> cmd_fresh c d) \<and> all_fresh env cs (run_cmd env c io f))"

lemma run_cmd_simulates:
  assumes "file_state f = Some d" and "state_ok d" and "cmd_fresh c d"
  shows "\<exists>d'. file_state (run_cmd env c io f) = Some d' \<and> state_ok d' \<and> lease_steps (abs_state d) (abs_state d')"
proof (cases c)
  case (CmdOpen s clock rnd a q)
  then show ?thesis using open_op.simulates [OF assms(1) _ assms(2)] assms(3) by simp
qed (use get_op.simulates list_op.simulates approve_op.simulates close_op.simulates issue_op.simulates assms
     in simp_all)

lemma run_all_simulates:
  "file_state f = Some d \<Longrightarrow> state_ok d \<Longrightarrow> all_fresh env cs f \<Longrightarrow>
   \<exists>d'. file_state (run_all env cs f) = Some d' \<and> state_ok d' \<and> lease_steps (abs_state d) (abs_state d')"
proof (induction env cs f arbitrary: d rule: run_all.induct)
  case (2 env c io cs f)
  obtain d1 where d1: "file_state (run_cmd env c io f) = Some d1" "state_ok d1"
    "lease_steps (abs_state d) (abs_state d1)"
    using run_cmd_simulates [OF "2.prems"(1,2)] "2.prems"(1,3) by fastforce
  then show ?case using "2.IH" [OF d1(1,2)] "2.prems"(3) by (auto intro: rtranclp_trans)
qed auto

lemma empty_state_ok: "state_ok empty_lease_state"
  by (simp add: state_ok_def machine_ok_def abs_state_def empty_lease_state_def)

subsection \<open>Closed leases\<close>

lemma closed_refuses_issue:
  assumes "file_state f = Some d" and "map_of (ds_leases d) i = Some l" and "final_phase (le_status l)"
  shows "isl (fst (issue_certificate env s clock a i pub io f)) \<and> snd (issue_certificate env s clock a i pub io f) = f"
proof (cases "public_fingerprint env pub")
  case (Inl e)
  then show ?thesis by (simp add: issue_certificate_def)
next
  case (Inr fp)
  obtain res f' where r: "issue_certificate env s clock a i pub io f = (res, f')"
    by (cases "issue_certificate env s clock a i pub io f")
  then have t: "lease_transaction (issue_body env s clock a i pub fp io) io f = (res, f')"
    using Inr by (simp add: issue_certificate_def)
  have no: "\<not> (\<exists>l r before. issue_checks env s clock a i fp d = Inr (l, r, before))"
    using issue_checks_facts(1,3) assms(2,3) by (fastforce simp: final_phase_def)
  have "f1 = f \<and> isl br" if "issue_body env s clock a i pub fp io d f = (br, f1)" for br f1
    using issue_body_cases [OF that] no by blast
  then show ?thesis using lease_transaction_cases [OF t] assms(1) r by (auto simp: isl_def)
qed

lemma close_result:
  assumes "close_lease clock a i st reason io f = (Inr l, f')"
  shows "final_phase (le_status l)
    \<and> (\<exists>d d'. file_state f = Some d \<and> close_body clock a i st reason d = Inr (d', l) \<and> file_state f' = Some d'
         \<and> map_of (ds_leases d') i = Some l)"
proof -
  have st: "final_phase st" "\<not> (st = Revoked \<and> \<not> ac_can_approve a)"
    and t: "lease_transaction (plain_body (close_body clock a i st reason)) io f = (Inr l, f')"
    using assms by (auto simp: close_lease_def final_phase_def split: if_splits)
  obtain d d' where d: "file_state f = Some d" "close_body clock a i st reason d = Inr (d', l)" "file_state f' = Some d'"
    using plain_transaction_cases [OF t] by auto
  then obtain l0 where l0: "map_of (ds_leases d) i = Some l0" and v: "may_see a l0"
    by (auto simp: close_body_def split: option.splits if_splits)
  define l1 where "l1 = (if pending_or_active (expire l0 (clock 0))
        then (expire l0 (clock 0))\<lparr>le_status := st, le_closed_at := Some (clock 1), le_termination_reason := reason\<rparr>
        else expire l0 (clock 0))"
  have "close_body clock a i st reason d = Inr (put_lease_at i l1 d, l1)"
    using l0 v by (simp add: close_body_def Let_def l1_def)
  then have l: "l = l1" "d' = put_lease_at i l1 d" using d(2) by simp_all
  then have "map_of (ds_leases d') i = Some l" by (simp add: put_lease_at_def update_conv')
  then show ?thesis using d l st(1) by (auto simp: l1_def final_phase_def pending_or_active_def)
qed

lemma final_stays_in_file:
  assumes "file_state f = Some d" and "state_ok d" and "all_fresh env cs f"
    and "map_of (ds_leases d) i = Some l" and "final_phase (le_status l)"
  obtains d2 l2 where "file_state (run_all env cs f) = Some d2" and "map_of (ds_leases d2) i = Some l2"
    and "abs_lease l2 = abs_lease l"
    and "filter (\<lambda>(n, j, t). j = i) (ma_issued (abs_state d2)) = filter (\<lambda>(n, j, t). j = i) (ma_issued (abs_state d))"
proof -
  obtain d2 where d2: "file_state (run_all env cs f) = Some d2" "lease_steps (abs_state d) (abs_state d2)"
    using run_all_simulates [OF assms(1-3)] by blast
  have h: "ma_leases (abs_state d) i = Some (abs_lease l)" using assms(4) by (simp add: abs_leases)
  have p: "final_phase (hd_phase (abs_lease l))" using assms(5) by simp
  from final_stays [OF d2(2) h p] obtain l2 where "map_of (ds_leases d2) i = Some l2" "abs_lease l2 = abs_lease l"
    by (auto simp: abs_leases)
  then show ?thesis using that d2 no_issue_when_final [OF d2(2) h p] by blast
qed

lemma put_lease_same: "map_of m i = Some l \<Longrightarrow> AList.update i l m = m"
  by (induction m) (auto split: if_splits)

lemma reserve_serial_same:
  "map_of (ds_leases d) i = Some l \<Longrightarrow> reserve_serial i l d = d\<lparr>ds_next_serial := ds_next_serial d + 1\<rparr>"
  by (simp add: reserve_serial_def put_lease_at_def put_lease_same)

text \<open>A successful \<open>Issue\<close>, taken apart.\<close>

lemma issue_success:
  assumes "issue_certificate env s clock a i pub io f = (Inr res, f')"
  obtains fp d l r before d' where "public_fingerprint env pub = Inr fp" and "file_state f = Some d"
    and "issue_checks env s clock a i fp d = Inr (l, r, before)" and "ds_next_serial d \<noteq> - 1"
    and "issue_sign env s clock a i pub l r before (reserve_serial i l d) = Inr (d', res)"
    and "file_state f' = Some d'"
proof -
  obtain fp where fp: "public_fingerprint env pub = Inr fp"
    using assms by (cases "public_fingerprint env pub") (auto simp: issue_certificate_def)
  then have t: "lease_transaction (issue_body env s clock a i pub fp io) io f = (Inr res, f')"
    using assms by (simp add: issue_certificate_def)
  obtain d br f1 d' where d: "file_state f = Some d" and b: "issue_body env s clock a i pub fp io d f = (br, f1)"
    and r: "br = Inr (d', res)" "file_state f' = Some d'"
    using lease_transaction_cases [OF t] by auto
  from issue_body_cases [OF b] r(1) obtain l ro before where
    x: "issue_checks env s clock a i fp d = Inr (l, ro, before)" "ds_next_serial d \<noteq> - 1"
      "br = issue_sign env s clock a i pub l ro before (reserve_serial i l d)" by auto
  show ?thesis by (rule that [OF fp d x(1,2) _ r(2)]) (use x(3) r(1) in simp)
qed

lemma issue_failure:
  assumes "issue_certificate env s clock a i pub io f = (Inl e, f')"
  shows "f' = f \<or> (\<exists>d l. file_state f = Some d \<and> map_of (ds_leases d) i = Some l \<and> le_status l = Active
     \<and> le_requester_id l = ac_id a \<and> ds_next_serial d \<noteq> - 1
     \<and> file_state f' = Some (d\<lparr>ds_next_serial := ds_next_serial d + 1\<rparr>))"
proof (cases "public_fingerprint env pub")
  case (Inl e')
  then show ?thesis using assms by (simp add: issue_certificate_def)
next
  case (Inr fp)
  then have t: "lease_transaction (issue_body env s clock a i pub fp io) io f = (Inl e, f')"
    using assms by (simp add: issue_certificate_def)
  show ?thesis
  proof (rule disjE [OF lease_transaction_cases [OF t]])
    assume "\<exists>d br f1. file_state f = Some d \<and> issue_body env s clock a i pub fp io d f = (br, f1) \<and>
       (f' = f1 \<and> isl (Inl e) \<or> (\<exists>d' r. br = Inr (d', r) \<and> file_state f' = Some d' \<and> Inl e = Inr r))"
    then obtain d br where d: "file_state f = Some d" and b: "issue_body env s clock a i pub fp io d f = (br, f')"
      by auto
    from issue_body_cases [OF b] show ?thesis
    proof (elim disjE exE conjE)
      fix l r before
      assume c: "issue_checks env s clock a i fp d = Inr (l, r, before)" and n: "ds_next_serial d \<noteq> - 1"
        and f1: "file_state f' = Some (reserve_serial i l d)"
      then show ?thesis using d issue_checks_facts(1-3) [OF c] reserve_serial_same by metis
    qed simp
  qed simp
qed

subsection \<open>Properties\<close>

text \<open>
  (C12) The lease service implements the abstract lease machine: whatever operation runs on a state
  file, with whatever configuration, clock, signer, authorization answers and failing system
  calls, the file afterwards holds a well-formed state that the machine can reach from the state
  before. The only premise on chance is that \<open>Open\<close>'s random id is not in use.
\<close>

theorem lease_service_refines_machine:
  assumes "file_state f = Some d" and "state_ok d" and "cmd_fresh c d"
  shows "\<exists>d'. file_state (run_cmd env c io f) = Some d' \<and> state_ok d' \<and> lease_steps (abs_state d) (abs_state d')"
  using assms by (rule run_cmd_simulates)

text \<open>
  (C14) Certificate serials are never reused. After any two consecutive runs of operations that start
  without a state file, the serials of all issued certificates are distinct, the certificates of
  the first run are still recorded, and every certificate of the second run has a serial above
  each serial reserved in the first, whether or not its signing succeeded.
\<close>

theorem serials_never_reused:
  assumes "all_fresh env cs1 Absent" and "all_fresh env cs2 (run_all env cs1 Absent)"
  shows "\<exists>d1 d2 new. file_state (run_all env cs1 Absent) = Some d1
    \<and> file_state (run_all env cs2 (run_all env cs1 Absent)) = Some d2
    \<and> distinct (map (\<lambda>x. unat (is_serial x)) (ds_issuances d2))
    \<and> ma_issued (abs_state d2) = ma_issued (abs_state d1) @ new
    \<and> list_all (\<lambda>(n, i, t). unat (ds_next_serial d1) < n \<and> n \<le> unat (ds_next_serial d2)) new"
proof -
  obtain d1 where d1: "file_state (run_all env cs1 Absent) = Some d1" "state_ok d1"
    using run_all_simulates [OF _ empty_state_ok assms(1)] by auto
  obtain d2 where d2: "file_state (run_all env cs2 (run_all env cs1 Absent)) = Some d2" "state_ok d2"
    "lease_steps (abs_state d1) (abs_state d2)"
    using run_all_simulates [OF d1 assms(2)] by blast
  have "distinct (map (\<lambda>x. unat (is_serial x)) (ds_issuances d2))"
    using d2(2) by (simp add: state_ok_def machine_ok_def abs_state_def comp_def)
  moreover obtain new where "ma_issued (abs_state d2) = ma_issued (abs_state d1) @ new"
    "\<forall>(n, j, t) \<in> set new. ma_serial (abs_state d1) < n \<and> n \<le> ma_serial (abs_state d2)"
    using lease_steps_grow [OF d2(3)] by (auto simp: machine_grows_def)
  ultimately show ?thesis using d1(1) d2(1) by (auto simp: list_all_iff abs_state_def)
qed

text \<open>
  A closed lease stays closed: after \<open>Close\<close> has succeeded, whatever operations follow, the
  lease keeps its final status, no certificate is ever added to those it had, and every
  attempt to issue one is refused and leaves the file as it is.
\<close>

theorem closed_lease_is_final:
  assumes "close_lease clock a i st reason io f = (Inr l, f1)" and "file_state f = Some d" and "state_ok d"
    and "all_fresh env cs f1"
  shows "\<exists>d2 l2. file_state (run_all env cs f1) = Some d2 \<and> map_of (ds_leases d2) i = Some l2
    \<and> le_status l2 = le_status l \<and> le_status l2 \<noteq> Active
    \<and> filter (\<lambda>(n, j, t). j = i) (ma_issued (abs_state d2)) = filter (\<lambda>(n, j, t). j = i) (ma_issued (abs_state d))
    \<and> isl (fst (issue_certificate env s clock' a' i pub io' (run_all env cs f1)))
    \<and> snd (issue_certificate env s clock' a' i pub io' (run_all env cs f1)) = run_all env cs f1"
proof -
  obtain d1 where c: "final_phase (le_status l)" "close_body clock a i st reason d = Inr (d1, l)"
    "file_state f1 = Some d1" "map_of (ds_leases d1) i = Some l"
    using close_result [OF assms(1)] assms(2) by auto
  then have ok: "state_ok d1"
    using close_op.simulates [OF assms(2) _ assms(3), where io = io and clock = clock and a = a and i = i and st = st and reason = reason]
      assms(1) by simp
  have iss: "ds_issuances d1 = ds_issuances d"
    using c(2) by (auto simp: close_body_def Let_def put_lease_at_def split: option.splits if_splits)
  obtain d2 l2 where d2: "file_state (run_all env cs f1) = Some d2" "map_of (ds_leases d2) i = Some l2"
    "abs_lease l2 = abs_lease l"
    "filter (\<lambda>(n, j, t). j = i) (ma_issued (abs_state d2)) = filter (\<lambda>(n, j, t). j = i) (ma_issued (abs_state d1))"
    using final_stays_in_file [OF c(3) ok assms(4) c(4,1)] .
  have st: "le_status l2 = le_status l" using d2(3) by (metis abs_held(5))
  have "ma_issued (abs_state d1) = ma_issued (abs_state d)" by (simp add: abs_state_def iss)
  moreover have "final_phase (le_status l2)" using st c(1) by simp
  ultimately show ?thesis
    using d2 st closed_refuses_issue [OF d2(1,2), where env = env and s = s and clock = clock' and a = a' and pub = pub and io = io']
    by (auto simp: final_phase_def)
qed

text \<open>
  (C13) Every certificate the service issues under a validated configuration is bounded by its
  lease: the lease is active, belongs to the caller and was opened for this key; the certificate ends
  no later than the lease and no later than both ceilings after the time of issue, had not
  ended when it was handed out, and starts at most two minutes before; its serial is the next
  one; and the scope digest and the authorization were checked before and after signing
  what carries exactly the principal and the permissions of the lease's role.
\<close>

theorem certificate_within_lease:
  assumes "issue_certificate env s clock a i pub io f = (Inr res, f')"
    and "validate_config env (sv_config s) = None"
  shows "\<exists>d l r c c' q sign. file_state f = Some d \<and> map_of (ds_leases d) i = Some l \<and> ir_lease res = l
    \<and> le_status l = Active \<and> le_requester_id l = ac_id a \<and> public_fingerprint env pub = Inr (le_fingerprint l)
    \<and> sr_valid_before q \<le> le_hard_expires_at l
    \<and> sr_valid_before q \<le> clock 0 + duration_or_0 env (sc_cert_ttl (sv_config s))
    \<and> sr_valid_before q \<le> clock 0 + duration_or_0 env (ro_max_cert_ttl r)
    \<and> clock 0 < sr_valid_before q \<and> clock 1 < sr_valid_before q
    \<and> sr_valid_after q \<le> clock 0 \<and> clock 0 - 2 * minute \<le> sr_valid_after q
    \<and> unat (sr_serial q) = Suc (unat (ds_next_serial d))
    \<and> current_config s 0 = Inr c \<and> service_role env c a (le_host_id l) (le_role_id l) = Inr r
    \<and> le_policy_digest l = scope_digest env c (le_host_id l) (le_role_id l) \<and> authorized s 0 a
    \<and> current_config s 1 = Inr c' \<and> le_policy_digest l = scope_digest env c' (le_host_id l) (le_role_id l)
    \<and> authorized s 1 a
    \<and> sv_signer s = Some sign \<and> sign q = Some (ir_certificate res)
    \<and> sr_public_key q = pub \<and> sr_principal q = le_principal l \<and> force_text env l r = Inr (sr_force_command q)
    \<and> sr_pty q = ro_pty r \<and> sr_port_forwarding q = ro_port_forwarding r
    \<and> sr_agent_forwarding q = ro_agent_forwarding r \<and> sr_x11 q = ro_x11 r
    \<and> ir_issuance res = issuance_of env q (ir_certificate res) (clock 0)"
proof -
  obtain fp d l r before d' where fp: "public_fingerprint env pub = Inr fp" and d: "file_state f = Some d"
    and c: "issue_checks env s clock a i fp d = Inr (l, r, before)" and n: "ds_next_serial d \<noteq> - 1"
    and g: "issue_sign env s clock a i pub l r before (reserve_serial i l d) = Inr (d', res)"
    using issue_success [OF assms(1)] .
  note ic = issue_checks_facts [OF c]
  obtain sign force q cert c' where sg: "sv_signer s = Some sign" "force_text env l r = Inr force"
    "q = sign_request_of env s i pub l r (ds_next_serial (reserve_serial i l d)) (clock 0) before force"
    "sign q = Some cert" "clock 1 < before" "authorized s 1 a" "current_config s 1 = Inr c'"
    "le_policy_digest l = scope_digest env c' (le_host_id l) (le_role_id l)"
    "res = \<lparr>ir_lease = l, ir_certificate = cert, ir_issuance = issuance_of env q cert (clock 0)\<rparr>"
    using issue_sign_facts [OF g] by blast
  obtain skew where sk: "parse_duration (se_frac env) (sc_clock_skew (sv_config s)) = Some skew" "0 \<le> skew" "skew \<le> 2 * minute"
    by (rule validate_config_None [OF assms(2)]) blast
  obtain c0 where c0: "current_config s 0 = Inr c0" "service_role env c0 a (le_host_id l) (le_role_id l) = Inr r"
    "le_policy_digest l = scope_digest env c0 (le_host_id l) (le_role_id l)" using ic(9) by blast
  have b: "before \<le> le_hard_expires_at l" "before \<le> clock 0 + duration_or_0 env (sc_cert_ttl (sv_config s))"
    "before \<le> clock 0 + duration_or_0 env (ro_max_cert_ttl r)"
    using ic(7) valid_until_le valid_until_ttl [of env "sv_config s" r l "clock 0"] by (auto simp: min_def split: if_splits)
  have u: "unat (ds_next_serial (reserve_serial i l d)) = Suc (unat (ds_next_serial d))"
    using unat_next [OF n] by (simp add: reserve_serial_def)
  have qf: "sr_valid_before q = before" "sr_valid_after q = clock 0 - skew"
    "unat (sr_serial q) = Suc (unat (ds_next_serial d))" "sr_public_key q = pub" "sr_principal q = le_principal l"
    "sr_force_command q = force" "sr_pty q = ro_pty r" "sr_port_forwarding q = ro_port_forwarding r"
    "sr_agent_forwarding q = ro_agent_forwarding r" "sr_x11 q = ro_x11 r"
    using sg(3) sk(1) u by (simp_all add: sign_request_of_def skew_or_0_def)
  have rf: "ir_lease res = l" "ir_certificate res = cert" "ir_issuance res = issuance_of env q cert (clock 0)"
    using sg(9) by simp_all
  show ?thesis
    by (rule exI [of _ d], rule exI [of _ l], rule exI [of _ r], rule exI [of _ c0], rule exI [of _ c'],
        rule exI [of _ q], rule exI [of _ sign], unfold qf rf)
       (use d ic(1-6,8) fp b sk(2,3) c0 sg(1,2,4-8) in simp)
qed

lemma open_checks_facts:
  assumes "open_checks env c a q = Inr (fp, r, w)" and "validate_config env c = None"
  shows "public_fingerprint env (oq_public_key q) = Inr fp" and "purpose_ok (oq_purpose q)"
    and "service_role env c a (oq_host_id q) (oq_role_id q) = Inr r"
    and "0 < w" and "w \<le> duration_or_0 env (ro_max_lease r)"
proof -
  have 1: "public_fingerprint env (oq_public_key q) = Inr fp" and 2: "purpose_ok (oq_purpose q)"
    and 3: "service_role env c a (oq_host_id q) (oq_role_id q) = Inr r" and w: "open_window env r q = Inr w"
    using assms(1) by (auto simp: open_checks_def split: sum.splits if_splits)
  obtain mx df where d: "bounded_duration env (ro_max_lease r) = Inr mx"
    "bounded_duration env (ro_default_lease r) = Inr df" "df \<le> mx"
    using service_role_bounds(1) [OF assms(2) 3] by (auto simp: role_ok_def)
  have "0 < w \<and> w \<le> mx"
    using w d bounded_duration_range
    by (auto simp: open_window_def duration_or_0_def split: if_splits sum.splits)
  then show "public_fingerprint env (oq_public_key q) = Inr fp" and "purpose_ok (oq_purpose q)"
    and "service_role env c a (oq_host_id q) (oq_role_id q) = Inr r"
    and "0 < w" and "w \<le> duration_or_0 env (ro_max_lease r)"
    using 1 2 3 d(1) by (simp_all add: duration_or_0_def)
qed

text \<open>
  A successful \<open>Open\<close> under a validated configuration returns a lease that is bound to the
  caller, the requested host and role, the presented key and the current scope. Either it is the
  caller's own live lease for the very same request, and the state is unchanged; or the key was not
  used by any lease, the new one is recorded, its window is positive and at most the ceiling
  of the requester's role, and it is active at once exactly when the role lists the requester as
  preapproved and asks for no explicit approval, which a root login never does.
\<close>

theorem opened_lease_within_policy:
  assumes "open_lease env s clock rnd a q io f = (Inr l, f')" and "validate_config env (sv_config s) = None"
  shows "\<exists>d d' r. file_state f = Some d \<and> file_state f' = Some d'
    \<and> service_role env (sv_config s) a (oq_host_id q) (oq_role_id q) = Inr r
    \<and> public_fingerprint env (oq_public_key q) = Inr (le_fingerprint l)
    \<and> le_requester_id l = ac_id a \<and> le_host_id l = oq_host_id q \<and> le_role_id l = oq_role_id q
    \<and> le_policy_digest l = scope_digest env (sv_config s) (oq_host_id q) (oq_role_id q)
    \<and> live_phase (le_status l) \<and> clock 0 < le_hard_expires_at l
    \<and> (if d' = d then \<exists>j. (j, l) \<in> set (ds_leases d)
       else d' = put_lease_at (hex_encode rnd) l d
         \<and> list_all (\<lambda>(_, x). le_fingerprint x \<noteq> le_fingerprint l) (ds_leases d)
         \<and> le_hard_expires_at l - clock 0 \<le> duration_or_0 env (ro_max_lease r)
         \<and> (le_status l = Active \<longleftrightarrow>
              at_or [] (ro_requesters r) (ac_name a) = ''preapproved'' \<and> \<not> ro_explicit r)
         \<and> \<not> (le_ssh_user l = ''root'' \<and> le_status l = Active))"
proof -
  obtain fp r w where oc: "open_checks env (sv_config s) a q = Inr (fp, r, w)"
    and t: "lease_transaction (plain_body (open_body env (sv_config s) a q r w fp (hex_encode rnd) (clock 0))) io f = (Inr l, f')"
    using assms(1) by (auto simp: open_lease_def split: sum.splits prod.splits)
  note o = open_checks_facts [OF oc assms(2)]
  obtain d d' where d: "file_state f = Some d" "file_state f' = Some d'"
    and b: "open_body env (sv_config s) a q r w fp (hex_encode rnd) (clock 0) d = Inr (d', l)"
    using plain_transaction_cases [OF t] by auto
  obtain ro' where ro': "at_or [] (ro_requesters ro') (ac_name a) \<noteq> []" "ro_requesters r = ro_requesters ro'"
    using service_role_bounds(2) [OF assms(2) o(3)] by (metis role.select_convs(5) role.surjective role.update_convs(2-4))
  have rq: "ro_requesters r \<noteq> []" using ro' by (auto simp: at_or_def)
  have root: "ro_ssh_user r = ''root'' \<longrightarrow> ro_explicit r"
    using service_role_bounds(1) [OF assms(2) o(3)] rq by (simp add: role_ok_def)
  show ?thesis
  proof (cases "find (\<lambda>(_, l). le_fingerprint l = fp) (ds_leases d)")
    case (Some p)
    obtain j l1 where p: "p = (j, l1)" by (cases p)
    have m: "(j, l1) \<in> set (ds_leases d)" "le_fingerprint l1 = fp"
      using Some p by (auto simp: find_Some_iff) (metis nth_mem)
    have "same_request env (sv_config s) a q (clock 0) l1 \<and> d' = d \<and> l = l1"
      using b Some p by (simp add: open_body_def split: if_splits)
    then have j: "d' = d" "(j, l) \<in> set (ds_leases d)" "le_fingerprint l = fp"
      "same_request env (sv_config s) a q (clock 0) l" using m by simp_all
    show ?thesis
      by (rule exI [of _ d], rule exI [of _ d'], rule exI [of _ r], unfold if_P [OF j(1)])
         (use d o(1,3) j in \<open>auto simp: same_request_def pending_or_active_def live_phase_def\<close>)
  next
    case None
    let ?l = "new_lease env (sv_config s) a q r w fp (hex_encode rnd) (clock 0)"
    have l: "le_id ?l = hex_encode rnd" "le_fingerprint ?l = fp" "le_requester_id ?l = ac_id a"
      "le_host_id ?l = oq_host_id q" "le_role_id ?l = oq_role_id q" "le_ssh_user ?l = ro_ssh_user r"
      "le_policy_digest ?l = scope_digest env (sv_config s) (oq_host_id q) (oq_role_id q)"
      "le_hard_expires_at ?l = clock 0 + w"
      "le_status ?l = (if at_or [] (ro_requesters r) (ac_name a) = ''preapproved'' \<and> \<not> ro_explicit r
                       then Active else PendingApproval)"
      by (simp_all add: new_lease_def Let_def)
    have "open_body env (sv_config s) a q r w fp (hex_encode rnd) (clock 0) d = Inr (put_lease_at (hex_encode rnd) ?l d, ?l)"
      using None l(1) by (simp add: open_body_def Let_def)
    then have e: "l = ?l" "d' = put_lease_at (hex_encode rnd) ?l d" using b by simp_all
    have fresh: "list_all (\<lambda>(_, x). le_fingerprint x \<noteq> fp) (ds_leases d)"
      using None by (auto simp: find_None_iff list_all_iff)
    have "map_of (ds_leases d') (hex_encode rnd) = Some ?l" by (simp add: e put_lease_at_def update_conv')
    then have "(hex_encode rnd, ?l) \<in> set (ds_leases d')" by (rule map_of_SomeD)
    then have ne: "d' \<noteq> d" using fresh l(2) by (auto simp: list_all_iff)
    have ph: "live_phase (le_status ?l)" by (simp add: l(9) live_phase_def)
    have nr: "\<not> (le_ssh_user ?l = ''root'' \<and> le_status ?l = Active)" using root by (simp add: l(6,9))
    have act: "le_status ?l = Active \<longleftrightarrow> at_or [] (ro_requesters r) (ac_name a) = ''preapproved'' \<and> \<not> ro_explicit r"
      by (simp add: l(9))
    show ?thesis
      unfolding e(1)
      by (rule exI [of _ d], rule exI [of _ d'], rule exI [of _ r], unfold act if_not_P [OF ne] e(2) [symmetric])
         (use d o l(2-8) root e(2) fresh ph in \<open>simp del: if_not_P\<close>)
  qed
qed

text \<open>
  (C15) \<open>Approve\<close> succeeds exactly for a second person: an actor with the approval right, still
  authorised and not the requester, on a lease that is pending, has not run out, and whose
  scope is still what the configuration says; it then changes the status and the approver, nothing else.
\<close>

theorem approval_iff:
  "approve_body env s clock a i d = Inr (d', l') \<longleftrightarrow>
     (\<exists>l. map_of (ds_leases d) i = Some l \<and> ac_can_approve a \<and> ac_id a \<noteq> le_requester_id l \<and> authorized s 0 a
        \<and> le_status l = PendingApproval \<and> clock 0 < le_hard_expires_at l
        \<and> le_policy_digest l = scope_digest env (sv_config s) (le_host_id l) (le_role_id l)
        \<and> l' = l\<lparr>le_status := Active, le_approved_by := ac_id a\<rparr> \<and> d' = put_lease_at i l' d)"
proof -
  have e: "le_status (expire l t) = PendingApproval \<longleftrightarrow> le_status l = PendingApproval \<and> t < le_hard_expires_at l" for l t
    by (auto simp: expire_def pending_or_active_def)
  have x: "le_status l = PendingApproval \<Longrightarrow> t < le_hard_expires_at l \<Longrightarrow> expire l t = l" for l t
    by (simp add: expire_def)
  show ?thesis
    by (cases "map_of (ds_leases d) i") (auto simp: approve_body_def Let_def e x)
qed

text \<open>
  A refused operation changes nothing: if \<open>Open\<close>, \<open>Get\<close>, \<open>List\<close>, \<open>Approve\<close> or \<open>Close\<close> returns an
  error, from whatever cause, the state file is the same as before. If \<open>Issue\<close> returns one, the
  file is the same or exactly one serial has been consumed, and the latter only for an active
  lease of the caller.
\<close>

theorem refused_operations_change_nothing:
  "(isl (fst (open_lease env s clock rnd a q io f)) \<longrightarrow> snd (open_lease env s clock rnd a q io f) = f)
   \<and> (isl (fst (get_lease clock a i io f)) \<longrightarrow> snd (get_lease clock a i io f) = f)
   \<and> (isl (fst (list_leases clock a objective io f)) \<longrightarrow> snd (list_leases clock a objective io f) = f)
   \<and> (isl (fst (approve_lease env s clock a i io f)) \<longrightarrow> snd (approve_lease env s clock a i io f) = f)
   \<and> (isl (fst (close_lease clock a i st reason io f)) \<longrightarrow> snd (close_lease clock a i st reason io f) = f)
   \<and> (isl (fst (issue_certificate env s clock a i pub io f)) \<longrightarrow>
        snd (issue_certificate env s clock a i pub io f) = f
        \<or> (\<exists>d l. file_state f = Some d \<and> map_of (ds_leases d) i = Some l \<and> le_status l = Active
             \<and> le_requester_id l = ac_id a \<and> ds_next_serial d \<noteq> - 1
             \<and> file_state (snd (issue_certificate env s clock a i pub io f))
                 = Some (d\<lparr>ds_next_serial := ds_next_serial d + 1\<rparr>)))"
proof -
  have "isl (fst (issue_certificate env s clock a i pub io f)) \<Longrightarrow>
        snd (issue_certificate env s clock a i pub io f) = f
        \<or> (\<exists>d l. file_state f = Some d \<and> map_of (ds_leases d) i = Some l \<and> le_status l = Active
             \<and> le_requester_id l = ac_id a \<and> ds_next_serial d \<noteq> - 1
             \<and> file_state (snd (issue_certificate env s clock a i pub io f))
                 = Some (d\<lparr>ds_next_serial := ds_next_serial d + 1\<rparr>))"
    using issue_failure [of env s clock a i pub io f _ "snd (issue_certificate env s clock a i pub io f)"]
    by (cases "issue_certificate env s clock a i pub io f"; cases "fst (issue_certificate env s clock a i pub io f)") auto
  then show ?thesis
    by (intro conjI impI open_op.refused_changes_nothing get_op.refused_changes_nothing
        list_op.refused_changes_nothing approve_op.refused_changes_nothing close_op.refused_changes_nothing)
qed

lemma flock_loop_stops:
  assumes "\<And>j. wall (Suc j) \<ge> start + int j * lock_pause" and "start + lock_wait < start + int (i + fuel) * lock_pause"
  shows "flock_loop (Suc fuel) try wall (start + lock_wait) i \<noteq> None"
  using assms(2)
proof (induction fuel arbitrary: i)
  case 0
  then have "wall (Suc i) > start + lock_wait" using assms(1) [of i] by simp
  then show ?case by (cases "try i") auto
next
  case (Suc fuel)
  then have "flock_loop (Suc fuel) try wall (start + lock_wait) (Suc i) \<noteq> None" by (intro Suc.IH) simp
  then show ?case by (cases "try i") (auto simp del: flock_loop.simps(2) simp: flock_loop.simps(2) [of "Suc fuel"])
qed

text \<open>
  Waiting for the lock ends: since each failed attempt sleeps ten milliseconds, the clock passes
  the ten-second deadline within 1002 attempts, whatever the attempts return, and the loop gives
  an answer within that fuel.
\<close>

theorem lock_wait_ends:
  assumes "\<And>j. wall (Suc j) \<ge> wall 0 + int j * lock_pause"
  shows "flock_loop flock_fuel try wall (wall 0 + lock_wait) 0 \<noteq> None"
  using flock_loop_stops [OF assms, of 0 1001]
  by (simp add: flock_fuel_def lock_wait_def lock_pause_def second_def del: flock_loop.simps)

theorem lock_wait_ends_witness:
  "flock_loop flock_fuel (\<lambda>_. WouldBlock) (\<lambda>j. int j * lock_pause) (0 + lock_wait) 0 \<noteq> None"
  using lock_wait_ends [of "\<lambda>j. int j * lock_pause" "\<lambda>_. WouldBlock"]
  by (simp add: lock_pause_def del: flock_loop.simps)

subsection \<open>A sample run\<close>

definition sample_wire :: string where
  "sample_wire = ed25519_wire (replicate 32 (CHR ''k''))"

definition sample_key :: string where
  "sample_key = ''ssh-ed25519 '' @ std_encode sample_wire"

definition sample_fp :: string where
  "sample_fp = key_fingerprint ssh_sample_env sample_wire"

lemma sample_key_fields: "string_fields sample_key = [''ssh-ed25519'', std_encode sample_wire]"
proof -
  have "std_decode [] = Some []" by code_simp
  moreover have "sample_wire \<noteq> []" by (simp add: sample_wire_def ed25519_wire_def)
  ultimately have "std_encode sample_wire \<noteq> []" using std_decode_encode [of sample_wire] by (metis option.inject)
  moreover have "list_all visible ''ssh-ed25519''" by (simp add: visible_def byte_def)
  ultimately show ?thesis
    using two_fields [OF _ std_encode_visible, of "''ssh-ed25519''" sample_wire] by (simp add: sample_key_def)
qed

lemma sample_key_text: "std_encode sample_wire = ''AAAAC3NzaC1lZDI1NTE5AAAAIGtra2tra2tra2tra2tra2tra2tra2tra2tra2tra2tr''"
  by code_simp

lemma sample_key_plain: "length sample_key \<le> 256 \<and> \<not> has_eol sample_key \<and> \<not> contains_sub sample_key ''PRIVATE''"
  by (simp add: sample_key_def sample_key_text has_eol_def)

lemma sample_key_fp [simp]: "public_fingerprint ssh_sample_env sample_key = Inr sample_fp"
proof -
  have "ed25519_blob sample_wire"
    unfolding ed25519_blob_wire sample_wire_def by (intro exI [of _ "replicate 32 (CHR ''k'')"]) simp
  then show ?thesis using sample_key_fields sample_key_plain
    by (simp add: public_fingerprint_def sample_fp_def)
qed

definition bot :: actor where "bot = \<lparr>ac_id = ''b'', ac_name = ''bot'', ac_can_approve = False\<rparr>"
definition boss :: actor where "boss = \<lparr>ac_id = ''z'', ac_name = ''boss'', ac_can_approve = True\<rparr>"

definition sample_open :: open_request where
  "sample_open = \<lparr>oq_host_id = ''web'', oq_role_id = ''observe'', oq_agent_class = ''pi'', oq_objective_id = ''fix'',
     oq_purpose = ''look'', oq_estimated = [], oq_max_duration = ''5m'', oq_public_key = sample_key\<rparr>"

definition sample_service :: service where
  "sample_service = \<lparr>sv_config = ssh_sample_config, sv_signer = Some (\<lambda>q. Some ''cert''), sv_authorize = None,
     sv_live = None\<rparr>"

definition sample_io :: lease_io where
  "sample_io = \<lparr>li_uid = 1000, li_dir = None, li_lock = None, li_flock = (\<lambda>_. Locked), li_wall = (\<lambda>_. 0),
     li_opens = True, li_reads = True, li_lstats = True, li_writes = (\<lambda>_. True), li_json_size = (\<lambda>_. 0)\<rparr>"

lemma sample_io_fields [simp]: "li_uid sample_io = 1000" "li_dir sample_io = None" "li_lock sample_io = None"
  "li_flock sample_io = (\<lambda>_. Locked)" "li_opens sample_io" "li_reads sample_io" "li_lstats sample_io" "li_writes sample_io k"
  "li_json_size sample_io d = 0"
  by (simp_all add: sample_io_def)

definition sample_file :: "lease_state \<Rightarrow> lease_file" where
  "sample_file d = Present \<lparr>n_kind = RegularFile, n_uid = 1000, n_perm = 0x180\<rparr> 0 (LeaseState d)"

lemma sample_file_state [simp]: "file_state (sample_file d) = Some d"
  by (simp add: sample_file_def)

lemma sample_bits: "no_bits 0x3F \<lparr>n_kind = RegularFile, n_uid = 1000, n_perm = 0x180\<rparr>"
  by code_simp

lemma sample_save [simp]:
  "save_leases sample_io k d (sample_file d0) = (None, sample_file d)"
  "save_leases sample_io k d Absent = (None, sample_file d)"
  by (simp_all add: save_leases_def atomic_private_def sample_file_def file_limit_def)

lemma sample_lock: "flock_loop flock_fuel (\<lambda>_. Locked) w t 0 = Some True"
  by (simp add: flock_fuel_def numeral_eq_Suc)

lemma sample_transaction:
  "lease_transaction fn sample_io (sample_file d) =
     (case fn d (sample_file d) of (Inl e, f') \<Rightarrow> (Inl e, f')
      | (Inr (d', r), f') \<Rightarrow> (case save_leases sample_io 1 d' f' of (Some e, f'') \<Rightarrow> (Inl e, f'') | (None, f'') \<Rightarrow> (Inr r, f'')))"
  using sample_bits
  by (simp add: lease_transaction_def sample_lock read_private_def private_open_def sample_file_def
      private_node_def file_limit_def)

lemma sample_transaction_absent:
  "lease_transaction fn sample_io Absent =
     (case fn empty_lease_state Absent of (Inl e, f') \<Rightarrow> (Inl e, f')
      | (Inr (d', r), f') \<Rightarrow> (case save_leases sample_io 1 d' f' of (Some e, f'') \<Rightarrow> (Inl e, f'') | (None, f'') \<Rightarrow> (Inr r, f'')))"
  by (simp add: lease_transaction_def sample_lock read_private_def private_open_def)

lemma sample_service_role:
  "service_role ssh_sample_env ssh_sample_config bot ''web'' ''observe'' = Inr ssh_sample_role"
  by (simp add: service_role_def ssh_sample_config_def ssh_sample_role_def empty_role_def bot_def at_or_def)

lemma sample_open_checks:
  "open_checks ssh_sample_env ssh_sample_config bot sample_open = Inr (sample_fp, ssh_sample_role, 300000000000)"
proof -
  have "identifier_ok ''pi''" "identifier_ok ''fix''" "purpose_ok ''look''" by code_simp+
  moreover have "open_window ssh_sample_env ssh_sample_role sample_open = Inr 300000000000"
    by (simp add: open_window_def sample_open_def ssh_sample_role_def duration_or_0_def)
  ultimately show ?thesis
    using sample_service_role by (simp add: open_checks_def) (simp add: sample_open_def)
qed

definition sample_rnd :: string where "sample_rnd = replicate 16 (CHR 0x00)"

definition sample_lease :: lease where
  "sample_lease = new_lease ssh_sample_env ssh_sample_config bot sample_open ssh_sample_role 300000000000 sample_fp
     (hex_encode sample_rnd) 0"

definition sample_leases :: lease_state where
  "sample_leases = put_lease_at (hex_encode sample_rnd) sample_lease empty_lease_state"

lemma sample_opened:
  "open_lease ssh_sample_env sample_service (\<lambda>_. 0) sample_rnd bot sample_open sample_io Absent
   = (Inr sample_lease, sample_file sample_leases)"
  using sample_open_checks
  by (simp add: open_lease_def sample_service_def sample_transaction_absent plain_body_def open_body_def
      empty_lease_state_def sample_lease_def sample_leases_def Let_def) (simp add: new_lease_def Let_def)

lemma sample_fields [simp]: "le_status sample_lease = Active" "le_requester_id sample_lease = ''b''"
  "le_hard_expires_at sample_lease = 300000000000" "le_fingerprint sample_lease = sample_fp"
  "le_host_id sample_lease = ''web''" "le_role_id sample_lease = ''observe''"
  "le_policy_digest sample_lease = scope_digest ssh_sample_env ssh_sample_config ''web'' ''observe''"
  by (simp_all add: sample_lease_def new_lease_def Let_def bot_def sample_open_def ssh_sample_role_def empty_role_def at_or_def)

lemma sample_at: "map_of (ds_leases sample_leases) (hex_encode sample_rnd) = Some sample_lease"
  by (simp add: sample_leases_def put_lease_at_def empty_lease_state_def)

lemma sample_ok: "state_ok sample_leases"
  by (simp add: state_ok_def machine_ok_def abs_state_def sample_leases_def put_lease_at_def empty_lease_state_def)

lemma sample_issue:
  "\<exists>res f'. issue_certificate ssh_sample_env sample_service (\<lambda>_. 0) bot (hex_encode sample_rnd) sample_key sample_io
      (sample_file sample_leases) = (Inr res, f')"
proof -
  have v: "valid_until ssh_sample_env ssh_sample_config ssh_sample_role sample_lease 0 = 300000000000"
    by (simp add: valid_until_def ssh_sample_config_def ssh_sample_role_def duration_or_0_def truncate_second_def second_def)
  have e: "expire sample_lease 0 = sample_lease" by (simp add: expire_def)
  have c: "issue_checks ssh_sample_env sample_service (\<lambda>_. 0) bot (hex_encode sample_rnd) sample_fp sample_leases
      = Inr (sample_lease, ssh_sample_role, 300000000000)"
    using sample_at sample_service_role v e
    by (simp add: issue_checks_def Let_def current_config_def sample_service_def authorized_def) (simp add: bot_def authorized_def)
  have n: "ds_next_serial sample_leases \<noteq> - 1"
    by (simp add: sample_leases_def put_lease_at_def empty_lease_state_def)
  have fo: "force_text ssh_sample_env sample_lease ssh_sample_role = Inr []"
    by (simp add: force_text_def ssh_sample_role_def empty_role_def)
  have g: "\<exists>d res. issue_sign ssh_sample_env sample_service (\<lambda>_. 0) bot (hex_encode sample_rnd) sample_key sample_lease
      ssh_sample_role 300000000000 (reserve_serial (hex_encode sample_rnd) sample_lease sample_leases) = Inr (d, res)"
    using fo by (simp add: issue_sign_def sample_service_def Let_def current_config_def authorized_def)
  then show ?thesis using c n
    by (auto simp: issue_certificate_def sample_transaction issue_body_def Let_def)
qed

text \<open>The witnesses.\<close>

theorem lease_service_refines_machine_witness:
  "\<exists>d'. file_state (run_cmd ssh_sample_env (CmdIssue sample_service (\<lambda>_. 0) bot (hex_encode sample_rnd) sample_key)
      sample_io (sample_file sample_leases)) = Some d' \<and> state_ok d' \<and> lease_steps (abs_state sample_leases) (abs_state d')"
  by (rule lease_service_refines_machine) (simp_all add: sample_ok)

theorem serials_never_reused_witness:
  "\<exists>d. file_state (run_all ssh_sample_env
      [(CmdIssue sample_service (\<lambda>_. 0) bot (hex_encode sample_rnd) sample_key, sample_io)]
      (run_all ssh_sample_env [(CmdOpen sample_service (\<lambda>_. 0) sample_rnd bot sample_open, sample_io)] Absent)) = Some d
    \<and> distinct (map (\<lambda>x. unat (is_serial x)) (ds_issuances d))"
  using serials_never_reused
    [of ssh_sample_env "[(CmdOpen sample_service (\<lambda>_. 0) sample_rnd bot sample_open, sample_io)]"
        "[(CmdIssue sample_service (\<lambda>_. 0) bot (hex_encode sample_rnd) sample_key, sample_io)]"]
  by (auto simp: sample_opened empty_lease_state_def)

lemma sample_closed:
  "\<exists>l f1. close_lease (\<lambda>_. 0) bot (hex_encode sample_rnd) Cancelled ''cancelled'' sample_io (sample_file sample_leases) = (Inr l, f1)"
proof -
  have "expire sample_lease 0 = sample_lease" by (simp add: expire_def)
  then show ?thesis
    using sample_at
    by (simp add: close_lease_def close_reasons_def sample_transaction plain_body_def close_body_def Let_def)
       (simp add: may_see_def bot_def)
qed

theorem closed_lease_is_final_witness:
  "\<exists>l f1. close_lease (\<lambda>_. 0) bot (hex_encode sample_rnd) Cancelled ''cancelled'' sample_io (sample_file sample_leases) = (Inr l, f1)
    \<and> isl (fst (issue_certificate ssh_sample_env sample_service (\<lambda>_. 0) bot (hex_encode sample_rnd) sample_key sample_io
        (run_all ssh_sample_env [(CmdGet (\<lambda>_. 1) bot (hex_encode sample_rnd), sample_io)] f1)))"
proof -
  obtain l f1 where c: "close_lease (\<lambda>_. 0) bot (hex_encode sample_rnd) Cancelled ''cancelled'' sample_io (sample_file sample_leases) = (Inr l, f1)"
    using sample_closed by blast
  have "all_fresh ssh_sample_env [(CmdGet (\<lambda>_. 1) bot (hex_encode sample_rnd), sample_io)] f1"
    by (simp split: option.split)
  from closed_lease_is_final [OF c sample_file_state sample_ok this] show ?thesis using c by blast
qed

theorem certificate_within_lease_witness:
  "\<exists>res f' (q :: sign_request) sign. issue_certificate ssh_sample_env sample_service (\<lambda>_. 0) bot (hex_encode sample_rnd) sample_key sample_io
      (sample_file sample_leases) = (Inr res, f') \<and> sr_valid_before q \<le> 300000000000 \<and> sign q = Some (ir_certificate res)"
proof -
  obtain res f' where i: "issue_certificate ssh_sample_env sample_service (\<lambda>_. 0) bot (hex_encode sample_rnd) sample_key sample_io
      (sample_file sample_leases) = (Inr res, f')" using sample_issue by blast
  have v: "validate_config ssh_sample_env (sv_config sample_service) = None"
    by (simp add: sample_service_def ssh_sample_valid)
  have "\<exists>(q :: sign_request) sign. sr_valid_before q \<le> 300000000000 \<and> sign q = Some (ir_certificate res)"
  proof -
    obtain d l and q :: sign_request and sign where "file_state (sample_file sample_leases) = Some d" "map_of (ds_leases d) (hex_encode sample_rnd) = Some l"
      and q: "sr_valid_before q \<le> le_hard_expires_at l" "sign q = Some (ir_certificate res)"
      using certificate_within_lease [OF i v] by (elim exE conjE) (rule that, assumption+)
    then have "l = sample_lease" using sample_at by simp
    then show ?thesis using q by auto
  qed
  then show ?thesis using i by blast
qed

theorem opened_lease_within_policy_witness:
  "\<exists>r. service_role ssh_sample_env ssh_sample_config bot ''web'' ''observe'' = Inr r
     \<and> le_hard_expires_at sample_lease \<le> duration_or_0 ssh_sample_env (ro_max_lease r)"
proof -
  have v: "validate_config ssh_sample_env (sv_config sample_service) = None"
    by (simp add: sample_service_def ssh_sample_valid)
  have "sample_leases \<noteq> empty_lease_state"
    by (simp add: sample_leases_def put_lease_at_def empty_lease_state_def)
  then show ?thesis
    using opened_lease_within_policy [OF sample_opened v] by (auto simp: sample_service_def sample_open_def)
qed

theorem refused_operations_change_nothing_witness:
  "snd (get_lease (\<lambda>_. 0) boss ''none'' sample_io (sample_file empty_lease_state)) = sample_file empty_lease_state"
proof -
  have "isl (fst (get_lease (\<lambda>_. 0) boss ''none'' sample_io (sample_file empty_lease_state)))"
    by (simp add: get_lease_def sample_transaction plain_body_def get_body_def empty_lease_state_def)
  then show ?thesis
    using refused_operations_change_nothing
      [where clock = "\<lambda>_. 0" and a = boss and i = "''none''" and io = sample_io and f = "sample_file empty_lease_state"]
    by blast
qed

end
