(* ===== verification/SshCert.thy ===== *)
theory SshCert
  imports SshHosts LeaseProps
begin

text \<open>
  Package \<open>internal/sshaccess\<close>, certificates (\<open>certificate.go\<close>, \<open>signer.go\<close>): the check of what
  \<open>ssh-keygen\<close> has signed against what was asked for, the signer around that program, and the
  bootstrap bundle for a host.

  The Ed25519 verification, the \<open>ssh-keygen\<close> process and the file contents it leaves are
  parameters. Bytes are read in the SSH wire format: a string is its length in four bytes, then
  its bytes.
\<close>

subsection \<open>The wire format\<close>

definition ssh_string :: "string \<Rightarrow> string" where
  "ssh_string v = be_bytes 4 (length v) @ v"

definition read_string :: "string \<Rightarrow> (string \<times> string) option" where
  "read_string b =
     (if length b < 4 then None
      else let n = be_value (take 4 b); rest = drop 4 b in
        if n > length rest then None else Some (take n rest, drop n rest))"

definition read_number :: "nat \<Rightarrow> string \<Rightarrow> (nat \<times> string) option" where
  "read_number n b = (if length b < n then None else Some (be_value (take n b), drop n b))"

definition cert_type :: string where "cert_type = ''ssh-ed25519-cert-v01@openssh.com''"

definition unix_seconds :: "time \<Rightarrow> nat" where
  "unix_seconds t = nat ((t div second) mod 2 ^ 64)"

datatype cert_error =
    CertInvalid | CertKind | CertNonce | CertKey | CertRequestKey ssh_error | CertKeyMismatch | CertSerial | CertNotUser
  | CertKeyId | CertPrincipal | CertValidity | CertExpiry | CertCritical | CertExtensions | CertBadExtension
  | CertUnexpectedExtension | CertMissingExtension | CertReserved | CertMissingCa | CertCaInvalid | CertCaMismatch
  | CertSignature | CertSignatureRejected

definition expected_critical :: "sign_request \<Rightarrow> string" where
  "expected_critical r =
     (if sr_force_command r = [] then []
      else ssh_string ''force-command'' @ ssh_string (ssh_string (sr_force_command r)))"

definition allowed_extensions :: "sign_request \<Rightarrow> string list" where
  "allowed_extensions r =
     (if sr_pty r then [''permit-pty''] else [])
     @ (if sr_port_forwarding r then [''permit-port-forwarding''] else [])
     @ (if sr_agent_forwarding r then [''permit-agent-forwarding''] else [])
     @ (if sr_x11 r then [''permit-X11-forwarding''] else [])"

text \<open>The loop over the extensions; the result is the list of names not seen.\<close>

function check_extensions :: "string list \<Rightarrow> string \<Rightarrow> cert_error + string list" where
  "check_extensions allowed ext =
     (if ext = [] then Inr allowed
      else if length ext < 4 then Inl CertBadExtension
      else let n = be_value (take 4 ext) in
        if n + 8 > length ext then Inl CertBadExtension
        else let name = take n (drop 4 ext); rest = drop (4 + n) ext in
          if be_value (take 4 rest) \<noteq> 0 \<or> name \<notin> set allowed then Inl CertUnexpectedExtension
          else check_extensions (remove1 name allowed) (drop 4 rest))"
  by pat_completeness auto
termination by (relation "measure (\<lambda>(a, e). length e)") (auto simp: Let_def)

declare check_extensions.simps [simp del]

definition principal_ok :: "string \<Rightarrow> string \<Rightarrow> bool" where
  "principal_ok prin want \<longleftrightarrow> length prin = length want + 4
     \<and> be_value (take 4 prin) = length want mod 2 ^ 32 \<and> drop 4 prin = want"

type_synonym ed25519_verify = "string \<Rightarrow> string \<Rightarrow> string \<Rightarrow> bool"

definition verify_blob ::
    "ssh_env \<Rightarrow> ed25519_verify \<Rightarrow> string \<Rightarrow> sign_request \<Rightarrow> string \<Rightarrow> cert_error + unit" where
  "verify_blob env vf ca_pub r b =
     also_then (some_or CertKind (read_string b)) (\<lambda>(kind, b1).
     also_then (require (kind = cert_type) CertKind) (\<lambda>_.
     also_then (some_or CertNonce (read_string b1)) (\<lambda>(_, b2).
     also_then (some_or CertKey (read_string b2)) (\<lambda>(pub, b3).
     also_then (require (length pub = 32) CertKey) (\<lambda>_.
     also_then (case public_fingerprint env (sr_public_key r) of Inl e \<Rightarrow> Inl (CertRequestKey e) | Inr fp \<Rightarrow> Inr fp) (\<lambda>fp.
     also_then (require (fp = key_fingerprint env (ed25519_wire pub)) CertKeyMismatch) (\<lambda>_.
     also_then (some_or CertSerial (read_number 8 b3)) (\<lambda>(serial, b4).
     also_then (require (serial = unat (sr_serial r)) CertSerial) (\<lambda>_.
     also_then (some_or CertNotUser (read_number 4 b4)) (\<lambda>(typ, b5).
     also_then (require (typ = 1) CertNotUser) (\<lambda>_.
     also_then (some_or CertKeyId (read_string b5)) (\<lambda>(key_id, b6).
     also_then (require (key_id = sr_key_id r) CertKeyId) (\<lambda>_.
     also_then (some_or CertPrincipal (read_string b6)) (\<lambda>(prin, b7).
     also_then (require (principal_ok prin (sr_principal r)) CertPrincipal) (\<lambda>_.
     also_then (some_or CertValidity (read_number 8 b7)) (\<lambda>(after, b8).
     also_then (require (after = unix_seconds (sr_valid_after r)) CertValidity) (\<lambda>_.
     also_then (some_or CertExpiry (read_number 8 b8)) (\<lambda>(before, b9).
     also_then (require (before = unix_seconds (sr_valid_before r)) CertExpiry) (\<lambda>_.
     also_then (some_or CertCritical (read_string b9)) (\<lambda>(critical, b10).
     also_then (require (critical = expected_critical r) CertCritical) (\<lambda>_.
     also_then (some_or CertExtensions (read_string b10)) (\<lambda>(extensions, b11).
     also_then (check_extensions (allowed_extensions r) extensions) (\<lambda>missing.
     also_then (require (missing = []) CertMissingExtension) (\<lambda>_.
     also_then (some_or CertReserved (read_string b11)) (\<lambda>(reserved, b12).
     also_then (require (reserved = []) CertReserved) (\<lambda>_.
     also_then (some_or CertMissingCa (read_string b12)) (\<lambda>(ca_key, b13).
     also_then (require (length (string_fields ca_pub) = 2) CertCaInvalid) (\<lambda>_.
     also_then (require (std_decode (string_fields ca_pub ! 1) = Some ca_key) CertCaMismatch) (\<lambda>_.
     also_then (some_or CertSignature (read_string b13)) (\<lambda>(sig, b14).
     also_then (require (b14 = [] \<and> length sig = 4 + 11 + 4 + 64 \<and> be_value (take 4 sig) = 11
                         \<and> take 11 (drop 4 sig) = ''ssh-ed25519'' \<and> be_value (take 4 (drop 15 sig)) = 64) CertSignature) (\<lambda>_.
     require (length ca_key = 51 \<and> vf (drop 19 ca_key) (take (length b - length b13) b) (drop 19 sig))
       CertSignatureRejected)))))))))))))))))))))))))))))))"

definition verify_certificate ::
    "ssh_env \<Rightarrow> ed25519_verify \<Rightarrow> string \<Rightarrow> string \<Rightarrow> sign_request \<Rightarrow> cert_error + unit" where
  "verify_certificate env vf cert ca_pub r =
     (case string_fields cert of
        kind # body # _ \<Rightarrow>
          if kind \<noteq> cert_type then Inl CertInvalid
          else (case std_decode body of
                  None \<Rightarrow> Inl CertInvalid
                | Some b \<Rightarrow> if length b > 8192 then Inl CertInvalid else verify_blob env vf ca_pub r b)
      | _ \<Rightarrow> Inl CertInvalid)"

subsection \<open>The layout of a certificate\<close>

definition ext_entry :: "string \<Rightarrow> string" where
  "ext_entry n = ssh_string n @ be_bytes 4 0"

text \<open>The signed part and the whole certificate for a request, with what the request leaves open.\<close>

definition cert_signed :: "string \<Rightarrow> string \<Rightarrow> sign_request \<Rightarrow> string list \<Rightarrow> string \<Rightarrow> string" where
  "cert_signed nonce key r names ca_key =
     ssh_string cert_type @ ssh_string nonce @ ssh_string key @ be_bytes 8 (unat (sr_serial r)) @ be_bytes 4 1
     @ ssh_string (sr_key_id r) @ ssh_string (ssh_string (sr_principal r))
     @ be_bytes 8 (unix_seconds (sr_valid_after r)) @ be_bytes 8 (unix_seconds (sr_valid_before r))
     @ ssh_string (expected_critical r) @ ssh_string (concat (map ext_entry names)) @ ssh_string []
     @ ssh_string ca_key"

definition cert_signature :: "string \<Rightarrow> string" where
  "cert_signature sg = ssh_string ''ssh-ed25519'' @ ssh_string sg"

definition cert_blob :: "string \<Rightarrow> string \<Rightarrow> sign_request \<Rightarrow> string list \<Rightarrow> string \<Rightarrow> string \<Rightarrow> string" where
  "cert_blob nonce key r names ca_key sg = cert_signed nonce key r names ca_key @ ssh_string (cert_signature sg)"

lemma length_ssh_string [simp]: "length (ssh_string v) = 4 + length v"
  by (simp add: ssh_string_def)

lemma read_string_iff: "read_string b = Some (v, r) \<longleftrightarrow> b = ssh_string v @ r \<and> length v < 2 ^ 32"
proof
  assume a: "read_string b = Some (v, r)"
  let ?n = "be_value (take 4 b)"
  have l: "4 \<le> length b" "?n \<le> length (drop 4 b)" and v: "v = take ?n (drop 4 b)" "r = drop ?n (drop 4 b)"
    using a by (auto simp: read_string_def Let_def split: if_splits)
  have n: "?n < 256 ^ length (take 4 b)" by (rule be_value_bound)
  have "take 4 b = be_bytes 4 ?n" using be_bytes_value [of "take 4 b"] l by simp
  moreover have "length v = ?n" using l v by simp
  moreover have "b = take 4 b @ v @ r" unfolding v by (simp only: append_take_drop_id)
  ultimately have "b = ssh_string v @ r" unfolding ssh_string_def by (metis append.assoc)
  moreover have "length v < 2 ^ 32" using n l \<open>length v = ?n\<close> by simp
  ultimately show "b = ssh_string v @ r \<and> length v < 2 ^ 32" by blast
next
  assume b: "b = ssh_string v @ r \<and> length v < 2 ^ 32"
  then have "be_value (be_bytes 4 (length v)) = length v" by (intro be_value_bytes) simp
  then show "read_string b = Some (v, r)" using b by (simp add: read_string_def ssh_string_def Let_def)
qed

lemma read_number_iff: "read_number n b = Some (v, r) \<longleftrightarrow> b = be_bytes n v @ r \<and> v < 256 ^ n"
proof
  assume a: "read_number n b = Some (v, r)"
  then have l: "n \<le> length b" "v = be_value (take n b)" "r = drop n b"
    by (auto simp: read_number_def split: if_splits)
  then have "be_bytes n v = take n b" using be_bytes_value [of "take n b"] by simp
  then show "b = be_bytes n v @ r \<and> v < 256 ^ n" using l be_value_bound [of "take n b"] by simp
next
  assume "b = be_bytes n v @ r \<and> v < 256 ^ n"
  then show "read_number n b = Some (v, r)" by (simp add: read_number_def be_value_bytes)
qed

lemma check_extensions_Inr:
  "check_extensions allowed ext = Inr missing \<Longrightarrow>
   \<exists>names. ext = concat (map ext_entry names) \<and> mset allowed = mset names + mset missing"
proof (induction allowed ext rule: check_extensions.induct)
  case (1 allowed ext)
  show ?case
  proof (cases "ext = []")
    case True
    then show ?thesis using "1.prems" by (intro exI [of _ "[]"]) (simp add: check_extensions.simps [of allowed "[]"])
  next
    case False
    let ?n = "be_value (take 4 ext)"
    let ?name = "take ?n (drop 4 ext)" and ?rest = "drop (4 + ?n) ext"
    have l: "\<not> length ext < 4" "\<not> ?n + 8 > length ext"
      and z: "\<not> (be_value (take 4 ?rest) \<noteq> 0 \<or> ?name \<notin> set allowed)"
      and r: "check_extensions (remove1 ?name allowed) (drop 4 ?rest) = Inr missing"
      using "1.prems" False by (auto simp: check_extensions.simps [of allowed ext] Let_def split: if_splits)
    obtain names where n: "drop 4 ?rest = concat (map ext_entry names)"
      "mset (remove1 ?name allowed) = mset names + mset missing"
      using "1.IH" [OF False l(1) refl l(2) refl refl z r] by blast
    have "read_string ext = Some (?name, ?rest)"
      using l by (simp add: read_string_def Let_def add.commute)
    then have e: "ext = ssh_string ?name @ ?rest" by (simp only: read_string_iff)
    have "take 4 ?rest = be_bytes 4 0" using be_bytes_value [of "take 4 ?rest"] z l by simp
    then have "?rest = be_bytes 4 0 @ drop 4 ?rest" by (metis append_take_drop_id)
    then have "ext = concat (map ext_entry (?name # names))"
      using e n(1) by (metis append.assoc concat.simps(2) ext_entry_def list.simps(9))
    moreover have "mset allowed = mset (?name # names) + mset missing"
      using n(2) z by (metis add_mset_remove_trivial_If insert_DiffM mset.simps(2) mset_remove1 set_mset_mset union_mset_add_mset_left)
    ultimately show ?thesis by blast
  qed
qed

lemma check_extensions_complete:
  "mset allowed = mset names \<Longrightarrow> list_all (\<lambda>n. length n < 2 ^ 32) names \<Longrightarrow>
   check_extensions allowed (concat (map ext_entry names)) = Inr []"
proof (induction names arbitrary: allowed)
  case Nil
  then show ?case by (simp add: check_extensions.simps)
next
  case (Cons n names)
  let ?tail = "concat (map ext_entry names)"
  have b: "be_value (be_bytes 4 (length n)) = length n" "be_value (be_bytes 4 0) = 0"
    using Cons.prems(2) by (auto intro: be_value_bytes)
  have m: "n \<in> set allowed" "mset (remove1 n allowed) = mset names"
    using Cons.prems(1) by (metis list.set_intros(1) set_mset_mset) (simp add: Cons.prems(1))
  have "check_extensions (remove1 n allowed) ?tail = Inr []" using Cons.IH m(2) Cons.prems(2) by simp
  moreover have "be_bytes 4 (length n) \<noteq> []" by (metis length_be_bytes length_0_conv zero_neq_numeral)
  ultimately show ?case
    using b m by (subst check_extensions.simps) (simp add: ext_entry_def ssh_string_def Let_def)
qed

lemma principal_ok_iff: "length want < 2 ^ 32 \<Longrightarrow> principal_ok p want \<longleftrightarrow> p = ssh_string want"
proof
  assume w: "length want < 2 ^ 32" and "principal_ok p want"
  then have p: "length p = length want + 4" "be_value (take 4 p) = length want" "drop 4 p = want"
    by (auto simp: principal_ok_def)
  then have "take 4 p = be_bytes 4 (length want)" using be_bytes_value [of "take 4 p"] by simp
  then show "p = ssh_string want" using p(3) by (metis append_take_drop_id ssh_string_def)
next
  assume "length want < 2 ^ 32" and "p = ssh_string want"
  then show "principal_ok p want" by (simp add: principal_ok_def ssh_string_def be_value_bytes)
qed

lemma fixed_lengths [simp]: "be_value (be_bytes 4 11) = 11" "be_value (be_bytes 4 64) = 64"
  by (rule be_value_bytes; simp)+

lemma length_ed25519: "length ''ssh-ed25519'' = 11"
  by simp

lemma signature_iff:
  "length sig = 4 + 11 + 4 + 64 \<and> be_value (take 4 sig) = 11 \<and> take 11 (drop 4 sig) = ''ssh-ed25519''
     \<and> be_value (take 4 (drop 15 sig)) = 64
   \<longleftrightarrow> (\<exists>sg. length sg = 64 \<and> sig = cert_signature sg)"
proof
  assume a: "length sig = 4 + 11 + 4 + 64 \<and> be_value (take 4 sig) = 11 \<and> take 11 (drop 4 sig) = ''ssh-ed25519''
     \<and> be_value (take 4 (drop 15 sig)) = 64"
  have l: "length (take 4 sig) = 4" "length (take 4 (drop 15 sig)) = 4" using a by simp_all
  have b: "take 4 sig = be_bytes 4 11" "take 4 (drop 15 sig) = be_bytes 4 64"
    using be_bytes_value [of "take 4 sig"] be_bytes_value [of "take 4 (drop 15 sig)"] a unfolding l by metis+
  have "sig = take 4 sig @ take 11 (drop 4 sig) @ take 4 (drop 15 sig) @ drop 19 sig"
    using append_take_drop_id [of 4 sig] append_take_drop_id [of 11 "drop 4 sig"] append_take_drop_id [of 4 "drop 15 sig"]
    by simp
  then have "sig = be_bytes 4 11 @ ''ssh-ed25519'' @ be_bytes 4 64 @ drop 19 sig" using a b by metis
  moreover have d: "length (drop 19 sig) = 64" using a by simp
  moreover have "length ''ssh-ed25519'' = 11" by simp
  ultimately have "sig = cert_signature (drop 19 sig)"
    unfolding cert_signature_def ssh_string_def by (metis append.assoc)
  then show "\<exists>sg. length sg = 64 \<and> sig = cert_signature sg" using d by blast
next
  assume "\<exists>sg. length sg = 64 \<and> sig = cert_signature sg"
  then obtain sg where "length sg = 64" "sig = be_bytes 4 11 @ ''ssh-ed25519'' @ be_bytes 4 64 @ sg"
    by (metis append.assoc cert_signature_def length_ed25519 ssh_string_def)
  then show "length sig = 4 + 11 + 4 + 64 \<and> be_value (take 4 sig) = 11 \<and> take 11 (drop 4 sig) = ''ssh-ed25519''
     \<and> be_value (take 4 (drop 15 sig)) = 64"
    by (simp add: fixed_lengths)
qed

lemma also_then_require: "also_then (require c e) k = Inr y \<longleftrightarrow> c \<and> k () = Inr y"
  by (simp add: also_then_def require_def)

lemma also_then_read: "also_then (some_or e x) (\<lambda>(a, b). k a b) = Inr y \<longleftrightarrow> (\<exists>a b. x = Some (a, b) \<and> k a b = Inr y)"
  by (auto simp: also_then_def some_or_def split: option.split)

lemma also_then_check:
  "also_then (check_extensions a e) k = Inr y \<longleftrightarrow> (\<exists>m. check_extensions a e = Inr m \<and> k m = Inr y)"
  by simp

lemma also_then_wrap:
  "also_then (case m of Inl e \<Rightarrow> Inl (f e) | Inr x \<Rightarrow> Inr x) k = Inr y \<longleftrightarrow> (\<exists>x. m = Inr x \<and> k x = Inr y)"
  by (cases m) (auto simp: also_then_def)

lemma check_extensions_iff:
  "list_all (\<lambda>n. length n < 2 ^ 32) allowed \<Longrightarrow>
   check_extensions allowed ext = Inr [] \<longleftrightarrow> (\<exists>names. ext = concat (map ext_entry names) \<and> mset names = mset allowed)"
proof
  assume "check_extensions allowed ext = Inr []"
  from check_extensions_Inr [OF this] show "\<exists>names. ext = concat (map ext_entry names) \<and> mset names = mset allowed"
    by (metis add.right_neutral mset.simps(1))
next
  assume a: "list_all (\<lambda>n. length n < 2 ^ 32) allowed"
    and "\<exists>names. ext = concat (map ext_entry names) \<and> mset names = mset allowed"
  then obtain names where n: "ext = concat (map ext_entry names)" "mset names = mset allowed" by blast
  have "list_all (\<lambda>n. length n < 2 ^ 32) names"
    using a mset_eq_setD [OF n(2)] by (simp add: list_all_iff)
  then show "check_extensions allowed ext = Inr []" using check_extensions_complete n by metis
qed

lemma allowed_extensions_short: "list_all (\<lambda>n. length n < 2 ^ 32) (allowed_extensions r)"
  by (simp add: allowed_extensions_def)

lemma principal_ok_short:
  "length p < 2 ^ 32 \<Longrightarrow> principal_ok p want \<longleftrightarrow> p = ssh_string want"
proof
  assume l: "length p < 2 ^ 32" and "principal_ok p want"
  then have "length want < 2 ^ 32" by (auto simp: principal_ok_def)
  then show "p = ssh_string want" using \<open>principal_ok p want\<close> principal_ok_iff by blast
next
  assume "length p < 2 ^ 32" and "p = ssh_string want"
  then show "principal_ok p want" using principal_ok_iff [of want p] by simp
qed

lemmas cert_reads =
  also_then_require also_then_read also_then_check also_then_wrap require_Inr read_string_iff read_number_iff

lemma cert_number_bounds: "unat (sr_serial r) < 256 ^ 8" "(1 :: nat) < 256 ^ 4" "unix_seconds t < 256 ^ 8"
proof -
  have "unat (sr_serial r) < 2 ^ 64" by (rule order_less_le_trans [OF unsigned_less]) simp
  then show "unat (sr_serial r) < 256 ^ 8" by simp
  show "unix_seconds t < 256 ^ 8" unfolding unix_seconds_def by (simp add: nat_less_iff)
qed simp

lemma verify_blob_sound:
  assumes "verify_blob env vf ca_pub r b = Inr ()"
  shows "\<exists>nonce key names ca sg. b = cert_blob nonce key r names ca sg \<and> length key = 32
    \<and> public_fingerprint env (sr_public_key r) = Inr (key_fingerprint env (ed25519_wire key))
    \<and> mset names = mset (allowed_extensions r) \<and> length (string_fields ca_pub) = 2
    \<and> std_decode (string_fields ca_pub ! 1) = Some ca \<and> length ca = 51 \<and> length sg = 64
    \<and> vf (drop 19 ca) (cert_signed nonce key r names ca) sg"
proof -
  obtain kind b1 nonce b2 key b3 fp sn b4 ty b5 ki b6 prin b7 va b8 vb b9 cr b10 exts b11 ms rs b12 ca b13 sig b14
    where raw: "b = ssh_string kind @ b1" "kind = cert_type" "b1 = ssh_string nonce @ b2" "b2 = ssh_string key @ b3"
      "length key = 32"
      "public_fingerprint env (sr_public_key r) = Inr fp"
      "fp = key_fingerprint env (ed25519_wire key)"
      "b3 = be_bytes 8 sn @ b4" "sn = unat (sr_serial r)" "b4 = be_bytes 4 ty @ b5" "ty = 1" "b5 = ssh_string ki @ b6"
      "ki = sr_key_id r" "b6 = ssh_string prin @ b7" "length prin < 2 ^ 32" "principal_ok prin (sr_principal r)"
      "b7 = be_bytes 8 va @ b8" "va = unix_seconds (sr_valid_after r)" "b8 = be_bytes 8 vb @ b9"
      "vb = unix_seconds (sr_valid_before r)" "b9 = ssh_string cr @ b10" "cr = expected_critical r"
      "b10 = ssh_string exts @ b11" "check_extensions (allowed_extensions r) exts = Inr ms" "ms = []"
      "b11 = ssh_string rs @ b12" "rs = []" "b12 = ssh_string ca @ b13" "length (string_fields ca_pub) = 2"
      "std_decode (string_fields ca_pub ! 1) = Some ca" "b13 = ssh_string sig @ b14"
      "b14 = []" "length sig = 4 + 11 + 4 + 64" "be_value (take 4 sig) = 11" "take 11 (drop 4 sig) = ''ssh-ed25519''"
      "be_value (take 4 (drop 15 sig)) = 64" "length ca = 51"
      "vf (drop 19 ca) (take (length b - length b13) b) (drop 19 sig)"
    using assms unfolding verify_blob_def cert_reads
    by (elim exE conjE) (rule that, assumption+)
  have "public_fingerprint env (sr_public_key r) = Inr (key_fingerprint env (ed25519_wire key))"
    using raw(6,7) by simp
  moreover have "prin = ssh_string (sr_principal r)" using raw(15,16) principal_ok_short by blast
  moreover obtain names where "exts = concat (map ext_entry names)" "mset names = mset (allowed_extensions r)"
    using raw(24,25) check_extensions_iff [OF allowed_extensions_short] by blast
  moreover obtain sg where "length sg = 64" "sig = cert_signature sg"
    using raw(33-36) signature_iff by blast
  moreover have b: "b = cert_signed nonce key r names ca @ b13"
    using raw calculation by (simp add: cert_signed_def)
  ultimately have "b = cert_blob nonce key r names ca sg"
    using raw(31,32) by (simp add: cert_blob_def)
  moreover have "take (length b - length b13) b = cert_signed nonce key r names ca" using b by simp
  moreover have "drop 19 sig = sg" using \<open>sig = cert_signature sg\<close> by (simp add: cert_signature_def ssh_string_def)
  ultimately show ?thesis
    using raw \<open>length sg = 64\<close> \<open>mset names = mset (allowed_extensions r)\<close>
      \<open>public_fingerprint env (sr_public_key r) = Inr (key_fingerprint env (ed25519_wire key))\<close> by metis
qed

lemma also_then_read_string:
  "length v < 2 ^ 32 \<Longrightarrow> also_then (some_or e (read_string (ssh_string v @ r))) k = k (v, r)"
  using read_string_iff [of "ssh_string v @ r" v r] by (simp add: also_then_def some_or_def)

lemma also_then_read_number: "v < 256 ^ n \<Longrightarrow> also_then (some_or e (read_number n (be_bytes n v @ r))) k = k (v, r)"
  using read_number_iff [of n "be_bytes n v @ r" v r] by (simp add: also_then_def some_or_def)

lemma also_then_true: "c \<Longrightarrow> also_then (require c e) k = k ()"
  by (simp add: also_then_def require_def)

lemma verify_blob_complete:
  assumes l: "length (cert_blob nonce key r names ca sg) \<le> 8192" and k: "length key = 32"
    and p: "public_fingerprint env (sr_public_key r) = Inr (key_fingerprint env (ed25519_wire key))"
    and n: "mset names = mset (allowed_extensions r)" and c: "length (string_fields ca_pub) = 2"
      "std_decode (string_fields ca_pub ! 1) = Some ca" "length ca = 51" "length sg = 64"
    and v: "vf (drop 19 ca) (cert_signed nonce key r names ca) sg"
  shows "verify_blob env vf ca_pub r (cert_blob nonce key r names ca sg) = Inr ()"
proof -
  let ?b = "cert_blob nonce key r names ca sg" and ?exts = "concat (map ext_entry names)"
  have s: "length nonce < 2 ^ 32" "length key < 2 ^ 32" "length (sr_key_id r) < 2 ^ 32" "length (ssh_string (sr_principal r)) < 2 ^ 32"
    "length (expected_critical r) < 2 ^ 32" "length ?exts < 2 ^ 32" "length ca < 2 ^ 32" "length cert_type < 2 ^ 32"
    "length ([] :: string) < 2 ^ 32" "length (cert_signature sg) < 2 ^ 32"
    using l k c unfolding cert_blob_def cert_signed_def by (simp_all add: cert_type_def cert_signature_def)
  have sig: "length (cert_signature sg) = 4 + 11 + 4 + 64 \<and> be_value (take 4 (cert_signature sg)) = 11
      \<and> take 11 (drop 4 (cert_signature sg)) = ''ssh-ed25519'' \<and> be_value (take 4 (drop 15 (cert_signature sg))) = 64"
    using signature_iff c by blast
  have d: "drop 19 (cert_signature sg) = sg" by (simp add: cert_signature_def ssh_string_def)
  have pr: "principal_ok (ssh_string (sr_principal r)) (sr_principal r)" using s(4) principal_ok_short by blast
  have ex: "check_extensions (allowed_extensions r) ?exts = Inr []"
    using n check_extensions_iff [OF allowed_extensions_short] by blast
  have b: "?b = ssh_string cert_type @ ssh_string nonce @ ssh_string key @ be_bytes 8 (unat (sr_serial r)) @ be_bytes 4 1
     @ ssh_string (sr_key_id r) @ ssh_string (ssh_string (sr_principal r))
     @ be_bytes 8 (unix_seconds (sr_valid_after r)) @ be_bytes 8 (unix_seconds (sr_valid_before r))
     @ ssh_string (expected_critical r) @ ssh_string ?exts @ ssh_string []
     @ ssh_string ca @ ssh_string (cert_signature sg) @ []"
    by (simp add: cert_blob_def cert_signed_def)
  have t: "take (length ?b - length (ssh_string (cert_signature sg) @ [])) ?b = cert_signed nonce key r names ca"
    by (simp add: cert_blob_def)
  have fin: "require (length ca = 51 \<and> vf (drop 19 ca) (take (length ?b - length (ssh_string (cert_signature sg) @ [])) ?b)
      (drop 19 (cert_signature sg))) CertSignatureRejected = Inr ()"
    using t d v c by (simp add: require_def)
  have step: "also_then (Inr x) f = f x" for x :: 'x and f :: "'x \<Rightarrow> cert_error + unit" by (simp add: also_then_def)
  show ?thesis
    unfolding verify_blob_def
    apply (subst (1) b)
    using s sig pr ex fin k c
    by (simp only: also_then_read_string also_then_read_number cert_number_bounds also_then_true prod.case p sum.case
        step refl simp_thms)
qed

text \<open>
  (C16) What \<open>verifyCertificate\<close> accepts is exactly one certificate layout. A certificate passes when, and only
  when, its second word decodes to at most 8192 bytes that are: the type, any nonce, a 32-byte key with the fingerprint
  of the requested key, the requested serial, the user type, the requested key id, the one requested principal, the
  two requested times, the critical options of the request (the forced command, or none), the extensions of the request
  in some order, an empty reserved field, the CA key that the CA line encodes, and a 64-byte Ed25519 signature that
  verifies over all of it. So no field can be altered, added, or left out.
\<close>

theorem certificate_accepted_iff:
  "verify_certificate env vf cert ca_pub r = Inr () \<longleftrightarrow>
     (\<exists>body rest nonce key names ca sg. string_fields cert = cert_type # body # rest
        \<and> std_decode body = Some (cert_blob nonce key r names ca sg)
        \<and> length (cert_blob nonce key r names ca sg) \<le> 8192 \<and> length key = 32
        \<and> public_fingerprint env (sr_public_key r) = Inr (key_fingerprint env (ed25519_wire key))
        \<and> mset names = mset (allowed_extensions r) \<and> length (string_fields ca_pub) = 2
        \<and> std_decode (string_fields ca_pub ! 1) = Some ca \<and> length ca = 51 \<and> length sg = 64
        \<and> vf (drop 19 ca) (cert_signed nonce key r names ca) sg)" (is "?l \<longleftrightarrow> ?r")
proof
  assume ?l
  then obtain body rest b where "string_fields cert = cert_type # body # rest" "std_decode body = Some b" "length b \<le> 8192"
    "verify_blob env vf ca_pub r b = Inr ()"
    by (auto simp: verify_certificate_def split: list.splits if_splits option.splits)
  with verify_blob_sound show ?r by metis
next
  assume ?r
  then show ?l
    by (elim exE conjE) (simp add: verify_certificate_def verify_blob_complete)
qed

end
