(* ===== verification/SshSigner.thy ===== *)
theory SshSigner
  imports SshCert
begin

text \<open>
  Package \<open>internal/sshaccess\<close>, signing (\<open>signer.go\<close>): the call of \<open>ssh-keygen\<close> and the bootstrap
  bundle for a host.

  The \<open>ssh-keygen\<close> process is a parameter: from the key file, the arguments and the environment it
  is given, whether it succeeds and what certificate file it leaves. The order of a Go map is
  the order of the list that stands for it, so what is shown holds for every order.
\<close>

subsection \<open>The native signer\<close>

datatype sign_error =
    SignKey ssh_error | CaModeRequired | CaUnreadable | CaMalformed ssh_error | CaNotPinned | NoTemporaryDir | NoTemporaryFile
  | DevCaPrivate | AgentTakesNoSecret | InvalidForced | AgentSocketRequired | RunFailed | NoCertificate
  | NotVerified cert_error

record signer_io =
  so_uid :: nat
  so_public :: "string option"
  so_tmp :: "string option"
  so_write :: bool
  so_secret :: "unit private_file"
  so_opens :: bool
  so_environ :: "string list"
  so_keygen :: "string \<Rightarrow> string list \<Rightarrow> string list \<Rightarrow> string option option"

definition stamp_text :: "time \<Rightarrow> string" where
  "stamp_text t =
     (let s = t div second; r = s mod 86400
      in (case civil_of_days (s div 86400) of
           (y, m, d) \<Rightarrow> year_text y @ pad_dec 2 (nat m) @ pad_dec 2 (nat d)
             @ pad_dec 2 (nat (r div 3600)) @ pad_dec 2 (nat (r div 60 mod 60)) @ pad_dec 2 (nat (r mod 60))))"

definition option_arg :: "bool \<Rightarrow> string \<Rightarrow> string list" where
  "option_arg b v = (if b then [''-O'', v] else [])"

definition sign_args :: "ca \<Rightarrow> sign_request \<Rightarrow> string \<Rightarrow> string list" where
  "sign_args c r p =
     (if ca_mode c = ''dev'' then [] else [''-U''])
     @ [''-s'', if ca_mode c = ''dev'' then ca_secret_ref c else ca_public_key_file c, ''-I'', sr_key_id r,
        ''-z'', dec_nat (unat (sr_serial r)), ''-n'', sr_principal r,
        ''-V'', stamp_text (sr_valid_after r) @ '':'' @ stamp_text (sr_valid_before r), ''-O'', ''clear'']
     @ option_arg (sr_force_command r \<noteq> []) (''force-command='' @ sr_force_command r)
     @ option_arg (sr_pty r) ''permit-pty''
     @ option_arg (sr_port_forwarding r) ''permit-port-forwarding''
     @ option_arg (sr_agent_forwarding r) ''permit-agent-forwarding''
     @ option_arg (sr_x11 r) ''permit-X11-forwarding'' @ [p]"

definition kept_variable :: "string \<Rightarrow> bool" where
  "kept_variable v \<longleftrightarrow> \<not> has_prefix v ''SSH_AUTH_SOCK='' \<and> \<not> has_prefix v ''SSH_AGENT_PID='' \<and> \<not> has_prefix v ''TZ=''"

definition sign_environ :: "ca \<Rightarrow> string list \<Rightarrow> string list" where
  "sign_environ c environ =
     filter kept_variable environ @ [''TZ=UTC'']
     @ (if ca_mode c = ''agent'' then [''SSH_AUTH_SOCK='' @ ca_agent_socket c] else [])"

text \<open>The directory of a path joined with a plain name: \<open>filepath.Join\<close>.\<close>

definition path_join :: "string \<Rightarrow> string \<Rightarrow> string" where
  "path_join dir name = (if dir = [] then path_clean name else path_clean (dir @ ''/'' @ name))"

definition ca_key_checked :: "ssh_env \<Rightarrow> ca \<Rightarrow> string option \<Rightarrow> sign_error + string" where
  "ca_key_checked env c public =
     (case public of
        None \<Rightarrow> Inl CaUnreadable
      | Some text \<Rightarrow>
          (case ca_public env text of
             Inl e \<Rightarrow> Inl (CaMalformed e)
           | Inr canonical \<Rightarrow>
               (case public_fingerprint env canonical of
                  Inl _ \<Rightarrow> Inl CaNotPinned
                | Inr fp \<Rightarrow>
                    if ca_fingerprint c \<noteq> [] \<and> ca_fingerprint c \<noteq> fp then Inl CaNotPinned else Inr canonical)))"

definition secret_checked :: "ca \<Rightarrow> signer_io \<Rightarrow> sign_error option" where
  "secret_checked c io =
     (if ca_mode c = ''dev'' then
        (if check_private (so_uid io) (so_opens io) (so_secret io) \<noteq> None then Some DevCaPrivate else None)
      else if ca_secret_ref c \<noteq> [] then Some AgentTakesNoSecret else None)"

text \<open>What is made of the result of the process and of the file it leaves.\<close>

definition keygen_result ::
    "ssh_env \<Rightarrow> ed25519_verify \<Rightarrow> string \<Rightarrow> sign_request \<Rightarrow> string option option \<Rightarrow> sign_error + string" where
  "keygen_result env vf canonical r outcome =
     (case outcome of
        None \<Rightarrow> Inl RunFailed
      | Some None \<Rightarrow> Inl NoCertificate
      | Some (Some b) \<Rightarrow>
          if \<not> has_prefix b (cert_type @ '' '') then Inl NoCertificate
          else (case verify_certificate env vf (trim_space b) canonical r of
                  Inl e \<Rightarrow> Inl (NotVerified e)
                | Inr _ \<Rightarrow> Inr (trim_space b)))"

definition native_sign :: "ssh_env \<Rightarrow> ed25519_verify \<Rightarrow> ca \<Rightarrow> signer_io \<Rightarrow> sign_request \<Rightarrow> sign_error + string" where
  "native_sign env vf c io r =
     (case public_fingerprint env (sr_public_key r) of
        Inl e \<Rightarrow> Inl (SignKey e)
      | Inr _ \<Rightarrow>
          if ca_mode c \<noteq> ''dev'' \<and> ca_mode c \<noteq> ''agent'' then Inl CaModeRequired
          else
            also_then (ca_key_checked env c (so_public io)) (\<lambda>canonical.
            also_then (some_or NoTemporaryDir (so_tmp io)) (\<lambda>dir.
            also_then (require (so_write io) NoTemporaryFile) (\<lambda>_.
            also_then (case secret_checked c io of Some e \<Rightarrow> Inl e | None \<Rightarrow> Inr ()) (\<lambda>_.
            also_then (require (sr_force_command r = [] \<or> \<not> (CHR 0x00 \<in> set (sr_force_command r) \<or> has_eol (sr_force_command r)))
                         InvalidForced) (\<lambda>_.
            also_then (require (ca_mode c \<noteq> ''agent'' \<or> ca_agent_socket c \<noteq> []) AgentSocketRequired) (\<lambda>_.
              keygen_result env vf canonical r
                (so_keygen io (sr_public_key r @ [CHR 0x0A]) (sign_args c r (path_join dir ''lease.pub''))
                  (sign_environ c (so_environ io))))))))))"

lemma ca_key_checked_Inr:
  "ca_key_checked env c public = Inr canonical \<longleftrightarrow>
     (\<exists>text fp. public = Some text \<and> ca_public env text = Inr canonical \<and> public_fingerprint env canonical = Inr fp
        \<and> (ca_fingerprint c = [] \<or> ca_fingerprint c = fp))"
  by (auto simp: ca_key_checked_def split: option.splits sum.splits)

lemma refused_Inr: "(case x of Some e \<Rightarrow> Inl e | None \<Rightarrow> Inr ()) = Inr u \<longleftrightarrow> x = None"
  by (cases x) auto

lemma sign_environ_sockets:
  "filter (\<lambda>v. has_prefix v ''SSH_AUTH_SOCK='') (sign_environ c environ)
     = (if ca_mode c = ''agent'' then [''SSH_AUTH_SOCK='' @ ca_agent_socket c] else [])"
proof -
  have "filter (\<lambda>v. has_prefix v ''SSH_AUTH_SOCK='') (filter kept_variable environ) = []"
    by (auto simp: kept_variable_def filter_empty_conv)
  then show ?thesis by (simp add: sign_environ_def)
qed

text \<open>
  (C17) What the native signer hands out. A certificate comes back only when \<open>ssh-keygen\<close> was run on the
  requested key with exactly the arguments of the request, its file passes the full check against
  the request and the CA key on disk, and that key is the pinned one when a pin is configured. In
  agent mode the process sees one agent socket, the dedicated one, and no private key path; in
  development mode it sees no agent socket and the CA key file was private.
\<close>

theorem native_certificate_checked:
  assumes "native_sign env vf c io r = Inr cert"
  shows "\<exists>pub canonical fp dir raw. so_public io = Some pub \<and> ca_public env pub = Inr canonical
    \<and> public_fingerprint env canonical = Inr fp \<and> (ca_fingerprint c = [] \<or> ca_fingerprint c = fp)
    \<and> so_tmp io = Some dir
    \<and> so_keygen io (sr_public_key r @ [CHR 0x0A]) (sign_args c r (path_join dir ''lease.pub'')) (sign_environ c (so_environ io))
        = Some (Some raw)
    \<and> cert = trim_space raw \<and> verify_certificate env vf cert canonical r = Inr ()
    \<and> (if ca_mode c = ''agent''
        then ca_secret_ref c = [] \<and> ca_agent_socket c \<noteq> []
          \<and> filter (\<lambda>v. has_prefix v ''SSH_AUTH_SOCK='') (sign_environ c (so_environ io))
              = [''SSH_AUTH_SOCK='' @ ca_agent_socket c]
        else ca_mode c = ''dev'' \<and> check_private (so_uid io) (so_opens io) (so_secret io) = None
          \<and> filter (\<lambda>v. has_prefix v ''SSH_AUTH_SOCK='') (sign_environ c (so_environ io)) = [])"
proof -
  let ?run = "\<lambda>dir. so_keygen io (sr_public_key r @ [CHR 0x0A]) (sign_args c r (path_join dir ''lease.pub''))
                  (sign_environ c (so_environ io))"
  obtain k where p: "public_fingerprint env (sr_public_key r) = Inr k"
    using assms by (auto simp: native_sign_def split: sum.splits)
  have m: "\<not> (ca_mode c \<noteq> ''dev'' \<and> ca_mode c \<noteq> ''agent'')"
    using assms p by (auto simp: native_sign_def split: if_splits)
  obtain canonical dir where k: "ca_key_checked env c (so_public io) = Inr canonical"
    "so_tmp io = Some dir" "secret_checked c io = None" "ca_mode c \<noteq> ''agent'' \<or> ca_agent_socket c \<noteq> []"
    and f: "keygen_result env vf canonical r (?run dir) = Inr cert"
    using assms unfolding native_sign_def p sum.case if_not_P [OF m] also_then_Inr some_or_Inr require_Inr refused_Inr
    by (elim exE conjE) (rule that, assumption+)
  obtain raw where r: "?run dir = Some (Some raw)"
    "cert = trim_space raw" "verify_certificate env vf cert canonical r = Inr ()"
    using f by (auto simp: keygen_result_def split: option.splits if_splits sum.splits)
  have s: "if ca_mode c = ''agent'' then ca_secret_ref c = [] else check_private (so_uid io) (so_opens io) (so_secret io) = None"
    using k(3) m by (auto simp: secret_checked_def split: if_splits)
  obtain pub fp where t: "so_public io = Some pub" "ca_public env pub = Inr canonical"
    "public_fingerprint env canonical = Inr fp" "ca_fingerprint c = [] \<or> ca_fingerprint c = fp"
    using k(1) unfolding ca_key_checked_Inr by blast
  show ?thesis
    by (rule exI [of _ pub], rule exI [of _ canonical], rule exI [of _ fp], rule exI [of _ dir], rule exI [of _ raw])
       (use k(2,4) r s t m in \<open>simp add: sign_environ_sockets, blast\<close>)
qed

subsection \<open>A sample certificate\<close>

definition sample_sign_request :: sign_request where
  "sample_sign_request = \<lparr>sr_public_key = sample_key, sr_lease_id = ''l'', sr_serial = 1, sr_principal = ''p'', sr_key_id = ''k'',
     sr_valid_after = 0, sr_valid_before = 300 * second, sr_force_command = [], sr_pty = False,
     sr_port_forwarding = False, sr_agent_forwarding = False, sr_x11 = False\<rparr>"

definition sample_blob :: string where
  "sample_blob = cert_blob [] (replicate 32 (CHR ''k'')) sample_sign_request [] sample_wire (replicate 64 (CHR ''s''))"

definition sample_cert :: string where
  "sample_cert = cert_type @ '' '' @ std_encode sample_blob"

definition sample_ca :: ca where
  "sample_ca = \<lparr>ca_mode = ''agent'', ca_public_key_file = ''/etc/ca.pub'', ca_secret_ref = [],
     ca_agent_socket = ''/run/ca.sock'', ca_fingerprint = sample_fp\<rparr>"

definition sample_signer :: signer_io where
  "sample_signer = \<lparr>so_uid = 1000, so_public = Some sample_key, so_tmp = Some ''/tmp/s'', so_write = True, so_secret = Absent,
     so_opens = True, so_environ = [''SSH_AUTH_SOCK=/run/user.sock''], so_keygen = (\<lambda>_ _ _. Some (Some sample_cert))\<rparr>"

lemma sample_wire_length: "length sample_wire = 51"
  by (simp add: sample_wire_def ed25519_wire_def)

lemma sample_blob_length: "length sample_blob \<le> 8192"
  by (simp add: sample_blob_def cert_blob_def cert_signed_def sample_sign_request_def cert_type_def expected_critical_def
      cert_signature_def sample_wire_length)

lemma sample_cert_parts: "std_encode sample_blob \<noteq> [] \<and> list_all visible (cert_type)"
proof -
  have "std_decode [] = Some []" by code_simp
  moreover have "sample_blob \<noteq> []" by (simp add: sample_blob_def cert_blob_def cert_signed_def cert_type_def ssh_string_def)
  ultimately have "std_encode sample_blob \<noteq> []" using std_decode_encode [of sample_blob] by (metis option.inject)
  then show ?thesis by (simp add: cert_type_def visible_def byte_def)
qed

lemma sample_verified: "verify_certificate ssh_sample_env (\<lambda>_ _ _. True) sample_cert sample_key sample_sign_request = Inr ()"
proof -
  have "string_fields sample_cert = [cert_type, std_encode sample_blob]"
    unfolding sample_cert_def using two_fields [OF _ std_encode_visible, of cert_type sample_blob] sample_cert_parts
    by (simp add: cert_type_def)
  moreover have "verify_blob ssh_sample_env (\<lambda>_ _ _. True) sample_key sample_sign_request sample_blob = Inr ()"
    unfolding sample_blob_def
    by (rule verify_blob_complete [OF sample_blob_length [unfolded sample_blob_def]])
       (simp_all add: sample_key_fields sample_wire_length sample_sign_request_def sample_fp_def sample_wire_def [symmetric] allowed_extensions_def)
  ultimately show ?thesis using sample_blob_length by (simp add: verify_certificate_def)
qed

lemma trim_two_words:
  assumes "list_all visible a" "a \<noteq> []" "list_all visible b" "b \<noteq> []"
  shows "trim_space (a @ '' '' @ b) = a @ '' '' @ b"
  using assms by (intro trim_space_visible) (auto simp: list_all_iff hd_append)

lemma sample_ca_key: "ca_public ssh_sample_env sample_key = Inr sample_key"
proof -
  have "trim_space sample_key = sample_key"
    using trim_two_words [OF _ _ std_encode_visible, of "''ssh-ed25519''" sample_wire]
    by (simp add: sample_key_def sample_key_text visible_def byte_def)
  moreover have "join_with '' '' [''ssh-ed25519'', std_encode sample_wire] = sample_key" by (simp add: sample_key_def)
  moreover have "length sample_key \<le> 4096" using sample_key_plain by simp
  ultimately show ?thesis using sample_key_plain by (simp add: ca_public_def sample_key_fields Let_def del: join_with.simps)
qed

lemma sample_native: "native_sign ssh_sample_env (\<lambda>_ _ _. True) sample_ca sample_signer sample_sign_request = Inr sample_cert"
proof -
  have t: "trim_space sample_cert = sample_cert"
    unfolding sample_cert_def
    by (rule trim_two_words [OF _ _ std_encode_visible]) (use sample_cert_parts in blast, simp add: cert_type_def, use sample_cert_parts in blast)
  have h: "has_prefix sample_cert (cert_type @ '' '')" by (simp add: sample_cert_def cert_type_def)
  have k: "ca_key_checked ssh_sample_env sample_ca (Some sample_key) = Inr sample_key"
    by (simp add: ca_key_checked_def sample_ca_key sample_ca_def)
  show ?thesis
    using t h k by (simp add: native_sign_def sample_sign_request_def [of] sample_signer_def secret_checked_def sample_ca_def
        keygen_result_def sample_verified [unfolded sample_sign_request_def])
qed

theorem native_certificate_checked_witness:
  "verify_certificate ssh_sample_env (\<lambda>_ _ _. True) sample_cert sample_key sample_sign_request = Inr ()
   \<and> filter (\<lambda>v. has_prefix v ''SSH_AUTH_SOCK='') (sign_environ sample_ca (so_environ sample_signer))
      = [''SSH_AUTH_SOCK=/run/ca.sock'']"
proof -
  obtain pub canonical where k: "so_public sample_signer = Some pub" "ca_public ssh_sample_env pub = Inr canonical"
    "verify_certificate ssh_sample_env (\<lambda>_ _ _. True) sample_cert canonical sample_sign_request = Inr ()"
    "filter (\<lambda>v. has_prefix v ''SSH_AUTH_SOCK='') (sign_environ sample_ca (so_environ sample_signer))
        = [''SSH_AUTH_SOCK='' @ ca_agent_socket sample_ca]"
    using native_certificate_checked [OF sample_native] by (auto simp: sample_ca_def)
  then show ?thesis by (simp add: sample_signer_def sample_ca_def sample_ca_key)
qed

subsection \<open>The bootstrap bundle\<close>

datatype bundle_error =
    BundleDenied | BundleCaUnavailable | BundleKey ssh_error | BundleDir ssh_error | NoHostRoles | SeparateUsers
  | FixtureOnlyDev | BundleForced | MixedBundle | BundlePolicy | BundleExists | BundleWrite ssh_error

definition match_block :: "string \<Rightarrow> string \<Rightarrow> string" where
  "match_block user force =
     ''Match User '' @ user @ ''\<newline>    PubkeyAuthentication yes\<newline>    AuthenticationMethods publickey\<newline>    AuthorizedKeysFile none\<newline>    AuthorizedKeysCommand none\<newline>    AuthorizedPrincipalsCommand none\<newline>    TrustedUserCAKeys /etc/ssh/21pins/ca.pub\<newline>    AuthorizedPrincipalsFile /etc/ssh/21pins/principals/%u\<newline>    ForceCommand ''
     @ force @ ''\<newline>    PasswordAuthentication no\<newline>    KbdInteractiveAuthentication no\<newline>    PermitTTY no\<newline>    DisableForwarding yes\<newline>    AllowAgentForwarding no\<newline>    AllowTcpForwarding no\<newline>    AllowStreamLocalForwarding no\<newline>    X11Forwarding no\<newline>    PermitTunnel no\<newline>    GatewayPorts no\<newline>    PermitUserRC no\<newline>    AcceptEnv 21PINS_UNUSED\<newline>''"

definition legacy_fragment :: string where
  "legacy_fragment = ''# Legacy development AUTHENTICATION ONLY; not command-authorized dogfood.\<newline>TrustedUserCAKeys /etc/ssh/21pins/ca.pub\<newline>AuthorizedPrincipalsFile /etc/ssh/21pins/principals/%u\<newline>''"

definition gated_fragment :: string where
  "gated_fragment = ''# Proposed only: append Match blocks at EOF; root-owned binary/policy/principals required.\<newline>''"

text \<open>What the loop over the roles has gathered.\<close>

record host_bundle =
  bu_accounts :: "string gomap"
  bu_gated :: bool
  bu_legacy :: bool
  bu_fragment :: string
  bu_roles :: "role_policy gomap"

definition add_role :: "ssh_env \<Rightarrow> ssh_config \<Rightarrow> string \<Rightarrow> string \<times> role \<Rightarrow> host_bundle \<Rightarrow> bundle_error + host_bundle" where
  "add_role env c h nr b =
     (case nr of (name, r) \<Rightarrow>
       (let prin = lease_principal (sc_workspace c) h name; user = ro_ssh_user r in
        (case ro_authority r of
           None \<Rightarrow> Inr (b\<lparr>bu_legacy := True,
                      bu_accounts := AList.update user (at_or [] (bu_accounts b) user @ prin @ [CHR 0x0A]) (bu_accounts b)\<rparr>)
         | Some au \<Rightarrow>
             if map_of (bu_accounts b) user \<noteq> None then Inl SeparateUsers
             else if au_fixture au \<and> ca_mode (sc_ca c) \<noteq> ''dev'' then Inl FixtureOnlyDev
             else (case forced_command (se_rules_hash env) au (sc_workspace c) h name user of
                     None \<Rightarrow> Inl BundleForced
                   | Some force \<Rightarrow>
                       Inr (b\<lparr>bu_gated := True,
                              bu_accounts := AList.update user (''command='' @ [dquote] @ force @ [dquote] @ '',restrict '' @ prin @ [CHR 0x0A]) (bu_accounts b),
                              bu_roles := AList.update name \<lparr>rp_user = user, rp_rules = au_rules au\<rparr> (bu_roles b),
                              bu_fragment := bu_fragment b @ match_block user force\<rparr>)))))"

fun add_roles :: "ssh_env \<Rightarrow> ssh_config \<Rightarrow> string \<Rightarrow> role gomap \<Rightarrow> host_bundle \<Rightarrow> bundle_error + host_bundle" where
  "add_roles env c h [] b = Inr b"
| "add_roles env c h (nr # rest) b = also_then (add_role env c h nr b) (add_roles env c h rest)"

definition empty_bundle :: host_bundle where
  "empty_bundle = \<lparr>bu_accounts = [], bu_gated = False, bu_legacy = False, bu_fragment = gated_fragment, bu_roles = []\<rparr>"

definition bundle_files ::
    "(command_policy \<Rightarrow> string) \<Rightarrow> string \<Rightarrow> string \<Rightarrow> string \<Rightarrow> host_bundle \<Rightarrow> bundle_error + string gomap" where
  "bundle_files policy_json workspace h key b =
     (if bu_gated b \<and> bu_legacy b then Inl MixedBundle
      else let policy = \<lparr>cp_workspace = workspace, cp_host = h, cp_roles = bu_roles b\<rparr> in
        if bu_gated b \<and> \<not> validate_policy policy then Inl BundlePolicy
        else Inr ([(''21pins-ca.pub'', key @ [CHR 0x0A])]
               @ (if bu_gated b then [(''commands.json'', policy_json policy @ [CHR 0x0A])] else [])
               @ [(''sshd_config.fragment'', if bu_gated b then bu_fragment b else legacy_fragment)]
               @ map (\<lambda>(user, v). (''principals-'' @ user, v)) (bu_accounts b)))"

text \<open>The output directory: a file for each name. \<open>lstats\<close> and \<open>writes\<close> by the number of the file.\<close>

type_synonym out_dir = "string \<Rightarrow> string private_file"

fun write_bundle ::
    "nat \<Rightarrow> (nat \<Rightarrow> bool) \<Rightarrow> (nat \<Rightarrow> bool) \<Rightarrow> nat \<Rightarrow> string gomap \<Rightarrow> out_dir \<Rightarrow> bundle_error option \<times> out_dir" where
  "write_bundle uid lstats writes k [] fs = (None, fs)"
| "write_bundle uid lstats writes k ((name, data) # rest) fs =
     (if lstats k \<and> fs name \<noteq> Absent then (Some BundleExists, fs)
      else case atomic_private uid (lstats k) (writes k) (length data) data (fs name) of
        (Some e, _) \<Rightarrow> (Some (BundleWrite e), fs)
      | (None, f) \<Rightarrow> write_bundle uid lstats writes (Suc k) rest (fs(name := f)))"

definition bootstrap_bundle ::
    "ssh_env \<Rightarrow> (command_policy \<Rightarrow> string) \<Rightarrow> ssh_config \<Rightarrow> string \<Rightarrow> string option \<Rightarrow> ssh_error option \<Rightarrow> nat
     \<Rightarrow> (nat \<Rightarrow> bool) \<Rightarrow> (nat \<Rightarrow> bool) \<Rightarrow> out_dir \<Rightarrow> bundle_error option \<times> out_dir" where
  "bootstrap_bundle env policy_json c h public dir uid lstats writes fs =
     (case (case map_of (sc_hosts c) h of
              None \<Rightarrow> Inl BundleDenied
            | Some v \<Rightarrow>
                also_then (some_or BundleCaUnavailable public) (\<lambda>pub.
                also_then (case ca_public env pub of Inl e \<Rightarrow> Inl (BundleKey e) | Inr key \<Rightarrow> Inr key) (\<lambda>key.
                also_then (case dir of Some e \<Rightarrow> Inl (BundleDir e) | None \<Rightarrow> Inr ()) (\<lambda>_.
                also_then (require (ho_roles v \<noteq> []) NoHostRoles) (\<lambda>_.
                also_then (add_roles env c h (ho_roles v) empty_bundle) (\<lambda>b.
                bundle_files policy_json (sc_workspace c) h key b)))))) of
        Inl e \<Rightarrow> (Some e, fs)
      | Inr files \<Rightarrow> write_bundle uid lstats writes 0 files fs)"

lemma write_bundle_keeps: "fs name = Absent \<or> snd (write_bundle uid lstats writes k files fs) name = fs name"
proof (induction uid lstats writes k files fs rule: write_bundle.induct)
  case (2 uid lstats writes k name' data rest fs)
  show ?case
  proof (cases "lstats k \<and> fs name' \<noteq> Absent")
    case False
    obtain e f where a: "atomic_private uid (lstats k) (writes k) (length data) data (fs name') = (e, f)" by fastforce
    show ?thesis
    proof (cases e)
      case None
      then have "lstats k" using a by (auto simp: atomic_private_def split: if_splits)
      then have "fs name' = Absent" using False by blast
      then show ?thesis using "2.IH" [OF False _ refl] a None False by (auto simp: fun_upd_def split: if_splits)
    qed (use False a in simp)
  qed simp
qed simp

text \<open>
  A bootstrap bundle never replaces anything: whatever the configuration, the host, the state of the
  directory and the outcome of each write, a name that existed in the output directory holds
  afterwards what it held before, also when the command fails half-way.
\<close>

theorem bootstrap_never_overwrites:
  "fs name = Absent
   \<or> snd (bootstrap_bundle env policy_json c h public dir uid lstats writes fs) name = fs name"
  using write_bundle_keeps by (auto simp: bootstrap_bundle_def split: sum.split)

end
