(* ===== verification/GatewaySsh.thy ===== *)
theory GatewaySsh
  imports GatewayProps SshSigner
begin

text \<open>
  Package \<open>internal/gateway\<close>, the SSH routes (\<open>ssh.go\<close>): authentication by the separate SSH token check,
  the service loaded from disk with the native signer, and one operation of the lease service
  for each route.

  \<open>ssh_world\<close> adds to the world of a request what the lease service meets: what each \<open>Load\<close> finds, the
  signer's process, the clock and the file system of each operation, the token store as it is at
  each later authorization. JSON decoding and encoding are parameters.
\<close>

subsection \<open>The world of the SSH routes\<close>

datatype ssh_value =
    LeaseValue lease
  | LeasesValue "lease list"
  | OpenedValue lease string issuance
  | IssuedValue issue_result

record ssh_world =
  xw_env :: ssh_env
  xw_verify :: ed25519_verify
  xw_uid :: nat
  xw_load :: "nat \<Rightarrow> load_input"
  xw_signer :: signer_io
  xw_clock :: "nat \<Rightarrow> nat \<Rightarrow> time"
  xw_rnd :: string
  xw_io :: "nat \<Rightarrow> lease_io"
  xw_store :: "nat \<Rightarrow> store"
  xw_store_io :: "nat \<Rightarrow> io"
  xw_objective :: "string \<Rightarrow> string"
  xw_open :: "string \<Rightarrow> open_request option"
  xw_key :: "string \<Rightarrow> string option"
  xw_reason :: "string \<Rightarrow> string option"
  xw_json :: "ssh_value \<Rightarrow> string"

subsection \<open>Decoding and authentication\<close>

text \<open>One JSON value of the type, no unknown field, nothing after it, within 4096 bytes.\<close>

definition ssh_decode :: "(string \<Rightarrow> 'v option) \<Rightarrow> request \<Rightarrow> 'v option" where
  "ssh_decode dec r = (if rq_body_err r \<or> length (rq_body r) > 4096 then None else dec (rq_body r))"

definition ssh_scope :: "request \<Rightarrow> string" where
  "ssh_scope r = (if has_suffix (rq_path r) ''/approve'' \<or> has_suffix (rq_path r) ''/revoke'' then ''ssh:approve'' else ''ssh:use'')"

definition ssh_authenticate :: "'f world \<Rightarrow> request \<Rightarrow> store \<Rightarrow> (token_record \<times> string) option \<times> store" where
  "ssh_authenticate w r s =
     (let raw = bearer_token (rq_header r ''Authorization'') in
      case validate_ssh_token (w_sha w) (w_io w 0) raw (ssh_scope r) s of
        (t, s1) \<Rightarrow>
          if rq_method r = ''GET'' then
            (case validate_ssh_token (w_sha w) (w_io w 1) raw ''ssh:approve'' s1 of
               (Some reviewer, s2) \<Rightarrow> (Some (reviewer, ''ssh:approve''), s2)
             | (None, s2) \<Rightarrow> (map_option (\<lambda>t. (t, ssh_scope r)) t, s2))
          else (map_option (\<lambda>t. (t, ssh_scope r)) t, s1))"

definition ssh_actor :: "token_record \<Rightarrow> string \<Rightarrow> actor" where
  "ssh_actor t scope = \<lparr>ac_id = t_hash t, ac_name = t_name t, ac_can_approve = (scope = ''ssh:approve'')\<rparr>"

text \<open>The callback: the token is checked again, against the store of that moment.\<close>

definition ssh_authorize :: "'f world \<Rightarrow> ssh_world \<Rightarrow> request \<Rightarrow> string \<Rightarrow> nat \<Rightarrow> actor \<Rightarrow> bool" where
  "ssh_authorize w x r scope k a =
     (case fst (validate_ssh_token (w_sha w) (xw_store_io x k) (bearer_token (rq_header r ''Authorization'')) scope (xw_store x k)) of
        None \<Rightarrow> False
      | Some t \<Rightarrow> t_hash t = ac_id a \<and> t_name t = ac_name a)"

definition ssh_service :: "'f world \<Rightarrow> ssh_world \<Rightarrow> request \<Rightarrow> string \<Rightarrow> ssh_config \<Rightarrow> service" where
  "ssh_service w x r scope c =
     \<lparr>sv_config = c,
      sv_signer = Some (\<lambda>q. case native_sign (xw_env x) (xw_verify x) (sc_ca c) (xw_signer x) q of Inl _ \<Rightarrow> None | Inr cert \<Rightarrow> Some cert),
      sv_authorize = Some (ssh_authorize w x r scope),
      sv_live = Some (\<lambda>k. load_service (xw_env x) (xw_uid x) (xw_load x (Suc k)))\<rparr>"

subsection \<open>Routes\<close>

datatype ssh_route =
    RouteList | RouteOpen | RouteNotAllowed | RouteGet string | RouteAct string string | RouteUnknown

definition ssh_route_of :: "request \<Rightarrow> ssh_route" where
  "ssh_route_of r =
     (if rq_path r = ''/v1/ssh/leases'' then
        (if rq_method r = ''GET'' then RouteList else if rq_method r = ''POST'' then RouteOpen else RouteNotAllowed)
      else case split_on (CHR ''/'') (trim_prefix (rq_path r) ''/v1/ssh/leases'') of
        [a, i] \<Rightarrow> if a = [] \<and> i \<noteq> [] \<and> rq_method r = ''GET'' then RouteGet i else RouteUnknown
      | [a, i, act] \<Rightarrow> if a = [] \<and> i \<noteq> [] \<and> rq_method r = ''POST'' then RouteAct i act else RouteUnknown
      | _ \<Rightarrow> RouteUnknown)"

text \<open>What a route yields: a reply of its own, a rejection, or a value with its status code.\<close>

datatype ssh_outcome = OutReply nat string | OutRejected | OutValue nat ssh_value

definition value_of :: "('v \<Rightarrow> ssh_value) \<Rightarrow> (ssh_error + 'v) \<times> lease_file \<Rightarrow> ssh_outcome \<times> lease_file" where
  "value_of mk p = (case p of (Inl _, f) \<Rightarrow> (OutRejected, f) | (Inr v, f) \<Rightarrow> (OutValue 200 (mk v), f))"

definition ssh_open :: "ssh_world \<Rightarrow> service \<Rightarrow> actor \<Rightarrow> request \<Rightarrow> lease_file \<Rightarrow> ssh_outcome \<times> lease_file" where
  "ssh_open x s a r f =
     (case ssh_decode (xw_open x) r of
        None \<Rightarrow> (OutRejected, f)
      | Some q \<Rightarrow>
          (case open_lease (xw_env x) s (xw_clock x 0) (xw_rnd x) a q (xw_io x 0) f of
             (Inl _, f1) \<Rightarrow> (OutRejected, f1)
           | (Inr l, f1) \<Rightarrow>
               if le_status l = Active then
                 (case issue_certificate (xw_env x) s (xw_clock x 1) a (le_id l) (oq_public_key q) (xw_io x 1) f1 of
                    (Inl _, f2) \<Rightarrow> (OutRejected, f2)
                  | (Inr i, f2) \<Rightarrow> (OutValue 201 (OpenedValue l (ir_certificate i) (ir_issuance i)), f2))
               else (OutValue 201 (LeaseValue l), f1)))"

definition ssh_act ::
    "ssh_world \<Rightarrow> service \<Rightarrow> actor \<Rightarrow> request \<Rightarrow> string \<Rightarrow> string \<Rightarrow> lease_file \<Rightarrow> ssh_outcome \<times> lease_file" where
  "ssh_act x s a r i act f =
     (if act = ''certificate'' then
        (case ssh_decode (xw_key x) r of
           None \<Rightarrow> (OutRejected, f)
         | Some pub \<Rightarrow> value_of IssuedValue (issue_certificate (xw_env x) s (xw_clock x 0) a i pub (xw_io x 0) f))
      else case ssh_decode (xw_reason x) r of
        None \<Rightarrow> (OutRejected, f)
      | Some reason \<Rightarrow>
          let close = (\<lambda>st why. value_of LeaseValue (close_lease (xw_clock x 0) a i st why (xw_io x 0) f)) in
          if act = ''approve'' then value_of LeaseValue (approve_lease (xw_env x) s (xw_clock x 0) a i (xw_io x 0) f)
          else if act = ''complete'' then close Completed ''complete''
          else if act = ''cancel'' then close Cancelled (if reason = [] then ''cancelled'' else reason)
          else if act = ''revoke'' then close Revoked ''revoked''
          else (OutReply 404 ''unknown SSH action'', f))"

definition ssh_dispatch :: "ssh_world \<Rightarrow> service \<Rightarrow> actor \<Rightarrow> request \<Rightarrow> lease_file \<Rightarrow> ssh_outcome \<times> lease_file" where
  "ssh_dispatch x s a r f =
     (case ssh_route_of r of
        RouteList \<Rightarrow> value_of LeasesValue (list_leases (xw_clock x 0) a (xw_objective x (rq_query r)) (xw_io x 0) f)
      | RouteOpen \<Rightarrow> ssh_open x s a r f
      | RouteNotAllowed \<Rightarrow> (OutReply 405 ''method not allowed'', f)
      | RouteGet i \<Rightarrow> value_of LeaseValue (get_lease (xw_clock x 0) a i (xw_io x 0) f)
      | RouteAct i act \<Rightarrow> ssh_act x s a r i act f
      | RouteUnknown \<Rightarrow> (OutReply 404 ''unknown SSH route'', f))"

definition ssh_reply :: "ssh_world \<Rightarrow> ssh_outcome \<Rightarrow> reply" where
  "ssh_reply x out =
     (case out of
        OutReply code msg \<Rightarrow> ErrorReply code msg
      | OutRejected \<Rightarrow> ErrorReply 403 ''SSH request rejected''
      | OutValue code v \<Rightarrow> JsonReply code (xw_json x v))"

definition handle_ssh ::
    "'f world \<Rightarrow> ssh_world \<Rightarrow> config \<Rightarrow> request \<Rightarrow> store \<Rightarrow> lease_file \<Rightarrow> reply \<times> store \<times> lease_file" where
  "handle_ssh w x cfg r s f =
     (if c_ssh_dir cfg = [] then (ErrorReply 404 ''SSH disabled'', s, f)
      else if \<not> is_loopback_request w r \<or> rq_header r ''Origin'' \<noteq> [] then
        (ErrorReply 403 ''local non-browser SSH API only'', s, f)
      else case ssh_authenticate w r s of
        (None, s1) \<Rightarrow> (ErrorReply 401 ''SSH authentication required'', s1, f)
      | (Some (t, scope), s1) \<Rightarrow>
          (case load_service (xw_env x) (xw_uid x) (xw_load x 0) of
             Inl _ \<Rightarrow> (ErrorReply 503 ''SSH configuration unavailable'', s1, f)
           | Inr c \<Rightarrow>
               (case ssh_dispatch x (ssh_service w x r scope c) (ssh_actor t scope) r f of
                  (out, f1) \<Rightarrow> (ssh_reply x out, s1, f1))))"

subsection \<open>Lemmas\<close>

lemma validate_ssh_Some:
  assumes "validate_ssh_token sha io raw scope s = (Some t, s1)"
  shows "t \<in> set (tokens (mem s1)) \<and> t_hash t = token_hash sha raw \<and> t_hash t \<noteq> [] \<and> t_revoked_at t = []
    \<and> scope \<in> set (t_scopes t) \<and> (scope = ''ssh:use'' \<or> scope = ''ssh:approve'')"
  using assms
  by (auto simp: validate_ssh_token_def Let_def live_token_def find_Some_iff split: if_splits sum.splits prod.splits option.splits)

fun cmd_actor :: "lease_cmd \<Rightarrow> actor" where
  "cmd_actor (CmdOpen s clock rnd a q) = a"
| "cmd_actor (CmdGet clock a i) = a"
| "cmd_actor (CmdList clock a objective) = a"
| "cmd_actor (CmdApprove s clock a i) = a"
| "cmd_actor (CmdClose clock a i st reason) = a"
| "cmd_actor (CmdIssue s clock a i pub) = a"

text \<open>What a route does to the state file is what at most two operations of the service do.\<close>

definition runs_as :: "ssh_env \<Rightarrow> actor \<Rightarrow> lease_file \<Rightarrow> lease_file \<Rightarrow> bool" where
  "runs_as env a f f' \<longleftrightarrow> (\<exists>cs. f' = run_all env cs f \<and> list_all (\<lambda>(c, io). cmd_actor c = a) cs \<and> length cs \<le> 2)"

lemma runs_none: "runs_as env a f f"
  unfolding runs_as_def by (rule exI [of _ "[]"]) simp

lemma runs_one: "cmd_actor c = a \<Longrightarrow> runs_as env a f (run_cmd env c io f)"
  unfolding runs_as_def by (rule exI [of _ "[(c, io)]"]) simp

lemma runs_two: "cmd_actor c = a \<Longrightarrow> cmd_actor c2 = a \<Longrightarrow> runs_as env a f (run_cmd env c2 io2 (run_cmd env c io f))"
  unfolding runs_as_def by (rule exI [of _ "[(c, io), (c2, io2)]"]) simp

lemmas runs_cmd =
  runs_one [of "CmdGet clock a i" for clock a i, simplified]
  runs_one [of "CmdList clock a objective" for clock a objective, simplified]
  runs_one [of "CmdOpen s clock rnd a q" for s clock rnd a q, simplified]
  runs_one [of "CmdApprove s clock a i" for s clock a i, simplified]
  runs_one [of "CmdClose clock a i st reason" for clock a i st reason, simplified]
  runs_one [of "CmdIssue s clock a i pub" for s clock a i pub, simplified]
  runs_two [of "CmdOpen s clock rnd a q" a "CmdIssue s2 clock2 a i pub" for s clock rnd q a s2 clock2 i pub, simplified]

lemma snd_value_of [simp]: "snd (value_of mk p) = snd p"
  by (auto simp: value_of_def split: prod.split sum.split)

lemma ssh_open_runs: "runs_as (xw_env x) a f (snd (ssh_open x s a r f))"
proof (cases "ssh_decode (xw_open x) r")
  case (Some q)
  obtain o1 f1 where o: "open_lease (xw_env x) s (xw_clock x 0) (xw_rnd x) a q (xw_io x 0) f = (o1, f1)" by fastforce
  have one: "runs_as (xw_env x) a f f1" using runs_cmd(3) o by (metis snd_conv)
  have two: "runs_as (xw_env x) a f (snd (issue_certificate (xw_env x) s (xw_clock x 1) a i pub (xw_io x 1) f1))" for i pub
    using runs_cmd(7) o by (metis snd_conv)
  show ?thesis
  proof (cases o1)
    case (Inl e)
    then show ?thesis using Some o one by (simp add: ssh_open_def)
  next
    case (Inr l)
    obtain i2 f2 where i: "issue_certificate (xw_env x) s (xw_clock x 1) a (le_id l) (oq_public_key q) (xw_io x 1) f1 = (i2, f2)"
      by fastforce
    then have "runs_as (xw_env x) a f f2" using two by (metis snd_conv)
    then show ?thesis using Some o one Inr i by (simp add: ssh_open_def split: sum.split)
  qed
qed (simp add: ssh_open_def runs_none)

lemma ssh_act_runs: "runs_as (xw_env x) a f (snd (ssh_act x s a r i act f))"
  by (simp add: ssh_act_def Let_def runs_none runs_cmd split: option.split)

lemma ssh_dispatch_runs: "runs_as (xw_env x) a f (snd (ssh_dispatch x s a r f))"
  by (simp add: ssh_dispatch_def runs_none runs_cmd ssh_open_runs ssh_act_runs split: ssh_route.split)

text \<open>The bearer token of the request passes the SSH check for the scope against the token file.\<close>

definition ssh_token_shown :: "'f world \<Rightarrow> request \<Rightarrow> token_record \<Rightarrow> string \<Rightarrow> store \<Rightarrow> bool" where
  "ssh_token_shown w r t scope s \<longleftrightarrow>
     (\<exists>k s0 s1. disk s0 = disk s
        \<and> validate_ssh_token (w_sha w) (w_io w k) (bearer_token (rq_header r ''Authorization'')) scope s0 = (Some t, s1)
        \<and> t \<in> set (tokens (mem s1)) \<and> t_hash t = token_hash (w_sha w) (bearer_token (rq_header r ''Authorization''))
        \<and> t_hash t \<noteq> [] \<and> t_revoked_at t = [] \<and> scope \<in> set (t_scopes t))"

lemma ssh_token_shownI:
  assumes "validate_ssh_token (w_sha w) (w_io w k) (bearer_token (rq_header r ''Authorization'')) scope s0 = (Some t, s1)"
    and "disk s0 = disk s"
  shows "ssh_token_shown w r t scope s \<and> (scope = ''ssh:use'' \<or> scope = ''ssh:approve'')"
  unfolding ssh_token_shown_def using assms validate_ssh_Some [OF assms(1)] by blast

lemma validate_ssh_disk: "disk (snd (validate_ssh_token sha io raw scope s)) = disk s"
  using validate_ssh_store [of sha io raw scope s] reload_file [of io s] by (metis prod.collapse)

lemma ssh_authenticate_Some:
  assumes "ssh_authenticate w r s = (Some (t, scope), s')"
  shows "ssh_token_shown w r t scope s \<and> (scope = ''ssh:use'' \<or> scope = ''ssh:approve'')
    \<and> (ssh_scope r = ''ssh:approve'' \<longrightarrow> scope = ''ssh:approve'')"
proof -
  let ?raw = "bearer_token (rq_header r ''Authorization'')"
  obtain t1 s1 where a: "validate_ssh_token (w_sha w) (w_io w 0) ?raw (ssh_scope r) s = (t1, s1)" by fastforce
  obtain t2 s2 where b: "validate_ssh_token (w_sha w) (w_io w 1) ?raw ''ssh:approve'' s1 = (t2, s2)" by fastforce
  have d: "disk s1 = disk s" using validate_ssh_disk [of "w_sha w" "w_io w 0" ?raw "ssh_scope r" s] a by simp
  have "(scope = ssh_scope r \<and> t1 = Some t) \<or> (scope = ''ssh:approve'' \<and> t2 = Some t)"
    using assms a b by (auto simp: ssh_authenticate_def Let_def split: if_splits option.splits)
  then show ?thesis
  proof (elim disjE conjE)
    assume "scope = ssh_scope r" "t1 = Some t"
    then show ?thesis using ssh_token_shownI [of w 0 r scope s t s1 s] a by simp
  next
    assume "scope = ''ssh:approve''" "t2 = Some t"
    then show ?thesis using ssh_token_shownI [of w 1 r scope s1 t s2 s] b d by simp
  qed
qed

text \<open>
  (C18) Nothing happens through the SSH routes without an SSH token. When a request changes the lease file or
  gets a success reply, SSH is enabled, the request came from this machine and from no browser page,
  its bearer token is a live token that lists the scope literally (\<open>ssh:approve\<close> for an approve or revoke
  route), the configuration loaded, and all that was done to the file is at most two operations of
  the service in the name of that token: the actor's id is the token's hash and it may approve
  exactly under \<open>ssh:approve\<close>.
\<close>

theorem ssh_routes_guarded:
  assumes "handle_ssh w x cfg r s f = (rep, s', f')" and "f' \<noteq> f \<or> (\<exists>code v. rep = JsonReply code v)"
  shows "c_ssh_dir cfg \<noteq> [] \<and> is_loopback_request w r \<and> rq_header r ''Origin'' = []
    \<and> (\<exists>t scope c. ssh_token_shown w r t scope s \<and> (scope = ''ssh:use'' \<or> scope = ''ssh:approve'')
        \<and> (ssh_scope r = ''ssh:approve'' \<longrightarrow> scope = ''ssh:approve'')
        \<and> load_service (xw_env x) (xw_uid x) (xw_load x 0) = Inr c
        \<and> runs_as (xw_env x) \<lparr>ac_id = t_hash t, ac_name = t_name t, ac_can_approve = (scope = ''ssh:approve'')\<rparr> f f')"
proof -
  have g: "c_ssh_dir cfg \<noteq> []" "is_loopback_request w r" "rq_header r ''Origin'' = []"
    using assms by (auto simp: handle_ssh_def split: if_splits)
  then obtain t scope s1 where a: "ssh_authenticate w r s = (Some (t, scope), s1)"
    using assms by (auto simp: handle_ssh_def split: prod.splits option.splits)
  obtain c where c: "load_service (xw_env x) (xw_uid x) (xw_load x 0) = Inr c"
    using assms g a by (auto simp: handle_ssh_def split: sum.splits)
  have "f' = snd (ssh_dispatch x (ssh_service w x r scope c) (ssh_actor t scope) r f)"
    using assms(1) g a c by (auto simp: handle_ssh_def split: prod.splits)
  then have "runs_as (xw_env x) (ssh_actor t scope) f f'" using ssh_dispatch_runs by simp
  then show ?thesis using g ssh_authenticate_Some [OF a] c unfolding ssh_actor_def by blast
qed

subsection \<open>A sample request\<close>

definition sample_ssh_state :: state where
  "sample_ssh_state = empty_state\<lparr>tokens := [\<lparr>t_name = ''bot'', t_hash = hex_encode ''abc'', t_scopes = [''ssh:use''],
     t_created_at = [], t_revoked_at = [], t_last_used_at = []\<rparr>]\<rparr>"

definition sample_ssh_request :: request where
  "sample_ssh_request = \<lparr>rq_method = ''GET'', rq_path = ''/v1/ssh/leases'', rq_query = [], rq_remote = ''127.0.0.1:9'',
     rq_header = (\<lambda>n. if n = ''Authorization'' then ''Bearer abc'' else []), rq_body = [], rq_body_err = False\<rparr>"

definition sample_load :: load_input where
  "sample_load = \<lparr>ld_config = Present \<lparr>n_kind = RegularFile, n_uid = 1000, n_perm = 0x180\<rparr> 100 (Some ssh_sample_config),
     ld_opens = True, ld_reads = True, ld_ca_file = None, ld_dir = None\<rparr>"

definition sample_ssh_world :: ssh_world where
  "sample_ssh_world = \<lparr>xw_env = ssh_sample_env, xw_verify = (\<lambda>_ _ _. True), xw_uid = 1000, xw_load = (\<lambda>_. sample_load),
     xw_signer = sample_signer, xw_clock = (\<lambda>_ _. 0), xw_rnd = [], xw_io = (\<lambda>_. sample_io), xw_store = (\<lambda>_. saved sample_ssh_state),
     xw_store_io = (\<lambda>_. io_ok), xw_objective = (\<lambda>_. []), xw_open = (\<lambda>_. None), xw_key = (\<lambda>_. None),
     xw_reason = (\<lambda>_. None), xw_json = (\<lambda>_. ''[]'')\<rparr>"

lemma sample_loads: "load_service ssh_sample_env 1000 sample_load = Inr ssh_sample_config"
  using sample_bits ssh_sample_valid
  by (simp add: load_service_def sample_load_def read_private_def private_open_def private_node_def file_limit_def
      pin_ca_def new_service_def) (simp add: ssh_sample_config_def)

lemma sample_authenticates:
  "fst (ssh_authenticate sample_world sample_ssh_request (saved sample_ssh_state))
     = Some (hd (tokens sample_ssh_state), ''ssh:use'')"
  by code_simp

lemma sample_listed:
  "\<exists>f'. list_leases (\<lambda>_. 0) a [] sample_io (sample_file empty_lease_state) = (Inr [], f')"
  by (simp add: list_leases_def sample_transaction plain_body_def list_body_def empty_lease_state_def)

lemma sample_handled:
  "\<exists>s' f'. handle_ssh sample_world sample_ssh_world (GatewayProps.sample_config\<lparr>c_ssh_dir := ''/d''\<rparr>) sample_ssh_request
     (saved sample_ssh_state) (sample_file empty_lease_state) = (JsonReply 200 ''[]'', s', f')"
proof -
  obtain s1 where a: "ssh_authenticate sample_world sample_ssh_request (saved sample_ssh_state)
      = (Some (hd (tokens sample_ssh_state), ''ssh:use''), s1)"
    using sample_authenticates by (metis prod.collapse)
  have l: "is_loopback_request sample_world sample_ssh_request" by code_simp
  have r: "ssh_route_of sample_ssh_request = RouteList" by (simp add: ssh_route_of_def sample_ssh_request_def)
  obtain f' where f: "list_leases (\<lambda>_. 0) (ssh_actor (hd (tokens sample_ssh_state)) ''ssh:use'') [] sample_io (sample_file empty_lease_state)
      = (Inr [], f')" using sample_listed by blast
  show ?thesis
    using a l r f sample_loads
    by (simp add: handle_ssh_def ssh_dispatch_def value_of_def ssh_reply_def sample_ssh_world_def)
       (simp add: sample_ssh_request_def)
qed

theorem ssh_routes_guarded_witness:
  "\<exists>t scope. ssh_token_shown sample_world sample_ssh_request t scope (saved sample_ssh_state)"
proof -
  obtain s' f' where h: "handle_ssh sample_world sample_ssh_world (GatewayProps.sample_config\<lparr>c_ssh_dir := ''/d''\<rparr>) sample_ssh_request
     (saved sample_ssh_state) (sample_file empty_lease_state) = (JsonReply 200 ''[]'', s', f')"
    using sample_handled by blast
  then show ?thesis using ssh_routes_guarded [OF h] by blast
qed

end
