(* ===== verification/SshClient.thy ===== *)
theory SshClient
  imports SshSigner
begin

text \<open>
  Package \<open>cmd/21pins\<close>, the parts of the SSH client that compute (\<open>ssh.go\<close>, \<open>ssh_client.go\<close>): what may
  be a lease id, how the remote command is quoted, the argument list of \<open>ssh\<close>, the environment of
  the child, the checks on what the control API replies.

  Local file system facts (\<open>os.Stat\<close>) and the output of \<open>ssh -G\<close> are parameters.
\<close>

subsection \<open>Identifiers and environments\<close>

definition valid_lease_id :: "string \<Rightarrow> bool" where
  "valid_lease_id i \<longleftrightarrow> length i = 32 \<and> list_all (\<lambda>c. is_digit c \<or> (97 \<le> byte c \<and> byte c \<le> 102)) i"

definition is_terminal :: "status \<Rightarrow> bool" where
  "is_terminal st \<longleftrightarrow> st \<noteq> Active \<and> st \<noteq> PendingApproval"

definition without_agent :: "string list \<Rightarrow> string list" where
  "without_agent environ = filter (\<lambda>v. \<not> has_prefix v ''SSH_AUTH_SOCK='' \<and> \<not> has_prefix v ''SSH_AGENT_PID='') environ"

definition ssh_transport_env :: "string list \<Rightarrow> string list" where
  "ssh_transport_env environ = filter (\<lambda>v. fst (split_2 (CHR ''='') v) \<in> {''PATH'', ''HOME'', ''USER'', ''LOGNAME''}) environ"

subsection \<open>Alias resolution\<close>

definition alias_keys :: "string list" where
  "alias_keys = [''hostname'', ''port'', ''userknownhostsfile'', ''globalknownhostsfile'', ''hostkeyalias'']"

fun alias_lines :: "string list \<Rightarrow> string gomap \<Rightarrow> string gomap" where
  "alias_lines [] m = m"
| "alias_lines (line # rest) m =
     (case split_2 (CHR '' '') line of
        (k, Some v) \<Rightarrow> alias_lines rest (if k \<in> set alias_keys then AList.update k (trim_space v) m else m)
      | (k, None) \<Rightarrow> alias_lines rest m)"

definition resolve_args :: "string \<Rightarrow> string \<Rightarrow> string list" where
  "resolve_args config_file alias = [''-G''] @ (if config_file = [] then [] else [''-F'', config_file]) @ [alias]"

text \<open>\<open>output\<close> is what \<open>ssh -G\<close> prints; \<open>None\<close> when it fails.\<close>

definition resolve_alias :: "string option \<Rightarrow> string gomap option" where
  "resolve_alias out = map_option (\<lambda>b. alias_lines (split_on (CHR 0x0A) b) []) out"

subsection \<open>Quoting\<close>

fun escape_quotes :: "string \<Rightarrow> string" where
  "escape_quotes [] = []"
| "escape_quotes (c # s) = (if c = quote then [quote, dquote, quote, dquote, quote] else [c]) @ escape_quotes s"

definition shell_quote :: "string \<Rightarrow> string" where
  "shell_quote s = quote # escape_quotes s @ [quote]"

definition quote_words :: "string list \<Rightarrow> string" where
  "quote_words ws = join_with '' '' (map shell_quote ws)"

subsection \<open>The arguments of \<open>ssh\<close>\<close>

datatype client_error =
    BadHostname | BadPort | ClientDenied | BadBastion | BadRemoteArgument
  | ApiUnavailable | ApiRejected | ResponseInvalid | ScopeMismatch | LeaseMismatch | BadCleanupId | UnsafeCleanup
  | UnsafeOpening | LocalError ssh_error | LocalFailure | UsageError | LocalLeaseUnavailable | LocalLeaseInvalid
  | NoLocalKey | BadRenewal | CleanupIncomplete | ApprovalDeclined | ClientStateUnavailable | SessionFailed
  | SessionCancelled | HostExists | LegacyOnlyDev | AllowlistRequired | ConfigExists | SocketRequired

definition any_of :: "string \<Rightarrow> char set \<Rightarrow> bool" where
  "any_of s cs \<longleftrightarrow> list_ex (\<lambda>c. c \<in> cs) s"

definition line_ends :: "char set" where
  "line_ends = {CHR 0x0A, CHR 0x0D, CHR 0x00}"

fun replace_char :: "char \<Rightarrow> string \<Rightarrow> string \<Rightarrow> string" where
  "replace_char c r [] = []"
| "replace_char c r (x # s) = (if x = c then r else [x]) @ replace_char c r s"

text \<open>\<open>^[a-zA-Z0-9][a-zA-Z0-9.:_-]*$\<close>\<close>

definition bastion_host_ok :: "string \<Rightarrow> bool" where
  "bastion_host_ok s \<longleftrightarrow> s \<noteq> [] \<and> is_alnum (hd s) \<and> list_all (\<lambda>c. is_alnum c \<or> c \<in> set ''.:_-'') (tl s)"

definition join_host_port :: "string \<Rightarrow> string \<Rightarrow> string" where
  "join_host_port h p = (if CHR '':'' \<in> set h then ''['' @ h @ '']:'' @ p else h @ '':'' @ p)"

definition base_args :: "string \<Rightarrow> string \<Rightarrow> nat \<Rightarrow> string list" where
  "base_args dir user port =
     [''-F'', ''/dev/null'', ''-o'', ''StrictHostKeyChecking=yes'', ''-o'', ''BatchMode=yes'', ''-o'', ''IdentitiesOnly=yes'',
      ''-o'', ''IdentityAgent=none'', ''-o'', ''ControlMaster=no'', ''-o'', ''ControlPath=none'', ''-o'', ''ControlPersist=no'',
      ''-o'', ''ClearAllForwardings=yes'', ''-o'', ''ForwardAgent=no'', ''-o'', ''ForwardX11=no'', ''-o'', ''PermitLocalCommand=no'',
      ''-o'', ''ConnectTimeout=15'', ''-i'', path_join dir ''id_ed25519'',
      ''-o'', ''CertificateFile='' @ path_join dir ''id_ed25519-cert.pub'', ''-l'', user, ''-p'', dec_nat port]"

definition known_hosts_fields :: "(string \<times> string) list" where
  "known_hosts_fields = [(''userknownhostsfile'', ''UserKnownHostsFile''), (''globalknownhostsfile'', ''GlobalKnownHostsFile''),
     (''hostkeyalias'', ''HostKeyAlias'')]"

definition known_hosts_arg :: "(string \<Rightarrow> bool) \<Rightarrow> string gomap \<Rightarrow> string \<times> string \<Rightarrow> string list" where
  "known_hosts_arg stat resolved field =
     (case field of (k, opt) \<Rightarrow>
       (let v = at_or [] resolved k in
        if v = [] \<or> v = ''none'' \<or> any_of v line_ends then []
        else [''-o'', opt @ ''='' @
               (if k \<noteq> ''hostkeyalias'' \<and> any_of v {CHR '' '', CHR 0x09} \<and> stat v
                then [dquote] @ replace_char dquote [CHR 0x5C, dquote] (replace_char (CHR 0x5C) [CHR 0x5C, CHR 0x5C] v) @ [dquote]
                else v)]))"

definition hop_words :: "string \<Rightarrow> nat \<Rightarrow> string \<Rightarrow> string list" where
  "hop_words hostname port jump =
     [''ssh'', ''-o'', ''StrictHostKeyChecking=yes'', ''-o'', ''BatchMode=yes'', ''-o'', ''IdentityAgent=none'', ''-o'', ''ForwardAgent=no'',
      ''-o'', ''ForwardX11=no'', ''-o'', ''ClearAllForwardings=yes'', ''-o'', ''ControlMaster=no'', ''-o'', ''ControlPath=none'',
      ''-o'', ''ControlPersist=no'', ''-o'', ''PermitLocalCommand=no'', ''-o'', ''RequestTTY=no'', ''-o'', ''RemoteCommand=none'',
      ''-o'', ''ProxyJump=none'', ''-o'', ''ProxyCommand=none'', ''-o'', ''ConnectTimeout=15'', ''-W'',
      join_host_port hostname (dec_nat port), jump]"

definition jump_args :: "lease \<Rightarrow> string \<Rightarrow> nat \<Rightarrow> client_error + string list" where
  "jump_args l hostname port =
     (if le_ssh_jump_alias l = [] then Inr []
      else if \<not> identifier_ok (le_ssh_jump_alias l) \<or> \<not> bastion_host_ok hostname then Inl BadBastion
      else Inr [''-o'', ''ProxyCommand='' @ quote_words (hop_words hostname port (le_ssh_jump_alias l))])"

definition ssh_args ::
    "(string \<Rightarrow> bool) \<Rightarrow> lease \<Rightarrow> string \<Rightarrow> string gomap \<Rightarrow> bool \<Rightarrow> string list \<Rightarrow> client_error + string list" where
  "ssh_args stat l dir resolved interactive remote =
     (let hostname = at_or [] resolved ''hostname'' in
      if hostname = [] \<or> any_of hostname line_ends \<or> has_prefix hostname ''-'' then Inl BadHostname
      else case parse_int64 (at_or [] resolved ''port'') of
        None \<Rightarrow> Inl BadPort
      | Some port \<Rightarrow>
          if port < 1 \<or> port > 65535 then Inl BadPort
          else if interactive \<and> \<not> ro_pty (le_policy l) then Inl ClientDenied
          else (case jump_args l hostname (nat port) of
                  Inl e \<Rightarrow> Inl e
                | Inr jump \<Rightarrow>
                    if list_ex (\<lambda>v. CHR 0x00 \<in> set v) remote then Inl BadRemoteArgument
                    else Inr (base_args dir (le_ssh_user l) (nat port)
                           @ concat (map (known_hosts_arg stat resolved) known_hosts_fields) @ jump
                           @ [if interactive then ''-tt'' else ''-T'', hostname]
                           @ (if remote = [] then [] else [quote_words remote]))))"

subsection \<open>What the gate reads of a quoted command\<close>

lemma escape_no_quote: "quote \<notin> set u \<Longrightarrow> escape_quotes (u @ s) = u @ escape_quotes s"
  by (induction u) auto

lemma escape_split:
  obtains "quote \<notin> set s" "escape_quotes s = s"
  | u v where "s = u @ quote # v" "quote \<notin> set u"
      "escape_quotes s = u @ [quote, dquote, quote, dquote, quote] @ escape_quotes v"
proof (cases "quote \<in> set s")
  case True
  then obtain u v where "s = u @ quote # v" "quote \<notin> set u" by (meson split_list_first)
  then show ?thesis using that(2) escape_no_quote by simp
next
  case False
  then show ?thesis using that(1) escape_no_quote [of s "[]"] by simp
qed

lemma take_word_quoted:
  "quote \<notin> set u \<Longrightarrow> take_word w (quote # u @ quote # r) = take_word (w @ u) r"
proof -
  assume q: "quote \<notin> set u"
  have "takeWhile (\<lambda>x. x \<noteq> quote) (u @ quote # r) = u" "dropWhile (\<lambda>x. x \<noteq> quote) (u @ quote # r) = quote # r"
    using q by (induction u) auto
  moreover have "quote \<noteq> CHR '' ''" by (simp add: quote_def)
  ultimately show ?thesis by (simp add: take_word_Cons)
qed

lemma take_word_dquote: "take_word w (dquote # quote # dquote # r) = take_word (w @ [quote]) r"
  by (subst take_word_Cons) (simp add: dquote_def quote_def)

text \<open>A word the client quotes is read back as that word.\<close>

lemma take_word_shell_quote:
  assumes "r = [] \<or> hd r = CHR '' ''"
  shows "take_word w (quote # escape_quotes s @ quote # r) = Some (w @ s, r)"
proof (induction "length s" arbitrary: s w rule: less_induct)
  case less
  show ?case
  proof (cases s rule: escape_split)
    case 1
    moreover have "take_word v r = Some (v, r)" for v
      using assms by (cases r) (simp_all add: take_word_Cons)
    ultimately show ?thesis by (simp add: take_word_quoted)
  next
    case (2 u v)
    have "take_word w (quote # escape_quotes s @ quote # r)
        = take_word w (quote # u @ quote # dquote # quote # dquote # quote # escape_quotes v @ quote # r)"
      using 2(3) by simp
    also have "\<dots> = take_word (w @ u @ [quote]) (quote # escape_quotes v @ quote # r)"
      using 2(2) by (simp add: take_word_quoted take_word_dquote)
    also have "\<dots> = Some ((w @ u @ [quote]) @ v, r)" using less 2(1) by simp
    finally show ?thesis using 2(1) by simp
  qed
qed

lemma skip_quote: "skip_spaces (quote # s) = quote # s" "skip_spaces (CHR '' '' # s) = skip_spaces s"
  by (simp_all add: skip_spaces_def quote_def)

lemma parse_quoted:
  "length out + length ws \<le> 8 \<Longrightarrow> list_all (\<lambda>w. length w \<le> 256) ws \<Longrightarrow> parse_words out (quote_words ws) = Some (out @ ws)"
proof (induction ws arbitrary: out)
  case Nil
  then show ?case by (subst parse_words.simps) (simp add: quote_words_def skip_spaces_def)
next
  case (Cons v ws)
  obtain r where q: "quote_words (v # ws) = quote # escape_quotes v @ quote # r"
    and r: "r = [] \<and> ws = [] \<or> r = CHR '' '' # quote_words ws"
    by (cases ws) (auto simp: quote_words_def shell_quote_def)
  have t: "take_word [] (skip_spaces (quote_words (v # ws))) = Some (v, r)"
    using take_word_shell_quote [of r "[]" v] r unfolding q skip_quote by auto
  have n: "skip_spaces (quote_words (v # ws)) \<noteq> []" unfolding q skip_quote by simp
  have "parse_words out (quote_words (v # ws)) = parse_words (out @ [v]) r"
    using t n Cons.prems by (subst parse_words.simps) simp
  moreover have "parse_words (out @ [v]) r = Some (out @ v # ws)"
  proof (cases "ws = []")
    case True
    then have "r = [] \<or> r = CHR '' '' # []" using r by (auto simp: quote_words_def)
    then show ?thesis using True by (subst parse_words.simps) (auto simp: skip_spaces_def)
  next
    case False
    then have r': "r = CHR '' '' # quote_words ws" using r by blast
    have "parse_words (out @ [v]) r = parse_words (out @ [v]) (quote_words ws)"
      unfolding r' by (subst (1 2) parse_words.simps) (simp add: skip_quote)
    then show ?thesis using Cons by simp
  qed
  ultimately show ?case by simp
qed

subsection \<open>Quoting adds no hidden character\<close>

lemma up_to_four:
  "a = [] \<or> (\<exists>w. a = [w]) \<or> (\<exists>w x. a = [w, x]) \<or> (\<exists>w x y. a = [w, x, y]) \<or> (\<exists>w x y z t. a = w # x # y # z # t)"
  by (metis neq_Nil_conv)

lemma decode_rune_within: "decode_rune a = Some (r, n) \<Longrightarrow> n \<le> length a"
  using up_to_four [of a]
  by (elim disjE exE) (simp_all add: Let_def split del: if_split split: if_split_asm)

lemma decode_rune_append: "decode_rune a = Some (r, n) \<Longrightarrow> decode_rune (a @ b) = Some (r, n)"
  using up_to_four [of a]
  by (elim disjE exE) (simp_all add: Let_def split del: if_split split: if_split_asm)

lemma decode_rune_prefix: "decode_rune (a @ b) = Some (r, n) \<Longrightarrow> n \<le> length a \<Longrightarrow> decode_rune a = Some (r, n)"
  using up_to_four [of a] decode_rune_length [of "a @ b" r n]
  by (elim disjE exE) (simp_all add: Let_def split del: if_split split: if_split_asm list.split_asm)

lemma runes_append: "runes a = Some x \<Longrightarrow> runes b = Some y \<Longrightarrow> runes (a @ b) = Some (x @ y)"
proof (induction a arbitrary: x rule: runes.induct)
  case (1 a)
  show ?case
  proof (cases "a = []")
    case True
    then show ?thesis using "1.prems" by (simp add: runes.simps [of "[]"])
  next
    case False
    then obtain r n x' where d: "decode_rune a = Some (r, n)" "n \<noteq> 0" and t: "runes (drop n a) = Some x'" "x = r # x'"
      using "1.prems"(1) by (subst (asm) runes.simps) (auto split: option.splits if_splits)
    have "runes (drop n a @ b) = Some (x' @ y)" using "1.IH" [OF False d(1) refl d(2) t(1) "1.prems"(2)] .
    moreover have "decode_rune (a @ b) = Some (r, n)" "n \<le> length a" using decode_rune_append [OF d(1)] decode_rune_within [OF d(1)] by auto
    ultimately show ?thesis using d(2) t(2) False by (subst runes.simps) simp
  qed
qed

definition safe_text :: "string \<Rightarrow> bool" where
  "safe_text s \<longleftrightarrow> (\<exists>rs. runes (map byte s) = Some rs \<and> list_all (\<lambda>r. \<not> hidden_rune r) rs)"

lemma unsafe_text_iff: "\<not> unsafe_text s \<longleftrightarrow> safe_text s"
  by (auto simp: unsafe_text_def safe_text_def list_ex_iff list_all_iff split: option.splits)

lemma safe_append: "safe_text a \<Longrightarrow> safe_text b \<Longrightarrow> safe_text (a @ b)"
  unfolding safe_text_def by (auto dest: runes_append)

lemma safe_ascii: "list_all (\<lambda>c. 32 \<le> byte c \<and> byte c < 127) s \<Longrightarrow> safe_text s"
proof -
  assume a: "list_all (\<lambda>c. 32 \<le> byte c \<and> byte c < 127) s"
  have "\<not> hidden_rune r" if "32 \<le> r \<and> r < 127" for r
    using that by (simp add: hidden_rune_def control_rune_def format_rune_code)
  moreover have "runes (map byte s) = Some (map byte s)" using a by (intro runes_ascii) (auto simp: list_all_iff)
  ultimately show ?thesis using a unfolding safe_text_def by (auto simp: list_all_iff)
qed

text \<open>Splitting safe text at a quote leaves safe text: a quote is a rune of its own.\<close>

lemma runes_split:
  "runes (a @ b # c) = Some rs \<Longrightarrow> b < 128 \<Longrightarrow> \<exists>x y. runes a = Some x \<and> runes c = Some y \<and> rs = x @ b # y"
proof (induction a arbitrary: rs rule: length_induct)
  case (1 a)
  let ?s = "a @ b # c"
  obtain r n rs' where d: "decode_rune ?s = Some (r, n)" "n \<noteq> 0" and t: "runes (drop n ?s) = Some rs'" "rs = r # rs'"
    using "1.prems"(1) by (subst (asm) runes.simps) (auto split: option.splits if_splits)
  show ?case
  proof (cases "a = []")
    case True
    then show ?thesis using d t "1.prems"(2) by (auto simp: runes.simps [of "[]"])
  next
    case False
    have n: "n \<le> length a"
    proof (rule ccontr)
      assume "\<not> n \<le> length a"
      then have "b \<in> set (take n ?s)" by (simp add: take_Cons')
      then have "n = 1" using decode_rune_multi [OF d(1)] "1.prems"(2) by fastforce
      then show False using False \<open>\<not> n \<le> length a\<close> by (cases a) auto
    qed
    then have "runes (drop n a @ b # c) = Some rs'" using t(1) by simp
    moreover have "length (drop n a) < length a" using d(2) False by (cases a) auto
    ultimately obtain x y where x: "runes (drop n a) = Some x" "runes c = Some y" "rs' = x @ b # y"
      using "1.IH" "1.prems"(2) by blast
    have "decode_rune a = Some (r, n)" using d(1) n decode_rune_prefix by blast
    then have "runes a = Some (r # x)" using x(1) d(2) False by (subst runes.simps) simp
    then show ?thesis using x t(2) by auto
  qed
qed

lemma safe_split: "safe_text (u @ quote # v) \<Longrightarrow> safe_text u \<and> safe_text v"
  using runes_split [of "map byte u" "byte quote" "map byte v"]
  by (auto simp: safe_text_def quote_def byte_def)

lemma safe_escape: "safe_text s \<Longrightarrow> safe_text (escape_quotes s)"
proof (induction "length s" arbitrary: s rule: less_induct)
  case less
  have q: "safe_text [quote, dquote, quote, dquote, quote]"
    by (rule safe_ascii) (simp add: quote_def dquote_def byte_def)
  show ?case
  proof (cases s rule: escape_split)
    case 1
    then show ?thesis using less.prems by simp
  next
    case (2 u v)
    then have "safe_text u" "safe_text v" using less.prems safe_split by blast+
    then have "safe_text (u @ [quote, dquote, quote, dquote, quote] @ escape_quotes v)"
      using less.hyps [of v] 2(1) q by (intro safe_append) simp_all
    then show ?thesis using 2(3) by simp
  qed
qed

lemma safe_marks: "safe_text []" "safe_text [quote]" "safe_text '' ''"
  by (rule safe_ascii, simp add: quote_def byte_def)+

lemma safe_quote_words: "list_all safe_text ws \<Longrightarrow> safe_text (quote_words ws)"
proof (induction ws rule: induct_list012)
  case 1
  then show ?case by (simp add: quote_words_def safe_marks)
next
  case (2 v)
  then have "safe_text v" by simp
  then have "safe_text ([quote] @ escape_quotes v @ [quote])" by (intro safe_append safe_escape safe_marks)
  then show ?case by (simp add: quote_words_def shell_quote_def)
next
  case (3 v w ws)
  then have "safe_text v" "safe_text (quote_words (w # ws))" by simp_all
  then have "safe_text ([quote] @ escape_quotes v @ [quote] @ '' '' @ quote_words (w # ws))"
    by (intro safe_append safe_escape safe_marks)
  then show ?case by (simp add: quote_words_def shell_quote_def)
qed

text \<open>
  (C10) The client's quoting and the gate's grammar are inverse. For at most eight words of safe text, each at
  most 256 bytes long, whatever quotes, spaces and shell characters they hold, the string the client
  puts on the \<open>ssh\<close> command line is parsed by the gate on the host into exactly these words, as long as it
  fits in the 2048 bytes the gate reads.
\<close>

theorem quoted_command_read_back:
  assumes "ws \<noteq> []" and "length ws \<le> 8" and "list_all (\<lambda>w. length w \<le> 256 \<and> \<not> unsafe_text w) ws"
    and "length (quote_words ws) \<le> 2048"
  shows "parse_command (quote_words ws) = Some ws"
proof -
  have "\<not> unsafe_text (quote_words ws)"
    using assms(3) safe_quote_words [of ws] unfolding unsafe_text_iff by (simp add: list_all_iff)
  moreover have "parse_words [] (quote_words ws) = Some ws"
    using parse_quoted [of "[]" ws] assms(2,3) by (simp add: list_all_iff)
  moreover have "quote_words ws \<noteq> []" using assms(1) by (cases ws; cases "tl ws") (auto simp: quote_words_def shell_quote_def)
  ultimately show ?thesis using assms(1,4) by (simp add: parse_command_def)
qed

theorem quoted_command_read_back_witness:
  "parse_command (quote_words [''echo'', ''it'' @ [quote] @ ''s; rm -rf $HOME'']) = Some [''echo'', ''it'' @ [quote] @ ''s; rm -rf $HOME'']"
  by (rule quoted_command_read_back)
     (simp_all add: unsafe_text_iff, (rule conjI, rule safe_ascii, simp add: byte_def, rule safe_ascii, simp add: byte_def quote_def),
      simp add: quote_words_def shell_quote_def quote_def)

end
