(* ===== verification/SshClientRun.thy ===== *)
theory SshClientRun
  imports SshClient
begin

text \<open>
  Package \<open>cmd/21pins\<close>, the SSH commands (\<open>ssh.go\<close>, \<open>ssh_client.go\<close>): the client of the control API
  with the checks on its replies, the local lease directory, and the commands that use both.

  The control API is a parameter: what it replies to each call, by the number of the call. So are
  key generation, renaming, the clock, the terminal and the \<open>ssh\<close> process. What is kept is the log
  of the calls, the certificate held back from \<open>Open\<close>, and the lease directory.
\<close>

subsection \<open>The control API client\<close>

datatype api_body = NoBody | OpenBody open_request | KeyBody string | EmptyBody | ReasonBody string

record api_call =
  ap_method :: string
  ap_path :: string
  ap_body :: api_body

text \<open>No reply, or a status and the decoded value; \<open>None\<close> when the body does not decode.\<close>

type_synonym 'v api = "nat \<Rightarrow> api_call \<Rightarrow> (nat \<times> 'v option) option"

record control =
  co_env :: ssh_env
  co_open :: "(lease \<times> string \<times> issuance) api"
  co_issue :: "issue_result api"
  co_lease :: "lease api"
  co_list :: "lease list api"
  co_escape :: "string \<Rightarrow> string"

record client =
  cl_initial :: "issue_result option"
  cl_log :: "api_call list"

definition new_client :: client where
  "new_client = \<lparr>cl_initial = None, cl_log = []\<rparr>"

definition api_send :: "'v api \<Rightarrow> string \<Rightarrow> string \<Rightarrow> api_body \<Rightarrow> client \<Rightarrow> (client_error + 'v) \<times> client" where
  "api_send srv m p b cl =
     (let c = \<lparr>ap_method = m, ap_path = ''/v1/ssh/leases'' @ p, ap_body = b\<rparr>; cl' = cl\<lparr>cl_log := cl_log cl @ [c]\<rparr> in
      case srv (length (cl_log cl)) c of
        None \<Rightarrow> (Inl ApiUnavailable, cl')
      | Some (st, v) \<Rightarrow>
          if st < 200 \<or> st \<ge> 300 then (Inl ApiRejected, cl')
          else (case v of None \<Rightarrow> (Inl ResponseInvalid, cl') | Some v \<Rightarrow> (Inr v, cl')))"

definition known_status :: "status \<Rightarrow> bool" where
  "known_status st \<longleftrightarrow> st \<in> {PendingApproval, Active, Completed, Cancelled, Revoked, Expired}"

definition safe_lease :: "lease \<Rightarrow> bool" where
  "safe_lease l \<longleftrightarrow> valid_lease_id (le_id l) \<and> le_opened_at l < le_hard_expires_at l
     \<and> le_ssh_user l = ro_ssh_user (le_policy l)
     \<and> list_all identifier_ok [le_workspace l, le_host_id l, le_role_id l, le_ssh_user l, le_ssh_alias l, le_agent_class l,
                               le_objective_id l, le_requester l]
     \<and> (le_ssh_jump_alias l = [] \<or> identifier_ok (le_ssh_jump_alias l))
     \<and> le_principal l = lease_principal (le_workspace l) (le_host_id l) (le_role_id l)
     \<and> known_status (le_status l)"

definition api_open :: "control \<Rightarrow> actor \<Rightarrow> open_request \<Rightarrow> client \<Rightarrow> (client_error + lease) \<times> client" where
  "api_open co a q cl =
     (case api_send (co_open co) ''POST'' [] (OpenBody q) cl of
        (Inl e, cl1) \<Rightarrow> (Inl e, cl1)
      | (Inr (l, cert, iss), cl1) \<Rightarrow>
          (case public_fingerprint (co_env co) (oq_public_key q) of
             Inl _ \<Rightarrow> (Inl ScopeMismatch, cl1)
           | Inr fp \<Rightarrow>
               if \<not> safe_lease l \<or> le_requester_id l \<noteq> ac_id a \<or> le_host_id l \<noteq> oq_host_id q \<or> le_role_id l \<noteq> oq_role_id q
                  \<or> le_objective_id l \<noteq> oq_objective_id q \<or> le_agent_class l \<noteq> oq_agent_class q
                  \<or> le_purpose l \<noteq> oq_purpose q \<or> le_fingerprint l \<noteq> fp
               then (Inl ScopeMismatch, cl1)
               else (Inr l, if cert = [] then cl1
                            else cl1\<lparr>cl_initial := Some \<lparr>ir_lease = l, ir_certificate = cert, ir_issuance = iss\<rparr>\<rparr>)))"

definition issue_reply_ok :: "control \<Rightarrow> actor \<Rightarrow> string \<Rightarrow> string \<Rightarrow> issue_result \<Rightarrow> bool" where
  "issue_reply_ok co a i pub r \<longleftrightarrow>
     (\<exists>fp. public_fingerprint (co_env co) pub = Inr fp \<and> le_fingerprint (ir_lease r) = fp)
     \<and> safe_lease (ir_lease r) \<and> le_id (ir_lease r) = i \<and> le_requester_id (ir_lease r) = ac_id a
     \<and> is_lease_id (ir_issuance r) = i \<and> is_valid_before (ir_issuance r) \<le> le_hard_expires_at (ir_lease r)
     \<and> has_prefix (ir_certificate r) (cert_type @ '' '')"

lemma issue_reply_ok_code [code]:
  "issue_reply_ok co a i pub r \<longleftrightarrow>
     (case public_fingerprint (co_env co) pub of Inl _ \<Rightarrow> False | Inr fp \<Rightarrow> le_fingerprint (ir_lease r) = fp)
     \<and> safe_lease (ir_lease r) \<and> le_id (ir_lease r) = i \<and> le_requester_id (ir_lease r) = ac_id a
     \<and> is_lease_id (ir_issuance r) = i \<and> is_valid_before (ir_issuance r) \<le> le_hard_expires_at (ir_lease r)
     \<and> has_prefix (ir_certificate r) (cert_type @ '' '')"
  by (auto simp: issue_reply_ok_def split: sum.splits)

definition api_issue :: "control \<Rightarrow> actor \<Rightarrow> string \<Rightarrow> string \<Rightarrow> client \<Rightarrow> (client_error + issue_result) \<times> client" where
  "api_issue co a i pub cl =
     (case cl_initial cl of
        Some r \<Rightarrow> if le_id (ir_lease r) = i then (Inr r, cl\<lparr>cl_initial := None\<rparr>)
                   else (case api_send (co_issue co) ''POST'' (''/'' @ i @ ''/certificate'') (KeyBody pub) cl of
                           (Inl e, cl1) \<Rightarrow> (Inl e, cl1)
                         | (Inr r, cl1) \<Rightarrow> if issue_reply_ok co a i pub r then (Inr r, cl1) else (Inl ScopeMismatch, cl1))
      | None \<Rightarrow> (case api_send (co_issue co) ''POST'' (''/'' @ i @ ''/certificate'') (KeyBody pub) cl of
                   (Inl e, cl1) \<Rightarrow> (Inl e, cl1)
                 | (Inr r, cl1) \<Rightarrow> if issue_reply_ok co a i pub r then (Inr r, cl1) else (Inl ScopeMismatch, cl1)))"

definition api_get :: "control \<Rightarrow> string \<Rightarrow> client \<Rightarrow> (client_error + lease) \<times> client" where
  "api_get co i cl =
     (case api_send (co_lease co) ''GET'' (''/'' @ i) NoBody cl of
        (Inl e, cl1) \<Rightarrow> (Inl e, cl1)
      | (Inr l, cl1) \<Rightarrow> if le_id l \<noteq> i \<or> \<not> safe_lease l then (Inl ResponseInvalid, cl1) else (Inr l, cl1))"

definition api_list :: "control \<Rightarrow> string \<Rightarrow> client \<Rightarrow> (client_error + lease list) \<times> client" where
  "api_list co objective cl = api_send (co_list co) ''GET'' (''?objective='' @ co_escape co objective) NoBody cl"

definition api_approve :: "control \<Rightarrow> string \<Rightarrow> client \<Rightarrow> (client_error + lease) \<times> client" where
  "api_approve co i cl = api_send (co_lease co) ''POST'' (''/'' @ i @ ''/approve'') EmptyBody cl"

definition close_action :: "status \<Rightarrow> string" where
  "close_action st = (if st = Revoked then ''revoke'' else if st = Cancelled then ''cancel'' else ''complete'')"

definition api_close :: "control \<Rightarrow> string \<Rightarrow> status \<Rightarrow> string \<Rightarrow> client \<Rightarrow> (client_error + lease) \<times> client" where
  "api_close co i st reason cl =
     api_send (co_lease co) ''POST'' (''/'' @ i @ ''/'' @ close_action st) (ReasonBody reason) cl"

subsection \<open>The local lease directory\<close>

record client_lease =
  cm_lease :: lease
  cm_valid_before :: time

datatype client_json = ClientUnreadable | ClientNotJson | ClientJson client_lease

text \<open>An entry: its node, what \<open>PrivateDir\<close> says of it, its files, and whether it can be removed.\<close>

record entry =
  en_node :: "node option"
  en_dir :: "ssh_error option"
  en_json :: client_json
  en_cert :: string
  en_pub :: "string option"
  en_key :: bool
  en_mod :: "time option"
  en_removable :: bool

definition made_dir :: entry where
  "made_dir = \<lparr>en_node = Some \<lparr>n_kind = Directory, n_uid = 0, n_perm = 0x1C0\<rparr>, en_dir = None, en_json = ClientUnreadable,
     en_cert = [], en_pub = None, en_key = False, en_mod = None, en_removable = True\<rparr>"

definition is_directory :: "entry \<Rightarrow> bool" where
  "is_directory e \<longleftrightarrow> (case en_node e of None \<Rightarrow> False | Some n \<Rightarrow> n_kind n = Directory)"

text \<open>\<open>PrivateDir\<close> makes a directory that is missing; then there is no lease in it.\<close>

definition load_client :: "string \<Rightarrow> entry gomap \<Rightarrow> (client_error + client_lease) \<times> entry gomap" where
  "load_client i m =
     (case map_of m i of
        None \<Rightarrow> (Inl LocalLeaseUnavailable, AList.update i made_dir m)
      | Some e \<Rightarrow>
          (case en_dir e of
             Some err \<Rightarrow> (Inl (LocalError err), m)
           | None \<Rightarrow>
               (case en_json e of
                  ClientUnreadable \<Rightarrow> (Inl LocalLeaseUnavailable, m)
                | ClientNotJson \<Rightarrow> (Inl LocalLeaseInvalid, m)
                | ClientJson c \<Rightarrow> (Inr c, m))))"

definition remove_entry :: "string \<Rightarrow> entry \<Rightarrow> entry gomap \<Rightarrow> client_error option \<times> entry gomap" where
  "remove_entry i e m = (if en_removable e then (None, AList.delete i m) else (Some LocalFailure, m))"

definition cleanup_lease :: "string \<Rightarrow> entry gomap \<Rightarrow> client_error option \<times> entry gomap" where
  "cleanup_lease i m =
     (if \<not> valid_lease_id i then (Some BadCleanupId, m)
      else case map_of m i of
        None \<Rightarrow> (None, m)
      | Some e \<Rightarrow> if \<not> is_directory e then (Some UnsafeCleanup, m) else remove_entry i e m)"

definition sweep_entry :: "time \<Rightarrow> string \<Rightarrow> entry \<Rightarrow> entry gomap \<Rightarrow> client_error option \<times> entry gomap" where
  "sweep_entry now name e m =
     (if valid_lease_id name \<and> is_directory e then
        (case load_client name m of
           (Inl err, m1) \<Rightarrow> (Some err, m1)
         | (Inr c, m1) \<Rightarrow>
             if is_terminal (le_status (cm_lease c)) \<or> \<not> now < le_hard_expires_at (cm_lease c)
             then cleanup_lease name m1 else (None, m1))
      else if has_prefix name ''opening-'' then
        (case en_mod e of
           None \<Rightarrow> (None, m)
         | Some t \<Rightarrow>
             if now - t > hour then (if \<not> is_directory e then (Some UnsafeOpening, m) else remove_entry name e m)
             else (None, m))
      else (None, m))"

text \<open>The loop over the entries \<open>ReadDir\<close> has listed; an error ends it.\<close>

fun sweep_loop :: "time \<Rightarrow> entry gomap \<Rightarrow> entry gomap \<Rightarrow> client_error option \<times> entry gomap" where
  "sweep_loop now [] m = (None, m)"
| "sweep_loop now ((name, e) # rest) m =
     (case sweep_entry now name e m of
        (Some err, m1) \<Rightarrow> (Some err, m1)
      | (None, m1) \<Rightarrow> sweep_loop now rest m1)"

definition sweep_client :: "time \<Rightarrow> entry gomap \<Rightarrow> client_error option \<times> entry gomap" where
  "sweep_client now m = sweep_loop now m m"

subsection \<open>Commands\<close>

datatype ssh_run = StartFailed | ExitOk | ExitFailed | Interrupted

text \<open>
  What the machine does: the name of the new \<open>opening-\<close> directory, the key written to it, the
  renaming, the two files, and what is left of the directory after \<open>RemoveAll\<close> (nothing, or the
  entry it could not remove).
\<close>

record local_io =
  lo_tmp :: "string option"
  lo_key :: "string option"
  lo_rename :: bool
  lo_left :: "entry option"
  lo_write_cert :: "ssh_error option"
  lo_save :: "ssh_error option"
  lo_now :: time
  lo_resolved :: "string option"
  lo_stat :: "string \<Rightarrow> bool"
  lo_answer :: "string option"
  lo_run :: ssh_run

text \<open>The deferred \<open>RemoveAll\<close> of the directory of a lease that is not kept; its error is dropped.\<close>

definition discard_dir :: "local_io \<Rightarrow> string \<Rightarrow> entry gomap \<Rightarrow> entry gomap" where
  "discard_dir lo name m =
     (case lo_left lo of None \<Rightarrow> AList.delete name m | Some e \<Rightarrow> AList.update name e m)"

text \<open>After \<open>Open\<close> succeeded every failure cancels the lease.\<close>

definition lost_client :: "control \<Rightarrow> string \<Rightarrow> client_error \<Rightarrow> client \<Rightarrow> entry gomap \<Rightarrow> client_error option \<times> client \<times> entry gomap" where
  "lost_client co i err cl m = (Some err, snd (api_close co i Cancelled ''lost_client'' cl), m)"

definition keyed_dir :: "string \<Rightarrow> entry" where
  "keyed_dir pub = made_dir\<lparr>en_pub := Some pub, en_key := True\<rparr>"

definition run_open ::
    "control \<Rightarrow> local_io \<Rightarrow> actor \<Rightarrow> (string \<Rightarrow> open_request) \<Rightarrow> client \<Rightarrow> entry gomap \<Rightarrow> client_error option \<times> client \<times> entry gomap" where
  "run_open co lo a mk cl m =
     (case lo_tmp lo of
        None \<Rightarrow> (Some LocalFailure, cl, m)
      | Some tmp \<Rightarrow>
          (case lo_key lo of
             None \<Rightarrow> (Some LocalFailure, cl, discard_dir lo tmp (AList.update tmp made_dir m))
           | Some pub \<Rightarrow>
               let m1 = AList.update tmp (keyed_dir pub) m in
               (case api_open co a (mk pub) cl of
                  (Inl e, cl1) \<Rightarrow> (Some e, cl1, discard_dir lo tmp m1)
                | (Inr l, cl1) \<Rightarrow>
                    if \<not> lo_rename lo then lost_client co (le_id l) ClientStateUnavailable cl1 (discard_dir lo tmp m1)
                    else let m2 = AList.update (le_id l) (keyed_dir pub) (AList.delete tmp m1);
                             gone = discard_dir lo (le_id l) m2;
                             kept = (\<lambda>cert before. AList.update (le_id l)
                               ((keyed_dir pub)\<lparr>en_json := ClientJson \<lparr>cm_lease = l, cm_valid_before = before\<rparr>, en_cert := cert\<rparr>) m2) in
                      if le_status l = Active then
                        (case api_issue co a (le_id l) pub cl1 of
                           (Inl e, cl2) \<Rightarrow> lost_client co (le_id l) e cl2 gone
                         | (Inr r, cl2) \<Rightarrow>
                             (case lo_write_cert lo of
                                Some e \<Rightarrow> lost_client co (le_id l) (LocalError e) cl2 gone
                              | None \<Rightarrow>
                                  (case lo_save lo of
                                     Some e \<Rightarrow> lost_client co (le_id l) (LocalError e) cl2 gone
                                   | None \<Rightarrow> (None, cl2, kept (ir_certificate r @ [CHR 0x0A]) (is_valid_before (ir_issuance r))))))
                      else (case lo_save lo of
                              Some e \<Rightarrow> lost_client co (le_id l) (LocalError e) cl1 gone
                            | None \<Rightarrow> (None, cl1, kept [] zero_time)))))"

fun objective_loop ::
    "control \<Rightarrow> status \<Rightarrow> string \<Rightarrow> lease list \<Rightarrow> bool \<Rightarrow> client \<Rightarrow> entry gomap \<Rightarrow> bool \<times> client \<times> entry gomap" where
  "objective_loop co st reason [] failed cl m = (failed, cl, m)"
| "objective_loop co st reason (l # ls) failed cl m =
     (case api_close co (le_id l) st reason cl of
        (r, cl1) \<Rightarrow>
          (case cleanup_lease (le_id l) m of
             (e, m1) \<Rightarrow> objective_loop co st reason ls (failed \<or> e \<noteq> None \<or> isl r) cl1 m1))"

definition run_objective ::
    "control \<Rightarrow> string \<Rightarrow> string \<Rightarrow> client \<Rightarrow> entry gomap \<Rightarrow> client_error option \<times> client \<times> entry gomap" where
  "run_objective co action objective cl m =
     (if action \<noteq> ''complete'' \<and> action \<noteq> ''cancel'' then (Some UsageError, cl, m)
      else case api_list co objective cl of
        (Inl e, cl1) \<Rightarrow> (Some e, cl1, m)
      | (Inr ls, cl1) \<Rightarrow>
          (case objective_loop co (if action = ''cancel'' then Cancelled else Completed)
                  (if action = ''cancel'' then ''blocked'' else ''complete'') ls False cl1 m of
             (failed, cl2, m2) \<Rightarrow> (if failed then Some CleanupIncomplete else None, cl2, m2)))"

definition run_status :: "control \<Rightarrow> string \<Rightarrow> client \<Rightarrow> entry gomap \<Rightarrow> client_error option \<times> client \<times> entry gomap" where
  "run_status co i cl m =
     (case api_get co i cl of
        (Inl e, cl1) \<Rightarrow> (Some e, cl1, m)
      | (Inr l, cl1) \<Rightarrow> (None, cl1, if is_terminal (le_status l) then snd (cleanup_lease i m) else m))"

definition run_approve :: "control \<Rightarrow> local_io \<Rightarrow> string \<Rightarrow> string list \<Rightarrow> client \<Rightarrow> client_error option \<times> client" where
  "run_approve co lo i extra cl =
     (case api_get co i cl of
        (Inl e, cl1) \<Rightarrow> (Some e, cl1)
      | (Inr _, cl1) \<Rightarrow>
          if extra \<noteq> [''--yes''] \<and> extra \<noteq> [] then (Some UsageError, cl1)
          else if extra = [] \<and> lo_answer lo \<noteq> Some ''approve'' then (Some ApprovalDeclined, cl1)
          else (case api_approve co i cl1 of (Inl e, cl2) \<Rightarrow> (Some e, cl2) | (Inr _, cl2) \<Rightarrow> (None, cl2)))"

definition run_close :: "control \<Rightarrow> string \<Rightarrow> string \<Rightarrow> client \<Rightarrow> entry gomap \<Rightarrow> client_error option \<times> client \<times> entry gomap" where
  "run_close co action i cl m =
     (let (st, reason) = (if action = ''revoke'' then (Revoked, ''revoked'')
                          else if action = ''cancel'' then (Cancelled, ''cancelled'') else (Completed, ''complete'')) in
      case api_close co i st reason cl of
        (r, cl1) \<Rightarrow> ((case r of Inl e \<Rightarrow> Some e | Inr _ \<Rightarrow> None), cl1, snd (cleanup_lease i m)))"

subsection \<open>Running \<open>ssh\<close>\<close>

text \<open>The arguments and the environment a process was started with, when one was.\<close>

record launch =
  la_argv :: "string list"
  la_environ :: "string list"

type_synonym exec_result = "client_error option \<times> launch option \<times> client \<times> entry gomap"

definition strip_dashes :: "string list \<Rightarrow> string list" where
  "strip_dashes remote = (case remote of r # rest \<Rightarrow> if r = ''--'' then rest else remote | [] \<Rightarrow> [])"

text \<open>A certificate near its end is replaced, and the lease file rewritten.\<close>

definition renew_certificate ::
    "control \<Rightarrow> local_io \<Rightarrow> actor \<Rightarrow> string \<Rightarrow> lease \<Rightarrow> client_lease \<Rightarrow> client \<Rightarrow> entry gomap \<Rightarrow> (client_error + unit) \<times> client \<times> entry gomap" where
  "renew_certificate co lo a i l c cl m =
     (case parse_duration (se_frac (co_env co)) (le_renew_before l) of
        None \<Rightarrow> (Inl BadRenewal, cl, m)
      | Some renew \<Rightarrow>
          if renew \<le> 0 then (Inl BadRenewal, cl, m)
          else if \<not> cm_valid_before c - lo_now lo < renew then (Inr (), cl, m)
          else case map_of m i of
            None \<Rightarrow> (Inl LocalFailure, cl, m)
          | Some e \<Rightarrow>
              (case en_pub e of
                 None \<Rightarrow> (Inl LocalFailure, cl, m)
               | Some pub \<Rightarrow>
                   (case api_issue co a i (trim_space pub) cl of
                      (Inl err, cl1) \<Rightarrow> (Inl err, cl1, m)
                    | (Inr r, cl1) \<Rightarrow>
                        (case lo_write_cert lo of
                           Some err \<Rightarrow> (Inl (LocalError err), cl1, m)
                         | None \<Rightarrow>
                             (let e1 = e\<lparr>en_cert := ir_certificate r @ [CHR 0x0A]\<rparr> in
                              case lo_save lo of
                                Some err \<Rightarrow> (Inl (LocalError err), cl1, AList.update i e1 m)
                              | None \<Rightarrow> (Inr (), cl1, AList.update i
                                  (e1\<lparr>en_json := ClientJson \<lparr>cm_lease = l, cm_valid_before = is_valid_before (ir_issuance r)\<rparr>\<rparr>) m))))))"

definition exec_argv ::
    "local_io \<Rightarrow> string \<Rightarrow> string \<Rightarrow> lease \<Rightarrow> bool \<Rightarrow> string list \<Rightarrow> entry gomap \<Rightarrow> client_error + string list" where
  "exec_argv lo root i l interactive remote m =
     (if \<not> (case map_of m i of None \<Rightarrow> False | Some e \<Rightarrow> en_key e) then Inl NoLocalKey
      else case resolve_alias (lo_resolved lo) of
        None \<Rightarrow> Inl LocalFailure
      | Some resolved \<Rightarrow>
          if \<not> interactive \<and> strip_dashes remote = [] then Inl UsageError
          else if interactive \<and> strip_dashes remote \<noteq> [] then Inl UsageError
          else ssh_args (lo_stat lo) l (path_join root i) resolved interactive (strip_dashes remote))"

definition run_exec ::
    "control \<Rightarrow> local_io \<Rightarrow> actor \<Rightarrow> string \<Rightarrow> string list \<Rightarrow> bool \<Rightarrow> string \<Rightarrow> string list \<Rightarrow> client \<Rightarrow> entry gomap \<Rightarrow> exec_result" where
  "run_exec co lo a root environ interactive i remote cl m =
     (case load_client i m of
        (Inl e, m1) \<Rightarrow> (Some e, None, cl, m1)
      | (Inr c, m1) \<Rightarrow>
          (case api_get co i cl of
             (Inl e, cl1) \<Rightarrow> (Some ClientDenied, None, cl1, m1)
           | (Inr l, cl1) \<Rightarrow>
               if le_status l \<noteq> Active then
                 (Some ClientDenied, None, cl1, if is_terminal (le_status l) then snd (cleanup_lease i m1) else m1)
               else if le_id (cm_lease c) \<noteq> le_id l \<or> le_fingerprint (cm_lease c) \<noteq> le_fingerprint l then
                 (Some LeaseMismatch, None, cl1, m1)
               else case renew_certificate co lo a i l c cl1 m1 of
                 (Inl e, cl2, m2) \<Rightarrow> (Some e, None, cl2, m2)
               | (Inr _, cl2, m2) \<Rightarrow>
                   (case exec_argv lo root i l interactive remote m2 of
                      Inl e \<Rightarrow> (Some e, None, cl2, m2)
                    | Inr argv \<Rightarrow>
                        (let la = \<lparr>la_argv = argv, la_environ = ssh_transport_env environ\<rparr> in
                         case lo_run lo of
                           StartFailed \<Rightarrow> (Some SessionFailed, None, cl2, m2)
                         | ExitOk \<Rightarrow> (None, Some la, cl2, m2)
                         | ExitFailed \<Rightarrow> (Some SessionFailed, Some la, cl2, m2)
                         | Interrupted \<Rightarrow> (Some SessionCancelled, Some la, snd (api_close co i Cancelled ''shutdown'' cl2),
                                         snd (cleanup_lease i m2))))))"

subsection \<open>The command line\<close>

text \<open>
  \<open>parse_open\<close> is the flag parser of \<open>ssh open\<close>: the request for a public key, or \<open>None\<close> for bad flags and for
  extra arguments. \<open>gate\<close>, \<open>ca\<close> and \<open>host\<close> are separate commands.
\<close>

definition run_ssh ::
    "control \<Rightarrow> local_io \<Rightarrow> actor \<Rightarrow> ssh_error option \<Rightarrow> (string list \<Rightarrow> (string \<Rightarrow> open_request) option) \<Rightarrow> string \<Rightarrow> string list
     \<Rightarrow> string list \<Rightarrow> entry gomap \<Rightarrow> exec_result" where
  "run_ssh co lo a root_dir parse_open root environ args m =
     (case args of
        [] \<Rightarrow> (Some UsageError, None, new_client, m)
      | cmd # rest \<Rightarrow>
          (case root_dir of
             Some e \<Rightarrow> (Some (LocalError e), None, new_client, m)
           | None \<Rightarrow>
               (case sweep_client (lo_now lo) m of
                  (Some e, m1) \<Rightarrow> (Some e, None, new_client, m1)
                | (None, m1) \<Rightarrow>
                    let plain = (\<lambda>(e, cl, m2). (e, None, cl, m2)) in
                    if cmd = ''open'' then
                      (case parse_open rest of
                         None \<Rightarrow> (Some UsageError, None, new_client, m1)
                       | Some mk \<Rightarrow> plain (run_open co lo a mk new_client m1))
                    else if cmd = ''objective'' then
                      (case rest of
                         [action, objective] \<Rightarrow> plain (run_objective co action objective new_client m1)
                       | _ \<Rightarrow> (Some UsageError, None, new_client, m1))
                    else (case rest of
                            [] \<Rightarrow> (Some UsageError, None, new_client, m1)
                          | i # extra \<Rightarrow>
                              if \<not> valid_lease_id i then (Some UsageError, None, new_client, m1)
                              else if cmd = ''status'' then plain (run_status co i new_client m1)
                              else if cmd = ''approve'' then
                                (case run_approve co lo i extra new_client of (e, cl) \<Rightarrow> (e, None, cl, m1))
                              else if cmd \<in> {''complete'', ''cancel'', ''revoke''} then plain (run_close co cmd i new_client m1)
                              else if cmd = ''exec'' \<or> cmd = ''connect'' then
                                run_exec co lo a root environ (cmd = ''connect'') i extra new_client m1
                              else (Some UsageError, None, new_client, m1)))))"

subsection \<open>What the commands guarantee\<close>

definition cancel_call :: "string \<Rightarrow> api_call" where
  "cancel_call i = \<lparr>ap_method = ''POST'', ap_path = ''/v1/ssh/leases/'' @ i @ ''/cancel'', ap_body = ReasonBody ''lost_client''\<rparr>"

lemma api_send_log: "cl_log (snd (api_send srv m p b cl)) = cl_log cl @ [\<lparr>ap_method = m, ap_path = ''/v1/ssh/leases'' @ p, ap_body = b\<rparr>]"
  by (auto simp: api_send_def Let_def split: option.split prod.split)

lemma lost_client_result:
  "lost_client co i err cl m = (e, cl', m') \<Longrightarrow> e = Some err \<and> m' = m \<and> last (cl_log cl') = cancel_call i"
  using api_send_log [of "co_lease co" "''POST''" "''/'' @ i @ ''/cancel''" "ReasonBody ''lost_client''" cl]
  by (auto simp: lost_client_def api_close_def close_action_def cancel_call_def)

lemma map_of_discard:
  "map_of (discard_dir lo n m) = (case lo_left lo of None \<Rightarrow> (map_of m)(n := None) | Some e \<Rightarrow> (map_of m)(n \<mapsto> e))"
  by (simp add: discard_dir_def delete_conv' update_conv' split: option.split)

text \<open>
  (C20) What a failed \<open>ssh open\<close> leaves behind, once its temporary directory and key are made. When the
  call to the control API fails (no reply, a refusal, or a reply the client rejects), its error is the
  result and nothing more is sent: a lease opened by a reply that is rejected is not cancelled. When the lease is
  opened and anything fails after it (the renaming, the certificate, its file, the lease file), the last
  call cancels exactly that lease with the reason \<open>lost_client\<close>. The cache directory, where the
  names of the temporary directory and of the lease are new, ends with the entries it had; only when \<open>RemoveAll\<close> fails, what it left stays, as the temporary directory, or as the
  lease's directory after the renaming.
\<close>

theorem open_failure_cancels:
  assumes "run_open co lo a mk cl m = (Some err, cl', m')"
    and "lo_tmp lo = Some tmp" and "map_of m tmp = None" and "lo_key lo = Some pub"
  shows "(\<exists>e. api_open co a (mk pub) cl = (Inl e, cl') \<and> err = e
        \<and> map_of m' = (case lo_left lo of None \<Rightarrow> map_of m | Some d \<Rightarrow> (map_of m)(tmp \<mapsto> d)))
     \<or> (\<exists>l cl1. api_open co a (mk pub) cl = (Inr l, cl1) \<and> last (cl_log cl') = cancel_call (le_id l)
        \<and> (map_of m (le_id l) = None \<longrightarrow> map_of m' = (case lo_left lo of None \<Rightarrow> map_of m
             | Some d \<Rightarrow> (map_of m)((if lo_rename lo then le_id l else tmp) \<mapsto> d))))"
proof (cases "api_open co a (mk pub) cl")
  case (Pair r cl1)
  let ?m1 = "AList.update tmp (keyed_dir pub) m"
  show ?thesis
  proof (cases r)
    case (Inl e)
    then have "cl' = cl1 \<and> err = e \<and> m' = discard_dir lo tmp ?m1"
      using assms(1,2,4) Pair by (simp add: run_open_def Let_def)
    then show ?thesis using Pair Inl assms(3)
      by (simp add: map_of_discard update_conv' fun_upd_idem split: option.split)
  next
    case (Inr l)
    let ?m2 = "AList.update (le_id l) (keyed_dir pub) (AList.delete tmp ?m1)"
    obtain err2 cl2 m2 where c: "lost_client co (le_id l) err2 cl2 m2 = (Some err, cl', m')"
        "m2 = (if lo_rename lo then discard_dir lo (le_id l) ?m2 else discard_dir lo tmp ?m1)"
      using assms(1,2,4) Pair Inr by (auto simp: run_open_def Let_def split: if_splits sum.splits prod.splits option.splits)
    have m': "m' = m2" and l: "last (cl_log cl') = cancel_call (le_id l)" using lost_client_result [OF c(1)] by simp_all
    have "map_of m' = (case lo_left lo of None \<Rightarrow> map_of m
        | Some d \<Rightarrow> (map_of m)((if lo_rename lo then le_id l else tmp) \<mapsto> d))" if "map_of m (le_id l) = None"
      unfolding m' c(2) using that assms(3)
      by (auto simp: map_of_discard update_conv' delete_conv' fun_upd_idem split: option.split)
    then show ?thesis using Pair Inr l by auto
  qed
qed

text \<open>The command line of a successful \<open>ssh_args\<close>: fixed options, the host as one word that is no option, the
  quoted command as the last word.\<close>

definition argv_for :: "(string \<Rightarrow> bool) \<Rightarrow> lease \<Rightarrow> string \<Rightarrow> string gomap \<Rightarrow> bool \<Rightarrow> string list \<Rightarrow> string list \<Rightarrow> bool" where
  "argv_for stat l dir resolved interactive remote argv \<longleftrightarrow>
     (\<exists>hostname port jump. hostname = at_or [] resolved ''hostname'' \<and> hostname \<noteq> [] \<and> \<not> has_prefix hostname ''-''
        \<and> 1 \<le> port \<and> port \<le> 65535 \<and> jump_args l hostname port = Inr jump
        \<and> argv = base_args dir (le_ssh_user l) port @ concat (map (known_hosts_arg stat resolved) known_hosts_fields) @ jump
             @ [if interactive then ''-tt'' else ''-T'', hostname] @ (if remote = [] then [] else [quote_words remote]))"

lemma ssh_args_Inr:
  assumes "ssh_args stat l dir resolved interactive remote = Inr argv"
  shows "argv_for stat l dir resolved interactive remote argv \<and> (interactive \<longrightarrow> ro_pty (le_policy l))"
proof -
  let ?h = "at_or [] resolved ''hostname''"
  note a = assms [unfolded ssh_args_def Let_def]
  have h: "?h \<noteq> [] \<and> \<not> any_of ?h line_ends \<and> \<not> has_prefix ?h ''-''" using a by (auto split: if_split_asm)
  obtain port where p: "parse_int64 (at_or [] resolved ''port'') = Some port" using a h by (auto split: option.splits)
  have r: "1 \<le> port" "port \<le> 65535" "interactive \<longrightarrow> ro_pty (le_policy l)" using a h p by (auto split: if_split_asm)
  obtain jump where j: "jump_args l ?h (nat port) = Inr jump" using a h p r by (auto split: sum.splits)
  have "argv = base_args dir (le_ssh_user l) (nat port) @ concat (map (known_hosts_arg stat resolved) known_hosts_fields) @ jump
             @ [if interactive then ''-tt'' else ''-T'', ?h] @ (if remote = [] then [] else [quote_words remote])"
    using a h p r j by (simp split: if_split_asm)
  moreover have "1 \<le> nat port" "nat port \<le> 65535" using r by auto
  ultimately show ?thesis using h j r(3) unfolding argv_for_def by blast
qed

lemma api_issue_Inr: "api_issue co a i pub cl = (Inr r, cl') \<Longrightarrow> cl_initial cl = None \<Longrightarrow> issue_reply_ok co a i pub r"
  by (auto simp: api_issue_def split: prod.splits sum.splits if_splits)

lemma renew_certificate_Inr:
  assumes "renew_certificate co lo a i l c cl m = (Inr u, cl', m')" and "cl_initial cl = None"
  shows "\<exists>renew. parse_duration (se_frac (co_env co)) (le_renew_before l) = Some renew \<and> 0 < renew
    \<and> (renew \<le> cm_valid_before c - lo_now lo \<or> (\<exists>pub r cl2. api_issue co a i pub cl = (Inr r, cl2) \<and> issue_reply_ok co a i pub r))"
proof -
  note d = assms(1) [unfolded renew_certificate_def]
  obtain renew where r: "parse_duration (se_frac (co_env co)) (le_renew_before l) = Some renew" using d by (auto split: option.splits)
  have p: "0 < renew" using d r by (auto split: if_split_asm)
  show ?thesis
  proof (cases "cm_valid_before c - lo_now lo < renew")
    case True
    then obtain e pub where "map_of m i = Some e" "en_pub e = Some pub" using d r p by (auto split: option.splits)
    then obtain r2 cl2 where "api_issue co a i (trim_space pub) cl = (Inr r2, cl2)"
      using d r p True by (auto split: prod.splits sum.splits)
    then show ?thesis using r p api_issue_Inr assms(2) by blast
  qed (use r p in auto)
qed

lemma api_send_initial: "cl_initial (snd (api_send srv m p b cl)) = cl_initial cl"
  by (auto simp: api_send_def Let_def split: option.split prod.split)

lemma api_get_Inr:
  assumes "api_get co i cl = (Inr l, cl')"
  shows "le_id l = i \<and> safe_lease l \<and> cl_initial cl' = cl_initial cl"
  using assms api_send_initial [of "co_lease co" "''GET''" "''/'' @ i" NoBody cl]
  by (auto simp: api_get_def split: prod.splits sum.splits if_splits)

text \<open>
  (C19) An \<open>ssh\<close> process is started only for a lease the control API has just reported active: with this id, this
  key and well-formed fields, whose certificate either lasts longer than the renewal window or was
  just replaced by one that passed the reply checks. Its command line is the fixed options, one
  host word that cannot be read as an option, and the quoted command as one last word; a terminal is
  asked for exactly when the role permits it; and the process inherits only four variables.
\<close>

theorem session_needs_live_lease:
  assumes "run_exec co lo a root environ interactive i remote cl m = (e, Some la, cl', m')" and "cl_initial cl = None"
  shows "\<exists>c m1 l cl1 renew resolved. load_client i m = (Inr c, m1) \<and> api_get co i cl = (Inr l, cl1)
    \<and> le_status l = Active \<and> safe_lease l \<and> le_id l = i \<and> le_id (cm_lease c) = i \<and> le_fingerprint (cm_lease c) = le_fingerprint l
    \<and> parse_duration (se_frac (co_env co)) (le_renew_before l) = Some renew \<and> 0 < renew
    \<and> (renew \<le> cm_valid_before c - lo_now lo \<or> (\<exists>pub r cl2. api_issue co a i pub cl1 = (Inr r, cl2) \<and> issue_reply_ok co a i pub r))
    \<and> resolve_alias (lo_resolved lo) = Some resolved
    \<and> argv_for (lo_stat lo) l (path_join root i) resolved interactive (strip_dashes remote) (la_argv la)
    \<and> (interactive \<longrightarrow> ro_pty (le_policy l)) \<and> (interactive \<longleftrightarrow> strip_dashes remote = [])
    \<and> list_all (\<lambda>v. fst (split_2 (CHR ''='') v) \<in> {''PATH'', ''HOME'', ''USER'', ''LOGNAME''}) (la_environ la)"
proof -
  obtain c m1 where c: "load_client i m = (Inr c, m1)"
    using assms(1) by (auto simp: run_exec_def split: prod.splits sum.splits)
  obtain l cl1 where l: "api_get co i cl = (Inr l, cl1)"
    using assms(1) c by (auto simp: run_exec_def split: prod.splits sum.splits)
  note g = api_get_Inr [OF l]
  have s: "le_status l = Active" "le_id (cm_lease c) = le_id l" "le_fingerprint (cm_lease c) = le_fingerprint l"
    using assms(1) c l by (auto simp: run_exec_def split: if_split_asm)
  obtain u cl2 m2 where r: "renew_certificate co lo a i l c cl1 m1 = (Inr u, cl2, m2)"
    using assms(1) c l s by (auto simp: run_exec_def split: prod.splits sum.splits)
  obtain argv where v: "exec_argv lo root i l interactive remote m2 = Inr argv"
    using assms(1) c l s r by (auto simp: run_exec_def split: sum.splits)
  have la: "la = \<lparr>la_argv = argv, la_environ = ssh_transport_env environ\<rparr>"
    using assms(1) c l s r v by (auto simp: run_exec_def Let_def split: ssh_run.splits)
  obtain resolved where rs: "resolve_alias (lo_resolved lo) = Some resolved" "interactive \<longleftrightarrow> strip_dashes remote = []"
    "ssh_args (lo_stat lo) l (path_join root i) resolved interactive (strip_dashes remote) = Inr argv"
    using v by (auto simp: exec_argv_def split: if_splits option.splits)
  obtain renew where n: "parse_duration (se_frac (co_env co)) (le_renew_before l) = Some renew" "0 < renew"
    "renew \<le> cm_valid_before c - lo_now lo \<or> (\<exists>pub r cl2. api_issue co a i pub cl1 = (Inr r, cl2) \<and> issue_reply_ok co a i pub r)"
    using renew_certificate_Inr [OF r] g assms(2) by auto
  have env: "list_all (\<lambda>v. fst (split_2 (CHR ''='') v) \<in> {''PATH'', ''HOME'', ''USER'', ''LOGNAME''}) (la_environ la)"
    unfolding la launch.simps ssh_transport_env_def list_all_iff by simp
  have args: "argv_for (lo_stat lo) l (path_join root i) resolved interactive (strip_dashes remote) (la_argv la)"
    "interactive \<longrightarrow> ro_pty (le_policy l)"
    using ssh_args_Inr [OF rs(3)] la by simp_all
  show ?thesis
    by (rule exI [of _ c], rule exI [of _ m1], rule exI [of _ l], rule exI [of _ cl1], rule exI [of _ renew], rule exI [of _ resolved])
       (intro conjI c l s(1,3) rs(1,2) n args env, use g s(2) in simp_all)
qed

subsection \<open>A sample session\<close>

definition session_lease :: lease where
  "session_lease = sample_lease\<lparr>le_renew_before := ''5m''\<rparr>"

definition sample_control :: control where
  "sample_control = \<lparr>co_env = ssh_sample_env, co_open = (\<lambda>_ _. Some (201, Some (session_lease, [],
       \<lparr>is_lease_id = [], is_serial = 0, is_fingerprint = [], is_valid_after = 0, is_valid_before = 0, is_issued_at = 0\<rparr>))),
     co_issue = (\<lambda>_ _. None), co_lease = (\<lambda>_ _. Some (200, Some session_lease)), co_list = (\<lambda>_ _. None), co_escape = id\<rparr>"

definition sample_local :: local_io where
  "sample_local = \<lparr>lo_tmp = Some ''opening-1'', lo_key = Some sample_key, lo_rename = True, lo_left = None, lo_write_cert = None, lo_save = None, lo_now = 0,
     lo_resolved = Some (''hostname web.example'' @ [CHR 0x0A] @ ''port 22''), lo_stat = (\<lambda>_. True), lo_answer = None, lo_run = ExitOk\<rparr>"

definition sample_entries :: "entry gomap" where
  "sample_entries = [(le_id session_lease, made_dir\<lparr>en_json := ClientJson \<lparr>cm_lease = session_lease, cm_valid_before = hour\<rparr>, en_key := True\<rparr>)]"

lemma session_lease_fields [simp]: "le_id session_lease = hex_encode sample_rnd" "le_status session_lease = Active"
  "le_hard_expires_at session_lease = 300000000000" "le_opened_at session_lease = 0" "le_ssh_user session_lease = ''agent''"
  "le_ssh_alias session_lease = ''web''" "le_ssh_jump_alias session_lease = []" "le_workspace session_lease = ''local''"
  "le_host_id session_lease = ''web''" "le_role_id session_lease = ''observe''" "le_agent_class session_lease = ''pi''"
  "le_objective_id session_lease = ''fix''" "le_requester session_lease = ''bot''" "le_requester_id session_lease = ''b''"
  "le_purpose session_lease = ''look''" "le_fingerprint session_lease = sample_fp" "le_renew_before session_lease = ''5m''"
  "le_policy session_lease = ssh_sample_role" "le_principal session_lease = lease_principal ''local'' ''web'' ''observe''"
  by (simp_all add: session_lease_def sample_lease_def new_lease_def Let_def bot_def sample_open_def ssh_sample_config_def
      at_or_def ssh_sample_role_def empty_role_def)

lemma sample_safe: "safe_lease session_lease"
proof -
  have "identifier_ok ''local''" "identifier_ok ''web''" "identifier_ok ''observe''" "identifier_ok ''agent''"
    "identifier_ok ''pi''" "identifier_ok ''bot''" "identifier_ok ''fix''" "valid_lease_id (hex_encode sample_rnd)" by code_simp+
  then show ?thesis by (simp add: safe_lease_def known_status_def ssh_sample_role_def empty_role_def)
qed

lemma sample_get: "api_get sample_control (le_id session_lease) cl
    = (Inr session_lease, cl\<lparr>cl_log := cl_log cl @ [\<lparr>ap_method = ''GET'', ap_path = ''/v1/ssh/leases/'' @ le_id session_lease, ap_body = NoBody\<rparr>]\<rparr>)"
  using sample_safe by (simp add: api_get_def api_send_def sample_control_def)

lemma sample_renew: "parse_duration (se_frac ssh_sample_env) (le_renew_before session_lease) = Some (5 * minute)"
  by (simp add: minute_def second_def)

lemma sample_argv: "\<exists>argv. exec_argv sample_local ''/c'' (le_id session_lease) session_lease False [''--'', ''status''] sample_entries = Inr argv"
proof -
  have "alias_lines (split_on (CHR 0x0A) (''hostname web.example'' @ [CHR 0x0A] @ ''port 22'')) [] = [(''hostname'', ''web.example''), (''port'', ''22'')]"
    by code_simp
  moreover have "parse_int64 ''22'' = Some 22" by code_simp
  ultimately have "\<exists>argv. ssh_args (\<lambda>_. True) session_lease p [(''hostname'', ''web.example''), (''port'', ''22'')] False [''status''] = Inr argv" for p
    by (simp add: ssh_args_def at_or_def any_of_def line_ends_def jump_args_def Let_def)
  then show ?thesis
    using \<open>alias_lines _ [] = _\<close>
    by (simp add: exec_argv_def sample_entries_def sample_local_def resolve_alias_def strip_dashes_def)
qed

lemma sample_session:
  "\<exists>e la cl' m'. run_exec sample_control sample_local bot ''/c'' [''PATH=/bin'', ''PINS21_TOKEN=x''] False (le_id session_lease)
     [''--'', ''status''] new_client sample_entries = (e, Some la, cl', m')"
proof -
  have c: "load_client (le_id session_lease) sample_entries
      = (Inr \<lparr>cm_lease = session_lease, cm_valid_before = hour\<rparr>, sample_entries)"
    by (simp add: load_client_def sample_entries_def made_dir_def)
  have r: "renew_certificate sample_control sample_local bot (le_id session_lease) session_lease
      \<lparr>cm_lease = session_lease, cm_valid_before = hour\<rparr> cl sample_entries = (Inr (), cl, sample_entries)" for cl
    using sample_renew by (simp add: renew_certificate_def sample_control_def sample_local_def hour_def minute_def second_def)
  obtain argv where "exec_argv sample_local ''/c'' (le_id session_lease) session_lease False [''--'', ''status''] sample_entries = Inr argv"
    using sample_argv by blast
  then show ?thesis
    using c sample_get r by (simp add: run_exec_def Let_def) (simp add: sample_local_def)
qed

theorem session_needs_live_lease_witness:
  "\<exists>argv resolved. argv_for (lo_stat sample_local) session_lease (path_join ''/c'' (le_id session_lease)) resolved False [''status''] argv"
proof -
  obtain e la cl' m' where x: "run_exec sample_control sample_local bot ''/c'' [''PATH=/bin'', ''PINS21_TOKEN=x''] False (le_id session_lease)
     [''--'', ''status''] new_client sample_entries = (e, Some la, cl', m')"
    using sample_session by blast
  obtain l cl1 resolved where "api_get sample_control (le_id session_lease) new_client = (Inr l, cl1)"
    "argv_for (lo_stat sample_local) l (path_join ''/c'' (le_id session_lease)) resolved False (strip_dashes [''--'', ''status'']) (la_argv la)"
    using session_needs_live_lease [OF x] by (auto simp: new_client_def)
  then show ?thesis using sample_get by (auto simp: strip_dashes_def)
qed

definition sample_failing :: local_io where
  "sample_failing = sample_local\<lparr>lo_rename := False\<rparr>"

lemma sample_api_open:
  "\<exists>cl1. api_open sample_control bot sample_open new_client = (Inr session_lease, cl1)"
  using sample_safe
  by (simp add: api_open_def api_send_def sample_control_def) (simp add: sample_open_def bot_def)

theorem open_failure_cancels_witness:
  "\<exists>err cl' m'. run_open sample_control sample_failing bot (\<lambda>pub. sample_open) new_client sample_entries = (Some err, cl', m')
     \<and> last (cl_log cl') = cancel_call (le_id session_lease)"
proof -
  obtain cl1 where o: "api_open sample_control bot sample_open new_client = (Inr session_lease, cl1)"
    using sample_api_open by blast
  then obtain err cl' m' where r: "run_open sample_control sample_failing bot (\<lambda>pub. sample_open) new_client sample_entries = (Some err, cl', m')"
    by (simp add: run_open_def lost_client_def sample_failing_def sample_local_def)
  have t: "lo_tmp sample_failing = Some ''opening-1''" and k: "lo_key sample_failing = Some sample_key"
    by (simp_all add: sample_failing_def sample_local_def)
  have "length (hex_encode sample_rnd) \<noteq> length ''opening-1''" by (simp add: length_hex_encode) presburger
  then have "le_id session_lease \<noteq> ''opening-1''" unfolding session_lease_fields by metis
  then have n: "map_of sample_entries ''opening-1'' = None" by (simp add: sample_entries_def)
  have "\<exists>l cl2. (Inr session_lease, cl1) = (Inr l :: client_error + lease, cl2) \<and> last (cl_log cl') = cancel_call (le_id l)"
    using open_failure_cancels [OF r t n k] unfolding o by blast
  then have "last (cl_log cl') = cancel_call (le_id session_lease)" by (simp only: prod.inject sum.inject) blast
  then show ?thesis using r by blast
qed

end
