(* ===== verification/NetAddr.thy ===== *)
theory NetAddr
  imports Encoding
begin

text \<open>
  Addresses and prefixes of \<open>net/netip\<close>, as far as the network code uses them: \<open>ParseAddr\<close>,
  \<open>ParsePrefix\<close>, \<open>String\<close>, \<open>Contains\<close>, \<open>Overlaps\<close>, \<open>Masked\<close> and \<open>IsPrivate\<close>. An address is
  its bytes, 4 or 16, and for IPv6 the zone. An IPv4-mapped IPv6 address stays an IPv6 address.
\<close>

datatype net_addr = V4 "nat list" | V6 "nat list" string

definition is_v4 :: "net_addr \<Rightarrow> bool" where
  "is_v4 a \<longleftrightarrow> (case a of V4 _ \<Rightarrow> True | V6 _ _ \<Rightarrow> False)"

subsection \<open>Parsing addresses\<close>

definition v4_field :: "string \<Rightarrow> nat option" where
  "v4_field s =
     (if s = [] \<or> length s > 3 \<or> \<not> list_all is_digit s \<or> (length s > 1 \<and> hd s = CHR ''0'') then None
      else if digits_value s > 255 then None else Some (digits_value s))"

definition parse_v4 :: "string \<Rightarrow> nat list option" where
  "parse_v4 s = (let fs = split_on CHR ''.'' s in if length fs \<noteq> 4 then None else all_some (map v4_field fs))"

definition is_hex :: "char \<Rightarrow> bool" where
  "is_hex c \<longleftrightarrow> hex_value c \<noteq> None"

definition hex_group :: "string \<Rightarrow> nat" where
  "hex_group g = foldl (\<lambda>v c. 16 * v + (case hex_value c of Some d \<Rightarrow> d | None \<Rightarrow> 0)) 0 g"

text \<open>The loop of \<open>parseIPv6\<close>: the bytes read, the place of the ellipsis, the rest.\<close>

text \<open>One group: its two bytes and what follows it. \<open>Inl\<close> marks the end of the loop.\<close>

definition v6_step ::
    "nat list \<Rightarrow> nat option \<Rightarrow> string
     \<Rightarrow> ((nat list \<times> nat option \<times> string) option) + (nat list \<times> nat option \<times> string)" where
  "v6_step ip el s =
     (let g = takeWhile is_hex s; r = drop (length g) s; v = hex_group g; ip' = ip @ [v div 256, v mod 256] in
        if g = [] \<or> length g > 4 then Inl None
        else case r of
          [] \<Rightarrow> Inl (Some (ip', el, []))
        | c # t \<Rightarrow>
            if c = CHR ''.'' then
              (if (el = None \<and> length ip \<noteq> 12) \<or> length ip + 4 > 16 then Inl None
               else Inl (map_option (\<lambda>b. (ip @ b, el, [])) (parse_v4 s)))
            else if c \<noteq> CHR '':'' then Inl None
            else (case t of
              [] \<Rightarrow> Inl None
            | d # u \<Rightarrow>
                if d = CHR '':'' then
                  (if el \<noteq> None then Inl None
                   else if u = [] then Inl (Some (ip', Some (length ip'), []))
                   else Inr (ip', Some (length ip'), u))
                else Inr (ip', el, t)))"

lemma v6_step_less: "v6_step ip el s = Inr (ip', el', s') \<Longrightarrow> length s' < length s"
proof -
  assume a: "v6_step ip el s = Inr (ip', el', s')"
  obtain c t where r: "drop (length (takeWhile is_hex s)) s = c # t"
    using a by (auto simp: v6_step_def Let_def split: list.splits if_splits)
  moreover have "length (drop (length (takeWhile is_hex s)) s) \<le> length s" by simp
  ultimately have "length t < length s" by simp
  moreover have "s' = t \<or> s' = tl t" using a r by (auto simp: v6_step_def Let_def split: list.splits if_splits)
  ultimately show ?thesis by auto
qed

function v6_loop :: "nat list \<Rightarrow> nat option \<Rightarrow> string \<Rightarrow> (nat list \<times> nat option \<times> string) option" where
  "v6_loop ip el s =
     (if length ip \<ge> 16 then Some (ip, el, s)
      else case v6_step ip el s of
        Inl r \<Rightarrow> r
      | Inr (ip', el', s') \<Rightarrow> v6_loop ip' el' s')"
  by pat_completeness auto
termination
  by (relation "measure (\<lambda>(ip, el, s). length s)") (auto dest: v6_step_less)

declare v6_loop.simps [simp del]

definition expand_ellipsis :: "nat list \<Rightarrow> nat option \<Rightarrow> nat list option" where
  "expand_ellipsis ip el =
     (if length ip < 16 then
        (case el of None \<Rightarrow> None | Some e \<Rightarrow> Some (take e ip @ replicate (16 - length ip) 0 @ drop e ip))
      else if el = None then Some ip else None)"

definition parse_v6 :: "string \<Rightarrow> net_addr option" where
  "parse_v6 str =
     (case split_2 CHR ''%'' str of (s, z) \<Rightarrow>
        if z = Some [] then None
        else let zone = (case z of None \<Rightarrow> [] | Some w \<Rightarrow> w) in
          if has_prefix s ''::'' \<and> drop 2 s = [] then Some (V6 (replicate 16 0) zone)
          else case (if has_prefix s ''::'' then v6_loop [] (Some 0) (drop 2 s) else v6_loop [] None s) of
            Some (ip, el, []) \<Rightarrow> map_option (\<lambda>b. V6 b zone) (expand_ellipsis ip el)
          | _ \<Rightarrow> None)"

text \<open>The first of the bytes \<open>.\<close>, \<open>:\<close> and \<open>%\<close> decides the family.\<close>

definition parse_addr :: "string \<Rightarrow> net_addr option" where
  "parse_addr s =
     (case dropWhile (\<lambda>c. c \<noteq> CHR ''.'' \<and> c \<noteq> CHR '':'' \<and> c \<noteq> CHR ''%'') s of
        [] \<Rightarrow> None
      | c # _ \<Rightarrow>
          if c = CHR ''.'' then map_option V4 (parse_v4 s)
          else if c = CHR '':'' then parse_v6 s else None)"

subsection \<open>Printing addresses\<close>

definition hex_nat :: "nat \<Rightarrow> string" where
  "hex_nat n = (let d = map hex_char [n div 4096 mod 16, n div 256 mod 16, n div 16 mod 16, n mod 16];
                    t = dropWhile (\<lambda>c. c = CHR ''0'') d in if t = [] then ''0'' else t)"

fun to_groups :: "nat list \<Rightarrow> nat list" where
  "to_groups (a # b # s) = (256 * a + b) # to_groups s"
| "to_groups _ = []"

text \<open>The first longest run of at least two zero groups, as start and end.\<close>

definition zero_run :: "nat list \<Rightarrow> nat \<Rightarrow> nat" where
  "zero_run gs i = length (takeWhile (\<lambda>g. g = 0) (drop i gs))"

definition longest_zeros :: "nat list \<Rightarrow> nat \<times> nat" where
  "longest_zeros gs =
     foldl (\<lambda>(a, b) i. if zero_run gs i \<ge> 2 \<and> zero_run gs i > b - a then (i, i + zero_run gs i) else (a, b))
       (255, 255) [0..<8]"

definition v6_text :: "nat list \<Rightarrow> string" where
  "v6_text bs =
     (let gs = to_groups bs; (a, b) = longest_zeros gs; colons = join_with '':''
      in if a = 255 then colons (map hex_nat gs)
         else colons (map hex_nat (take a gs)) @ ''::'' @ colons (map hex_nat (drop b gs)))"

definition v4_text :: "nat list \<Rightarrow> string" where
  "v4_text bs = join_with ''.'' (map dec_nat bs)"

definition addr_text :: "net_addr \<Rightarrow> string" where
  "addr_text a =
     (case a of
        V4 bs \<Rightarrow> v4_text bs
      | V6 bs z \<Rightarrow>
          (if take 12 bs = replicate 10 0 @ [255, 255] then ''::ffff:'' @ v4_text (drop 12 bs) else v6_text bs)
          @ (if z = [] then [] else CHR ''%'' # z))"

subsection \<open>Prefixes\<close>

record net_prefix =
  np_addr :: net_addr
  np_bits :: nat

definition addr_bits :: "net_addr \<Rightarrow> nat" where
  "addr_bits a = (if is_v4 a then 32 else 128)"

definition addr_bytes :: "net_addr \<Rightarrow> nat list" where
  "addr_bytes a = (case a of V4 bs \<Rightarrow> bs | V6 bs _ \<Rightarrow> bs)"

definition addr_zone :: "net_addr \<Rightarrow> string" where
  "addr_zone a = (case a of V4 _ \<Rightarrow> [] | V6 _ z \<Rightarrow> z)"

definition bytes_value :: "nat list \<Rightarrow> nat" where
  "bytes_value bs = foldl (\<lambda>v b. 256 * v + b) 0 bs"

fun value_bytes :: "nat \<Rightarrow> nat \<Rightarrow> nat list" where
  "value_bytes 0 v = []"
| "value_bytes (Suc n) v = value_bytes n (v div 256) @ [v mod 256]"

text \<open>The leading \<open>n\<close> bits of an address.\<close>

definition lead_bits :: "nat \<Rightarrow> net_addr \<Rightarrow> nat" where
  "lead_bits n a = bytes_value (addr_bytes a) div 2 ^ (addr_bits a - n)"

fun split_last :: "char \<Rightarrow> string \<Rightarrow> (string \<times> string) option" where
  "split_last c [] = None"
| "split_last c (x # s) =
     (case split_last c s of
        Some (a, b) \<Rightarrow> Some (x # a, b)
      | None \<Rightarrow> if x = c then Some ([], s) else None)"

definition prefix_bits :: "string \<Rightarrow> nat option" where
  "prefix_bits s =
     (if s = [] \<or> \<not> list_all is_digit s \<or> (length s > 1 \<and> hd s = CHR ''0'') then None
      else Some (digits_value s))"

definition parse_prefix :: "string \<Rightarrow> net_prefix option" where
  "parse_prefix s =
     (case split_last CHR ''/'' s of
        None \<Rightarrow> None
      | Some (a, b) \<Rightarrow>
          (case parse_addr a of
             None \<Rightarrow> None
           | Some ip \<Rightarrow>
               if addr_zone ip \<noteq> [] then None
               else case prefix_bits b of
                 None \<Rightarrow> None
               | Some n \<Rightarrow> if n > addr_bits ip then None else Some \<lparr>np_addr = ip, np_bits = n\<rparr>))"

definition prefix_contains :: "net_prefix \<Rightarrow> net_addr \<Rightarrow> bool" where
  "prefix_contains p a \<longleftrightarrow>
     addr_zone a = [] \<and> is_v4 (np_addr p) = is_v4 a \<and> lead_bits (np_bits p) (np_addr p) = lead_bits (np_bits p) a"

definition prefix_overlaps :: "net_prefix \<Rightarrow> net_prefix \<Rightarrow> bool" where
  "prefix_overlaps p q \<longleftrightarrow>
     (let n = min (np_bits p) (np_bits q)
      in is_v4 (np_addr p) = is_v4 (np_addr q) \<and> lead_bits n (np_addr p) = lead_bits n (np_addr q))"

definition prefix_masked :: "net_prefix \<Rightarrow> net_prefix" where
  "prefix_masked p =
     (let a = np_addr p; w = addr_bits a;
          bs = value_bytes (w div 8) (lead_bits (np_bits p) a * 2 ^ (w - np_bits p))
      in p\<lparr>np_addr := (if is_v4 a then V4 bs else V6 bs [])\<rparr>)"

definition prefix_text :: "net_prefix \<Rightarrow> string" where
  "prefix_text p = addr_text (np_addr p) @ ''/'' @ dec_nat (np_bits p)"

definition is_private :: "net_addr \<Rightarrow> bool" where
  "is_private a =
     (case a of
        V4 (x # y # _) \<Rightarrow> x = 10 \<or> (x = 172 \<and> 16 \<le> y \<and> y \<le> 31) \<or> (x = 192 \<and> y = 168)
      | V6 (x # _) _ \<Rightarrow> x div 2 = 126
      | _ \<Rightarrow> False)"

end
