(* ===== verification/NetTypes.thy ===== *)
theory NetTypes
  imports NetAddr Files
begin

text \<open>
  Package \<open>internal/netpolicy\<close>, the data (\<open>types.go\<close>, \<open>policy.go\<close>, the bindings of \<open>openwrt.go\<close>):
  network objects with their bindings, access tuples, rules and observation requests, and when an
  object is valid.

  \<open>hashJSON\<close> hashes the JSON of a Go value with SHA-256. The values it is applied to are the
  constructors of \<open>hashed\<close>; the hash is a parameter of the definitions that use it.
\<close>

datatype net_error =
    NetInvalid | NetUnsafe | NetMissing | NetStale | NetConflict | NetUnsupported
  | NetNotExist | NetOs

datatype net_kind = KindGateway | KindNetwork | KindVpn | KindService | KindOther string

definition kind_text :: "net_kind \<Rightarrow> string" where
  "kind_text k =
     (case k of KindGateway \<Rightarrow> ''network_gateway'' | KindNetwork \<Rightarrow> ''network'' | KindVpn \<Rightarrow> ''vpn''
      | KindService \<Rightarrow> ''service'' | KindOther s \<Rightarrow> s)"

record net_ref =
  nr_id :: string
  nr_rev :: "64 word"

definition no_ref :: net_ref where "no_ref = \<lparr>nr_id = [], nr_rev = 0\<rparr>"

record net_chain =
  nc_family :: string
  nc_table :: string
  nc_chain :: string
  nc_role :: string
  nc_hook :: string
  nc_priority :: "32 word option"

record net_set =
  ns_family :: string
  ns_table :: string
  ns_name :: string
  ns_element_family :: string

record net_openwrt =
  ow_logical :: string
  ow_profile :: string
  ow_chains :: "net_chain list"
  ow_set :: "net_set option"
  ow_stored :: "string list"

record net_binding =
  nb_namespace :: string
  nb_context :: string
  nb_interface :: string
  nb_ingress :: string
  nb_address :: string
  nb_peer :: string
  nb_target :: string
  nb_port :: "16 word"
  nb_realm :: string
  nb_protocol :: string
  nb_transports :: "string list"
  nb_access_modes :: "string list"
  nb_gateway :: net_ref
  nb_vpn :: net_ref
  nb_source :: net_ref
  nb_control :: net_ref
  nb_nft_family :: string
  nb_nft_table :: string
  nb_nft_chain :: string
  nb_require_path :: bool
  nb_fail_closed :: bool
  nb_openwrt :: "net_openwrt option"

definition no_binding :: net_binding where
  "no_binding =
     \<lparr>nb_namespace = [], nb_context = [], nb_interface = [], nb_ingress = [], nb_address = [], nb_peer = [],
      nb_target = [], nb_port = 0, nb_realm = [], nb_protocol = [], nb_transports = [], nb_access_modes = [],
      nb_gateway = no_ref, nb_vpn = no_ref, nb_source = no_ref, nb_control = no_ref, nb_nft_family = [],
      nb_nft_table = [], nb_nft_chain = [], nb_require_path = False, nb_fail_closed = False, nb_openwrt = None\<rparr>"

record net_object =
  no_ref_of :: net_ref
  no_kind :: net_kind
  no_alias :: string
  no_binding_of :: net_binding

abbreviation object_id :: "net_object \<Rightarrow> string" where
  "object_id x \<equiv> nr_id (no_ref_of x)"

definition no_object :: net_object where
  "no_object = \<lparr>no_ref_of = no_ref, no_kind = KindOther [], no_alias = [], no_binding_of = no_binding\<rparr>"

record net_tuple =
  nt_source :: net_ref
  nt_endpoint :: net_ref
  nt_realm :: string
  nt_family :: string
  nt_transport :: string
  nt_port :: "16 word"
  nt_mode :: string

record net_rule =
  ru_ref :: net_ref
  ru_alias :: string
  ru_decision :: string
  ru_tuples :: "net_tuple list"
  ru_path :: net_ref
  ru_fail_closed :: bool
  ru_filtering :: bool

record net_resolved =
  rt_tuple :: net_tuple
  rt_policy :: net_ref
  rt_decision :: string
  rt_path :: net_ref
  rt_fail_closed :: bool
  rt_filtering :: bool

record net_request =
  oq_operation :: string
  oq_target :: net_ref
  oq_source :: net_ref
  oq_objects :: "net_ref list"
  oq_policies :: "net_ref list"
  oq_tuples :: "net_tuple list"
  oq_required :: "string list"
  oq_tuple_required :: "string list gomap"
  oq_metadata_digest :: string

datatype hashed =
    HashChain net_chain
  | HashRealm net_ref string
  | HashRef net_ref
  | HashTuple net_tuple
  | HashRequest net_request string int
  | HashFact string net_request "net_tuple option" time
  | HashMetadata "(net_ref \<times> net_kind \<times> net_binding) list" "net_rule list"

type_synonym hash_json = "hashed \<Rightarrow> string"

text \<open>\<open>sort.Slice\<close> by the hash of the elements.\<close>

definition sort_hashed :: "hash_json \<Rightarrow> ('a \<Rightarrow> hashed) \<Rightarrow> 'a list \<Rightarrow> 'a list" where
  "sort_hashed h f = sort_by (\<lambda>a b. str_le (h (f a)) (h (f b)))"

subsection \<open>The digest of a request\<close>

definition sorted_request :: "hash_json \<Rightarrow> net_request \<Rightarrow> net_request" where
  "sorted_request h q =
     q\<lparr>oq_objects := sort_hashed h HashRef (oq_objects q),
       oq_policies := sort_hashed h HashRef (oq_policies q),
       oq_required := sort_by str_le (oq_required q),
       oq_tuples := sort_hashed h HashTuple (oq_tuples q)\<rparr>"

definition request_digest :: "hash_json \<Rightarrow> net_request \<Rightarrow> string \<Rightarrow> string" where
  "request_digest h q cap = ''network:'' @ h (HashRequest (sorted_request h q) cap 100)"

subsection \<open>Valid objects\<close>

definition name_ok :: "string \<Rightarrow> bool" where
  "name_ok s \<longleftrightarrow> s \<noteq> [] \<and> is_lower (hd s) \<and> length s \<le> 64
     \<and> list_all (\<lambda>c. is_lower c \<or> is_digit c \<or> c = CHR ''-'') (tl s)"

definition native_ok :: "string \<Rightarrow> bool" where
  "native_ok s \<longleftrightarrow> s \<noteq> [] \<and> (is_alnum (hd s) \<or> hd s = CHR ''_'') \<and> length s \<le> 64
     \<and> list_all (\<lambda>c. is_alnum c \<or> c = CHR ''_'' \<or> c = CHR ''.'' \<or> c = CHR ''-'') (tl s)"

definition openwrt_name :: "string \<Rightarrow> bool" where
  "openwrt_name s \<longleftrightarrow> s \<noteq> [] \<and> (is_lower (hd s) \<or> is_upper (hd s) \<or> hd s = CHR ''_'') \<and> length s \<le> 48
     \<and> list_all (\<lambda>c. is_alnum c \<or> c = CHR ''_'') (tl s)"

definition chain_key :: "net_chain \<Rightarrow> string" where
  "chain_key c = nc_family c @ '':'' @ nc_table c @ '':'' @ nc_chain c"

definition chain_ok :: "net_chain \<Rightarrow> bool" where
  "chain_ok c \<longleftrightarrow>
     nc_family c \<in> {''ip'', ''ip6'', ''inet''} \<and> openwrt_name (nc_table c) \<and> openwrt_name (nc_chain c)
     \<and> (nc_hook c = [] \<longleftrightarrow> nc_priority c = None)
     \<and> nc_hook c \<in> {[], ''prerouting'', ''forward'', ''output''}
     \<and> nc_role c \<in> {''classifier'', ''forwarding'', ''guard''}
     \<and> \<not> (nc_role c = ''classifier'' \<and> nc_hook c = ''forward''
          \<or> nc_role c = ''forwarding'' \<and> nc_hook c \<noteq> [] \<and> nc_hook c \<noteq> ''forward'')"

definition set_ok :: "net_set \<Rightarrow> bool" where
  "set_ok s \<longleftrightarrow>
     openwrt_name (ns_table s) \<and> openwrt_name (ns_name s)
     \<and> ns_family s \<in> {''ip'', ''ip6'', ''inet''} \<and> ns_element_family s \<in> {''ipv4'', ''ipv6''}
     \<and> \<not> (ns_family s = ''ip'' \<and> ns_element_family s \<noteq> ''ipv4''
          \<or> ns_family s = ''ip6'' \<and> ns_element_family s \<noteq> ''ipv6'')"

definition valid_openwrt :: "net_object \<Rightarrow> bool" where
  "valid_openwrt x =
     (case nb_openwrt (no_binding_of x) of
        None \<Rightarrow> True
      | Some s \<Rightarrow>
          if ow_logical s \<noteq> [] \<and> \<not> openwrt_name (ow_logical s) then False
          else if no_kind x = KindNetwork then
            ow_logical s \<noteq> [] \<and> ow_profile s = [] \<and> ow_chains s = [] \<and> ow_set s = None \<and> ow_stored s = []
            \<and> nr_id (nb_gateway (no_binding_of x)) \<noteq> []
          else no_kind x = KindGateway \<and> length (ow_profile s) \<le> 48 \<and> length (ow_chains s) \<le> 8
            \<and> length (ow_stored s) \<le> 8
            \<and> list_all chain_ok (ow_chains s) \<and> distinct (map chain_key (ow_chains s))
            \<and> list_all openwrt_name (ow_stored s) \<and> distinct (ow_stored s)
            \<and> (case ow_set s of None \<Rightarrow> True | Some t \<Rightarrow> set_ok t))"

definition valid_object :: "net_object \<Rightarrow> bool" where
  "valid_object x \<longleftrightarrow>
     (let b = no_binding_of x in
      name_ok (no_alias x)
      \<and> no_kind x \<in> {KindGateway, KindNetwork, KindVpn, KindService}
      \<and> list_all (\<lambda>v. v = [] \<or> native_ok v)
          [nb_namespace b, nb_interface b, nb_ingress b, nb_nft_table b, nb_nft_chain b, nb_realm b]
      \<and> length (nb_context b) \<le> 128 \<and> length (nb_interface b) \<le> 15 \<and> length (nb_peer b) \<le> 128
      \<and> nb_nft_family b \<in> {[], ''inet'', ''ip'', ''ip6''}
      \<and> list_all (\<lambda>v. v = [] \<or> parse_addr v \<noteq> None) [nb_address b, nb_target b]
      \<and> \<not> (no_kind x = KindService \<and> (nb_target b = [] \<or> nb_port b = 0 \<or> nb_realm b = []))
      \<and> list_all (\<lambda>m. m = ''direct'' \<or> m = ''mediated'') (nb_access_modes b) \<and> distinct (nb_access_modes b)
      \<and> list_all (\<lambda>t. t = ''udp'' \<or> t = ''tcp'') (nb_transports b)
      \<and> nb_protocol b \<in> {[], ''wireguard'', ''dns''}
      \<and> valid_openwrt x)"

subsection \<open>Clones\<close>

text \<open>A clone sorts the chains and the stored sections; the rest is copied as it is.\<close>

definition clone_binding :: "hash_json \<Rightarrow> net_binding \<Rightarrow> net_binding" where
  "clone_binding h b =
     b\<lparr>nb_openwrt := map_option
          (\<lambda>s. s\<lparr>ow_chains := sort_hashed h HashChain (ow_chains s), ow_stored := sort_by str_le (ow_stored s)\<rparr>)
          (nb_openwrt b)\<rparr>"

definition clone_object :: "hash_json \<Rightarrow> net_object \<Rightarrow> net_object" where
  "clone_object h x = x\<lparr>no_binding_of := clone_binding h (no_binding_of x)\<rparr>"

lemma clone_object_fields [simp]:
  "no_ref_of (clone_object h x) = no_ref_of x" "no_kind (clone_object h x) = no_kind x"
  "no_alias (clone_object h x) = no_alias x"
  "nb_port (no_binding_of (clone_object h x)) = nb_port (no_binding_of x)"
  "nb_target (no_binding_of (clone_object h x)) = nb_target (no_binding_of x)"
  "nb_realm (no_binding_of (clone_object h x)) = nb_realm (no_binding_of x)"
  by (simp_all add: clone_object_def clone_binding_def)

end
