(* ===== verification/NetRegistry.thy ===== *)
theory NetRegistry
  imports NetTypes Grants
begin

text \<open>
  Package \<open>internal/netpolicy\<close>, the registry (\<open>registry.go\<close>, \<open>policy.go\<close>): one JSON file that
  holds the network objects and the rules over them.

  \<^item> The file is a node with the value it decodes to (\<open>None\<close>: malformed, unknown fields or
    trailing data). A temporary file written, synced and renamed is one step, which fails before
    the rename, fails in the sync of the directory after it, or succeeds.
  \<^item> What the file system answers in one call of \<open>mutate\<close> is a \<open>net_io\<close>; the random bytes of
    the new identifiers are the argument \<open>buf\<close>.
\<close>

record registry_state =
  rs_schema :: int
  rs_objects :: "net_object list"
  rs_policies :: "net_rule list"

definition empty_registry :: registry_state where
  "empty_registry = \<lparr>rs_schema = 1, rs_objects = [], rs_policies = []\<rparr>"

subsection \<open>Reading\<close>

datatype 'v net_file = NoFile | LstatFails | NetFile node nat bool "'v option"

definition max_state_bytes :: nat where "max_state_bytes = 16 * 1024 * 1024"

definition perm_of :: "node \<Rightarrow> nat" where "perm_of n = n_perm n AND 0x1FF"

text \<open>The boolean of a file: it opens and is still the file that was examined.\<close>

definition safe_node :: "nat \<Rightarrow> node \<Rightarrow> nat \<Rightarrow> bool" where
  "safe_node uid n sz \<longleftrightarrow> n_kind n = RegularFile \<and> perm_of n = 0x180 \<and> n_uid n = uid \<and> sz \<le> max_state_bytes"

definition read_safe :: "nat \<Rightarrow> 'v net_file \<Rightarrow> net_error + 'v" where
  "read_safe uid f =
     (case f of
        NoFile \<Rightarrow> Inl NetNotExist
      | LstatFails \<Rightarrow> Inl NetOs
      | NetFile n sz same v \<Rightarrow>
          if \<not> safe_node uid n sz then Inl NetUnsafe
          else if \<not> same then Inl NetUnsafe
          else some_or NetInvalid v)"

text \<open>\<open>validateObjects\<close> clones every object in place and checks it against those before it.\<close>

definition alias_key :: "net_object \<Rightarrow> string" where
  "alias_key x = kind_text (no_kind x) @ '':'' @ no_alias x"

definition endpoint_key :: "net_object \<Rightarrow> string" where
  "endpoint_key x =
     (let b = no_binding_of x in nb_realm b @ ''|'' @ nb_target b @ ''|'' @ dec_nat (unat (nb_port b)))"

fun validate_loop ::
    "hash_json \<Rightarrow> string list \<Rightarrow> string list \<Rightarrow> string list \<Rightarrow> net_object list \<Rightarrow> net_error + net_object list" where
  "validate_loop h refs aliases endpoints [] = Inr []"
| "validate_loop h refs aliases endpoints (x0 # xs) =
     (let x = clone_object h x0 in
      if \<not> valid_object x \<or> \<not> has_prefix (object_id x) ''net_'' \<or> nr_rev (no_ref_of x) = 0 \<or> object_id x \<in> set refs
      then Inl NetInvalid
      else if alias_key x \<in> set aliases then Inl NetConflict
      else if no_kind x = KindService \<and> endpoint_key x \<in> set endpoints then Inl NetConflict
      else also_then
        (validate_loop h (object_id x # refs) (alias_key x # aliases)
           (if no_kind x = KindService then endpoint_key x # endpoints else endpoints) xs)
        (\<lambda>ys. Inr (x # ys)))"

definition validate_objects :: "hash_json \<Rightarrow> net_object list \<Rightarrow> net_error + net_object list" where
  "validate_objects h xs = validate_loop h [] [] [] xs"

definition load_registry :: "hash_json \<Rightarrow> nat \<Rightarrow> registry_state net_file \<Rightarrow> net_error + registry_state" where
  "load_registry h uid f =
     (case read_safe uid f of
        Inl e \<Rightarrow> if e = NetNotExist then Inr empty_registry else Inl e
      | Inr s \<Rightarrow>
          if rs_schema s \<noteq> 1 then Inl NetInvalid
          else also_then (validate_objects h (rs_objects s)) (\<lambda>xs. Inr (s\<lparr>rs_objects := xs\<rparr>)))"

subsection \<open>Writing\<close>

datatype net_write = WriteFails | SyncFails nat | Written nat

record net_io =
  ni_uid :: nat
  ni_mkdir :: bool
  ni_dir :: lstat_result
  ni_lock_node :: lstat_result
  ni_lock_opens :: bool
  ni_lock_taken :: bool
  ni_write :: net_write

definition saved_node :: "nat \<Rightarrow> node" where
  "saved_node uid = \<lparr>n_kind = RegularFile, n_uid = uid, n_perm = 0x180\<rparr>"

definition atomic_json :: "net_io \<Rightarrow> 'v \<Rightarrow> 'v net_file \<Rightarrow> net_error option \<times> 'v net_file" where
  "atomic_json io v f =
     (case ni_write io of
        WriteFails \<Rightarrow> (Some NetUnsafe, f)
      | SyncFails sz \<Rightarrow> (Some NetUnsafe, NetFile (saved_node (ni_uid io)) sz True (Some v))
      | Written sz \<Rightarrow> (None, NetFile (saved_node (ni_uid io)) sz True (Some v)))"

definition lock_file :: "net_io \<Rightarrow> net_error option" where
  "lock_file io =
     (case ni_lock_node io of
        LstatError \<Rightarrow> Some NetUnsafe
      | Found n \<Rightarrow>
          if n_kind n \<noteq> RegularFile \<or> perm_of n \<noteq> 0x180 then Some NetUnsafe
          else if \<not> ni_lock_opens io then Some NetUnsafe
          else if \<not> ni_lock_taken io then Some NetConflict else None
      | Missing \<Rightarrow>
          if \<not> ni_lock_opens io then Some NetUnsafe
          else if \<not> ni_lock_taken io then Some NetConflict else None)"

definition private_net_dir :: "lstat_result \<Rightarrow> bool" where
  "private_net_dir d = (case d of Found n \<Rightarrow> n_kind n = Directory \<and> perm_of n AND 0x3F = 0 | _ \<Rightarrow> False)"

definition mutate_registry ::
    "hash_json \<Rightarrow> net_io \<Rightarrow> (registry_state \<Rightarrow> net_error + registry_state \<times> 'r) \<Rightarrow> registry_state net_file
     \<Rightarrow> (net_error + 'r) \<times> registry_state net_file" where
  "mutate_registry h io op f =
     (if \<not> ni_mkdir io \<or> \<not> private_net_dir (ni_dir io) then (Inl NetUnsafe, f)
      else case lock_file io of
        Some e \<Rightarrow> (Inl e, f)
      | None \<Rightarrow>
          (case also_then (load_registry h (ni_uid io) f) (\<lambda>s.
                also_then (op s) (\<lambda>(s1, r).
                also_then (validate_objects h (rs_objects s1)) (\<lambda>xs. Inr (s1\<lparr>rs_objects := xs\<rparr>, r)))) of
             Inl e \<Rightarrow> (Inl e, f)
           | Inr (s2, r) \<Rightarrow>
               (case atomic_json io s2 f of
                  (Some e, f1) \<Rightarrow> (Inl e, f1)
                | (None, f1) \<Rightarrow> (Inr r, f1))))"

subsection \<open>Lookup\<close>

definition is_named :: "net_kind \<Rightarrow> string \<Rightarrow> net_object \<Rightarrow> bool" where
  "is_named k name x \<longleftrightarrow> no_kind x = k \<and> (no_alias x = name \<or> object_id x = name)"

definition find_object :: "hash_json \<Rightarrow> net_object list \<Rightarrow> net_kind \<Rightarrow> string \<Rightarrow> net_error + net_object" where
  "find_object h xs k name =
     (case List.find (is_named k name) xs of None \<Rightarrow> Inl NetMissing | Some x \<Rightarrow> Inr (clone_object h x))"

definition resolve_ref :: "hash_json \<Rightarrow> net_object list \<Rightarrow> net_ref \<Rightarrow> net_error + net_object" where
  "resolve_ref h xs r =
     (case List.find (\<lambda>x. object_id x = nr_id r) xs of
        None \<Rightarrow> Inl NetMissing
      | Some x \<Rightarrow> if no_ref_of x \<noteq> r then Inl NetStale else Inr (clone_object h x))"

definition registry_objects :: "hash_json \<Rightarrow> nat \<Rightarrow> registry_state net_file \<Rightarrow> net_error + net_object list" where
  "registry_objects h uid f = also_then (load_registry h uid f) (\<lambda>s. Inr (rs_objects s))"

definition registry_resolve ::
    "hash_json \<Rightarrow> nat \<Rightarrow> registry_state net_file \<Rightarrow> net_kind \<Rightarrow> string \<Rightarrow> net_error + net_object" where
  "registry_resolve h uid f k name =
     also_then (load_registry h uid f) (\<lambda>s. find_object h (rs_objects s) k name)"

definition registry_resolve_ref ::
    "hash_json \<Rightarrow> nat \<Rightarrow> registry_state net_file \<Rightarrow> net_ref \<Rightarrow> net_error + net_object" where
  "registry_resolve_ref h uid f r = also_then (registry_objects h uid f) (\<lambda>xs. resolve_ref h xs r)"

definition registry_policies :: "hash_json \<Rightarrow> nat \<Rightarrow> registry_state net_file \<Rightarrow> net_error + net_rule list" where
  "registry_policies h uid f = also_then (load_registry h uid f) (\<lambda>s. Inr (rs_policies s))"

subsection \<open>Bindings between objects\<close>

definition bind_one :: "hash_json \<Rightarrow> net_object list \<Rightarrow> net_kind \<Rightarrow> net_ref \<Rightarrow> net_error + net_ref" where
  "bind_one h xs k r =
     (if nr_id r = [] then Inr r
      else also_then (find_object h xs k (nr_id r)) (\<lambda>x.
        if nr_rev r \<noteq> 0 \<and> nr_rev r \<noteq> nr_rev (no_ref_of x) then Inl NetStale else Inr (no_ref_of x)))"

definition bind_refs :: "hash_json \<Rightarrow> net_object list \<Rightarrow> net_binding \<Rightarrow> net_error + net_binding" where
  "bind_refs h xs b =
     also_then (bind_one h xs KindGateway (nb_gateway b)) (\<lambda>g.
     also_then (bind_one h xs KindVpn (nb_vpn b)) (\<lambda>v.
     also_then (bind_one h xs KindNetwork (nb_source b)) (\<lambda>s.
     also_then (bind_one h xs KindService (nb_control b)) (\<lambda>c.
       Inr (b\<lparr>nb_gateway := g, nb_vpn := v, nb_source := s, nb_control := c\<rparr>)))))"

definition bind_object :: "hash_json \<Rightarrow> net_object list \<Rightarrow> net_object \<Rightarrow> net_error + net_object" where
  "bind_object h xs x = also_then (bind_refs h xs (no_binding_of x)) (\<lambda>b. Inr (x\<lparr>no_binding_of := b\<rparr>))"

subsection \<open>Changes of objects\<close>

definition unset_ref :: "net_ref \<Rightarrow> bool" where
  "unset_ref r \<longleftrightarrow> nr_id r = [] \<and> nr_rev r = 0"

definition create_body ::
    "hash_json \<Rightarrow> string \<Rightarrow> net_object \<Rightarrow> registry_state \<Rightarrow> net_error + registry_state \<times> net_object" where
  "create_body h buf x0 s =
     (let x = clone_object h x0 in
      if \<not> unset_ref (no_ref_of x) then Inl NetInvalid
      else also_then (bind_object h (rs_objects s) (x\<lparr>no_ref_of := \<lparr>nr_id = new_id ''net'' buf, nr_rev = 1\<rparr>\<rparr>)) (\<lambda>y.
        Inr (s\<lparr>rs_objects := rs_objects s @ [y]\<rparr>, clone_object h y)))"

definition change_body ::
    "hash_json \<Rightarrow> net_kind \<Rightarrow> string \<Rightarrow> (net_object \<Rightarrow> net_object) \<Rightarrow> registry_state
     \<Rightarrow> net_error + registry_state \<times> net_object" where
  "change_body h k name g s =
     (let xs = rs_objects s; i = length (takeWhile (\<lambda>x. \<not> is_named k name x) xs) in
      if i \<ge> length xs then Inl NetMissing
      else let x = g (xs ! i) in
        also_then (bind_object h (xs[i := x]) x) (\<lambda>y.
          Inr (s\<lparr>rs_objects := xs[i := y]\<rparr>, clone_object h y)))"

definition renamed :: "string \<Rightarrow> net_object \<Rightarrow> net_object" where
  "renamed alias x = x\<lparr>no_alias := alias\<rparr>"

definition rebound :: "hash_json \<Rightarrow> net_binding \<Rightarrow> net_object \<Rightarrow> net_object" where
  "rebound h b x =
     x\<lparr>no_binding_of := clone_binding h b, no_ref_of := (no_ref_of x)\<lparr>nr_rev := nr_rev (no_ref_of x) + 1\<rparr>\<rparr>"

definition create_object where
  "create_object h io buf x f = mutate_registry h io (create_body h buf x) f"

definition rename_object where
  "rename_object h io k name alias f = mutate_registry h io (change_body h k name (renamed alias)) f"

definition rebind_object where
  "rebind_object h io k name b f = mutate_registry h io (change_body h k name (rebound h b)) f"

end
