(* ===== verification/NetRules.thy ===== *)
theory NetRules
  imports NetRegistry
begin

text \<open>
  Package \<open>internal/netpolicy\<close>, the rules of the registry (\<open>policy.go\<close>, \<open>Import\<close> of
  \<open>registry.go\<close>): tuples in canonical form, rules, and the resolution of a tuple to the one rule
  that declares it.
\<close>

subsection \<open>Tuples\<close>

definition realm_name :: "hash_json \<Rightarrow> net_object \<Rightarrow> string" where
  "realm_name h e = ''realm_'' @ h (HashRealm (no_ref_of e) (nb_realm (no_binding_of e)))"

definition stale_ref :: "net_ref \<Rightarrow> net_ref \<Rightarrow> bool" where
  "stale_ref r current \<longleftrightarrow> nr_rev r \<noteq> 0 \<and> r \<noteq> current"

definition tuple_fits :: "net_tuple \<Rightarrow> net_object \<Rightarrow> bool" where
  "tuple_fits t e \<longleftrightarrow>
     nt_family t \<in> {''ipv4'', ''ipv6''} \<and> nt_transport t \<in> {''udp'', ''tcp''}
     \<and> nt_mode t \<in> {''direct'', ''mediated''} \<and> nt_port t = nb_port (no_binding_of e)
     \<and> (case parse_addr (nb_target (no_binding_of e)) of
          None \<Rightarrow> False | Some a \<Rightarrow> (nt_family t = ''ipv4'') = is_v4 a)"

definition canonical_tuple :: "hash_json \<Rightarrow> net_object list \<Rightarrow> net_tuple \<Rightarrow> net_error + net_tuple" where
  "canonical_tuple h xs t =
     also_then (find_object h xs KindNetwork (nr_id (nt_source t))) (\<lambda>s.
     also_then (find_object h xs KindService (nr_id (nt_endpoint t))) (\<lambda>e.
     also_then (require (\<not> stale_ref (nt_source t) (no_ref_of s) \<and> \<not> stale_ref (nt_endpoint t) (no_ref_of e))
       NetStale) (\<lambda>_.
     also_then (require (tuple_fits t e) NetInvalid) (\<lambda>_.
     also_then (require (nt_realm t = nb_realm (no_binding_of e) \<or> nt_realm t = realm_name h e) NetInvalid) (\<lambda>_.
       Inr (t\<lparr>nt_source := no_ref_of s, nt_endpoint := no_ref_of e, nt_realm := realm_name h e\<rparr>))))))"

subsection \<open>Rules\<close>

fun canonical_tuples ::
    "hash_json \<Rightarrow> net_object list \<Rightarrow> net_tuple list \<Rightarrow> net_tuple list \<Rightarrow> net_error + net_tuple list" where
  "canonical_tuples h xs seen [] = Inr []"
| "canonical_tuples h xs seen (t # ts) =
     also_then (canonical_tuple h xs t) (\<lambda>c.
     also_then (require (c \<notin> set seen) NetConflict) (\<lambda>_.
     also_then (canonical_tuples h xs (c # seen) ts) (\<lambda>cs. Inr (c # cs))))"

definition normalize_path :: "hash_json \<Rightarrow> net_object list \<Rightarrow> net_ref \<Rightarrow> net_error + net_ref" where
  "normalize_path h xs p =
     (if nr_id p = [] then Inr p
      else also_then (find_object h xs KindVpn (nr_id p)) (\<lambda>v.
           also_then (require (\<not> stale_ref p (no_ref_of v)) NetStale) (\<lambda>_. Inr (no_ref_of v))))"

definition rule_head_ok :: "net_rule \<Rightarrow> bool" where
  "rule_head_ok r \<longleftrightarrow> name_ok (ru_alias r) \<and> ru_decision r \<in> {''allow'', ''deny''}
     \<and> ru_tuples r \<noteq> [] \<and> length (ru_tuples r) \<le> 256"

definition normalize_rule :: "hash_json \<Rightarrow> net_object list \<Rightarrow> net_rule \<Rightarrow> net_error + net_rule" where
  "normalize_rule h xs r =
     also_then (require (rule_head_ok r) NetInvalid) (\<lambda>_.
     also_then (canonical_tuples h xs [] (ru_tuples r)) (\<lambda>ts.
     also_then (normalize_path h xs (ru_path r)) (\<lambda>p.
       Inr (r\<lparr>ru_tuples := ts, ru_path := p\<rparr>))))"

definition no_overlap :: "net_rule list \<Rightarrow> bool" where
  "no_overlap rs \<longleftrightarrow> distinct (concat (map ru_tuples rs))"

text \<open>The first rule of the same alias is replaced under its next revision, or the rule is added.\<close>

definition place_rule :: "string \<Rightarrow> string \<Rightarrow> net_rule \<Rightarrow> net_rule list \<Rightarrow> net_rule \<times> net_rule list" where
  "place_rule buf alias r rs =
     (let i = length (takeWhile (\<lambda>old. ru_alias old \<noteq> alias) rs) in
      if i < length rs then
        (let old = ru_ref (rs ! i); r1 = r\<lparr>ru_ref := \<lparr>nr_id = nr_id old, nr_rev = nr_rev old + 1\<rparr>\<rparr>
         in (r1, rs[i := r1]))
      else let r1 = r\<lparr>ru_ref := \<lparr>nr_id = new_id ''npol'' buf, nr_rev = 1\<rparr>\<rparr> in (r1, rs @ [r1]))"

definition put_rule ::
    "hash_json \<Rightarrow> string \<Rightarrow> net_rule \<Rightarrow> registry_state \<Rightarrow> net_error + registry_state \<times> net_rule" where
  "put_rule h buf r s =
     also_then (require (unset_ref (ru_ref r)) NetInvalid) (\<lambda>_.
     also_then (normalize_rule h (rs_objects s) r) (\<lambda>n.
       case place_rule buf (ru_alias r) n (rs_policies s) of
         (r1, rs) \<Rightarrow>
           also_then (require (no_overlap rs) NetConflict) (\<lambda>_. Inr (s\<lparr>rs_policies := rs\<rparr>, r1))))"

definition put_policy where
  "put_policy h io buf r f = mutate_registry h io (put_rule h buf r) f"

subsection \<open>Import\<close>

fun import_objects :: "(nat \<Rightarrow> string) \<Rightarrow> nat \<Rightarrow> net_object list \<Rightarrow> net_error + net_object list" where
  "import_objects buf i [] = Inr []"
| "import_objects buf i (x # xs) =
     also_then (require (unset_ref (no_ref_of x)) NetInvalid) (\<lambda>_.
     also_then (import_objects buf (Suc i) xs) (\<lambda>ys.
       Inr (x\<lparr>no_ref_of := \<lparr>nr_id = new_id ''net'' (buf i), nr_rev = 1\<rparr>\<rparr> # ys)))"

text \<open>The objects from place \<open>i\<close> on get their references bound, \<open>n\<close> of them.\<close>

fun bind_from :: "hash_json \<Rightarrow> nat \<Rightarrow> nat \<Rightarrow> net_object list \<Rightarrow> net_error + net_object list" where
  "bind_from h i 0 xs = Inr xs"
| "bind_from h i (Suc n) xs = also_then (bind_object h xs (xs ! i)) (\<lambda>y. bind_from h (Suc i) n (xs[i := y]))"

fun put_rules :: "hash_json \<Rightarrow> (nat \<Rightarrow> string) \<Rightarrow> nat \<Rightarrow> net_rule list \<Rightarrow> registry_state \<Rightarrow> net_error + registry_state" where
  "put_rules h buf i [] s = Inr s"
| "put_rules h buf i (r # rs) s = also_then (put_rule h (buf i) r s) (\<lambda>(s1, _). put_rules h buf (Suc i) rs s1)"

definition import_body ::
    "hash_json \<Rightarrow> (nat \<Rightarrow> string) \<Rightarrow> net_object list \<Rightarrow> net_rule list \<Rightarrow> registry_state
     \<Rightarrow> net_error + registry_state \<times> unit" where
  "import_body h buf xs rs s =
     also_then (import_objects buf 0 xs) (\<lambda>ys.
     also_then (bind_from h (length (rs_objects s)) (length ys) (rs_objects s @ ys)) (\<lambda>zs.
     also_then (put_rules h buf (length xs) rs (s\<lparr>rs_objects := zs\<rparr>)) (\<lambda>s1. Inr (s1, ()))))"

text \<open>The input is what the strict decoder makes of the reader, \<open>None\<close> when it fails.\<close>

definition import_registry where
  "import_registry h io buf input f =
     (case input of
        None \<Rightarrow> (Inl NetInvalid, f)
      | Some (xs, rs) \<Rightarrow> mutate_registry h io (import_body h buf xs rs) f)"

subsection \<open>Resolution\<close>

definition find_id :: "hash_json \<Rightarrow> net_object list \<Rightarrow> net_kind \<Rightarrow> string \<Rightarrow> string" where
  "find_id h xs k name = (case find_object h xs k name of Inl _ \<Rightarrow> [] | Inr x \<Rightarrow> object_id x)"

text \<open>A declared tuple that no longer has a canonical form, but names the same flow.\<close>

definition stale_match :: "hash_json \<Rightarrow> net_object list \<Rightarrow> net_tuple \<Rightarrow> net_tuple \<Rightarrow> bool" where
  "stale_match h xs t d \<longleftrightarrow>
     find_id h xs KindNetwork (nr_id (nt_source d)) = nr_id (nt_source t)
     \<and> find_id h xs KindService (nr_id (nt_endpoint d)) = nr_id (nt_endpoint t)
     \<and> nt_transport d = nt_transport t \<and> nt_port d = nt_port t \<and> nt_family d = nt_family t \<and> nt_mode d = nt_mode t"

definition resolved_as :: "net_tuple \<Rightarrow> net_rule \<Rightarrow> net_resolved" where
  "resolved_as t n =
     \<lparr>rt_tuple = t, rt_policy = ru_ref n, rt_decision = ru_decision n, rt_path = ru_path n,
      rt_fail_closed = ru_fail_closed n, rt_filtering = ru_filtering n\<rparr>"

fun resolve_scan ::
    "hash_json \<Rightarrow> net_object list \<Rightarrow> net_tuple \<Rightarrow> (net_rule \<times> net_tuple) list \<Rightarrow> net_error + net_resolved list" where
  "resolve_scan h xs t [] = Inr []"
| "resolve_scan h xs t ((r, d) # ps) =
     (case canonical_tuple h xs d of
        Inl _ \<Rightarrow> if stale_match h xs t d then Inl NetStale else resolve_scan h xs t ps
      | Inr c \<Rightarrow>
          if c \<noteq> t then resolve_scan h xs t ps
          else also_then (normalize_rule h xs r) (\<lambda>n.
               also_then (resolve_scan h xs t ps) (\<lambda>ms. Inr (resolved_as t n # ms))))"

definition declarations :: "net_rule list \<Rightarrow> (net_rule \<times> net_tuple) list" where
  "declarations rs = concat (map (\<lambda>r. map (Pair r) (ru_tuples r)) rs)"

text \<open>\<open>count\<close> is the number of matches; the last match is used only when it is 1.\<close>

definition resolve_one :: "hash_json \<Rightarrow> registry_state \<Rightarrow> net_tuple \<Rightarrow> net_error + net_resolved" where
  "resolve_one h s input =
     also_then (canonical_tuple h (rs_objects s) input) (\<lambda>t.
     also_then (resolve_scan h (rs_objects s) t (declarations (rs_policies s))) (\<lambda>ms.
       case ms of [m] \<Rightarrow> Inr m | _ \<Rightarrow> Inl NetConflict))"

fun resolve_each :: "hash_json \<Rightarrow> registry_state \<Rightarrow> net_tuple list \<Rightarrow> net_error + net_resolved list" where
  "resolve_each h s [] = Inr []"
| "resolve_each h s (t # ts) =
     also_then (resolve_one h s t) (\<lambda>m. also_then (resolve_each h s ts) (\<lambda>ms. Inr (m # ms)))"

definition resolve_tuples ::
    "hash_json \<Rightarrow> nat \<Rightarrow> net_tuple list \<Rightarrow> registry_state net_file \<Rightarrow> net_error + net_resolved list" where
  "resolve_tuples h uid ts f =
     also_then (load_registry h uid f) (\<lambda>s.
     also_then (require (ts \<noteq> [] \<and> length ts \<le> 256) NetInvalid) (\<lambda>_. resolve_each h s ts))"

end
