(* ===== verification/NetVerify.thy ===== *)
theory NetVerify
  imports NetRules Hosted
begin

text \<open>
  Package \<open>internal/netpolicy\<close>, evidence and verdicts (\<open>evidence.go\<close>, \<open>verify.go\<close>), the authority to
  observe (\<open>authorize.go\<close>) and the stored assessments: which facts count for a request, the verdict
  over them, when a grant admits an observation, and how records are published and pruned.
\<close>

subsection \<open>Facts\<close>

record net_window =
  nw_target :: net_ref
  nw_start :: time
  nw_end :: time
  nw_complete :: bool

record net_fact =
  nf_id :: string
  nf_property :: string
  nf_target :: net_ref
  nf_tuple :: "net_tuple option"
  nf_value :: bool
  nf_scope :: "net_ref list"
  nf_policies :: "net_ref list"
  nf_observed_at :: time
  nf_valid_until :: time
  nf_window_start :: time
  nf_window_end :: time
  nf_assurance :: string
  nf_runtime_binding :: string
  nf_windows :: "net_window list"
  nf_historical :: string
  nf_validated :: bool

definition new_fact ::
    "hash_json \<Rightarrow> string \<Rightarrow> net_request \<Rightarrow> net_tuple option \<Rightarrow> bool \<Rightarrow> time \<Rightarrow> string \<Rightarrow> net_fact" where
  "new_fact h property q tuple v now assurance =
     \<lparr>nf_id = ''ev_'' @ h (HashFact property q tuple now), nf_property = property, nf_target = oq_target q,
      nf_tuple = tuple, nf_value = v, nf_scope = oq_objects q, nf_policies = oq_policies q, nf_observed_at = now,
      nf_valid_until = now + 10 * minute, nf_window_start = zero_time, nf_window_end = zero_time,
      nf_assurance = assurance, nf_runtime_binding = [], nf_windows = [], nf_historical = [], nf_validated = True\<rparr>"

definition same_refs :: "hash_json \<Rightarrow> net_ref list \<Rightarrow> net_ref list \<Rightarrow> bool" where
  "same_refs h a b \<longleftrightarrow> length a = length b \<and> sort_hashed h HashRef a = sort_hashed h HashRef b"

definition window_ok :: "net_request \<Rightarrow> net_fact \<Rightarrow> net_window \<Rightarrow> bool" where
  "window_ok q f w \<longleftrightarrow>
     nw_start w \<noteq> zero_time \<and> nw_start w \<le> nw_end w \<and> nw_end w \<le> nf_observed_at f \<and> nw_target w \<in> set (oq_objects q)"

definition valid_fact :: "hash_json \<Rightarrow> net_fact \<Rightarrow> net_request \<Rightarrow> time \<Rightarrow> bool \<Rightarrow> bool" where
  "valid_fact h f q now fixture =
     (if \<not> nf_validated f \<or> nf_target f \<noteq> oq_target q \<or> \<not> same_refs h (nf_scope f) (oq_objects q)
        \<or> \<not> same_refs h (nf_policies f) (oq_policies q) \<or> nf_observed_at f > now \<or> nf_valid_until f < now
        \<or> nf_valid_until f > nf_observed_at f + 10 * minute then False
      else if nf_assurance f = ''synthetic_runtime'' \<and> \<not> fixture then False
      else if nf_assurance f \<noteq> ''runtime_validated'' \<and> nf_assurance f \<noteq> ''synthetic_runtime''
        \<and> nf_assurance f \<noteq> ''operator_attested'' then False
      else if nf_window_end f \<noteq> zero_time
        \<and> (nf_window_start f = zero_time \<or> nf_window_end f < nf_window_start f \<or> nf_window_end f > nf_observed_at f)
      then False
      else list_all (window_ok q f) (nf_windows f))"

subsection \<open>The verdict\<close>

datatype verdict = VerdictVerified | VerdictViolated | VerdictUnverified

record property_result =
  pr_property :: string
  pr_tuple :: "net_tuple option"
  pr_state :: string
  pr_evidence :: "string list"
  pr_assurance :: "string list"

record display_context =
  dc_source :: string
  dc_target :: string
  dc_vpn :: string

record net_assessment =
  as_id :: string
  as_context :: display_context
  as_grant_id :: string
  as_verdict :: verdict
  as_request :: net_request
  as_properties :: "property_result list"
  as_missing :: "string list"
  as_excluded :: "string list"
  as_evidence :: "net_fact list"
  as_created_at :: time
  as_cleanup :: bool
  as_synthetic :: bool

definition net_properties :: "string \<Rightarrow> bool \<Rightarrow> bool \<Rightarrow> string list" where
  "net_properties operation require_path fail_closed =
     (if operation = ''gateway'' then
        [''gateway.binding'', ''gateway.interface_binding'', ''gateway.reader'', ''gateway.policy_scope'']
      else if operation = ''vpn'' then
        [''vpn.binding'', ''vpn.peer_binding'', ''vpn.session_freshness'', ''vpn.route_ownership'']
        @ (if require_path then [''vpn.path_selection''] else [])
        @ (if fail_closed then [''vpn.fail_closed_guard''] else [])
      else [])"

definition profile_valid :: "net_request \<Rightarrow> bool" where
  "profile_valid q =
     (if oq_operation q \<noteq> ''gateway'' \<and> oq_operation q \<noteq> ''vpn'' then True
      else oq_required q = net_properties (oq_operation q) (''vpn.path_selection'' \<in> set (oq_required q))
             (''vpn.fail_closed_guard'' \<in> set (oq_required q))
        \<and> oq_tuples q = [])"

definition mark_missing :: "string \<Rightarrow> net_assessment \<Rightarrow> net_assessment" where
  "mark_missing p a =
     a\<lparr>as_missing := as_missing a @ [p],
       as_verdict := (if as_verdict a \<noteq> VerdictViolated then VerdictUnverified else as_verdict a)\<rparr>"

definition fact_counts ::
    "hash_json \<Rightarrow> net_request \<Rightarrow> time \<Rightarrow> bool \<Rightarrow> string \<Rightarrow> net_tuple option \<Rightarrow> net_fact \<Rightarrow> bool" where
  "fact_counts h q now fixture property scoped f \<longleftrightarrow>
     nf_property f = property \<and> valid_fact h f q now fixture \<and> nf_tuple f = scoped
     \<and> (case nf_tuple f of None \<Rightarrow> True | Some t \<Rightarrow> nt_mode t = ''direct'')"

definition use_fact :: "net_fact \<Rightarrow> property_result \<times> net_assessment \<Rightarrow> property_result \<times> net_assessment" where
  "use_fact f ra =
     (case ra of (r0, a0) \<Rightarrow>
        let a = a0\<lparr>as_evidence := as_evidence a0 @ [f]\<rparr>;
            r = r0\<lparr>pr_evidence := pr_evidence r0 @ [nf_id f], pr_assurance := pr_assurance r0 @ [nf_assurance f]\<rparr>
        in if \<not> nf_value f then (r\<lparr>pr_state := ''contradicted''\<rparr>, a\<lparr>as_verdict := VerdictViolated\<rparr>)
           else if pr_state r \<noteq> ''contradicted'' then (r\<lparr>pr_state := ''pass''\<rparr>, a)
           else (r, a))"

definition eval_property ::
    "hash_json \<Rightarrow> net_request \<Rightarrow> net_fact list \<Rightarrow> time \<Rightarrow> bool \<Rightarrow> net_tuple option \<Rightarrow> string \<Rightarrow> net_assessment \<Rightarrow> net_assessment" where
  "eval_property h q facts now fixture scoped property a0 =
     (case fold use_fact (filter (fact_counts h q now fixture property scoped) facts)
         (\<lparr>pr_property = property, pr_tuple = scoped, pr_state = ''missing'', pr_evidence = [], pr_assurance = []\<rparr>, a0) of
        (r, a1) \<Rightarrow>
          let a2 = (if pr_state r = ''missing'' then mark_missing property a1 else a1)
          in a2\<lparr>as_properties := as_properties a2 @ [r]\<rparr>)"

text \<open>The properties required of a tuple: its own ones when the request scopes them by tuple.\<close>

definition required_of :: "hash_json \<Rightarrow> net_request \<Rightarrow> net_tuple \<Rightarrow> string list" where
  "required_of h q t =
     (if oq_tuple_required q = [] then oq_required q
      else (case map_of (oq_tuple_required q) (h (HashTuple t)) of None \<Rightarrow> [] | Some ps \<Rightarrow> ps))"

definition no_tuple :: net_tuple where
  "no_tuple = \<lparr>nt_source = no_ref, nt_endpoint = no_ref, nt_realm = [], nt_family = [], nt_transport = [], nt_port = 0,
               nt_mode = []\<rparr>"

text \<open>The loop runs over the tuples, or once over an empty one with no scope.\<close>

definition scopes :: "net_request \<Rightarrow> (net_tuple \<times> net_tuple option) list" where
  "scopes q = (if oq_tuples q = [] then [(no_tuple, None)] else map (\<lambda>t. (t, Some t)) (oq_tuples q))"

definition eval_scope ::
    "hash_json \<Rightarrow> net_request \<Rightarrow> net_fact list \<Rightarrow> time \<Rightarrow> bool \<Rightarrow> net_tuple \<times> net_tuple option \<Rightarrow> net_assessment \<Rightarrow> net_assessment" where
  "eval_scope h q facts now fixture sc a =
     (case sc of (t, scoped) \<Rightarrow>
        let required = required_of h q t;
            a1 = (if oq_tuple_required q \<noteq> [] \<and> required = [] then mark_missing ''tuple_property_scope'' a else a)
        in fold (eval_property h q facts now fixture scoped) required a1)"

definition new_assessment :: "string \<Rightarrow> net_request \<Rightarrow> time \<Rightarrow> bool \<Rightarrow> bool \<Rightarrow> net_assessment" where
  "new_assessment buf q now cleanup fixture =
     \<lparr>as_id = new_id ''nver'' buf, as_context = \<lparr>dc_source = [], dc_target = [], dc_vpn = []\<rparr>, as_grant_id = [],
      as_verdict = VerdictVerified, as_request = q, as_properties = [], as_missing = [],
      as_excluded = [''unrequested_objects'', ''unrequested_families_transports_modes'', ''universal_network_health'']
        @ (if oq_operation q = ''gateway'' \<or> oq_operation q = ''vpn''
           then [''attached_access_policies'', ''end_to_end_service_health''] else []),
      as_evidence = [], as_created_at = now, as_cleanup = cleanup, as_synthetic = fixture\<rparr>"

definition evaluate_evidence ::
    "hash_json \<Rightarrow> string \<Rightarrow> net_request \<Rightarrow> net_fact list \<Rightarrow> time \<Rightarrow> bool \<Rightarrow> bool \<Rightarrow> net_assessment" where
  "evaluate_evidence h buf q facts now cleanup fixture =
     (let a = new_assessment buf q now cleanup fixture in
      if oq_required q = [] \<or> \<not> profile_valid q then
        a\<lparr>as_missing := as_missing a @ [''finite_profile''], as_verdict := VerdictUnverified\<rparr>
      else let a1 = fold (eval_scope h q facts now fixture) (scopes q) a in
        if cleanup then a1 else mark_missing ''cleanup'' a1)"

subsection \<open>Authority\<close>

text \<open>\<open>ReadGrantProjection\<close>: the one grant with the id, from a safe state file.\<close>

definition read_grant_projection :: "nat \<Rightarrow> grant list net_file \<Rightarrow> string \<Rightarrow> net_error + grant" where
  "read_grant_projection uid f i =
     (case f of
        NoFile \<Rightarrow> Inl NetMissing
      | LstatFails \<Rightarrow> Inl NetMissing
      | NetFile n sz same v \<Rightarrow>
          if \<not> safe_node uid n sz then Inl NetUnsafe
          else if \<not> same then Inl NetUnsafe
          else (case v of
            None \<Rightarrow> Inl NetInvalid
          | Some gs \<Rightarrow> (case filter (\<lambda>g. g_id g = i) gs of [g] \<Rightarrow> Inr g | _ \<Rightarrow> Inl NetMissing)))"

definition observation_request :: "hash_json \<Rightarrow> net_request \<Rightarrow> string \<Rightarrow> string \<Rightarrow> action_request" where
  "observation_request h q cap subject =
     \<lparr>req_grant_id = [], req_sub = subject, req_capability = cap, req_data_class = ''network-metadata'',
      req_target = request_digest h q cap, req_cost = 0, req_approval_id = [], req_approval_granted = False\<rparr>"

definition authorize_observation ::
    "hash_json \<Rightarrow> nat \<Rightarrow> grant list net_file \<Rightarrow> string \<Rightarrow> net_request \<Rightarrow> string \<Rightarrow> time \<Rightarrow> string option \<Rightarrow> net_error option" where
  "authorize_observation h uid f i q cap now whoami =
     (case read_grant_projection uid f i of
        Inl e \<Rightarrow> Some e
      | Inr g \<Rightarrow>
          if cap \<noteq> ''network.read'' \<and> cap \<noteq> ''network.probe'' then Some NetInvalid
          else (case resolve_subject [] True whoami of
            Inl _ \<Rightarrow> Some NetMissing
          | Inr subject \<Rightarrow>
              if er_decision (evaluate_action g (observation_request h q cap subject) now) \<noteq> DecisionAllow
              then Some NetMissing else None))"

subsection \<open>Stored assessments\<close>

text \<open>The directory of the records: the name of each entry and the file under it.\<close>

type_synonym record_dir = "net_assessment net_file gomap"

definition valid_receipt_id :: "string \<Rightarrow> bool" where
  "valid_receipt_id i \<longleftrightarrow> has_prefix i ''nver_'' \<and> native_ok i \<and> length i > 5"

record save_io =
  sv_uid :: nat
  sv_mkdir :: bool
  sv_dir :: lstat_result
  sv_written :: bool
  sv_links :: bool
  sv_synced :: bool
  sv_size :: nat

definition save_assessment :: "save_io \<Rightarrow> net_assessment \<Rightarrow> record_dir \<Rightarrow> net_error option \<times> record_dir" where
  "save_assessment io a d =
     (if \<not> valid_receipt_id (as_id a) then (Some NetInvalid, d)
      else if \<not> sv_mkdir io \<or> \<not> private_net_dir (sv_dir io) \<or> \<not> sv_written io then (Some NetUnsafe, d)
      else let name = as_id a @ ''.json'' in
        if \<not> sv_links io \<or> map_of d name \<noteq> None then (Some NetUnsafe, d)
        else (if sv_synced io then None else Some NetUnsafe,
              (name, NetFile (saved_node (sv_uid io)) (sv_size io) True (Some a)) # d))"

definition entry_at :: "string \<Rightarrow> record_dir \<Rightarrow> net_assessment net_file" where
  "entry_at name d = (case map_of d name of None \<Rightarrow> NoFile | Some f \<Rightarrow> f)"

definition read_assessment :: "nat \<Rightarrow> string \<Rightarrow> record_dir \<Rightarrow> net_error + net_assessment" where
  "read_assessment uid i d =
     (if \<not> valid_receipt_id i then Inl NetInvalid else read_safe uid (entry_at (i @ ''.json'') d))"

definition is_dir_entry :: "net_assessment net_file \<Rightarrow> bool" where
  "is_dir_entry f = (case f of NetFile n _ _ _ \<Rightarrow> n_kind n = Directory | _ \<Rightarrow> False)"

definition prunable :: "time \<Rightarrow> net_assessment \<Rightarrow> bool" where
  "prunable now a \<longleftrightarrow> as_cleanup a \<and> now - as_created_at a > 30 * 24 * hour"

text \<open>The loop over the entries, in the order of the listing; \<open>removes\<close> says which removals work.\<close>

fun prune_loop ::
    "nat \<Rightarrow> time \<Rightarrow> (string \<Rightarrow> bool) \<Rightarrow> (string \<times> net_assessment net_file) list \<Rightarrow> record_dir
     \<Rightarrow> net_error option \<times> record_dir" where
  "prune_loop uid now removes [] d = (None, d)"
| "prune_loop uid now removes ((name, f) # es) d =
     (let i = trim_suffix name ''.json'' in
      if is_dir_entry f \<or> \<not> has_suffix name ''.json'' \<or> \<not> valid_receipt_id i then prune_loop uid now removes es d
      else (case read_assessment uid i d of
        Inl e \<Rightarrow> (Some e, d)
      | Inr a \<Rightarrow>
          if prunable now a then
            (if removes name then prune_loop uid now removes es (AList.delete name d) else (Some NetUnsafe, d))
          else prune_loop uid now removes es d))"

definition prune_assessments ::
    "nat \<Rightarrow> lstat_result \<Rightarrow> net_error option \<Rightarrow> time \<Rightarrow> (string \<Rightarrow> bool) \<Rightarrow> record_dir
     \<Rightarrow> net_error option \<times> record_dir" where
  "prune_assessments uid dir listing now removes d =
     (case dir of
        Missing \<Rightarrow> (None, d)
      | LstatError \<Rightarrow> (Some NetUnsafe, d)
      | Found n \<Rightarrow>
          if \<not> private_net_dir dir \<or> n_uid n \<noteq> uid then (Some NetUnsafe, d)
          else if listing = Some NetNotExist then (None, d)
          else if listing \<noteq> None then (Some NetUnsafe, d)
          else if length d > 4096 then (Some NetUnsupported, d)
          else prune_loop uid now removes (sort_by (\<lambda>a b. str_le (fst a) (fst b)) d) d)"

subsection \<open>Lemmas on the verdict\<close>

lemma fold_use_fact:
  "fold use_fact fs (r, a) = (r', a') \<Longrightarrow>
     as_verdict a' = (if \<exists>f \<in> set fs. \<not> nf_value f then VerdictViolated else as_verdict a)
     \<and> (pr_state r' = ''missing'' \<longleftrightarrow> fs = [] \<and> pr_state r = ''missing'')"
proof (induction fs arbitrary: r a)
  case (Cons f fs)
  obtain r1 a1 where u: "use_fact f (r, a) = (r1, a1)" by fastforce
  then have "as_verdict a1 = (if nf_value f then as_verdict a else VerdictViolated) \<and> pr_state r1 \<noteq> ''missing''"
    by (auto simp: use_fact_def Let_def split: if_splits)
  then show ?case using Cons.IH [of r1 a1] Cons.prems u by auto
qed auto

definition supports where
  "supports h q facts now fixture scoped p \<longleftrightarrow>
     (\<exists>f \<in> set facts. fact_counts h q now fixture p scoped f) \<and> (\<forall>f \<in> set facts. fact_counts h q now fixture p scoped f \<longrightarrow> nf_value f)"

definition contradicts where
  "contradicts h q facts now fixture scoped p \<longleftrightarrow> (\<exists>f \<in> set facts. fact_counts h q now fixture p scoped f \<and> \<not> nf_value f)"

lemma mark_missing_verdict [simp]:
  "as_verdict (mark_missing p a) = VerdictViolated \<longleftrightarrow> as_verdict a = VerdictViolated"
  "as_verdict (mark_missing p a) \<noteq> VerdictVerified"
  by (auto simp: mark_missing_def)

lemma eval_property_verdict:
  "as_verdict (eval_property h q facts now fx sc p a) = VerdictViolated \<longleftrightarrow>
     as_verdict a = VerdictViolated \<or> contradicts h q facts now fx sc p"
  "as_verdict (eval_property h q facts now fx sc p a) = VerdictVerified \<longleftrightarrow>
     as_verdict a = VerdictVerified \<and> supports h q facts now fx sc p"
proof -
  let ?fs = "filter (fact_counts h q now fx p sc) facts"
  let ?r = "\<lparr>pr_property = p, pr_tuple = sc, pr_state = ''missing'', pr_evidence = [], pr_assurance = []\<rparr>"
  obtain r a1 where f: "fold use_fact ?fs (?r, a) = (r, a1)" by fastforce
  have v: "as_verdict a1 = (if \<exists>f \<in> set ?fs. \<not> nf_value f then VerdictViolated else as_verdict a)"
    and m: "pr_state r = ''missing'' \<longleftrightarrow> ?fs = []"
    using fold_use_fact [OF f] by auto
  have e: "as_verdict (eval_property h q facts now fx sc p a) = as_verdict (if ?fs = [] then mark_missing p a1 else a1)"
    using f m by (simp add: eval_property_def Let_def)
  show "as_verdict (eval_property h q facts now fx sc p a) = VerdictViolated \<longleftrightarrow>
     as_verdict a = VerdictViolated \<or> contradicts h q facts now fx sc p"
    unfolding e contradicts_def using v by (auto simp: filter_empty_conv)
  show "as_verdict (eval_property h q facts now fx sc p a) = VerdictVerified \<longleftrightarrow>
     as_verdict a = VerdictVerified \<and> supports h q facts now fx sc p"
    unfolding e supports_def using v by (auto simp: filter_empty_conv)
qed

lemma fold_properties_verdict:
  "as_verdict (fold (eval_property h q facts now fx sc) ps a) = VerdictViolated \<longleftrightarrow>
     as_verdict a = VerdictViolated \<or> (\<exists>p \<in> set ps. contradicts h q facts now fx sc p)"
  "as_verdict (fold (eval_property h q facts now fx sc) ps a) = VerdictVerified \<longleftrightarrow>
     as_verdict a = VerdictVerified \<and> (\<forall>p \<in> set ps. supports h q facts now fx sc p)"
  by (induction ps arbitrary: a) (auto simp: eval_property_verdict)

definition scope_listed where
  "scope_listed h q sc \<longleftrightarrow> oq_tuple_required q = [] \<or> required_of h q (fst sc) \<noteq> []"

lemma eval_scope_verdict:
  "as_verdict (eval_scope h q facts now fx sc a) = VerdictViolated \<longleftrightarrow>
     as_verdict a = VerdictViolated \<or> (\<exists>p \<in> set (required_of h q (fst sc)). contradicts h q facts now fx (snd sc) p)"
  "as_verdict (eval_scope h q facts now fx sc a) = VerdictVerified \<longleftrightarrow>
     as_verdict a = VerdictVerified \<and> scope_listed h q sc
     \<and> (\<forall>p \<in> set (required_of h q (fst sc)). supports h q facts now fx (snd sc) p)"
  by (cases sc; auto simp: eval_scope_def Let_def fold_properties_verdict scope_listed_def)+

lemma fold_scopes_verdict:
  "as_verdict (fold (eval_scope h q facts now fx) scs a) = VerdictViolated \<longleftrightarrow>
     as_verdict a = VerdictViolated
     \<or> (\<exists>sc \<in> set scs. \<exists>p \<in> set (required_of h q (fst sc)). contradicts h q facts now fx (snd sc) p)"
  "as_verdict (fold (eval_scope h q facts now fx) scs a) = VerdictVerified \<longleftrightarrow>
     as_verdict a = VerdictVerified
     \<and> (\<forall>sc \<in> set scs. scope_listed h q sc \<and> (\<forall>p \<in> set (required_of h q (fst sc)). supports h q facts now fx (snd sc) p))"
  by (induction scs arbitrary: a) (auto simp: eval_scope_verdict)

lemma evaluate_verdict:
  "as_verdict (evaluate_evidence h buf q facts now cleanup fx) = VerdictViolated \<longleftrightarrow>
     oq_required q \<noteq> [] \<and> profile_valid q
     \<and> (\<exists>sc \<in> set (scopes q). \<exists>p \<in> set (required_of h q (fst sc)). contradicts h q facts now fx (snd sc) p)"
  "as_verdict (evaluate_evidence h buf q facts now cleanup fx) = VerdictVerified \<longleftrightarrow>
     oq_required q \<noteq> [] \<and> profile_valid q \<and> cleanup
     \<and> (\<forall>sc \<in> set (scopes q). scope_listed h q sc \<and> (\<forall>p \<in> set (required_of h q (fst sc)). supports h q facts now fx (snd sc) p))"
  by (auto simp: evaluate_evidence_def Let_def fold_scopes_verdict new_assessment_def)


subsection \<open>Properties\<close>

text \<open>
  (C22) The verdict, characterised. A request is \<open>VERIFIED\<close> exactly when its profile is finite and
  valid, the collection cleaned up, every tuple in scope has required properties, and each of them
  is carried by at least one fact that counts and contradicted by none. It is \<open>VIOLATED\<close> exactly
  when the profile is valid and some required property is contradicted, whatever else is missing.
\<close>

theorem verdict_exact:
  "(as_verdict (evaluate_evidence h buf q facts now cleanup fixture) = VerdictVerified \<longleftrightarrow>
      oq_required q \<noteq> [] \<and> profile_valid q \<and> cleanup
      \<and> (\<forall>(t, scoped) \<in> set (scopes q).
           (oq_tuple_required q \<noteq> [] \<longrightarrow> required_of h q t \<noteq> [])
           \<and> (\<forall>p \<in> set (required_of h q t).
                (\<exists>f \<in> set facts. fact_counts h q now fixture p scoped f)
                \<and> (\<forall>f \<in> set facts. fact_counts h q now fixture p scoped f \<longrightarrow> nf_value f))))
   \<and> (as_verdict (evaluate_evidence h buf q facts now cleanup fixture) = VerdictViolated \<longleftrightarrow>
      oq_required q \<noteq> [] \<and> profile_valid q
      \<and> (\<exists>(t, scoped) \<in> set (scopes q). \<exists>p \<in> set (required_of h q t). \<exists>f \<in> set facts.
           fact_counts h q now fixture p scoped f \<and> \<not> nf_value f))"
  unfolding evaluate_verdict scope_listed_def supports_def contradicts_def case_prod_unfold by blast

lemma same_refs_mset:
  assumes "same_refs h a b" 
  shows "mset a = mset b"
  using assms by (metis same_refs_def sort_hashed_def sort_by_mset)

text \<open>
  What a verified request rests on: for every required property a positive fact about the same
  target, the same object revisions and the same rules, observed within the last ten minutes and
  still valid, under an accepted assurance, synthetic only in a fixture, and never about a mediated
  tuple.
\<close>

theorem verified_evidence_fresh:
  assumes "as_verdict (evaluate_evidence h buf q facts now cleanup fixture) = VerdictVerified"
    and "(t, scoped) \<in> set (scopes q)" and "p \<in> set (required_of h q t)"
  shows "\<exists>f \<in> set facts. nf_property f = p \<and> nf_tuple f = scoped \<and> nf_value f \<and> nf_validated f
    \<and> nf_target f = oq_target q \<and> mset (nf_scope f) = mset (oq_objects q) \<and> mset (nf_policies f) = mset (oq_policies q)
    \<and> now - 10 * minute \<le> nf_observed_at f \<and> nf_observed_at f \<le> now \<and> now \<le> nf_valid_until f
    \<and> nf_assurance f \<in> {''runtime_validated'', ''operator_attested'', ''synthetic_runtime''}
    \<and> (nf_assurance f = ''synthetic_runtime'' \<longrightarrow> fixture)
    \<and> (\<forall>d. nf_tuple f = Some d \<longrightarrow> nt_mode d = ''direct'')"
proof -
  have "supports h q facts now fixture scoped p" using assms unfolding evaluate_verdict by fastforce
  then obtain f where f: "f \<in> set facts" "fact_counts h q now fixture p scoped f" "nf_value f"
    by (auto simp: supports_def)
  then have v: "valid_fact h f q now fixture" by (simp add: fact_counts_def)
  then have "nf_valid_until f \<le> nf_observed_at f + 10 * minute" "now \<le> nf_valid_until f"
    by (auto simp: valid_fact_def split: if_splits)
  then have "now - 10 * minute \<le> nf_observed_at f" by simp
  then show ?thesis
    using f v same_refs_mset by (intro bexI [OF _ f(1)]) (auto simp: fact_counts_def valid_fact_def split: if_splits option.splits)
qed

text \<open>
  (C27) An observation is authorised exactly when the state file is safe and holds exactly one grant
  of that id, the capability is one of the two for networks, the identity tool names a subject, and
  the grant admits that subject, capability, the class \<open>network-metadata\<close> and the digest of this very
  request, at zero cost, inside its window and without an approval being due.
\<close>

theorem observation_authorized_iff:
  "authorize_observation h uid f i q cap now whoami = None \<longleftrightarrow>
     (\<exists>n sz gs g subject. f = NetFile n sz True (Some gs) \<and> safe_node uid n sz \<and> filter (\<lambda>g. g_id g = i) gs = [g]
        \<and> cap \<in> {''network.read'', ''network.probe''} \<and> resolve_subject [] True whoami = Inr subject
        \<and> g_status g = GrantActive \<and> subject = g_sub g \<and> subject = identity_sub (g_pins g)
        \<and> gate_ok g (observation_request h q cap subject) now
        \<and> contains_item (allowed_targets (g_pins g)) (request_digest h q cap)
        \<and> \<not> needs_approval g (observation_request h q cap subject))"
  (is "?l = ?r")
proof -
  have read: "read_grant_projection uid f i = Inr g \<longleftrightarrow>
      (\<exists>n sz gs. f = NetFile n sz True (Some gs) \<and> safe_node uid n sz \<and> filter (\<lambda>g. g_id g = i) gs = [g])" for g
    by (cases f) (auto simp: read_grant_projection_def split: option.splits list.splits)
  have "?l \<longleftrightarrow> (\<exists>g subject. read_grant_projection uid f i = Inr g \<and> cap \<in> {''network.read'', ''network.probe''}
      \<and> resolve_subject [] True whoami = Inr subject
      \<and> er_decision (evaluate_action g (observation_request h q cap subject) now) = DecisionAllow)"
    by (auto simp: authorize_observation_def split: sum.splits)
  also have "\<dots> \<longleftrightarrow> ?r"
    unfolding read evaluate_decision_cases
    by (auto simp: gate_ok_def subject_ok_def scope_ok_def observation_request_def)
  finally show ?thesis .
qed

text \<open>An entry that the loop removes: a record name, a record read safely, complete and old.\<close>

definition stale_record :: "nat \<Rightarrow> time \<Rightarrow> string \<times> net_assessment net_file \<Rightarrow> bool" where
  "stale_record uid now e \<longleftrightarrow>
     has_suffix (fst e) ''.json'' \<and> valid_receipt_id (trim_suffix (fst e) ''.json'')
     \<and> (\<exists>a. read_safe uid (snd e) = Inr a \<and> prunable now a)"

lemma read_entry:
  assumes "has_suffix name ''.json''" and "map_of d name = Some f" and "valid_receipt_id (trim_suffix name ''.json'')"
  shows "read_assessment uid (trim_suffix name ''.json'') d = read_safe uid f"
proof -
  obtain u where "name = u @ ''.json''" using assms(1) by (auto simp: has_suffix_iff)
  then show ?thesis using assms(2,3) by (simp add: read_assessment_def entry_at_def)
qed

lemma dir_not_stale: "is_dir_entry f \<Longrightarrow> \<not> stale_record uid now (name, f)"
  by (auto simp: is_dir_entry_def stale_record_def read_safe_def safe_node_def split: net_file.splits)

lemma prune_loop_result:
  assumes "prune_loop uid now removes es d = (e, d1)" and "distinct (map fst es)"
    and "\<And>name f. (name, f) \<in> set es \<Longrightarrow> map_of d name = Some f"
  shows "\<exists>R \<subseteq> fst ` {x \<in> set es. stale_record uid now x}.
      map_of d1 = map_of d |` (- R) \<and> (e = None \<longrightarrow> R = fst ` {x \<in> set es. stale_record uid now x})"
  using assms
proof (induction uid now removes es d rule: prune_loop.induct)
  case (1 uid now removes d)
  then show ?case by (auto simp: restrict_map_def)
next
  case (2 uid now removes name f es d)
  let ?i = "trim_suffix name ''.json''"
  let ?S = "fst ` {x \<in> set es. stale_record uid now x}"
  have dist: "distinct (map fst es)" "name \<notin> fst ` set es" using "2.prems"(2) by auto
  have rest: "(n, g) \<in> set es \<Longrightarrow> map_of d n = Some g" for n g using "2.prems"(3) by simp
  have here: "map_of d name = Some f" using "2.prems"(3) by simp
  show ?case
  proof (cases "is_dir_entry f \<or> \<not> has_suffix name ''.json'' \<or> \<not> valid_receipt_id ?i")
    case True
    then have "\<not> stale_record uid now (name, f)" using dir_not_stale by (auto simp: stale_record_def)
    then have S: "{x \<in> set ((name, f) # es). stale_record uid now x} = {x \<in> set es. stale_record uid now x}" by auto
    have "prune_loop uid now removes es d = (e, d1)" using "2.prems"(1) True by simp
    from "2.IH"(1) [OF refl True this dist(1) rest] show ?thesis unfolding S by blast
  next
    case False
    then have read: "read_assessment uid ?i d = read_safe uid f" using here by (intro read_entry) auto
    show ?thesis
    proof (cases "read_safe uid f")
      case (Inl err)
      then have "d1 = d" "e = Some err" using "2.prems"(1) False read by auto
      then show ?thesis by (intro exI [of _ "{}"]) simp
    next
      case (Inr a)
      have st: "stale_record uid now (name, f) = prunable now a" using False Inr by (simp add: stale_record_def)
      show ?thesis
      proof (cases "prunable now a")
        case no: False
        then have S: "{x \<in> set ((name, f) # es). stale_record uid now x} = {x \<in> set es. stale_record uid now x}"
          using st by auto
        have "prune_loop uid now removes es d = (e, d1)" using "2.prems"(1) False read Inr no by simp
        from "2.IH"(3) [OF refl False read [unfolded Inr] no this dist(1) rest] show ?thesis unfolding S by blast
      next
        case old: True
        then have S: "fst ` {x \<in> set ((name, f) # es). stale_record uid now x} = insert name ?S" using st old by (force simp: image_iff)
        show ?thesis
        proof (cases "removes name")
          case no: False
          then have "d1 = d" "e = Some NetUnsafe" using "2.prems"(1) False read Inr old by auto
          then show ?thesis by (intro exI [of _ "{}"]) simp
        next
          case yes: True
          have run: "prune_loop uid now removes es (AList.delete name d) = (e, d1)"
            using "2.prems"(1) False read Inr old yes by simp
          have rest': "(n, g) \<in> set es \<Longrightarrow> map_of (AList.delete name d) n = Some g" for n g
            using rest dist(2) by (force simp: delete_conv')
          obtain R where R: "R \<subseteq> ?S" "map_of d1 = map_of (AList.delete name d) |` (- R)" "e = None \<longrightarrow> R = ?S"
            using "2.IH"(2) [OF refl False read [unfolded Inr] old yes run dist(1) rest'] by blast
          have "map_of d1 = map_of d |` (- insert name R)" using R(2) by (auto simp: delete_conv' restrict_map_def)
          then show ?thesis unfolding S using R(1,3) by (intro exI [of _ "insert name R"]) auto
        qed
      qed
    qed
  qed
qed


lemma save_assessment_cases:
  "(snd (save_assessment io a d) = d \<and> fst (save_assessment io a d) \<noteq> None)
   \<or> (valid_receipt_id (as_id a) \<and> map_of d (as_id a @ ''.json'') = None
      \<and> snd (save_assessment io a d)
          = (as_id a @ ''.json'', NetFile (saved_node (sv_uid io)) (sv_size io) True (Some a)) # d)"
  by (simp add: save_assessment_def Let_def)

text \<open>
  Stored assessments are kept: saving never replaces a record, and adds one only under the valid
  identifier of the assessment; pruning leaves every other entry as it was and removes an entry only
  when it is a record that reads safely, cleaned up and older than thirty days; and when pruning
  an owned private directory reports no error, none of these is left.
\<close>

theorem assessment_records_kept:
  assumes d: "distinct (map fst d)"
  shows "(\<forall>name. map_of d name \<noteq> None \<longrightarrow> map_of (snd (save_assessment io a d)) name = map_of d name)
    \<and> (\<forall>name. map_of (snd (save_assessment io a d)) name \<noteq> map_of d name
         \<longrightarrow> name = as_id a @ ''.json'' \<and> valid_receipt_id (as_id a))
    \<and> (fst (save_assessment io a d) = None
         \<longrightarrow> map_of (snd (save_assessment io a d)) (as_id a @ ''.json'')
             = Some (NetFile (saved_node (sv_uid io)) (sv_size io) True (Some a)))
    \<and> (\<forall>name f. map_of d name = Some f \<and> \<not> stale_record uid now (name, f)
         \<longrightarrow> map_of (snd (prune_assessments uid dir listing now removes d)) name = Some f)
    \<and> (\<forall>name f. map_of (snd (prune_assessments uid dir listing now removes d)) name = Some f \<longrightarrow> map_of d name = Some f)
    \<and> (fst (prune_assessments uid dir listing now removes d) = None \<and> dir = Found n \<and> listing = None
         \<longrightarrow> (\<forall>name f. stale_record uid now (name, f)
               \<longrightarrow> map_of (snd (prune_assessments uid dir listing now removes d)) name \<noteq> Some f))"
proof -
  define p where "p = prune_assessments uid dir listing now removes d"
  let ?S = "fst ` {x \<in> set d. stale_record uid now x}"
  have mem: "map_of d name = Some f \<longleftrightarrow> (name, f) \<in> set d" for name f using d by simp
  have prune: "\<exists>R \<subseteq> ?S. map_of (snd p) = map_of d |` (- R) \<and> (fst p = None \<and> dir = Found n \<and> listing = None \<longrightarrow> R = ?S)"
  proof (cases "\<exists>es. p = prune_loop uid now removes es d \<and> es = sort_by (\<lambda>a b. str_le (fst a) (fst b)) d")
    case True
    define es where "es = sort_by (\<lambda>a b. str_le (fst a) (fst b)) d"
    have l: "prune_loop uid now removes es d = (fst p, snd p)" using True es_def by simp
    have "mset es = mset d" by (simp add: es_def sort_by_mset)
    then have "mset (map fst es) = mset (map fst d)" by simp
    then have di: "distinct (map fst es)" and se: "set es = set d"
      using d \<open>mset es = mset d\<close> by (metis mset_eq_imp_distinct_iff, metis mset_eq_setD)
    have m: "map_of d name = Some f" if "(name, f) \<in> set es" for name f using that se mem by simp
    have "\<exists>R \<subseteq> fst ` {x \<in> set es. stale_record uid now x}. map_of (snd p) = map_of d |` (- R)
        \<and> (fst p = None \<longrightarrow> R = fst ` {x \<in> set es. stale_record uid now x})"
      by (rule prune_loop_result [OF l di]) (rule m)
    then obtain R where "R \<subseteq> ?S" "map_of (snd p) = map_of d |` (- R)" "fst p = None \<longrightarrow> R = ?S"
      unfolding se by (elim exE conjE) (rule that)
    then show ?thesis by (intro exI [of _ R] conjI impI) simp_all
  next
    case False
    then have "snd p = d" "\<not> (fst p = None \<and> dir = Found n \<and> listing = None)"
      unfolding p_def prune_assessments_def by (auto split: lstat_result.splits if_splits)
    then show ?thesis by (intro exI [of _ "{}"]) (auto simp: restrict_map_def)
  qed
  then obtain R where R: "R \<subseteq> ?S" "map_of (snd p) = map_of d |` (- R)" "fst p = None \<and> dir = Found n \<and> listing = None \<longrightarrow> R = ?S"
    by blast
  have same: "stale_record uid now (name, f)" if "name \<in> R" "map_of d name = Some f" for name f
  proof -
    have "name \<in> ?S" by (rule subsetD [OF R(1) that(1)])
    then obtain g where "(name, g) \<in> set d" "stale_record uid now (name, g)" by force
    then show ?thesis using that(2) mem by (metis option.inject)
  qed
  have save: "(\<forall>name. map_of d name \<noteq> None \<longrightarrow> map_of (snd (save_assessment io a d)) name = map_of d name)
    \<and> (\<forall>name. map_of (snd (save_assessment io a d)) name \<noteq> map_of d name
         \<longrightarrow> name = as_id a @ ''.json'' \<and> valid_receipt_id (as_id a))
    \<and> (fst (save_assessment io a d) = None
         \<longrightarrow> map_of (snd (save_assessment io a d)) (as_id a @ ''.json'')
             = Some (NetFile (saved_node (sv_uid io)) (sv_size io) True (Some a)))"
    using save_assessment_cases [of io a d]
    by (elim disjE conjE) (simp_all del: not_None_eq)
  have kept: "map_of (snd p) name = Some f" if "map_of d name = Some f \<and> \<not> stale_record uid now (name, f)" for name f
    using that same R(2) by (auto simp: restrict_map_def)
  have old: "map_of (snd p) name = Some f \<Longrightarrow> map_of d name = Some f" for name f
    using R(2) by (auto simp: restrict_map_def split: if_splits)
  have none: "map_of (snd p) name \<noteq> Some f"
    if "fst p = None \<and> dir = Found n \<and> listing = None" "stale_record uid now (name, f)" for name f
  proof
    assume a: "map_of (snd p) name = Some f"
    then have "(name, f) \<in> set d" using old mem by blast
    then have "name \<in> R" using R(3) that by force
    then show False using a R(2) by (simp add: restrict_map_def)
  qed
  show ?thesis using save kept old none unfolding p_def [symmetric] by blast
qed


subsection \<open>Witnesses\<close>

definition sample_request :: net_request where
  "sample_request =
     \<lparr>oq_operation = ''gateway'', oq_target = \<lparr>nr_id = ''net_61'', nr_rev = 1\<rparr>, oq_source = no_ref,
      oq_objects = [\<lparr>nr_id = ''net_61'', nr_rev = 1\<rparr>], oq_policies = [], oq_tuples = [],
      oq_required = net_properties ''gateway'' False False, oq_tuple_required = [], oq_metadata_digest = ''m''\<rparr>"

definition sample_facts :: "net_fact list" where
  "sample_facts =
     map (\<lambda>p. new_fact (\<lambda>_. ''h'') p sample_request None True 1000 ''runtime_validated'') (oq_required sample_request)"

definition sample_verdict :: net_assessment where
  "sample_verdict = evaluate_evidence (\<lambda>_. ''h'') ''a'' sample_request sample_facts 2000 True False"

lemma sample_net_verified: "as_verdict sample_verdict = VerdictVerified"
  by code_simp

lemma verdict_exact_witness:
  "(\<exists>f \<in> set sample_facts. fact_counts (\<lambda>_. ''h'') sample_request 2000 False ''gateway.reader'' None f)
   \<and> as_verdict (evaluate_evidence (\<lambda>_. ''h'') ''a'' sample_request [] 2000 True False) \<noteq> VerdictVerified"
proof
  have r: "(no_tuple, None) \<in> set (scopes sample_request)" by (simp add: scopes_def sample_request_def)
  have p: "''gateway.reader'' \<in> set (required_of (\<lambda>_. ''h'') sample_request no_tuple)" by code_simp
  show "\<exists>f \<in> set sample_facts. fact_counts (\<lambda>_. ''h'') sample_request 2000 False ''gateway.reader'' None f"
    using sample_net_verified r p verdict_exact [of "\<lambda>_. ''h''" "''a''" sample_request sample_facts 2000 True False]
    unfolding sample_verdict_def by fastforce
  show "as_verdict (evaluate_evidence (\<lambda>_. ''h'') ''a'' sample_request [] 2000 True False) \<noteq> VerdictVerified"
    by code_simp
qed

lemma verified_evidence_fresh_witness:
  "\<exists>f \<in> set sample_facts. nf_property f = ''gateway.reader'' \<and> 2000 - 10 * minute \<le> nf_observed_at f"
proof -
  have r: "(no_tuple, None) \<in> set (scopes sample_request)" by (simp add: scopes_def sample_request_def)
  have p: "''gateway.reader'' \<in> set (required_of (\<lambda>_. ''h'') sample_request no_tuple)" by code_simp
  show ?thesis
    using verified_evidence_fresh [OF sample_net_verified [unfolded sample_verdict_def] r p] by blast
qed

definition sample_pins_net :: pins where
  "sample_pins_net =
     \<lparr>identity_sub = ''ck_sub_a'', authority_chain = [''ck_sub_a''], capabilities_allowed = [''network.read''],
      allowed_classes = [''network-metadata''],
      spend_policy = \<lparr>limit_cents = 0, spent_cents = 0, window_start = 0, window_end = 5000\<rparr>,
      allowed_targets = [''network:h''], threshold_cents = 0\<rparr>"

definition sample_net_grant :: grant where
  "sample_net_grant =
     \<lparr>g_id = ''grt_1'', g_sub = ''ck_sub_a'', g_status = GrantActive, g_delegated_by = [], g_pins = sample_pins_net,
      g_created_at = 0, g_updated_at = 0, g_revoked_at = None, g_attestation = None\<rparr>"

lemma sample_net_fields:
  "g_status sample_net_grant = GrantActive" "g_sub sample_net_grant = ''ck_sub_a''"
  "identity_sub (g_pins sample_net_grant) = ''ck_sub_a''" "g_id sample_net_grant = ''grt_1''"
  by (simp_all add: sample_net_grant_def sample_pins_net_def)

lemma sample_net_admits:
  "gate_ok sample_net_grant (observation_request (\<lambda>_. ''h'') q ''network.read'' ''ck_sub_a'') 1000
   \<and> contains_item (allowed_targets (g_pins sample_net_grant)) (request_digest (\<lambda>_. ''h'') q ''network.read'')
   \<and> \<not> needs_approval sample_net_grant (observation_request (\<lambda>_. ''h'') q ''network.read'' ''ck_sub_a'')"
proof -
  have d: "request_digest (\<lambda>_. ''h'') q ''network.read'' = ''network:h''" by (simp add: request_digest_def)
  show ?thesis by (simp add: d gate_ok_def subject_ok_def authority_ok_def scope_ok_def spend_ok_def needs_approval_def
      observation_request_def sample_net_grant_def sample_pins_net_def) code_simp
qed

lemma sample_net_safe: "safe_node 7 (saved_node 7) 9"
  by (simp add: safe_node_def saved_node_def perm_of_def max_state_bytes_def)

lemma observation_authorized_iff_witness:
  "authorize_observation (\<lambda>_. ''h'') 7 (NetFile (saved_node 7) 9 True (Some [sample_net_grant])) ''grt_1'' sample_request
     ''network.read'' 1000 (Some ''ck_sub_a'') = None"
proof -
  have sub: "resolve_subject [] True (Some ''ck_sub_a'') = Inr ''ck_sub_a''" by code_simp
  show ?thesis
    unfolding observation_authorized_iff using sample_net_safe sub sample_net_admits [of sample_request]
    by (intro exI [of _ "saved_node 7"] exI [of _ 9] exI [of _ "[sample_net_grant]"] exI [of _ sample_net_grant]
        exI [of _ "''ck_sub_a''"]) (simp add: sample_net_fields)
qed

lemma assessment_records_kept_witness:
  "map_of (snd (prune_assessments 7 (Found \<lparr>n_kind = Directory, n_uid = 7, n_perm = 0x1C0\<rparr>) None 5000 (\<lambda>_. True)
     [(''notes.txt'', NetFile (saved_node 7) 9 True (Some sample_verdict))])) ''notes.txt''
   = Some (NetFile (saved_node 7) 9 True (Some sample_verdict))"
proof -
  have d: "distinct (map fst [(''notes.txt'', NetFile (saved_node 7) 9 True (Some sample_verdict))])" by simp
  have n: "\<not> stale_record 7 5000 (''notes.txt'', NetFile (saved_node 7) 9 True (Some sample_verdict))"
    by (simp add: stale_record_def has_suffix_def)
  show ?thesis using assessment_records_kept [OF d] n by fastforce
qed

end
