(* ===== verification/NetRulesProps.thy ===== *)
theory NetRulesProps
  imports NetRules
begin

text \<open>
  What the registry guarantees: the invariant that every operation keeps, the exact outcome of a
  resolution, and what a changed binding does to the rules that name it.
\<close>

subsection \<open>Valid objects\<close>

definition object_ok :: "net_object \<Rightarrow> bool" where
  "object_ok x \<longleftrightarrow> valid_object x \<and> has_prefix (object_id x) ''net_'' \<and> nr_rev (no_ref_of x) \<noteq> 0"

definition service_keys :: "net_object list \<Rightarrow> string list" where
  "service_keys xs = map endpoint_key (filter (\<lambda>x. no_kind x = KindService) xs)"

definition objects_ok :: "net_object list \<Rightarrow> bool" where
  "objects_ok xs \<longleftrightarrow> list_all object_ok xs \<and> distinct (map object_id xs) \<and> distinct (map alias_key xs)
     \<and> distinct (service_keys xs)"

lemma validate_loop_result:
  "validate_loop h refs aliases eps xs = Inr ys \<Longrightarrow>
     ys = map (clone_object h) xs \<and> objects_ok ys
     \<and> set (map object_id ys) \<inter> set refs = {} \<and> set (map alias_key ys) \<inter> set aliases = {}
     \<and> set (service_keys ys) \<inter> set eps = {}"
proof (induction h refs aliases eps xs arbitrary: ys rule: validate_loop.induct)
  case (2 h refs aliases eps x0 xs)
  let ?x = "clone_object h x0"
  obtain zs where ok: "object_ok ?x" "object_id ?x \<notin> set refs" "alias_key ?x \<notin> set aliases"
      "no_kind ?x = KindService \<longrightarrow> endpoint_key ?x \<notin> set eps"
    and z: "validate_loop h (object_id ?x # refs) (alias_key ?x # aliases)
       (if no_kind ?x = KindService then endpoint_key ?x # eps else eps) xs = Inr zs" and ys: "ys = ?x # zs"
    using "2.prems" by (auto simp: Let_def object_ok_def split: if_splits)
  have ih: "zs = map (clone_object h) xs \<and> objects_ok zs
     \<and> set (map object_id zs) \<inter> set (object_id ?x # refs) = {} \<and> set (map alias_key zs) \<inter> set (alias_key ?x # aliases) = {}
     \<and> set (service_keys zs) \<inter> set (if no_kind ?x = KindService then endpoint_key ?x # eps else eps) = {}"
    using "2.IH" [OF refl _ _ _ z] ok unfolding object_ok_def by blast
  note zs = ih [THEN conjunct1] and rest = ih [THEN conjunct2]
  have keys: "service_keys ys = (if no_kind ?x = KindService then [endpoint_key ?x] else []) @ service_keys zs"
    using ys by (simp add: service_keys_def)
  have "objects_ok ys"
    using rest ok ys unfolding objects_ok_def keys by (cases "no_kind ?x = KindService") auto
  moreover have "set (service_keys ys) \<inter> set eps = {}"
    using rest ok unfolding keys by (cases "no_kind ?x = KindService") auto
  moreover have "ys = map (clone_object h) (x0 # xs)" using zs ys by simp
  ultimately show ?case using rest ok ys by auto
qed (simp add: objects_ok_def service_keys_def)

lemma validate_objects_result:
  "validate_objects h xs = Inr ys \<Longrightarrow> ys = map (clone_object h) xs \<and> objects_ok ys"
  unfolding validate_objects_def using validate_loop_result by blast

text \<open>What of this does not depend on the order of the lists inside a binding.\<close>

definition ids_ok :: "net_object list \<Rightarrow> bool" where
  "ids_ok xs \<longleftrightarrow> distinct (map object_id xs) \<and> (\<forall>x \<in> set xs. nr_rev (no_ref_of x) \<noteq> 0)"

lemma objects_ok_ids: "objects_ok xs \<Longrightarrow> ids_ok xs"
  by (auto simp: objects_ok_def ids_ok_def object_ok_def list_all_iff)

lemma ids_ok_clone [simp]: "ids_ok (map (clone_object h) xs) = ids_ok xs"
  by (simp add: ids_ok_def comp_def)

lemma ids_ok_same:
  "ids_ok xs \<Longrightarrow> x \<in> set xs \<Longrightarrow> y \<in> set xs \<Longrightarrow> object_id x = object_id y \<Longrightarrow> x = y"
  by (auto simp: ids_ok_def dest: inj_onD distinct_map [THEN iffD1])

lemma find_object_Inr:
  "find_object h xs k name = Inr x \<Longrightarrow> \<exists>y \<in> set xs. x = clone_object h y \<and> is_named k name y"
  by (auto simp: find_object_def find_Some_iff split: option.splits intro: nth_mem)

subsection \<open>Bound tuples\<close>

definition bound_ref :: "net_object list \<Rightarrow> net_kind \<Rightarrow> net_ref \<Rightarrow> bool" where
  "bound_ref xs k r \<longleftrightarrow>
     (\<exists>x \<in> set xs. no_kind x = k \<and> object_id x = nr_id r \<and> 0 < nr_rev r \<and> nr_rev r \<le> nr_rev (no_ref_of x))"

definition tuple_bound :: "hash_json \<Rightarrow> net_object list \<Rightarrow> net_tuple \<Rightarrow> bool" where
  "tuple_bound h xs d \<longleftrightarrow>
     bound_ref xs KindNetwork (nt_source d) \<and> bound_ref xs KindService (nt_endpoint d)
     \<and> (\<forall>e \<in> set xs. no_ref_of e = nt_endpoint d \<longrightarrow> nt_realm d = realm_name h e)"

definition path_bound :: "net_object list \<Rightarrow> net_ref \<Rightarrow> bool" where
  "path_bound xs p \<longleftrightarrow> nr_id p = [] \<or> bound_ref xs KindVpn p"

definition rules_inv :: "hash_json \<Rightarrow> registry_state \<Rightarrow> bool" where
  "rules_inv h s \<longleftrightarrow>
     no_overlap (rs_policies s)
     \<and> (\<forall>r \<in> set (rs_policies s). (\<forall>d \<in> set (ru_tuples r). tuple_bound h (rs_objects s) d)
          \<and> path_bound (rs_objects s) (ru_path r))"

definition registry_inv :: "hash_json \<Rightarrow> registry_state \<Rightarrow> bool" where
  "registry_inv h s \<longleftrightarrow> objects_ok (rs_objects s) \<and> rules_inv h s"

lemma realm_name_clone [simp]: "realm_name h (clone_object k x) = realm_name h x"
  by (simp add: realm_name_def)

lemma tuple_bound_clone [simp]: "tuple_bound h (map (clone_object k) xs) d = tuple_bound h xs d"
  by (simp add: tuple_bound_def bound_ref_def)

lemma path_bound_clone [simp]: "path_bound (map (clone_object k) xs) p = path_bound xs p"
  by (simp add: path_bound_def bound_ref_def)

lemma canonical_tuple_Inr:
  "canonical_tuple h xs t = Inr c \<longleftrightarrow>
     (\<exists>s e. find_object h xs KindNetwork (nr_id (nt_source t)) = Inr s
        \<and> find_object h xs KindService (nr_id (nt_endpoint t)) = Inr e
        \<and> \<not> stale_ref (nt_source t) (no_ref_of s) \<and> \<not> stale_ref (nt_endpoint t) (no_ref_of e) \<and> tuple_fits t e
        \<and> (nt_realm t = nb_realm (no_binding_of e) \<or> nt_realm t = realm_name h e)
        \<and> c = t\<lparr>nt_source := no_ref_of s, nt_endpoint := no_ref_of e, nt_realm := realm_name h e\<rparr>)"
  by (auto simp: canonical_tuple_def)

lemma canonical_bound:
  assumes "canonical_tuple h xs t = Inr c" and ids: "ids_ok xs"
  shows "tuple_bound h xs c"
proof -
  obtain s e where s: "find_object h xs KindNetwork (nr_id (nt_source t)) = Inr s"
    and e: "find_object h xs KindService (nr_id (nt_endpoint t)) = Inr e"
    and c: "nt_source c = no_ref_of s" "nt_endpoint c = no_ref_of e" "nt_realm c = realm_name h e"
    using assms(1) by (auto simp: canonical_tuple_Inr)
  obtain s0 where s0: "s0 \<in> set xs" "s = clone_object h s0" "no_kind s0 = KindNetwork"
    using find_object_Inr [OF s] by (auto simp: is_named_def)
  obtain e0 where e0: "e0 \<in> set xs" "e = clone_object h e0" "no_kind e0 = KindService"
    using find_object_Inr [OF e] by (auto simp: is_named_def)
  have pos: "0 < nr_rev (no_ref_of s0)" "0 < nr_rev (no_ref_of e0)"
    using ids s0 e0 by (auto simp: ids_ok_def word_gt_0)
  have "x = e0" if "x \<in> set xs" "no_ref_of x = no_ref_of e0" for x
    using ids_ok_same [OF ids that(1) e0(1)] that(2) by simp
  then show ?thesis using s0 e0 c pos by (auto simp: tuple_bound_def bound_ref_def)
qed

lemma canonical_tuples_bound:
  "canonical_tuples h xs seen ts = Inr cs \<Longrightarrow> ids_ok xs \<Longrightarrow> \<forall>c \<in> set cs. tuple_bound h xs c"
  by (induction h xs seen ts arbitrary: cs rule: canonical_tuples.induct) (auto dest: canonical_bound)

lemma normalize_path_bound:
  assumes "normalize_path h xs p = Inr q" and ids: "ids_ok xs"
  shows "path_bound xs q"
proof (cases "nr_id p = []")
  case True
  then show ?thesis using assms(1) by (simp add: normalize_path_def path_bound_def)
next
  case False
  then obtain v where "find_object h xs KindVpn (nr_id p) = Inr v" and q: "q = no_ref_of v"
    using assms(1) by (auto simp: normalize_path_def)
  then obtain v0 where v0: "v0 \<in> set xs" "v = clone_object h v0" "no_kind v0 = KindVpn"
    using find_object_Inr by (fastforce simp: is_named_def)
  then have "0 < nr_rev (no_ref_of v0)" using ids by (auto simp: ids_ok_def word_gt_0)
  then show ?thesis using v0 q by (auto simp: path_bound_def bound_ref_def)
qed

subsection \<open>Growth of the objects\<close>

definition grows :: "net_object list \<Rightarrow> net_object list \<Rightarrow> bool" where
  "grows xs ys \<longleftrightarrow>
     (\<forall>x \<in> set xs. \<exists>y \<in> set ys. no_kind y = no_kind x \<and> object_id y = object_id x
        \<and> nr_rev (no_ref_of x) \<le> nr_rev (no_ref_of y)
        \<and> (nr_rev (no_ref_of x) = nr_rev (no_ref_of y) \<longrightarrow> nb_realm (no_binding_of y) = nb_realm (no_binding_of x)))"

lemma grows_refl: "grows xs xs"
  by (auto simp: grows_def)

lemma grows_append: "grows xs (xs @ ys)"
  by (auto simp: grows_def)

lemma bound_ref_grows: "grows xs ys \<Longrightarrow> bound_ref xs k r \<Longrightarrow> bound_ref ys k r"
  unfolding grows_def bound_ref_def by (metis order_trans)

lemma path_bound_grows: "grows xs ys \<Longrightarrow> path_bound xs p \<Longrightarrow> path_bound ys p"
  using bound_ref_grows by (auto simp: path_bound_def)

lemma tuple_bound_grows:
  assumes g: "grows xs ys" and ids: "ids_ok ys" and b: "tuple_bound h xs d"
  shows "tuple_bound h ys d"
proof -
  have "nt_realm d = realm_name h e" if e: "e \<in> set ys" "no_ref_of e = nt_endpoint d" for e
  proof -
    obtain x where x: "x \<in> set xs" "object_id x = nr_id (nt_endpoint d)"
        "nr_rev (nt_endpoint d) \<le> nr_rev (no_ref_of x)"
      using b by (auto simp: tuple_bound_def bound_ref_def)
    obtain y where y: "y \<in> set ys" "object_id y = object_id x" "nr_rev (no_ref_of x) \<le> nr_rev (no_ref_of y)"
        "nr_rev (no_ref_of x) = nr_rev (no_ref_of y) \<longrightarrow> nb_realm (no_binding_of y) = nb_realm (no_binding_of x)"
      using g x(1) unfolding grows_def by blast
    have "y = e" using ids_ok_same [OF ids y(1) e(1)] y(2) x(2) e(2) by simp
    then have "nr_rev (no_ref_of x) = nr_rev (nt_endpoint d)" and realm: "nb_realm (no_binding_of e) = nb_realm (no_binding_of x)"
      using x(3) y(3,4) e(2) by auto
    then have ref: "no_ref_of x = nt_endpoint d" using x(2) by simp
    then have "nt_realm d = realm_name h x" using b x(1) by (auto simp: tuple_bound_def)
    then show ?thesis using realm ref e(2) by (simp add: realm_name_def)
  qed
  then show ?thesis using b bound_ref_grows [OF g] by (simp add: tuple_bound_def)
qed

subsection \<open>Every operation keeps the invariant\<close>

lemma bind_object_fields:
  assumes "bind_object h xs x = Inr y"
  shows "no_ref_of y = no_ref_of x" "no_kind y = no_kind x" "no_alias y = no_alias x"
    "nb_realm (no_binding_of y) = nb_realm (no_binding_of x)"
  using assms by (auto simp: bind_object_def bind_refs_def)

definition keeps_rules :: "hash_json \<Rightarrow> registry_state \<Rightarrow> registry_state \<Rightarrow> bool" where
  "keeps_rules h s s1 \<longleftrightarrow>
     rs_schema s1 = rs_schema s \<and> (rules_inv h s \<and> ids_ok (rs_objects s1) \<longrightarrow> rules_inv h s1)"

lemma keeps_refl: "keeps_rules h s s"
  by (simp add: keeps_rules_def)

lemma keeps_trans:
  "keeps_rules h s s1 \<Longrightarrow> keeps_rules h s1 s2 \<Longrightarrow> rs_objects s1 = rs_objects s2 \<Longrightarrow> keeps_rules h s s2"
  by (simp add: keeps_rules_def)

lemma grows_keeps_rules:
  assumes "ids_ok (rs_objects s1) \<Longrightarrow> grows (rs_objects s) (rs_objects s1)"
    and "rs_policies s1 = rs_policies s" and "rs_schema s1 = rs_schema s"
  shows "keeps_rules h s s1"
  using assms tuple_bound_grows path_bound_grows by (auto simp: keeps_rules_def rules_inv_def)

lemma create_keeps: "create_body h buf x s = Inr (s1, r) \<Longrightarrow> keeps_rules h s s1"
  by (rule grows_keeps_rules) (auto simp: create_body_def Let_def grows_append split: if_splits)

lemma grows_update:
  assumes i: "i < length xs" and y: "no_kind y = no_kind (xs ! i)" "object_id y = object_id (xs ! i)"
      "nr_rev (no_ref_of (xs ! i)) \<le> nr_rev (no_ref_of y)"
      "nr_rev (no_ref_of (xs ! i)) = nr_rev (no_ref_of y) \<longrightarrow> nb_realm (no_binding_of y) = nb_realm (no_binding_of (xs ! i))"
  shows "grows xs (xs[i := y])"
  unfolding grows_def
proof
  fix x assume "x \<in> set xs"
  then obtain j where j: "j < length xs" "x = xs ! j" by (auto simp: in_set_conv_nth)
  have "xs[i := y] ! j \<in> set (xs[i := y])" using j(1) by (simp add: nth_mem)
  then show "\<exists>z \<in> set (xs[i := y]). no_kind z = no_kind x \<and> object_id z = object_id x
      \<and> nr_rev (no_ref_of x) \<le> nr_rev (no_ref_of z)
      \<and> (nr_rev (no_ref_of x) = nr_rev (no_ref_of z) \<longrightarrow> nb_realm (no_binding_of z) = nb_realm (no_binding_of x))"
    using y j i by (cases "i = j") auto
qed

lemma change_body_cases:
  assumes "change_body h k name g s = Inr (s1, r)"
  obtains i y where "i < length (rs_objects s)" "is_named k name (rs_objects s ! i)"
    "bind_object h ((rs_objects s)[i := g (rs_objects s ! i)]) (g (rs_objects s ! i)) = Inr y"
    "s1 = s\<lparr>rs_objects := (rs_objects s)[i := y]\<rparr>" "r = clone_object h y"
proof -
  let ?i = "length (takeWhile (\<lambda>x. \<not> is_named k name x) (rs_objects s))"
  have i: "?i < length (rs_objects s)" using assms by (auto simp: change_body_def Let_def split: if_splits)
  then have "is_named k name (rs_objects s ! ?i)" using nth_length_takeWhile by fastforce
  then show ?thesis using that [of ?i] i assms by (auto simp: change_body_def Let_def split: if_splits)
qed

lemma rev_less: "(r :: 64 word) + 1 \<noteq> 0 \<Longrightarrow> r < r + 1"
  using unatSuc [of r] by (simp add: word_less_nat_alt add.commute)

lemma change_keeps:
  assumes "change_body h k name g s = Inr (s1, r)"
    and g: "\<And>x. no_kind (g x) = no_kind x" "\<And>x. object_id (g x) = object_id x"
      "\<And>x. nr_rev (no_ref_of (g x)) = nr_rev (no_ref_of x) \<and> nb_realm (no_binding_of (g x)) = nb_realm (no_binding_of x)
         \<or> nr_rev (no_ref_of (g x)) = nr_rev (no_ref_of x) + 1"
  shows "keeps_rules h s s1"
proof -
  obtain i y where i: "i < length (rs_objects s)"
    and y: "bind_object h ((rs_objects s)[i := g (rs_objects s ! i)]) (g (rs_objects s ! i)) = Inr y"
    and s1: "s1 = s\<lparr>rs_objects := (rs_objects s)[i := y]\<rparr>"
    using assms(1) by (rule change_body_cases)
  let ?x = "rs_objects s ! i"
  note f = bind_object_fields [OF y] g [of ?x]
  show ?thesis
  proof (rule grows_keeps_rules)
    assume "ids_ok (rs_objects s1)"
    moreover have "y \<in> set (rs_objects s1)" using i s1 by (simp add: set_update_memI)
    ultimately have "nr_rev (no_ref_of y) \<noteq> 0" by (auto simp: ids_ok_def)
    then have rev: "nr_rev (no_ref_of ?x) = nr_rev (no_ref_of y) \<and> nb_realm (no_binding_of y) = nb_realm (no_binding_of ?x)
        \<or> nr_rev (no_ref_of ?x) < nr_rev (no_ref_of y)"
      using f rev_less [of "nr_rev (no_ref_of ?x)"] by metis
    have same: "no_kind y = no_kind ?x" "object_id y = object_id ?x" using f by simp_all
    have "grows (rs_objects s) ((rs_objects s)[i := y])"
      by (rule grows_update [OF i same]) (use rev in \<open>auto simp: less_imp_le\<close>)
    then show "grows (rs_objects s) (rs_objects s1)" using s1 by simp
  qed (simp_all add: s1)
qed

lemma rename_keeps: "change_body h k name (renamed a) s = Inr (s1, r) \<Longrightarrow> keeps_rules h s s1"
  by (erule change_keeps) (simp_all add: renamed_def)

lemma rebind_keeps: "change_body h k name (rebound h b) s = Inr (s1, r) \<Longrightarrow> keeps_rules h s s1"
  by (erule change_keeps) (simp_all add: rebound_def)

subsection \<open>Rules\<close>

lemma place_rule_result:
  assumes "place_rule buf a n rs = (r1, rs1)"
  shows "ru_tuples r1 = ru_tuples n" and "ru_decision r1 = ru_decision n"
    and "r1 \<in> set rs1" and "set rs1 \<subseteq> insert r1 (set rs)" and "ru_path r1 = ru_path n"
proof -
  define i where "i = length (takeWhile (\<lambda>old. ru_alias old \<noteq> a) rs)"
  have p: "ru_tuples r1 = ru_tuples n \<and> ru_decision r1 = ru_decision n \<and> ru_path r1 = ru_path n
      \<and> (i < length rs \<and> rs1 = rs[i := r1] \<or> rs1 = rs @ [r1])"
  proof (cases "i < length rs")
    case True
    then show ?thesis using assms unfolding place_rule_def i_def [symmetric] Let_def by auto
  next
    case False
    then show ?thesis using assms unfolding place_rule_def i_def [symmetric] Let_def by auto
  qed
  then show "ru_tuples r1 = ru_tuples n" "ru_decision r1 = ru_decision n" "ru_path r1 = ru_path n" by blast+
  show "r1 \<in> set rs1" using p by (elim conjE disjE) (simp_all add: set_update_memI)
  show "set rs1 \<subseteq> insert r1 (set rs)" using p set_update_subset_insert [of rs i r1] by auto
qed

lemma put_rule_result:
  assumes "put_rule h buf r s = Inr (s1, r1)"
  obtains n rs where "normalize_rule h (rs_objects s) r = Inr n" "place_rule buf (ru_alias r) n (rs_policies s) = (r1, rs)"
    "no_overlap rs" "s1 = s\<lparr>rs_policies := rs\<rparr>"
  using assms that
  by (cases "normalize_rule h (rs_objects s) r"; cases "place_rule buf (ru_alias r) (projr (normalize_rule h (rs_objects s) r)) (rs_policies s)")
    (auto simp: put_rule_def)

lemma put_rule_keeps: "put_rule h buf r s = Inr (s1, r1) \<Longrightarrow> keeps_rules h s s1"
proof (erule put_rule_result)
  fix n rs
  assume n: "normalize_rule h (rs_objects s) r = Inr n" and p: "place_rule buf (ru_alias r) n (rs_policies s) = (r1, rs)"
    and o: "no_overlap rs" and s1: "s1 = s\<lparr>rs_policies := rs\<rparr>"
  have "(\<forall>d \<in> set (ru_tuples n). tuple_bound h (rs_objects s) d) \<and> path_bound (rs_objects s) (ru_path n)"
    if "ids_ok (rs_objects s)"
    using n that by (auto simp: normalize_rule_def dest: canonical_tuples_bound normalize_path_bound)
  then have new: "(\<forall>d \<in> set (ru_tuples r1). tuple_bound h (rs_objects s) d) \<and> path_bound (rs_objects s) (ru_path r1)"
    if "ids_ok (rs_objects s)"
    using that place_rule_result(1,5) [OF p] by simp
  have "(\<forall>d \<in> set (ru_tuples q). tuple_bound h (rs_objects s) d) \<and> path_bound (rs_objects s) (ru_path q)"
    if "rules_inv h s" "ids_ok (rs_objects s)" "q \<in> set rs" for q
    using that new place_rule_result(4) [OF p] by (cases "q = r1") (auto simp: rules_inv_def)
  then show "keeps_rules h s s1" using o s1 by (simp add: keeps_rules_def rules_inv_def)
qed


lemma put_rule_objects: "put_rule h buf r s = Inr (s1, r1) \<Longrightarrow> rs_objects s1 = rs_objects s"
  by (erule put_rule_result) simp

subsection \<open>Import\<close>

lemma put_rules_keeps:
  "put_rules h buf i rs s = Inr s1 \<Longrightarrow> keeps_rules h s s1 \<and> rs_objects s1 = rs_objects s"
proof (induction h buf i rs s arbitrary: s1 rule: put_rules.induct)
  case (2 h buf i r rs s)
  then obtain s2 r2 where p: "put_rule h (buf i) r s = Inr (s2, r2)" and q: "put_rules h buf (Suc i) rs s2 = Inr s1"
    by auto
  have "keeps_rules h s2 s1 \<and> rs_objects s1 = rs_objects s2" using "2.IH" p q by force
  then show ?case using keeps_trans [OF put_rule_keeps [OF p]] put_rule_objects [OF p] by simp
qed (simp add: keeps_refl)

lemma bind_from_prefix: "bind_from h i n xs = Inr ys \<Longrightarrow> take i ys = take i xs"
proof (induction h i n xs arbitrary: ys rule: bind_from.induct)
  case (2 h i n xs)
  then obtain y where y: "bind_object h xs (xs ! i) = Inr y" "bind_from h (Suc i) n (xs[i := y]) = Inr ys" by auto
  have "take (Suc i) ys = take (Suc i) (xs[i := y])" using "2.IH" y by blast
  then have "take i (take (Suc i) ys) = take i (take (Suc i) (xs[i := y]))" by simp
  then show ?case by (simp add: take_update_cancel min_def)
qed simp

lemma import_keeps: "import_body h buf xs rs s = Inr (s1, u) \<Longrightarrow> keeps_rules h s s1"
proof -
  assume "import_body h buf xs rs s = Inr (s1, u)"
  then obtain ys zs where z: "bind_from h (length (rs_objects s)) (length ys) (rs_objects s @ ys) = Inr zs"
    and p: "put_rules h buf (length xs) rs (s\<lparr>rs_objects := zs\<rparr>) = Inr s1"
    by (auto simp: import_body_def)
  have "take (length (rs_objects s)) zs = rs_objects s" using bind_from_prefix [OF z] by simp
  then have "zs = rs_objects s @ drop (length (rs_objects s)) zs" by (metis append_take_drop_id)
  then have "grows (rs_objects s) zs" by (metis grows_append)
  then have "keeps_rules h s (s\<lparr>rs_objects := zs\<rparr>)" by (intro grows_keeps_rules) simp_all
  then show ?thesis using put_rules_keeps [OF p] keeps_trans by simp
qed

subsection \<open>The registry file\<close>

definition file_inv :: "hash_json \<Rightarrow> registry_state net_file \<Rightarrow> bool" where
  "file_inv h f \<longleftrightarrow> (\<forall>uid s. load_registry h uid f = Inr s \<longrightarrow> registry_inv h s)"

lemma rules_inv_clone [simp]:
  "rules_inv h (s\<lparr>rs_objects := map (clone_object k) (rs_objects s)\<rparr>) = rules_inv h s"
  by (simp add: rules_inv_def)

lemma load_saved:
  assumes "load_registry h uid (NetFile n sz True (Some s)) = Inr s1" and "rules_inv h s"
  shows "registry_inv h s1"
proof -
  have "read_safe uid (NetFile n sz True (Some s)) = Inr s"
    using assms(1) by (cases "safe_node uid n sz") (simp_all add: load_registry_def read_safe_def)
  then have "(if rs_schema s \<noteq> 1 then Inl NetInvalid
      else also_then (validate_objects h (rs_objects s)) (\<lambda>xs. Inr (s\<lparr>rs_objects := xs\<rparr>))) = Inr s1"
    using assms(1) unfolding load_registry_def by simp
  then obtain xs where v: "validate_objects h (rs_objects s) = Inr xs" and s1: "s1 = s\<lparr>rs_objects := xs\<rparr>"
    by (auto split: if_splits)
  have "xs = map (clone_object h) (rs_objects s)" "objects_ok xs" using validate_objects_result [OF v] by auto
  then show ?thesis using assms(2) s1 by (simp add: registry_inv_def)
qed

lemma mutate_registry_cases:
  assumes "mutate_registry h io op f = (res, f1)"
  shows "(f1 = f \<and> (\<exists>e. res = Inl e))
    \<or> (\<exists>s s1 r xs sz. load_registry h (ni_uid io) f = Inr s \<and> op s = Inr (s1, r)
        \<and> validate_objects h (rs_objects s1) = Inr xs
        \<and> f1 = NetFile (saved_node (ni_uid io)) sz True (Some (s1\<lparr>rs_objects := xs\<rparr>))
        \<and> (res = Inr r \<and> ni_write io = Written sz \<or> res = Inl NetUnsafe \<and> ni_write io = SyncFails sz))"
proof (cases "\<not> ni_mkdir io \<or> \<not> private_net_dir (ni_dir io) \<or> lock_file io \<noteq> None")
  case True
  then show ?thesis using assms by (auto simp: mutate_registry_def split: if_splits)
next
  case False
  let ?m = "also_then (load_registry h (ni_uid io) f) (\<lambda>s. also_then (op s) (\<lambda>(s1, r).
      also_then (validate_objects h (rs_objects s1)) (\<lambda>xs. Inr (s1\<lparr>rs_objects := xs\<rparr>, r))))"
  have m: "(case ?m of Inl e \<Rightarrow> (Inl e, f) | Inr (s2, r) \<Rightarrow>
      (case atomic_json io s2 f of (Some e, f1) \<Rightarrow> (Inl e, f1) | (None, f1) \<Rightarrow> (Inr r, f1))) = (res, f1)"
    using assms False unfolding mutate_registry_def by simp
  show ?thesis
  proof (cases ?m)
    case (Inl e)
    then show ?thesis using m by auto
  next
    case (Inr p)
    obtain s2 r where p: "p = (s2, r)" by (cases p)
    obtain s s1 xs where s: "load_registry h (ni_uid io) f = Inr s" "op s = Inr (s1, r)"
        "validate_objects h (rs_objects s1) = Inr xs" "s2 = s1\<lparr>rs_objects := xs\<rparr>"
      using Inr unfolding p by auto
    have "(case atomic_json io s2 f of (Some e, f1) \<Rightarrow> (Inl e, f1) | (None, f1) \<Rightarrow> (Inr r, f1)) = (res, f1)"
      using m unfolding Inr p by simp
    then show ?thesis using s by (cases "ni_write io") (auto simp: atomic_json_def)
  qed
qed

lemma mutate_file_inv:
  assumes keeps: "\<And>s s1 r. op s = Inr (s1, r) \<Longrightarrow> keeps_rules h s s1" and f: "file_inv h f"
  shows "file_inv h (snd (mutate_registry h io op f))"
proof -
  obtain res f1 where m: "mutate_registry h io op f = (res, f1)" by fastforce
  show ?thesis
  proof (cases "f1 = f")
    case False
    then obtain s s1 r xs sz where s: "load_registry h (ni_uid io) f = Inr s" and o: "op s = Inr (s1, r)"
      and v: "validate_objects h (rs_objects s1) = Inr xs"
      and f1: "f1 = NetFile (saved_node (ni_uid io)) sz True (Some (s1\<lparr>rs_objects := xs\<rparr>))"
      using mutate_registry_cases [OF m] by blast
    have "rules_inv h s" using f s by (auto simp: file_inv_def registry_inv_def)
    moreover have x: "xs = map (clone_object h) (rs_objects s1)" "objects_ok xs" using validate_objects_result [OF v] by auto
    then have "ids_ok (rs_objects s1)" using objects_ok_ids [of xs] by simp
    ultimately have "rules_inv h s1" using keeps [OF o] by (simp add: keeps_rules_def)
    then have "rules_inv h (s1\<lparr>rs_objects := xs\<rparr>)" using x(1) by simp
    then show ?thesis unfolding m f1 file_inv_def snd_conv using load_saved by blast
  qed (use f m in simp)
qed


text \<open>The calls that change the registry, in any order and with any outcome of the file system.\<close>

datatype registry_call =
    CreateCall string net_object
  | RenameCall net_kind string string
  | RebindCall net_kind string net_binding
  | PutCall string net_rule
  | ImportCall "nat \<Rightarrow> string" "(net_object list \<times> net_rule list) option"

fun registry_step :: "hash_json \<Rightarrow> net_io \<times> registry_call \<Rightarrow> registry_state net_file \<Rightarrow> registry_state net_file" where
  "registry_step h (io, CreateCall buf x) f = snd (create_object h io buf x f)"
| "registry_step h (io, RenameCall k name a) f = snd (rename_object h io k name a f)"
| "registry_step h (io, RebindCall k name b) f = snd (rebind_object h io k name b f)"
| "registry_step h (io, PutCall buf r) f = snd (put_policy h io buf r f)"
| "registry_step h (io, ImportCall buf inp) f = snd (import_registry h io buf inp f)"

lemma registry_step_inv:
  assumes "file_inv h f"
  shows "file_inv h (registry_step h c f)"
proof -
  note rules = create_keeps rename_keeps rebind_keeps put_rule_keeps import_keeps
  obtain io q where "c = (io, q)" by (cases c)
  then show ?thesis
    using assms by (cases q) (auto simp: create_object_def rename_object_def rebind_object_def put_policy_def
      import_registry_def intro!: mutate_file_inv dest: rules split: option.split)
qed

lemma load_no_file [simp]: "load_registry h uid NoFile = Inr empty_registry"
  by (simp add: load_registry_def read_safe_def)

lemma empty_registry_inv [simp]: "registry_inv h empty_registry"
  by (simp add: registry_inv_def rules_inv_def empty_registry_def objects_ok_def service_keys_def no_overlap_def)


lemma registry_run_inv:
  assumes "load_registry h uid (fold (registry_step h) calls NoFile) = Inr s"
  shows "registry_inv h s"
proof -
  have "file_inv h f \<Longrightarrow> file_inv h (fold (registry_step h) calls f)" for f
    by (induction calls arbitrary: f) (simp_all add: registry_step_inv)
  moreover have "file_inv h NoFile" by (simp add: file_inv_def)
  ultimately have "file_inv h (fold (registry_step h) calls NoFile)" by blast
  then show ?thesis using assms unfolding file_inv_def by blast
qed

subsection \<open>Resolution\<close>

lemma stored_canonical:
  assumes c: "canonical_tuple h xs d = Inr c" and ids: "ids_ok xs" and b: "tuple_bound h xs d"
  shows "c = d"
proof -
  obtain s e where s: "find_object h xs KindNetwork (nr_id (nt_source d)) = Inr s"
    and e: "find_object h xs KindService (nr_id (nt_endpoint d)) = Inr e"
    and st: "\<not> stale_ref (nt_source d) (no_ref_of s)" "\<not> stale_ref (nt_endpoint d) (no_ref_of e)"
    and c: "c = d\<lparr>nt_source := no_ref_of s, nt_endpoint := no_ref_of e, nt_realm := realm_name h e\<rparr>"
    using c by (auto simp: canonical_tuple_Inr)
  have pos: "nr_rev (nt_source d) \<noteq> 0" "nr_rev (nt_endpoint d) \<noteq> 0"
    using b by (auto simp: tuple_bound_def bound_ref_def)
  then have refs: "no_ref_of s = nt_source d" "no_ref_of e = nt_endpoint d" using st by (auto simp: stale_ref_def)
  obtain e0 where "e0 \<in> set xs" "e = clone_object h e0" using find_object_Inr [OF e] by blast
  then have "nt_realm d = realm_name h e" using b refs by (auto simp: tuple_bound_def)
  then show ?thesis using c refs by simp
qed

definition not_stale :: "hash_json \<Rightarrow> net_object list \<Rightarrow> net_tuple \<Rightarrow> net_rule list \<Rightarrow> bool" where
  "not_stale h xs t rs \<longleftrightarrow>
     (\<forall>r \<in> set rs. \<forall>d \<in> set (ru_tuples r). \<not> (isl (canonical_tuple h xs d) \<and> stale_match h xs t d))"

lemma resolve_scan_Inr:
  "resolve_scan h xs t ps = Inr ms \<longleftrightarrow>
     (\<forall>p \<in> set ps. \<not> (isl (canonical_tuple h xs (snd p)) \<and> stale_match h xs t (snd p)))
     \<and> (\<exists>ns. map (\<lambda>p. normalize_rule h xs (fst p)) (filter (\<lambda>p. canonical_tuple h xs (snd p) = Inr t) ps) = map Inr ns
          \<and> ms = map (resolved_as t) ns)"
proof (induction ps arbitrary: ms)
  case (Cons p ps)
  obtain r d where p: "p = (r, d)" by (cases p)
  consider (fails) e where "canonical_tuple h xs d = Inl e" | (other) c where "canonical_tuple h xs d = Inr c" "c \<noteq> t"
    | (hit) "canonical_tuple h xs d = Inr t"
    by (cases "canonical_tuple h xs d") auto
  then show ?case
  proof cases
    case fails
    then show ?thesis using Cons.IH p by auto
  next
    case other
    then show ?thesis using Cons.IH p by auto
  next
    case hit
    then show ?thesis using Cons.IH p by (auto simp: map_eq_Cons_conv Cons_eq_map_conv)
  qed
qed auto

lemma snd_declarations: "map snd (declarations rs) = concat (map ru_tuples rs)"
  by (induction rs) (simp_all add: declarations_def comp_def)

lemma set_declarations: "set (declarations rs) = {(r, d). r \<in> set rs \<and> d \<in> set (ru_tuples r)}"
  by (auto simp: declarations_def)

lemma distinct_filter_snd:
  "distinct (map snd ps) \<Longrightarrow> filter (\<lambda>p. snd p = c) ps = (case map_of (map prod.swap ps) c of None \<Rightarrow> [] | Some r \<Rightarrow> [(r, c)])"
proof (induction ps)
  case (Cons p ps)
  show ?case
  proof (cases "snd p = c")
    case True
    then have "\<forall>q \<in> set ps. snd q \<noteq> c" using Cons.prems by (metis distinct.simps(2) image_eqI list.simps(9) list.set_map)
    then have "filter (\<lambda>p. snd p = c) ps = []" by (simp add: filter_empty_conv)
    then show ?thesis using True by (cases p) simp
  next
    case False
    then show ?thesis using Cons by (cases p) simp
  qed
qed simp


lemma declared_filter:
  assumes inv: "registry_inv h s"
  shows "filter (\<lambda>p. canonical_tuple h (rs_objects s) (snd p) = Inr c) (declarations (rs_policies s)) =
     (if canonical_tuple h (rs_objects s) c = Inr c
      then (case map_of (map prod.swap (declarations (rs_policies s))) c of None \<Rightarrow> [] | Some r \<Rightarrow> [(r, c)]) else [])"
proof -
  have ids: "ids_ok (rs_objects s)" and b: "\<And>p. p \<in> set (declarations (rs_policies s)) \<Longrightarrow> tuple_bound h (rs_objects s) (snd p)"
    and dist: "distinct (map snd (declarations (rs_policies s)))"
    using inv objects_ok_ids by (auto simp: registry_inv_def rules_inv_def set_declarations snd_declarations no_overlap_def)
  have "(canonical_tuple h (rs_objects s) (snd p) = Inr c) = (snd p = c \<and> canonical_tuple h (rs_objects s) c = Inr c)"
    if "p \<in> set (declarations (rs_policies s))" for p
    using stored_canonical [OF _ ids b [OF that]] by blast
  then have "filter (\<lambda>p. canonical_tuple h (rs_objects s) (snd p) = Inr c) (declarations (rs_policies s))
      = filter (\<lambda>p. snd p = c \<and> canonical_tuple h (rs_objects s) c = Inr c) (declarations (rs_policies s))"
    by (rule filter_cong [OF refl])
  then show ?thesis using distinct_filter_snd [OF dist] by simp
qed

lemma find_only: "x \<in> set xs \<Longrightarrow> P x \<Longrightarrow> (\<And>y. y \<in> set xs \<Longrightarrow> P y \<Longrightarrow> y = x) \<Longrightarrow> List.find P xs = Some x"
proof (induction xs)
  case (Cons a xs)
  show ?case
  proof (cases "P a")
    case True
    then have "a = x" using Cons.prems(3) by simp
    then show ?thesis using True by simp
  next
    case False
    then have x: "x \<in> set xs" using Cons.prems(1,2) by auto
    have "List.find P xs = Some x" by (rule Cons.IH [OF x Cons.prems(2)], rule Cons.prems(3)) simp_all
    then show ?thesis using False by simp
  qed
qed simp

lemma alias_not_id:
  assumes "object_ok x" and "object_ok y"
  shows "no_alias y \<noteq> object_id x"
proof -
  have "has_prefix (object_id x) ''net_''" using assms(1) by (simp add: object_ok_def)
  then obtain u where "object_id x = ''net_'' @ u" using has_prefix_iff by blast
  then have "CHR ''_'' \<in> set (tl (object_id x))" by simp
  moreover have "name_ok (no_alias y)" using assms(2) unfolding object_ok_def valid_object_def Let_def by blast
  then have "list_all (\<lambda>c. is_lower c \<or> is_digit c \<or> c = CHR ''-'') (tl (no_alias y))" by (simp add: name_ok_def)
  then have "CHR ''_'' \<notin> set (tl (no_alias y))" by (auto simp: list_all_iff is_lower_def is_digit_def byte_def)
  ultimately show ?thesis by metis
qed

lemma find_by_id:
  assumes ok: "objects_ok xs" and x: "x \<in> set xs" and k: "no_kind x = k"
  shows "find_object h xs k (object_id x) = Inr (clone_object h x)"
proof -
  have "y = x" if y: "y \<in> set xs" "is_named k (object_id x) y" for y
  proof -
    have "no_alias y \<noteq> object_id x" using alias_not_id [of x y] ok x y(1) by (simp add: objects_ok_def list_all_iff)
    then show ?thesis using y ids_ok_same [OF objects_ok_ids [OF ok]] x by (auto simp: is_named_def)
  qed
  then have "List.find (is_named k (object_id x)) xs = Some x"
    using x k by (intro find_only) (auto simp: is_named_def)
  then show ?thesis by (simp add: find_object_def)
qed

text \<open>The canonical form is canonical: naming by alias or by identifier comes to the same.\<close>

lemma canonical_tuple_idem:
  assumes c: "canonical_tuple h xs t = Inr c" and ok: "objects_ok xs"
  shows "canonical_tuple h xs c = Inr c"
proof -
  obtain s e where s: "find_object h xs KindNetwork (nr_id (nt_source t)) = Inr s"
    and e: "find_object h xs KindService (nr_id (nt_endpoint t)) = Inr e" and fits: "tuple_fits t e"
    and c: "c = t\<lparr>nt_source := no_ref_of s, nt_endpoint := no_ref_of e, nt_realm := realm_name h e\<rparr>"
    using c by (auto simp: canonical_tuple_Inr)
  obtain s0 e0 where s0: "s0 \<in> set xs" "s = clone_object h s0" "no_kind s0 = KindNetwork"
    and e0: "e0 \<in> set xs" "e = clone_object h e0" "no_kind e0 = KindService"
    using find_object_Inr [OF s] find_object_Inr [OF e] by (auto simp: is_named_def)
  have "find_object h xs KindNetwork (nr_id (nt_source c)) = Inr s" "find_object h xs KindService (nr_id (nt_endpoint c)) = Inr e"
    using find_by_id [OF ok s0(1,3), of h] find_by_id [OF ok e0(1,3), of h] s0(2) e0(2) c by simp_all
  moreover have "tuple_fits c e" using fits c by (auto simp: tuple_fits_def split: option.splits)
  ultimately show ?thesis using c by (auto simp: canonical_tuple_Inr stale_ref_def)
qed

lemma single_case: "(case ms of [m'] \<Rightarrow> Inr m' | _ \<Rightarrow> Inl e) = Inr m \<longleftrightarrow> ms = [m]"
  by (cases ms; cases "tl ms") auto

lemma resolve_one_Inr:
  assumes inv: "registry_inv h s"
  shows "resolve_one h s t = Inr m \<longleftrightarrow>
     (\<exists>c r n. canonical_tuple h (rs_objects s) t = Inr c \<and> r \<in> set (rs_policies s) \<and> c \<in> set (ru_tuples r)
        \<and> not_stale h (rs_objects s) c (rs_policies s) \<and> normalize_rule h (rs_objects s) r = Inr n \<and> m = resolved_as c n)"
    (is "?l = ?r")
proof -
  let ?xs = "rs_objects s" and ?ps = "declarations (rs_policies s)"
  have dist: "distinct (map snd ?ps)"
    using inv by (auto simp: registry_inv_def rules_inv_def snd_declarations no_overlap_def)
  have m1: "map_of (map prod.swap ?ps) c = Some r \<longleftrightarrow> r \<in> set (rs_policies s) \<and> c \<in> set (ru_tuples r)" for c r
  proof -
    have "distinct (map fst (map prod.swap ?ps))" using dist by (simp add: comp_def)
    then show ?thesis using map_of_eq_Some_iff [of "map prod.swap ?ps" c r] by (auto simp: set_declarations image_iff)
  qed
  have idem: "canonical_tuple h ?xs t = Inr c \<Longrightarrow> canonical_tuple h ?xs c = Inr c" for c
    using canonical_tuple_idem inv by (auto simp: registry_inv_def)
  have stale: "(\<forall>p \<in> set ?ps. \<not> (isl (canonical_tuple h ?xs (snd p)) \<and> stale_match h ?xs c (snd p)))
      \<longleftrightarrow> not_stale h ?xs c (rs_policies s)" for c
    by (auto simp: not_stale_def set_declarations)
  have scan: "resolve_scan h ?xs c ?ps = Inr [m] \<longleftrightarrow>
      (\<exists>r n. r \<in> set (rs_policies s) \<and> c \<in> set (ru_tuples r) \<and> not_stale h ?xs c (rs_policies s)
         \<and> normalize_rule h ?xs r = Inr n \<and> m = resolved_as c n)" if c: "canonical_tuple h ?xs c = Inr c" for c
  proof (cases "map_of (map prod.swap ?ps) c")
    case None
    then have "\<not> (r \<in> set (rs_policies s) \<and> c \<in> set (ru_tuples r))" for r using m1 [of c r] by simp
    then show ?thesis using None c unfolding resolve_scan_Inr declared_filter [OF inv] stale by auto
  next
    case (Some r)
    then have u: "(r' \<in> set (rs_policies s) \<and> c \<in> set (ru_tuples r')) = (r' = r)" for r' using m1 [of c r'] by auto
    have "resolve_scan h ?xs c ?ps = Inr [m] \<longleftrightarrow>
        not_stale h ?xs c (rs_policies s) \<and> (\<exists>n. normalize_rule h ?xs r = Inr n \<and> m = resolved_as c n)"
      using Some c unfolding resolve_scan_Inr declared_filter [OF inv] stale
      by (auto simp: map_eq_Cons_conv Cons_eq_map_conv)
    then show ?thesis using u by metis
  qed
  have "resolve_one h s t = Inr m \<longleftrightarrow>
      (\<exists>c. canonical_tuple h ?xs t = Inr c \<and> resolve_scan h ?xs c ?ps = Inr [m])"
    by (auto simp: resolve_one_def single_case)
  also have "\<dots> \<longleftrightarrow> ?r" using scan idem by blast
  finally show ?thesis .
qed

text \<open>
  (C23) Starting without a registry file, after any sequence of creations, renames, rebindings, rules
  and imports, whatever the file system answers in each, a registry that loads is consistent: the
  objects are valid, no two share an identifier, an alias within a kind or a service endpoint, no
  tuple is declared twice, and every declared tuple names a network and a service of the registry
  at a revision not above their present one.
\<close>

theorem registry_invariant:
  assumes "load_registry h uid (fold (registry_step h) calls NoFile) = Inr s"
  shows "list_all (\<lambda>x. valid_object x \<and> nr_rev (no_ref_of x) \<noteq> 0) (rs_objects s)
    \<and> distinct (map object_id (rs_objects s)) \<and> distinct (map alias_key (rs_objects s))
    \<and> distinct (map endpoint_key (filter (\<lambda>x. no_kind x = KindService) (rs_objects s)))
    \<and> distinct (concat (map ru_tuples (rs_policies s)))
    \<and> (\<forall>r \<in> set (rs_policies s). \<forall>d \<in> set (ru_tuples r).
         bound_ref (rs_objects s) KindNetwork (nt_source d) \<and> bound_ref (rs_objects s) KindService (nt_endpoint d))"
  using registry_run_inv [OF assms]
  by (auto simp: registry_inv_def rules_inv_def objects_ok_def service_keys_def no_overlap_def tuple_bound_def
      object_ok_def list_all_iff)

lemma resolve_each_Inr:
  "resolve_each h s ts = Inr ms \<longleftrightarrow> list_all2 (\<lambda>t m. resolve_one h s t = Inr m) ts ms"
  by (induction ts arbitrary: ms) (auto simp: list_all2_Cons1)

text \<open>
  (C24) Tuples resolve exactly when each has a canonical form that some rule declares, where the rule
  still normalizes, its objects being at the revisions it was written for, and no declaration for
  the same flow has gone stale; the answer is then that rule's reference, decision and flags.
  What no rule declares never resolves.
\<close>

theorem resolution_exact:
  assumes load: "load_registry h uid (fold (registry_step h) calls NoFile) = Inr s"
  shows "resolve_tuples h uid ts (fold (registry_step h) calls NoFile) = Inr ms \<longleftrightarrow>
    ts \<noteq> [] \<and> length ts \<le> 256
    \<and> list_all2 (\<lambda>t m. \<exists>c r n. canonical_tuple h (rs_objects s) t = Inr c \<and> r \<in> set (rs_policies s)
        \<and> c \<in> set (ru_tuples r) \<and> not_stale h (rs_objects s) c (rs_policies s)
        \<and> normalize_rule h (rs_objects s) r = Inr n
        \<and> m = \<lparr>rt_tuple = c, rt_policy = ru_ref r, rt_decision = ru_decision r, rt_path = ru_path n,
               rt_fail_closed = ru_fail_closed r, rt_filtering = ru_filtering r\<rparr>) ts ms"
proof -
  have n: "ru_ref n = ru_ref r \<and> ru_decision n = ru_decision r \<and> ru_fail_closed n = ru_fail_closed r
      \<and> ru_filtering n = ru_filtering r" if "normalize_rule h (rs_objects s) r = Inr n" for r n
    using that by (auto simp: normalize_rule_def)
  have "resolve_tuples h uid ts (fold (registry_step h) calls NoFile) = Inr ms \<longleftrightarrow>
      ts \<noteq> [] \<and> length ts \<le> 256 \<and> list_all2 (\<lambda>t m. resolve_one h s t = Inr m) ts ms"
    using load by (simp add: resolve_tuples_def resolve_each_Inr)
  then show ?thesis
    unfolding resolve_one_Inr [OF registry_run_inv [OF load]] resolved_as_def
    using n by (auto elim!: list.rel_mono_strong) (use n in \<open>fastforce elim!: list.rel_mono_strong\<close>)+
qed

lemma load_saved_fields:
  assumes "load_registry h uid (NetFile n sz True (Some s)) = Inr s1"
  shows "rs_policies s1 = rs_policies s \<and> rs_objects s1 = map (clone_object h) (rs_objects s)"
proof -
  have "safe_node uid n sz" using assms by (cases "safe_node uid n sz") (simp_all add: load_registry_def read_safe_def)
  then have "(if rs_schema s \<noteq> 1 then Inl NetInvalid
      else also_then (validate_objects h (rs_objects s)) (\<lambda>xs. Inr (s\<lparr>rs_objects := xs\<rparr>))) = Inr s1"
    using assms by (simp add: load_registry_def read_safe_def some_or_def)
  then show ?thesis using validate_objects_result [of h "rs_objects s"] by (auto split: if_splits)
qed

subsection \<open>Rebinding\<close>

definition rule_names :: "net_rule \<Rightarrow> string \<Rightarrow> bool" where
  "rule_names r i \<longleftrightarrow> nr_id (ru_path r) = i
     \<or> (\<exists>d \<in> set (ru_tuples r). i = nr_id (nt_source d) \<or> i = nr_id (nt_endpoint d))"

text \<open>The references of a stored rule that still normalizes are those of objects of the registry.\<close>

lemma canonical_tuples_each:
  "canonical_tuples h xs seen ts = Inr cs \<Longrightarrow> d \<in> set ts \<Longrightarrow> \<exists>c. canonical_tuple h xs d = Inr c"
  by (induction h xs seen ts arbitrary: cs rule: canonical_tuples.induct) auto

lemma fresh_ref: "\<not> stale_ref r current \<Longrightarrow> nr_rev r \<noteq> 0 \<Longrightarrow> r = current"
  by (simp add: stale_ref_def)

lemma tuple_refs_current:
  assumes "canonical_tuple h xs d = Inr c" and "nr_rev (nt_source d) \<noteq> 0" and "nr_rev (nt_endpoint d) \<noteq> 0"
  shows "nt_source d \<in> no_ref_of ` set xs \<and> nt_endpoint d \<in> no_ref_of ` set xs"
proof -
  obtain s e where s: "find_object h xs KindNetwork (nr_id (nt_source d)) = Inr s" "\<not> stale_ref (nt_source d) (no_ref_of s)"
    and e: "find_object h xs KindService (nr_id (nt_endpoint d)) = Inr e" "\<not> stale_ref (nt_endpoint d) (no_ref_of e)"
    using assms(1) by (auto simp: canonical_tuple_Inr)
  show ?thesis
    using find_object_Inr [OF s(1)] find_object_Inr [OF e(1)] fresh_ref [OF s(2) assms(2)] fresh_ref [OF e(2) assms(3)] by auto
qed

lemma path_ref_current:
  assumes "normalize_path h xs p = Inr q" and "nr_id p \<noteq> []" and "nr_rev p \<noteq> 0"
  shows "p \<in> no_ref_of ` set xs"
proof -
  obtain v where v: "find_object h xs KindVpn (nr_id p) = Inr v" "\<not> stale_ref p (no_ref_of v)"
    using assms by (auto simp: normalize_path_def)
  show ?thesis using find_object_Inr [OF v(1)] fresh_ref [OF v(2) assms(3)] by auto
qed

text \<open>After a rebinding the object is in the registry at a revision above the one it had.\<close>

lemma rebound_above:
  assumes f: "f = fold (registry_step h) calls NoFile"
    and re: "rebind_object h io k name b f = (Inr x, f1)"
    and load1: "load_registry h uid f1 = Inr s1"
  obtains s where "load_registry h (ni_uid io) f = Inr s" and "rs_policies s1 = rs_policies s"
    and "object_id x \<noteq> []"
    and "\<And>q r. bound_ref (rs_objects s) q r \<Longrightarrow> nr_id r = object_id x \<Longrightarrow> r \<notin> no_ref_of ` set (rs_objects s1)"
proof -
  obtain s s0 xs sz where s: "load_registry h (ni_uid io) f = Inr s"
    and ch: "change_body h k name (rebound h b) s = Inr (s0, x)" and v: "validate_objects h (rs_objects s0) = Inr xs"
    and f1: "f1 = NetFile (saved_node (ni_uid io)) sz True (Some (s0\<lparr>rs_objects := xs\<rparr>))"
    using mutate_registry_cases [OF re [unfolded rebind_object_def]] by blast
  have inv: "registry_inv h s" using s f by (auto intro: registry_run_inv)
  have inv1: "registry_inv h s1"
    using load1 registry_run_inv [of h uid "calls @ [(io, RebindCall k name b)]" s1] re f by simp
  obtain i y where i: "i < length (rs_objects s)"
    and y: "bind_object h ((rs_objects s)[i := rebound h b (rs_objects s ! i)]) (rebound h b (rs_objects s ! i)) = Inr y"
    and s0: "s0 = s\<lparr>rs_objects := (rs_objects s)[i := y]\<rparr>" and x: "x = clone_object h y"
    using ch by (rule change_body_cases)
  let ?old = "rs_objects s ! i"
  have yrev: "object_id y = object_id ?old" "nr_rev (no_ref_of y) = nr_rev (no_ref_of ?old) + 1"
    using bind_object_fields [OF y] by (simp_all add: rebound_def)
  have fields: "rs_policies s1 = rs_policies s" "rs_objects s1 = map (clone_object h) xs"
    using load_saved_fields load1 unfolding f1 s0 by fastforce+
  have ids: "ids_ok (rs_objects s1)" "ids_ok (rs_objects s)"
    using inv inv1 objects_ok_ids by (auto simp: registry_inv_def)
  have "y \<in> set (rs_objects s0)" using i s0 by (simp add: set_update_memI)
  then have "clone_object h (clone_object h y) \<in> set (rs_objects s1)"
    using fields(2) validate_objects_result [OF v] by auto
  then obtain z where z: "z \<in> set (rs_objects s1)" "no_ref_of z = no_ref_of y" by fastforce
  have "nr_rev (no_ref_of y) \<noteq> 0" using ids(1) z by (auto simp: ids_ok_def)
  then have less: "nr_rev (no_ref_of ?old) < nr_rev (no_ref_of y)" using yrev(2) rev_less by simp
  have no: "r \<notin> no_ref_of ` set (rs_objects s1)" if r: "bound_ref (rs_objects s) q r" "nr_id r = object_id x" for q r
  proof
    assume "r \<in> no_ref_of ` set (rs_objects s1)"
    then obtain e where e: "e \<in> set (rs_objects s1)" "r = no_ref_of e" by blast
    have "e = z" using ids_ok_same [OF ids(1) e(1) z(1)] r(2) e(2) z(2) x by simp
    then have "r = no_ref_of y" using e(2) z(2) by simp
    moreover obtain w where w: "w \<in> set (rs_objects s)" "object_id w = nr_id r" "nr_rev r \<le> nr_rev (no_ref_of w)"
      using r(1) by (auto simp: bound_ref_def)
    moreover have "w = ?old"
      using ids_ok_same [OF ids(2) w(1), of ?old] i w(2) r(2) x yrev(1) by simp
    ultimately show False using less by simp
  qed
  have "object_ok z" using z(1) inv1 by (auto simp: registry_inv_def objects_ok_def list_all_iff)
  then have "object_id x \<noteq> []" using z(2) x by (auto simp: object_ok_def)
  then show ?thesis using that s fields(1) no by blast
qed

text \<open>
  (C25) A rebinding takes every rule that names the object out of force, be it as the path of the rule
  or as the source or the endpoint of any of its tuples: whatever calls built the registry, the
  rules are kept, but none that names the object normalizes any more, so that every tuple that
  still resolves does so by a rule that does not name the object, and no tuple that names the
  object resolves.
\<close>

theorem rebinding_revokes:
  assumes f: "f = fold (registry_step h) calls NoFile"
    and re: "rebind_object h io k name b f = (Inr x, f1)"
    and load1: "load_registry h uid f1 = Inr s1"
  shows "(\<exists>s. load_registry h (ni_uid io) f = Inr s \<and> rs_policies s1 = rs_policies s)
    \<and> (\<forall>r \<in> set (rs_policies s1). rule_names r (object_id x) \<longrightarrow> isl (normalize_rule h (rs_objects s1) r))
    \<and> (\<forall>t m. resolve_one h s1 t = Inr m \<longrightarrow>
         (\<exists>r \<in> set (rs_policies s1). rt_policy m = ru_ref r \<and> rt_tuple m \<in> set (ru_tuples r) \<and> \<not> rule_names r (object_id x)))
    \<and> (\<forall>t c. canonical_tuple h (rs_objects s1) t = Inr c
         \<and> object_id x \<in> {nr_id (nt_source c), nr_id (nt_endpoint c)} \<longrightarrow> isl (resolve_one h s1 t))"
proof -
  have inv1: "registry_inv h s1"
    using load1 registry_run_inv [of h uid "calls @ [(io, RebindCall k name b)]" s1] re f by simp
  obtain s where s: "load_registry h (ni_uid io) f = Inr s" "rs_policies s1 = rs_policies s" "object_id x \<noteq> []"
    and no: "\<And>q r. bound_ref (rs_objects s) q r \<Longrightarrow> nr_id r = object_id x \<Longrightarrow> r \<notin> no_ref_of ` set (rs_objects s1)"
    using rebound_above [OF f re load1] by blast
  have inv: "registry_inv h s" using s(1) f by (auto intro: registry_run_inv)
  have revoked: "\<not> rule_names r (object_id x)"
    if r: "r \<in> set (rs_policies s1)" and n: "normalize_rule h (rs_objects s1) r = Inr n" for r n
  proof
    obtain ts p where ts: "canonical_tuples h (rs_objects s1) [] (ru_tuples r) = Inr ts"
      and p: "normalize_path h (rs_objects s1) (ru_path r) = Inr p"
      using n by (auto simp: normalize_rule_def)
    have pb: "path_bound (rs_objects s) (ru_path r)" and tb: "\<And>d. d \<in> set (ru_tuples r) \<Longrightarrow> tuple_bound h (rs_objects s) d"
      using inv r s(2) by (auto simp: registry_inv_def rules_inv_def)
    assume "rule_names r (object_id x)"
    then consider (path) "nr_id (ru_path r) = object_id x"
      | (tuple) d where "d \<in> set (ru_tuples r)" "object_id x = nr_id (nt_source d) \<or> object_id x = nr_id (nt_endpoint d)"
      by (auto simp: rule_names_def)
    then show False
    proof cases
      case path
      then have b: "bound_ref (rs_objects s) KindVpn (ru_path r)" using pb s(3) by (simp add: path_bound_def)
      then have "nr_rev (ru_path r) \<noteq> 0" by (auto simp: bound_ref_def)
      then show False using path_ref_current [OF p] no [OF b path] path s(3) by simp
    next
      case tuple
      have b: "bound_ref (rs_objects s) KindNetwork (nt_source d)" "bound_ref (rs_objects s) KindService (nt_endpoint d)"
        using tb [OF tuple(1)] by (simp_all add: tuple_bound_def)
      then have "nr_rev (nt_source d) \<noteq> 0" "nr_rev (nt_endpoint d) \<noteq> 0" by (auto simp: bound_ref_def)
      moreover obtain c where "canonical_tuple h (rs_objects s1) d = Inr c" using canonical_tuples_each [OF ts tuple(1)] by blast
      ultimately show False using tuple_refs_current tuple(2) no [OF b(1)] no [OF b(2)] by metis
    qed
  qed
  have by_rule: "\<exists>r \<in> set (rs_policies s1). rt_policy m = ru_ref r \<and> rt_tuple m \<in> set (ru_tuples r)
      \<and> canonical_tuple h (rs_objects s1) t = Inr (rt_tuple m) \<and> \<not> rule_names r (object_id x)"
    if "resolve_one h s1 t = Inr m" for t m
    using that revoked unfolding resolve_one_Inr [OF inv1] by (auto simp: resolved_as_def normalize_rule_def)
  have "isl (normalize_rule h (rs_objects s1) r)" if "r \<in> set (rs_policies s1)" "rule_names r (object_id x)" for r
    using revoked [OF that(1)] that(2) by (cases "normalize_rule h (rs_objects s1) r") auto
  moreover have "isl (resolve_one h s1 t)"
    if "canonical_tuple h (rs_objects s1) t = Inr c" "object_id x \<in> {nr_id (nt_source c), nr_id (nt_endpoint c)}" for t c
    using by_rule [of t] that by (cases "resolve_one h s1 t") (fastforce simp: rule_names_def)+
  ultimately show ?thesis using s(1,2) by_rule by blast
qed

subsection \<open>Witnesses\<close>

definition sample_net_hash :: hash_json where
  "sample_net_hash _ = ''h''"

definition sample_net_io :: net_io where
  "sample_net_io =
     \<lparr>ni_uid = 7, ni_mkdir = True, ni_dir = Found \<lparr>n_kind = Directory, n_uid = 7, n_perm = 0x1C0\<rparr>,
      ni_lock_node = Missing, ni_lock_opens = True, ni_lock_taken = True, ni_write = Written 9\<rparr>"

definition sample_lan :: net_object where
  "sample_lan = \<lparr>no_ref_of = no_ref, no_kind = KindNetwork, no_alias = ''lan'', no_binding_of = no_binding\<rparr>"

definition sample_dns :: net_object where
  "sample_dns =
     \<lparr>no_ref_of = no_ref, no_kind = KindService, no_alias = ''dns'',
      no_binding_of = no_binding\<lparr>nb_target := ''10.0.0.53'', nb_port := 53, nb_realm := ''home''\<rparr>\<rparr>"

definition sample_tuple :: net_tuple where
  "sample_tuple =
     \<lparr>nt_source = \<lparr>nr_id = ''lan'', nr_rev = 0\<rparr>, nt_endpoint = \<lparr>nr_id = ''dns'', nr_rev = 0\<rparr>, nt_realm = ''home'',
      nt_family = ''ipv4'', nt_transport = ''udp'', nt_port = 53, nt_mode = ''direct''\<rparr>"

definition sample_net_rule :: net_rule where
  "sample_net_rule =
     \<lparr>ru_ref = no_ref, ru_alias = ''allow-dns'', ru_decision = ''allow'', ru_tuples = [sample_tuple], ru_path = no_ref,
      ru_fail_closed = False, ru_filtering = False\<rparr>"

definition sample_calls :: "(net_io \<times> registry_call) list" where
  "sample_calls =
     [(sample_net_io, CreateCall ''a'' sample_lan), (sample_net_io, CreateCall ''b'' sample_dns),
      (sample_net_io, PutCall ''c'' sample_net_rule)]"

definition lan_ref :: net_ref where "lan_ref = \<lparr>nr_id = ''net_61'', nr_rev = 1\<rparr>"
definition dns_ref :: net_ref where "dns_ref = \<lparr>nr_id = ''net_62'', nr_rev = 1\<rparr>"
definition rule_ref :: net_ref where "rule_ref = \<lparr>nr_id = ''npol_63'', nr_rev = 1\<rparr>"

definition bound_tuple :: net_tuple where
  "bound_tuple = sample_tuple\<lparr>nt_source := lan_ref, nt_endpoint := dns_ref, nt_realm := ''realm_h''\<rparr>"

definition sample_registry :: registry_state where
  "sample_registry =
     \<lparr>rs_schema = 1, rs_objects = [sample_lan\<lparr>no_ref_of := lan_ref\<rparr>, sample_dns\<lparr>no_ref_of := dns_ref\<rparr>],
      rs_policies = [sample_net_rule\<lparr>ru_ref := rule_ref, ru_tuples := [bound_tuple]\<rparr>]\<rparr>"

lemma load_sample:
  assumes "rs_schema s = 1" and "validate_objects h (rs_objects s) = Inr (rs_objects s)"
  shows "load_registry h 7 (NetFile (saved_node 7) 9 True (Some s)) = Inr s"
proof -
  have "safe_node 7 (saved_node 7) 9" by (simp add: safe_node_def saved_node_def perm_of_def max_state_bytes_def)
  then show ?thesis using assms by (simp add: load_registry_def read_safe_def some_or_def)
qed

lemma mutate_sample:
  assumes "load_registry h 7 f = Inr s" and "op s = Inr (s1, r)"
    and "validate_objects h (rs_objects s1) = Inr (rs_objects s1)"
  shows "mutate_registry h sample_net_io op f = (Inr r, NetFile (saved_node 7) 9 True (Some s1))"
proof -
  have "private_net_dir (ni_dir sample_net_io)" "lock_file sample_net_io = None"
    by (simp_all add: private_net_dir_def lock_file_def sample_net_io_def perm_of_def)
  then show ?thesis using assms
    by (simp add: mutate_registry_def also_then_def atomic_json_def sample_net_io_def)
qed

definition lan_only :: registry_state where
  "lan_only = empty_registry\<lparr>rs_objects := [sample_lan\<lparr>no_ref_of := lan_ref\<rparr>]\<rparr>"

definition two_objects :: registry_state where
  "two_objects = empty_registry\<lparr>rs_objects := [sample_lan\<lparr>no_ref_of := lan_ref\<rparr>, sample_dns\<lparr>no_ref_of := dns_ref\<rparr>]\<rparr>"

lemma sample_steps:
  "create_body sample_net_hash ''a'' sample_lan empty_registry = Inr (lan_only, sample_lan\<lparr>no_ref_of := lan_ref\<rparr>)"
  "create_body sample_net_hash ''b'' sample_dns lan_only = Inr (two_objects, sample_dns\<lparr>no_ref_of := dns_ref\<rparr>)"
  "put_rule sample_net_hash ''c'' sample_net_rule two_objects =
     Inr (sample_registry, sample_net_rule\<lparr>ru_ref := rule_ref, ru_tuples := [bound_tuple]\<rparr>)"
  by code_simp+

lemma sample_valid:
  "validate_objects sample_net_hash (rs_objects lan_only) = Inr (rs_objects lan_only)"
  "validate_objects sample_net_hash (rs_objects two_objects) = Inr (rs_objects two_objects)"
  "validate_objects sample_net_hash (rs_objects sample_registry) = Inr (rs_objects sample_registry)"
  by code_simp+

lemma sample_run:
  "fold (registry_step sample_net_hash) sample_calls NoFile = NetFile (saved_node 7) 9 True (Some sample_registry)"
proof -
  have l: "load_registry sample_net_hash 7 (NetFile (saved_node 7) 9 True (Some lan_only)) = Inr lan_only"
    "load_registry sample_net_hash 7 (NetFile (saved_node 7) 9 True (Some two_objects)) = Inr two_objects"
    using load_sample [OF _ sample_valid(1)] load_sample [OF _ sample_valid(2)]
    by (simp_all add: lan_only_def two_objects_def empty_registry_def)
  show ?thesis
    using mutate_sample [where op = "create_body sample_net_hash ''a'' sample_lan", OF load_no_file sample_steps(1) sample_valid(1)]
      mutate_sample [where op = "create_body sample_net_hash ''b'' sample_dns", OF l(1) sample_steps(2) sample_valid(2)]
      mutate_sample [where op = "put_rule sample_net_hash ''c'' sample_net_rule", OF l(2) sample_steps(3) sample_valid(3)]
    by (simp add: sample_calls_def create_object_def put_policy_def)
qed

lemma sample_load: "load_registry sample_net_hash 7 (fold (registry_step sample_net_hash) sample_calls NoFile) = Inr sample_registry"
  unfolding sample_run by (rule load_sample) (simp_all add: sample_valid, simp add: sample_registry_def)

lemma registry_invariant_witness:
  "distinct (map object_id (rs_objects sample_registry)) \<and> rs_policies sample_registry \<noteq> []"
  using registry_invariant [OF sample_load] by (simp add: sample_registry_def)

lemma resolution_exact_witness:
  "resolve_tuples sample_net_hash 7 [] (fold (registry_step sample_net_hash) sample_calls NoFile) \<noteq> Inr []
   \<and> resolve_tuples sample_net_hash 7 [sample_tuple] (fold (registry_step sample_net_hash) sample_calls NoFile)
     = Inr [\<lparr>rt_tuple = bound_tuple, rt_policy = rule_ref, rt_decision = ''allow'', rt_path = no_ref,
             rt_fail_closed = False, rt_filtering = False\<rparr>]"
proof -
  let ?xs = "rs_objects sample_registry" and ?r = "hd (rs_policies sample_registry)"
  have c: "canonical_tuple sample_net_hash ?xs sample_tuple = Inr bound_tuple" by code_simp
  have n: "normalize_rule sample_net_hash ?xs ?r = Inr ?r" by code_simp
  have st: "not_stale sample_net_hash ?xs bound_tuple (rs_policies sample_registry)" by code_simp
  have r: "?r \<in> set (rs_policies sample_registry)" "bound_tuple \<in> set (ru_tuples ?r)" "ru_ref ?r = rule_ref"
    "ru_decision ?r = ''allow''" "ru_path ?r = no_ref" "ru_fail_closed ?r = False" "ru_filtering ?r = False"
    by (simp_all add: sample_registry_def sample_net_rule_def)
  show ?thesis
    unfolding resolution_exact [OF sample_load] using c n st r by (simp, metis)
qed

definition other_dns :: net_binding where
  "other_dns = no_binding\<lparr>nb_target := ''10.0.0.54'', nb_port := 53, nb_realm := ''home''\<rparr>"

definition moved_dns :: net_object where
  "moved_dns = sample_dns\<lparr>no_ref_of := \<lparr>nr_id = ''net_62'', nr_rev = 2\<rparr>, no_binding_of := other_dns\<rparr>"

definition moved_registry :: registry_state where
  "moved_registry = sample_registry\<lparr>rs_objects := [sample_lan\<lparr>no_ref_of := lan_ref\<rparr>, moved_dns]\<rparr>"

lemma rebinding_revokes_witness:
  "isl (resolve_one sample_net_hash moved_registry sample_tuple)
   \<and> \<not> isl (resolve_one sample_net_hash sample_registry sample_tuple)"
proof -
  let ?h = sample_net_hash
  have st: "change_body ?h KindService ''dns'' (rebound ?h other_dns) sample_registry = Inr (moved_registry, moved_dns)" by code_simp
  have v: "validate_objects ?h (rs_objects moved_registry) = Inr (rs_objects moved_registry)" by code_simp
  have re: "rebind_object ?h sample_net_io KindService ''dns'' other_dns (fold (registry_step ?h) sample_calls NoFile)
      = (Inr moved_dns, NetFile (saved_node 7) 9 True (Some moved_registry))"
    unfolding rebind_object_def by (rule mutate_sample [where op = "change_body ?h KindService ''dns'' (rebound ?h other_dns)", OF sample_load st v])
  have l: "load_registry ?h 7 (NetFile (saved_node 7) 9 True (Some moved_registry)) = Inr moved_registry"
    by (rule load_sample [OF _ v]) (simp add: moved_registry_def sample_registry_def)
  have c: "canonical_tuple ?h (rs_objects moved_registry) sample_tuple
      = Inr (bound_tuple\<lparr>nt_endpoint := no_ref_of moved_dns\<rparr>)" by code_simp
  have "isl (resolve_one ?h moved_registry sample_tuple)"
    using rebinding_revokes [OF refl re l] c by auto
  moreover have "resolve_one ?h sample_registry sample_tuple = Inr (resolved_as bound_tuple (hd (rs_policies sample_registry)))"
    by code_simp
  ultimately show ?thesis by simp
qed

end
