(* ===== verification/NetQuestion.thy ===== *)
theory NetQuestion
  imports NetVerify NetRulesProps
begin

text \<open>
  Package \<open>internal/netpolicy\<close>, the question (\<open>question.go\<close>) and the verify command (\<open>cli.go\<close>): from
  an operation and names to a closed, digested observation request, the permission that is asked
  before every native operation, and what becomes of a collection.

  One call reads the registry file several times; the model takes these reads to see one file.
  The native collector, the flag parser and the printing are parameters.
\<close>

subsection \<open>Questions\<close>

record openwrt_seal =
  sl_target :: net_object
  sl_source :: net_object
  sl_service :: net_object
  sl_gateway :: net_object
  sl_vpn :: net_object
  sl_digest :: string

record net_question =
  qu_request :: net_request
  qu_target :: net_object
  qu_source :: net_object
  qu_service :: net_object
  qu_gateway :: net_object
  qu_vpn :: net_object
  qu_control :: net_object
  qu_resolved :: "net_resolved list"
  qu_baseline :: "net_assessment option"
  qu_seal :: "openwrt_seal option"

definition empty_request :: "string \<Rightarrow> net_request" where
  "empty_request operation =
     \<lparr>oq_operation = operation, oq_target = no_ref, oq_source = no_ref, oq_objects = [], oq_policies = [], oq_tuples = [],
      oq_required = [], oq_tuple_required = [], oq_metadata_digest = []\<rparr>"

definition new_question :: "string \<Rightarrow> net_object \<Rightarrow> net_assessment option \<Rightarrow> net_question" where
  "new_question operation target baseline =
     \<lparr>qu_request = (empty_request operation)\<lparr>oq_target := no_ref_of target\<rparr>, qu_target = target, qu_source = no_object,
      qu_service = no_object, qu_gateway = no_object, qu_vpn = no_object, qu_control = no_object, qu_resolved = [],
      qu_baseline = baseline, qu_seal = None\<rparr>"

definition question_kind :: "string \<Rightarrow> net_kind" where
  "question_kind operation =
     (if operation = ''gateway'' then KindGateway else if operation = ''vpn'' then KindVpn else KindService)"

definition resolve_maybe :: "hash_json \<Rightarrow> net_object list \<Rightarrow> net_ref \<Rightarrow> net_error + net_object" where
  "resolve_maybe h xs r = (if nr_id r = [] then Inr no_object else resolve_ref h xs r)"

abbreviation binding :: "net_object \<Rightarrow> net_binding" where "binding \<equiv> no_binding_of"

definition gateway_question :: "hash_json \<Rightarrow> net_object list \<Rightarrow> net_question \<Rightarrow> net_error + net_question" where
  "gateway_question h xs q =
     (let t = qu_target q; b = binding t;
          required = net_properties ''gateway'' (nb_require_path b) (nb_fail_closed b) in
      if nb_openwrt b = None then
        Inr (q\<lparr>qu_gateway := t, qu_request := (qu_request q)\<lparr>oq_required := required\<rparr>\<rparr>)
      else
        also_then (resolve_maybe h xs (nb_source b)) (\<lambda>src.
        also_then (resolve_maybe h xs (nb_vpn b)) (\<lambda>v.
          Inr (q\<lparr>qu_gateway := t, qu_source := src, qu_vpn := v,
                 qu_request := (qu_request q)\<lparr>oq_required := required\<rparr>\<rparr>))))"

definition vpn_question :: "hash_json \<Rightarrow> net_object list \<Rightarrow> net_question \<Rightarrow> net_error + net_question" where
  "vpn_question h xs q =
     (let t = qu_target q; b = binding t in
      if nb_protocol b \<noteq> ''wireguard'' then Inl NetUnsupported
      else
        also_then (resolve_maybe h xs (nb_gateway b)) (\<lambda>g.
        also_then (resolve_maybe h xs (nb_source b)) (\<lambda>src.
          Inr (q\<lparr>qu_vpn := t, qu_gateway := g, qu_source := src,
                 qu_request := (qu_request q)\<lparr>oq_required :=
                   net_properties ''vpn'' (nb_require_path b) (nb_fail_closed b)\<rparr>\<rparr>))))"

text \<open>Two networks that the same native context and address would stand for.\<close>

definition ambiguous_source :: "net_object \<Rightarrow> net_object \<Rightarrow> bool" where
  "ambiguous_source src other \<longleftrightarrow>
     no_kind other = KindNetwork \<and> object_id other \<noteq> object_id src \<and> nb_context (binding src) \<noteq> []
     \<and> nb_context (binding other) = nb_context (binding src) \<and> nb_address (binding other) = nb_address (binding src)"

definition service_tuples :: "net_ref \<Rightarrow> net_object \<Rightarrow> string \<Rightarrow> net_tuple list" where
  "service_tuples src t family =
     (let b = binding t in
      concat (map (\<lambda>tr. map (\<lambda>mode.
        \<lparr>nt_source = src, nt_endpoint = no_ref_of t, nt_realm = nb_realm b, nt_family = family, nt_transport = tr,
         nt_port = nb_port b, nt_mode = mode\<rparr>) (nb_access_modes b)) (nb_transports b)))"

definition tuple_properties :: "net_resolved \<Rightarrow> string list" where
  "tuple_properties r =
     [''source.binding'']
     @ (if rt_decision r = ''deny''
        then [''dns.control'', ''dns.denied'', ''isolation.baseline'', ''isolation.coverage'', ''isolation.absence'',
              ''isolation.boundary'']
        else ''dns.response'' # (if nr_id (rt_path r) \<noteq> [] then [''path.selection''] else [])
             @ (if rt_filtering r then [''dns.filtering''] else []))
     @ (if rt_fail_closed r then [''guard.fail_closed''] else [])"

definition append_unique :: "net_ref list \<Rightarrow> net_ref \<Rightarrow> net_ref list" where
  "append_unique rs r = (if r \<in> set rs then rs else rs @ [r])"

text \<open>One turn of the loop over the resolved tuples: the tunnel, the tuple, its policy and properties.\<close>

definition next_vpn :: "hash_json \<Rightarrow> net_object list \<Rightarrow> net_resolved \<Rightarrow> net_object \<Rightarrow> net_error + net_object" where
  "next_vpn h xs r current =
     (if nr_id (rt_path r) = [] then Inr current
      else also_then (resolve_maybe h xs (rt_path r)) (\<lambda>v.
           also_then (require (object_id current = [] \<or> no_ref_of current = no_ref_of v) NetUnsupported)
             (\<lambda>_. Inr v)))"

definition add_resolved ::
    "hash_json \<Rightarrow> net_object list \<Rightarrow> string \<Rightarrow> net_resolved \<Rightarrow> net_question \<Rightarrow> net_error + net_question" where
  "add_resolved h xs operation r q =
     also_then (require (operation = ''isolation'' \<longrightarrow> rt_decision r = ''deny'') NetInvalid) (\<lambda>_.
     also_then (next_vpn h xs r (qu_vpn q))
       (\<lambda>v. Inr (q\<lparr>qu_vpn := v, qu_request := (qu_request q)
               \<lparr>oq_tuples := oq_tuples (qu_request q) @ [rt_tuple r],
                oq_policies := append_unique (oq_policies (qu_request q)) (rt_policy r),
                oq_tuple_required :=
                  AList.update (h (HashTuple (rt_tuple r))) (tuple_properties r) (oq_tuple_required (qu_request q))\<rparr>\<rparr>)))"

fun add_all_resolved ::
    "hash_json \<Rightarrow> net_object list \<Rightarrow> string \<Rightarrow> net_resolved list \<Rightarrow> net_question \<Rightarrow> net_error + net_question" where
  "add_all_resolved h xs operation [] q = Inr q"
| "add_all_resolved h xs operation (r # rs) q =
     also_then (add_resolved h xs operation r q) (add_all_resolved h xs operation rs)"

definition access_source ::
    "hash_json \<Rightarrow> net_object list \<Rightarrow> net_object \<Rightarrow> string \<Rightarrow> net_error + net_object" where
  "access_source h xs t source =
     (case (if source = [] then resolve_maybe h xs (nb_source (binding t)) else find_object h xs KindNetwork source) of
        Inl _ \<Rightarrow> Inl NetMissing
      | Inr src \<Rightarrow>
          if object_id src = [] then Inl NetMissing
          else if \<exists>x \<in> set xs. ambiguous_source src x then Inl NetConflict else Inr src)"

definition access_family :: "net_object \<Rightarrow> net_error + string" where
  "access_family t =
     (case parse_addr (nb_target (binding t)) of
        None \<Rightarrow> Inl NetMissing
      | Some a \<Rightarrow>
          if nb_transports (binding t) = [] \<or> nb_access_modes (binding t) = [] then Inl NetMissing
          else if \<not> distinct (nb_transports (binding t)) then Inl NetInvalid
          else Inr (if is_v4 a then ''ipv4'' else ''ipv6''))"

definition access_question ::
    "hash_json \<Rightarrow> nat \<Rightarrow> registry_state net_file \<Rightarrow> net_object list \<Rightarrow> string \<Rightarrow> string \<Rightarrow> net_question
     \<Rightarrow> net_error + net_question" where
  "access_question h uid f xs operation source q =
     (let t = qu_target q; b = binding t in
      also_then (access_source h xs t source) (\<lambda>src.
      also_then (resolve_maybe h xs (nb_gateway b)) (\<lambda>g0.
      also_then (if object_id g0 = [] then resolve_maybe h xs (nb_gateway (binding src)) else Inr g0) (\<lambda>g.
      also_then (resolve_maybe h xs (nb_vpn b)) (\<lambda>v.
      also_then (resolve_maybe h xs (nb_control b)) (\<lambda>c.
      also_then (access_family t) (\<lambda>family.
      also_then (resolve_tuples h uid (service_tuples (no_ref_of src) t family) f) (\<lambda>ms.
      also_then (add_all_resolved h xs operation ms
        (q\<lparr>qu_service := t, qu_source := src, qu_gateway := g, qu_vpn := v, qu_control := c, qu_resolved := ms,
           qu_request := (qu_request q)\<lparr>oq_source := no_ref_of src\<rparr>\<rparr>)) (\<lambda>q1.
        Inr (q1\<lparr>qu_request := (qu_request q1)\<lparr>oq_required :=
               sort_by str_le (remdups (concat (map tuple_properties ms)))\<rparr>\<rparr>))))))))))"

subsection \<open>The closure over bindings\<close>

definition object_refs :: "net_object \<Rightarrow> net_ref list" where
  "object_refs x = (let b = binding x in [nb_gateway b, nb_vpn b, nb_source b, nb_control b])"

definition selection_limit :: nat where "selection_limit = 64"

text \<open>Depth first, as \<open>walk\<close> does it, with the references still to visit on a stack.\<close>

function walk_refs ::
    "hash_json \<Rightarrow> net_object list \<Rightarrow> net_object list \<Rightarrow> net_ref list \<Rightarrow> net_error + net_object list" where
  "walk_refs h xs sel [] = Inr sel"
| "walk_refs h xs sel (r # rs) =
     (if nr_id r = [] then walk_refs h xs sel rs
      else case resolve_ref h xs r of
        Inl e \<Rightarrow> Inl e
      | Inr x \<Rightarrow>
          if object_id x \<in> object_id ` set sel then walk_refs h xs sel rs
          else if length sel \<ge> selection_limit then Inl NetUnsupported
          else walk_refs h xs (sel @ [x]) (object_refs x @ rs))"
  by pat_completeness auto
termination
  by (relation "measures [\<lambda>(h, xs, sel, rs). selection_limit - length sel, \<lambda>(h, xs, sel, rs). length rs]") auto

definition walk :: "hash_json \<Rightarrow> net_object list \<Rightarrow> net_object list \<Rightarrow> net_object \<Rightarrow> net_error + net_object list" where
  "walk h xs sel x =
     (if object_id x = [] then Inr sel
      else if object_id x \<in> object_id ` set sel then Inr sel
      else if length sel \<ge> selection_limit then Inl NetUnsupported
      else walk_refs h xs (sel @ [x]) (object_refs x))"

fun walk_all :: "hash_json \<Rightarrow> net_object list \<Rightarrow> net_object list \<Rightarrow> net_object list \<Rightarrow> net_error + net_object list" where
  "walk_all h xs sel [] = Inr sel"
| "walk_all h xs sel (x # ys) = also_then (walk h xs sel x) (\<lambda>sel1. walk_all h xs sel1 ys)"

fun walk_baseline :: "hash_json \<Rightarrow> net_object list \<Rightarrow> net_object list \<Rightarrow> net_ref list \<Rightarrow> net_error + net_object list" where
  "walk_baseline h xs sel [] = Inr sel"
| "walk_baseline h xs sel (r # rs) =
     also_then (resolve_ref h xs r) (\<lambda>x. also_then (walk h xs sel x) (\<lambda>sel1. walk_baseline h xs sel1 rs))"

fun policy_rules :: "net_rule list \<Rightarrow> net_ref list \<Rightarrow> net_error + net_rule list" where
  "policy_rules ps [] = Inr []"
| "policy_rules ps (r # rs) =
     (case List.find (\<lambda>p. ru_ref p = r) ps of
        None \<Rightarrow> Inl NetStale
      | Some p \<Rightarrow> also_then (policy_rules ps rs) (\<lambda>qs. Inr (p\<lparr>ru_alias := []\<rparr> # qs)))"

definition id_le :: "net_ref \<Rightarrow> net_ref \<Rightarrow> bool" where
  "id_le a b = str_le (nr_id a) (nr_id b)"

definition seal_question :: "hash_json \<Rightarrow> net_question \<Rightarrow> net_question" where
  "seal_question h q =
     (if nb_openwrt (binding (qu_gateway q)) = None then q
      else q\<lparr>qu_seal := Some
             \<lparr>sl_target = clone_object h (qu_target q), sl_source = clone_object h (qu_source q),
              sl_service = clone_object h (qu_service q), sl_gateway = clone_object h (qu_gateway q),
              sl_vpn = clone_object h (qu_vpn q), sl_digest = request_digest h (qu_request q) ''network.read''\<rparr>\<rparr>)"

definition finish_question ::
    "hash_json \<Rightarrow> registry_state \<Rightarrow> net_question \<Rightarrow> net_error + net_question" where
  "finish_question h s q =
     (let xs = rs_objects s in
      also_then (walk_all h xs [] [qu_target q, qu_source q, qu_gateway q, qu_vpn q, qu_control q]) (\<lambda>sel0.
      also_then (case qu_baseline q of None \<Rightarrow> Inr sel0
                 | Some a \<Rightarrow> walk_baseline h xs sel0 (oq_objects (as_request a))) (\<lambda>sel.
      let policies = (case qu_baseline q of None \<Rightarrow> oq_policies (qu_request q)
                      | Some a \<Rightarrow> foldl append_unique (oq_policies (qu_request q)) (oq_policies (as_request a)));
          nodes = sort_by (\<lambda>a b. id_le (fst a) (fst b)) (map (\<lambda>x. (no_ref_of x, no_kind x, binding x)) sel) in
      also_then (policy_rules (rs_policies s) policies) (\<lambda>rules.
        Inr (seal_question h
          (q\<lparr>qu_request := (qu_request q)
             \<lparr>oq_objects := sort_by id_le (map no_ref_of sel), oq_policies := policies,
              oq_metadata_digest :=
                h (HashMetadata nodes (sort_by (\<lambda>a b. id_le (ru_ref a) (ru_ref b)) rules))\<rparr>\<rparr>))))))"

definition registry_question ::
    "hash_json \<Rightarrow> nat \<Rightarrow> registry_state net_file \<Rightarrow> string \<Rightarrow> string \<Rightarrow> string \<Rightarrow> net_assessment option
     \<Rightarrow> net_error + net_question" where
  "registry_question h uid f operation name source baseline =
     also_then (load_registry h uid f) (\<lambda>s.
     also_then (find_object h (rs_objects s) (question_kind operation) name) (\<lambda>t.
     also_then
       (let q = new_question operation t baseline; xs = rs_objects s in
        if operation = ''gateway'' then gateway_question h xs q
        else if operation = ''vpn'' then vpn_question h xs q
        else if operation = ''access'' \<or> operation = ''isolation'' then access_question h uid f xs operation source q
        else Inl NetInvalid)
       (finish_question h s)))"

subsection \<open>Lemmas on the closure\<close>

lemma object_refs_clone [simp]: "object_refs (clone_object h x) = object_refs x"
  by (simp add: object_refs_def clone_object_def clone_binding_def Let_def)

definition known :: "hash_json \<Rightarrow> net_object list \<Rightarrow> net_object \<Rightarrow> bool" where
  "known h xs x \<longleftrightarrow> (\<exists>y \<in> set xs. x = clone_object h y)"

definition closed_upto :: "net_object list \<Rightarrow> net_ref set \<Rightarrow> bool" where
  "closed_upto sel pending \<longleftrightarrow>
     (\<forall>x \<in> set sel. \<forall>r \<in> set (object_refs x). nr_id r = [] \<or> r \<in> no_ref_of ` set sel \<or> r \<in> pending)"

text \<open>What a selection is: known objects, one per identifier, within the limit.\<close>

definition selection :: "hash_json \<Rightarrow> net_object list \<Rightarrow> net_object list \<Rightarrow> bool" where
  "selection h xs sel \<longleftrightarrow> list_all (known h xs) sel \<and> distinct (map object_id sel) \<and> length sel \<le> selection_limit"

lemma resolve_ref_Inr:
  "resolve_ref h xs r = Inr x \<Longrightarrow> known h xs x \<and> no_ref_of x = r"
  by (auto simp: resolve_ref_def known_def find_Some_iff split: option.splits if_splits intro: nth_mem)

lemma known_same:
  "ids_ok xs \<Longrightarrow> known h xs x \<Longrightarrow> known h xs y \<Longrightarrow> object_id x = object_id y \<Longrightarrow> x = y"
  unfolding known_def using ids_ok_same by (metis clone_object_fields(1))

lemma selection_add:
  "selection h xs sel \<Longrightarrow> known h xs x \<Longrightarrow> object_id x \<notin> object_id ` set sel \<Longrightarrow> \<not> length sel \<ge> selection_limit
     \<Longrightarrow> selection h xs (sel @ [x])"
  by (auto simp: selection_def)

lemma walk_refs_result:
  assumes "walk_refs h xs sel rs = Inr sel'" and "ids_ok xs" and "selection h xs sel" and "closed_upto sel (set rs)"
  shows "selection h xs sel' \<and> set sel \<subseteq> set sel' \<and> closed_upto sel' {}
    \<and> (\<forall>r \<in> set rs. nr_id r \<noteq> [] \<longrightarrow> r \<in> no_ref_of ` set sel')"
  using assms
proof (induction h xs sel rs arbitrary: sel' rule: walk_refs.induct)
  case (2 h xs sel r rs)
  note ids = \<open>ids_ok xs\<close> and sel = \<open>selection h xs sel\<close> and cl = \<open>closed_upto sel (set (r # rs))\<close>
  show ?case
  proof (cases "nr_id r = []")
    case True
    then have "closed_upto sel (set rs)" using cl by (auto simp: closed_upto_def)
    then show ?thesis using "2.IH"(1) True "2.prems"(1) ids sel by simp
  next
    case False
    then obtain x where x: "resolve_ref h xs r = Inr x"
      using "2.prems"(1) by (cases "resolve_ref h xs r") auto
    note k = resolve_ref_Inr [OF x]
    show ?thesis
    proof (cases "object_id x \<in> object_id ` set sel")
      case seen: True
      then obtain y where y: "y \<in> set sel" "object_id y = object_id x" by force
      have "known h xs y" using sel y(1) by (simp add: selection_def list_all_iff)
      then have "y = x" using known_same [OF ids _ _ y(2)] k by blast
      then have r: "r \<in> no_ref_of ` set sel" using y(1) k by force
      then have "closed_upto sel (set rs)" using cl by (auto simp: closed_upto_def)
      moreover have "walk_refs h xs sel rs = Inr sel'" using "2.prems"(1) False x seen by simp
      ultimately have "selection h xs sel' \<and> set sel \<subseteq> set sel' \<and> closed_upto sel' {}
          \<and> (\<forall>r \<in> set rs. nr_id r \<noteq> [] \<longrightarrow> r \<in> no_ref_of ` set sel')"
        using "2.IH"(2) False x seen ids sel by blast
      then show ?thesis using r by auto
    next
      case new: False
      have lim: "\<not> length sel \<ge> selection_limit" using "2.prems"(1) False x new by (auto split: if_splits)
      have run: "walk_refs h xs (sel @ [x]) (object_refs x @ rs) = Inr sel'" using "2.prems"(1) False x new lim by simp
      have "closed_upto (sel @ [x]) (set (object_refs x @ rs))" using cl k by (auto simp: closed_upto_def)
      then have "selection h xs sel' \<and> set (sel @ [x]) \<subseteq> set sel' \<and> closed_upto sel' {}
          \<and> (\<forall>r \<in> set (object_refs x @ rs). nr_id r \<noteq> [] \<longrightarrow> r \<in> no_ref_of ` set sel')"
        using "2.IH"(3) False x new lim run ids selection_add [OF sel _ new lim] k by blast
      then show ?thesis using k by auto
    qed
  qed
qed simp

lemma walk_result:
  assumes "walk h xs sel x = Inr sel'" and ids: "ids_ok xs" and sel: "selection h xs sel" and cl: "closed_upto sel {}"
    and x: "known h xs x \<or> object_id x = []"
  shows "selection h xs sel' \<and> set sel \<subseteq> set sel' \<and> closed_upto sel' {}
    \<and> (object_id x \<noteq> [] \<longrightarrow> no_ref_of x \<in> no_ref_of ` set sel')"
proof (cases "object_id x = [] \<or> object_id x \<in> object_id ` set sel")
  case True
  moreover have "no_ref_of x \<in> no_ref_of ` set sel" if seen: "object_id x \<in> object_id ` set sel" "object_id x \<noteq> []"
  proof -
    obtain y where y: "y \<in> set sel" "object_id y = object_id x" using seen(1) by force
    then have "known h xs y" using sel by (simp add: selection_def list_all_iff)
    then have "y = x" using known_same [OF ids _ _ y(2)] x seen(2) by blast
    then show ?thesis using y by force
  qed
  moreover have "sel' = sel" using True assms(1) unfolding walk_def by (elim disjE) (simp_all split: if_split_asm)
  ultimately show ?thesis using sel cl by blast
next
  case False
  then have lim: "\<not> length sel \<ge> selection_limit" and run: "walk_refs h xs (sel @ [x]) (object_refs x) = Inr sel'"
    using assms(1) by (auto simp: walk_def split: if_splits)
  have "closed_upto (sel @ [x]) (set (object_refs x))" using cl by (auto simp: closed_upto_def)
  then have "selection h xs sel' \<and> set (sel @ [x]) \<subseteq> set sel' \<and> closed_upto sel' {}"
    using walk_refs_result [OF run ids selection_add [OF sel _ _ lim]] False x by blast
  then show ?thesis by auto
qed

lemma walk_all_result:
  assumes "walk_all h xs sel ys = Inr sel'" and "ids_ok xs" and "selection h xs sel" and "closed_upto sel {}"
    and "\<forall>x \<in> set ys. known h xs x \<or> object_id x = []"
  shows "selection h xs sel' \<and> set sel \<subseteq> set sel' \<and> closed_upto sel' {}
    \<and> (\<forall>x \<in> set ys. object_id x \<noteq> [] \<longrightarrow> no_ref_of x \<in> no_ref_of ` set sel')"
  using assms
proof (induction h xs sel ys rule: walk_all.induct)
  case (2 h xs sel x ys)
  then obtain sel1 where w: "walk h xs sel x = Inr sel1" and rest: "walk_all h xs sel1 ys = Inr sel'" by auto
  have one: "selection h xs sel1 \<and> set sel \<subseteq> set sel1 \<and> closed_upto sel1 {}
    \<and> (object_id x \<noteq> [] \<longrightarrow> no_ref_of x \<in> no_ref_of ` set sel1)"
    using walk_result [OF w "2.prems"(2-4)] "2.prems"(5) by simp
  have "selection h xs sel' \<and> set sel1 \<subseteq> set sel' \<and> closed_upto sel' {}
    \<and> (\<forall>x \<in> set ys. object_id x \<noteq> [] \<longrightarrow> no_ref_of x \<in> no_ref_of ` set sel')"
    using "2.IH" rest one "2.prems"(2,5) by simp
  then show ?case using one by auto
qed simp

lemma walk_baseline_result:
  assumes "walk_baseline h xs sel rs = Inr sel'" and "ids_ok xs" and "selection h xs sel" and "closed_upto sel {}"
  shows "selection h xs sel' \<and> set sel \<subseteq> set sel' \<and> closed_upto sel' {}"
  using assms
proof (induction h xs sel rs rule: walk_baseline.induct)
  case (2 h xs sel r rs)
  then obtain x sel1 where x: "resolve_ref h xs r = Inr x" and w: "walk h xs sel x = Inr sel1"
    and rest: "walk_baseline h xs sel1 rs = Inr sel'" by auto
  have one: "selection h xs sel1 \<and> set sel \<subseteq> set sel1 \<and> closed_upto sel1 {}"
    using walk_result [OF w "2.prems"(2-4)] resolve_ref_Inr [OF x] by blast
  then have "selection h xs sel' \<and> set sel1 \<subseteq> set sel' \<and> closed_upto sel' {}"
    using "2.IH" x w rest "2.prems"(2) by blast
  then show ?case using one by auto
qed simp


subsection \<open>What a question holds before it is closed\<close>

lemma find_known: "find_object h xs k name = Inr x \<Longrightarrow> known h xs x"
  unfolding known_def by (drule find_object_Inr) blast

lemma maybe_known: "resolve_maybe h xs r = Inr x \<Longrightarrow> known h xs x \<or> object_id x = []"
  using resolve_ref_Inr by (fastforce simp: resolve_maybe_def no_object_def no_ref_def split: if_splits)

definition parts_known :: "hash_json \<Rightarrow> net_object list \<Rightarrow> net_question \<Rightarrow> bool" where
  "parts_known h xs q \<longleftrightarrow>
     (\<forall>x \<in> {qu_target q, qu_source q, qu_gateway q, qu_vpn q, qu_control q}. known h xs x \<or> object_id x = [])"

lemma add_resolved_result:
  assumes "add_resolved h xs op r q = Inr q1"
  shows "(parts_known h xs q \<longrightarrow> parts_known h xs q1) \<and> (op = ''isolation'' \<longrightarrow> rt_decision r = ''deny'')
    \<and> qu_target q1 = qu_target q \<and> qu_source q1 = qu_source q \<and> qu_resolved q1 = qu_resolved q \<and> qu_baseline q1 = qu_baseline q
    \<and> oq_operation (qu_request q1) = oq_operation (qu_request q) \<and> oq_target (qu_request q1) = oq_target (qu_request q)
    \<and> oq_tuples (qu_request q1) = oq_tuples (qu_request q) @ [rt_tuple r]
    \<and> set (oq_policies (qu_request q1)) = insert (rt_policy r) (set (oq_policies (qu_request q)))"
proof -
  obtain v where n: "next_vpn h xs r (qu_vpn q) = Inr v"
    and q1: "q1 = q\<lparr>qu_vpn := v, qu_request := (qu_request q)
               \<lparr>oq_tuples := oq_tuples (qu_request q) @ [rt_tuple r],
                oq_policies := append_unique (oq_policies (qu_request q)) (rt_policy r),
                oq_tuple_required :=
                  AList.update (h (HashTuple (rt_tuple r))) (tuple_properties r) (oq_tuple_required (qu_request q))\<rparr>\<rparr>"
    and op: "op = ''isolation'' \<longrightarrow> rt_decision r = ''deny''"
    using assms by (auto simp: add_resolved_def)
  have v: "v = qu_vpn q \<or> resolve_maybe h xs (rt_path r) = Inr v"
    using n by (auto simp: next_vpn_def split: if_splits)
  have "parts_known h xs q \<longrightarrow> known h xs v \<or> object_id v = []" using v maybe_known by (auto simp: parts_known_def)
  then show ?thesis using q1 op by (auto simp: parts_known_def append_unique_def)
qed

lemma add_all_resolved_result:
  assumes "add_all_resolved h xs op rs q = Inr q1"
  shows "(parts_known h xs q \<longrightarrow> parts_known h xs q1) \<and> (op = ''isolation'' \<longrightarrow> (\<forall>r \<in> set rs. rt_decision r = ''deny''))
    \<and> qu_target q1 = qu_target q \<and> qu_source q1 = qu_source q \<and> qu_resolved q1 = qu_resolved q \<and> qu_baseline q1 = qu_baseline q
    \<and> oq_operation (qu_request q1) = oq_operation (qu_request q) \<and> oq_target (qu_request q1) = oq_target (qu_request q)
    \<and> oq_tuples (qu_request q1) = oq_tuples (qu_request q) @ map rt_tuple rs
    \<and> set (oq_policies (qu_request q1)) = rt_policy ` set rs \<union> set (oq_policies (qu_request q))"
  using assms
proof (induction rs arbitrary: q)
  case (Cons r rs)
  then obtain q0 where a: "add_resolved h xs op r q = Inr q0" and b: "add_all_resolved h xs op rs q0 = Inr q1" by auto
  show ?case using add_resolved_result [OF a] Cons.IH [OF b] by auto
qed simp


text \<open>What the branch of an operation leaves in the question.\<close>

definition branch_ok ::
    "hash_json \<Rightarrow> nat \<Rightarrow> registry_state net_file \<Rightarrow> net_object list \<Rightarrow> string \<Rightarrow> net_question \<Rightarrow> net_question \<Rightarrow> bool" where
  "branch_ok h uid f xs op q0 q \<longleftrightarrow>
     parts_known h xs q \<and> qu_target q = qu_target q0 \<and> oq_target (qu_request q) = oq_target (qu_request q0)
     \<and> qu_baseline q = qu_baseline q0
     \<and> (op \<in> {''access'', ''isolation''} \<longrightarrow>
          (\<exists>ts. resolve_tuples h uid ts f = Inr (qu_resolved q))
          \<and> oq_tuples (qu_request q) = oq_tuples (qu_request q0) @ map rt_tuple (qu_resolved q)
          \<and> rt_policy ` set (qu_resolved q) \<subseteq> set (oq_policies (qu_request q)))
     \<and> (op = ''isolation'' \<longrightarrow> (\<forall>r \<in> set (qu_resolved q). rt_decision r = ''deny''))"

lemma no_object_id [simp]: "object_id no_object = []"
  by (simp add: no_object_def no_ref_def)

lemma branch_okI:
  assumes "parts_known h xs q" and "qu_target q = qu_target q0" and "oq_target (qu_request q) = oq_target (qu_request q0)"
    and "qu_baseline q = qu_baseline q0" and "op \<notin> {''access'', ''isolation''}"
  shows "branch_ok h uid f xs op q0 q"
  using assms by (simp add: branch_ok_def)

lemma gateway_branch:
  assumes "gateway_question h xs q0 = Inr q" and t: "known h xs (qu_target q0)" and k: "parts_known h xs q0"
  shows "branch_ok h uid f xs ''gateway'' q0 q"
proof (cases "nb_openwrt (binding (qu_target q0)) = None")
  case True
  then show ?thesis using assms by (intro branch_okI) (auto simp: gateway_question_def parts_known_def Let_def)
next
  case False
  then obtain src v where src: "resolve_maybe h xs (nb_source (binding (qu_target q0))) = Inr src"
    and v: "resolve_maybe h xs (nb_vpn (binding (qu_target q0))) = Inr v"
    and q: "q = q0\<lparr>qu_gateway := qu_target q0, qu_source := src, qu_vpn := v,
                 qu_request := (qu_request q0)\<lparr>oq_required :=
                   net_properties ''gateway'' (nb_require_path (binding (qu_target q0))) (nb_fail_closed (binding (qu_target q0)))\<rparr>\<rparr>"
    using assms(1) by (auto simp: gateway_question_def Let_def)
  show ?thesis using t k maybe_known [OF src] maybe_known [OF v] unfolding q
    by (intro branch_okI) (simp_all add: parts_known_def)
qed

lemma vpn_branch:
  assumes "vpn_question h xs q0 = Inr q" and t: "known h xs (qu_target q0)" and k: "parts_known h xs q0"
  shows "branch_ok h uid f xs ''vpn'' q0 q"
proof -
  obtain g src where g: "resolve_maybe h xs (nb_gateway (binding (qu_target q0))) = Inr g"
    and src: "resolve_maybe h xs (nb_source (binding (qu_target q0))) = Inr src"
    and q: "q = q0\<lparr>qu_vpn := qu_target q0, qu_gateway := g, qu_source := src,
                 qu_request := (qu_request q0)\<lparr>oq_required :=
                   net_properties ''vpn'' (nb_require_path (binding (qu_target q0))) (nb_fail_closed (binding (qu_target q0)))\<rparr>\<rparr>"
    using assms(1) by (auto simp: vpn_question_def Let_def split: if_splits)
  show ?thesis using t k maybe_known [OF src] maybe_known [OF g] unfolding q
    by (intro branch_okI) (simp_all add: parts_known_def)
qed

lemma access_source_known:
  "access_source h xs t source = Inr src \<Longrightarrow> known h xs src \<or> object_id src = []"
  using maybe_known find_known by (auto simp: access_source_def split: sum.splits if_splits)

lemma access_branch:
  assumes "access_question h uid f xs op source q0 = Inr q" and t: "known h xs (qu_target q0)"
  shows "branch_ok h uid f xs op q0 q"
proof -
  obtain src g0 g v c ms family q1
    where src: "access_source h xs (qu_target q0) source = Inr src"
    and g0: "resolve_maybe h xs (nb_gateway (binding (qu_target q0))) = Inr g0"
    and g: "(if object_id g0 = [] then resolve_maybe h xs (nb_gateway (binding src)) else Inr g0) = Inr g"
    and v: "resolve_maybe h xs (nb_vpn (binding (qu_target q0))) = Inr v"
    and c: "resolve_maybe h xs (nb_control (binding (qu_target q0))) = Inr c"
    and ms: "resolve_tuples h uid (service_tuples (no_ref_of src) (qu_target q0) family) f = Inr ms"
    and q1: "add_all_resolved h xs op ms
        (q0\<lparr>qu_service := qu_target q0, qu_source := src, qu_gateway := g, qu_vpn := v, qu_control := c, qu_resolved := ms,
           qu_request := (qu_request q0)\<lparr>oq_source := no_ref_of src\<rparr>\<rparr>) = Inr q1"
    and q: "q = q1\<lparr>qu_request := (qu_request q1)\<lparr>oq_required :=
               sort_by str_le (remdups (concat (map tuple_properties ms)))\<rparr>\<rparr>"
    using assms(1) unfolding access_question_def Let_def by (auto simp only: also_then_Inr sum.inject)
  have gk: "known h xs g \<or> object_id g = []"
    using g maybe_known [OF g0] maybe_known [of h xs _ g] by (cases "object_id g0 = []") auto
  have k: "parts_known h xs (q0\<lparr>qu_service := qu_target q0, qu_source := src, qu_gateway := g, qu_vpn := v,
      qu_control := c, qu_resolved := ms, qu_request := (qu_request q0)\<lparr>oq_source := no_ref_of src\<rparr>\<rparr>)"
    using t gk maybe_known [OF v] maybe_known [OF c] access_source_known [OF src] by (simp add: parts_known_def)
  note r = add_all_resolved_result [OF q1]
  have "parts_known h xs q" using r k q by (simp add: parts_known_def)
  moreover have "qu_resolved q = ms" "qu_target q = qu_target q0" "qu_baseline q = qu_baseline q0"
      "oq_target (qu_request q) = oq_target (qu_request q0)"
      "oq_tuples (qu_request q) = oq_tuples (qu_request q0) @ map rt_tuple ms" "rt_policy ` set ms \<subseteq> set (oq_policies (qu_request q))"
      "op = ''isolation'' \<longrightarrow> (\<forall>r \<in> set ms. rt_decision r = ''deny'')"
    using r q by simp_all
  ultimately show ?thesis using ms unfolding branch_ok_def by metis
qed

lemma seal_request [simp]: "qu_request (seal_question h q) = qu_request q" "qu_resolved (seal_question h q) = qu_resolved q"
  by (simp_all add: seal_question_def)

lemma policy_rules_refs: "policy_rules ps rs = Inr qs \<Longrightarrow> \<forall>r \<in> set rs. \<exists>p \<in> set ps. ru_ref p = r"
  by (induction rs arbitrary: qs) (auto simp: find_Some_iff split: option.splits intro: nth_mem)

lemma foldl_append_unique: "set (foldl append_unique ps rs) = set ps \<union> set rs"
  by (induction rs arbitrary: ps) (auto simp: append_unique_def)

lemma finish_result:
  assumes fin: "finish_question h s q0 = Inr q" and ids: "ids_ok (rs_objects s)" and k: "parts_known h (rs_objects s) q0"
  shows "\<exists>sel. selection h (rs_objects s) sel \<and> closed_upto sel {}
      \<and> (object_id (qu_target q0) \<noteq> [] \<longrightarrow> no_ref_of (qu_target q0) \<in> no_ref_of ` set sel)
      \<and> oq_objects (qu_request q) = sort_by id_le (map no_ref_of sel)
      \<and> oq_target (qu_request q) = oq_target (qu_request q0) \<and> oq_tuples (qu_request q) = oq_tuples (qu_request q0)
      \<and> qu_resolved q = qu_resolved q0 \<and> set (oq_policies (qu_request q0)) \<subseteq> set (oq_policies (qu_request q))
      \<and> (\<forall>r \<in> set (oq_policies (qu_request q)). \<exists>p \<in> set (rs_policies s). ru_ref p = r)"
proof -
  let ?xs = "rs_objects s"
  obtain sel0 sel rules policies nodes
    where w: "walk_all h ?xs [] [qu_target q0, qu_source q0, qu_gateway q0, qu_vpn q0, qu_control q0] = Inr sel0"
    and b: "(case qu_baseline q0 of None \<Rightarrow> Inr sel0 | Some a \<Rightarrow> walk_baseline h ?xs sel0 (oq_objects (as_request a))) = Inr sel"
    and p: "policies = (case qu_baseline q0 of None \<Rightarrow> oq_policies (qu_request q0)
                      | Some a \<Rightarrow> foldl append_unique (oq_policies (qu_request q0)) (oq_policies (as_request a)))"
    and r: "policy_rules (rs_policies s) policies = Inr rules"
    and q: "q = seal_question h (q0\<lparr>qu_request := (qu_request q0)
             \<lparr>oq_objects := sort_by id_le (map no_ref_of sel), oq_policies := policies,
              oq_metadata_digest := h (HashMetadata nodes (sort_by (\<lambda>a b. id_le (ru_ref a) (ru_ref b)) rules))\<rparr>\<rparr>)"
    using fin unfolding finish_question_def Let_def by (auto simp only: also_then_Inr sum.inject)
  have one: "selection h ?xs sel0 \<and> closed_upto sel0 {}
      \<and> (object_id (qu_target q0) \<noteq> [] \<longrightarrow> no_ref_of (qu_target q0) \<in> no_ref_of ` set sel0)"
    using walk_all_result [OF w ids] k by (auto simp: selection_def closed_upto_def parts_known_def)
  have two: "selection h ?xs sel \<and> set sel0 \<subseteq> set sel \<and> closed_upto sel {}"
    using b one walk_baseline_result [of h ?xs sel0 _ sel] ids by (auto split: option.splits)
  have "set (oq_policies (qu_request q0)) \<subseteq> set policies" using p foldl_append_unique by (auto split: option.splits)
  moreover have "\<forall>r \<in> set policies. \<exists>p \<in> set (rs_policies s). ru_ref p = r" using policy_rules_refs [OF r] .
  ultimately show ?thesis using one two q by (intro exI [of _ sel]) auto
qed


subsection \<open>The closed question\<close>

lemma load_objects_ok: "load_registry h uid f = Inr s \<Longrightarrow> objects_ok (rs_objects s)"
proof -
  assume l: "load_registry h uid f = Inr s"
  consider "read_safe uid f = Inl NetNotExist" | s0 where "read_safe uid f = Inr s0"
    using l by (cases "read_safe uid f") (auto simp: load_registry_def split: if_splits)
  then show ?thesis
  proof cases
    case 1
    then show ?thesis using l empty_registry_inv [of h] by (simp add: load_registry_def registry_inv_def)
  next
    case 2
    then show ?thesis using l validate_objects_result [of h "rs_objects s0"] by (auto simp: load_registry_def split: if_splits)
  qed
qed

lemma load_ids: "load_registry h uid f = Inr s \<Longrightarrow> ids_ok (rs_objects s)"
  by (rule objects_ok_ids [OF load_objects_ok])

lemma load_id_nonempty: "load_registry h uid f = Inr s \<Longrightarrow> x \<in> set (rs_objects s) \<Longrightarrow> object_id x \<noteq> []"
  using load_objects_ok by (fastforce simp: objects_ok_def list_all_iff object_ok_def)

text \<open>
  (C26) The scope of a question is complete and current. Its objects are sorted, distinct, at most 64,
  include the target, are all at their present revision, and every object that one of them is bound
  to is among them; its policies are rules of the registry. For access and isolation the tuples are
  those the registry resolves, under the policies listed; for isolation each of them is denied.
\<close>

theorem question_closed:
  assumes load: "load_registry h uid f = Inr s" and q: "registry_question h uid f op name source baseline = Inr q"
  shows "distinct (map nr_id (oq_objects (qu_request q))) \<and> length (oq_objects (qu_request q)) \<le> 64
    \<and> sorted_wrt id_le (oq_objects (qu_request q)) \<and> oq_target (qu_request q) \<in> set (oq_objects (qu_request q))
    \<and> (\<forall>r \<in> set (oq_objects (qu_request q)). \<exists>x \<in> set (rs_objects s). no_ref_of x = r
         \<and> (\<forall>d \<in> set (object_refs x). nr_id d \<noteq> [] \<longrightarrow> d \<in> set (oq_objects (qu_request q))))
    \<and> (\<forall>p \<in> set (oq_policies (qu_request q)). \<exists>r \<in> set (rs_policies s). ru_ref r = p)
    \<and> (op \<in> {''access'', ''isolation''} \<longrightarrow>
         (\<exists>ts. resolve_tuples h uid ts f = Inr (qu_resolved q)) \<and> oq_tuples (qu_request q) = map rt_tuple (qu_resolved q)
         \<and> rt_policy ` set (qu_resolved q) \<subseteq> set (oq_policies (qu_request q)))
    \<and> (op = ''isolation'' \<longrightarrow> (\<forall>r \<in> set (qu_resolved q). rt_decision r = ''deny''))"
proof -
  let ?xs = "rs_objects s"
  have ids: "ids_ok ?xs" using load_ids [OF load] .
  obtain t q1 where t: "find_object h ?xs (question_kind op) name = Inr t"
    and b: "(let q = new_question op t baseline; xs = ?xs in
        if op = ''gateway'' then gateway_question h xs q
        else if op = ''vpn'' then vpn_question h xs q
        else if op = ''access'' \<or> op = ''isolation'' then access_question h uid f xs op source q
        else Inl NetInvalid) = Inr q1"
    and fin: "finish_question h s q1 = Inr q"
    using q load unfolding registry_question_def by (auto simp only: also_then_Inr sum.inject)
  let ?q0 = "new_question op t baseline"
  have kt: "known h ?xs t" using find_known [OF t] .
  have tgt: "qu_target ?q0 = t" "oq_target (qu_request ?q0) = no_ref_of t" "oq_tuples (qu_request ?q0) = []"
    by (simp_all add: new_question_def empty_request_def)
  have k0: "parts_known h ?xs ?q0" using kt by (simp add: parts_known_def new_question_def)
  have br: "branch_ok h uid f ?xs op ?q0 q1"
    using b gateway_branch [OF _ _ k0] vpn_branch [OF _ _ k0] access_branch kt tgt(1)
    by (auto simp: Let_def split: if_splits)
  have pk: "parts_known h ?xs q1" using br by (simp add: branch_ok_def)
  obtain sel where sel: "selection h ?xs sel" and cl: "closed_upto sel {}"
    and tin: "object_id (qu_target q1) \<noteq> [] \<longrightarrow> no_ref_of (qu_target q1) \<in> no_ref_of ` set sel"
    and obs: "oq_objects (qu_request q) = sort_by id_le (map no_ref_of sel)"
    and same: "oq_target (qu_request q) = oq_target (qu_request q1)" "oq_tuples (qu_request q) = oq_tuples (qu_request q1)"
      "qu_resolved q = qu_resolved q1" "set (oq_policies (qu_request q1)) \<subseteq> set (oq_policies (qu_request q))"
    and pol: "\<forall>r \<in> set (oq_policies (qu_request q)). \<exists>p \<in> set (rs_policies s). ru_ref p = r"
    using finish_result [OF fin ids pk] by (elim exE conjE) (rule that, assumption+)
  have set_obs: "set (oq_objects (qu_request q)) = no_ref_of ` set sel" using obs by simp
  have mset_obs: "mset (map nr_id (oq_objects (qu_request q))) = mset (map object_id sel)"
    unfolding obs by (simp only: mset_map sort_by_mset multiset.map_comp comp_def)
  have "distinct (map nr_id (oq_objects (qu_request q)))"
    using sel mset_eq_imp_distinct_iff [OF mset_obs] by (simp add: selection_def)
  moreover have "length (oq_objects (qu_request q)) \<le> 64" using sel obs by (simp add: selection_def selection_limit_def)
  moreover have "sorted_wrt id_le (oq_objects (qu_request q))"
    unfolding obs by (rule sorted_sort_by; unfold id_le_def) (use str_le_total str_le_trans in blast)+
  moreover have "object_id t \<noteq> []" using load_id_nonempty [OF load] kt by (auto simp: known_def)
  then have "oq_target (qu_request q) \<in> set (oq_objects (qu_request q))"
    using tin br same(1) tgt set_obs by (simp add: branch_ok_def)
  moreover have "\<forall>r \<in> set (oq_objects (qu_request q)). \<exists>x \<in> set ?xs. no_ref_of x = r
         \<and> (\<forall>d \<in> set (object_refs x). nr_id d \<noteq> [] \<longrightarrow> d \<in> set (oq_objects (qu_request q)))"
  proof
    fix r assume "r \<in> set (oq_objects (qu_request q))"
    then obtain y where y: "y \<in> set sel" "no_ref_of y = r" using set_obs by auto
    then obtain x where x: "x \<in> set ?xs" "y = clone_object h x" using sel by (auto simp: selection_def list_all_iff known_def)
    have "\<forall>d \<in> set (object_refs y). nr_id d \<noteq> [] \<longrightarrow> d \<in> no_ref_of ` set sel" using cl y(1) by (auto simp: closed_upto_def)
    then show "\<exists>x \<in> set ?xs. no_ref_of x = r
         \<and> (\<forall>d \<in> set (object_refs x). nr_id d \<noteq> [] \<longrightarrow> d \<in> set (oq_objects (qu_request q)))"
      using x y(2) set_obs by (intro bexI [of _ x]) auto
  qed
  moreover have "op \<in> {''access'', ''isolation''} \<longrightarrow>
         (\<exists>ts. resolve_tuples h uid ts f = Inr (qu_resolved q)) \<and> oq_tuples (qu_request q) = map rt_tuple (qu_resolved q)
         \<and> rt_policy ` set (qu_resolved q) \<subseteq> set (oq_policies (qu_request q))"
    using br same tgt(3) unfolding branch_ok_def by (metis append_Nil subset_trans)
  moreover have "op = ''isolation'' \<longrightarrow> (\<forall>r \<in> set (qu_resolved q). rt_decision r = ''deny'')"
    using br same(3) unfolding branch_ok_def by metis
  ultimately show ?thesis using pol by (intro conjI) assumption+
qed


definition sample_gateway :: net_object where
  "sample_gateway =
     \<lparr>no_ref_of = \<lparr>nr_id = ''net_67'', nr_rev = 1\<rparr>, no_kind = KindGateway, no_alias = ''home'',
      no_binding_of = no_binding\<lparr>nb_source := lan_ref\<rparr>\<rparr>"

definition gateway_registry :: registry_state where
  "gateway_registry =
     \<lparr>rs_schema = 1, rs_objects = [sample_gateway, sample_lan\<lparr>no_ref_of := lan_ref\<rparr>], rs_policies = []\<rparr>"

lemma gateway_load: "load_registry sample_net_hash 7 (NetFile (saved_node 7) 9 True (Some gateway_registry)) = Inr gateway_registry"
  by (rule load_sample) (simp add: gateway_registry_def, code_simp)

definition gateway_q :: "net_error + net_question" where
  "gateway_q = registry_question sample_net_hash 7 (NetFile (saved_node 7) 9 True (Some gateway_registry)) ''gateway'' ''home'' [] None"

lemma question_closed_witness:
  "\<exists>q. gateway_q = Inr q \<and> lan_ref \<in> set (oq_objects (qu_request q))"
proof -
  obtain q where q: "gateway_q = Inr q"
  proof -
    have "\<not> isl gateway_q" unfolding gateway_q_def registry_question_def gateway_load also_then_def sum.case by code_simp
    then show ?thesis using that by (cases gateway_q) (auto simp: isl_def)
  qed
  note c = question_closed [OF gateway_load q [unfolded gateway_q_def]]
  have t: "oq_target (qu_request q) = no_ref_of sample_gateway"
  proof -
    have "(case gateway_q of Inl _ \<Rightarrow> no_ref | Inr q \<Rightarrow> oq_target (qu_request q)) = no_ref_of sample_gateway"
      unfolding gateway_q_def registry_question_def gateway_load also_then_def sum.case by code_simp
    then show ?thesis unfolding q sum.case .
  qed
  have "\<exists>x \<in> set (rs_objects gateway_registry). no_ref_of x = no_ref_of sample_gateway
      \<and> (\<forall>d \<in> set (object_refs x). nr_id d \<noteq> [] \<longrightarrow> d \<in> set (oq_objects (qu_request q)))"
    using c t by metis
  then have "\<forall>d \<in> set (object_refs sample_gateway). nr_id d \<noteq> [] \<longrightarrow> d \<in> set (oq_objects (qu_request q))"
    by (auto simp: gateway_registry_def sample_gateway_def lan_ref_def)
  moreover have "lan_ref \<in> set (object_refs sample_gateway)" by (simp add: object_refs_def sample_gateway_def Let_def)
  ultimately have "lan_ref \<in> set (oq_objects (qu_request q))" by (simp add: lan_ref_def)
  then show ?thesis using q by blast
qed

end
