(* ===== verification/NetCli.thy ===== *)
theory NetCli
  imports NetQuestion
begin

text \<open>
  Package \<open>internal/netpolicy\<close>, the commands (\<open>cli.go\<close>, \<open>discover.go\<close>, \<open>InspectObject\<close>): import,
  discovery, inspection and verification, with their exit codes. The flag parser, the native
  collector and the terminal are parameters; what is printed is a value.
\<close>

subsection \<open>Discovery and inspection\<close>

datatype support = Supported | PartialSupport | Unsupported | UnknownSupport

record capability =
  cp_operation :: string
  cp_support :: support
  cp_scope :: "net_ref list"
  cp_missing :: "string list"

record candidate =
  cd_name :: string
  cd_kind :: net_kind
  cd_ref :: net_ref
  cd_registered :: bool
  cd_confidence :: string
  cd_capabilities :: "capability list"
  cd_missing :: "string list"

definition registered_candidate :: "net_object \<Rightarrow> candidate" where
  "registered_candidate x =
     \<lparr>cd_name = no_alias x, cd_kind = no_kind x, cd_ref = no_ref_of x, cd_registered = True,
      cd_confidence = ''declared_not_verified'',
      cd_capabilities = [\<lparr>cp_operation = ''inspect_metadata'', cp_support = Supported, cp_scope = [no_ref_of x], cp_missing = []\<rparr>],
      cd_missing = [''live_evidence'']\<rparr>"

text \<open>The first of \<open>name\<close>, \<open>name-2\<close>, \<open>name-3\<close> \<dots> that is not taken.\<close>

definition numbered :: "string \<Rightarrow> nat \<Rightarrow> string" where
  "numbered base n = (if n = 1 then base else base @ ''-'' @ dec_nat n)"

fun free_name :: "nat \<Rightarrow> string list \<Rightarrow> string \<Rightarrow> nat \<Rightarrow> string" where
  "free_name 0 names base n = numbered base n"
| "free_name (Suc fuel) names base n =
     (if numbered base n \<in> set names then free_name fuel names base (Suc n) else numbered base n)"

definition tool_candidate :: "string \<Rightarrow> net_kind \<Rightarrow> candidate" where
  "tool_candidate name k =
     \<lparr>cd_name = name, cd_kind = k, cd_ref = no_ref, cd_registered = False, cd_confidence = ''unverified_candidate'',
      cd_capabilities = [\<lparr>cp_operation = ''status'', cp_support = UnknownSupport, cp_scope = [], cp_missing = []\<rparr>],
      cd_missing = [''confirmed_registration'', ''live_read_authority'', ''native_binding'']\<rparr>"

definition add_tool ::
    "(string \<Rightarrow> bool) \<Rightarrow> string \<times> string \<times> net_kind \<Rightarrow> string list \<times> candidate list \<Rightarrow> string list \<times> candidate list" where
  "add_tool present tool st =
     (case (tool, st) of ((binary, base, k), (names, out)) \<Rightarrow>
        if \<not> present binary then (names, out)
        else let name = free_name (length names) names base 1 in (name # names, out @ [tool_candidate name k]))"

definition discover ::
    "hash_json \<Rightarrow> nat \<Rightarrow> registry_state net_file \<Rightarrow> (string \<Rightarrow> bool) \<Rightarrow> net_error + candidate list" where
  "discover h uid f present =
     also_then (registry_objects h uid f) (\<lambda>xs.
     also_then (require (length xs \<le> 62) NetUnsupported) (\<lambda>_.
       Inr (snd (add_tool present (''wg'', ''wireguard-vpn'', KindVpn)
             (add_tool present (''ip'', ''linux-gateway'', KindGateway)
               (map no_alias xs, map registered_candidate xs))))))"

record inspection =
  in_ref :: net_ref
  in_kind :: net_kind
  in_alias :: string
  in_implementation :: string
  in_endpoint_display :: string

definition inspect_object :: "net_object \<Rightarrow> inspection" where
  "inspect_object x =
     \<lparr>in_ref = no_ref_of x, in_kind = no_kind x, in_alias = no_alias x,
      in_implementation = nb_protocol (no_binding_of x), in_endpoint_display = ''suppressed''\<rparr>"

subsection \<open>Permission\<close>

text \<open>
  The question is rebuilt from the current registry before every native operation, its digest
  compared, and the grant read again.
\<close>

record verify_args =
  va_operation :: string
  va_target :: string
  va_from :: string
  va_grant :: string
  va_request_only :: bool

definition permit ::
    "hash_json \<Rightarrow> nat \<Rightarrow> registry_state net_file \<Rightarrow> grant list net_file \<Rightarrow> verify_args \<Rightarrow> net_assessment option
     \<Rightarrow> net_question \<Rightarrow> string \<Rightarrow> time \<Rightarrow> string option \<Rightarrow> net_error option" where
  "permit h uid reg st a baseline q cap now whoami =
     (case registry_question h uid reg (va_operation a) (va_target a) (va_from a) baseline of
        Inl e \<Rightarrow> Some e
      | Inr current \<Rightarrow>
          if request_digest h (qu_request current) cap \<noteq> request_digest h (qu_request q) cap then Some NetStale
          else authorize_observation h uid st (va_grant a) (qu_request q) cap now whoami)"

subsection \<open>Verification\<close>

record collection =
  cl_facts :: "net_fact list"
  cl_cleanup :: bool
  cl_missing :: "string list"
  cl_capabilities :: "capability list"

datatype cli_output =
    CliFail net_error
  | CliUnknown net_error
  | CliRequest net_request string string
  | CliImported nat
  | CliCandidates "candidate list"
  | CliRule net_rule
  | CliInspection inspection
  | CliAssessment net_assessment

text \<open>\<open>fail\<close> exits with 3, \<open>unknown\<close> with 2.\<close>

definition fail_with :: "net_error \<Rightarrow> int \<times> cli_output" where "fail_with e = (3, CliFail e)"
definition unknown_with :: "net_error \<Rightarrow> int \<times> cli_output" where "unknown_with e = (2, CliUnknown e)"

text \<open>What one verification meets: files as they are at each step, times, and the collector.\<close>

record verify_world =
  vw_uid :: nat
  vw_registry :: "registry_state net_file"
  vw_state_before :: "grant list net_file"
  vw_state_after :: "grant list net_file"
  vw_baseline :: "(net_error + net_assessment) option"
  vw_now :: "nat \<Rightarrow> time"
  vw_whoami :: "string option"
  vw_collect :: "net_question \<Rightarrow> collection"
  vw_random :: string
  vw_fixture :: bool
  vw_records :: record_dir
  vw_record_dir :: lstat_result
  vw_listing :: "net_error option"
  vw_removes :: "string \<Rightarrow> bool"
  vw_save :: save_io
  vw_prints :: bool

definition clamp_fact :: "time \<Rightarrow> net_fact \<Rightarrow> net_fact" where
  "clamp_fact limit f = (if nf_valid_until f > limit then f\<lparr>nf_valid_until := limit\<rparr> else f)"

text \<open>After the collection: the grant again, the window of its validity, the verdict.\<close>

definition assess ::
    "hash_json \<Rightarrow> verify_world \<Rightarrow> verify_args \<Rightarrow> net_question \<Rightarrow> collection \<Rightarrow> net_assessment" where
  "assess h w a q c0 =
     (let c = (case read_grant_projection (vw_uid w) (vw_state_after w) (va_grant a) of
                 Inl _ \<Rightarrow> c0\<lparr>cl_missing := cl_missing c0 @ [''grant_changed''], cl_facts := []\<rparr>
               | Inr g \<Rightarrow> c0\<lparr>cl_facts := map (clamp_fact (window_end (spend_policy (g_pins g)))) (cl_facts c0)\<rparr>);
          e = evaluate_evidence h (vw_random w) (qu_request q) (cl_facts c) (vw_now w 1) (cl_cleanup c) (vw_fixture w)
      in e\<lparr>as_context := \<lparr>dc_source = no_alias (qu_source q), dc_target = no_alias (qu_target q), dc_vpn = no_alias (qu_vpn q)\<rparr>,
            as_grant_id := va_grant a, as_missing := as_missing e @ cl_missing c,
            as_verdict := (if cl_missing c \<noteq> [] \<and> as_verdict e = VerdictVerified then VerdictUnverified else as_verdict e)\<rparr>)"

definition exit_code :: "net_assessment \<Rightarrow> int" where
  "exit_code a =
     (if \<not> as_cleanup a then 3
      else case as_verdict a of VerdictVerified \<Rightarrow> 0 | VerdictViolated \<Rightarrow> 1 | VerdictUnverified \<Rightarrow> 2)"

definition publish :: "verify_world \<Rightarrow> net_assessment \<Rightarrow> (int \<times> cli_output) \<times> record_dir" where
  "publish w a =
     (case prune_assessments (vw_uid w) (vw_record_dir w) (vw_listing w) (vw_now w 2) (vw_removes w) (vw_records w) of
        (Some e, d) \<Rightarrow> (fail_with e, d)
      | (None, d) \<Rightarrow>
          (case save_assessment (vw_save w) a d of
             (Some e, d1) \<Rightarrow> (fail_with e, d1)
           | (None, d1) \<Rightarrow> ((if \<not> vw_prints w then 3 else exit_code a, CliAssessment a), d1)))"

definition run_verify :: "hash_json \<Rightarrow> verify_world \<Rightarrow> verify_args \<Rightarrow> (int \<times> cli_output) \<times> record_dir" where
  "run_verify h w a =
     (let d = vw_records w in
      if va_operation a \<notin> {''gateway'', ''vpn'', ''access'', ''isolation''} then (fail_with NetInvalid, d)
      else if va_request_only a \<and> va_grant a \<noteq> [] then (fail_with NetInvalid, d)
      else case vw_baseline w of
        Some (Inl e) \<Rightarrow> (unknown_with e, d)
      | b \<Rightarrow>
          let baseline = (case b of Some (Inr x) \<Rightarrow> Some x | _ \<Rightarrow> None) in
          if (case baseline of Some x \<Rightarrow> as_synthetic x \<and> \<not> vw_fixture w | None \<Rightarrow> False)
          then (unknown_with NetUnsupported, d)
          else (case registry_question h (vw_uid w) (vw_registry w) (va_operation a) (va_target a) (va_from a) baseline of
            Inl e \<Rightarrow> (if e = NetInvalid then fail_with e else unknown_with e, d)
          | Inr q \<Rightarrow>
              if va_request_only a then
                ((if vw_prints w then 0 else 3,
                  CliRequest (qu_request q) (request_digest h (qu_request q) ''network.read'')
                    (request_digest h (qu_request q) ''network.probe'')), d)
              else if va_grant a = [] then (unknown_with NetMissing, d)
              else (case permit h (vw_uid w) (vw_registry w) (vw_state_before w) a baseline q ''network.read'' (vw_now w 0)
                       (vw_whoami w) of
                Some e \<Rightarrow> (unknown_with e, d)
              | None \<Rightarrow> publish w (assess h w a q (vw_collect w q)))))"

subsection \<open>The other commands\<close>

definition find_rule :: "net_rule list \<Rightarrow> string \<Rightarrow> net_rule option" where
  "find_rule rs name = List.find (\<lambda>r. ru_alias r = name \<or> nr_id (ru_ref r) = name) rs"

definition printed :: "bool \<Rightarrow> cli_output \<Rightarrow> int \<times> cli_output" where
  "printed prints v = (if prints then 0 else 3, v)"

definition run_inspect ::
    "hash_json \<Rightarrow> nat \<Rightarrow> registry_state net_file \<Rightarrow> bool \<Rightarrow> string \<Rightarrow> string \<Rightarrow> int \<times> cli_output" where
  "run_inspect h uid reg prints what name =
     (if what = ''tailscale'' then unknown_with NetUnsupported
      else if what = ''policy'' then
        (case registry_policies h uid reg of
           Inl e \<Rightarrow> fail_with e
         | Inr rs \<Rightarrow> (case find_rule rs name of None \<Rightarrow> fail_with NetMissing | Some r \<Rightarrow> printed prints (CliRule r)))
      else
        let k = (if what = ''gateway'' then KindGateway else if what = ''wireguard'' then KindVpn
                 else if what = ''network'' then KindNetwork else if what = ''vpn'' then KindVpn
                 else if what = ''service'' then KindService else if what = ''network_gateway'' then KindGateway
                 else KindOther what) in
        case registry_resolve h uid reg k name of
          Inl e \<Rightarrow> fail_with e
        | Inr x \<Rightarrow>
            if what = ''wireguard'' \<and> nb_protocol (no_binding_of x) \<noteq> ''wireguard'' then fail_with NetUnsupported
            else printed prints (CliInspection (inspect_object x)))"

definition run_discover :: "hash_json \<Rightarrow> nat \<Rightarrow> registry_state net_file \<Rightarrow> (string \<Rightarrow> bool) \<Rightarrow> bool \<Rightarrow> int \<times> cli_output" where
  "run_discover h uid reg present prints =
     (case discover h uid reg present of Inl e \<Rightarrow> fail_with e | Inr cs \<Rightarrow> printed prints (CliCandidates cs))"

text \<open>The import file is examined, then read; the registry is listed again after the import.\<close>

definition run_import ::
    "hash_json \<Rightarrow> net_io \<Rightarrow> (nat \<Rightarrow> string) \<Rightarrow> lstat_result \<Rightarrow> bool \<Rightarrow> (net_object list \<times> net_rule list) option \<Rightarrow> bool
     \<Rightarrow> registry_state net_file \<Rightarrow> (int \<times> cli_output) \<times> registry_state net_file" where
  "run_import h io buf info opens input prints f =
     (case info of
        Found n \<Rightarrow>
          if n_kind n \<noteq> RegularFile \<or> perm_of n \<noteq> 0x180 \<or> n_uid n \<noteq> ni_uid io then (fail_with NetUnsafe, f)
          else if \<not> opens then (fail_with NetInvalid, f)
          else (case import_registry h io buf input f of
            (Inl e, f1) \<Rightarrow> (fail_with e, f1)
          | (Inr _, f1) \<Rightarrow>
              (case registry_objects h (ni_uid io) f1 of
                 Inl e \<Rightarrow> (fail_with e, f1)
               | Inr xs \<Rightarrow> (printed prints (CliImported (length xs)), f1)))
      | _ \<Rightarrow> (fail_with NetUnsafe, f))"

subsection \<open>Names of candidates\<close>

lemma numbered_inj: "0 < m \<Longrightarrow> 0 < n \<Longrightarrow> numbered base m = numbered base n \<Longrightarrow> m = n"
  by (auto simp: numbered_def dec_nat_inj split: if_splits)

lemma free_name_free:
  "length (filter (\<lambda>x. \<exists>m \<ge> n. x = numbered base m) (remdups names)) \<le> fuel \<Longrightarrow> 0 < n \<Longrightarrow>
     free_name fuel names base n \<notin> set names"
proof (induction fuel arbitrary: n)
  case 0
  then have "\<forall>x \<in> set names. \<not> (\<exists>m \<ge> n. x = numbered base m)" by (simp add: filter_empty_conv)
  then show ?case by force
next
  case (Suc fuel)
  show ?case
  proof (cases "numbered base n \<in> set names")
    case True
    let ?P = "\<lambda>k x. \<exists>m \<ge> k. x = numbered base m"
    have "set (filter (?P (Suc n)) (remdups names)) \<subset> set (filter (?P n) (remdups names))"
    proof
      show "set (filter (?P (Suc n)) (remdups names)) \<subseteq> set (filter (?P n) (remdups names))" by (auto intro: Suc_leD)
      have "numbered base n \<notin> set (filter (?P (Suc n)) (remdups names))"
      proof
        assume "numbered base n \<in> set (filter (?P (Suc n)) (remdups names))"
        then obtain m where m: "m \<ge> Suc n" "numbered base n = numbered base m" by auto
        then have "n = m" by (intro numbered_inj [OF Suc.prems(2) _ m(2)]) simp
        then show False using m(1) by simp
      qed
      then show "set (filter (?P (Suc n)) (remdups names)) \<noteq> set (filter (?P n) (remdups names))" using True by auto
    qed
    then have "card (set (filter (?P (Suc n)) (remdups names))) < card (set (filter (?P n) (remdups names)))"
      by (rule psubset_card_mono [rotated]) simp
    then have "length (filter (?P (Suc n)) (remdups names)) < length (filter (?P n) (remdups names))"
      using distinct_card [of "filter (?P n) (remdups names)"] distinct_card [of "filter (?P (Suc n)) (remdups names)"] by simp
    then show ?thesis using Suc True by simp
  qed simp
qed

lemma free_name_new: "free_name (length names) names base 1 \<notin> set names"
  by (rule free_name_free) (auto intro: order_trans [OF length_filter_le length_remdups_leq])

text \<open>Every name handed out by \<open>Discover\<close> for a tool is new, and recorded as taken.\<close>

lemma add_tool_names:
  assumes "add_tool present (binary, base, k) (names, out) = (names1, out1)"
  shows "(names1 = names \<and> out1 = out)
    \<or> (\<exists>name. name \<notin> set names \<and> names1 = name # names \<and> out1 = out @ [tool_candidate name k])"
  using assms free_name_new by (auto simp: add_tool_def Let_def split: if_splits)

subsection \<open>Properties\<close>

lemma permit_same:
  assumes "registry_question h uid reg (va_operation a) (va_target a) (va_from a) baseline = Inr q"
  shows "permit h uid reg st a baseline q cap now whoami = authorize_observation h uid st (va_grant a) (qu_request q) cap now whoami"
  using assms by (simp add: permit_def)

lemma publish_cases:
  assumes "publish w x = ((code, out), d)" and "code = 0"
  shows "out = CliAssessment x \<and> exit_code x = 0
    \<and> map_of d (as_id x @ ''.json'') = Some (NetFile (saved_node (sv_uid (vw_save w))) (sv_size (vw_save w)) True (Some x))"
proof -
  obtain e d0 where p: "prune_assessments (vw_uid w) (vw_record_dir w) (vw_listing w) (vw_now w 2) (vw_removes w) (vw_records w) = (e, d0)"
    by fastforce
  obtain e1 d1 where sv: "save_assessment (vw_save w) x d0 = (e1, d1)" by fastforce
  have "e = None" "e1 = None" "out = CliAssessment x" "exit_code x = 0" "d = d1"
    using assms p sv by (auto simp: publish_def fail_with_def split: option.splits if_splits)
  moreover have "map_of d1 (as_id x @ ''.json'') = Some (NetFile (saved_node (sv_uid (vw_save w))) (sv_size (vw_save w)) True (Some x))"
    using save_assessment_cases [of "vw_save w" x d0] sv \<open>e1 = None\<close> by auto
  ultimately show ?thesis by simp
qed

lemma exit_code_0: "exit_code x = 0 \<longleftrightarrow> as_cleanup x \<and> as_verdict x = VerdictVerified"
  by (auto simp: exit_code_def split: verdict.splits)

lemma evaluate_fixed [simp]:
  "as_id (evaluate_evidence h buf q facts now c fx) = new_id ''nver'' buf"
  "as_cleanup (evaluate_evidence h buf q facts now c fx) = c"
proof -
  define fixed where "fixed a = (as_id a, as_cleanup a)" for a :: net_assessment
  have facts: "fixed (snd (fold use_fact fs (r, a))) = fixed a" for fs r a
  proof (induction fs arbitrary: r a)
    case (Cons f fs)
    obtain r1 a1 where u: "use_fact f (r, a) = (r1, a1)" by fastforce
    then have "fixed a1 = fixed a" by (auto simp: fixed_def use_fact_def Let_def split: if_splits)
    then show ?case using Cons [of r1 a1] u by simp
  qed simp
  have mark [simp]: "fixed (mark_missing p a) = fixed a" for p a by (simp add: fixed_def mark_missing_def)
  have one [simp]: "fixed (eval_property h q fs now fx sc p a) = fixed a" for fs sc p a
  proof -
    let ?r = "\<lparr>pr_property = p, pr_tuple = sc, pr_state = ''missing'', pr_evidence = [], pr_assurance = []\<rparr>"
    obtain r1 a1 where f: "fold use_fact (filter (fact_counts h q now fx p sc) fs) (?r, a) = (r1, a1)" by fastforce
    then have "fixed a1 = fixed a" using facts [of "filter (fact_counts h q now fx p sc) fs" ?r a] by simp
    then show ?thesis using f mark [of p a1] by (simp add: eval_property_def Let_def fixed_def)
  qed
  have many [simp]: "fixed (fold (eval_property h q fs now fx sc) ps a) = fixed a" for fs sc ps a
    by (induction ps arbitrary: a) simp_all
  have scope [simp]: "fixed (eval_scope h q fs now fx s a) = fixed a" for fs s a
    by (cases s) (simp add: eval_scope_def Let_def)
  have all: "fixed (fold (eval_scope h q fs now fx) ss a) = fixed a" for fs ss a
    by (induction ss arbitrary: a) simp_all
  have "fixed (evaluate_evidence h buf q facts now c fx) = fixed (new_assessment buf q now c fx)"
    using all by (simp add: evaluate_evidence_def Let_def) (simp add: fixed_def)
  then show "as_id (evaluate_evidence h buf q facts now c fx) = new_id ''nver'' buf"
    "as_cleanup (evaluate_evidence h buf q facts now c fx) = c"
    by (simp_all add: fixed_def new_assessment_def)
qed

lemma scope_exists:
  assumes "oq_required q \<noteq> []" and "\<forall>sc \<in> set (scopes q). scope_listed h q sc"
  shows "\<exists>sc \<in> set (scopes q). required_of h q (fst sc) \<noteq> []"
proof -
  obtain sc where sc: "sc \<in> set (scopes q)"
    by (cases "oq_tuples q") (auto simp: scopes_def)
  then show ?thesis using assms by (intro bexI [OF _ sc]) (auto simp: scope_listed_def required_of_def)
qed

text \<open>
  (C28) Exit code 0 of \<open>verify\<close> means one of two things. With \<open>--request\<close> and no grant, the question was
  built and printed with the two digests a grant has to carry; nothing is authorised, collected,
  assessed or stored. Without it, the question was built and authorised by the grant before
  collecting, the grant was still readable afterwards and its window not over, the collection was
  complete and clean, the evidence with its validity cut at that window verifies the request, and
  the assessment that says so is stored under its identifier.
\<close>

theorem exit_zero_sound:
  assumes run: "run_verify h w a = ((0, out), d)"
  shows "\<exists>q. registry_question h (vw_uid w) (vw_registry w) (va_operation a) (va_target a) (va_from a)
        (case vw_baseline w of Some (Inr x) \<Rightarrow> Some x | _ \<Rightarrow> None) = Inr q
    \<and> (if va_request_only a
       then va_grant a = [] \<and> d = vw_records w
         \<and> out = CliRequest (qu_request q) (request_digest h (qu_request q) ''network.read'') (request_digest h (qu_request q) ''network.probe'')
       else \<exists>g x.
           authorize_observation h (vw_uid w) (vw_state_before w) (va_grant a) (qu_request q) ''network.read'' (vw_now w 0) (vw_whoami w) = None
         \<and> read_grant_projection (vw_uid w) (vw_state_after w) (va_grant a) = Inr g
         \<and> vw_now w 1 \<le> window_end (spend_policy (g_pins g))
         \<and> cl_missing (vw_collect w q) = [] \<and> cl_cleanup (vw_collect w q)
         \<and> as_verdict (evaluate_evidence h (vw_random w) (qu_request q)
              (map (clamp_fact (window_end (spend_policy (g_pins g)))) (cl_facts (vw_collect w q))) (vw_now w 1) True (vw_fixture w)) = VerdictVerified
         \<and> out = CliAssessment x \<and> as_verdict x = VerdictVerified
         \<and> map_of d (as_id x @ ''.json'') = Some (NetFile (saved_node (sv_uid (vw_save w))) (sv_size (vw_save w)) True (Some x)))"
proof (cases "va_request_only a")
  case True
  then show ?thesis
    using run unfolding run_verify_def
    by (auto simp: Let_def fail_with_def unknown_with_def split: if_splits option.splits sum.splits)
next
  case obs: False
  let ?baseline = "case vw_baseline w of Some (Inr x) \<Rightarrow> Some x | _ \<Rightarrow> None"
  obtain q where q: "registry_question h (vw_uid w) (vw_registry w) (va_operation a) (va_target a) (va_from a) ?baseline = Inr q"
    and perm: "permit h (vw_uid w) (vw_registry w) (vw_state_before w) a ?baseline q ''network.read'' (vw_now w 0) (vw_whoami w) = None"
    and pub: "publish w (assess h w a q (vw_collect w q)) = ((0, out), d)"
    using run obs unfolding run_verify_def
    by (auto simp: Let_def fail_with_def unknown_with_def split: if_splits option.splits sum.splits)
  define x where "x = assess h w a q (vw_collect w q)"
  note pc = publish_cases [OF pub refl, folded x_def]
  then have xv: "as_cleanup x" "as_verdict x = VerdictVerified" by (simp_all add: exit_code_0)
  obtain g where g: "read_grant_projection (vw_uid w) (vw_state_after w) (va_grant a) = Inr g"
    using xv by (cases "read_grant_projection (vw_uid w) (vw_state_after w) (va_grant a)") (auto simp: x_def assess_def Let_def split: if_splits)
  let ?stop = "window_end (spend_policy (g_pins g))" and ?c = "vw_collect w q"
  let ?facts = "map (clamp_fact ?stop) (cl_facts ?c)"
  have clean: "cl_cleanup ?c" "cl_missing ?c = []"
    and v: "as_verdict (evaluate_evidence h (vw_random w) (qu_request q) ?facts (vw_now w 1) True (vw_fixture w)) = VerdictVerified"
    using xv g by (auto simp: x_def assess_def Let_def split: if_splits)
  have req: "oq_required (qu_request q) \<noteq> []" and all: "\<forall>sc \<in> set (scopes (qu_request q)). scope_listed h (qu_request q) sc
      \<and> (\<forall>p \<in> set (required_of h (qu_request q) (fst sc)). supports h (qu_request q) ?facts (vw_now w 1) (vw_fixture w) (snd sc) p)"
    using v unfolding evaluate_verdict by blast+
  obtain sc p where "sc \<in> set (scopes (qu_request q))" "p \<in> set (required_of h (qu_request q) (fst sc))"
    using scope_exists [OF req] all by (metis list.set_intros(1) neq_Nil_conv)
  then obtain f where f: "f \<in> set ?facts" "fact_counts h (qu_request q) (vw_now w 1) (vw_fixture w) p (snd sc) f"
    using all unfolding supports_def by blast
  have "nf_valid_until f \<le> ?stop" using f(1) by (auto simp: clamp_fact_def)
  moreover have "vw_now w 1 \<le> nf_valid_until f" using f(2) by (auto simp: fact_counts_def valid_fact_def split: if_splits)
  ultimately have "vw_now w 1 \<le> ?stop" by simp
  then show ?thesis using q perm [unfolded permit_same [OF q]] g clean v pc xv obs
    by (intro exI [of _ q]) simp
qed


subsection \<open>Witnesses\<close>

definition sample_net_args :: verify_args where
  "sample_net_args = \<lparr>va_operation = ''gateway'', va_target = ''home'', va_from = [], va_grant = ''grt_1'', va_request_only = False\<rparr>"

definition sample_collect :: "net_question \<Rightarrow> collection" where
  "sample_collect q =
     \<lparr>cl_facts = map (\<lambda>p. new_fact sample_net_hash p (qu_request q) None True 1000 ''runtime_validated'') (oq_required (qu_request q)),
      cl_cleanup = True, cl_missing = [], cl_capabilities = []\<rparr>"

definition sample_net_world :: verify_world where
  "sample_net_world =
     \<lparr>vw_uid = 7, vw_registry = NetFile (saved_node 7) 9 True (Some gateway_registry),
      vw_state_before = NetFile (saved_node 7) 9 True (Some [sample_net_grant]),
      vw_state_after = NetFile (saved_node 7) 9 True (Some [sample_net_grant]), vw_baseline = None,
      vw_now = (\<lambda>i. if i = 0 then 1000 else 2000), vw_whoami = Some ''ck_sub_a'', vw_collect = sample_collect, vw_random = ''a'',
      vw_fixture = False, vw_records = [], vw_record_dir = Missing, vw_listing = None, vw_removes = (\<lambda>_. True),
      vw_save = \<lparr>sv_uid = 7, sv_mkdir = True, sv_dir = Found \<lparr>n_kind = Directory, n_uid = 7, n_perm = 0x1C0\<rparr>, sv_written = True,
                 sv_links = True, sv_synced = True, sv_size = 9\<rparr>, vw_prints = True\<rparr>"

definition sample_question :: net_question where
  "sample_question =
     \<lparr>qu_request =
        \<lparr>oq_operation = ''gateway'', oq_target = no_ref_of sample_gateway, oq_source = no_ref,
         oq_objects = [lan_ref, no_ref_of sample_gateway], oq_policies = [], oq_tuples = [],
         oq_required = net_properties ''gateway'' False False, oq_tuple_required = [], oq_metadata_digest = ''h''\<rparr>,
      qu_target = sample_gateway, qu_source = no_object, qu_service = no_object, qu_gateway = sample_gateway,
      qu_vpn = no_object, qu_control = no_object, qu_resolved = [], qu_baseline = None, qu_seal = None\<rparr>"

lemma sample_question_built: "gateway_q = Inr sample_question"
  unfolding gateway_q_def registry_question_def gateway_load also_then_def sum.case by code_simp

lemma sample_hash: "sample_net_hash = (\<lambda>_. ''h'')"
  by (simp add: fun_eq_iff sample_net_hash_def)

lemma sample_exit_0: "fst (fst (run_verify sample_net_hash sample_net_world sample_net_args)) = 0"
proof -
  have q: "registry_question sample_net_hash 7 (NetFile (saved_node 7) 9 True (Some gateway_registry)) ''gateway'' ''home'' [] None
      = Inr sample_question" using sample_question_built by (simp add: gateway_q_def)
  have sub: "resolve_subject [] True (Some ''ck_sub_a'') = Inr ''ck_sub_a''" by code_simp
  have read: "read_grant_projection 7 (NetFile (saved_node 7) 9 True (Some [sample_net_grant])) ''grt_1'' = Inr sample_net_grant"
    by (simp add: read_grant_projection_def sample_net_safe sample_net_fields)
  have auth: "authorize_observation sample_net_hash 7 (NetFile (saved_node 7) 9 True (Some [sample_net_grant])) ''grt_1''
      (qu_request sample_question) ''network.read'' 1000 (Some ''ck_sub_a'') = None"
    unfolding authorize_observation_def read sample_hash
    using sub sample_net_admits [of "qu_request sample_question"] by (simp add: evaluate_decision_cases)
  define x where "x = assess sample_net_hash sample_net_world sample_net_args sample_question (sample_collect sample_question)"
  have ev: "as_verdict (evaluate_evidence sample_net_hash ''a'' (qu_request sample_question)
      (map (clamp_fact 5000) (cl_facts (sample_collect sample_question))) 2000 True False) = VerdictVerified" by code_simp
  have e: "window_end (spend_policy (g_pins sample_net_grant)) = 5000" by (simp add: sample_net_grant_def sample_pins_net_def)
  have w: "vw_uid sample_net_world = 7" "vw_state_after sample_net_world = NetFile (saved_node 7) 9 True (Some [sample_net_grant])"
    "vw_now sample_net_world (Suc 0) = 2000" "vw_random sample_net_world = ''a''" "\<not> vw_fixture sample_net_world"
    "va_grant sample_net_args = ''grt_1''"
    by (simp_all add: sample_net_world_def sample_net_args_def)
  have x: "as_verdict x = VerdictVerified" "as_cleanup x"
    using ev by (simp_all add: x_def assess_def w read e Let_def sample_collect_def)
  have i: "as_id x = new_id ''nver'' ''a''"
    by (simp add: x_def assess_def w read Let_def)
  have sv: "fst (save_assessment (vw_save sample_net_world) x []) = None"
  proof -
    have "valid_receipt_id (as_id x)" unfolding i by code_simp
    moreover have "private_net_dir (Found \<lparr>n_kind = Directory, n_uid = 7, n_perm = 0x1C0\<rparr>)"
      by (simp add: private_net_dir_def perm_of_def)
    ultimately show ?thesis by (simp add: save_assessment_def sample_net_world_def Let_def)
  qed
  have pub: "fst (fst (publish sample_net_world x)) = 0"
    using sv x by (auto simp: publish_def prune_assessments_def sample_net_world_def exit_code_0 split: prod.splits option.splits)
  have "run_verify sample_net_hash sample_net_world sample_net_args = publish sample_net_world x"
    using q auth permit_same [of sample_net_hash 7 _ sample_net_args None]
    by (simp add: run_verify_def x_def sample_net_world_def sample_net_args_def Let_def)
  then show ?thesis using pub by simp
qed

lemma exit_zero_sound_witness:
  "\<exists>x. snd (fst (run_verify sample_net_hash sample_net_world sample_net_args)) = CliAssessment x \<and> as_verdict x = VerdictVerified"
proof -
  obtain out d where r: "run_verify sample_net_hash sample_net_world sample_net_args = ((0, out), d)"
    using sample_exit_0 by (metis prod.collapse)
  show ?thesis using exit_zero_sound [OF r] r by (auto simp: sample_net_args_def)
qed

end
