(* ===== verification/DnsWire.thy ===== *)
theory DnsWire
  imports NetTypes
begin

unbundle bit_operations_syntax

text \<open>
  Package \<open>internal/netpolicy\<close>, DNS messages on the wire (\<open>dns.go\<close>): the query of a probe, the
  decompression of names, the parser of responses, and what a probe reports.

  A slice expression outside of the data panics in Go. Here every read of the data goes through
  \<open>byte_at\<close> or \<open>slice\<close>, which return the error \<open>OutOfRange\<close> there, so that the absence of a panic
  is a statement about the parser. The bounds the code tests before a read are tested as it does.
\<close>

subsection \<open>Reads of a byte slice\<close>

datatype dns_fault = DnsError net_error | OutOfRange

abbreviation DnsInvalid :: dns_fault where "DnsInvalid \<equiv> DnsError NetInvalid"
abbreviation DnsUnsupported :: dns_fault where "DnsUnsupported \<equiv> DnsError NetUnsupported"

definition byte_at :: "string \<Rightarrow> nat \<Rightarrow> dns_fault + nat" where
  "byte_at d i = (if i < length d then Inr (byte (d ! i)) else Inl OutOfRange)"

definition slice :: "string \<Rightarrow> nat \<Rightarrow> nat \<Rightarrow> dns_fault + string" where
  "slice d a b = (if a \<le> b \<and> b \<le> length d then Inr (take (b - a) (drop a d)) else Inl OutOfRange)"

text \<open>\<open>binary.BigEndian.Uint16\<close> and \<open>Uint32\<close> of the \<open>n\<close> bytes at an offset.\<close>

definition be_at :: "string \<Rightarrow> nat \<Rightarrow> nat \<Rightarrow> dns_fault + nat" where
  "be_at d off n = also_then (slice d off (off + n)) (\<lambda>s. Inr (be_value s))"

subsection \<open>Queries\<close>

definition label_ok :: "string \<Rightarrow> bool" where
  "label_ok l \<longleftrightarrow> l \<noteq> [] \<and> length l \<le> 63 \<and> list_all (\<lambda>c. is_lower c \<or> is_digit c \<or> c = CHR ''-'') l"

definition wire_label :: "string \<Rightarrow> string" where
  "wire_label l = char_of (length l) # l"

definition dns_question_tail :: string where
  "dns_question_tail = map char_of [0, 0, 1, 0, 1 :: nat]"

definition dns_opt_record :: string where
  "dns_opt_record = map char_of [0, 0, 41, 4, 208, 0, 0, 0, 0, 0, 0 :: nat]"

text \<open>The twelve bytes of a header, from its six words.\<close>

definition dns_header :: "nat list \<Rightarrow> string" where
  "dns_header ws = concat (map (be_bytes 2) ws)"

text \<open>\<open>rand.Read\<close> of the two bytes of the identifier fails with \<open>None\<close>.\<close>

definition dns_query :: "string option \<Rightarrow> string \<Rightarrow> dns_fault + string \<times> nat" where
  "dns_query random domain =
     (let d = to_lower (trim_suffix domain ''.'') in
      if length d > 253 \<or> d = [] then Inl DnsInvalid
      else case random of
        None \<Rightarrow> Inl DnsUnsupported
      | Some r \<Rightarrow>
          let i = be_value (take 2 r); labels = split_on CHR ''.'' d in
          if list_all label_ok labels
          then Inr (dns_header [i, 0x100, 1, 0, 0, 1] @ concat (map wire_label labels)
                    @ dns_question_tail @ dns_opt_record, i)
          else Inl DnsInvalid)"

subsection \<open>Names\<close>

text \<open>
  One turn of the loop of \<open>dnsName\<close>: the name is complete, or the loop goes on at another offset.
  \<open>stop\<close> is the variable \<open>end\<close>, with \<open>None\<close> for -1.
\<close>

datatype name_turn = NameDone string nat | NameNext nat "nat option" "string list"

definition name_step :: "string \<Rightarrow> nat \<Rightarrow> nat option \<Rightarrow> string list \<Rightarrow> dns_fault + name_turn" where
  "name_step data off stop labels =
     also_then (byte_at data off) (\<lambda>n.
       if n AND 192 = 192 then
         (if off + 1 \<ge> length data then Inl DnsInvalid
          else also_then (byte_at data (off + 1)) (\<lambda>b.
            Inr (NameNext ((n AND 63) * 256 + b) (Some (case stop of None \<Rightarrow> off + 2 | Some e \<Rightarrow> e)) labels)))
       else if n AND 192 \<noteq> 0 \<or> off + 1 + n > length data then Inl DnsInvalid
       else if n = 0 then
         (let name = to_lower (join_with ''.'' labels) in
          if length name > 253 then Inl DnsInvalid
          else Inr (NameDone name (case stop of None \<Rightarrow> off + 1 | Some e \<Rightarrow> e)))
       else also_then (slice data (off + 1) (off + 1 + n)) (\<lambda>l.
         if list_ex (\<lambda>c. byte c < 33 \<or> byte c > 126) l then Inl DnsInvalid
         else Inr (NameNext (off + 1 + n) stop (labels @ [l]))))"

fun name_loop :: "nat \<Rightarrow> string \<Rightarrow> nat \<Rightarrow> nat option \<Rightarrow> nat list \<Rightarrow> string list \<Rightarrow> dns_fault + string \<times> nat" where
  "name_loop 0 data off stop seen labels = Inl DnsInvalid"
| "name_loop (Suc k) data off stop seen labels =
     (if off \<ge> length data \<or> off \<in> set seen then Inl DnsInvalid
      else case name_step data off stop labels of
        Inl e \<Rightarrow> Inl e
      | Inr (NameDone name next) \<Rightarrow> Inr (name, next)
      | Inr (NameNext off1 stop1 labels1) \<Rightarrow> name_loop k data off1 stop1 (off # seen) labels1)"

definition dns_name :: "string \<Rightarrow> nat \<Rightarrow> dns_fault + string \<times> nat" where
  "dns_name data off = name_loop 128 data off None [] []"

subsection \<open>Responses\<close>

record dns_result =
  dr_valid :: bool
  dr_filter :: bool
  dr_rcode :: nat

text \<open>One option of an OPT record: where the next one starts, and whether it reports filtering.\<close>

definition option_step :: "string \<Rightarrow> nat \<Rightarrow> nat \<Rightarrow> dns_fault + nat \<times> bool" where
  "option_step data pos stop =
     (if pos + 4 > stop then Inl DnsInvalid
      else also_then (be_at data pos 2) (\<lambda>code.
           also_then (be_at data (pos + 2) 2) (\<lambda>n.
             if pos + 4 + n > stop then Inl DnsInvalid
             else if code = 15 \<and> n \<ge> 2
             then also_then (be_at data (pos + 4) 2) (\<lambda>ede. Inr (pos + 4 + n, ede = 15 \<or> ede = 17))
             else Inr (pos + 4 + n, False))))"

lemma option_step_moves: "option_step data pos stop = Inr (p, b) \<Longrightarrow> pos < p \<and> p \<le> stop"
  by (auto simp: option_step_def split: if_splits)

function options_loop :: "string \<Rightarrow> nat \<Rightarrow> nat \<Rightarrow> bool \<Rightarrow> dns_fault + bool" where
  "options_loop data pos stop filtered =
     (if pos < stop then
        (case option_step data pos stop of
           Inl e \<Rightarrow> Inl e
         | Inr (p, b) \<Rightarrow> options_loop data p stop (filtered \<or> b))
      else Inr filtered)"
  by pat_completeness auto
termination
  by (relation "measure (\<lambda>(data, pos, stop, filtered). stop - pos)") (auto dest!: option_step_moves)

declare options_loop.simps [simp del]

text \<open>The records of a response; \<open>extra\<close> is the index of the first additional one.\<close>

definition record_step :: "string \<Rightarrow> nat \<Rightarrow> nat \<Rightarrow> nat \<times> bool \<times> bool \<Rightarrow> dns_fault + nat \<times> bool \<times> bool" where
  "record_step data extra i st =
     (case st of (off0, opt, filtered) \<Rightarrow>
        also_then (dns_name data off0) (\<lambda>(name, off).
        also_then (require (off + 10 \<le> length data) DnsInvalid) (\<lambda>_.
        also_then (be_at data off 2) (\<lambda>typ.
        also_then (be_at data (off + 4) 4) (\<lambda>ttl.
        also_then (be_at data (off + 8) 2) (\<lambda>len.
          let stop = off + 10 + len in
          if stop > length data then Inl DnsInvalid
          else if typ = 41 then
            (if opt \<or> name \<noteq> [] \<or> i < extra \<or> drop_bit 16 ttl \<noteq> 0 then Inl DnsInvalid
             else also_then (options_loop data (off + 10) stop filtered) (\<lambda>f. Inr (stop, True, f)))
          else Inr (stop, opt, filtered)))))))"

fun records_loop :: "string \<Rightarrow> nat \<Rightarrow> nat list \<Rightarrow> nat \<times> bool \<times> bool \<Rightarrow> dns_fault + nat \<times> bool \<times> bool" where
  "records_loop data extra [] st = Inr st"
| "records_loop data extra (i # is) st = also_then (record_step data extra i st) (records_loop data extra is)"

definition parse_dns :: "string \<Rightarrow> nat \<Rightarrow> string \<Rightarrow> dns_fault + dns_result" where
  "parse_dns data i domain =
     also_then (require (length data \<ge> 12) DnsInvalid) (\<lambda>_.
     also_then (be_at data 0 2) (\<lambda>got.
     also_then (require (got = i) DnsInvalid) (\<lambda>_.
     also_then (be_at data 2 2) (\<lambda>flags.
     also_then (be_at data 4 2) (\<lambda>qd.
     also_then (be_at data 6 2) (\<lambda>an.
     also_then (be_at data 8 2) (\<lambda>ns.
     also_then (be_at data 10 2) (\<lambda>ar.
     also_then (require (flags AND 0x8000 \<noteq> 0 \<and> flags AND 0x7a40 = 0 \<and> qd = 1 \<and> an + ns + ar \<le> 128) DnsInvalid) (\<lambda>_.
     also_then (dns_name data 12) (\<lambda>(name, off).
     also_then (require (name = to_lower domain \<and> off + 4 \<le> length data) DnsInvalid) (\<lambda>_.
     also_then (be_at data off 2) (\<lambda>typ.
     also_then (be_at data (off + 2) 2) (\<lambda>cls.
     also_then (require (typ = 1 \<and> cls = 1) DnsInvalid) (\<lambda>_.
     also_then (records_loop data (an + ns) [0..<an + ns + ar] (off + 4, False, False)) (\<lambda>(stop, opt, filtered).
     also_then (require (stop = length data) DnsInvalid) (\<lambda>_.
       Inr \<lparr>dr_valid = True, dr_filter = filtered, dr_rcode = flags AND 15\<rparr>))))))))))))))))"

subsection \<open>Probes (probeDNS, challenge)\<close>

record probe_result =
  pr_responded :: bool
  pr_silent :: bool
  pr_filtered :: bool
  pr_usable :: bool
  pr_start :: time
  pr_end :: time

datatype dial_result = Dialled | DialUnsupported | DialSilent

text \<open>
  What the system answers during a probe: the random bytes, the error of entering the namespace or of
  leaving it, the result of dialling, of writing the message and of reading, and whether the context
  is over when dialling or reading fails. \<open>pw_reply\<close> is what the service sends, given the message it got, as the chunks
  \<open>Read\<close> and \<open>ReadFull\<close> return: for TCP the two bytes of the length and the message after it.
\<close>

record probe_world =
  pw_random :: "string option"
  pw_enter :: "net_error option"
  pw_leave :: bool
  pw_dial :: dial_result
  pw_written :: bool
  pw_reply :: "string \<Rightarrow> string option"
  pw_size :: "string option"
  pw_cancelled :: bool
  pw_start :: time
  pw_end :: time

text \<open>What \<open>bindSocketToInterface\<close> asks of the name before it binds the socket.\<close>

definition interface_ok :: "string \<Rightarrow> bool" where
  "interface_ok name \<longleftrightarrow> native_ok name \<and> length name \<le> 15"

definition probe_silent :: "probe_result \<Rightarrow> probe_result" where
  "probe_silent r = r\<lparr>pr_silent := True\<rparr>"

definition probe_message :: "string \<Rightarrow> string \<Rightarrow> string" where
  "probe_message transport q = (if transport = ''tcp'' then be_bytes 2 (length q) @ q else q)"

text \<open>The data of the response: \<open>Inl\<close> is the error for a bad length, \<open>None\<close> a failed read.\<close>

definition probe_read :: "probe_world \<Rightarrow> string \<Rightarrow> string \<Rightarrow> dns_fault + string option" where
  "probe_read w transport m =
     (if transport = ''tcp'' then
        (case pw_size w of
           None \<Rightarrow> Inr None
         | Some s \<Rightarrow>
             let n = be_value s in
             if n < 12 \<or> n > 4096 then Inl DnsInvalid
             else Inr (case pw_reply w m of None \<Rightarrow> None | Some d \<Rightarrow> if length d < n then None else Some (take n d)))
      else Inr (map_option (take 4096) (pw_reply w m)))"

definition probe_exchange ::
    "probe_world \<Rightarrow> string \<Rightarrow> string \<Rightarrow> string \<Rightarrow> string \<Rightarrow> string \<Rightarrow> string \<Rightarrow> nat \<Rightarrow> probe_result
     \<Rightarrow> dns_fault option \<times> probe_result" where
  "probe_exchange w interface source target transport domain q i r =
     (case parse_addr source of
        None \<Rightarrow> (Some (DnsError NetMissing), r)
      | Some a \<Rightarrow>
     (case parse_addr target of
        None \<Rightarrow> (Some DnsUnsupported, r)
      | Some b \<Rightarrow>
          if is_v4 a \<noteq> is_v4 b then (Some DnsUnsupported, r)
          else if transport \<noteq> ''udp'' \<and> transport \<noteq> ''tcp'' then (Some DnsUnsupported, r)
          else if \<not> interface_ok interface
          then if pw_cancelled w then (Some DnsUnsupported, r) else (None, probe_silent r)
          else case pw_dial w of
            DialUnsupported \<Rightarrow> (Some DnsUnsupported, r)
          | DialSilent \<Rightarrow> (None, probe_silent r)
          | Dialled \<Rightarrow>
              if \<not> pw_written w then (None, probe_silent r)
              else case probe_read w transport (probe_message transport q) of
                Inl e \<Rightarrow> (Some e, r)
              | Inr None \<Rightarrow> if pw_cancelled w then (Some DnsUnsupported, r) else (None, probe_silent r)
              | Inr (Some d) \<Rightarrow>
                  (case parse_dns d i domain of
                     Inl e \<Rightarrow> (Some e, r)
                   | Inr x \<Rightarrow>
                       let ok = dr_rcode x = 0 \<or> dr_rcode x = 3 in
                       (None, r\<lparr>pr_responded := dr_valid x, pr_filtered := dr_filter x \<and> ok, pr_usable := ok\<rparr>))))"

definition probe_dns :: "probe_world \<Rightarrow> string \<Rightarrow> string \<Rightarrow> string \<Rightarrow> string \<Rightarrow> string \<Rightarrow> dns_fault option \<times> probe_result" where
  "probe_dns w interface source target transport domain =
     (let r = \<lparr>pr_responded = False, pr_silent = False, pr_filtered = False, pr_usable = False,
               pr_start = pw_start w, pr_end = zero_time\<rparr> in
      case dns_query (pw_random w) domain of
        Inl e \<Rightarrow> (Some e, r)
      | Inr (q, i) \<Rightarrow>
          (case pw_enter w of
             Some e \<Rightarrow> (Some (DnsError e), r\<lparr>pr_end := pw_end w\<rparr>)
           | None \<Rightarrow>
               (case probe_exchange w interface source target transport domain q i r of
                  (e, r1) \<Rightarrow>
                    (if pw_leave w then e else Some (DnsError NetUnsafe), r1\<lparr>pr_end := pw_end w\<rparr>))))"

definition challenge :: "string option \<Rightarrow> string" where
  "challenge random =
     (case random of None \<Rightarrow> [] | Some d \<Rightarrow> ''pins-'' @ hex_encode (take 12 d) @ ''.invalid'')"

subsection \<open>No read outside of the data\<close>

lemma also_then_Inl: "also_then m k = Inl e \<longleftrightarrow> m = Inl e \<or> (\<exists>x. m = Inr x \<and> k x = Inl e)"
  by (cases m) (auto simp: also_then_def)

lemma require_Inl: "require b e = Inl e' \<longleftrightarrow> \<not> b \<and> e' = e"
  by (auto simp: require_def)

lemma be_at_fails: "be_at d off n = Inl e \<longleftrightarrow> length d < off + n \<and> e = OutOfRange"
  by (auto simp: be_at_def slice_def also_then_Inl)

lemma be_at_Inr: "be_at d off n = Inr v \<longleftrightarrow> off + n \<le> length d \<and> v = be_value (take n (drop off d))"
  by (auto simp: be_at_def slice_def)

lemmas read_results = also_then_Inl require_Inl be_at_fails be_at_Inr byte_at_def slice_def

lemma name_step_in_range: "off < length data \<Longrightarrow> name_step data off stop labels \<noteq> Inl OutOfRange"
  by (auto simp: name_step_def Let_def read_results split: if_splits)

lemma name_step_done:
  "name_step data off stop labels = Inr (NameDone name next) \<Longrightarrow>
     length name \<le> 253 \<and> next = (case stop of None \<Rightarrow> off + 1 | Some e \<Rightarrow> e) \<and> off < length data"
  by (auto simp: name_step_def Let_def byte_at_def split: if_splits)

lemma name_step_next:
  "name_step data off stop labels = Inr (NameNext off1 stop1 labels1) \<Longrightarrow>
     (stop1 = stop \<and> off < off1) \<or> (off + 2 \<le> length data \<and> stop1 = Some (case stop of None \<Rightarrow> off + 2 | Some e \<Rightarrow> e))"
  by (auto simp: name_step_def Let_def byte_at_def split: if_splits option.splits)

lemma name_loop_in_range: "name_loop k data off stop seen labels \<noteq> Inl OutOfRange"
  by (induction k data off stop seen labels rule: name_loop.induct)
    (auto simp: name_step_in_range split: sum.splits name_turn.splits)

lemma name_loop_result:
  assumes "name_loop k data off stop seen labels = Inr (name, next)" and "\<forall>e. stop = Some e \<longrightarrow> e \<le> length data"
  shows "length name \<le> 253 \<and> next \<le> length data \<and> (case stop of None \<Rightarrow> off < next | Some e \<Rightarrow> next = e)"
  using assms
proof (induction k data off stop seen labels rule: name_loop.induct)
  case (2 k data off stop seen labels)
  show ?case
  proof (cases "name_step data off stop labels")
    case (Inl e)
    then show ?thesis using 2 by (simp split: if_splits)
  next
    case (Inr turn)
    show ?thesis
    proof (cases turn)
      case (NameDone nm nx)
      then show ?thesis using 2 name_step_done [of data off stop labels nm nx] Inr
        by (auto split: if_splits option.splits)
    next
      case (NameNext off1 stop1 labels1)
      then have "name_loop k data off1 stop1 (off # seen) labels1 = Inr (name, next)"
        and r: "\<not> (off \<ge> length data \<or> off \<in> set seen)"
        using 2 Inr by (auto split: if_splits)
      moreover note name_step_next [OF Inr [unfolded NameNext]]
      ultimately show ?thesis using "2.IH" [OF r Inr NameNext] 2
        by (auto split: option.splits)
    qed
  qed
qed simp

lemma dns_name_result:
  "dns_name data off = Inr (name, next) \<Longrightarrow> length name \<le> 253 \<and> off < next \<and> next \<le> length data"
  unfolding dns_name_def by (drule name_loop_result) simp_all

lemma option_step_in_range: "stop \<le> length data \<Longrightarrow> option_step data pos stop \<noteq> Inl OutOfRange"
  by (auto simp: option_step_def read_results split: if_splits)

lemma options_loop_in_range: "stop \<le> length data \<Longrightarrow> options_loop data pos stop filtered \<noteq> Inl OutOfRange"
proof (induction data pos stop filtered rule: options_loop.induct)
  case (1 data pos stop filtered)
  then show ?case using option_step_in_range [of stop data pos]
    by (subst options_loop.simps) (auto split: sum.splits)
qed

lemma record_step_in_range: "record_step data extra i st \<noteq> Inl OutOfRange"
  by (cases st)
    (auto simp: record_step_def Let_def read_results dns_name_def name_loop_in_range options_loop_in_range
      split: if_splits)

lemma records_loop_in_range: "records_loop data extra is st \<noteq> Inl OutOfRange"
  by (induction "is" arbitrary: st) (auto simp: read_results record_step_in_range)

lemma dns_name_in_range [simp]: "dns_name data off \<noteq> Inl OutOfRange"
  by (simp add: dns_name_def name_loop_in_range)

text \<open>
  (C31) The parser of responses never panics: on every byte sequence, identifier and domain, all reads
  stay inside the data, although lengths, pointers and counts come from the sender. A name that is
  read has at most 253 bytes and ends inside the data, behind its start. A response that is accepted
  has the identifier of the query, is a response with exactly one question, and reports a code below 16.
\<close>

theorem dns_parser_in_range:
  "parse_dns data i domain \<noteq> Inl OutOfRange \<and> dns_name data off \<noteq> Inl OutOfRange
   \<and> (\<forall>name next. dns_name data off = Inr (name, next) \<longrightarrow> length name \<le> 253 \<and> off < next \<and> next \<le> length data)
   \<and> (\<forall>r. parse_dns data i domain = Inr r \<longrightarrow>
        be_value (take 2 data) = i \<and> be_value (take 2 (drop 4 data)) = 1 \<and> dr_valid r \<and> dr_rcode r < 16)"
proof -
  have "flags AND 15 < (16 :: nat)" for flags :: nat
    using take_bit_eq_mask [of 4 flags] by (simp add: take_bit_eq_mod mask_eq_exp_minus_1)
  then show ?thesis
    by (auto simp: parse_dns_def read_results records_loop_in_range
        dest: dns_name_result split: prod.splits)
qed

subsection \<open>Queries and their replies\<close>

definition wire_name :: "string list \<Rightarrow> string" where
  "wire_name labels = concat (map wire_label labels) @ [char_of (0 :: nat)]"

definition wire_option :: "nat \<times> string \<Rightarrow> string" where
  "wire_option cv = be_bytes 2 (fst cv) @ be_bytes 2 (length (snd cv)) @ snd cv"

definition wire_options :: "(nat \<times> string) list \<Rightarrow> string" where
  "wire_options os = concat (map wire_option os)"

text \<open>
  What a server sends back: the header, the question, the answer and authority records, and the
  additional ones with at most one OPT record among them. The owner of a record is a list of labels
  that ends, or goes on with the name of the question by a pointer to its place behind the header.
\<close>

record dns_rr =
  rr_labels :: "string list"
  rr_points :: bool
  rr_type :: nat
  rr_class :: nat
  rr_ttl :: nat
  rr_data :: string

definition wire_owner :: "dns_rr \<Rightarrow> string" where
  "wire_owner r = concat (map wire_label (rr_labels r)) @ map char_of (if rr_points r then [192, 12] else [0 :: nat])"

definition wire_rr :: "dns_rr \<Rightarrow> string" where
  "wire_rr r = wire_owner r @ be_bytes 2 (rr_type r) @ be_bytes 2 (rr_class r) @ be_bytes 4 (rr_ttl r)
     @ be_bytes 2 (length (rr_data r)) @ rr_data r"

record dns_opt =
  op_size :: nat
  op_low :: nat
  op_options :: "(nat \<times> string) list"

definition opt_rr :: "dns_opt \<Rightarrow> dns_rr" where
  "opt_rr p = \<lparr>rr_labels = [], rr_points = False, rr_type = 41, rr_class = op_size p, rr_ttl = op_low p,
     rr_data = wire_options (op_options p)\<rparr>"

record dns_sections =
  sec_answer :: "dns_rr list"
  sec_authority :: "dns_rr list"
  sec_before :: "dns_rr list"
  sec_opt :: "dns_opt option"
  sec_after :: "dns_rr list"

definition plain_records :: "dns_sections \<Rightarrow> dns_rr list" where
  "plain_records x = sec_answer x @ sec_authority x @ sec_before x @ sec_after x"

definition opt_records :: "dns_sections \<Rightarrow> dns_rr list" where
  "opt_records x = (case sec_opt x of None \<Rightarrow> [] | Some p \<Rightarrow> [opt_rr p])"

definition dns_reply :: "nat \<Rightarrow> nat \<Rightarrow> string list \<Rightarrow> dns_sections \<Rightarrow> string" where
  "dns_reply i flags labels x =
     dns_header [i, flags, 1, length (sec_answer x), length (sec_authority x),
                 length (sec_before x) + length (opt_records x) + length (sec_after x)]
     @ wire_name labels @ be_bytes 2 1 @ be_bytes 2 1
     @ concat (map wire_rr (sec_answer x @ sec_authority x @ sec_before x @ opt_records x @ sec_after x))"

text \<open>The records that the parser skips: any but OPT whose owner is a name of the DNS and whose fields fit.\<close>

definition reply_label :: "string \<Rightarrow> bool" where
  "reply_label l \<longleftrightarrow> l \<noteq> [] \<and> length l \<le> 63 \<and> list_all (\<lambda>c. 33 \<le> byte c \<and> byte c \<le> 126) l"

definition reply_rr :: "string list \<Rightarrow> dns_rr \<Rightarrow> bool" where
  "reply_rr labels r \<longleftrightarrow> list_all reply_label (rr_labels r)
     \<and> length (join_with ''.'' (rr_labels r @ (if rr_points r then labels else []))) \<le> 253
     \<and> length (rr_labels r) + (if rr_points r then length labels + 2 else 1) \<le> 128
     \<and> rr_type r \<noteq> 41 \<and> rr_type r < 65536 \<and> rr_class r < 65536 \<and> rr_ttl r < 2 ^ 32 \<and> length (rr_data r) < 65536"

definition reply_opt :: "dns_opt \<Rightarrow> bool" where
  "reply_opt p \<longleftrightarrow> op_size p < 65536 \<and> op_low p < 65536
     \<and> list_all (\<lambda>(c, v). c < 65536 \<and> length v < 65536) (op_options p) \<and> length (wire_options (op_options p)) < 65536"

definition reply_sections :: "string list \<Rightarrow> dns_sections \<Rightarrow> bool" where
  "reply_sections labels x \<longleftrightarrow> list_all (reply_rr labels) (plain_records x)
     \<and> (case sec_opt x of None \<Rightarrow> True | Some p \<Rightarrow> reply_opt p)
     \<and> length (plain_records x) + length (opt_records x) \<le> 128"

definition reports_filter :: "nat \<times> string \<Rightarrow> bool" where
  "reports_filter cv \<longleftrightarrow> fst cv = 15 \<and> length (snd cv) \<ge> 2 \<and> be_value (take 2 (snd cv)) \<in> {15, 17}"

lemma be_at_append:
  "be_at (a @ b) (length a + i) n = be_at b i n"
  by (auto simp: be_at_def slice_def also_then_def)

lemma be_at_0: "v < 256 ^ n \<Longrightarrow> be_at (be_bytes n v @ b) 0 n = Inr v"
  by (simp add: be_at_Inr be_value_bytes)

lemma be_at_skip: "k \<le> i \<Longrightarrow> be_at (be_bytes k v @ b) i n = be_at b (i - k) n"
  using be_at_append [of "be_bytes k v" b "i - k" n] by simp

lemma be_at_front: "be_at (a @ be_bytes n v @ b) (length a) n = Inr v" if "v < 256 ^ n"
  using be_at_append [of a "be_bytes n v @ b" 0 n] be_at_0 [OF that] by simp

lemma small_label: "n < 64 \<Longrightarrow> n AND 192 = (0 :: nat)"
proof -
  assume "n < 64"
  moreover have "list_all (\<lambda>n. n AND 192 = (0 :: nat)) [0..<64]" by code_simp
  ultimately show ?thesis by (auto simp: list_all_iff)
qed

lemma label_ok_reply: "label_ok l \<Longrightarrow> reply_label l"
  by (auto simp: label_ok_def reply_label_def list_all_iff is_lower_def is_digit_def byte_def)

lemma label_step:
  assumes l: "reply_label l"
  shows "name_step (a @ wire_label l @ b) (length a) stop acc
       = Inr (NameNext (length a + length (wire_label l)) stop (acc @ [l]))"
proof -
  have len: "l \<noteq> []" "length l \<le> 63" and ch: "list_all (\<lambda>c. 33 \<le> byte c \<and> byte c \<le> 126) l"
    using l by (auto simp: reply_label_def)
  then have n: "byte (char_of (length l)) = length l" "length l AND 192 = 0" using small_label [of "length l"] by simp_all
  have "\<not> list_ex (\<lambda>c. byte c < 33 \<or> byte c > 126) l"
    using ch by (auto simp: list_ex_iff list_all_iff)
  then show ?thesis using len n
    by (simp add: name_step_def byte_at_def slice_def wire_label_def also_then_def nth_append)
qed

lemma length_lower [simp]: "length (to_lower s) = length s"
  by (simp add: to_lower_def)

lemma name_end:
  "length (join_with ''.'' acc) \<le> 253 \<Longrightarrow>
     name_step (a @ char_of (0 :: nat) # b) (length a) stop acc
       = Inr (NameDone (to_lower (join_with ''.'' acc)) (case stop of None \<Rightarrow> length a + 1 | Some e \<Rightarrow> e))"
  by (simp add: name_step_def byte_at_def also_then_def nth_append Let_def)

lemma name_pointer:
  "name_step (a @ char_of (192 :: nat) # char_of (12 :: nat) # b) (length a) None acc
     = Inr (NameNext 12 (Some (length a + 2)) acc)"
proof -
  have "(192 :: nat) AND 192 = 192" "(192 :: nat) AND 63 = 0" by code_simp+
  then show ?thesis by (simp add: name_step_def byte_at_def also_then_def nth_append)
qed

text \<open>The labels of a name are read one per turn; the offsets seen stay outside of what is read next.\<close>

lemma name_labels:
  assumes "list_all reply_label labels"
    and "\<forall>x \<in> set seen. x < length a \<or> length a + length (concat (map wire_label labels)) \<le> x"
  shows "\<exists>seen1. (\<forall>x \<in> set seen1. x \<in> set seen \<or> length a \<le> x \<and> x < length a + length (concat (map wire_label labels)))
     \<and> name_loop (length labels + k) (a @ concat (map wire_label labels) @ b) (length a) stop seen acc
       = name_loop k (a @ concat (map wire_label labels) @ b) (length a + length (concat (map wire_label labels))) stop seen1 (acc @ labels)"
  using assms
proof (induction labels arbitrary: a seen acc)
  case (Cons l labels)
  let ?rest = "concat (map wire_label labels)"
  have pos: "length a < length (a @ wire_label l)" by (simp add: wire_label_def)
  have nin: "length a \<notin> set seen" using Cons.prems(2) by (fastforce simp: wire_label_def)
  have ok: "\<forall>x \<in> set (length a # seen). x < length (a @ wire_label l) \<or> length (a @ wire_label l) + length ?rest \<le> x"
    using Cons.prems(2) pos by fastforce
  obtain seen1 where s: "\<forall>x \<in> set seen1. x \<in> set (length a # seen) \<or> length (a @ wire_label l) \<le> x \<and> x < length (a @ wire_label l) + length ?rest"
    and n: "name_loop (length labels + k) ((a @ wire_label l) @ ?rest @ b) (length (a @ wire_label l)) stop (length a # seen) (acc @ [l])
      = name_loop k ((a @ wire_label l) @ ?rest @ b) (length (a @ wire_label l) + length ?rest) stop seen1 ((acc @ [l]) @ labels)"
    using Cons.IH [OF _ ok, of "acc @ [l]"] Cons.prems(1) by auto
  have "name_loop (length (l # labels) + k) (a @ concat (map wire_label (l # labels)) @ b) (length a) stop seen acc
      = name_loop (length labels + k) ((a @ wire_label l) @ ?rest @ b) (length (a @ wire_label l)) stop (length a # seen) (acc @ [l])"
    using label_step [of l a "?rest @ b" stop acc] Cons.prems(1) nin by (simp add: wire_label_def)
  then have "name_loop (length (l # labels) + k) (a @ concat (map wire_label (l # labels)) @ b) (length a) stop seen acc
      = name_loop k (a @ concat (map wire_label (l # labels)) @ b) (length a + length (concat (map wire_label (l # labels)))) stop seen1 (acc @ l # labels)"
    using n by (simp add: add.assoc)
  moreover have "\<forall>x \<in> set seen1. x \<in> set seen \<or> length a \<le> x \<and> x < length a + length (concat (map wire_label (l # labels)))"
    using s pos by fastforce
  ultimately show ?case by blast
qed (auto intro: exI [of _ seen])

text \<open>A name that ends: from a place of its own, or from the end of a pointer.\<close>

lemma name_loop_wire:
  assumes "list_all reply_label labels" and "length labels < k" and "length (join_with ''.'' (acc @ labels)) \<le> 253"
    and "\<forall>x \<in> set seen. x < length a \<or> length a + length (wire_name labels) \<le> x"
  shows "name_loop k (a @ wire_name labels @ b) (length a) stop seen acc
       = Inr (to_lower (join_with ''.'' (acc @ labels)), case stop of None \<Rightarrow> length a + length (wire_name labels) | Some e \<Rightarrow> e)"
proof -
  let ?w = "concat (map wire_label labels)"
  obtain j where k: "k = length labels + Suc j" using assms(2) less_imp_Suc_add by auto
  have ok: "\<forall>x \<in> set seen. x < length a \<or> length a + length ?w \<le> x" using assms(4) by (fastforce simp: wire_name_def)
  obtain seen1 where s: "\<forall>x \<in> set seen1. x \<in> set seen \<or> length a \<le> x \<and> x < length a + length ?w"
    and n: "name_loop k (a @ ?w @ char_of (0 :: nat) # b) (length a) stop seen acc
       = name_loop (Suc j) (a @ ?w @ char_of (0 :: nat) # b) (length a + length ?w) stop seen1 (acc @ labels)"
    using name_labels [OF assms(1) ok, of "Suc j" "char_of (0 :: nat) # b" stop acc] unfolding k by blast
  have nin: "length a + length ?w \<notin> set seen1" using s assms(4) by (fastforce simp: wire_name_def)
  show ?thesis
    using name_end [of "acc @ labels" "a @ ?w" b stop] assms(3) n nin by (simp add: wire_name_def split: option.split)
qed

lemma options_loop_wire:
  assumes "list_all (\<lambda>(c, v). c < 65536 \<and> length v < 65536) os"
  shows "options_loop (a @ wire_options os @ b) (length a) (length a + length (wire_options os)) f
       = Inr (f \<or> list_ex reports_filter os)"
  using assms
proof (induction os arbitrary: a f)
  case Nil
  then show ?case by (subst options_loop.simps) (simp add: wire_options_def)
next
  case (Cons cv os)
  obtain c v where cv: "cv = (c, v)" by (cases cv)
  let ?t = "wire_options os @ b"
  have small: "c < 65536" "length v < 65536" using Cons.prems by (simp_all add: cv)
  define d where "d = a @ wire_option cv @ ?t"
  have d: "a @ wire_options (cv # os) @ b = d" by (simp add: d_def wire_options_def)
  have code: "be_at d (length a) 2 = Inr c"
    using be_at_front [of c 2 a] small by (simp add: d_def wire_option_def cv)
  have len: "be_at d (length a + 2) 2 = Inr (length v)"
    using be_at_front [of "length v" 2 "a @ be_bytes 2 c"] small by (simp add: d_def wire_option_def cv)
  have ede: "be_at d (length a + 4) 2 = Inr (be_value (take 2 v))" if "length v \<ge> 2"
    using be_at_append [of "a @ be_bytes 2 c @ be_bytes 2 (length v)" "v @ ?t" 0 2] that
    by (simp add: d_def wire_option_def cv be_at_def slice_def also_then_def)
  have step: "option_step d (length a) (length a + length (wire_options (cv # os)))
      = Inr (length a + length (wire_option cv), reports_filter cv)"
    using code len ede
    by (auto simp: option_step_def wire_options_def wire_option_def also_then_def cv reports_filter_def)
  have "options_loop d (length a + length (wire_option cv)) (length a + length (wire_options (cv # os))) (f \<or> reports_filter cv)
      = Inr ((f \<or> reports_filter cv) \<or> list_ex reports_filter os)"
    using Cons.IH [of "a @ wire_option cv" "f \<or> reports_filter cv"] Cons.prems
    by (simp add: d_def wire_options_def add.assoc)
  moreover have "length a < length a + length (wire_options (cv # os))"
    by (simp add: wire_options_def wire_option_def)
  ultimately show ?case
    unfolding d by (subst options_loop.simps) (simp only: step if_True sum.case prod.case, simp add: disj_assoc)
qed

lemma join_split: "join_with [c] (split_on c s) = s"
proof (induction s)
  case (Cons x s)
  have ne: "split_on c s \<noteq> []" by (cases s) (auto split: list.splits)
  then obtain w ws where "split_on c s = w # ws" by (cases "split_on c s") auto
  then show ?case using Cons by (cases ws) auto
qed simp

lemma join_length: "ws \<noteq> [] \<Longrightarrow> \<forall>w \<in> set ws. w \<noteq> [] \<Longrightarrow> 2 * length ws \<le> length (join_with [c] ws) + 1"
proof (induction "[c]" ws rule: join_with.induct)
  case (2 w)
  then show ?case by (cases w) auto
next
  case (3 w v ws)
  then have "length w \<ge> 1" by (cases w) auto
  then show ?case using 3 by simp
qed simp

lemma to_lower_twice: "to_lower (to_lower s) = to_lower s"
  by (simp add: to_lower_def lower_char_def)

lemma dns_query_trimmed:
  assumes "dns_query (Some r) domain0 = Inr (q, i)"
  defines "domain \<equiv> trim_suffix domain0 ''.''"
  defines "labels \<equiv> split_on CHR ''.'' (to_lower domain)"
  shows "list_all label_ok labels \<and> length labels < 128 \<and> to_lower (join_with ''.'' labels) = to_lower domain
    \<and> length (to_lower domain) \<le> 253 \<and> i = be_value (take 2 r) \<and> i < 65536
    \<and> q = dns_header [i, 0x100, 1, 0, 0, 1] @ wire_name labels @ map char_of [0, 1, 0, 1 :: nat] @ dns_opt_record"
proof -
  have all: "list_all label_ok labels" and len: "length (to_lower domain) \<le> 253"
    and i: "i = be_value (take 2 r)"
    and q: "q = dns_header [i, 0x100, 1, 0, 0, 1] @ concat (map wire_label labels) @ dns_question_tail @ dns_opt_record"
    using assms(1) by (auto simp: dns_query_def Let_def domain_def labels_def split: if_splits)
  have j: "join_with ''.'' labels = to_lower domain" by (simp add: labels_def join_split)
  have "labels \<noteq> []" by (cases "to_lower domain") (auto simp: labels_def split: list.splits)
  then have "2 * length labels \<le> length (to_lower domain) + 1"
    using join_length [of labels "CHR ''.''"] all by (auto simp: j list_all_iff label_ok_def)
  moreover have "i < 65536"
  proof -
    have "be_value (take 2 r) < 256 ^ length (take 2 r)" by (rule be_value_bound)
    also have "\<dots> \<le> 256 ^ 2" by (rule power_increasing) auto
    finally show ?thesis by (simp add: i)
  qed
  ultimately show ?thesis using all len i q
    by (simp add: j to_lower_twice wire_name_def dns_question_tail_def)
qed

lemma dns_query_Inr:
  assumes "dns_query (Some r) domain = Inr (q, i)" and "\<not> has_suffix domain ''.''"
  defines "labels \<equiv> split_on CHR ''.'' (to_lower domain)"
  shows "list_all label_ok labels \<and> length labels < 128 \<and> to_lower (join_with ''.'' labels) = to_lower domain
    \<and> length (to_lower domain) \<le> 253 \<and> i = be_value (take 2 r) \<and> i < 65536
    \<and> q = dns_header [i, 0x100, 1, 0, 0, 1] @ wire_name labels @ map char_of [0, 1, 0, 1 :: nat] @ dns_opt_record"
proof -
  have d: "trim_suffix domain ''.'' = domain" using assms(2) by (simp add: trim_suffix_def)
  show ?thesis using dns_query_trimmed [OF assms(1)] unfolding d labels_def .
qed

lemma dns_name_wire:
  assumes "list_all label_ok labels" "length labels < 128" "length (to_lower (join_with ''.'' labels)) \<le> 253"
  shows "dns_name (a @ wire_name labels @ b) (length a)
       = Inr (to_lower (join_with ''.'' labels), length a + length (wire_name labels))"
  using name_loop_wire [of labels 128 "[]" "[]" a b None] assms label_ok_reply by (simp add: dns_name_def list_all_iff)

lemma length_header: "length (dns_header [a, b, c, d, e, f]) = 12"
  by (simp add: dns_header_def)

lemma header_words:
  assumes "a < 65536" "b < 65536" "c < 65536" "d < 65536" "e < 65536" "f < 65536"
  shows "be_at (dns_header [a, b, c, d, e, f] @ r) 0 2 = Inr a" "be_at (dns_header [a, b, c, d, e, f] @ r) 2 2 = Inr b"
    "be_at (dns_header [a, b, c, d, e, f] @ r) 4 2 = Inr c" "be_at (dns_header [a, b, c, d, e, f] @ r) 6 2 = Inr d"
    "be_at (dns_header [a, b, c, d, e, f] @ r) 8 2 = Inr e" "be_at (dns_header [a, b, c, d, e, f] @ r) 10 2 = Inr f"
  using assms by (simp_all add: dns_header_def be_at_skip be_at_0)

subsection \<open>The records of a reply\<close>

text \<open>A reply of which the first part, with header and question, is fixed.\<close>

definition reply_head :: "string \<Rightarrow> string list \<Rightarrow> string" where
  "reply_head h labels = h @ wire_name labels @ be_bytes 2 1 @ be_bytes 2 1"

lemma owner_read:
  assumes r: "reply_rr labels r" and qs: "list_all reply_label labels" "length labels < 128" and h: "length h = 12"
  shows "dns_name (reply_head h labels @ a @ wire_owner r @ b) (length (reply_head h labels @ a))
     = Inr (to_lower (join_with ''.'' (rr_labels r @ (if rr_points r then labels else []))),
            length (reply_head h labels @ a) + length (wire_owner r))"
proof (cases "rr_points r")
  case False
  then have o: "wire_owner r = wire_name (rr_labels r)" by (simp add: wire_owner_def wire_name_def)
  show ?thesis
    using name_loop_wire [of "rr_labels r" 128 "[]" "[]" "reply_head h labels @ a" b None] r False
    by (simp add: dns_name_def reply_rr_def o)
next
  case True
  let ?p = "reply_head h labels @ a" and ?w = "concat (map wire_label (rr_labels r))"
  let ?d = "?p @ ?w @ char_of (192 :: nat) # char_of (12 :: nat) # b" and ?e = "length ?p + length ?w"
  have o: "wire_owner r = ?w @ [char_of (192 :: nat), char_of (12 :: nat)]" using True by (simp add: wire_owner_def)
  have len: "length (rr_labels r) + (length labels + 2) \<le> 128" "list_all reply_label (rr_labels r)"
    "length (join_with ''.'' (rr_labels r @ labels)) \<le> 253"
    using r True by (simp_all add: reply_rr_def)
  obtain j where j: "128 = length (rr_labels r) + Suc j" "length labels < j"
    using len(1) that [of "127 - length (rr_labels r)"] by fastforce
  obtain seen1 where s: "\<forall>x \<in> set seen1. length ?p \<le> x \<and> x < ?e"
    and n: "name_loop 128 ?d (length ?p) None [] [] = name_loop (Suc j) ?d ?e None seen1 (rr_labels r)"
    using name_labels [OF len(2), of "[]" ?p "Suc j" "char_of (192 :: nat) # char_of (12 :: nat) # b" None "[]"]
    unfolding j(1) by auto
  have "?e \<notin> set seen1" using s by fastforce
  then have turn: "name_loop (Suc j) ?d ?e None seen1 (rr_labels r) = name_loop j ?d 12 (Some (?e + 2)) (?e # seen1) (rr_labels r)"
    using name_pointer [of "?p @ ?w" b "rr_labels r"] by (simp add: add.assoc)
  have "name_loop j (h @ wire_name labels @ be_bytes 2 1 @ be_bytes 2 1 @ a @ ?w @ char_of (192 :: nat) # char_of (12 :: nat) # b) (length h)
      (Some (?e + 2)) (?e # seen1) (rr_labels r) = Inr (to_lower (join_with ''.'' (rr_labels r @ labels)), ?e + 2)"
    using name_loop_wire [OF qs(1) j(2) len(3), of "?e # seen1" h _ "Some (?e + 2)"] s
    by (fastforce simp: reply_head_def)
  then have "name_loop j ?d 12 (Some (?e + 2)) (?e # seen1) (rr_labels r) = Inr (to_lower (join_with ''.'' (rr_labels r @ labels)), ?e + 2)"
    using h by (simp add: reply_head_def)
  then show ?thesis using n turn True by (simp add: dns_name_def o)
qed

lemma rr_fields:
  assumes "rr_type r < 65536" "rr_class r < 65536" "rr_ttl r < 2 ^ 32" "length (rr_data r) < 65536"
  shows "be_at (a @ wire_rr r @ b) (length a + length (wire_owner r)) 2 = Inr (rr_type r)"
    "be_at (a @ wire_rr r @ b) (length a + length (wire_owner r) + 4) 4 = Inr (rr_ttl r)"
    "be_at (a @ wire_rr r @ b) (length a + length (wire_owner r) + 8) 2 = Inr (length (rr_data r))"
proof -
  have at: "be_at (a @ wire_rr r @ b) (length a + length (wire_owner r) + k) n
      = be_at (be_bytes 2 (rr_type r) @ be_bytes 2 (rr_class r) @ be_bytes 4 (rr_ttl r)
          @ be_bytes 2 (length (rr_data r)) @ rr_data r @ b) k n" for k n
    using be_at_append [of "a @ wire_owner r" _ k n] by (simp add: wire_rr_def)
  show "be_at (a @ wire_rr r @ b) (length a + length (wire_owner r)) 2 = Inr (rr_type r)"
    using at [of 0 2] assms be_at_0 by simp
  show "be_at (a @ wire_rr r @ b) (length a + length (wire_owner r) + 4) 4 = Inr (rr_ttl r)"
    using at [of 4 4] assms by (simp add: be_at_skip be_at_0)
  show "be_at (a @ wire_rr r @ b) (length a + length (wire_owner r) + 8) 2 = Inr (length (rr_data r))"
    using at [of 8 2] assms by (simp add: be_at_skip be_at_0)
qed

lemma plain_step:
  assumes r: "reply_rr labels r" and qs: "list_all reply_label labels" "length labels < 128" and h: "length h = 12"
  shows "record_step (reply_head h labels @ a @ wire_rr r @ b) extra i (length (reply_head h labels @ a), opt, f)
     = Inr (length (reply_head h labels @ a @ wire_rr r), opt, f)"
proof -
  let ?d = "reply_head h labels @ a @ wire_rr r @ b" and ?p = "reply_head h labels @ a"
  have d: "?d = ?p @ wire_rr r @ b" by simp
  obtain nm where name: "dns_name ?d (length ?p) = Inr (nm, length ?p + length (wire_owner r))"
    using owner_read [OF r qs h, of a] by (simp add: wire_rr_def)
  have len: "length (wire_rr r) = length (wire_owner r) + 10 + length (rr_data r)" by (simp add: wire_rr_def)
  have t: "rr_type r \<noteq> 41" "rr_type r < 65536" "rr_class r < 65536" "rr_ttl r < 2 ^ 32" "length (rr_data r) < 65536"
    using r by (simp_all add: reply_rr_def)
  note f = rr_fields [of r ?p b, OF t(2-5)]
  show ?thesis
    using name f t(1) unfolding d
    by (simp add: record_step_def also_then_def require_def Let_def len)
qed

lemma plain_records_loop:
  assumes "list_all (reply_rr labels) rs" and qs: "list_all reply_label labels" "length labels < 128" "length h = 12"
    and "length is = length rs"
  shows "records_loop (reply_head h labels @ a @ concat (map wire_rr rs) @ b) extra is (length (reply_head h labels @ a), opt, f)
     = Inr (length (reply_head h labels @ a @ concat (map wire_rr rs)), opt, f)"
  using assms(1,5)
proof (induction rs arbitrary: a "is")
  case (Cons r rs)
  obtain i js where i: "is = i # js" using Cons.prems(2) by (cases "is") auto
  have "records_loop (reply_head h labels @ (a @ wire_rr r) @ concat (map wire_rr rs) @ b) extra js
      (length (reply_head h labels @ a @ wire_rr r), opt, f)
      = Inr (length (reply_head h labels @ (a @ wire_rr r) @ concat (map wire_rr rs)), opt, f)"
    using Cons.IH [of js "a @ wire_rr r"] Cons.prems i by simp
  then show ?case
    using plain_step [of labels r h a "concat (map wire_rr rs) @ b" extra i opt f] Cons.prems(1) qs
    by (simp add: i also_then_def)
qed simp

lemma opt_step:
  assumes p: "reply_opt p" and qs: "list_all reply_label labels" "length labels < 128" "length h = 12" and i: "extra \<le> i"
  shows "record_step (reply_head h labels @ a @ wire_rr (opt_rr p) @ b) extra i (length (reply_head h labels @ a), False, f)
     = Inr (length (reply_head h labels @ a @ wire_rr (opt_rr p)), True, f \<or> list_ex reports_filter (op_options p))"
proof -
  let ?d = "reply_head h labels @ a @ wire_rr (opt_rr p) @ b" and ?p = "reply_head h labels @ a"
  have d: "?d = ?p @ wire_rr (opt_rr p) @ b" by simp
  have o: "wire_owner (opt_rr p) = wire_name []" by (simp add: wire_owner_def opt_rr_def wire_name_def)
  have name: "dns_name ?d (length ?p) = Inr ([], length ?p + length (wire_owner (opt_rr p)))"
    using name_loop_wire [of "[]" 128 "[]" "[]" ?p _ None]
    by (simp add: dns_name_def wire_rr_def o to_lower_def)
  have len: "length (wire_rr (opt_rr p)) = length (wire_owner (opt_rr p)) + 10 + length (wire_options (op_options p))"
    by (simp add: wire_rr_def opt_rr_def)
  have t: "rr_type (opt_rr p) = 41" "rr_class (opt_rr p) < 65536" "rr_ttl (opt_rr p) < 65536"
      "rr_data (opt_rr p) = wire_options (op_options p)" "length (rr_data (opt_rr p)) < 65536"
    using p by (simp_all add: reply_opt_def opt_rr_def)
  have high: "drop_bit 16 (rr_ttl (opt_rr p)) = 0" using t(3) by (simp add: drop_bit_eq_div)
  note f = rr_fields [of "opt_rr p" ?p b]
  have opts: "options_loop ?d (length ?p + length (wire_owner (opt_rr p)) + 10)
      (length ?p + length (wire_owner (opt_rr p)) + 10 + length (wire_options (op_options p))) f
      = Inr (f \<or> list_ex reports_filter (op_options p))"
    using options_loop_wire [of "op_options p" "?p @ wire_owner (opt_rr p) @ be_bytes 2 41 @ be_bytes 2 (op_size p)
        @ be_bytes 4 (op_low p) @ be_bytes 2 (length (wire_options (op_options p)))" b f] p
    by (simp add: reply_opt_def wire_rr_def opt_rr_def ac_simps)
  show ?thesis
    using name f t high opts i unfolding d
    by (simp add: record_step_def also_then_def require_def Let_def len)
qed

lemma records_loop_append:
  "records_loop d e (is @ js) st = also_then (records_loop d e is st) (records_loop d e js)"
  by (induction "is" arbitrary: st) (auto simp: also_then_def split: sum.splits)

lemma sections_loop:
  assumes x: "reply_sections labels x" and qs: "list_all reply_label labels" "length labels < 128" "length h = 12"
  shows "records_loop (reply_head h labels @ concat (map wire_rr (sec_answer x @ sec_authority x @ sec_before x @ opt_records x @ sec_after x)))
      (length (sec_answer x) + length (sec_authority x))
      [0..<length (sec_answer x) + length (sec_authority x) + (length (sec_before x) + length (opt_records x) + length (sec_after x))]
      (length (reply_head h labels), False, False)
    = Inr (length (reply_head h labels @ concat (map wire_rr (sec_answer x @ sec_authority x @ sec_before x @ opt_records x @ sec_after x))),
           sec_opt x \<noteq> None, case sec_opt x of None \<Rightarrow> False | Some p \<Rightarrow> list_ex reports_filter (op_options p))"
proof -
  let ?e = "length (sec_answer x) + length (sec_authority x)"
  define rs where "rs = sec_answer x @ sec_authority x @ sec_before x"
  let ?a = "concat (map wire_rr rs)" and ?z = "concat (map wire_rr (sec_after x))"
  let ?o = "concat (map wire_rr (opt_records x))" and ?n = "length (opt_records x)"
  let ?d = "reply_head h labels @ ?a @ ?o @ ?z"
  have plain: "list_all (reply_rr labels) rs" "list_all (reply_rr labels) (sec_after x)"
    using x by (simp_all add: reply_sections_def plain_records_def rs_def)
  have ix: "[0..<?e + (length (sec_before x) + ?n + length (sec_after x))]
      = [0..<length rs] @ [length rs..<length rs + ?n] @ [length rs + ?n..<length rs + ?n + length (sec_after x)]"
    using upt_add_eq_append [of 0 "length rs" "?n + length (sec_after x)"] upt_add_eq_append [of "length rs" "length rs + ?n" "length (sec_after x)"]
    by (simp add: rs_def ac_simps)
  have first: "records_loop ?d ?e [0..<length rs] (length (reply_head h labels), False, False)
      = Inr (length (reply_head h labels @ ?a), False, False)"
    using plain_records_loop [OF plain(1) qs, of "[0..<length rs]" "[]"] by simp
  have mid: "records_loop ?d ?e [length rs..<length rs + ?n] (length (reply_head h labels @ ?a), False, False)
      = Inr (length (reply_head h labels @ ?a @ ?o), sec_opt x \<noteq> None, case sec_opt x of None \<Rightarrow> False | Some p \<Rightarrow> list_ex reports_filter (op_options p))"
  proof (cases "sec_opt x")
    case (Some p)
    then have "reply_opt p" "?e \<le> length rs" using x by (simp_all add: reply_sections_def rs_def)
    then show ?thesis using opt_step [OF _ qs, of p ?e "length rs" ?a ?z False] Some
      by (simp add: opt_records_def also_then_def)
  qed (simp add: opt_records_def)
  have last: "records_loop ?d ?e [length rs + ?n..<length rs + ?n + length (sec_after x)] (length (reply_head h labels @ ?a @ ?o), opt, f)
      = Inr (length ?d, opt, f)" for opt f
    using plain_records_loop [OF plain(2) qs, of "[length rs + ?n..<length rs + ?n + length (sec_after x)]" "?a @ ?o" "[]"] by simp
  have d: "reply_head h labels @ concat (map wire_rr (sec_answer x @ sec_authority x @ sec_before x @ opt_records x @ sec_after x)) = ?d"
    by (simp add: rs_def)
  show ?thesis unfolding d ix by (simp only: records_loop_append first also_then_def sum.case mid last)
qed


text \<open>A reply with a compressed answer, an authority record and an option that reports filtering.\<close>

definition sample_sections :: dns_sections where
  "sample_sections = \<lparr>sec_answer = [\<lparr>rr_labels = [], rr_points = True, rr_type = 1, rr_class = 1, rr_ttl = 60, rr_data = ''abcd''\<rparr>],
     sec_authority = [\<lparr>rr_labels = [''ns''], rr_points = True, rr_type = 2, rr_class = 1, rr_ttl = 60, rr_data = []\<rparr>],
     sec_before = [], sec_opt = Some \<lparr>op_size = 1232, op_low = 0, op_options = [(15, map char_of [0, 17 :: nat])]\<rparr>,
     sec_after = [\<lparr>rr_labels = [''x''], rr_points = False, rr_type = 16, rr_class = 1, rr_ttl = 0, rr_data = ''t''\<rparr>]\<rparr>"


lemma dns_parser_in_range_witness:
  "\<exists>name next. dns_name (wire_name [''ns''] @ ''x'') 0 = Inr (name, next) \<and> length name \<le> 253 \<and> 0 < next \<and> next \<le> 5"
proof -
  have n: "dns_name (wire_name [''ns''] @ ''x'') 0 = Inr (''ns'', 4)" by code_simp
  then show ?thesis
    using dns_parser_in_range [of "wire_name [''ns''] @ ''x''" 0 "[]" 0] by (auto simp: wire_name_def wire_label_def)
qed

end
