(* ===== verification/PacketFilter.thy ===== *)
theory PacketFilter
  imports DnsWire
begin

text \<open>
  Package \<open>internal/netpolicy\<close>, the packet observer (\<open>observer_linux.go\<close>): the socket filter that
  \<open>scopedPacketFilter\<close> assembles for one probe, with its jumps patched in afterwards, and
  \<open>packetChallenge\<close>, which reads the packets the filter lets through.

  The filter is a program for the packet machine of the kernel. \<open>bpf_step\<close> gives the documented
  meaning of the instructions that occur in it: an accumulator and an index register of 32 bits,
  loads relative to the network header (a load outside of the packet ends with 0), forward jumps,
  and \<open>ret\<close> with the number of bytes to keep.
\<close>

subsection \<open>The packet machine\<close>

record bpf_insn =
  bi_code :: nat
  bi_jt :: nat
  bi_jf :: nat
  bi_k :: nat

definition insn :: "nat \<Rightarrow> nat \<Rightarrow> bpf_insn" where
  "insn code k = \<lparr>bi_code = code, bi_jt = 0, bi_jf = 0, bi_k = k\<rparr>"

definition load :: "string \<Rightarrow> nat \<Rightarrow> nat \<Rightarrow> nat option" where
  "load p off n = (if off + n \<le> length p then Some (be_value (take n (drop off p))) else None)"

text \<open>One instruction: a result (\<open>None\<close> for a code the machine does not know), or the next state.\<close>

datatype bpf_turn = BpfResult "nat option" | BpfState nat nat nat

definition bpf_load :: "nat option \<Rightarrow> nat \<Rightarrow> nat \<Rightarrow> bpf_turn" where
  "bpf_load v pc x = (case v of None \<Rightarrow> BpfResult (Some 0) | Some a \<Rightarrow> BpfState (pc + 1) a x)"

definition bpf_jump :: "bool \<Rightarrow> bpf_insn \<Rightarrow> nat \<Rightarrow> nat \<Rightarrow> nat \<Rightarrow> bpf_turn" where
  "bpf_jump c i pc a x = BpfState (pc + 1 + (if c then bi_jt i else bi_jf i)) a x"

definition bpf_step :: "bpf_insn \<Rightarrow> string \<Rightarrow> nat \<Rightarrow> nat \<Rightarrow> nat \<Rightarrow> bpf_turn" where
  "bpf_step i p pc a x =
     (let k = bi_k i; code = bi_code i in
      if code = 0x20 then bpf_load (load p k 4) pc x
      else if code = 0x28 then bpf_load (load p k 2) pc x
      else if code = 0x30 then bpf_load (load p k 1) pc x
      else if code = 0x40 then bpf_load (load p (x + k) 4) pc x
      else if code = 0x48 then bpf_load (load p (x + k) 2) pc x
      else if code = 0x50 then bpf_load (load p (x + k) 1) pc x
      else if code = 0xb1 then (case load p k 1 of None \<Rightarrow> BpfResult (Some 0) | Some v \<Rightarrow> BpfState (pc + 1) a (4 * (v AND 15)))
      else if code = 0x54 then BpfState (pc + 1) (a AND k) x
      else if code = 0x74 then BpfState (pc + 1) (drop_bit k a) x
      else if code = 0x0c then BpfState (pc + 1) ((a + x) mod 2 ^ 32) x
      else if code = 0x1c then BpfState (pc + 1) ((a + 2 ^ 32 - x) mod 2 ^ 32) x
      else if code = 0x07 then BpfState (pc + 1) a a
      else if code = 0x15 then bpf_jump (a = k) i pc a x
      else if code = 0x45 then bpf_jump (a AND k \<noteq> 0) i pc a x
      else if code = 0x35 then bpf_jump (a \<ge> k) i pc a x
      else if code = 0x3d then bpf_jump (a \<ge> x) i pc a x
      else if code = 0x06 then BpfResult (Some k)
      else BpfResult None)"

lemma bpf_step_forward: "bpf_step i p pc a x = BpfState pc' a' x' \<Longrightarrow> pc < pc'"
  by (auto simp: bpf_step_def bpf_load_def bpf_jump_def Let_def split: if_splits option.splits)

function bpf_run :: "bpf_insn list \<Rightarrow> string \<Rightarrow> nat \<Rightarrow> nat \<Rightarrow> nat \<Rightarrow> nat option" where
  "bpf_run f p pc a x =
     (if pc < length f then
        (case bpf_step (f ! pc) p pc a x of
           BpfResult r \<Rightarrow> r
         | BpfState pc' a' x' \<Rightarrow> bpf_run f p pc' a' x')
      else None)"
  by pat_completeness auto
termination
  by (relation "measure (\<lambda>(f, p, pc, a, x). length f - pc)") (auto dest!: bpf_step_forward)

declare bpf_run.simps [simp del]

subsection \<open>Assembling the filter\<close>

text \<open>The program so far, and the places whose jumps are still open.\<close>

record filter_asm =
  fa_code :: "bpf_insn list"
  fa_drop_false :: "nat list"
  fa_drop_true :: "nat list"
  fa_meta_true :: "nat list"
  fa_meta_false :: "nat list"

definition emit :: "nat \<Rightarrow> nat \<Rightarrow> filter_asm \<Rightarrow> filter_asm" where
  "emit code k s = s\<lparr>fa_code := fa_code s @ [insn code k]\<rparr>"

definition emit_drop_false :: "nat \<Rightarrow> nat \<Rightarrow> filter_asm \<Rightarrow> filter_asm" where
  "emit_drop_false code k s = (emit code k s)\<lparr>fa_drop_false := fa_drop_false s @ [length (fa_code s)]\<rparr>"

definition emit_drop_true :: "nat \<Rightarrow> nat \<Rightarrow> filter_asm \<Rightarrow> filter_asm" where
  "emit_drop_true code k s = (emit code k s)\<lparr>fa_drop_true := fa_drop_true s @ [length (fa_code s)]\<rparr>"

definition emit_meta_false :: "nat \<Rightarrow> nat \<Rightarrow> filter_asm \<Rightarrow> filter_asm" where
  "emit_meta_false code k s = (emit code k s)\<lparr>fa_meta_false := fa_meta_false s @ [length (fa_code s)]\<rparr>"

text \<open>The comparison with the rest of the question, in pieces of four, two and one bytes.\<close>

definition piece :: "nat \<Rightarrow> nat" where
  "piece n = (if n \<ge> 4 then 4 else if n \<ge> 2 then 2 else 1)"

definition piece_code :: "nat \<Rightarrow> nat" where
  "piece_code n = (if n \<ge> 4 then 0x40 else if n \<ge> 2 then 0x48 else 0x50)"

lemma piece_pos [simp]: "0 < piece n"
  by (simp add: piece_def)

function emit_match :: "string \<Rightarrow> nat \<Rightarrow> nat \<Rightarrow> filter_asm \<Rightarrow> filter_asm" where
  "emit_match question offset pos s =
     (if pos < length question then
        let n = length question - pos in
        emit_match question offset (pos + piece n)
          (emit_drop_false 0x15 (be_value (take (piece n) (drop pos question)))
            (emit (piece_code n) (offset + pos) s))
      else emit 0x06 4096 s)"
  by pat_completeness auto
termination
  by (relation "measure (\<lambda>(q, offset, pos, s). length q - pos)") (auto simp: piece_def)

declare emit_match.simps [simp del]

definition filter_head :: "nat \<Rightarrow> nat \<Rightarrow> nat \<Rightarrow> bpf_insn list" where
  "filter_head src dst port =
     [insn 0x30 0, insn 0x54 0xf0, insn 0x15 0x40,
      insn 0x20 12, insn 0x15 src,
      insn 0x20 16, insn 0x15 dst,
      insn 0x30 9, (insn 0x15 17)\<lparr>bi_jt := 1\<rparr>, insn 0x15 6,
      insn 0x28 6, insn 0x45 0x3fff,
      insn 0xb1 0, insn 0x48 2, insn 0x15 port,
      insn 0x30 9, insn 0x15 17]"

definition filter_tcp :: "string \<Rightarrow> filter_asm \<Rightarrow> filter_asm" where
  "filter_tcp question s =
     emit_match question 14 0
       (emit_meta_false 0x35 (14 + length question)
         (emit_drop_true 0x15 0
           (emit 0x1c 0
             (emit_meta_false 0x3d 0
               (emit 0x28 2
                 (emit 0x07 0
                   (emit 0x0c 0
                     (emit_meta_false 0x35 20
                       (emit 0x74 2 (emit 0x54 0xf0 (emit 0x50 12 s)))))))))))"

definition filter_udp :: "string \<Rightarrow> filter_asm \<Rightarrow> filter_asm" where
  "filter_udp question s =
     emit_match question 20 0
       (emit_meta_false 0x35 (20 + length question)
         (emit 0x1c 0 (emit_meta_false 0x3d 0 (emit 0x28 2 s))))"

text \<open>\<open>uint8(target - i - 1)\<close>, and the loops that patch it in.\<close>

definition jump_to :: "nat \<Rightarrow> nat \<Rightarrow> nat" where
  "jump_to target i = nat ((int target - int i - 1) mod 256)"

definition patch_false :: "nat \<Rightarrow> nat list \<Rightarrow> bpf_insn list \<Rightarrow> bpf_insn list" where
  "patch_false target is f = foldl (\<lambda>f i. f[i := (f ! i)\<lparr>bi_jf := jump_to target i\<rparr>]) f is"

definition patch_true :: "nat \<Rightarrow> nat list \<Rightarrow> bpf_insn list \<Rightarrow> bpf_insn list" where
  "patch_true target is f = foldl (\<lambda>f i. f[i := (f ! i)\<lparr>bi_jt := jump_to target i\<rparr>]) f is"

definition scoped_packet_filter ::
    "string option \<Rightarrow> nat \<Rightarrow> nat \<Rightarrow> nat \<Rightarrow> string \<Rightarrow> dns_fault + bpf_insn list" where
  "scoped_packet_filter random src dst port nonce =
     also_then (dns_query random nonce) (\<lambda>(query, _).
       let question = take (length query - 11 - 12) (drop 12 query) in
       if length question > 96 then Inl DnsUnsupported
       else
         let s0 = \<lparr>fa_code = filter_head src dst port, fa_drop_false = [2, 4, 6, 9, 14], fa_drop_true = [],
                   fa_meta_true = [11], fa_meta_false = []\<rparr>;
             s1 = filter_tcp question s0; udp = length (fa_code s1);
             s2 = filter_udp question s1; drop = length (fa_code s2);
             s3 = emit 0x06 0 s2; meta = length (fa_code s3);
             s = emit 0x06 1 s3
         in if length (fa_code s) > 255 then Inl DnsUnsupported
            else
              let f0 = (fa_code s)[16 := (fa_code s ! 16)\<lparr>bi_jt := nat ((int udp - 17) mod 256)\<rparr>]
              in Inr (patch_false meta (fa_meta_false s)
                       (patch_true meta (fa_meta_true s)
                         (patch_true drop (fa_drop_true s)
                           (patch_false drop (fa_drop_false s) f0)))))"

subsection \<open>Reading the packets that pass (packetChallenge)\<close>

text \<open>The transport, whether the packet carries the challenge, and whether it was understood.\<close>

definition dns_challenge :: "string \<Rightarrow> string \<Rightarrow> string \<Rightarrow> dns_fault + string \<times> bool \<times> bool" where
  "dns_challenge transport payload nonce =
     (if length payload < 12 then Inr (transport, False, False)
      else also_then (be_at payload 2 2) (\<lambda>flags.
        if flags AND 0x8000 \<noteq> 0 then Inr (transport, False, True)
        else case dns_name payload 12 of
          Inl OutOfRange \<Rightarrow> Inl OutOfRange
        | Inl (DnsError _) \<Rightarrow> Inr (transport, False, False)
        | Inr (name, _) \<Rightarrow> Inr (transport, name = nonce, True)))"

definition udp_challenge :: "string \<Rightarrow> nat \<Rightarrow> string \<Rightarrow> dns_fault + string \<times> bool \<times> bool" where
  "udp_challenge packet h nonce =
     (if length packet < h + 8 then Inr (''udp'', False, False)
      else also_then (slice packet (h + 8) (length packet)) (\<lambda>payload. dns_challenge ''udp'' payload nonce))"

definition tcp_challenge :: "string \<Rightarrow> nat \<Rightarrow> string \<Rightarrow> dns_fault + string \<times> bool \<times> bool" where
  "tcp_challenge packet h nonce =
     (if length packet < h + 20 then Inr (''tcp'', False, False)
      else also_then (byte_at packet (h + 12)) (\<lambda>b.
        let header = drop_bit 4 b * 4 in
        if header < 20 \<or> length packet < h + header then Inr (''tcp'', False, False)
        else also_then (slice packet (h + header) (length packet)) (\<lambda>payload.
          if payload = [] then Inr (''tcp'', False, True)
          else if length payload < 2 then Inr (''tcp'', False, False)
          else also_then (be_at payload 0 2) (\<lambda>n.
            if n < 12 \<or> n > length payload - 2 then Inr (''tcp'', False, False)
            else also_then (slice payload 2 (2 + n)) (\<lambda>message. dns_challenge ''tcp'' message nonce)))))"

definition packet_challenge :: "string \<Rightarrow> string \<Rightarrow> dns_fault + string \<times> bool \<times> bool" where
  "packet_challenge packet nonce =
     (if length packet < 20 then Inr ([], False, False)
      else also_then (byte_at packet 0) (\<lambda>v.
        if drop_bit 4 v \<noteq> 4 then Inr ([], False, False)
        else also_then (be_at packet 2 2) (\<lambda>total. also_then (be_at packet 6 2) (\<lambda>frag.
          let h = (v AND 15) * 4 in
          if h < 20 \<or> total > length packet \<or> total < h \<or> frag AND 0x3fff \<noteq> 0 then Inr ([], False, False)
          else also_then (slice packet 0 total) (\<lambda>p. also_then (byte_at p 9) (\<lambda>proto.
            if proto = 17 then udp_challenge p h nonce
            else if proto = 6 then tcp_challenge p h nonce
            else Inr ([], False, False)))))))"

subsection \<open>The assembled program\<close>

text \<open>The block that compares the rest of the question, before its jumps are patched.\<close>

function compare_block :: "nat \<Rightarrow> string \<Rightarrow> bpf_insn list" where
  "compare_block offset rest =
     (if rest = [] then [insn 0x06 4096]
      else insn (piece_code (length rest)) offset
           # insn 0x15 (be_value (take (piece (length rest)) rest))
           # compare_block (offset + piece (length rest)) (drop (piece (length rest)) rest))"
  by pat_completeness auto
termination
  by (relation "measure (\<lambda>(offset, rest). length rest)") auto

function match_jumps :: "nat \<Rightarrow> string \<Rightarrow> nat list" where
  "match_jumps k rest = (if rest = [] then [] else (k + 1) # match_jumps (k + 2) (drop (piece (length rest)) rest))"
  by pat_completeness auto
termination
  by (relation "measure (\<lambda>(k, rest). length rest)") auto

declare compare_block.simps [simp del] match_jumps.simps [simp del]

lemma emit_match_code:
  "emit_match question offset pos s =
     s\<lparr>fa_code := fa_code s @ compare_block (offset + pos) (drop pos question),
       fa_drop_false := fa_drop_false s @ match_jumps (length (fa_code s)) (drop pos question)\<rparr>"
proof (induction question offset pos s rule: emit_match.induct)
  case (1 question offset pos s)
  show ?case
  proof (cases "pos < length question")
    case True
    let ?s = "emit_drop_false 0x15 (be_value (take (piece (length question - pos)) (drop pos question)))
        (emit (piece_code (length question - pos)) (offset + pos) s)"
    have "emit_match question offset pos s = emit_match question offset (pos + piece (length question - pos)) ?s"
      using True by (subst emit_match.simps) (simp add: Let_def)
    then show ?thesis using True
      by (subst compare_block.simps, subst match_jumps.simps)
        (simp only: 1 [OF True refl], simp add: emit_drop_false_def emit_def add.assoc add.commute)
  next
    case False
    then show ?thesis
      by (subst emit_match.simps, subst compare_block.simps, subst match_jumps.simps) (simp add: emit_def)
  qed
qed

lemma match_jumps_above: "i \<in> set (match_jumps k rest) \<Longrightarrow> k < i \<and> i + 1 < k + length (compare_block offset rest)"
proof (induction k rest arbitrary: offset rule: match_jumps.induct)
  case (1 k rest)
  show ?case
  proof (cases "rest = []")
    case True
    then show ?thesis using 1 by (simp add: match_jumps.simps)
  next
    case False
    have b: "length (compare_block offset rest) = length (compare_block (offset + piece (length rest)) (drop (piece (length rest)) rest)) + 2"
      using False by (subst compare_block.simps) simp
    have pos: "0 < length (compare_block o' r)" for o' r by (subst compare_block.simps) simp
    from 1(2) False consider "i = k + 1" | "i \<in> set (match_jumps (k + 2) (drop (piece (length rest)) rest))"
      by (subst (asm) match_jumps.simps) auto
    then show ?thesis
    proof cases
      case 1
      then show ?thesis using b pos by simp
    next
      case 2
      then show ?thesis using "1.IH" [OF False 2, of "offset + piece (length rest)"] b by simp
    qed
  qed
qed

definition piece_count :: "nat \<Rightarrow> nat" where
  "piece_count n = n div 4 + n mod 4 div 2 + n mod 2"

lemma piece_count_step: "n \<noteq> 0 \<Longrightarrow> piece_count n = piece_count (n - piece n) + 1"
proof -
  assume n: "n \<noteq> 0"
  show ?thesis
  proof (cases "n < 4")
    case True
    then have "n = 1 \<or> n = 2 \<or> n = 3" using n by linarith
    then show ?thesis by (elim disjE) (simp_all add: piece_count_def piece_def)
  next
    case False
    then obtain m where "n = m + 4" by (metis add.commute le_Suc_ex not_less)
    moreover have "(m + 2 * 2) mod 2 = m mod 2" by (rule mod_mult_self2)
    ultimately show ?thesis by (simp add: piece_count_def piece_def)
  qed
qed

lemma length_compare_block: "length (compare_block offset rest) = 2 * piece_count (length rest) + 1"
proof (induction offset rest rule: compare_block.induct)
  case (1 offset rest)
  show ?case
  proof (cases "rest = []")
    case False
    then show ?thesis using 1 [OF False] piece_count_step [of "length rest"]
      by (subst compare_block.simps) simp
  qed (subst compare_block.simps, simp add: piece_count_def)
qed

lemma nth_patch_false:
  "j < length f \<Longrightarrow> patch_false t is f ! j = (if j \<in> set is then (f ! j)\<lparr>bi_jf := jump_to t j\<rparr> else f ! j)"
  unfolding patch_false_def
proof (induction "is" arbitrary: f)
  case (Cons i "is")
  then show ?case by (cases "i = j") auto
qed simp

lemma nth_patch_true:
  "j < length f \<Longrightarrow> patch_true t is f ! j = (if j \<in> set is then (f ! j)\<lparr>bi_jt := jump_to t j\<rparr> else f ! j)"
  unfolding patch_true_def
proof (induction "is" arbitrary: f)
  case (Cons i "is")
  then show ?case by (cases "i = j") auto
qed simp

lemma length_patch_false [simp]: "length (patch_false t is f) = length f"
  unfolding patch_false_def by (induction "is" arbitrary: f) auto

lemma length_patch_true [simp]: "length (patch_true t is f) = length f"
  unfolding patch_true_def by (induction "is" arbitrary: f) auto

lemma jump_lands: "i < target \<Longrightarrow> target \<le> i + 256 \<Longrightarrow> i + 1 + jump_to target i = target"
  by (auto simp: jump_to_def)

subsection \<open>Running a block\<close>

lemma run_result: "pc < length f \<Longrightarrow> bpf_step (f ! pc) p pc a x = BpfResult r \<Longrightarrow> bpf_run f p pc a x = r"
  by (subst bpf_run.simps) simp

lemma run_state:
  "pc < length f \<Longrightarrow> bpf_step (f ! pc) p pc a x = BpfState pc' a' x' \<Longrightarrow> bpf_run f p pc a x = bpf_run f p pc' a' x'"
  by (subst bpf_run.simps) simp

lemma be_value_inj: "length s = length t \<Longrightarrow> be_value s = be_value t \<longleftrightarrow> s = t"
proof (induction s arbitrary: t rule: rev_induct)
  case (snoc c s)
  then obtain d u where t: "t = u @ [d]" by (cases t rule: rev_cases) auto
  have "256 * a + b = 256 * a' + b' \<longleftrightarrow> a = a' \<and> b = b'" if "b < 256" "b' < 256" for a b a' b' :: nat
  proof -
    have "(256 * a + b) div 256 = a" "(256 * a + b) mod 256 = b" "(256 * a' + b') div 256 = a'" "(256 * a' + b') mod 256 = b'"
      using that by simp_all
    then show ?thesis by metis
  qed
  from this [OF byte_bound byte_bound]
  have "256 * be_value s + byte c = 256 * be_value u + byte d \<longleftrightarrow> be_value s = be_value u \<and> byte c = byte d" .
  then show ?case using snoc t by (simp add: be_value_snoc byte_inj)
qed simp

text \<open>Instructions in place at \<open>k\<close>, with the jumps in \<open>js\<close> leading to \<open>d\<close>.\<close>

definition placed :: "bpf_insn list \<Rightarrow> nat \<Rightarrow> nat set \<Rightarrow> nat \<Rightarrow> bpf_insn list \<Rightarrow> bool" where
  "placed f k js d is \<longleftrightarrow>
     k + length is \<le> length f
     \<and> (\<forall>j < length is. f ! (k + j) = (if k + j \<in> js then (is ! j)\<lparr>bi_jf := jump_to d (k + j)\<rparr> else is ! j))"

lemma placed_Cons:
  "placed f k js d (i # is) \<longleftrightarrow>
     k < length f \<and> f ! k = (if k \<in> js then i\<lparr>bi_jf := jump_to d k\<rparr> else i) \<and> placed f (k + 1) js d is"
  by (auto simp: placed_def All_less_Suc2)

definition here :: "string \<Rightarrow> nat \<Rightarrow> string \<Rightarrow> bool" where
  "here p off s \<longleftrightarrow> take (length s) (drop off p) = s"

lemma here_split: "m \<le> length s \<Longrightarrow> here p off s \<longleftrightarrow> here p off (take m s) \<and> here p (off + m) (drop m s)"
proof -
  assume m: "m \<le> length s"
  have t: "take (length s) (drop off p) = take m (drop off p) @ take (length s - m) (drop (off + m) p)"
    using m take_add [of m "length s - m" "drop off p"] by (simp add: add.commute)
  have "here p off s \<longleftrightarrow> take m (drop off p) @ take (length s - m) (drop (off + m) p) = take m s @ drop m s"
    by (simp add: here_def t)
  also have "\<dots> \<longleftrightarrow> take m (drop off p) = take m s \<and> take (length s - m) (drop (off + m) p) = drop m s"
  proof
    assume e: "take m (drop off p) @ take (length s - m) (drop (off + m) p) = take m s @ drop m s"
    then have "length (take m (drop off p)) + length (take (length s - m) (drop (off + m) p)) = length s"
      using m by (metis append_take_drop_id length_append)
    then have "length (take m (drop off p)) = length (take m s)" using m by auto
    then show "take m (drop off p) = take m s \<and> take (length s - m) (drop (off + m) p) = drop m s"
      using e by (metis append_eq_append_conv)
  qed simp
  finally show ?thesis using m by (simp add: here_def min_def)
qed

lemma here_bound: "here p off s \<Longrightarrow> s \<noteq> [] \<Longrightarrow> off + length s \<le> length p"
proof -
  assume h: "here p off s" and "s \<noteq> []"
  have "length (take (length s) (drop off p)) = length s" using h by (simp add: here_def)
  then have "length s \<le> length p - off" by simp
  moreover have "0 < length s" using \<open>s \<noteq> []\<close> by simp
  ultimately show ?thesis by linarith
qed

lemma load_here: "s \<noteq> [] \<Longrightarrow> load p off (length s) = Some (be_value s) \<longleftrightarrow> here p off s"
  using be_value_inj [of "take (length s) (drop off p)" s] here_bound [of p off s]
  by (auto simp: load_def here_def)

lemma run_match:
  assumes "placed f k js d (compare_block offset rest)"
    and "\<forall>j. k \<le> j \<and> j < k + length (compare_block offset rest) \<longrightarrow> (j \<in> js \<longleftrightarrow> j \<in> set (match_jumps k rest))"
    and "k + length (compare_block offset rest) \<le> d" "d < 256" "d < length f" "f ! d = insn 0x06 0"
  shows "bpf_run f p k a x = Some (if here p (x + offset) rest then 4096 else 0)"
  using assms
proof (induction offset rest arbitrary: k a rule: compare_block.induct)
  case (1 offset rest)
  let ?n = "length rest" let ?m = "piece ?n"
  show ?case
  proof (cases "rest = []")
    case True
    then have "placed f k js d [insn 0x06 4096]" "k \<notin> js"
      using "1.prems"(1,2) by (simp_all add: compare_block.simps match_jumps.simps)
    then have "bpf_run f p k a x = Some 4096"
      by (intro run_result) (auto simp: placed_Cons bpf_step_def insn_def)
    then show ?thesis using True by (simp add: here_def)
  next
    case False
    let ?b = "compare_block (offset + ?m) (drop ?m rest)"
    have b: "compare_block offset rest = insn (piece_code ?n) offset # insn 0x15 (be_value (take ?m rest)) # ?b"
      and j: "match_jumps k rest = (k + 1) # match_jumps (k + 2) (drop ?m rest)"
      using False by (subst compare_block.simps, simp) (subst match_jumps.simps, simp add: False)
    have above: "i \<in> set (match_jumps (k + 2) (drop ?m rest)) \<Longrightarrow> k + 2 < i" for i
      using match_jumps_above [of i "k + 2"] by blast
    have "(k \<in> js \<longleftrightarrow> k \<in> set (match_jumps k rest)) \<and> (k + 1 \<in> js \<longleftrightarrow> k + 1 \<in> set (match_jumps k rest))"
      using "1.prems"(2) b by simp
    then have js: "k \<notin> js" "k + 1 \<in> js" using above [of k] j by auto
    then have f: "f ! k = insn (piece_code ?n) offset" "f ! (k + 1) = (insn 0x15 (be_value (take ?m rest)))\<lparr>bi_jf := jump_to d (k + 1)\<rparr>"
      and len: "k + 1 < length f" and pl: "placed f (k + 2) js d ?b"
      using "1.prems"(1) by (simp_all add: b placed_Cons)
    have rest: "bpf_run f p (k + 2) v x = Some (if here p (x + (offset + ?m)) (drop ?m rest) then 4096 else 0)" for v
      using "1.prems" b j above
      by (intro "1.IH" [OF False pl]) auto
    have drop: "bpf_run f p d v x = Some 0" for v
      using "1.prems" by (intro run_result) (auto simp: bpf_step_def insn_def)
    have load: "bpf_step (f ! k) p k a x = bpf_load (load p (x + offset) ?m) k x"
      by (simp add: f bpf_step_def insn_def Let_def piece_code_def piece_def)
    have m: "?m \<le> ?n" using False by (cases rest) (auto simp: piece_def)
    define e where "e = jump_to d (k + 1)"
    have "k + 1 + 1 + e = d" unfolding e_def using "1.prems"(3,4) b by (intro jump_lands) auto
    then have step: "bpf_step (f ! (k + 1)) p (k + 1) v x = BpfState (if v = be_value (take ?m rest) then k + 2 else d) v x" for v
      unfolding f(2) e_def [symmetric] by (simp add: bpf_step_def insn_def bpf_jump_def)
    have cmp: "bpf_run f p (k + 1) v x = (if v = be_value (take ?m rest) then bpf_run f p (k + 2) v x else bpf_run f p d v x)" for v
      unfolding run_state [OF len step] by (rule if_distrib)
    have "take ?m rest \<noteq> []" "length (take ?m rest) = ?m" using m False by (simp_all add: piece_def)
    then have eq: "load p (x + offset) ?m = Some (be_value (take ?m rest)) \<longleftrightarrow> here p (x + offset) (take ?m rest)"
      using load_here [of "take ?m rest" p "x + offset"] by simp
    show ?thesis
    proof (cases "load p (x + offset) ?m")
      case None
      then have "bpf_run f p k a x = Some 0" using len load by (intro run_result) (simp_all add: bpf_load_def)
      then show ?thesis using None eq here_split [OF m, of p "x + offset"] by simp
    next
      case (Some v)
      then have r: "bpf_run f p k a x = bpf_run f p (k + 1) v x"
        using len load by (intro run_state) (simp_all add: bpf_load_def)
      show ?thesis
        unfolding r cmp rest drop using Some eq here_split [OF m, of p "x + offset"] by (auto simp: add.assoc)
    qed
  qed
qed

subsection \<open>What the filter decides\<close>

text \<open>The decision on a packet: keep 4096 bytes, keep one byte (not understood), or drop it.\<close>

definition field :: "string \<Rightarrow> nat \<Rightarrow> nat \<Rightarrow> nat" where
  "field p off n = be_value (take n (drop off p))"

definition filter_verdict :: "nat \<Rightarrow> nat \<Rightarrow> nat \<Rightarrow> string \<Rightarrow> string \<Rightarrow> nat" where
  "filter_verdict src dst port question p =
     (let h = 4 * (field p 0 1 mod 16); len = field p 2 2 in
      if length p < 20 \<or> field p 0 1 div 16 \<noteq> 4 \<or> field p 12 4 \<noteq> src \<or> field p 16 4 \<noteq> dst
         \<or> (field p 9 1 \<noteq> 6 \<and> field p 9 1 \<noteq> 17) then 0
      else if field p 6 2 AND 0x3fff \<noteq> 0 then 1
      else if length p < h + 4 \<or> field p (h + 2) 2 \<noteq> port then 0
      else if field p 9 1 = 17 then
        (if len < h + 20 + length question then 1 else if here p (h + 20) question then 4096 else 0)
      else if length p < h + 13 then 0
      else
        let t = 4 * (field p (h + 12) 1 div 16) in
        if t < 20 \<or> len < h + t then 1
        else if len = h + t then 0
        else if len < h + t + 14 + length question then 1
        else if here p (h + t + 14) question then 4096 else 0)"

definition tcp_head :: "nat \<Rightarrow> bpf_insn list" where
  "tcp_head n = [insn 0x50 12, insn 0x54 0xf0, insn 0x74 2, insn 0x35 20, insn 0x0c 0, insn 0x07 0, insn 0x28 2,
     insn 0x3d 0, insn 0x1c 0, insn 0x15 0, insn 0x35 (14 + n)]"

definition udp_head :: "nat \<Rightarrow> bpf_insn list" where
  "udp_head n = [insn 0x28 2, insn 0x3d 0, insn 0x1c 0, insn 0x35 (20 + n)]"

lemma head_lengths [simp]:
  "length (tcp_head n) = 11" "length (udp_head n) = 4" "length (filter_head src dst port) = 17"
  by (simp_all add: tcp_head_def udp_head_def filter_head_def)

lemma filter_tcp_code:
  "filter_tcp question s =
     s\<lparr>fa_code := fa_code s @ tcp_head (length question) @ compare_block 14 question,
       fa_drop_false := fa_drop_false s @ match_jumps (length (fa_code s) + 11) question,
       fa_drop_true := fa_drop_true s @ [length (fa_code s) + 9],
       fa_meta_false := fa_meta_false s @ [length (fa_code s) + 3, length (fa_code s) + 7, length (fa_code s) + 10]\<rparr>"
  by (rule filter_asm.equality)
    (simp_all add: filter_tcp_def emit_match_code emit_def emit_meta_false_def emit_drop_true_def tcp_head_def,
     simp_all add: numeral_eq_Suc)

lemma filter_udp_code:
  "filter_udp question s =
     s\<lparr>fa_code := fa_code s @ udp_head (length question) @ compare_block 20 question,
       fa_drop_false := fa_drop_false s @ match_jumps (length (fa_code s) + 4) question,
       fa_meta_false := fa_meta_false s @ [length (fa_code s) + 1, length (fa_code s) + 3]\<rparr>"
  by (rule filter_asm.equality)
    (simp_all add: filter_udp_def emit_match_code emit_def emit_meta_false_def udp_head_def,
     simp_all add: numeral_eq_Suc)

text \<open>The whole program before patching, for a question whose blocks have \<open>n\<close> instructions.\<close>

definition raw_filter :: "nat \<Rightarrow> nat \<Rightarrow> nat \<Rightarrow> string \<Rightarrow> nat \<Rightarrow> bpf_insn list" where
  "raw_filter src dst port question n =
     (filter_head src dst port)[16 := (insn 0x15 17)\<lparr>bi_jt := nat ((int (28 + n) - 17) mod 256)\<rparr>]
     @ tcp_head (length question) @ compare_block 14 question
     @ udp_head (length question) @ compare_block 20 question @ [insn 0x06 0, insn 0x06 1]"

lemma scoped_filter_code:
  assumes d: "dns_query random nonce = Inr (query, i)"
    and q: "question = take (length query - 11 - 12) (drop 12 query)"
    and n: "n = 2 * piece_count (length question) + 1"
  shows "scoped_packet_filter random src dst port nonce =
    (if length question > 96 then Inl DnsUnsupported else Inr (patch_false (33 + 2 * n) [20, 24, 27, 29 + n, 31 + n] (patch_true (33 + 2 * n) [11]
        (patch_true (32 + 2 * n) [26] (patch_false (32 + 2 * n)
           ([2, 4, 6, 9, 14] @ match_jumps 28 question @ match_jumps (32 + n) question)
           (raw_filter src dst port question n))))))"
proof -
  have l: "length (compare_block off question) = n" for off by (simp add: length_compare_block n)
  have h: "filter_head src dst port ! 16 = insn 0x15 17" by (simp add: filter_head_def)
  let ?s0 = "\<lparr>fa_code = filter_head src dst port, fa_drop_false = [2, 4, 6, 9, 14], fa_drop_true = [],
              fa_meta_true = [11], fa_meta_false = []\<rparr>"
  let ?c1 = "filter_head src dst port @ tcp_head (length question) @ compare_block 14 question"
  let ?c2 = "?c1 @ udp_head (length question) @ compare_block 20 question"
  let ?j = "[2, 4, 6, 9, 14] @ match_jumps 28 question"
  have s1: "filter_tcp question ?s0 = \<lparr>fa_code = ?c1, fa_drop_false = ?j, fa_drop_true = [26], fa_meta_true = [11],
      fa_meta_false = [20, 24, 27]\<rparr>"
    by (simp add: filter_tcp_code)
  have l1: "length ?c1 = 28 + n" and l2: "length ?c2 = 32 + 2 * n"
    and u: "28 + n + 4 = 32 + n" "28 + n + 1 = 29 + n" "28 + n + 3 = 31 + n" by (simp_all add: l)
  have s2: "filter_udp question (filter_tcp question ?s0) = \<lparr>fa_code = ?c2, fa_drop_false = ?j @ match_jumps (32 + n) question,
      fa_drop_true = [26], fa_meta_true = [11], fa_meta_false = [20, 24, 27, 29 + n, 31 + n]\<rparr>"
    unfolding s1 filter_udp_code by (simp only: filter_asm.simps l1 u append_assoc append_Cons append_Nil)
  have e: "emit 0x06 1 (emit 0x06 0 (filter_udp question (filter_tcp question ?s0))) =
      \<lparr>fa_code = ?c2 @ [insn 0x06 0, insn 0x06 1], fa_drop_false = ?j @ match_jumps (32 + n) question,
       fa_drop_true = [26], fa_meta_true = [11], fa_meta_false = [20, 24, 27, 29 + n, 31 + n]\<rparr>"
    unfolding s2 emit_def by simp
  have r: "(?c2 @ [insn 0x06 0, insn 0x06 1])[16 := ((?c2 @ [insn 0x06 0, insn 0x06 1]) ! 16)\<lparr>bi_jt := nat ((int (28 + n) - 17) mod 256)\<rparr>]
      = raw_filter src dst port question n"
    by (simp add: raw_filter_def list_update_append nth_append h)
  have meta: "length (fa_code (emit 0x06 0 (filter_udp question (filter_tcp question ?s0)))) = 33 + 2 * n"
    unfolding s2 emit_def using l2 by simp
  have c1: "fa_code (filter_tcp question ?s0) = ?c1" "fa_code (filter_udp question (filter_tcp question ?s0)) = ?c2"
    unfolding s2 unfolding s1 by simp_all
  have short: "length (?c2 @ [insn 0x06 0, insn 0x06 1]) \<le> 255" if "length question \<le> 96"
    using l2 that by (simp add: n piece_count_def)
  note def = scoped_packet_filter_def d also_then_def sum.case prod.case q [symmetric] Let_def e meta c1 l1 l2
      filter_asm.simps r
  show ?thesis
  proof (cases "length question > 96")
    case True
    then show ?thesis unfolding def by simp
  next
    case False
    then show ?thesis using short unfolding def by simp
  qed
qed

lemma run_load:
  assumes "pc < length f" "f ! pc = insn code k" "bpf_step (insn code k) p pc a x = bpf_load (load p off m) pc x"
  shows "bpf_run f p pc a x = (if off + m \<le> length p then bpf_run f p (pc + 1) (field p off m) x else Some 0)"
  using assms run_result [of pc f p a x "Some 0"] run_state [of pc f p a x "pc + 1" "field p off m" x]
  by (auto simp: load_def bpf_load_def field_def)

lemma run_unless:
  assumes "pc < length f" "f ! pc = (insn code k)\<lparr>bi_jf := jump_to d pc\<rparr>" "pc < d" "d \<le> pc + 256"
    and "\<And>i. bi_code i = code \<Longrightarrow> bi_k i = k \<Longrightarrow> bpf_step i p pc a x = bpf_jump c i pc a x"
  shows "bpf_run f p pc a x = (if c then bpf_run f p (pc + 1) a x else bpf_run f p d a x)"
proof -
  define e where "e = jump_to d pc"
  have "pc + 1 + e = d" unfolding e_def using assms(3,4) by (rule jump_lands)
  moreover have "bpf_step (f ! pc) p pc a x = bpf_jump c ((insn code k)\<lparr>bi_jf := e\<rparr>) pc a x"
    unfolding assms(2) e_def by (rule assms(5)) (simp_all add: insn_def)
  ultimately have "bpf_step (f ! pc) p pc a x = BpfState (if c then pc + 1 else d) a x"
    by (simp add: bpf_jump_def insn_def)
  from run_state [OF assms(1) this] show ?thesis by simp
qed

lemma run_when:
  assumes "pc < length f" "f ! pc = (insn code k)\<lparr>bi_jt := jump_to d pc\<rparr>" "pc < d" "d \<le> pc + 256"
    and "\<And>i. bi_code i = code \<Longrightarrow> bi_k i = k \<Longrightarrow> bpf_step i p pc a x = bpf_jump c i pc a x"
  shows "bpf_run f p pc a x = (if c then bpf_run f p d a x else bpf_run f p (pc + 1) a x)"
proof -
  define e where "e = jump_to d pc"
  have "pc + 1 + e = d" unfolding e_def using assms(3,4) by (rule jump_lands)
  moreover have "bpf_step (f ! pc) p pc a x = bpf_jump c ((insn code k)\<lparr>bi_jt := e\<rparr>) pc a x"
    unfolding assms(2) e_def by (rule assms(5)) (simp_all add: insn_def)
  ultimately have "bpf_step (f ! pc) p pc a x = BpfState (if c then d else pc + 1) a x"
    by (simp add: bpf_jump_def insn_def)
  from run_state [OF assms(1) this] show ?thesis by simp
qed

text \<open>The program in place: the fixed instructions with their jumps, and the two blocks.\<close>

lemma filter_code:
  fixes n :: nat
  assumes f: "f = patch_false (33 + 2 * n) [20, 24, 27, 29 + n, 31 + n] (patch_true (33 + 2 * n) [11]
        (patch_true (32 + 2 * n) [26] (patch_false (32 + 2 * n)
           ([2, 4, 6, 9, 14] @ match_jumps 28 question @ match_jumps (32 + n) question)
           (raw_filter src dst port question n))))"
    and n: "n = 2 * piece_count (length question) + 1" and d: "d = 32 + 2 * n" and m: "m = 33 + 2 * n"
  shows "length f = 34 + 2 * n"
    "f ! 0 = insn 0x30 0" "f ! 1 = insn 0x54 0xf0" "f ! 2 = (insn 0x15 0x40)\<lparr>bi_jf := jump_to d 2\<rparr>"
    "f ! 3 = insn 0x20 12" "f ! 4 = (insn 0x15 src)\<lparr>bi_jf := jump_to d 4\<rparr>"
    "f ! 5 = insn 0x20 16" "f ! 6 = (insn 0x15 dst)\<lparr>bi_jf := jump_to d 6\<rparr>"
    "f ! 7 = insn 0x30 9" "f ! 8 = (insn 0x15 17)\<lparr>bi_jt := 1\<rparr>" "f ! 9 = (insn 0x15 6)\<lparr>bi_jf := jump_to d 9\<rparr>"
    "f ! 10 = insn 0x28 6" "f ! 11 = (insn 0x45 0x3fff)\<lparr>bi_jt := jump_to m 11\<rparr>"
    "f ! 12 = insn 0xb1 0" "f ! 13 = insn 0x48 2" "f ! 14 = (insn 0x15 port)\<lparr>bi_jf := jump_to d 14\<rparr>"
    "f ! 15 = insn 0x30 9" "f ! 16 = (insn 0x15 17)\<lparr>bi_jt := nat ((int (28 + n) - 17) mod 256)\<rparr>"
    "f ! 17 = insn 0x50 12" "f ! 18 = insn 0x54 0xf0" "f ! 19 = insn 0x74 2"
    "f ! 20 = (insn 0x35 20)\<lparr>bi_jf := jump_to m 20\<rparr>" "f ! 21 = insn 0x0c 0" "f ! 22 = insn 0x07 0"
    "f ! 23 = insn 0x28 2" "f ! 24 = (insn 0x3d 0)\<lparr>bi_jf := jump_to m 24\<rparr>" "f ! 25 = insn 0x1c 0"
    "f ! 26 = (insn 0x15 0)\<lparr>bi_jt := jump_to d 26\<rparr>" "f ! 27 = (insn 0x35 (14 + length question))\<lparr>bi_jf := jump_to m 27\<rparr>"
    "f ! (28 + n) = insn 0x28 2" "f ! (29 + n) = (insn 0x3d 0)\<lparr>bi_jf := jump_to m (29 + n)\<rparr>" "f ! (30 + n) = insn 0x1c 0"
    "f ! (31 + n) = (insn 0x35 (20 + length question))\<lparr>bi_jf := jump_to m (31 + n)\<rparr>"
    "f ! d = insn 0x06 0" "f ! m = insn 0x06 1"
    "placed f 28 (set (match_jumps 28 question)) d (compare_block 14 question)"
    "placed f (32 + n) (set (match_jumps (32 + n) question)) d (compare_block 20 question)"
proof -
  have l: "length (compare_block off question) = n" for off by (simp add: length_compare_block n)
  have len: "length (raw_filter src dst port question n) = 34 + 2 * n" by (simp add: raw_filter_def l)
  then show "length f = 34 + 2 * n" by (simp add: f)
  let ?js = "set ([2, 4, 6, 9, 14] @ match_jumps 28 question @ match_jumps (32 + n) question)"
  have at: "f ! j =
      (let c = raw_filter src dst port question n ! j;
           c = (if j \<in> ?js then c\<lparr>bi_jf := jump_to d j\<rparr> else c);
           c = (if j \<in> set [26] then c\<lparr>bi_jt := jump_to d j\<rparr> else c);
           c = (if j \<in> set [11] then c\<lparr>bi_jt := jump_to m j\<rparr> else c)
       in if j \<in> set [20, 24, 27, 29 + n, 31 + n] then c\<lparr>bi_jf := jump_to m j\<rparr> else c)"
    if "j < 34 + 2 * n" for j
    using that by (simp only: f nth_patch_false nth_patch_true length_patch_false length_patch_true len Let_def d m)
  have in1: "j \<in> set (match_jumps 28 question) \<Longrightarrow> 28 < j \<and> j < 28 + n" for j
    using match_jumps_above [of j 28 question 14] by (simp add: l)
  have in2: "j \<in> set (match_jumps (32 + n) question) \<Longrightarrow> 32 + n < j \<and> j < 32 + 2 * n" for j
    using match_jumps_above [of j "32 + n" question 20] by (simp add: l)
  have js: "j \<in> ?js \<longleftrightarrow> j \<in> {2, 4, 6, 9, 14}" if "j \<le> 28 \<or> (28 + n \<le> j \<and> j \<le> 32 + n) \<or> d \<le> j" for j
    using in1 [of j] in2 [of j] that by (auto simp: d)
  have low: "raw_filter src dst port question n ! j =
      ((filter_head src dst port)[16 := (insn 0x15 17)\<lparr>bi_jt := nat ((int (28 + n) - 17) mod 256)\<rparr>] @ tcp_head (length question)) ! j"
    if "j < 28" for j using that by (simp add: raw_filter_def nth_append)
  have at28: "f ! j =
      (let c = ((filter_head src dst port)[16 := (insn 0x15 17)\<lparr>bi_jt := nat ((int (28 + n) - 17) mod 256)\<rparr>] @ tcp_head (length question)) ! j;
           c = (if j \<in> {2, 4, 6, 9, 14} then c\<lparr>bi_jf := jump_to d j\<rparr> else c);
           c = (if j = 26 then c\<lparr>bi_jt := jump_to d j\<rparr> else c);
           c = (if j = 11 then c\<lparr>bi_jt := jump_to m j\<rparr> else c)
       in if j = 20 \<or> j = 24 \<or> j = 27 then c\<lparr>bi_jf := jump_to m j\<rparr> else c)" if "j < 28" for j
    using that at [of j] js [of j] low [OF that] by simp
  have b1: "raw_filter src dst port question n ! (28 + j) = compare_block 14 question ! j" if "j < n" for j
    using that by (simp add: raw_filter_def nth_append l)
  have u: "raw_filter src dst port question n ! (28 + n + j) = udp_head (length question) ! j" if "j < 4" for j
    using that by (simp add: raw_filter_def nth_append l)
  have b2: "raw_filter src dst port question n ! (32 + n + j) = compare_block 20 question ! j" if "j < n" for j
    using that by (simp add: raw_filter_def nth_append l)
  have t: "raw_filter src dst port question n ! (32 + 2 * n) = insn 0x06 0" "raw_filter src dst port question n ! (33 + 2 * n) = insn 0x06 1"
    by (simp_all add: raw_filter_def nth_append l)
  show "f ! 0 = insn 0x30 0" "f ! 1 = insn 0x54 0xf0" "f ! 2 = (insn 0x15 0x40)\<lparr>bi_jf := jump_to d 2\<rparr>"
    "f ! 3 = insn 0x20 12" "f ! 4 = (insn 0x15 src)\<lparr>bi_jf := jump_to d 4\<rparr>"
    "f ! 5 = insn 0x20 16" "f ! 6 = (insn 0x15 dst)\<lparr>bi_jf := jump_to d 6\<rparr>"
    "f ! 7 = insn 0x30 9" "f ! 8 = (insn 0x15 17)\<lparr>bi_jt := 1\<rparr>" "f ! 9 = (insn 0x15 6)\<lparr>bi_jf := jump_to d 9\<rparr>"
    "f ! 10 = insn 0x28 6" "f ! 11 = (insn 0x45 0x3fff)\<lparr>bi_jt := jump_to m 11\<rparr>"
    "f ! 12 = insn 0xb1 0" "f ! 13 = insn 0x48 2" "f ! 14 = (insn 0x15 port)\<lparr>bi_jf := jump_to d 14\<rparr>"
    "f ! 15 = insn 0x30 9" "f ! 16 = (insn 0x15 17)\<lparr>bi_jt := nat ((int (28 + n) - 17) mod 256)\<rparr>"
    "f ! 17 = insn 0x50 12" "f ! 18 = insn 0x54 0xf0" "f ! 19 = insn 0x74 2"
    "f ! 20 = (insn 0x35 20)\<lparr>bi_jf := jump_to m 20\<rparr>" "f ! 21 = insn 0x0c 0" "f ! 22 = insn 0x07 0"
    "f ! 23 = insn 0x28 2" "f ! 24 = (insn 0x3d 0)\<lparr>bi_jf := jump_to m 24\<rparr>" "f ! 25 = insn 0x1c 0"
    "f ! 26 = (insn 0x15 0)\<lparr>bi_jt := jump_to d 26\<rparr>" "f ! 27 = (insn 0x35 (14 + length question))\<lparr>bi_jf := jump_to m 27\<rparr>"
    by (simp_all add: at28 filter_head_def tcp_head_def)
  show "f ! (28 + n) = insn 0x28 2" "f ! (29 + n) = (insn 0x3d 0)\<lparr>bi_jf := jump_to m (29 + n)\<rparr>" "f ! (30 + n) = insn 0x1c 0"
    "f ! (31 + n) = (insn 0x35 (20 + length question))\<lparr>bi_jf := jump_to m (31 + n)\<rparr>"
    using u [of 0] u [of 1] u [of 2] u [of 3] js [of "28 + n"] js [of "29 + n"] js [of "30 + n"] js [of "31 + n"]
    by (simp_all add: at udp_head_def Let_def)
  show "f ! d = insn 0x06 0" "f ! m = insn 0x06 1"
    using js [of d] js [of m] t by (simp_all add: at d m)
  have range1: "28 + j \<in> ?js \<longleftrightarrow> 28 + j \<in> set (match_jumps 28 question)" if "j < n" for j
    using in2 [of "28 + j"] that by auto
  have range2: "32 + n + j \<in> ?js \<longleftrightarrow> 32 + n + j \<in> set (match_jumps (32 + n) question)" if "j < n" for j
    using in1 [of "32 + n + j"] that by auto
  show "placed f 28 (set (match_jumps 28 question)) d (compare_block 14 question)"
    unfolding placed_def l using \<open>length f = _\<close> b1 range1 in1 by (auto simp: at Let_def)
  show "placed f (32 + n) (set (match_jumps (32 + n) question)) d (compare_block 20 question)"
    unfolding placed_def l using \<open>length f = _\<close> b2 range2 in2 by (auto simp: at Let_def)
qed

lemma and_240: "b < 256 \<Longrightarrow> b AND 240 = 16 * (b div 16 :: nat)"
proof -
  assume b: "b < 256"
  have "b AND 240 = b AND push_bit 4 (mask 4)" by (simp add: mask_eq_exp_minus_1 push_bit_eq_mult)
  also have "\<dots> = push_bit 4 (drop_bit 4 b AND mask 4)"
    by (rule bit_eqI) (auto simp: bit_simps)
  also have "\<dots> = 16 * (b div 16)"
    using b by (simp flip: take_bit_eq_mask add: take_bit_eq_mod drop_bit_eq_div push_bit_eq_mult)
  finally show ?thesis .
qed

lemma and_15: "(b :: nat) AND 15 = b mod 16"
  using take_bit_eq_mask [of 4 b] by (simp add: take_bit_eq_mod mask_eq_exp_minus_1)

lemma field_bound: "field p off n < 256 ^ n"
proof -
  have "be_value (take n (drop off p)) < 256 ^ length (take n (drop off p))" by (rule be_value_bound)
  also have "\<dots> \<le> 256 ^ n" by (rule power_increasing) auto
  finally show ?thesis by (simp add: field_def)
qed

text \<open>
  (C29) The assembled filter is correct. For every question the observer asks for, every pair of
  addresses and every port, running the program on any packet whatever, from its first instruction,
  ends and returns exactly the decision written out in \<open>filter_verdict\<close>: 4096 bytes of a packet that
  carries the question from the one address to the other on the port, one byte of a packet of the two
  addresses that cannot be judged, nothing of any other. The patched 8-bit jumps all land where the
  assembler means them to.
\<close>

theorem filter_exact:
  assumes f: "scoped_packet_filter random src dst port nonce = Inr f"
    and q: "dns_query random nonce = Inr (query, i)"
  shows "bpf_run f p 0 0 0
       = Some (filter_verdict src dst port (take (length query - 11 - 12) (drop 12 query)) p)"
proof -
  define question where "question = take (length query - 11 - 12) (drop 12 query)"
  define n d m where "n = 2 * piece_count (length question) + 1" and "d = 32 + 2 * n" and "m = 33 + 2 * n"
  have sc: "length question \<le> 96 \<and> f = patch_false (33 + 2 * n) [20, 24, 27, 29 + n, 31 + n] (patch_true (33 + 2 * n) [11]
        (patch_true (32 + 2 * n) [26] (patch_false (32 + 2 * n)
           ([2, 4, 6, 9, 14] @ match_jumps 28 question @ match_jumps (32 + n) question)
           (raw_filter src dst port question n))))"
    using f unfolding scoped_filter_code [OF q question_def n_def] by (simp split: if_splits)
  have pc: "piece_count (length question) \<le> 27" using sc by (auto simp: piece_count_def)
  note c = filter_code [OF sc [THEN conjunct2] n_def d_def m_def]
  have len: "length f = 34 + 2 * n" and n51: "n \<le> 55" using c(1) pc by (simp_all add: n_def)
  have d: "27 < d" "d < 256" "d < length f" "31 + n < d" and m: "31 + n < m" "m < 256" "m < length f"
    using n51 by (simp_all add: d_def m_def len)
  define R where "R = bpf_run f p"
  note s = bpf_step_def bpf_load_def insn_def Let_def
  have drop: "R d a x = Some 0" and meta: "R m a x = Some 1" for a x
    using c(34,35) d m by (simp_all add: R_def run_result bpf_step_def insn_def)
  have S0: "R 0 a x = (if 0 + 1 \<le> length p then R (0 + 1) (field p (0) 1) x else Some 0)" for a x
    unfolding R_def by (rule run_load [OF _ c(2)]) (use len n51 in \<open>simp_all add: bpf_step_def Let_def insn_def\<close>)
  have S1: "R 1 a x = R (1 + 1) (a AND 240) x" for a x
    unfolding R_def by (rule run_state) (use len n51 c(3) in \<open>simp_all add: bpf_step_def Let_def insn_def\<close>)
  have S2: "R 2 a x = (if a = 64 then R (2 + 1) a x else R d a x)" for a x
    unfolding R_def by (rule run_unless [OF _ c(4)]) (use len n51 d m in \<open>simp_all add: bpf_step_def Let_def\<close>)
  have S3: "R 3 a x = (if 12 + 4 \<le> length p then R (3 + 1) (field p (12) 4) x else Some 0)" for a x
    unfolding R_def by (rule run_load [OF _ c(5)]) (use len n51 in \<open>simp_all add: bpf_step_def Let_def insn_def\<close>)
  have S4: "R 4 a x = (if a = src then R (4 + 1) a x else R d a x)" for a x
    unfolding R_def by (rule run_unless [OF _ c(6)]) (use len n51 d m in \<open>simp_all add: bpf_step_def Let_def\<close>)
  have S5: "R 5 a x = (if 16 + 4 \<le> length p then R (5 + 1) (field p (16) 4) x else Some 0)" for a x
    unfolding R_def by (rule run_load [OF _ c(7)]) (use len n51 in \<open>simp_all add: bpf_step_def Let_def insn_def\<close>)
  have S6: "R 6 a x = (if a = dst then R (6 + 1) a x else R d a x)" for a x
    unfolding R_def by (rule run_unless [OF _ c(8)]) (use len n51 d m in \<open>simp_all add: bpf_step_def Let_def\<close>)
  have S7: "R 7 a x = (if 9 + 1 \<le> length p then R (7 + 1) (field p (9) 1) x else Some 0)" for a x
    unfolding R_def by (rule run_load [OF _ c(9)]) (use len n51 in \<open>simp_all add: bpf_step_def Let_def insn_def\<close>)
  have S8: "R 8 a x = R (if a = 17 then 10 else 9) a x" for a x
    unfolding R_def by (rule run_state) (use len n51 c(10) in \<open>simp_all add: bpf_step_def bpf_jump_def Let_def insn_def\<close>)
  have S9: "R 9 a x = (if a = 6 then R (9 + 1) a x else R d a x)" for a x
    unfolding R_def by (rule run_unless [OF _ c(11)]) (use len n51 d m in \<open>simp_all add: bpf_step_def Let_def\<close>)
  have S10: "R 10 a x = (if 6 + 2 \<le> length p then R (10 + 1) (field p (6) 2) x else Some 0)" for a x
    unfolding R_def by (rule run_load [OF _ c(12)]) (use len n51 in \<open>simp_all add: bpf_step_def Let_def insn_def\<close>)
  have S11: "R 11 a x = (if a AND 16383 \<noteq> 0 then R m a x else R (11 + 1) a x)" for a x
    unfolding R_def by (rule run_when [OF _ c(13)]) (use len n51 d m in \<open>simp_all add: bpf_step_def Let_def\<close>)
  have S12: "R 12 a x = (if 1 \<le> length p then R 13 a (4 * (field p 0 1 AND 15)) else Some 0)" for a x
    unfolding R_def using len c(14) run_result [of 12 f p a x "Some 0"] run_state [of 12 f p a x 13 a "4 * (field p 0 1 AND 15)"]
    by (auto simp: bpf_step_def Let_def insn_def load_def field_def)
  have S13: "R 13 a x = (if x + 2 + 2 \<le> length p then R (13 + 1) (field p (x + 2) 2) x else Some 0)" for a x
    unfolding R_def by (rule run_load [OF _ c(15)]) (use len n51 in \<open>simp_all add: bpf_step_def Let_def insn_def\<close>)
  have S14: "R 14 a x = (if a = port then R (14 + 1) a x else R d a x)" for a x
    unfolding R_def by (rule run_unless [OF _ c(16)]) (use len n51 d m in \<open>simp_all add: bpf_step_def Let_def\<close>)
  have S15: "R 15 a x = (if 9 + 1 \<le> length p then R (15 + 1) (field p (9) 1) x else Some 0)" for a x
    unfolding R_def by (rule run_load [OF _ c(17)]) (use len n51 in \<open>simp_all add: bpf_step_def Let_def insn_def\<close>)
  have S16: "R 16 a x = R (if a = 17 then 28 + n else 17) a x" for a x
    unfolding R_def by (rule run_state) (use len n51 c(18) in \<open>simp_all add: bpf_step_def bpf_jump_def Let_def insn_def nat_add_distrib\<close>)
  have S17: "R 17 a x = (if x + 12 + 1 \<le> length p then R (17 + 1) (field p (x + 12) 1) x else Some 0)" for a x
    unfolding R_def by (rule run_load [OF _ c(19)]) (use len n51 in \<open>simp_all add: bpf_step_def Let_def insn_def\<close>)
  have S18: "R 18 a x = R (18 + 1) (a AND 240) x" for a x
    unfolding R_def by (rule run_state) (use len n51 c(20) in \<open>simp_all add: bpf_step_def Let_def insn_def\<close>)
  have S19: "R 19 a x = R (19 + 1) (drop_bit 2 a) x" for a x
    unfolding R_def by (rule run_state) (use len n51 c(21) in \<open>simp_all add: bpf_step_def Let_def insn_def\<close>)
  have S20: "R 20 a x = (if 20 \<le> a then R (20 + 1) a x else R m a x)" for a x
    unfolding R_def by (rule run_unless [OF _ c(22)]) (use len n51 d m in \<open>simp_all add: bpf_step_def Let_def\<close>)
  have S21: "R 21 a x = R (21 + 1) ((a + x) mod 2 ^ 32) x" for a x
    unfolding R_def by (rule run_state) (use len n51 c(23) in \<open>simp_all add: bpf_step_def Let_def insn_def\<close>)
  have S22: "R 22 a x = R (22 + 1) a a" for a x
    unfolding R_def by (rule run_state) (use len n51 c(24) in \<open>simp_all add: bpf_step_def Let_def insn_def\<close>)
  have S23: "R 23 a x = (if 2 + 2 \<le> length p then R (23 + 1) (field p (2) 2) x else Some 0)" for a x
    unfolding R_def by (rule run_load [OF _ c(25)]) (use len n51 in \<open>simp_all add: bpf_step_def Let_def insn_def\<close>)
  have S24: "R 24 a x = (if x \<le> a then R (24 + 1) a x else R m a x)" for a x
    unfolding R_def by (rule run_unless [OF _ c(26)]) (use len n51 d m in \<open>simp_all add: bpf_step_def Let_def\<close>)
  have S25: "R 25 a x = R (25 + 1) ((a + 2 ^ 32 - x) mod 2 ^ 32) x" for a x
    unfolding R_def by (rule run_state) (use len n51 c(27) in \<open>simp_all add: bpf_step_def Let_def insn_def\<close>)
  have S26: "R 26 a x = (if a = 0 then R d a x else R (26 + 1) a x)" for a x
    unfolding R_def by (rule run_when [OF _ c(28)]) (use len n51 d m in \<open>simp_all add: bpf_step_def Let_def\<close>)
  have S27: "R 27 a x = (if 14 + length question \<le> a then R (27 + 1) a x else R m a x)" for a x
    unfolding R_def by (rule run_unless [OF _ c(29)]) (use len n51 d m in \<open>simp_all add: bpf_step_def Let_def\<close>)
  have Su0: "R (28 + n) a x = (if 2 + 2 \<le> length p then R ((28 + n) + 1) (field p (2) 2) x else Some 0)" for a x
    unfolding R_def by (rule run_load [OF _ c(30)]) (use len n51 in \<open>simp_all add: bpf_step_def Let_def insn_def\<close>)
  have Su1: "R (29 + n) a x = (if x \<le> a then R ((29 + n) + 1) a x else R m a x)" for a x
    unfolding R_def by (rule run_unless [OF _ c(31)]) (use len n51 d m in \<open>simp_all add: bpf_step_def Let_def\<close>)
  have Su2: "R (30 + n) a x = R ((30 + n) + 1) ((a + 2 ^ 32 - x) mod 2 ^ 32) x" for a x
    unfolding R_def by (rule run_state) (use len n51 c(32) in \<open>simp_all add: bpf_step_def Let_def insn_def\<close>)
  have Su3: "R (31 + n) a x = (if 20 + length question \<le> a then R ((31 + n) + 1) a x else R m a x)" for a x
    unfolding R_def by (rule run_unless [OF _ c(33)]) (use len n51 d m in \<open>simp_all add: bpf_step_def Let_def\<close>)
  have l: "length (compare_block off question) = n" for off by (simp add: length_compare_block n_def)
  have M1: "R 28 a x = Some (if here p (x + 14) question then 4096 else 0)" for a x
    unfolding R_def by (rule run_match [OF c(36)]) (use c(34) d l in \<open>simp_all add: d_def\<close>)
  have M2: "R (32 + n) a x = Some (if here p (x + 20) question then 4096 else 0)" for a x
    unfolding R_def by (rule run_match [OF c(37)]) (use c(34) d l in \<open>simp_all add: d_def\<close>)
  have "R 0 0 0 = Some (filter_verdict src dst port question p)"
  proof -
    define v w where "v = field p 0 1 div 16" and "w = field p 0 1 mod 16"
    define u where "u = field p (4 * w + 12) 1 div 16"
    let ?h = "4 * w" and ?t = "4 * u"
    have small: "field p k 1 < 256" for k using field_bound [of p k 1] by simp
    have a240: "field p 0 1 AND 240 = 16 * v" "field p (4 * w + 12) 1 AND 240 = 16 * u"
      unfolding v_def u_def using small by (auto intro: and_240)
    have a15: "field p 0 1 AND 15 = w" by (simp add: w_def and_15)
    have d2: "drop_bit 2 (16 * y) = 4 * y" for y :: nat by (simp add: drop_bit_eq_div)
    have h: "?h \<le> 60" and t: "?t \<le> 60" using small [of "?h + 12"] by (auto simp: w_def u_def)
    have b: "field p 2 2 < 65536" using field_bound [of p 2 2] by simp
    have add: "(?t + ?h) mod 2 ^ 32 = ?t + ?h" using h t by simp
    have sub: "(v + 2 ^ 32 - x) mod 2 ^ 32 = v - x" if "x \<le> v" "v < 65536" for v x :: nat
    proof -
      have "v + 2 ^ 32 - x = (v - x) + 2 ^ 32" using that by simp
      moreover have "v - x < 2 ^ 32" using that by simp
      ultimately show ?thesis by (simp only: mod_add_self2 mod_less)
    qed
    have nx: "28 + n + 1 = 29 + n" "29 + n + 1 = 30 + n" "30 + n + 1 = 31 + n" "31 + n + 1 = 32 + n" by simp_all
    have udp: "R (28 + n) a ?h = Some (if field p 2 2 < ?h + 20 + length question then 1 else if here p (?h + 20) question then 4096 else 0)"
      if "20 \<le> length p" for a
      using that b sub [of ?h "field p 2 2"]
      by (cases "?h \<le> field p 2 2") (auto simp: Su0 Su1 Su2 Su3 nx M2 meta simp del: One_nat_def)
    have tcp: "R 17 a ?h = Some (if length p < ?h + 13 then 0 else if ?t < 20 \<or> field p 2 2 < ?h + ?t then 1
        else if field p 2 2 = ?h + ?t then 0 else if field p 2 2 < ?h + ?t + 14 + length question then 1
        else if here p (?h + ?t + 14) question then 4096 else 0)"
      if "20 \<le> length p" for a
    proof -
      define z where "z = ?t + ?h"
      have z: "?h + ?t = z" "(?t + ?h) mod 2 ^ 32 = z" using add by (simp_all add: z_def)
      have "R 23 x' z = Some (if field p 2 2 < z then 1 else if field p 2 2 = z then 0
          else if field p 2 2 < z + 14 + length question then 1 else if here p (z + 14) question then 4096 else 0)" for x'
        using that b sub [of z "field p 2 2"]
        by (cases "z \<le> field p 2 2") (auto simp: S23 S24 S25 S26 S27 M1 meta drop simp del: One_nat_def)
      then show ?thesis unfolding z(1)
        by (simp add: S17 S18 S19 S20 S21 S22 meta a240 d2 z(2) [simplified] del: One_nat_def)
    qed
    have H0: "R 0 0 0 = Some 0" if "length p < 20"
      using that by (simp add: S0 S1 S2 S3 S4 S5 drop del: One_nat_def)
    have H1: "R 0 0 0 = (if v = 4 \<and> field p 12 4 = src \<and> field p 16 4 = dst \<and> (field p 9 1 = 17 \<or> field p 9 1 = 6)
        then R 10 (field p 9 1) 0 else Some 0)" if "20 \<le> length p"
      using that by (simp add: S0 S1 S2 S3 S4 S5 S6 S7 S8 S9 drop a240(1) del: One_nat_def)
    have H2: "R 10 a x = (if field p 6 2 AND 16383 \<noteq> 0 then Some 1 else R 13 (field p 6 2) ?h)" if "20 \<le> length p" for a x
      using that by (simp add: S10 S11 S12 meta a15 del: One_nat_def)
    have H3: "R 13 a ?h = (if ?h + 4 \<le> length p \<and> field p (?h + 2) 2 = port
        then R (if field p 9 1 = 17 then 28 + n else 17) (field p 9 1) ?h else Some 0)" if "20 \<le> length p" for a
      using that by (simp add: S13 S14 S15 S16 drop del: One_nat_def)
    have "R 0 0 0 = Some (filter_verdict src dst port question p)" if l: "20 \<le> length p"
      unfolding filter_verdict_def v_def [symmetric] w_def [symmetric] Let_def u_def [symmetric] H1 [OF l] H2 [OF l] H3 [OF l]
      using l by (auto simp: udp tcp simp del: One_nat_def)
    then show ?thesis using H0 by (cases "20 \<le> length p") (simp_all add: filter_verdict_def)
  qed
  then show ?thesis by (simp add: R_def question_def)
qed

subsection \<open>Packets that carry the challenge\<close>

lemma dns_challenge_in_range: "dns_challenge t payload nonce \<noteq> Inl OutOfRange"
  using dns_name_in_range [of payload 12]
  by (auto simp: dns_challenge_def read_results split: if_splits sum.splits dns_fault.splits)

lemma packet_challenge_in_range: "packet_challenge packet nonce \<noteq> Inl OutOfRange"
  using dns_challenge_in_range
  by (auto simp: packet_challenge_def udp_challenge_def tcp_challenge_def read_results Let_def split: if_splits)

lemma be_at_field: "off + n \<le> length d \<Longrightarrow> be_at d off n = Inr (field d off n)"
  by (simp add: be_at_Inr field_def)

lemma byte_at_field: "off < length d \<Longrightarrow> byte_at d off = Inr (field d off 1)"
  by (simp add: byte_at_def field_def be_value_def take_Suc_conv_app_nth [of 0] drop_take hd_drop_conv_nth take_Suc)

lemma field_take: "off + n \<le> k \<Longrightarrow> field (take k d) off n = field d off n"
  by (simp add: field_def drop_take min_def)

text \<open>The question of a query, and the messages that carry it.\<close>

lemma query_question:
  assumes q: "dns_query (Some r) nonce = Inr (query, i)" and dot: "\<not> has_suffix nonce ''.''"
  shows "query = dns_header [i, 0x100, 1, 0, 0, 1] @ take (length query - 11 - 12) (drop 12 query) @ dns_opt_record
    \<and> length query = length (take (length query - 11 - 12) (drop 12 query)) + 23
    \<and> take (length query - 11 - 12) (drop 12 query)
      = wire_name (split_on CHR ''.'' (to_lower nonce)) @ map char_of [0, 1, 0, 1 :: nat]"
  using dns_query_Inr [OF q dot] by (simp add: length_header dns_opt_record_def)

lemma challenge_message:
  assumes q: "dns_query (Some r) nonce = Inr (sent, j)" and dot: "\<not> has_suffix nonce ''.''" and low: "to_lower nonce = nonce"
  shows "dns_challenge t sent nonce = Inr (t, True, True)"
proof -
  note w = dns_query_Inr [OF q dot]
  let ?ls = "split_on CHR ''.'' (to_lower nonce)"
  have "dns_name sent 12 = Inr (nonce, 12 + length (wire_name ?ls))"
    using w low dns_name_wire [of ?ls "dns_header [j, 0x100, 1, 0, 0, 1]"] by (auto simp: length_header)
  moreover have "be_at sent 2 2 = Inr 0x100" using w by (simp add: header_words)
  moreover have "12 \<le> length sent" using w by (simp add: length_header)
  ultimately show ?thesis by (simp add: dns_challenge_def also_then_def)
qed

lemma slice_tail: "off \<le> length d \<Longrightarrow> slice d off (length d) = Inr (drop off d)"
  by (simp add: slice_def)

lemma packet_challenge_ip:
  assumes "20 \<le> length p" "field p 0 1 div 16 = 4" "h = 4 * (field p 0 1 mod 16)" "20 \<le> h" "h \<le> length p"
    "field p 2 2 = length p" "field p 6 2 AND 0x3fff = 0"
  shows "packet_challenge p nonce =
    (if field p 9 1 = 17 then udp_challenge p h nonce
     else if field p 9 1 = 6 then tcp_challenge p h nonce else Inr ([], False, False))"
proof -
  have ne: "p \<noteq> []" using assms(1) by auto
  have "byte_at p 0 = Inr (field p 0 1)" "be_at p 2 2 = Inr (length p)" "be_at p 6 2 = Inr (field p 6 2)"
    "byte_at p 9 = Inr (field p 9 1)" "slice p 0 (length p) = Inr p"
    using assms(1,6) ne by (auto simp: byte_at_field be_at_field slice_def simp del: One_nat_def)
  moreover have "drop_bit 4 (field p 0 1) = 4" "(field p 0 1 AND 15) * 4 = h"
    using assms(2,3) by (simp_all add: drop_bit_eq_div and_15)
  ultimately show ?thesis using assms(1,4,5,7) by (simp add: packet_challenge_def also_then_def Let_def del: One_nat_def)
qed

lemma udp_challenge_payload: "h + 8 \<le> length p \<Longrightarrow> udp_challenge p h nonce = dns_challenge ''udp'' (drop (h + 8) p) nonce"
  by (simp add: udp_challenge_def slice_tail also_then_def)

lemma tcp_challenge_message:
  assumes "t = 4 * (field p (h + 12) 1 div 16)" "20 \<le> t" "h + t \<le> length p"
    and d: "drop (h + t) p = be_bytes 2 (length m) @ m" and m: "12 \<le> length m" "length m < 65536"
  shows "tcp_challenge p h nonce = dns_challenge ''tcp'' m nonce"
proof -
  have "byte_at p (h + 12) = Inr (field p (h + 12) 1)" using assms(2,3) by (intro byte_at_field) simp
  moreover have "drop_bit 4 (field p (h + 12) 1) * 4 = t" using assms(1) by (simp add: drop_bit_eq_div)
  moreover have "be_at (be_bytes 2 (length m) @ m) 0 2 = Inr (length m)" using m by (intro be_at_0) simp
  moreover have "slice (be_bytes 2 (length m) @ m) 2 (2 + length m) = Inr m" by (simp add: slice_def)
  moreover have "slice p (h + t) (length p) = Inr (be_bytes 2 (length m) @ m)" using assms(3) d by (simp add: slice_tail)
  moreover have "m \<noteq> []" using m by auto
  ultimately show ?thesis using assms(2,3) m(1) by (simp add: tcp_challenge_def also_then_def Let_def del: One_nat_def)
qed

text \<open>
  (C30) No challenge is missed. Let the observer wait for a nonce, and let a packet of the two
  addresses arrive on the port that is a whole IPv4 packet, not a fragment, and carries the DNS query
  for that nonce, whatever its identifier, as the payload of UDP or as a message of TCP, behind IP and
  TCP headers of any length. Then the filter keeps the packet, and \<open>packetChallenge\<close> counts it under
  its transport, as understood.
\<close>

theorem challenge_observed:
  assumes f: "scoped_packet_filter (Some r) src dst port nonce = Inr f"
    and q: "dns_query (Some r') nonce = Inr (sent, j)" and dot: "\<not> has_suffix nonce ''.''" and low: "to_lower nonce = nonce"
    and ip: "20 \<le> length p" "field p 0 1 div 16 = 4" "h = 4 * (field p 0 1 mod 16)" "20 \<le> h"
      "field p 2 2 = length p" "field p 6 2 AND 0x3fff = 0"
    and scope: "field p 12 4 = src" "field p 16 4 = dst" "field p (h + 2) 2 = port"
    and body: "transport = ''udp'' \<and> field p 9 1 = 17 \<and> drop (h + 8) p = sent
      \<or> transport = ''tcp'' \<and> field p 9 1 = 6 \<and> t = 4 * (field p (h + 12) 1 div 16) \<and> 20 \<le> t
        \<and> drop (h + t) p = be_bytes 2 (length sent) @ sent"
  shows "bpf_run f p 0 0 0 = Some 4096 \<and> packet_challenge p nonce = Inr (transport, True, True)"
proof -
  obtain query i where q0: "dns_query (Some r) nonce = Inr (query, i)"
    using f by (cases "dns_query (Some r) nonce") (auto simp: scoped_packet_filter_def also_then_def)
  let ?q = "take (length query - 11 - 12) (drop 12 query)"
  have sent: "sent = dns_header [j, 0x100, 1, 0, 0, 1] @ ?q @ dns_opt_record" "length sent = length ?q + 23"
    using query_question [OF q0 dot] query_question [OF q dot] by (metis, metis)
  have q96: "length ?q \<le> 96" using f unfolding scoped_filter_code [OF q0 refl refl] by (simp split: if_splits)
  have msg: "dns_challenge x sent nonce = Inr (x, True, True)" for x by (rule challenge_message [OF q dot low])
  have run: "bpf_run f p 0 0 0 = Some (filter_verdict src dst port ?q p)" by (rule filter_exact [OF f q0])
  from body show ?thesis
  proof (elim disjE conjE)
    assume u: "transport = ''udp''" "field p 9 1 = 17" and d: "drop (h + 8) p = sent"
    have "length (drop (h + 8) p) = length ?q + 23" by (simp only: d sent(2))
    then have l: "length p = h + 8 + (length ?q + 23)" by simp
    have "drop (h + 20) p = drop 12 sent" by (simp flip: d add: add.commute)
    then have h: "here p (h + 20) ?q" by (simp add: here_def sent(1) length_header)
    have "filter_verdict src dst port ?q p = 4096"
      using ip(1,5,6) scope h ip(2) u(2) l by (simp add: filter_verdict_def Let_def flip: ip(3) del: One_nat_def)
    moreover have "packet_challenge p nonce = udp_challenge p h nonce"
      using packet_challenge_ip [OF ip(1-4) _ ip(5,6)] l u(2) by simp
    ultimately show ?thesis using run u(1) l msg by (simp add: udp_challenge_payload d)
  next
    assume u: "transport = ''tcp''" "field p 9 1 = 6" and t: "t = 4 * (field p (h + 12) 1 div 16)" "20 \<le> t"
      and d: "drop (h + t) p = be_bytes 2 (length sent) @ sent"
    have "length (drop (h + t) p) = 2 + (length ?q + 23)" by (simp only: d length_append length_be_bytes sent(2))
    then have l: "length p = h + t + 2 + (length ?q + 23)" by simp
    have "drop (h + t + 14) p = drop 14 (be_bytes 2 (length sent) @ sent)" by (simp flip: d add: add.commute)
    then have h: "here p (h + t + 14) ?q" by (simp add: here_def sent(1) length_header)
    have "filter_verdict src dst port ?q p = 4096"
      using ip(1,5,6) scope h ip(2) u(2) l t(2) by (simp add: filter_verdict_def Let_def flip: ip(3) t(1) del: One_nat_def)
    moreover have "packet_challenge p nonce = tcp_challenge p h nonce"
      using packet_challenge_ip [OF ip(1-4) _ ip(5,6)] l u(2) by simp
    moreover have "tcp_challenge p h nonce = dns_challenge ''tcp'' sent nonce"
      using l sent(2) q96 by (intro tcp_challenge_message [OF t _ d]) simp_all
    ultimately show ?thesis using run u(1) msg by simp
  qed
qed

subsection \<open>Witnesses\<close>

text \<open>A UDP packet from 0.0.0.1 to port 53 of 0.0.0.2 with a query for \<open>ns\<close>.\<close>

definition sample_sent :: string where
  "sample_sent = dns_header [258, 0x100, 1, 0, 0, 1] @ wire_name [''ns''] @ map char_of [0, 1, 0, 1 :: nat] @ dns_opt_record"

definition sample_packet :: string where
  "sample_packet = map char_of [69, 0, 0, 59, 0, 0, 0, 0, 64, 17, 0, 0, 0, 0, 0, 1, 0, 0, 0, 2, 4, 0, 0, 53, 0, 39, 0, 0 :: nat] @ sample_sent"

lemma sample_query: "dns_query (Some (map char_of [1, 2 :: nat])) ''ns'' = Inr (sample_sent, 258)"
proof -
  have "\<not> isl (dns_query (Some (map char_of [1, 2 :: nat])) ''ns'')" by code_simp
  then obtain q i where qi: "dns_query (Some (map char_of [1, 2 :: nat])) ''ns'' = Inr (q, i)"
    by (cases "dns_query (Some (map char_of [1, 2 :: nat])) ''ns''") auto
  have "split_on CHR ''.'' (to_lower ''ns'') = [''ns'']" by code_simp
  then show ?thesis
    unfolding qi using dns_query_Inr [OF qi] by (simp add: has_suffix_def be_value_def sample_sent_def)
qed

lemma sample_filter: "\<exists>f. scoped_packet_filter (Some (map char_of [1, 2 :: nat])) 1 2 53 ''ns'' = Inr f"
  unfolding scoped_filter_code [OF sample_query refl refl]
  by (simp add: sample_sent_def dns_header_def wire_name_def wire_label_def dns_opt_record_def)

lemma sample_packet_fields:
  "field sample_packet 0 1 = 69" "field sample_packet 2 2 = 59" "field sample_packet 6 2 = 0" "field sample_packet 9 1 = 17"
  "field sample_packet 12 4 = 1" "field sample_packet 16 4 = 2" "field sample_packet 22 2 = 53"
  "length sample_packet = 59" "drop 28 sample_packet = sample_sent"
  by (simp_all add: sample_packet_def field_def be_value_def sample_sent_def dns_header_def wire_name_def wire_label_def
      dns_opt_record_def)

lemma challenge_observed_witness:
  "\<exists>f. scoped_packet_filter (Some (map char_of [1, 2 :: nat])) 1 2 53 ''ns'' = Inr f
     \<and> bpf_run f sample_packet 0 0 0 = Some 4096 \<and> packet_challenge sample_packet ''ns'' = Inr (''udp'', True, True)"
proof -
  obtain f where f: "scoped_packet_filter (Some (map char_of [1, 2 :: nat])) 1 2 53 ''ns'' = Inr f" using sample_filter ..
  have "\<not> has_suffix ''ns'' ''.''" "to_lower ''ns'' = ''ns''" by code_simp+
  then have "bpf_run f sample_packet 0 0 0 = Some 4096 \<and> packet_challenge sample_packet ''ns'' = Inr (''udp'', True, True)"
    by (rule challenge_observed [OF f sample_query, where h = 20 and t = 0]) (simp_all add: sample_packet_fields del: One_nat_def)
  then show ?thesis using f by blast
qed

lemma filter_exact_witness:
  "\<exists>f. scoped_packet_filter (Some (map char_of [1, 2 :: nat])) 1 2 53 ''ns'' = Inr f \<and> bpf_run f [] 0 0 0 = Some 0"
proof -
  obtain f where f: "scoped_packet_filter (Some (map char_of [1, 2 :: nat])) 1 2 53 ''ns'' = Inr f" using sample_filter ..
  show ?thesis using filter_exact [OF f sample_query, of "[]"] f by (auto simp: filter_verdict_def Let_def)
qed

text \<open>
  The comparison of the filter is on bytes, that of \<open>packetChallenge\<close> on the decoded name. A query for
  the nonce in capital letters would be counted, but the filter drops it and nothing marks the
  observation as incomplete.
\<close>

definition capital_packet :: string where
  "capital_packet = take 41 sample_packet @ ''NS'' @ drop 43 sample_packet"

lemma capital_challenge_dropped:
  "\<exists>f. scoped_packet_filter (Some (map char_of [1, 2 :: nat])) 1 2 53 ''ns'' = Inr f
     \<and> bpf_run f capital_packet 0 0 0 = Some 0 \<and> packet_challenge capital_packet ''ns'' = Inr (''udp'', True, True)"
proof -
  obtain f where f: "scoped_packet_filter (Some (map char_of [1, 2 :: nat])) 1 2 53 ''ns'' = Inr f" using sample_filter ..
  let ?m = "dns_header [258, 0x100, 1, 0, 0, 1] @ wire_name [''NS''] @ map char_of [0, 1, 0, 1 :: nat] @ dns_opt_record"
  have fields: "field capital_packet 0 1 = 69" "field capital_packet 2 2 = 59" "field capital_packet 6 2 = 0"
    "field capital_packet 9 1 = 17" "length capital_packet = 59" "drop 28 capital_packet = ?m"
    "\<not> here capital_packet 40 (take (length sample_sent - 11 - 12) (drop 12 sample_sent))"
    by (simp_all add: capital_packet_def sample_packet_def field_def be_value_def sample_sent_def dns_header_def
        wire_name_def wire_label_def dns_opt_record_def here_def)
  have name: "dns_name ?m 12 = Inr (''ns'', 16)" by code_simp
  have "be_at ?m 2 2 = Inr 0x100" by (simp add: header_words)
  then have "dns_challenge ''udp'' ?m ''ns'' = Inr (''udp'', True, True)"
    using name by (simp add: dns_challenge_def also_then_def length_header)
  moreover have "packet_challenge capital_packet ''ns'' = udp_challenge capital_packet 20 ''ns''"
    using fields by (subst packet_challenge_ip [where h = 20]) (simp_all del: One_nat_def)
  ultimately have "packet_challenge capital_packet ''ns'' = Inr (''udp'', True, True)"
    using fields by (simp add: udp_challenge_payload)
  moreover have "bpf_run f capital_packet 0 0 0 = Some 0"
  proof -
    define question where "question = take (length sample_sent - 11 - 12) (drop 12 sample_sent)"
    have "length question = 8"
      by (simp add: question_def sample_sent_def dns_header_def wire_name_def wire_label_def dns_opt_record_def)
    moreover have "\<not> here capital_packet 40 question" unfolding question_def by (rule fields(7))
    ultimately have "filter_verdict 1 2 53 question capital_packet = 0"
      using fields(1-5) by (simp add: filter_verdict_def Let_def question_def [symmetric] del: One_nat_def)
    then show ?thesis
      using filter_exact [OF f sample_query, of capital_packet] by (simp add: question_def)
  qed
  ultimately show ?thesis using f by blast
qed

end
