(* ===== verification/AdminHelper.thy ===== *)
theory AdminHelper
  imports SshCommand SshHosts NetAddr
begin

text \<open>
  Package \<open>internal/dnsadmin\<close> (\<open>admin.go\<close>): the root helper for DNS administration. Its manifest,
  the files it trusts, the peers of a WireGuard interface as \<open>wg\<close> and the configuration file list
  them, enrolling a peer as a transaction with a journal and a rollback, the DNS checks, and the
  dispatch of the operations.

  \<^item> The native tools are a parameter: a function from the tool, its arguments and the state of the
    kernel to the output (\<open>None\<close> when the call fails) and the new state. What it is called with is
    logged in \<open>aw_log\<close>.
  \<^item> The file system answers every call with success or failure by \<open>ae_ok\<close>, indexed by the number of
    the call. The file of the journal is a journal, something that does not decode, or absent.
  \<^item> A map of peers is an association list; SHA-256 is the parameter \<open>ae_digest\<close>.
\<close>

subsection \<open>The manifest\<close>

record manifest =
  mf_workspace :: string
  mf_host :: string
  mf_interface :: string
  mf_peer :: string
  mf_config :: string
  mf_resolver :: string
  mf_control_domain :: string
  mf_control_a :: string
  mf_blocked_domain :: string
  mf_blocked_a :: string
  mf_unit :: string
  mf_service_hash :: string
  mf_rules_hash :: string
  mf_proof :: string
  mf_guest_prefix :: string
  mf_guest_ingress :: string

definition peer_cidr :: string where "peer_cidr = ''10.66.66.5/32''"
definition admin_resolver :: string where "admin_resolver = ''10.77.0.53''"
definition admin_state_dir :: string where "admin_state_dir = ''/var/lib/21pins/dns-admin''"

definition word_text_ok :: "string \<Rightarrow> bool" where
  "word_text_ok s \<longleftrightarrow> s \<noteq> [] \<and> length s \<le> 32 \<and> is_alnum (hd s)
     \<and> list_all (\<lambda>c. is_alnum c \<or> c = CHR ''_'' \<or> c = CHR ''-'') s"

definition domain_text_ok :: "string \<Rightarrow> bool" where
  "domain_text_ok s \<longleftrightarrow> 2 \<le> length s \<and> length s \<le> 253
     \<and> (is_lower (hd s) \<or> is_digit (hd s)) \<and> (is_lower (last s) \<or> is_digit (last s))
     \<and> list_all (\<lambda>c. is_lower c \<or> is_digit c \<or> c = CHR ''.'' \<or> c = CHR ''-'') s"

definition hash_text_ok :: "string \<Rightarrow> bool" where
  "hash_text_ok s \<longleftrightarrow> (case hex_decode s of None \<Rightarrow> False | Some h \<Rightarrow> length h = 32)"

definition valid_manifest :: "manifest \<Rightarrow> bool" where
  "valid_manifest m =
     (if mf_interface m \<noteq> [] \<or> mf_peer m \<noteq> [] \<or> mf_config m \<noteq> [] then False
      else if (case parse_addr (mf_control_a m) of None \<Rightarrow> True | Some a \<Rightarrow> \<not> is_v4 a)
        \<or> \<not> hash_text_ok (mf_service_hash m) \<or> mf_service_hash m \<noteq> to_lower (mf_service_hash m)
        \<or> mf_workspace m \<noteq> ''local'' \<or> mf_host m \<noteq> ''dns-primary'' \<or> mf_resolver m \<noteq> admin_resolver
        \<or> \<not> domain_text_ok (mf_control_domain m) \<or> mf_unit m \<noteq> ''dns.service'' then False
      else if (mf_blocked_domain m \<noteq> [] \<or> mf_blocked_a m \<noteq> [])
        \<and> (\<not> domain_text_ok (mf_blocked_domain m) \<or> mf_blocked_domain m = mf_control_domain m
            \<or> (mf_blocked_a m \<noteq> ''NXDOMAIN'' \<and> mf_blocked_a m \<noteq> ''0.0.0.0'')) then False
      else if mf_guest_prefix m = [] \<and> mf_guest_ingress m = [] \<and> mf_rules_hash m = [] \<and> mf_proof m = [] then True
      else case parse_prefix (mf_guest_prefix m) of
        None \<Rightarrow> False
      | Some g \<Rightarrow>
          prefix_text (prefix_masked g) = mf_guest_prefix m \<and> is_private (np_addr g) \<and> word_text_ok (mf_guest_ingress m)
          \<and> hash_text_ok (mf_rules_hash m) \<and> mf_proof m = ''/var/lib/21pins/dns-admin/guest-proof.json'')"

subsection \<open>Peers\<close>

type_synonym peers = "net_prefix list gomap"

definition peer_key_ok :: "string \<Rightarrow> bool" where
  "peer_key_ok k \<longleftrightarrow> (case std_decode k of None \<Rightarrow> False | Some b \<Rightarrow> length b = 32)"

definition parse_allowed :: "string \<Rightarrow> net_prefix option" where
  "parse_allowed s =
     (case parse_prefix s of
        None \<Rightarrow> None
      | Some p \<Rightarrow> if prefix_text (prefix_masked p) \<noteq> s then None else Some p)"

definition parse_peer_line :: "string \<Rightarrow> peers \<Rightarrow> peers option" where
  "parse_peer_line line out =
     (if line = [] then Some out
      else case string_fields line of
        k # v # vs \<Rightarrow>
          let ips = concat (v # vs) in
          if \<not> peer_key_ok k then None
          else if map_of out k \<noteq> None then None
          else if ips = ''(none)'' then Some (out @ [(k, [])])
          else (case all_some (map parse_allowed (split_on CHR '','' ips)) of
                  None \<Rightarrow> None
                | Some ps \<Rightarrow> Some (out @ [(k, ps)]))
      | _ \<Rightarrow> None)"

fun fold_some :: "('a \<Rightarrow> 's \<Rightarrow> 's option) \<Rightarrow> 'a list \<Rightarrow> 's \<Rightarrow> 's option" where
  "fold_some f [] s = Some s"
| "fold_some f (x # xs) s = (case f x s of None \<Rightarrow> None | Some t \<Rightarrow> fold_some f xs t)"

definition parse_peers :: "string \<Rightarrow> peers option" where
  "parse_peers b = fold_some parse_peer_line (split_on CHR 0x0A (trim_space b)) []"

definition prefix_list_text :: "net_prefix list \<Rightarrow> string" where
  "prefix_list_text ps = ''['' @ join_with '' '' (map prefix_text ps) @ '']''"

definition equal_peers :: "peers \<Rightarrow> peers \<Rightarrow> bool" where
  "equal_peers a b \<longleftrightarrow> length a = length b
     \<and> list_all (\<lambda>(k, p). case map_of b k of None \<Rightarrow> False | Some q \<Rightarrow> prefix_list_text p = prefix_list_text q) a"

definition preserved_peers :: "peers \<Rightarrow> peers \<Rightarrow> string \<Rightarrow> bool" where
  "preserved_peers before after key \<longleftrightarrow> length after = length before + 1
     \<and> list_all (\<lambda>(k, v). k = key \<or> (case map_of after k of None \<Rightarrow> False | Some a \<Rightarrow> prefix_list_text a = prefix_list_text v)) before"

text \<open>\<open>None\<close> is \<open>Denied\<close>; otherwise whether the peer is there.\<close>

definition wanted_prefix :: net_prefix where
  "wanted_prefix = \<lparr>np_addr = V4 [10, 66, 66, 5], np_bits = 32\<rparr>"

definition check_peers :: "peers \<Rightarrow> string \<Rightarrow> bool option" where
  "check_peers peers key =
     (if list_ex (\<lambda>(k, ps). k \<noteq> key \<and> list_ex (\<lambda>p. prefix_overlaps p wanted_prefix) ps) peers then None
      else case map_of peers key of
        None \<Rightarrow> Some False
      | Some ps \<Rightarrow> if ps = [wanted_prefix] then Some True else None)"

subsection \<open>The configuration file (persistent)\<close>

record ini_state =
  is_section :: string
  is_seen :: bool
  is_key :: string
  is_ips :: string
  is_peers :: peers

definition ini_flush :: "ini_state \<Rightarrow> ini_state option" where
  "ini_flush s =
     (if is_section s \<noteq> ''Peer'' then Some s
      else if is_key s = [] \<or> is_ips s = [] then None
      else if map_of (is_peers s) (is_key s) \<noteq> None then None
      else case parse_peers (is_key s @ '' '' @ filter (\<lambda>c. c \<noteq> CHR '' '') (is_ips s)) of
        None \<Rightarrow> None
      | Some m \<Rightarrow>
          Some (s\<lparr>is_peers := is_peers s @ [(is_key s, case map_of m (is_key s) of None \<Rightarrow> [] | Some ps \<Rightarrow> ps)]\<rparr>))"

definition ini_header :: "string \<Rightarrow> ini_state \<Rightarrow> ini_state option" where
  "ini_header line s0 =
     (case ini_flush s0 of
        None \<Rightarrow> None
      | Some s \<Rightarrow>
          if line = ''[Interface]'' then
            (if is_seen s \<or> is_section s \<noteq> [] then None
             else Some (s\<lparr>is_seen := True, is_section := ''Interface'', is_key := [], is_ips := []\<rparr>))
          else if line = ''[Peer]'' then
            (if \<not> is_seen s then None else Some (s\<lparr>is_section := ''Peer'', is_key := [], is_ips := []\<rparr>))
          else None)"

definition ini_entry :: "string \<Rightarrow> ini_state \<Rightarrow> ini_state option" where
  "ini_entry line s =
     (case split_2 CHR ''='' line of
        (k0, None) \<Rightarrow> None
      | (k0, Some v0) \<Rightarrow>
          if is_section s = [] then None
          else
            let k = trim_space k0; v = trim_space v0 in
            if k = ''SaveConfig'' \<and> v \<noteq> ''false'' then None
            else if is_section s = ''Peer'' \<and> k = ''PublicKey'' then
              (if is_key s \<noteq> [] then None else Some (s\<lparr>is_key := v\<rparr>))
            else if is_section s = ''Peer'' \<and> k = ''AllowedIPs'' then
              (if is_ips s \<noteq> [] then None else Some (s\<lparr>is_ips := v\<rparr>))
            else Some s)"

definition ini_line :: "string \<Rightarrow> ini_state \<Rightarrow> ini_state option" where
  "ini_line raw s =
     (let line = trim_space raw in
      if line = [] \<or> has_prefix line ''#'' then Some s
      else if has_prefix line ''['' then ini_header line s
      else ini_entry line s)"

definition ini_start :: ini_state where
  "ini_start = \<lparr>is_section = [], is_seen = False, is_key = [], is_ips = [], is_peers = []\<rparr>"

definition persistent_peers :: "string \<Rightarrow> peers option" where
  "persistent_peers b =
     (case fold_some ini_line (split_on CHR 0x0A b) ini_start of
        None \<Rightarrow> None
      | Some s \<Rightarrow>
          (case ini_flush s of None \<Rightarrow> None | Some t \<Rightarrow> if \<not> is_seen t then None else Some (is_peers t)))"

text \<open>What \<open>enroll\<close> appends to the file.\<close>

definition peer_section :: "string \<Rightarrow> string" where
  "peer_section key =
     [CHR 0x0A] @ ''[Peer]'' @ [CHR 0x0A] @ ''PublicKey = '' @ key @ [CHR 0x0A] @ ''AllowedIPs = '' @ peer_cidr @ [CHR 0x0A]"

subsection \<open>The helper's world\<close>

record journal =
  jr_original :: string
  jr_patched_hash :: string
  jr_manifest_hash :: string
  jr_peer_existed :: bool
  jr_live :: peers

datatype journal_file = NoJournal | BadJournal | JournalFile journal

record 'k admin_world =
  aw_config :: "string option"
  aw_journal :: journal_file
  aw_kernel :: 'k
  aw_log :: "(string \<times> string list) list"
  aw_tick :: nat

record guest_proof =
  gp_rules_hash :: string
  gp_at :: time
  gp_origin :: bool
  gp_prefix :: string
  gp_ingress :: string
  gp_udp :: bool
  gp_tcp :: bool

record 'k admin_env =
  ae_run :: "string \<Rightarrow> string list \<Rightarrow> 'k \<Rightarrow> string option \<times> 'k"
  ae_ok :: "nat \<Rightarrow> bool"
  ae_digest :: "string \<Rightarrow> string"
  ae_manifest_hash :: "manifest \<Rightarrow> string"
  ae_unit_file :: "string option"
  ae_proof_file :: "guest_proof option option"
  ae_now :: time
  ae_uid :: nat
  ae_temps :: "(string \<times> lstat_result \<times> bool) list option list"

definition call_tool :: "'k admin_env \<Rightarrow> string \<Rightarrow> string list \<Rightarrow> 'k admin_world \<Rightarrow> string option \<times> 'k admin_world" where
  "call_tool e tool args w =
     (case ae_run e tool args (aw_kernel w) of
        (out, k) \<Rightarrow> (out, w\<lparr>aw_kernel := k, aw_log := aw_log w @ [(tool, args)]\<rparr>))"

text \<open>A number of calls on the file system in a row, up to the first that fails.\<close>

fun sys_calls :: "'k admin_env \<Rightarrow> nat \<Rightarrow> 'k admin_world \<Rightarrow> bool \<times> 'k admin_world" where
  "sys_calls e 0 w = (True, w)"
| "sys_calls e (Suc n) w =
     (if ae_ok e (aw_tick w) then sys_calls e n (w\<lparr>aw_tick := aw_tick w + 1\<rparr>)
      else (False, w\<lparr>aw_tick := aw_tick w + 1\<rparr>))"

definition read_config :: "'k admin_env \<Rightarrow> 'k admin_world \<Rightarrow> string option \<times> 'k admin_world" where
  "read_config e w = (case sys_calls e 1 w of (ok, w1) \<Rightarrow> (if ok then aw_config w1 else None, w1))"

definition lstat_journal :: "'k admin_env \<Rightarrow> 'k admin_world \<Rightarrow> bool option \<times> 'k admin_world" where
  "lstat_journal e w =
     (case sys_calls e 1 w of (ok, w1) \<Rightarrow> (if ok then Some (aw_journal w1 \<noteq> NoJournal) else None, w1))"

definition remove_journal :: "'k admin_env \<Rightarrow> 'k admin_world \<Rightarrow> bool \<times> 'k admin_world" where
  "remove_journal e w =
     (case sys_calls e 1 w of (ok, w1) \<Rightarrow> (ok, if ok then w1\<lparr>aw_journal := NoJournal\<rparr> else w1))"

text \<open>
  \<open>atomic\<close>: temporary file, mode, write, sync, close, rename; then the directory is opened and
  synced. It can fail after the rename has put the new content in place.
\<close>

definition atomic_put ::
    "'k admin_env \<Rightarrow> ('k admin_world \<Rightarrow> 'k admin_world) \<Rightarrow> 'k admin_world \<Rightarrow> bool \<times> 'k admin_world" where
  "atomic_put e put w =
     (case sys_calls e 6 w of
        (False, w1) \<Rightarrow> (False, w1)
      | (True, w1) \<Rightarrow> sys_calls e 2 (put w1))"

definition put_config :: "string \<Rightarrow> 'k admin_world \<Rightarrow> 'k admin_world" where
  "put_config b w = w\<lparr>aw_config := Some b\<rparr>"

definition put_journal :: "journal \<Rightarrow> 'k admin_world \<Rightarrow> 'k admin_world" where
  "put_journal j w = w\<lparr>aw_journal := JournalFile j\<rparr>"

definition live_peers :: "'k admin_env \<Rightarrow> manifest \<Rightarrow> 'k admin_world \<Rightarrow> peers option \<times> 'k admin_world" where
  "live_peers e m w =
     (case call_tool e ''/usr/bin/wg'' [''show'', mf_interface m, ''allowed-ips''] w of
        (None, w1) \<Rightarrow> (None, w1)
      | (Some b, w1) \<Rightarrow> (parse_peers b, w1))"

subsection \<open>Results\<close>

record admin_result =
  ar_operation :: string
  ar_verified :: bool
  ar_state :: string
  ar_peer_count :: nat
  ar_handshake_recent :: bool
  ar_handshake_at :: int
  ar_guest_policy :: bool
  ar_guest_proof :: bool

definition admin_result_of :: "string \<Rightarrow> admin_result" where
  "admin_result_of st =
     \<lparr>ar_operation = [], ar_verified = False, ar_state = st, ar_peer_count = 0, ar_handshake_recent = False,
      ar_handshake_at = 0, ar_guest_policy = False, ar_guest_proof = False\<rparr>"

text \<open>A result with the flag that no error is returned with it, and the world after the call.\<close>

type_synonym 'k admin_outcome = "(admin_result \<times> bool) \<times> 'k admin_world"

subsection \<open>Verifying and enrolling the peer\<close>

definition verify_peer :: "'k admin_env \<Rightarrow> manifest \<Rightarrow> 'k admin_world \<Rightarrow> 'k admin_outcome" where
  "verify_peer e m w =
     (let r = admin_result_of ''not_enrolled'' in
      case lstat_journal e w of (st, w1) \<Rightarrow>
        if st \<noteq> Some False then ((r, False), w1)
        else case read_config e w1 of
          (None, w2) \<Rightarrow> ((r, False), w2)
        | (Some b, w2) \<Rightarrow>
            (case persistent_peers b of
               None \<Rightarrow> ((r, False), w2)
             | Some p \<Rightarrow>
                 (case live_peers e m w2 of
                    (None, w3) \<Rightarrow> ((r, False), w3)
                  | (Some a, w3) \<Rightarrow>
                      if \<not> equal_peers p a then ((r, False), w3)
                      else case check_peers p (mf_peer m) of
                        None \<Rightarrow> ((r, False), w3)
                      | Some pok \<Rightarrow>
                          (case check_peers a (mf_peer m) of
                             None \<Rightarrow> ((r, False), w3)
                           | Some aok \<Rightarrow>
                               let r1 = r\<lparr>ar_peer_count := length a, ar_verified := pok \<and> aok\<rparr> in
                               if \<not> (pok \<and> aok) then ((r1, False), w3)
                               else ((r1\<lparr>ar_state := ''configured''\<rparr>, True), w3)))))"

text \<open>The last part of \<open>rollback\<close>, after the configuration is restored and the peer removed.\<close>

definition rollback_check :: "'k admin_env \<Rightarrow> manifest \<Rightarrow> journal \<Rightarrow> 'k admin_world \<Rightarrow> bool \<times> 'k admin_world" where
  "rollback_check e m j w =
     (case live_peers e m w of
        (None, w1) \<Rightarrow> (False, w1)
      | (Some after, w1) \<Rightarrow>
          if check_peers after (mf_peer m) \<noteq> Some (jr_peer_existed j) then (False, w1)
          else case read_config e w1 of
            (None, w2) \<Rightarrow> (False, w2)
          | (Some b, w2) \<Rightarrow>
              if ae_digest e b \<noteq> ae_digest e (jr_original j) \<or> \<not> equal_peers after (jr_live j) then (False, w2)
              else remove_journal e w2)"

definition rollback :: "'k admin_env \<Rightarrow> manifest \<Rightarrow> journal \<Rightarrow> 'k admin_world \<Rightarrow> bool \<times> 'k admin_world" where
  "rollback e m j w =
     (case read_config e w of
        (None, w1) \<Rightarrow> (False, w1)
      | (Some b, w1) \<Rightarrow>
          if (ae_digest e b \<noteq> ae_digest e (jr_original j) \<and> ae_digest e b \<noteq> jr_patched_hash j)
             \<or> jr_manifest_hash j \<noteq> ae_manifest_hash e m then (False, w1)
          else case live_peers e m w1 of
            (None, w2) \<Rightarrow> (False, w2)
          | (Some live, w2) \<Rightarrow>
              (case check_peers live (mf_peer m) of
                 None \<Rightarrow> (False, w2)
               | Some present \<Rightarrow>
                   (case atomic_put e (put_config (jr_original j)) w2 of
                      (False, w3) \<Rightarrow> (False, w3)
                    | (True, w3) \<Rightarrow>
                        if \<not> jr_peer_existed j \<and> present then
                          (case call_tool e ''/usr/bin/wg'' [''set'', mf_interface m, ''peer'', mf_peer m, ''remove''] w3 of
                             (None, w4) \<Rightarrow> (False, w4)
                           | (Some _, w4) \<Rightarrow> rollback_check e m j w4)
                        else rollback_check e m j w3)))"

definition undo :: "'k admin_env \<Rightarrow> manifest \<Rightarrow> journal \<Rightarrow> 'k admin_world \<Rightarrow> 'k admin_outcome" where
  "undo e m j w =
     (case rollback e m j w of
        (False, w1) \<Rightarrow> ((admin_result_of ''rollback_failed'', False), w1)
      | (True, w1) \<Rightarrow> ((admin_result_of ''rolled_back'', False), w1))"

text \<open>\<open>cleanTemps\<close>: each directory with its entries, their \<open>Lstat\<close> and whether they can be removed.\<close>

fun clean_entries :: "nat \<Rightarrow> (string \<times> lstat_result \<times> bool) list \<Rightarrow> bool" where
  "clean_entries uid [] = True"
| "clean_entries uid ((name, st, removed) # es) =
     (if \<not> has_prefix name ''.21pins-transaction-'' then clean_entries uid es
      else case st of
        Found n \<Rightarrow>
          if n_kind n \<noteq> RegularFile \<or> \<not> no_bits 0x3F n \<or> n_uid n \<noteq> uid then False
          else removed \<and> clean_entries uid es
      | _ \<Rightarrow> False)"

definition clean_temps :: "'k admin_env \<Rightarrow> bool" where
  "clean_temps e = list_all (\<lambda>d. case d of None \<Rightarrow> False | Some es \<Rightarrow> clean_entries (ae_uid e) es) (ae_temps e)"

text \<open>The transaction itself: journal, file, kernel, checks, removal of the journal.\<close>

definition enroll_peer :: "'k admin_env \<Rightarrow> manifest \<Rightarrow> string \<Rightarrow> peers \<Rightarrow> 'k admin_world \<Rightarrow> 'k admin_outcome" where
  "enroll_peer e m old live w =
     (let patched = old @ peer_section (mf_peer m);
          j = \<lparr>jr_original = old, jr_patched_hash = ae_digest e patched, jr_manifest_hash = ae_manifest_hash e m,
               jr_peer_existed = False, jr_live = live\<rparr> in
      case atomic_put e (put_journal j) w of
        (False, w1) \<Rightarrow> ((admin_result_of ''denied'', False), w1)
      | (True, w1) \<Rightarrow>
     (case atomic_put e (put_config patched) w1 of
        (False, w2) \<Rightarrow> undo e m j w2
      | (True, w2) \<Rightarrow>
     (case call_tool e ''/usr/bin/wg'' [''set'', mf_interface m, ''peer'', mf_peer m, ''allowed-ips'', peer_cidr] w2 of
        (None, w3) \<Rightarrow> undo e m j w3
      | (Some _, w3) \<Rightarrow>
     (case read_config e w3 of (current, w4) \<Rightarrow>
     (case live_peers e m w4 of (after, w5) \<Rightarrow>
        if current = None \<or> ae_digest e (the current) \<noteq> ae_digest e patched \<or> after = None
           \<or> check_peers (the after) (mf_peer m) \<noteq> Some True \<or> \<not> preserved_peers live (the after) (mf_peer m)
        then undo e m j w5
        else case remove_journal e w5 of
          (False, w6) \<Rightarrow> ((admin_result_of ''pending_recovery'', False), w6)
        | (True, w6) \<Rightarrow> verify_peer e m w6)))))"

definition enroll_fresh :: "'k admin_env \<Rightarrow> manifest \<Rightarrow> 'k admin_world \<Rightarrow> 'k admin_outcome" where
  "enroll_fresh e m w =
     (case read_config e w of
        (None, w1) \<Rightarrow> ((admin_result_of ''persistence_unavailable'', False), w1)
      | (Some old, w1) \<Rightarrow>
          (case persistent_peers old of
             None \<Rightarrow> ((admin_result_of ''persistence_invalid'', False), w1)
           | Some p \<Rightarrow>
               (case live_peers e m w1 of
                  (None, w2) \<Rightarrow> ((admin_result_of ''wireguard_unavailable'', False), w2)
                | (Some live, w2) \<Rightarrow>
                    (case check_peers p (mf_peer m) of
                       None \<Rightarrow> ((admin_result_of ''denied'', False), w2)
                     | Some pok \<Rightarrow>
                         if check_peers live (mf_peer m) \<noteq> Some pok \<or> \<not> equal_peers p live
                         then ((admin_result_of ''denied'', False), w2)
                         else if pok then verify_peer e m w2
                         else enroll_peer e m old live w2))))"

definition enroll :: "'k admin_env \<Rightarrow> manifest \<Rightarrow> 'k admin_world \<Rightarrow> 'k admin_outcome" where
  "enroll e m w =
     (if \<not> clean_temps e then ((admin_result_of ''denied'', False), w)
      else case lstat_journal e w of
        (None, w1) \<Rightarrow> ((admin_result_of ''denied'', False), w1)
      | (Some False, w1) \<Rightarrow> enroll_fresh e m w1
      | (Some True, w1) \<Rightarrow>
          (case sys_calls e 1 w1 of
             (False, w2) \<Rightarrow> ((admin_result_of ''denied'', False), w2)
           | (True, w2) \<Rightarrow>
               (case aw_journal w2 of
                  JournalFile j \<Rightarrow>
                    (case rollback e m j w2 of
                       (False, w3) \<Rightarrow> ((admin_result_of ''rollback_failed'', False), w3)
                     | (True, w3) \<Rightarrow> enroll_fresh e m w3)
                | _ \<Rightarrow> ((admin_result_of ''rollback_failed'', False), w2))))"

subsection \<open>Operations\<close>

definition dig_args :: "string \<Rightarrow> string list \<Rightarrow> string list" where
  "dig_args name extra =
     [CHR ''@'' # admin_resolver, name, ''A'', ''+time=2'', ''+tries=1'', ''+noall'', ''+comments'', ''+answer''] @ extra"

fun dig_lines :: "string \<Rightarrow> string \<Rightarrow> string list \<Rightarrow> bool \<Rightarrow> bool" where
  "dig_lines name want [] found = found"
| "dig_lines name want (line # lines) found =
     (if has_prefix line '';'' \<or> trim_space line = [] then dig_lines name want lines found
      else case string_fields line of
        [owner, ttl, class_text, kind, answer] \<Rightarrow>
          if owner = name @ ''.'' \<and> class_text = ''IN'' \<and> kind = ''A'' \<and> answer = want
          then dig_lines name want lines True else False
      | _ \<Rightarrow> False)"

definition dig_answer_ok :: "string \<Rightarrow> string \<Rightarrow> string \<Rightarrow> bool" where
  "dig_answer_ok name want s =
     (if want = ''NXDOMAIN'' then
        contains_sub s ''status: NXDOMAIN,'' \<and> \<not> contains_sub s [CHR 0x09, CHR ''A'', CHR 0x09]
      else if \<not> contains_sub s ''status: NOERROR,'' then False
      else dig_lines name want (split_on CHR 0x0A s) False)"

definition dns_check :: "'k admin_env \<Rightarrow> string \<Rightarrow> string \<Rightarrow> string list \<Rightarrow> 'k admin_world \<Rightarrow> bool \<times> 'k admin_world" where
  "dns_check e name want extra w =
     (case call_tool e ''/usr/bin/dig'' (dig_args name extra) w of
        (None, w1) \<Rightarrow> (False, w1)
      | (Some s, w1) \<Rightarrow> (dig_answer_ok name want s, w1))"

text \<open>A conjunction of checks, the later ones only while the earlier ones hold.\<close>

fun dns_checks :: "'k admin_env \<Rightarrow> (string \<times> string \<times> string list) list \<Rightarrow> 'k admin_world \<Rightarrow> bool \<times> 'k admin_world" where
  "dns_checks e [] w = (True, w)"
| "dns_checks e ((name, want, extra) # cs) w =
     (case dns_check e name want extra w of
        (False, w1) \<Rightarrow> (False, w1)
      | (True, w1) \<Rightarrow> dns_checks e cs w1)"

definition finish_operation :: "admin_result \<Rightarrow> 'k admin_world \<Rightarrow> 'k admin_outcome" where
  "finish_operation r w = ((r, ar_verified r), w)"

definition operation_wg_state :: "'k admin_env \<Rightarrow> manifest \<Rightarrow> admin_result \<Rightarrow> 'k admin_world \<Rightarrow> 'k admin_outcome" where
  "operation_wg_state e m r w =
     (case live_peers e m w of
        (None, w1) \<Rightarrow> ((r, False), w1)
      | (Some p, w1) \<Rightarrow>
          if check_peers p (mf_peer m) = None then ((r, False), w1)
          else finish_operation (r\<lparr>ar_peer_count := length p, ar_verified := True, ar_state := ''inspected''\<rparr>) w1)"

text \<open>
  The loop over \<open>wg show latest-handshakes\<close>: whether the peer was seen, and its recent handshake.
  A stamp is read by \<open>Sscanf\<close> and printed back, so it is the decimal form of an \<open>int64\<close>; differences
  of times saturate at the range of a duration, which does not change the comparison.
\<close>

fun handshake_lines :: "string \<Rightarrow> time \<Rightarrow> string list \<Rightarrow> bool \<times> bool \<times> int \<Rightarrow> (bool \<times> bool \<times> int) option" where
  "handshake_lines peer now [] st = Some st"
| "handshake_lines peer now (line # lines) st =
     (case string_fields line of
        [k, t] \<Rightarrow>
          if k \<noteq> peer then handshake_lines peer now lines st
          else if fst st then None
          else (case parse_int64 t of
                  None \<Rightarrow> None
                | Some stamp \<Rightarrow>
                    if dec_int stamp \<noteq> t then None
                    else let age = now - stamp * second; recent = stamp > 0 \<and> age \<ge> 0 \<and> age \<le> 3 * minute
                         in handshake_lines peer now lines (True, recent, if recent then stamp else snd (snd st)))
      | _ \<Rightarrow> None)"

definition operation_handshake :: "'k admin_env \<Rightarrow> manifest \<Rightarrow> admin_result \<Rightarrow> 'k admin_world \<Rightarrow> 'k admin_outcome" where
  "operation_handshake e m r w =
     (case verify_peer e m w of
        ((v, False), w1) \<Rightarrow> ((r, False), w1)
      | ((v, True), w1) \<Rightarrow>
          (case call_tool e ''/usr/bin/wg'' [''show'', mf_interface m, ''latest-handshakes''] w1 of
             (None, w2) \<Rightarrow> ((r, False), w2)
           | (Some b, w2) \<Rightarrow>
               (case handshake_lines (mf_peer m) (ae_now e) (split_on CHR 0x0A (trim_space b)) (False, False, 0) of
                  None \<Rightarrow> ((r, False), w2)
                | Some (seen, recent, stamp) \<Rightarrow>
                    let r1 = r\<lparr>ar_handshake_recent := recent, ar_handshake_at := stamp\<rparr> in
                    if \<not> seen \<or> \<not> recent then ((r1, False), w2)
                    else finish_operation
                      (r1\<lparr>ar_peer_count := ar_peer_count v, ar_verified := True, ar_state := ''recent_handshake''\<rparr>) w2)))"

definition operation_dns :: "'k admin_env \<Rightarrow> manifest \<Rightarrow> string \<Rightarrow> admin_result \<Rightarrow> 'k admin_world \<Rightarrow> 'k admin_outcome" where
  "operation_dns e m op r w =
     (case dns_checks e ((mf_control_domain m, mf_control_a m, [])
              # (if op = ''dns-test'' then [(mf_control_domain m, mf_control_a m, [''+tcp''])] else [])) w of
        (ok, w1) \<Rightarrow> finish_operation (r\<lparr>ar_verified := ok, ar_state := ''dns_checked''\<rparr>) w1)"

definition operation_technitium :: "'k admin_env \<Rightarrow> manifest \<Rightarrow> string \<Rightarrow> admin_result \<Rightarrow> 'k admin_world \<Rightarrow> 'k admin_outcome" where
  "operation_technitium e m op r w =
     (if op = ''technitium-filtering'' \<and> (mf_blocked_domain m = [] \<or> mf_blocked_a m = [])
      then ((r\<lparr>ar_state := ''filter_probe_unconfigured''\<rparr>, False), w)
      else case ae_unit_file e of
        None \<Rightarrow> ((r, False), w)
      | Some b \<Rightarrow>
          if ae_digest e b \<noteq> mf_service_hash m then ((r, False), w)
          else (case call_tool e ''/usr/bin/systemctl'' [''show'', ''--property=DropInPaths'', ''--value'', mf_unit m] w of
            (None, w1) \<Rightarrow> ((r, False), w1)
          | (Some out, w1) \<Rightarrow>
              if trim_space out \<noteq> [] then ((r, False), w1)
              else (case call_tool e ''/usr/bin/systemctl'' [''is-active'', ''--quiet'', mf_unit m] w1 of
                (active, w2) \<Rightarrow>
                  (case dns_checks e (if op = ''technitium-filtering'' \<and> active \<noteq> None
                        then [(mf_control_domain m, mf_control_a m, []), (mf_control_domain m, mf_control_a m, [''+tcp'']),
                              (mf_blocked_domain m, mf_blocked_a m, []), (mf_blocked_domain m, mf_blocked_a m, [''+tcp''])]
                        else []) w2 of
                     (ok, w3) \<Rightarrow>
                       finish_operation (r\<lparr>ar_verified := active \<noteq> None \<and> ok, ar_state := ''technitium_checked''\<rparr>) w3))))"

definition guest_proof_ok :: "manifest \<Rightarrow> time \<Rightarrow> guest_proof \<Rightarrow> bool" where
  "guest_proof_ok m now p \<longleftrightarrow>
     gp_rules_hash p = mf_rules_hash m \<and> gp_origin p \<and> gp_prefix p = mf_guest_prefix m \<and> gp_ingress p = mf_guest_ingress m
     \<and> gp_udp p \<and> gp_tcp p \<and> now - gp_at p \<ge> 0 \<and> now - gp_at p \<le> 2 * minute"

definition operation_guest :: "'k admin_env \<Rightarrow> manifest \<Rightarrow> admin_result \<Rightarrow> 'k admin_world \<Rightarrow> 'k admin_outcome" where
  "operation_guest e m r w =
     (if mf_guest_prefix m = [] \<or> mf_proof m = [] then ((r\<lparr>ar_state := ''guest_origin_prerequisites_unavailable''\<rparr>, False), w)
      else case call_tool e ''/usr/sbin/nft'' [''--stateless'', ''--json'', ''list'', ''ruleset''] w of
        (None, w1) \<Rightarrow> ((r, False), w1)
      | (Some b, w1) \<Rightarrow>
          if ae_digest e b \<noteq> mf_rules_hash m then ((r, False), w1)
          else
            let r1 = r\<lparr>ar_guest_policy := True\<rparr> in
            (case ae_proof_file e of
               None \<Rightarrow> ((r1\<lparr>ar_state := ''guest_origin_proof_required''\<rparr>, False), w1)
             | Some None \<Rightarrow> ((r1, False), w1)
             | Some (Some p) \<Rightarrow>
                 let ok = guest_proof_ok m (ae_now e) p in
                 finish_operation (r1\<lparr>ar_guest_proof := ok, ar_verified := ok, ar_state := ''guest_evidence_checked''\<rparr>) w1))"

definition run_operation :: "'k admin_env \<Rightarrow> manifest \<Rightarrow> string \<Rightarrow> 'k admin_world \<Rightarrow> 'k admin_outcome" where
  "run_operation e m op w =
     (let r = (admin_result_of ''denied'')\<lparr>ar_operation := op\<rparr> in
      if (has_prefix op ''peer-'' \<or> has_prefix op ''wg-'') \<and> mf_interface m = []
      then ((r\<lparr>ar_state := ''wireguard_prerequisites_unavailable''\<rparr>, False), w)
      else if op = ''peer-enroll'' then (case enroll e m w of ((x, ok), w1) \<Rightarrow> ((x\<lparr>ar_operation := op\<rparr>, ok), w1))
      else if op = ''peer-verify'' then (case verify_peer e m w of ((x, ok), w1) \<Rightarrow> ((x\<lparr>ar_operation := op\<rparr>, ok), w1))
      else if op = ''wg-state'' then operation_wg_state e m r w
      else if op = ''wg-handshake'' then operation_handshake e m r w
      else if op = ''dns-query'' \<or> op = ''dns-test'' then operation_dns e m op r w
      else if op = ''technitium-status'' \<or> op = ''technitium-filtering'' then operation_technitium e m op r w
      else if op = ''guest-isolation'' then operation_guest e m r w
      else ((r, False), w))"

subsection \<open>Trusted files and tools\<close>

text \<open>
  What the file system answers for a path: \<open>Lstat\<close>, opening without following a link with the
  \<open>Stat\<close> of the opened file and its size, the size \<open>trusted\<close> asks for again, and the bytes.
\<close>

record admin_files =
  af_lstat :: "string \<Rightarrow> node option"
  af_open :: "string \<Rightarrow> (node \<times> nat) option"
  af_size :: "string \<Rightarrow> nat option"
  af_read :: "string \<Rightarrow> string option"

definition trusted_size_limit :: nat where "trusted_size_limit = 1048576"

definition admin_trusted_file :: "admin_files \<Rightarrow> string \<Rightarrow> bool \<Rightarrow> bool" where
  "admin_trusted_file fs path private =
     (if path = [] \<or> hd path \<noteq> CHR ''/'' \<or> path_clean path \<noteq> path then False
      else if dirs_trusted (af_lstat fs) (path_dir path) \<noteq> Some True then False
      else case af_open fs path of
        None \<Rightarrow> False
      | Some (n, len) \<Rightarrow>
          n_kind n = RegularFile \<and> n_uid n = 0 \<and> no_bits 0x12 n
          \<and> \<not> (private \<and> (\<not> no_bits 0x3F n \<or> len > trusted_size_limit)))"

definition trusted_bytes :: "admin_files \<Rightarrow> string \<Rightarrow> bool \<Rightarrow> string option" where
  "trusted_bytes fs path private =
     (if \<not> admin_trusted_file fs path private then None
      else case af_size fs path of
        None \<Rightarrow> None
      | Some len \<Rightarrow>
          if len > trusted_size_limit then None
          else if len = 0 then Some []
          else af_read fs path)"

text \<open>The writer that collects an output, and one run of a tool: what it wrote, and whether it exited with 0.\<close>

definition limited_write :: "string \<Rightarrow> string \<Rightarrow> string option" where
  "limited_write chunk b = (if length b + length chunk > trusted_size_limit then None else Some (b @ chunk))"

record tool_run =
  tr_stdout :: "string list"
  tr_stderr :: "string list"
  tr_exit_ok :: bool

text \<open>
  \<open>Run\<close>: what the process is and finds. \<open>am_decode\<close> decodes the manifest (\<open>None\<close> for a malformed
  one, one with unknown fields or with trailing data).
\<close>

record 'k admin_main =
  am_uid :: nat
  am_files :: admin_files
  am_exec :: "string \<Rightarrow> string list \<Rightarrow> 'k \<Rightarrow> tool_run \<times> 'k"
  am_decode :: "string \<Rightarrow> manifest option"
  am_proof :: "string \<Rightarrow> guest_proof option"
  am_state_dir :: lstat_result
  am_lock_open :: bool
  am_flock :: bool

definition native_tool :: "'k admin_main \<Rightarrow> string \<Rightarrow> string list \<Rightarrow> 'k \<Rightarrow> string option \<times> 'k" where
  "native_tool c tool args k =
     (if \<not> admin_trusted_file (am_files c) tool False then (None, k)
      else case am_exec c tool args k of
        (t, k1) \<Rightarrow>
          (if fold_some limited_write (tr_stderr t) [] = None \<or> \<not> tr_exit_ok t then None
           else fold_some limited_write (tr_stdout t) [], k1))"

definition admin_manifest_path :: string where "admin_manifest_path = ''/etc/21pins/dns-admin.json''"
definition admin_unit_path :: string where "admin_unit_path = ''/etc/systemd/system/dns.service''"

definition helper_env :: "'k admin_env \<Rightarrow> 'k admin_main \<Rightarrow> manifest \<Rightarrow> 'k admin_env" where
  "helper_env e c m =
     e\<lparr>ae_run := native_tool c,
       ae_unit_file := trusted_bytes (am_files c) admin_unit_path False,
       ae_proof_file := map_option (am_proof c) (trusted_bytes (am_files c) (mf_proof m) True)\<rparr>"

definition private_state_dir :: "lstat_result \<Rightarrow> bool" where
  "private_state_dir st =
     (case st of Found n \<Rightarrow> n_kind n = Directory \<and> no_bits 0x3F n \<and> n_uid n = 0 | _ \<Rightarrow> False)"

definition run_helper :: "'k admin_env \<Rightarrow> 'k admin_main \<Rightarrow> string list \<Rightarrow> 'k admin_world \<Rightarrow> 'k admin_outcome" where
  "run_helper e c args w =
     (let denied = ((admin_result_of ''denied'', False), w) in
      case args of
        [op, hash] \<Rightarrow>
          if am_uid c \<noteq> 0 \<or> op \<notin> set dns_operations then denied
          else (case trusted_bytes (am_files c) admin_manifest_path True of
            None \<Rightarrow> denied
          | Some b \<Rightarrow>
              if ae_digest e b \<noteq> hash then denied
              else (case am_decode c b of
                None \<Rightarrow> denied
              | Some m \<Rightarrow>
                  if \<not> valid_manifest m \<or> \<not> private_state_dir (am_state_dir c)
                     \<or> trusted_bytes (am_files c) (admin_state_dir @ ''/lock'') True = None
                     \<or> \<not> am_lock_open c \<or> \<not> am_flock c then denied
                  else run_operation (helper_env e c m) m op w))
      | _ \<Rightarrow> denied)"

subsection \<open>What the steps keep\<close>

lemma sys_calls_keep [simp]:
  "aw_config (snd (sys_calls e n w)) = aw_config w" "aw_journal (snd (sys_calls e n w)) = aw_journal w"
  "aw_kernel (snd (sys_calls e n w)) = aw_kernel w" "aw_log (snd (sys_calls e n w)) = aw_log w"
  by (induction n arbitrary: w) simp_all

lemma call_tool_keeps [simp]:
  "aw_config (snd (call_tool e tool args w)) = aw_config w" "aw_journal (snd (call_tool e tool args w)) = aw_journal w"
  "aw_log (snd (call_tool e tool args w)) = aw_log w @ [(tool, args)]"
  by (simp_all add: call_tool_def case_prod_unfold)

lemma read_config_keeps [simp]:
  "aw_config (snd (read_config e w)) = aw_config w" "aw_journal (snd (read_config e w)) = aw_journal w"
  by (simp_all add: read_config_def case_prod_unfold del: sys_calls.simps)

lemma read_config_Some: "fst (read_config e w) = Some b \<Longrightarrow> aw_config w = Some b"
  by (simp add: read_config_def case_prod_unfold split: if_splits)

lemma live_peers_keeps [simp]:
  "aw_config (snd (live_peers e m w)) = aw_config w" "aw_journal (snd (live_peers e m w)) = aw_journal w"
  by (simp_all add: live_peers_def case_prod_unfold split: option.splits)

lemma lstat_journal_keeps [simp]:
  "aw_config (snd (lstat_journal e w)) = aw_config w" "aw_journal (snd (lstat_journal e w)) = aw_journal w"
  by (simp_all add: lstat_journal_def case_prod_unfold del: sys_calls.simps)

lemma lstat_journal_Some: "fst (lstat_journal e w) = Some b \<Longrightarrow> b = (aw_journal w \<noteq> NoJournal)"
  by (simp add: lstat_journal_def case_prod_unfold split: if_splits)

lemma remove_journal_keeps [simp]:
  "aw_config (snd (remove_journal e w)) = aw_config w"
  "aw_journal (snd (remove_journal e w)) = (if fst (remove_journal e w) then NoJournal else aw_journal w)"
  by (simp_all add: remove_journal_def case_prod_unfold del: sys_calls.simps)

lemma put_config_atomic:
  "aw_journal (snd (atomic_put e (put_config b) w)) = aw_journal w"
  "fst (atomic_put e (put_config b) w) \<Longrightarrow> aw_config (snd (atomic_put e (put_config b) w)) = Some b"
  "aw_config (snd (atomic_put e (put_config b) w)) \<in> {Some b, aw_config w}"
  by (auto simp: atomic_put_def put_config_def case_prod_unfold split: bool.splits simp del: sys_calls.simps)

lemma put_journal_atomic:
  "aw_config (snd (atomic_put e (put_journal j) w)) = aw_config w"
  "fst (atomic_put e (put_journal j) w) \<Longrightarrow> aw_journal (snd (atomic_put e (put_journal j) w)) = JournalFile j"
  "aw_journal (snd (atomic_put e (put_journal j) w)) \<in> {JournalFile j, aw_journal w}"
  by (auto simp: atomic_put_def put_journal_def case_prod_unfold split: bool.splits simp del: sys_calls.simps)

declare sys_calls.simps [simp del]

subsection \<open>What verifying, rolling back and enrolling leave behind\<close>

lemma verify_peer_keeps [simp]:
  "aw_config (snd (verify_peer e m w)) = aw_config w" "aw_journal (snd (verify_peer e m w)) = aw_journal w"
  by (simp_all add: verify_peer_def Let_def case_prod_unfold split: option.splits)

lemma verify_peer_state: "ar_state (fst (fst (verify_peer e m w))) \<in> {''configured'', ''not_enrolled''}"
  by (simp add: verify_peer_def Let_def case_prod_unfold admin_result_of_def split: option.splits)

lemma verify_peer_ok:
  "snd (fst (verify_peer e m w)) \<Longrightarrow>
     ar_state (fst (fst (verify_peer e m w))) = ''configured'' \<and> ar_verified (fst (fst (verify_peer e m w)))
     \<and> aw_journal w = NoJournal
     \<and> (\<exists>b p a. aw_config w = Some b \<and> persistent_peers b = Some p \<and> equal_peers p a
          \<and> check_peers p (mf_peer m) = Some True \<and> check_peers a (mf_peer m) = Some True
          \<and> ar_peer_count (fst (fst (verify_peer e m w))) = length a)"
  by (auto simp: verify_peer_def Let_def case_prod_unfold admin_result_of_def
      dest: lstat_journal_Some dest!: read_config_Some split: option.splits if_splits)

lemma rollback_check_result:
  "aw_config (snd (rollback_check e m j w)) = aw_config w"
  "aw_journal (snd (rollback_check e m j w)) = (if fst (rollback_check e m j w) then NoJournal else aw_journal w)"
  by (simp_all add: rollback_check_def case_prod_unfold split: option.splits)

lemma rollback_result:
  "aw_config (snd (rollback e m j w)) \<in> {Some (jr_original j), aw_config w}"
  "fst (rollback e m j w) \<Longrightarrow> aw_config (snd (rollback e m j w)) = Some (jr_original j)"
  "aw_journal (snd (rollback e m j w)) = (if fst (rollback e m j w) then NoJournal else aw_journal w)"
  using put_config_atomic [of e "jr_original j" "snd (live_peers e m (snd (read_config e w)))"]
  by (auto simp: rollback_def case_prod_unfold rollback_check_result split: option.splits bool.splits)

lemma undo_result:
  "aw_config (snd (undo e m j w)) \<in> {Some (jr_original j), aw_config w}"
  "\<not> snd (fst (undo e m j w))"
  "ar_state (fst (fst (undo e m j w))) = (if aw_config (snd (undo e m j w)) = Some (jr_original j) \<and> fst (rollback e m j w)
      then ''rolled_back'' else ''rollback_failed'')"
  "aw_journal (snd (undo e m j w)) = (if ar_state (fst (fst (undo e m j w))) = ''rolled_back'' then NoJournal else aw_journal w)"
  using rollback_result [of e m j w]
  by (auto simp: undo_def case_prod_unfold admin_result_of_def split: bool.splits)

text \<open>What holds of the outcome of an enrolment that found the file \<open>old\<close> and no journal.\<close>

definition transaction_ok :: "manifest \<Rightarrow> string \<Rightarrow> 'k admin_outcome \<Rightarrow> bool" where
  "transaction_ok m old out \<longleftrightarrow>
     (case out of ((r, ok), w) \<Rightarrow>
        aw_config w \<in> {Some old, Some (old @ peer_section (mf_peer m))}
      \<and> (aw_journal w = NoJournal \<or> (\<exists>j. aw_journal w = JournalFile j \<and> jr_original j = old))
      \<and> (ar_state r = ''rolled_back'' \<longrightarrow> aw_config w = Some old \<and> aw_journal w = NoJournal)
      \<and> (aw_config w \<noteq> Some old \<and> aw_journal w = NoJournal \<longrightarrow> ar_state r \<in> {''configured'', ''not_enrolled''})
      \<and> (ok \<longrightarrow> ar_verified r \<and> aw_journal w = NoJournal
           \<and> (\<exists>b p a. aw_config w = Some b \<and> persistent_peers b = Some p \<and> equal_peers p a
                \<and> check_peers p (mf_peer m) = Some True \<and> check_peers a (mf_peer m) = Some True \<and> ar_peer_count r = length a)))"

lemma transaction_verify:
  assumes "aw_config w \<in> {Some old, Some (old @ peer_section (mf_peer m))}" "aw_journal w = NoJournal"
  shows "transaction_ok m old (verify_peer e m w)"
  using assms verify_peer_state [of e m w] verify_peer_ok [of e m w]
  by (auto simp: transaction_ok_def case_prod_unfold)

lemma transaction_undo:
  assumes "aw_config w \<in> {Some old, Some (old @ peer_section (mf_peer m))}" "aw_journal w = JournalFile j" "jr_original j = old"
  shows "transaction_ok m old (undo e m j w)"
  using assms undo_result [of e m j w] by (auto simp: transaction_ok_def case_prod_unfold split: if_splits)

lemma transaction_stopped:
  assumes "aw_config w = Some old" "aw_journal w = NoJournal \<or> aw_journal w = JournalFile j \<and> jr_original j = old"
    and "st \<noteq> ''rolled_back''"
  shows "transaction_ok m old ((admin_result_of st, False), w)"
  using assms by (auto simp: transaction_ok_def admin_result_of_def)

lemma enroll_peer_transaction:
  assumes "aw_config w = Some old" "aw_journal w = NoJournal"
  shows "transaction_ok m old (enroll_peer e m old live w)"
proof -
  let ?new = "old @ peer_section (mf_peer m)"
  define j where "j = \<lparr>jr_original = old, jr_patched_hash = ae_digest e ?new, jr_manifest_hash = ae_manifest_hash e m,
      jr_peer_existed = False, jr_live = live\<rparr>"
  have jo: "jr_original j = old" by (simp add: j_def)
  obtain b1 w1 where w1: "atomic_put e (put_journal j) w = (b1, w1)" by fastforce
  obtain b2 w2 where w2: "atomic_put e (put_config ?new) w1 = (b2, w2)" by fastforce
  obtain t w3 where w3: "call_tool e ''/usr/bin/wg'' [''set'', mf_interface m, ''peer'', mf_peer m, ''allowed-ips'', peer_cidr] w2 = (t, w3)"
    by fastforce
  obtain current w4 where w4: "read_config e w3 = (current, w4)" by fastforce
  obtain after w5 where w5: "live_peers e m w4 = (after, w5)" by fastforce
  obtain b6 w6 where w6: "remove_journal e w5 = (b6, w6)" by fastforce
  have j1: "aw_config w1 = Some old" "b1 \<Longrightarrow> aw_journal w1 = JournalFile j" "aw_journal w1 \<in> {JournalFile j, NoJournal}"
    using put_journal_atomic [of e j w] assms by (simp_all add: w1)
  have j2: "aw_journal w2 = aw_journal w1" "b2 \<Longrightarrow> aw_config w2 = Some ?new" "aw_config w2 \<in> {Some ?new, Some old}"
    using put_config_atomic [of e ?new w1] j1 by (simp_all add: w2)
  have same: "aw_config w3 = aw_config w2" "aw_journal w3 = aw_journal w2" "aw_config w5 = aw_config w2" "aw_journal w5 = aw_journal w2"
    using call_tool_keeps [of e "''/usr/bin/wg''" "[''set'', mf_interface m, ''peer'', mf_peer m, ''allowed-ips'', peer_cidr]" w2]
      read_config_keeps [of e w3] live_peers_keeps [of e m w4]
    by (simp_all add: w3 w4 w5)
  have j6: "aw_config w6 = aw_config w2" "aw_journal w6 = (if b6 then NoJournal else aw_journal w2)"
    using remove_journal_keeps [of e w5] by (simp_all add: w6 same)
  consider (journal) "\<not> b1" | (config) "b1" "\<not> b2" | (tool) "b1" "b2" "t = None" | (complete) "b1" "b2" "t \<noteq> None" by blast
  then show ?thesis
  proof cases
    case journal
    then have "enroll_peer e m old live w = ((admin_result_of ''denied'', False), w1)"
      by (simp add: enroll_peer_def Let_def w1 flip: j_def)
    then show ?thesis using j1 jo by (auto intro: transaction_stopped)
  next
    case config
    then have "enroll_peer e m old live w = undo e m j w2"
      by (simp add: enroll_peer_def Let_def w1 w2 flip: j_def)
    then show ?thesis using config j1 j2 jo by (auto intro!: transaction_undo)
  next
    case tool
    then have "enroll_peer e m old live w = undo e m j w3"
      by (simp add: enroll_peer_def Let_def w1 w2 w3 flip: j_def)
    then show ?thesis using tool j1 j2 same jo by (simp add: transaction_undo)
  next
    case complete
    then have "enroll_peer e m old live w = undo e m j w5
        \<or> enroll_peer e m old live w = (if b6 then verify_peer e m w6 else ((admin_result_of ''pending_recovery'', False), w6))"
      by (auto simp: enroll_peer_def Let_def w1 w2 w3 w4 w5 w6 simp flip: j_def split: bool.splits)
    moreover have "transaction_ok m old (undo e m j w5)" using complete j1 j2 same jo by (simp add: transaction_undo)
    moreover have "transaction_ok m old (verify_peer e m w6)" if b6
      using that complete j2 j6 by (simp add: transaction_verify)
    moreover have "transaction_ok m old ((admin_result_of ''pending_recovery'', False), w6)" if "\<not> b6"
      using that complete j1 j2 j6 jo by (auto simp: transaction_ok_def admin_result_of_def)
    ultimately show ?thesis by (auto split: if_splits)
  qed
qed

lemma enroll_fresh_transaction:
  assumes "aw_config w = Some old" "aw_journal w = NoJournal"
  shows "transaction_ok m old (enroll_fresh e m w)"
proof -
  obtain b w1 where w1: "read_config e w = (b, w1)" by fastforce
  obtain a w2 where w2: "live_peers e m w1 = (a, w2)" by fastforce
  have f: "aw_config w1 = Some old" "aw_journal w1 = NoJournal" "aw_config w2 = Some old" "aw_journal w2 = NoJournal"
    and b: "b = None \<or> b = Some old"
    using read_config_keeps [of e w] read_config_Some [of e w] live_peers_keeps [of e m w1] assms
    by (auto simp: w1 w2 intro: ccontr)
  show ?thesis
    using f b enroll_peer_transaction [of w2 old m e] transaction_verify [of w2 old m e]
      transaction_stopped [of w1 old] transaction_stopped [of w2 old]
    by (auto simp: enroll_fresh_def w1 w2 split: option.splits)
qed

lemma check_peers_True:
  "check_peers ps key = Some True \<longleftrightarrow>
     map_of ps key = Some [wanted_prefix]
     \<and> (\<forall>(k, qs) \<in> set ps. k \<noteq> key \<longrightarrow> (\<forall>q \<in> set qs. \<not> prefix_overlaps q wanted_prefix))"
  by (auto simp: check_peers_def list_ex_iff split: option.splits)

subsection \<open>Which tools the helper runs\<close>

text \<open>The fixed command lines, from the manifest alone.\<close>

definition admin_commands :: "manifest \<Rightarrow> (string \<times> string list) set" where
  "admin_commands m =
     {(''/usr/bin/dig'', dig_args (mf_control_domain m) []), (''/usr/bin/dig'', dig_args (mf_control_domain m) [''+tcp'']),
      (''/usr/bin/dig'', dig_args (mf_blocked_domain m) []), (''/usr/bin/dig'', dig_args (mf_blocked_domain m) [''+tcp'']),
      (''/usr/bin/systemctl'', [''show'', ''--property=DropInPaths'', ''--value'', ''dns.service'']),
      (''/usr/bin/systemctl'', [''is-active'', ''--quiet'', ''dns.service'']),
      (''/usr/sbin/nft'', [''--stateless'', ''--json'', ''list'', ''ruleset''])}"

text \<open>A step that only runs commands of a set and leaves both files alone.\<close>

definition only_runs :: "(string \<times> string list) set \<Rightarrow> 'k admin_world \<Rightarrow> 'k admin_world \<Rightarrow> bool" where
  "only_runs C w w' \<longleftrightarrow> aw_config w' = aw_config w \<and> aw_journal w' = aw_journal w
     \<and> (\<exists>cs. aw_log w' = aw_log w @ cs \<and> set cs \<subseteq> C)"

lemma only_runs_refl [simp]: "only_runs C w w"
  by (simp add: only_runs_def)

lemma only_runs_trans: "only_runs C a b \<Longrightarrow> only_runs C b c \<Longrightarrow> only_runs C a c"
  by (fastforce simp: only_runs_def)

lemma call_only_runs: "(tool, args) \<in> C \<Longrightarrow> only_runs C w (snd (call_tool e tool args w))"
  by (simp add: only_runs_def)

lemma dns_check_only_runs:
  "(''/usr/bin/dig'', dig_args name extra) \<in> C \<Longrightarrow> only_runs C w (snd (dns_check e name want extra w))"
  by (simp add: dns_check_def case_prod_unfold call_only_runs split: option.splits)

lemma dns_checks_only_runs:
  "list_all (\<lambda>(name, want, extra). (''/usr/bin/dig'', dig_args name extra) \<in> C) cs
   \<Longrightarrow> only_runs C w (snd (dns_checks e cs w))"
proof (induction e cs w rule: dns_checks.induct)
  case (2 e name want extra cs w)
  then show ?case using dns_check_only_runs [of name extra C w e want]
    by (auto split: prod.splits bool.splits intro: only_runs_trans)
qed simp

declare dns_checks.simps [simp del]

lemma operation_dns_only_runs: "only_runs (admin_commands m) w (snd (operation_dns e m op r w))"
  by (auto simp: operation_dns_def case_prod_unfold finish_operation_def admin_commands_def
      intro!: dns_checks_only_runs)

lemma operation_guest_only_runs: "only_runs (admin_commands m) w (snd (operation_guest e m r w))"
  by (auto simp: operation_guest_def case_prod_unfold finish_operation_def Let_def admin_commands_def
      intro!: call_only_runs split: option.splits)

lemma operation_technitium_only_runs:
  assumes "mf_unit m = ''dns.service''"
  shows "only_runs (admin_commands m) w (snd (operation_technitium e m op r w))"
proof -
  let ?C = "admin_commands m"
  obtain o1 w1 where w1: "call_tool e ''/usr/bin/systemctl'' [''show'', ''--property=DropInPaths'', ''--value'', mf_unit m] w = (o1, w1)" by fastforce
  obtain o2 w2 where w2: "call_tool e ''/usr/bin/systemctl'' [''is-active'', ''--quiet'', mf_unit m] w1 = (o2, w2)" by fastforce
  have mem: "(''/usr/bin/systemctl'', [''show'', ''--property=DropInPaths'', ''--value'', mf_unit m]) \<in> ?C"
    "(''/usr/bin/systemctl'', [''is-active'', ''--quiet'', mf_unit m]) \<in> ?C"
    unfolding assms by (simp_all add: admin_commands_def)
  have a: "only_runs ?C w w1" using call_only_runs [OF mem(1), of w e] unfolding w1 snd_conv .
  have b: "only_runs ?C w1 w2" using call_only_runs [OF mem(2), of w1 e] unfolding w2 snd_conv .
  have c: "only_runs ?C w2 (snd (dns_checks e (if x then
      [(mf_control_domain m, mf_control_a m, []), (mf_control_domain m, mf_control_a m, [''+tcp'']),
       (mf_blocked_domain m, mf_blocked_a m, []), (mf_blocked_domain m, mf_blocked_a m, [''+tcp''])] else []) w2))" for x
    by (rule dns_checks_only_runs) (simp add: admin_commands_def)
  show ?thesis
    using a b c only_runs_trans [OF a b] only_runs_trans [OF only_runs_trans [OF a b] c]
    by (auto simp: operation_technitium_def w1 w2 case_prod_unfold finish_operation_def split: option.splits)
qed

lemma operation_verified:
  "snd (fst (operation_dns e m op r w)) \<longrightarrow> ar_verified (fst (fst (operation_dns e m op r w)))"
  "snd (fst (operation_guest e m r w)) \<longrightarrow> ar_verified (fst (fst (operation_guest e m r w)))"
  "snd (fst (operation_technitium e m op r w)) \<longrightarrow> ar_verified (fst (fst (operation_technitium e m op r w)))"
  by (simp_all add: operation_dns_def operation_guest_def operation_technitium_def finish_operation_def Let_def
      case_prod_unfold split: option.splits)

text \<open>
  (C33) No requester argument reaches a tool. Whatever arguments the helper is given, and whatever the
  tools and the file system answer, it changes neither the WireGuard configuration nor the journal,
  and runs only the fixed command lines of a valid manifest, whose digest is the second argument, for
  one of the five DNS operations, as root. A result without an error is one that was verified.
\<close>

theorem helper_fixed_commands:
  assumes run: "run_helper e c args w = ((r, ok), w')"
  shows "aw_config w' = aw_config w \<and> aw_journal w' = aw_journal w \<and> (ok \<longrightarrow> ar_verified r)
    \<and> (\<exists>cs. aw_log w' = aw_log w @ cs
        \<and> (cs \<noteq> [] \<longrightarrow> (\<exists>op b m. args = [op, ae_digest e b] \<and> op \<in> set dns_operations \<and> am_uid c = 0
             \<and> trusted_bytes (am_files c) admin_manifest_path True = Some b \<and> am_decode c b = Some m
             \<and> valid_manifest m \<and> am_flock c \<and> set cs \<subseteq> admin_commands m)))"
proof -
  consider "w' = w" "ok = False" | op b m where "args = [op, ae_digest e b]" "op \<in> set dns_operations" "am_uid c = 0"
      "trusted_bytes (am_files c) admin_manifest_path True = Some b" "am_decode c b = Some m" "valid_manifest m" "am_flock c"
      "run_operation (helper_env e c m) m op w = ((r, ok), w')"
    using run by (auto simp: run_helper_def Let_def split: list.splits option.splits prod.splits if_splits)
  then show ?thesis
  proof cases
    case 1
    then show ?thesis by auto
  next
    case (2 op b m)
    let ?e = "helper_env e c m"
    have v: "mf_interface m = []" "mf_unit m = ''dns.service''" using 2(6) by (auto simp: valid_manifest_def split: if_splits)
    have op: "op \<in> {''dns-query'', ''dns-test'', ''technitium-status'', ''technitium-filtering'', ''guest-isolation''}"
      using 2(2) by (auto simp: dns_operations_def)
    have "only_runs (admin_commands m) w (snd (run_operation ?e m op w))"
      using op operation_dns_only_runs [of m w ?e op] operation_technitium_only_runs [OF v(2), of w ?e op]
        operation_guest_only_runs [of m w ?e]
      by (auto simp: run_operation_def Let_def v)
    then have k: "only_runs (admin_commands m) w w'" using 2(8) by simp
    have "snd (fst (run_operation ?e m op w)) \<longrightarrow> ar_verified (fst (fst (run_operation ?e m op w)))"
      using op by (auto simp: run_operation_def Let_def v operation_verified)
    then have "ok \<longrightarrow> ar_verified r" by (simp add: 2(8))
    then show ?thesis using k 2 by (auto simp: only_runs_def)
  qed
qed

definition sample_manifest :: "string \<Rightarrow> manifest" where
  "sample_manifest key =
     \<lparr>mf_workspace = ''local'', mf_host = ''dns-primary'', mf_interface = [], mf_peer = key, mf_config = [],
      mf_resolver = admin_resolver, mf_control_domain = ''a.test'', mf_control_a = ''10.0.0.1'',
      mf_blocked_domain = [], mf_blocked_a = [], mf_unit = ''dns.service'', mf_service_hash = replicate 64 CHR ''a'',
      mf_rules_hash = [], mf_proof = [], mf_guest_prefix = [], mf_guest_ingress = []\<rparr>"

text \<open>Tools that answer nothing and change nothing, except that \<open>wg\<close> and \<open>dig\<close> fail when told so.\<close>

definition sample_env :: "(string list \<Rightarrow> bool) \<Rightarrow> unit admin_env" where
  "sample_env works =
     \<lparr>ae_run = (\<lambda>tool args k. (if works args then Some [] else None, k)), ae_ok = (\<lambda>_. True),
      ae_digest = (\<lambda>b. b), ae_manifest_hash = mf_peer, ae_unit_file = None, ae_proof_file = None,
      ae_now = 0, ae_uid = 0, ae_temps = []\<rparr>"

definition sample_world :: "string \<Rightarrow> unit admin_world" where
  "sample_world old = \<lparr>aw_config = Some old, aw_journal = NoJournal, aw_kernel = (), aw_log = [], aw_tick = 0\<rparr>"

definition sample_main :: "unit admin_main" where
  "sample_main =
     \<lparr>am_uid = 0,
      am_files = \<lparr>af_lstat = sample_lstat, af_open = (\<lambda>_. Some (\<lparr>n_kind = RegularFile, n_uid = 0, n_perm = 0x180\<rparr>, 2)),
        af_size = (\<lambda>_. Some 2), af_read = (\<lambda>_. Some ''{}'')\<rparr>,
      am_exec = (\<lambda>tool args k. (\<lparr>tr_stdout = [], tr_stderr = [], tr_exit_ok = False\<rparr>, k)),
      am_decode = (\<lambda>_. Some (sample_manifest [])), am_proof = (\<lambda>_. None),
      am_state_dir = Found \<lparr>n_kind = Directory, n_uid = 0, n_perm = 0x1C0\<rparr>, am_lock_open = True, am_flock = True\<rparr>"

lemma sample_dirs_trusted: "clean_path p \<Longrightarrow> dirs_trusted sample_lstat (path_dir p) = Some True"
proof -
  assume "clean_path p"
  then obtain cs where cs: "p = abs_path cs" "list_all plain_elem cs" "cs \<noteq> []" using clean_path_abs by blast
  then obtain ds c where ds: "cs = ds @ [c]" by (cases cs rule: rev_cases) auto
  have "trusted_dir \<lparr>n_kind = Directory, n_uid = 0, n_perm = 0x1ED\<rparr>" by code_simp
  then show ?thesis using cs ds by (simp add: path_dir_abs dirs_trusted_abs sample_lstat_def)
qed

lemma sample_trusted_bytes:
  assumes "clean_path p"
  shows "trusted_bytes (am_files sample_main) p True = Some ''{}''"
proof -
  have "no_bits 0x12 \<lparr>n_kind = RegularFile, n_uid = 0, n_perm = 0x180\<rparr>" "no_bits 0x3F \<lparr>n_kind = RegularFile, n_uid = 0, n_perm = 0x180\<rparr>"
    by code_simp+
  then show ?thesis
    using assms sample_dirs_trusted [OF assms]
    by (cases p) (simp_all add: path_word_def trusted_bytes_def admin_trusted_file_def sample_main_def clean_path_def trusted_size_limit_def)
qed

lemma helper_fixed_commands_witness:
  "let out = run_helper (sample_env (\<lambda>_. False)) sample_main [''dns-query'', ''{}''] (sample_world []) in
   aw_log (snd out) = [(''/usr/bin/dig'', dig_args ''a.test'' [])] \<and> aw_journal (snd out) = NoJournal"
proof -
  let ?out = "run_helper (sample_env (\<lambda>_. False)) sample_main [''dns-query'', ''{}''] (sample_world [])"
  obtain r ok w' where out: "?out = ((r, ok), w')" by (metis prod.exhaust)
  have same: "aw_journal w' = aw_journal (sample_world [])" using helper_fixed_commands [OF out] by blast
  have m: "valid_manifest (sample_manifest [])" "private_state_dir (am_state_dir sample_main)"
    "clean_path admin_manifest_path" "clean_path (admin_state_dir @ ''/lock'')" "''dns-query'' \<in> set dns_operations"
    by code_simp+
  have sm: "am_uid sample_main = 0" "am_decode sample_main = (\<lambda>_. Some (sample_manifest []))" "am_lock_open sample_main"
    "am_flock sample_main" "ae_digest (sample_env f) = (\<lambda>b. b)" for f by (simp_all add: sample_main_def sample_env_def)
  let ?e = "helper_env (sample_env (\<lambda>_. False)) sample_main (sample_manifest [])"
  have run: "?out = run_operation ?e (sample_manifest []) ''dns-query'' (sample_world [])"
    using m by (simp add: run_helper_def sample_trusted_bytes sm)
  have log: "aw_log (snd (run_operation e (sample_manifest []) ''dns-query'' v)) = aw_log v @ [(''/usr/bin/dig'', dig_args ''a.test'' [])]"
    if "fst (ae_run e ''/usr/bin/dig'' (dig_args ''a.test'' []) (aw_kernel v)) = None" for e and v :: "unit admin_world"
    using that by (simp add: run_operation_def operation_dns_def dns_checks.simps dns_check_def call_tool_def finish_operation_def
        sample_manifest_def case_prod_unfold)
  have "fst (ae_run ?e tool args k) = None" for tool args k
    by (simp add: helper_env_def native_tool_def sample_main_def)
  then have "aw_log (snd ?out) = [(''/usr/bin/dig'', dig_args ''a.test'' [])]"
    unfolding run by (subst log) (simp_all add: sample_world_def)
  moreover have "aw_journal (sample_world []) = NoJournal" by (simp add: sample_world_def)
  ultimately show ?thesis using same by (simp add: out)
qed

text \<open>
  (C34) Enrolling the peer is a transaction, whatever the tools answer and wherever the file system
  fails. From a configuration and no journal, the file afterwards is the old one or the old one with
  the peer appended. \<open>rolled_back\<close> means that the old file is back and the journal gone. A changed file
  without a journal is only left when all checks had passed. A journal that is left holds the old
  file, and a later rollback that succeeds restores it. Success means that the file and the kernel list
  the same peers, this one with exactly its address, and no other peer overlaps it.
\<close>

theorem enrolment_transaction:
  assumes "aw_config w = Some old" "aw_journal w = NoJournal" and run: "enroll e m w = ((r, ok), w')"
  shows "aw_config w' \<in> {Some old, Some (old @ peer_section (mf_peer m))}
    \<and> (ar_state r = ''rolled_back'' \<longrightarrow> aw_config w' = Some old \<and> aw_journal w' = NoJournal)
    \<and> (aw_config w' \<noteq> Some old \<and> aw_journal w' = NoJournal \<longrightarrow> ar_state r \<in> {''configured'', ''not_enrolled''})
    \<and> (aw_journal w' = NoJournal \<or> (\<exists>j. aw_journal w' = JournalFile j \<and> jr_original j = old
         \<and> (\<forall>e' w''. rollback e' m j w' = (True, w'') \<longrightarrow> aw_config w'' = Some old \<and> aw_journal w'' = NoJournal)))
    \<and> (ok \<longrightarrow> ar_verified r \<and> aw_journal w' = NoJournal
         \<and> (\<exists>b p a. aw_config w' = Some b \<and> persistent_peers b = Some p \<and> equal_peers p a
              \<and> map_of p (mf_peer m) = Some [wanted_prefix] \<and> map_of a (mf_peer m) = Some [wanted_prefix]
              \<and> (\<forall>(k, qs) \<in> set a. k \<noteq> mf_peer m \<longrightarrow> (\<forall>q \<in> set qs. \<not> prefix_overlaps q wanted_prefix))))"
proof -
  have "transaction_ok m old (enroll e m w)"
    using assms(1,2) enroll_fresh_transaction [of "snd (lstat_journal e w)" old m e] lstat_journal_Some [of e w True]
      transaction_stopped [of w old] transaction_stopped [of "snd (lstat_journal e w)" old]
    by (auto simp: enroll_def case_prod_unfold split: option.splits bool.splits)
  then have t: "transaction_ok m old ((r, ok), w')" by (simp add: run)
  have "aw_config w'' = Some (jr_original j) \<and> aw_journal w'' = NoJournal" if "rollback e' m j w' = (True, w'')" for e' j w''
    using rollback_result [of e' m j w'] that by simp
  then show ?thesis using t unfolding transaction_ok_def check_peers_True prod.case by blast
qed

lemma sys_calls_succeed: "ae_ok e = (\<lambda>_. True) \<Longrightarrow> sys_calls e n w = (True, w\<lparr>aw_tick := aw_tick w + n\<rparr>)"
  by (induction n arbitrary: w) (simp_all add: sys_calls.simps)

lemma enrolment_transaction_witness:
  "let out = enroll (sample_env (\<lambda>args. hd args = ''show'')) (sample_manifest ''k'') (sample_world ''[Interface]'') in
   ar_state (fst (fst out)) = ''rolled_back'' \<and> aw_config (snd out) = Some ''[Interface]'' \<and> aw_journal (snd out) = NoJournal"
proof -
  let ?out = "enroll (sample_env (\<lambda>args. hd args = ''show'')) (sample_manifest ''k'') (sample_world ''[Interface]'')"
  obtain r ok w' where out: "?out = ((r, ok), w')" by (metis prod.exhaust)
  have p: "persistent_peers ''[Interface]'' = Some []" "parse_peers [] = Some []" "check_peers [] k = Some False" for k
    by (code_simp, code_simp, simp add: check_peers_def)
  have env: "ae_run (sample_env f) = (\<lambda>tool args k. (if f args then Some [] else None, k))"
      "ae_digest (sample_env f) = (\<lambda>b. b)" "ae_manifest_hash (sample_env f) = mf_peer" "clean_temps (sample_env f)"
      "sys_calls (sample_env f) n v = (True, v\<lparr>aw_tick := aw_tick v + n\<rparr>)" for f n and v :: "unit admin_world"
    by (simp_all add: sample_env_def clean_temps_def sys_calls_succeed)
  have "ar_state (fst (fst ?out)) = ''rolled_back''"
    by (simp add: enroll_def enroll_fresh_def enroll_peer_def undo_def rollback_def rollback_check_def read_config_def
        live_peers_def lstat_journal_def remove_journal_def atomic_put_def put_config_def put_journal_def call_tool_def
        admin_result_of_def equal_peers_def p env sample_world_def Let_def del: sys_calls.simps)
  moreover have w: "aw_config (sample_world ''[Interface]'') = Some ''[Interface]''" "aw_journal (sample_world ''[Interface]'') = NoJournal"
    by (simp_all add: sample_world_def)
  have "ar_state r = ''rolled_back'' \<longrightarrow> aw_config w' = Some ''[Interface]'' \<and> aw_journal w' = NoJournal"
    using enrolment_transaction [OF w out] by blast
  ultimately show ?thesis by (simp add: out)
qed

subsection \<open>The appended peer\<close>

lemma split_on_append_any: "split_on c (s @ c # t) = split_on c s @ split_on c t"
proof (induction s)
  case (Cons x s)
  then show ?case by (cases "split_on c s") auto
qed simp

lemma fold_some_append: "fold_some f (xs @ ys) s = (case fold_some f xs s of None \<Rightarrow> None | Some t \<Rightarrow> fold_some f ys t)"
  by (induction xs arbitrary: s) (auto split: option.splits)

lemma trim_space_blank: "s \<noteq> [] \<Longrightarrow> visible (hd s) \<Longrightarrow> visible (last s) \<Longrightarrow> trim_space (CHR '' '' # s) = s"
proof -
  assume s: "s \<noteq> []" "visible (hd s)" "visible (last s)"
  have "strip_by space_len (CHR '' '' # s) = strip_by space_len s"
    by (subst strip_by.simps) (simp add: byte_def)
  then show ?thesis using trim_space_visible [OF s] by (simp add: trim_space_def)
qed

lemma peer_key_text:
  assumes "key = std_encode b" "length b = 32"
  shows "peer_key_ok key" "list_all visible key" "key \<noteq> []" "visible (hd key)" "visible (last key)"
proof -
  show k: "peer_key_ok key" using assms by (simp add: peer_key_ok_def)
  show v: "list_all visible key" using assms(1) std_encode_visible by simp
  have "std_decode [] = Some []" by code_simp
  then show ne: "key \<noteq> []" using k by (auto simp: peer_key_ok_def)
  show "visible (hd key)" "visible (last key)" using v ne by (simp_all add: list_all_iff)
qed

lemma value_bytes_step: "value_bytes n v = (if n = 0 then [] else value_bytes (n - 1) (v div 256) @ [v mod 256])"
  by (cases n) auto

lemma wanted_bits: "lead_bits 32 (V4 [10, 66, 66, 5]) = 172114437"
  by (simp add: lead_bits_def addr_bytes_def addr_bits_def is_v4_def bytes_value_def)

lemma wanted_bytes: "value_bytes 4 172114437 = [10, 66, 66, 5]"
  by (simp add: value_bytes_step [of 4] value_bytes_step [of 3] value_bytes_step [of 2] value_bytes_step [of 1])

lemma wanted_prefix_text: "parse_prefix peer_cidr = Some wanted_prefix" "prefix_text wanted_prefix = peer_cidr"
  "prefix_masked wanted_prefix = wanted_prefix"
  subgoal by code_simp
  subgoal by code_simp
  subgoal by (simp add: prefix_masked_def wanted_prefix_def wanted_bits wanted_bytes addr_bits_def is_v4_def)
  done

lemma wanted_text:
  "split_on CHR '','' peer_cidr = [peer_cidr]" "parse_allowed peer_cidr = Some wanted_prefix"
  "filter (\<lambda>c. c \<noteq> CHR '' '') peer_cidr = peer_cidr" "peer_cidr \<noteq> ''(none)''" "peer_cidr \<noteq> []"
  "list_all visible peer_cidr" "visible (hd peer_cidr)" "visible (last peer_cidr)" "CHR 0x0A \<notin> set peer_cidr"
  subgoal by code_simp
  subgoal by (simp add: parse_allowed_def wanted_prefix_text)
  subgoal by (simp add: peer_cidr_def)
  subgoal by (simp add: peer_cidr_def)
  subgoal by (simp add: peer_cidr_def)
  subgoal by code_simp
  subgoal by code_simp
  subgoal by code_simp
  subgoal by (simp add: peer_cidr_def)
  done

lemma parse_one_peer:
  assumes "key = std_encode b" "length b = 32"
  shows "parse_peers (key @ '' '' @ peer_cidr) = Some [(key, [wanted_prefix])]"
proof -
  note k = peer_key_text [OF assms]
  have "trim_space (key @ '' '' @ peer_cidr) = key @ '' '' @ peer_cidr"
    by (rule trim_space_visible) (use k wanted_text in simp_all)
  moreover have "split_on CHR 0x0A (key @ '' '' @ peer_cidr) = [key @ '' '' @ peer_cidr]"
    using k(2) wanted_text(9) by (intro split_on_plain) (auto simp: list_all_iff visible_def byte_def)
  ultimately show ?thesis
    using two_fields [OF k(2) wanted_text(6) k(3) wanted_text(5)] k(1) k(3)
    by (simp add: parse_peers_def parse_peer_line_def wanted_text Let_def)
qed

lemma ini_key_line:
  assumes "key = std_encode b" "length b = 32" "is_section s = ''Peer''" "is_key s = []"
  shows "ini_line (''PublicKey = '' @ key) s = Some (s\<lparr>is_key := key\<rparr>)"
proof -
  note k = peer_key_text [OF assms(1,2)]
  have t: "trim_space (''PublicKey = '' @ key) = ''PublicKey = '' @ key"
    by (rule trim_space_visible) (use k in \<open>simp_all add: visible_def byte_def\<close>)
  have c: "split_2 CHR ''='' (''PublicKey = '' @ key) = (''PublicKey '', Some (CHR '' '' # key))" by simp
  have n: "trim_space ''PublicKey '' = ''PublicKey''" by code_simp
  show ?thesis unfolding ini_line_def t
    using assms(3,4) k by (simp add: ini_entry_def c n trim_space_blank del: append_Cons, simp add: ini_entry_def c n trim_space_blank)
qed

lemma ini_ips_line:
  assumes "is_section s = ''Peer''" "is_ips s = []"
  shows "ini_line (''AllowedIPs = '' @ peer_cidr) s = Some (s\<lparr>is_ips := peer_cidr\<rparr>)"
proof -
  have t: "trim_space (''AllowedIPs = '' @ peer_cidr) = ''AllowedIPs = '' @ peer_cidr"
    "split_2 CHR ''='' (''AllowedIPs = '' @ peer_cidr) = (''AllowedIPs '', Some (CHR '' '' # peer_cidr))"
    "trim_space ''AllowedIPs '' = ''AllowedIPs''" "trim_space (CHR '' '' # peer_cidr) = peer_cidr"
    "has_prefix (''AllowedIPs = '' @ peer_cidr) ''#'' = False" "has_prefix (''AllowedIPs = '' @ peer_cidr) ''['' = False"
    "(''AllowedIPs = '' @ peer_cidr = []) = False"
    by code_simp+
  have "ini_line (''AllowedIPs = '' @ peer_cidr) s = ini_entry (''AllowedIPs = '' @ peer_cidr) s"
    using assms unfolding ini_line_def t by (simp add: t Let_def del: append_Cons append_Nil)
  also have "\<dots> = Some (s\<lparr>is_ips := peer_cidr\<rparr>)"
    using assms by (simp add: ini_entry_def t del: append_Cons append_Nil)
  finally show ?thesis .
qed

lemma ini_peer_header:
  assumes "ini_flush s = Some t" "is_seen t"
  shows "ini_line ''[Peer]'' s = Some (t\<lparr>is_section := ''Peer'', is_key := [], is_ips := []\<rparr>)"
proof -
  have "trim_space ''[Peer]'' = ''[Peer]''" by code_simp
  then show ?thesis using assms by (simp add: ini_line_def ini_header_def)
qed

text \<open>
  What \<open>enroll\<close> appends to the configuration means what it should: to a file that lists some peers
  without this key, the appended section adds exactly this peer, with exactly its one address, and
  changes no other.
\<close>

theorem appended_peer_parsed:
  assumes old: "persistent_peers old = Some ps" and new: "map_of ps key = None"
    and key: "key = std_encode b" "length b = 32"
  shows "persistent_peers (old @ peer_section key) = Some (ps @ [(key, [wanted_prefix])])"
proof -
  obtain s t where s: "fold_some ini_line (split_on CHR 0x0A old) ini_start = Some s" and t: "ini_flush s = Some t"
    and seen: "is_seen t" and ps: "ps = is_peers t"
    using old by (auto simp: persistent_peers_def split: option.splits if_splits)
  note k = peer_key_text [OF key]
  have nl: "CHR 0x0A \<notin> set (''PublicKey = '' @ key)" "CHR 0x0A \<notin> set (''AllowedIPs = '' @ peer_cidr)" "CHR 0x0A \<notin> set ''[Peer]''"
    using k(2) wanted_text(9) by (auto simp: list_all_iff visible_def byte_def)
  have lines: "split_on CHR 0x0A (old @ peer_section key)
      = split_on CHR 0x0A old @ [''[Peer]'', ''PublicKey = '' @ key, ''AllowedIPs = '' @ peer_cidr, []]"
    unfolding peer_section_def
    using split_on_append_any [of "CHR 0x0A" old] split_on_append [OF nl(1)] split_on_append [OF nl(2)] split_on_append [OF nl(3)]
    by simp
  have blank: "ini_line [] x = Some x" for x by (simp add: ini_line_def)
  let ?u = "t\<lparr>is_section := ''Peer'', is_key := key, is_ips := peer_cidr\<rparr>"
  have "fold_some ini_line (split_on CHR 0x0A (old @ peer_section key)) ini_start = Some ?u"
    unfolding lines fold_some_append s option.case fold_some.simps ini_peer_header [OF t seen]
    by (simp add: ini_key_line [OF key] ini_ips_line blank del: append_Cons append_Nil)
  moreover have "ini_flush ?u = Some (?u\<lparr>is_peers := ps @ [(key, [wanted_prefix])]\<rparr>)"
    using k new parse_one_peer [OF key] by (simp add: ini_flush_def wanted_text ps)
  ultimately show ?thesis using seen by (simp add: persistent_peers_def)
qed

lemma appended_peer_parsed_witness:
  "persistent_peers (''[Interface]'' @ peer_section (std_encode (replicate 32 CHR ''a'')))
   = Some [(std_encode (replicate 32 CHR ''a''), [wanted_prefix])]"
proof -
  have "persistent_peers ''[Interface]'' = Some []" by code_simp
  then show ?thesis using appended_peer_parsed [of "''[Interface]''" "[]" _ "replicate 32 CHR ''a''"] by simp
qed

end
