(* ===== verification/NftChain.thy ===== *)
theory NftChain
  imports NetTypes
begin

text \<open>
  Package \<open>internal/netpolicy\<close>, the normal form of one nftables chain (\<open>normalizeNFT\<close> of \<open>linuxwg.go\<close>)
  and the readers of \<open>wg\<close> and \<open>ip\<close> output beside it, against what a chain does to a packet.

  The JSON of \<open>nft\<close> is the value it decodes to: an entry has the hook of its \<open>chain\<close> and the
  statements of its \<open>rule\<close>, \<open>None\<close> for a part that is absent and \<open>Some None\<close> for one that does not
  decode into the struct of the source. The hashes of the digest are parameters.
\<close>

subsection \<open>Chains as nft prints them\<close>

record nft_match =
  nm_op :: string
  nm_protocol :: string
  nm_field :: string
  nm_meta :: string
  nm_right :: string

datatype nft_stmt =
    StmtMatch "nft_match option"
  | StmtMangle "(string \<times> 32 word) option"
  | StmtDeny
  | StmtAccept
  | StmtCounter
  | StmtOther
  | StmtMany

record nft_entry =
  ne_chain :: "string option option"
  ne_rule :: "nft_stmt list option option"

subsection \<open>The normal form\<close>

record nft_policy =
  np_supported :: bool
  np_denied :: "string set"
  np_marks :: "string \<rightharpoonup> 32 word"
  np_forwarded :: "string set"
  np_guards :: "string \<rightharpoonup> string"
  np_hook :: string
  np_digest :: string

record nft_rule =
  nr_source :: string
  nr_destination :: string
  nr_guard :: string
  nr_mark :: "32 word option"
  nr_deny :: bool
  nr_accept :: bool
  nr_known :: bool
  nr_selectors :: "string set"

definition no_rule :: nft_rule where
  "no_rule =
     \<lparr>nr_source = [], nr_destination = [], nr_guard = [], nr_mark = None, nr_deny = False, nr_accept = False,
      nr_known = True, nr_selectors = {}\<rparr>"

definition scan_match :: "nft_match \<Rightarrow> nft_rule \<Rightarrow> nft_rule" where
  "scan_match m r =
     (if nm_op m = ''!='' \<and> nm_meta m = ''oifname'' \<and> native_ok (nm_right m) then
        r\<lparr>nr_known := nr_known r \<and> nr_guard r = [], nr_guard := nm_right m\<rparr>
      else if nm_op m \<noteq> ''=='' \<or> (nm_protocol m \<noteq> ''ip'' \<and> nm_protocol m \<noteq> ''ip6'') then r\<lparr>nr_known := False\<rparr>
      else
        let r1 = r\<lparr>nr_known := nr_known r \<and> nm_field m \<notin> nr_selectors r,
                   nr_selectors := insert (nm_field m) (nr_selectors r)\<rparr> in
        if nm_field m = ''saddr'' then r1\<lparr>nr_source := nm_right m\<rparr>
        else if nm_field m = ''daddr'' then r1\<lparr>nr_destination := nm_right m\<rparr>
        else r1\<lparr>nr_known := False\<rparr>)"

fun scan_stmt :: "nft_stmt \<Rightarrow> nft_rule \<Rightarrow> nft_rule" where
  "scan_stmt (StmtMatch (Some m)) r = scan_match m r"
| "scan_stmt (StmtMangle (Some (key, v))) r = (if key \<noteq> ''mark'' then r\<lparr>nr_known := False\<rparr> else r\<lparr>nr_mark := Some v\<rparr>)"
| "scan_stmt StmtDeny r = r\<lparr>nr_deny := True\<rparr>"
| "scan_stmt StmtAccept r = r\<lparr>nr_accept := True\<rparr>"
| "scan_stmt StmtCounter r = r"
| "scan_stmt _ r = r\<lparr>nr_known := False\<rparr>"

definition scan_rule :: "nft_stmt list \<Rightarrow> nft_rule" where
  "scan_rule stmts = fold scan_stmt stmts no_rule"

text \<open>What a rule does to the policy and to the set of sources whose chain has ended.\<close>

type_synonym nft_state = "nft_policy \<times> string set"

definition apply_rule :: "string \<Rightarrow> nft_rule \<Rightarrow> nft_state \<Rightarrow> nft_state" where
  "apply_rule target r st =
     (case st of (p, ended) \<Rightarrow>
        let unsupported = (p\<lparr>np_supported := False\<rparr>, ended); s = nr_source r in
        if \<not> nr_known r then unsupported
        else if nr_destination r = [] \<and> (nr_deny r \<or> nr_accept r \<or> nr_mark r \<noteq> None) then unsupported
        else if nr_destination r \<noteq> target then st
        else if s = [] then unsupported
        else if s \<in> ended then st
        else if nr_deny r \<and> nr_accept r \<or> nr_guard r \<noteq> [] \<and> (\<not> nr_deny r \<or> nr_mark r \<noteq> None) then unsupported
        else
          let p1 = (if nr_deny r then
                      (if nr_guard r \<noteq> [] then p\<lparr>np_guards := (np_guards p)(s \<mapsto> nr_guard r)\<rparr>
                       else p\<lparr>np_denied := insert s (np_denied p)\<rparr>) else p);
              e1 = (if nr_deny r \<and> nr_guard r = [] then insert s ended else ended);
              p2 = (if nr_accept r then p1\<lparr>np_forwarded := insert s (np_forwarded p1)\<rparr> else p1);
              e2 = (if nr_accept r then insert s e1 else e1);
              p3 = (case nr_mark r of None \<Rightarrow> p2 | Some v \<Rightarrow> p2\<lparr>np_marks := (np_marks p2)(s \<mapsto> v)\<rparr>)
          in (p3, e2))"

definition apply_entry :: "string \<Rightarrow> nft_entry \<Rightarrow> nft_state \<Rightarrow> nft_state" where
  "apply_entry target x st =
     (let st1 = (case ne_chain x of
                   None \<Rightarrow> st
                 | Some None \<Rightarrow> (fst st\<lparr>np_supported := False, np_hook := []\<rparr>, snd st)
                 | Some (Some hook) \<Rightarrow> (fst st\<lparr>np_hook := hook\<rparr>, snd st))
      in case ne_rule x of
           None \<Rightarrow> st1
         | Some None \<Rightarrow> (fst st1\<lparr>np_supported := False\<rparr>, snd st1)
         | Some (Some stmts) \<Rightarrow> apply_rule target (scan_rule stmts) st1)"

definition empty_policy :: nft_policy where
  "empty_policy =
     \<lparr>np_supported = True, np_denied = {}, np_marks = Map.empty, np_forwarded = {}, np_guards = Map.empty, np_hook = [],
      np_digest = []\<rparr>"

definition normalize_entries :: "string \<Rightarrow> nft_entry list \<Rightarrow> nft_policy" where
  "normalize_entries target es =
     (let p = fst (fold (apply_entry target) es (empty_policy, {}))
      in p\<lparr>np_supported := np_supported p \<and> list_ex (\<lambda>x. ne_chain x \<noteq> None) es\<rparr>)"

definition normalize_nft ::
    "(string \<Rightarrow> nft_entry list option) \<Rightarrow> (string \<Rightarrow> string) \<Rightarrow> (nft_policy \<Rightarrow> string) \<Rightarrow> string \<Rightarrow> string \<Rightarrow> nft_policy" where
  "normalize_nft decode hash_raw hash_policy raw target =
     (case decode raw of
        None \<Rightarrow> empty_policy\<lparr>np_supported := False, np_digest := hash_raw raw\<rparr>
      | Some es \<Rightarrow>
          if es = [] then empty_policy\<lparr>np_supported := False, np_digest := hash_raw raw\<rparr>
          else let p = normalize_entries target es in p\<lparr>np_digest := hash_policy p\<rparr>)"

subsection \<open>What a chain does to a packet\<close>

text \<open>
  nftables' own meaning of these statements, in their order: a match that fails ends the rule, a
  verdict ends the chain, a mark stays. A right side \<open>@name\<close> stands for the elements of a set. What
  the other statements do is the parameter \<open>other\<close>.
\<close>

record nft_packet =
  pk_src :: string
  pk_dst :: string
  pk_oif :: string

datatype nft_verdict = NftDropped | NftAccepted

definition address_in :: "(string \<Rightarrow> string set) \<Rightarrow> string \<Rightarrow> string \<Rightarrow> bool" where
  "address_in sets right a \<longleftrightarrow>
     (case right of c # name \<Rightarrow> if c = CHR ''@'' then a \<in> sets name else a = right | [] \<Rightarrow> False)"

definition match_holds :: "(string \<Rightarrow> string set) \<Rightarrow> nft_match \<Rightarrow> nft_packet \<Rightarrow> bool" where
  "match_holds sets m pk \<longleftrightarrow>
     (if nm_meta m = ''oifname'' then (if nm_op m = ''!='' then pk_oif pk \<noteq> nm_right m else pk_oif pk = nm_right m)
      else let eq = (if nm_field m = ''saddr'' then address_in sets (nm_right m) (pk_src pk)
                     else nm_field m = ''daddr'' \<and> address_in sets (nm_right m) (pk_dst pk))
           in if nm_op m = ''!='' then \<not> eq else eq)"

type_synonym nft_other = "nft_stmt \<Rightarrow> nft_packet \<Rightarrow> 32 word \<Rightarrow> nft_verdict option \<times> 32 word"

fun exec_stmts ::
    "(string \<Rightarrow> string set) \<Rightarrow> nft_other \<Rightarrow> nft_stmt list \<Rightarrow> nft_packet \<Rightarrow> 32 word \<Rightarrow> nft_verdict option \<times> 32 word" where
  "exec_stmts sets other [] pk mark = (None, mark)"
| "exec_stmts sets other (x # xs) pk mark =
     (case x of
        StmtMatch (Some m) \<Rightarrow> if match_holds sets m pk then exec_stmts sets other xs pk mark else (None, mark)
      | StmtMangle (Some (key, v)) \<Rightarrow>
          if key = ''mark'' then exec_stmts sets other xs pk v else other x pk mark
      | StmtDeny \<Rightarrow> (Some NftDropped, mark)
      | StmtAccept \<Rightarrow> (Some NftAccepted, mark)
      | StmtCounter \<Rightarrow> exec_stmts sets other xs pk mark
      | _ \<Rightarrow> other x pk mark)"

fun exec_chain ::
    "(string \<Rightarrow> string set) \<Rightarrow> nft_other \<Rightarrow> nft_entry list \<Rightarrow> nft_packet \<Rightarrow> 32 word \<Rightarrow> nft_verdict option \<times> 32 word" where
  "exec_chain sets other [] pk mark = (None, mark)"
| "exec_chain sets other (x # xs) pk mark =
     (case ne_rule x of
        Some (Some stmts) \<Rightarrow>
          (case exec_stmts sets other stmts pk mark of
             (None, mark1) \<Rightarrow> exec_chain sets other xs pk mark1
           | r \<Rightarrow> r)
      | _ \<Rightarrow> exec_chain sets other xs pk mark)"

text \<open>
  What the normal form relies on and does not check: a left side is one expression, addresses are
  written out (no named set), and a rule has its matches first and a verdict last.
\<close>

definition match_plain :: "nft_match \<Rightarrow> bool" where
  "match_plain m \<longleftrightarrow> (nm_meta m = [] \<or> nm_protocol m = [])
     \<and> (nm_meta m = [] \<longrightarrow> nm_right m \<noteq> [] \<and> hd (nm_right m) \<noteq> CHR ''@'')"

fun stmts_plain :: "bool \<Rightarrow> nft_stmt list \<Rightarrow> bool" where
  "stmts_plain acted [] = True"
| "stmts_plain acted (x # xs) =
     (case x of
        StmtMatch (Some m) \<Rightarrow> \<not> acted \<and> match_plain m \<and> stmts_plain acted xs
      | StmtMangle _ \<Rightarrow> stmts_plain True xs
      | StmtDeny \<Rightarrow> xs = []
      | StmtAccept \<Rightarrow> xs = []
      | _ \<Rightarrow> stmts_plain acted xs)"

definition chain_plain :: "nft_entry list \<Rightarrow> bool" where
  "chain_plain es \<longleftrightarrow>
     list_all (\<lambda>x. case ne_rule x of Some (Some stmts) \<Rightarrow> stmts_plain False stmts | _ \<Rightarrow> True) es"

subsection \<open>One rule\<close>

definition rule_fits :: "nft_rule \<Rightarrow> nft_packet \<Rightarrow> bool" where
  "rule_fits r pk \<longleftrightarrow> (nr_source r = [] \<or> pk_src pk = nr_source r) \<and> (nr_destination r = [] \<or> pk_dst pk = nr_destination r)
     \<and> (nr_guard r = [] \<or> pk_oif pk \<noteq> nr_guard r)"

definition rule_verdict :: "nft_rule \<Rightarrow> nft_verdict option" where
  "rule_verdict r = (if nr_deny r then Some NftDropped else if nr_accept r then Some NftAccepted else None)"

definition rule_mark :: "nft_rule \<Rightarrow> 32 word \<Rightarrow> 32 word" where
  "rule_mark r mark = (case nr_mark r of None \<Rightarrow> mark | Some v \<Rightarrow> v)"

lemma scan_stmt_known: "nr_known (scan_stmt x r) \<Longrightarrow> nr_known r"
  by (cases "(x, r)" rule: scan_stmt.cases) (auto simp: scan_match_def Let_def split: if_splits)

lemma fold_scan_known: "nr_known (fold scan_stmt xs r) \<Longrightarrow> nr_known r"
  by (induction xs arbitrary: r) (auto dest: scan_stmt_known)

lemma scan_stmt_keeps:
  assumes "nr_known (scan_stmt x r)"
  shows "''saddr'' \<in> nr_selectors r \<Longrightarrow> nr_source (scan_stmt x r) = nr_source r"
    "''daddr'' \<in> nr_selectors r \<Longrightarrow> nr_destination (scan_stmt x r) = nr_destination r"
    "nr_guard r \<noteq> [] \<Longrightarrow> nr_guard (scan_stmt x r) = nr_guard r" "nr_selectors r \<subseteq> nr_selectors (scan_stmt x r)"
  using assms
  by (cases "(x, r)" rule: scan_stmt.cases; auto simp: scan_match_def Let_def split: if_splits)+

lemma fold_scan_keeps:
  assumes "nr_known (fold scan_stmt xs r)"
  shows "''saddr'' \<in> nr_selectors r \<Longrightarrow> nr_source (fold scan_stmt xs r) = nr_source r"
    "''daddr'' \<in> nr_selectors r \<Longrightarrow> nr_destination (fold scan_stmt xs r) = nr_destination r"
    "nr_guard r \<noteq> [] \<Longrightarrow> nr_guard (fold scan_stmt xs r) = nr_guard r"
  using assms
proof (induction xs arbitrary: r)
  case (Cons x xs)
  { case 1 then show ?case using Cons.IH(1) [of "scan_stmt x r"] scan_stmt_keeps [of x r] fold_scan_known [of xs "scan_stmt x r"] by auto }
  { case 2 then show ?case using Cons.IH(2) [of "scan_stmt x r"] scan_stmt_keeps [of x r] fold_scan_known [of xs "scan_stmt x r"] by auto }
  { case 3 then show ?case using Cons.IH(3) [of "scan_stmt x r"] scan_stmt_keeps [of x r] fold_scan_known [of xs "scan_stmt x r"] by auto }
qed simp_all

text \<open>A match that is known: it holds when the rule with it still fits, and fits no more when it fails.\<close>

lemma scan_match_fits:
  assumes "nr_known (scan_match m r)" "match_plain m" "rule_fits r pk"
  shows "rule_fits (scan_match m r) pk = match_holds sets m pk"
    "\<not> match_holds sets m pk \<Longrightarrow> nr_known (fold scan_stmt xs (scan_match m r)) \<Longrightarrow> \<not> rule_fits (fold scan_stmt xs (scan_match m r)) pk"
    "nr_deny (scan_match m r) = nr_deny r" "nr_accept (scan_match m r) = nr_accept r" "nr_mark (scan_match m r) = nr_mark r"
proof -
  have a: "address_in sets (nm_right m) a \<longleftrightarrow> a = nm_right m" if "nm_meta m = []" for a
    using that assms(2) by (auto simp: address_in_def match_plain_def split: list.splits)
  consider (guard) "nm_op m = ''!=''" "nm_meta m = ''oifname''" "nm_right m \<noteq> []"
      "scan_match m r = r\<lparr>nr_known := True, nr_guard := nm_right m\<rparr>"
    | (source) "nm_op m = ''==''" "nm_meta m = []" "nm_field m = ''saddr''" "nm_right m \<noteq> []"
      "scan_match m r = r\<lparr>nr_known := True, nr_selectors := insert ''saddr'' (nr_selectors r), nr_source := nm_right m\<rparr>"
    | (destination) "nm_op m = ''==''" "nm_meta m = []" "nm_field m = ''daddr''" "nm_right m \<noteq> []"
      "scan_match m r = r\<lparr>nr_known := True, nr_selectors := insert ''daddr'' (nr_selectors r), nr_destination := nm_right m\<rparr>"
    using assms(1,2) by (auto simp: scan_match_def match_plain_def native_ok_def Let_def split: if_splits)
  note cases = this
  show "rule_fits (scan_match m r) pk = match_holds sets m pk"
    using cases assms(3) by cases (simp_all add: rule_fits_def match_holds_def a)
  show "\<not> rule_fits (fold scan_stmt xs (scan_match m r)) pk"
    if f: "\<not> match_holds sets m pk" and k: "nr_known (fold scan_stmt xs (scan_match m r))"
    using cases
  proof cases
    case guard
    then show ?thesis using fold_scan_keeps(3) [OF k] f by (simp add: rule_fits_def match_holds_def)
  next
    case source
    then show ?thesis using fold_scan_keeps(1) [OF k] f by (simp add: rule_fits_def match_holds_def a)
  next
    case destination
    then show ?thesis using fold_scan_keeps(2) [OF k] f by (simp add: rule_fits_def match_holds_def a)
  qed
  show "nr_deny (scan_match m r) = nr_deny r" "nr_accept (scan_match m r) = nr_accept r" "nr_mark (scan_match m r) = nr_mark r"
    by (simp_all add: scan_match_def Let_def)
qed

lemma exec_scan:
  assumes "stmts_plain acted xs" "nr_known (fold scan_stmt xs r)" "rule_fits r pk" "\<not> nr_deny r" "\<not> nr_accept r"
    and "mark = rule_mark r mark0" "acted \<or> nr_mark r = None"
  shows "exec_stmts sets other xs pk mark =
    (let r' = fold scan_stmt xs r in if rule_fits r' pk then (rule_verdict r', rule_mark r' mark0) else (None, mark0))"
  using assms
proof (induction xs arbitrary: acted r mark)
  case Nil
  then show ?case by (simp add: rule_verdict_def)
next
  case (Cons x xs)
  have k: "nr_known (scan_stmt x r)" using Cons.prems(2) fold_scan_known [of xs "scan_stmt x r"] by simp
  show ?case
  proof (cases x)
    case (StmtMatch mo)
    then obtain m where m: "x = StmtMatch (Some m)" using k by (cases mo) auto
    note f = scan_match_fits [OF k [unfolded m scan_stmt.simps], of pk]
    have "\<not> acted" "match_plain m" "stmts_plain acted xs" using Cons.prems(1) unfolding m by auto
    then show ?thesis
      using f(1) [of sets] f(2) [of sets xs] f(3-5) Cons.IH [of acted "scan_match m r" mark] Cons.prems by (auto simp: m Let_def rule_mark_def)
  next
    case (StmtMangle ko)
    then obtain v where v: "x = StmtMangle (Some (''mark'', v))" using k by (cases ko) (auto split: if_splits)
    then show ?thesis using Cons.IH [of True "r\<lparr>nr_mark := Some v\<rparr>" v] Cons.prems by (simp add: rule_fits_def rule_mark_def)
  qed (use Cons k in \<open>auto simp: rule_fits_def rule_verdict_def rule_mark_def\<close>)
qed

lemma exec_rule:
  assumes "stmts_plain False stmts" "nr_known (scan_rule stmts)"
  shows "exec_stmts sets other stmts pk mark =
    (if rule_fits (scan_rule stmts) pk then (rule_verdict (scan_rule stmts), rule_mark (scan_rule stmts) mark) else (None, mark))"
  using exec_scan [of False stmts no_rule pk mark mark sets other] assms
  by (simp add: scan_rule_def no_rule_def rule_fits_def rule_mark_def Let_def)

subsection \<open>The chain\<close>

lemma exec_chain_snoc:
  "exec_chain sets other (es @ [x]) pk mark =
     (case exec_chain sets other es pk mark of
        (None, m) \<Rightarrow> exec_chain sets other [x] pk m
      | r \<Rightarrow> r)"
  by (induction es arbitrary: mark) (auto split: option.splits prod.splits)

text \<open>What the state of the normal form says about a packet, given what the chain did to it so far.\<close>

definition describes :: "nft_state \<Rightarrow> nft_packet \<Rightarrow> 32 word \<Rightarrow> nft_verdict option \<times> 32 word \<Rightarrow> bool" where
  "describes st pk mark0 out \<longleftrightarrow>
     (case (st, out) of ((p, ended), (v, mark)) \<Rightarrow>
        (v = Some NftAccepted \<longrightarrow> pk_src pk \<in> np_forwarded p)
      \<and> (v = Some NftDropped \<longrightarrow> pk_src pk \<in> np_denied p \<or> np_guards p (pk_src pk) \<noteq> None)
      \<and> (pk_src pk \<in> np_denied p \<longrightarrow> v = Some NftDropped)
      \<and> (pk_src pk \<in> np_forwarded p \<longrightarrow> v \<noteq> None)
      \<and> (\<forall>i. np_guards p (pk_src pk) = Some i \<and> pk_oif pk \<noteq> i \<longrightarrow> v = Some NftDropped)
      \<and> (v \<noteq> Some NftDropped \<longrightarrow> mark = (case np_marks p (pk_src pk) of None \<Rightarrow> mark0 | Some k \<Rightarrow> k))
      \<and> (pk_src pk \<in> ended \<longleftrightarrow> pk_src pk \<in> np_denied p \<union> np_forwarded p))"

lemma apply_rule_supported: "np_supported (fst (apply_rule target r st)) \<Longrightarrow> np_supported (fst st)"
  by (auto simp: apply_rule_def Let_def split: prod.splits if_splits option.splits)

lemma apply_rule_known: "np_supported (fst (apply_rule target r st)) \<Longrightarrow> nr_known r"
  by (auto simp: apply_rule_def Let_def split: prod.splits if_splits)

lemma apply_rule_other:
  assumes "np_supported (fst (apply_rule target r st))" "\<not> rule_fits r pk" "pk_dst pk = target" "describes st pk m0 (None, m)"
  shows "describes (apply_rule target r st) pk m0 (None, m)"
  using assms
  by (cases st) (auto simp: apply_rule_def describes_def rule_fits_def Let_def split: if_splits option.splits)

lemma apply_rule_effect:
  assumes "np_supported (fst (apply_rule target r (p, e)))"
  obtains "apply_rule target r (p, e) = (p, e)"
  | "nr_deny r" "\<not> nr_accept r" "nr_guard r \<noteq> []" "nr_mark r = None" "nr_source r \<notin> e"
      "apply_rule target r (p, e) = (p\<lparr>np_guards := (np_guards p)(nr_source r \<mapsto> nr_guard r)\<rparr>, e)"
  | p' where "nr_deny r" "\<not> nr_accept r" "nr_guard r = []" "nr_source r \<notin> e"
      "apply_rule target r (p, e) = (p', insert (nr_source r) e)" "np_denied p' = insert (nr_source r) (np_denied p)"
      "np_guards p' = np_guards p" "np_forwarded p' = np_forwarded p"
      "np_marks p' = (case nr_mark r of None \<Rightarrow> np_marks p | Some v \<Rightarrow> (np_marks p)(nr_source r \<mapsto> v))"
  | p' where "\<not> nr_deny r" "nr_guard r = []" "nr_source r \<notin> e"
      "apply_rule target r (p, e) = (p', if nr_accept r then insert (nr_source r) e else e)" "np_denied p' = np_denied p"
      "np_guards p' = np_guards p" "np_forwarded p' = (if nr_accept r then insert (nr_source r) (np_forwarded p) else np_forwarded p)"
      "np_marks p' = (case nr_mark r of None \<Rightarrow> np_marks p | Some v \<Rightarrow> (np_marks p)(nr_source r \<mapsto> v))"
  using assms by (auto simp: apply_rule_def Let_def split: if_splits option.splits)

lemma apply_rule_ended:
  assumes "np_supported (fst (apply_rule target r st))" "describes st pk m0 (Some v, m)"
  shows "describes (apply_rule target r st) pk m0 (Some v, m)"
proof -
  obtain p e where st: "st = (p, e)" by fastforce
  show ?thesis
    using assms(1) [unfolded st] assms(2)
  proof (cases rule: apply_rule_effect)
    case 2
    then show ?thesis using assms(2) by (cases v) (auto simp: st describes_def)
  next
    case (3 p')
    then show ?thesis using assms(2) by (cases v; cases "nr_mark r") (auto simp: st describes_def)
  next
    case (4 p')
    then show ?thesis using assms(2) by (cases v; cases "nr_mark r") (auto simp: st describes_def)
  qed (simp add: st)
qed

lemma apply_rule_fits:
  assumes "np_supported (fst (apply_rule target r st))" "rule_fits r pk" "pk_dst pk = target" "target \<noteq> []"
    "describes st pk m0 (None, m)"
  shows "describes (apply_rule target r st) pk m0 (rule_verdict r, rule_mark r m)"
  using assms
  by (cases st)
    (auto simp: apply_rule_def describes_def rule_fits_def rule_verdict_def rule_mark_def Let_def split: if_splits option.splits)

lemma apply_entry_supported: "np_supported (fst (apply_entry target x st)) \<Longrightarrow> np_supported (fst st)"
  by (auto simp: apply_entry_def Let_def dest: apply_rule_supported split: option.splits)

lemma describes_hook [simp]: "describes (p\<lparr>np_hook := hook\<rparr>, e) pk m0 out = describes (p, e) pk m0 out"
  by (cases out) (simp add: describes_def)

lemma entries_described:
  assumes "chain_plain es" "np_supported (fst (fold (apply_entry (pk_dst pk)) es (empty_policy, {})))" "pk_dst pk \<noteq> []"
  shows "describes (fold (apply_entry (pk_dst pk)) es (empty_policy, {})) pk m0 (exec_chain sets other es pk m0)"
  using assms
proof (induction es rule: rev_induct)
  case Nil
  then show ?case by (simp add: describes_def empty_policy_def)
next
  case (snoc x es)
  let ?st = "fold (apply_entry (pk_dst pk)) es (empty_policy, {})" and ?out = "exec_chain sets other es pk m0"
  have d: "describes ?st pk m0 ?out"
    using snoc by (auto simp: chain_plain_def dest: apply_entry_supported)
  obtain p e where st: "?st = (p, e)" by fastforce
  define q where "q = (case ne_chain x of None \<Rightarrow> p | Some None \<Rightarrow> p\<lparr>np_supported := False, np_hook := []\<rparr>
      | Some (Some hook) \<Rightarrow> p\<lparr>np_hook := hook\<rparr>)"
  have a: "apply_entry (pk_dst pk) x ?st = (case ne_rule x of None \<Rightarrow> (q, e) | Some None \<Rightarrow> (q\<lparr>np_supported := False\<rparr>, e)
      | Some (Some stmts) \<Rightarrow> apply_rule (pk_dst pk) (scan_rule stmts) (q, e))"
    by (simp add: st apply_entry_def q_def split: option.splits)
  have sup: "np_supported (fst (apply_entry (pk_dst pk) x ?st))" using snoc.prems by simp
  then have "np_supported q" using a by (auto dest: apply_rule_supported split: option.splits)
  then have dq: "describes (q, e) pk m0 ?out" using d st by (auto simp: q_def split: option.splits)
  obtain v m where out: "?out = (v, m)" by fastforce
  show ?case
  proof (cases "ne_rule x")
    case None
    then show ?thesis using dq a out by (auto simp: exec_chain_snoc split: option.splits)
  next
    case (Some ss)
    then obtain stmts where stmts: "ne_rule x = Some (Some stmts)" using sup a by (cases ss) auto
    have pl: "stmts_plain False stmts" using snoc.prems(1) stmts by (simp add: chain_plain_def)
    have s: "np_supported (fst (apply_rule (pk_dst pk) (scan_rule stmts) (q, e)))" using sup a stmts by simp
    note ex = exec_rule [OF pl apply_rule_known [OF s], of sets other pk m]
    have "describes (apply_rule (pk_dst pk) (scan_rule stmts) (q, e)) pk m0
        (case v of None \<Rightarrow> exec_stmts sets other stmts pk m | Some _ \<Rightarrow> (v, m))"
      using apply_rule_ended [OF s] apply_rule_fits [OF s _ refl snoc.prems(3)] apply_rule_other [OF s _ refl] dq out ex
      by (auto split: option.splits)
    moreover have "exec_chain sets other (es @ [x]) pk m0 = (case v of None \<Rightarrow> exec_stmts sets other stmts pk m | Some _ \<Rightarrow> (v, m))"
      using out stmts by (auto simp: exec_chain_snoc split: option.splits prod.splits)
    ultimately show ?thesis using a stmts by simp
  qed
qed

lemma normal_form_described:
  assumes "decode raw = Some es" "chain_plain es" "p = normalize_nft decode hash_raw hash_policy raw (pk_dst pk)" "np_supported p"
    "pk_dst pk \<noteq> []"
  shows "\<exists>ended. describes (p, ended) pk mark0 (exec_chain sets other es pk mark0)"
proof -
  let ?st = "fold (apply_entry (pk_dst pk)) es (empty_policy, {})"
  have s: "np_supported (fst ?st)" and f: "np_denied p = np_denied (fst ?st)" "np_guards p = np_guards (fst ?st)"
      "np_forwarded p = np_forwarded (fst ?st)" "np_marks p = np_marks (fst ?st)"
    using assms(1,3,4) by (auto simp: normalize_nft_def normalize_entries_def Let_def split: if_splits)
  obtain p0 e where st: "?st = (p0, e)" by fastforce
  have "describes (p0, e) pk mark0 (exec_chain sets other es pk mark0)"
    using entries_described [OF assms(2) s assms(5), of mark0 sets other] unfolding st .
  then have "describes (p, e) pk mark0 (exec_chain sets other es pk mark0)"
    using f by (cases "exec_chain sets other es pk mark0") (simp add: describes_def st)
  then show ?thesis by blast
qed


definition sample_match :: "string \<Rightarrow> string \<Rightarrow> nft_stmt" where
  "sample_match field a =
     StmtMatch (Some \<lparr>nm_op = ''=='', nm_protocol = ''ip'', nm_field = field, nm_meta = [], nm_right = a\<rparr>)"

definition sample_guarded :: "nft_entry list" where
  "sample_guarded =
     [\<lparr>ne_chain = Some (Some ''forward''), ne_rule = None\<rparr>,
      \<lparr>ne_chain = None, ne_rule = Some (Some [sample_match ''saddr'' ''10.0.0.2'', sample_match ''daddr'' ''10.9.9.9'',
         StmtMatch (Some \<lparr>nm_op = ''!='', nm_protocol = [], nm_field = [], nm_meta = ''oifname'', nm_right = ''wg0''\<rparr>),
         StmtCounter, StmtDeny])\<rparr>,
      \<lparr>ne_chain = None, ne_rule = Some (Some [sample_match ''saddr'' ''10.0.0.2'', sample_match ''daddr'' ''10.9.9.9'', StmtAccept])\<rparr>]"

definition sample_sent_by :: "string \<Rightarrow> nft_packet" where
  "sample_sent_by oif = \<lparr>pk_src = ''10.0.0.2'', pk_dst = ''10.9.9.9'', pk_oif = oif\<rparr>"


subsection \<open>Beyond plain chains\<close>

text \<open>
  A named set is taken for an address that differs from the target. A chain that drops the target
  by a set before it accepts it is supported, and its source counts as forwarded.
\<close>

definition sample_by_set :: "nft_entry list" where
  "sample_by_set =
     [\<lparr>ne_chain = Some (Some ''forward''), ne_rule = None\<rparr>,
      \<lparr>ne_chain = None, ne_rule = Some (Some [sample_match ''saddr'' ''10.0.0.2'', sample_match ''daddr'' ''@blocked'', StmtDeny])\<rparr>,
      \<lparr>ne_chain = None, ne_rule = Some (Some [sample_match ''saddr'' ''10.0.0.2'', sample_match ''daddr'' ''10.9.9.9'', StmtAccept])\<rparr>]"

lemma set_reference_missed:
  "let p = normalize_entries ''10.9.9.9'' sample_by_set in
   np_supported p \<and> ''10.0.0.2'' \<in> np_forwarded p \<and> ''10.0.0.2'' \<notin> np_denied p \<and> np_guards p ''10.0.0.2'' = None
   \<and> fst (exec_chain (\<lambda>n. if n = ''blocked'' then {''10.9.9.9''} else {}) (\<lambda>_ _ m. (None, m)) sample_by_set
           (sample_sent_by ''wan'') 0) = Some NftDropped"
  by code_simp

text \<open>The order of the statements of a rule is lost: a mark before the matches is set for every source.\<close>

definition sample_mark_first :: "nft_entry list" where
  "sample_mark_first =
     [\<lparr>ne_chain = Some (Some ''prerouting''),
       ne_rule = Some (Some [StmtMangle (Some (''mark'', 7)), sample_match ''saddr'' ''10.0.0.3'', sample_match ''daddr'' ''10.9.9.9''])\<rparr>]"

lemma statement_order_missed:
  "let p = normalize_entries ''10.9.9.9'' sample_mark_first in
   np_supported p \<and> np_marks p ''10.0.0.2'' = None
   \<and> exec_chain (\<lambda>_. {}) (\<lambda>_ _ m. (None, m)) sample_mark_first (sample_sent_by ''wan'') 0 = (None, 7)"
  by code_simp

end
