(* ===== verification/LinuxWg.thy ===== *)
theory LinuxWg
  imports SshConfig NetCli NftChain
begin

text \<open>
  Package \<open>internal/netpolicy\<close>, the native collector (\<open>linuxwg.go\<close> and \<open>namespace_linux.go\<close>): running
  the read-only tools inside a checked namespace, reading \<open>ip\<close>, \<open>wg\<close> and \<open>nft\<close>, and the facts of the
  gateway and VPN operations.

  The system is a value of type \<open>'w\<close> that every call may change; \<open>native\<close> has the calls: the permission,
  the identity of a namespace, entering and leaving it, running a tool, the clock.
\<close>

subsection \<open>The system\<close>

record tool_output =
  to_chunks :: "string list"
  to_ok :: bool

record 'w native =
  nt_permit :: "string \<Rightarrow> 'w \<Rightarrow> bool \<times> 'w"
  nt_identity :: "string \<Rightarrow> 'w \<Rightarrow> (net_error + string) \<times> 'w"
  nt_own_namespace :: "'w \<Rightarrow> bool \<times> 'w"
  nt_open_namespace :: "string \<Rightarrow> 'w \<Rightarrow> string option option \<times> 'w"
  nt_enter :: "'w \<Rightarrow> bool \<times> 'w"
  nt_restore :: "'w \<Rightarrow> bool \<times> 'w"
  nt_exec :: "string \<Rightarrow> string list \<Rightarrow> 'w \<Rightarrow> tool_output \<times> 'w"
  nt_now :: "'w \<Rightarrow> time \<times> 'w"

text \<open>Sequencing on the system, with and without an error.\<close>

definition then_world :: "('w \<Rightarrow> 'a \<times> 'w) \<Rightarrow> ('a \<Rightarrow> 'w \<Rightarrow> 'b \<times> 'w) \<Rightarrow> 'w \<Rightarrow> 'b \<times> 'w" where
  "then_world f k w = (case f w of (a, w1) \<Rightarrow> k a w1)"

definition then_ok :: "('w \<Rightarrow> ('e + 'a) \<times> 'w) \<Rightarrow> ('a \<Rightarrow> 'w \<Rightarrow> ('e + 'b) \<times> 'w) \<Rightarrow> 'w \<Rightarrow> ('e + 'b) \<times> 'w" where
  "then_ok f k w = (case f w of (Inl e, w1) \<Rightarrow> (Inl e, w1) | (Inr a, w1) \<Rightarrow> k a w1)"

subsection \<open>Bounded output and tools\<close>

definition output_limit :: nat where "output_limit = 1048576"

definition bounded_write :: "nat \<Rightarrow> string \<Rightarrow> string \<Rightarrow> string option" where
  "bounded_write limit chunk b =
     (let n = (if limit = 0 then output_limit else limit) in
      if length b + length chunk > n then None else Some (b @ chunk))"

fun write_all :: "nat \<Rightarrow> string list \<Rightarrow> string \<Rightarrow> string option" where
  "write_all limit [] b = Some b"
| "write_all limit (c # cs) b = (case bounded_write limit c b of None \<Rightarrow> None | Some b1 \<Rightarrow> write_all limit cs b1)"

definition native_tools :: "string set" where
  "native_tools = {''ip'', ''wg'', ''nft'', ''ubus'', ''uci''}"

text \<open>\<open>asked\<close> is the limit in the context, 0 for none.\<close>

definition run_native :: "'w native \<Rightarrow> nat \<Rightarrow> string \<Rightarrow> string \<Rightarrow> string list \<Rightarrow> 'w \<Rightarrow> (net_error + string) \<times> 'w" where
  "run_native nt asked namespace tool args w =
     (if tool \<notin> native_tools then (Inl NetInvalid, w)
      else if namespace \<noteq> [] then (Inl NetInvalid, w)
      else case nt_exec nt tool args w of
        (out, w1) \<Rightarrow>
          (if \<not> to_ok out then (Inl NetUnsupported, w1)
           else case write_all (if 0 < asked \<and> asked \<le> output_limit then asked else 0) (to_chunks out) [] of
             None \<Rightarrow> (Inl NetUnsupported, w1)
           | Some b \<Rightarrow> (Inr b, w1)))"

subsection \<open>Namespaces\<close>

definition namespace_path :: "string \<Rightarrow> string option" where
  "namespace_path name =
     (if name = [] then Some ''/proc/thread-self/ns/net''
      else if \<not> native_ok name then None
      else Some (path_clean (''/var/run/netns/'' @ name)))"

definition namespace_identity :: "'w native \<Rightarrow> string \<Rightarrow> 'w \<Rightarrow> (net_error + string) \<times> 'w" where
  "namespace_identity nt name w =
     (case namespace_path name of None \<Rightarrow> (Inl NetInvalid, w) | Some path \<Rightarrow> nt_identity nt path w)"

text \<open>
  \<open>withinNamespace\<close>: open the own namespace, open the target (\<open>None\<close> when that fails, \<open>Some None\<close> when
  its identity cannot be read), compare, enter, run, go back.
\<close>

definition within_namespace ::
    "'w native \<Rightarrow> net_binding \<Rightarrow> ('w \<Rightarrow> (net_error + 'a) \<times> 'w) \<Rightarrow> 'w \<Rightarrow> (net_error + 'a) \<times> 'w" where
  "within_namespace nt b f w =
     (case nt_own_namespace nt w of
        (False, w1) \<Rightarrow> (Inl NetUnsupported, w1)
      | (True, w1) \<Rightarrow>
          (case namespace_path (nb_namespace b) of
             None \<Rightarrow> (Inl NetInvalid, w1)
           | Some path \<Rightarrow>
               (case nt_open_namespace nt path w1 of
                  (None, w2) \<Rightarrow> (Inl NetMissing, w2)
                | (Some identity, w2) \<Rightarrow>
                    if identity \<noteq> Some (nb_context b) then (Inl NetStale, w2)
                    else case nt_enter nt w2 of
                      (False, w3) \<Rightarrow> (Inl NetUnsupported, w3)
                    | (True, w3) \<Rightarrow>
                        (case f w3 of
                           (r, w4) \<Rightarrow>
                             (case nt_restore nt w4 of
                                (False, w5) \<Rightarrow> (Inl NetUnsafe, w5)
                              | (True, w5) \<Rightarrow> (r, w5))))))"

definition read_namespace ::
    "'w native \<Rightarrow> nat \<Rightarrow> net_binding \<Rightarrow> string \<Rightarrow> string list \<Rightarrow> 'w \<Rightarrow> (net_error + string) \<times> 'w" where
  "read_namespace nt limit b tool args w =
     (case namespace_identity nt (nb_namespace b) w of
        (id0, w1) \<Rightarrow>
          if nb_context b = [] \<or> id0 \<noteq> Inr (nb_context b) then (Inl NetStale, w1)
          else case within_namespace nt b (run_native nt limit [] tool args) w1 of
            (Inl e, w2) \<Rightarrow> (Inl e, w2)
          | (Inr out, w2) \<Rightarrow>
              (case namespace_identity nt (nb_namespace b) w2 of
                 (id1, w3) \<Rightarrow> (if id1 \<noteq> Inr (nb_context b) then Inl NetStale else Inr out, w3)))"

definition native_read :: "'w native \<Rightarrow> net_binding \<Rightarrow> string \<Rightarrow> string list \<Rightarrow> 'w \<Rightarrow> (net_error + string) \<times> 'w" where
  "native_read nt b tool args w =
     (case nt_permit nt ''network.read'' w of
        (False, w1) \<Rightarrow> (Inl NetMissing, w1)
      | (True, w1) \<Rightarrow> read_namespace nt 0 b tool args w1)"

subsection \<open>Reading the tools' output\<close>

definition interface_matches :: "string \<Rightarrow> string \<Rightarrow> bool" where
  "interface_matches data address \<longleftrightarrow>
     list_ex (\<lambda>f. case parse_prefix f of None \<Rightarrow> False | Some p \<Rightarrow> addr_text (np_addr p) = address) (string_fields data)"

definition family_flag :: "string \<Rightarrow> string" where
  "family_flag address = (case parse_addr address of Some a \<Rightarrow> if is_v4 a then ''-4'' else ''-6'' | None \<Rightarrow> ''-4'')"

definition interface_binding :: "'w native \<Rightarrow> net_object \<Rightarrow> 'w \<Rightarrow> (net_error + bool) \<times> 'w" where
  "interface_binding nt x w =
     (let b = binding x in
      if nb_interface b = [] \<or> nb_address b = [] then (Inl NetMissing, w)
      else then_ok (native_read nt b ''ip'' [''-o'', family_flag (nb_address b), ''addr'', ''show'', ''dev'', nb_interface b])
             (\<lambda>raw w1. (Inr (interface_matches raw (nb_address b)), w1)) w)"

definition replace_char :: "char \<Rightarrow> char \<Rightarrow> string \<Rightarrow> string" where
  "replace_char a b = map (\<lambda>c. if c = a then b else c)"

definition line_owns :: "string \<Rightarrow> net_addr \<Rightarrow> string \<Rightarrow> bool" where
  "line_owns peer a line \<longleftrightarrow>
     (case string_fields (replace_char CHR '','' CHR '' '' line) of
        k # v # vs \<Rightarrow>
          k = peer \<and> list_ex (\<lambda>s. case parse_prefix s of None \<Rightarrow> False | Some p \<Rightarrow> prefix_contains p a) (v # vs)
      | _ \<Rightarrow> False)"

definition peer_owns :: "string \<Rightarrow> string \<Rightarrow> string \<Rightarrow> bool" where
  "peer_owns data peer target \<longleftrightarrow>
     (case parse_addr target of
        None \<Rightarrow> False
      | Some a \<Rightarrow> list_ex (line_owns peer a) (split_on CHR 0x0A data))"

fun handshake_of :: "string \<Rightarrow> string list \<Rightarrow> int option" where
  "handshake_of peer [] = None"
| "handshake_of peer (line # lines) =
     (case string_fields line of
        [k, t] \<Rightarrow>
          if k \<noteq> peer then handshake_of peer lines
          else (case parse_int64 t of None \<Rightarrow> None | Some v \<Rightarrow> if v < 0 then None else Some v)
      | _ \<Rightarrow> handshake_of peer lines)"

definition peer_handshake :: "string \<Rightarrow> string \<Rightarrow> time option" where
  "peer_handshake data peer = map_option (\<lambda>v. v * second) (handshake_of peer (split_on CHR 0x0A data))"

subsection \<open>The collector\<close>

text \<open>JSON decoding and hashing, whether the collector is the fixture's, and the contexts whose policy is closed.\<close>

record collector =
  co_fixture :: bool
  co_closed :: "string set"
  co_hash :: hash_json
  co_nft :: "string \<Rightarrow> nft_entry list option"
  co_hash_raw :: "string \<Rightarrow> string"
  co_hash_policy :: "nft_policy \<Rightarrow> string"
  co_routes :: "string \<Rightarrow> (string \<times> string) list option"

definition collector_assurance :: "collector \<Rightarrow> string" where
  "collector_assurance c = (if co_fixture c then ''synthetic_runtime'' else ''runtime_validated'')"

definition native_fact ::
    "'w native \<Rightarrow> collector \<Rightarrow> string \<Rightarrow> net_question \<Rightarrow> net_tuple option \<Rightarrow> bool \<Rightarrow> 'w \<Rightarrow> net_fact \<times> 'w" where
  "native_fact nt c property q tuple v w =
     (case nt_now nt w of
        (now, w1) \<Rightarrow> (new_fact (co_hash c) property (qu_request q) tuple v now (collector_assurance c), w1))"

definition session_limit :: time where "session_limit = 180 * second"

definition session_fact :: "collector \<Rightarrow> net_question \<Rightarrow> time \<Rightarrow> time \<Rightarrow> net_fact" where
  "session_fact c q at now =
     (let fresh = (at div second > 0 \<and> \<not> at > now \<and> now - at \<le> session_limit);
          f = new_fact (co_hash c) ''vpn.session_freshness'' (qu_request q) None fresh now (collector_assurance c)
      in if fresh then f\<lparr>nf_valid_until := at + session_limit\<rparr> else f)"

definition chain_policy :: "'w native \<Rightarrow> collector \<Rightarrow> net_object \<Rightarrow> string \<Rightarrow> 'w \<Rightarrow> (net_error + nft_policy) \<times> 'w" where
  "chain_policy nt c gateway target w =
     (let b = binding gateway in
      if nb_nft_family b = [] \<or> nb_nft_table b = [] \<or> nb_nft_chain b = [] then (Inl NetMissing, w)
      else then_ok (native_read nt b ''nft'' [''-j'', ''list'', ''chain'', nb_nft_family b, nb_nft_table b, nb_nft_chain b])
             (\<lambda>raw w1. (Inr (normalize_nft (co_nft c) (co_hash_raw c) (co_hash_policy c) raw target), w1)) w)"

definition route_args :: "net_object \<Rightarrow> string \<Rightarrow> 32 word \<Rightarrow> string list" where
  "route_args source target mark =
     (let b = binding source in
      [''-j'', family_flag target, ''route'', ''get'', target]
      @ (if nb_address b \<noteq> [] then [''from'', nb_address b] else [])
      @ (if nb_ingress b \<noteq> [] then [''iif'', nb_ingress b] else [])
      @ (if mark \<noteq> 0 then [''mark'', dec_nat (unat mark)] else []))"

definition route_owned ::
    "'w native \<Rightarrow> collector \<Rightarrow> net_object \<Rightarrow> net_object \<Rightarrow> string \<Rightarrow> string \<Rightarrow> 32 word \<Rightarrow> 'w \<Rightarrow> (net_error + bool) \<times> 'w" where
  "route_owned nt c owner source target iface mark w =
     (if target = [] \<or> iface = [] then (Inl NetMissing, w)
      else then_ok (native_read nt (binding owner) ''ip'' (route_args source target mark))
             (\<lambda>raw w1. (case co_routes c raw of
                 Some [(dev, kind)] \<Rightarrow> Inr (dev = iface \<and> kind \<noteq> ''blackhole'' \<and> kind \<noteq> ''unreachable'')
               | _ \<Rightarrow> Inl NetUnsupported, w1)) w)"

subsection \<open>Collections\<close>

definition empty_collection :: collection where
  "empty_collection = \<lparr>cl_facts = [], cl_cleanup = True, cl_missing = [], cl_capabilities = []\<rparr>"

definition missing_collection :: "string \<Rightarrow> collection" where
  "missing_collection m = empty_collection\<lparr>cl_missing := [m]\<rparr>"

definition add_fact :: "net_fact \<Rightarrow> collection \<Rightarrow> collection" where
  "add_fact f out = out\<lparr>cl_facts := cl_facts out @ [f]\<rparr>"

text \<open>A fact of this value is added.\<close>

definition add_native ::
    "'w native \<Rightarrow> collector \<Rightarrow> net_question \<Rightarrow> string \<Rightarrow> bool \<Rightarrow> collection \<times> 'w \<Rightarrow> collection \<times> 'w" where
  "add_native nt c q property v st =
     (case native_fact nt c property q None v (snd st) of (f, w) \<Rightarrow> (add_fact f (fst st), w))"

text \<open>A fact of what a reader finds is added, when it finds anything.\<close>

definition add_read ::
    "'w native \<Rightarrow> collector \<Rightarrow> net_question \<Rightarrow> string \<Rightarrow> ('w \<Rightarrow> (net_error + bool) \<times> 'w) \<Rightarrow> collection \<times> 'w \<Rightarrow> collection \<times> 'w" where
  "add_read nt c q property rd st =
     (case rd (snd st) of
        (Inl _, w) \<Rightarrow> (fst st, w)
      | (Inr v, w) \<Rightarrow> add_native nt c q property v (fst st, w))"

definition gateway_identity :: "'w native \<Rightarrow> net_binding \<Rightarrow> 'w \<Rightarrow> (net_error + bool) \<times> 'w" where
  "gateway_identity nt b = then_ok (namespace_identity nt (nb_namespace b)) (\<lambda>i w. (Inr (i = nb_context b), w))"

definition collect_gateway :: "'w native \<Rightarrow> collector \<Rightarrow> net_question \<Rightarrow> 'w \<Rightarrow> collection \<times> 'w" where
  "collect_gateway nt c q w =
     (let t = qu_target q; b = binding t in
      if nb_context b = [] then (empty_collection, w)
      else
        let st = add_read nt c q ''gateway.interface_binding'' (interface_binding nt t)
                   (add_read nt c q ''gateway.binding'' (gateway_identity nt b) (empty_collection, w)) in
        case chain_policy nt c t (nb_target b) (snd st) of
          (Inl _, w1) \<Rightarrow> (fst st, w1)
        | (Inr p, w1) \<Rightarrow>
            let st1 = add_native nt c q ''gateway.reader'' True (fst st, w1) in
            if np_supported p then add_native nt c q ''gateway.policy_scope'' True st1 else st1)"

definition vpn_peer_binding :: "'w native \<Rightarrow> net_binding \<Rightarrow> 'w \<Rightarrow> (net_error + bool) \<times> 'w" where
  "vpn_peer_binding nt b =
     then_ok (native_read nt b ''wg'' [''show'', nb_interface b, ''allowed-ips''])
       (\<lambda>raw w. (Inr (peer_owns raw (nb_peer b) (nb_target b)), w))"

definition add_session ::
    "'w native \<Rightarrow> collector \<Rightarrow> net_question \<Rightarrow> net_binding \<Rightarrow> collection \<times> 'w \<Rightarrow> collection \<times> 'w" where
  "add_session nt c q b st =
     (case native_read nt b ''wg'' [''show'', nb_interface b, ''latest-handshakes''] (snd st) of
        (Inl _, w1) \<Rightarrow> (fst st, w1)
      | (Inr raw, w1) \<Rightarrow>
          (case peer_handshake raw (nb_peer b) of
             None \<Rightarrow> (fst st, w1)
           | Some at \<Rightarrow>
               (case nt_now nt w1 of
                  (now1, w2) \<Rightarrow>
                    if at > now1 then (fst st, w2)
                    else (case nt_now nt w2 of (now2, w3) \<Rightarrow> (add_fact (session_fact c q at now2) (fst st), w3)))))"

text \<open>The facts that need the whole effective policy, from the chain that was read.\<close>

definition guard_in_force :: "net_question \<Rightarrow> nft_policy \<Rightarrow> bool" where
  "guard_in_force q p \<longleftrightarrow>
     nb_fail_closed (binding (qu_target q)) \<and> np_hook p = ''forward''
     \<and> (case np_guards p (nb_address (binding (qu_source q))) of None \<Rightarrow> [] | Some i \<Rightarrow> i) = nb_interface (binding (qu_target q))"

definition selected_mark :: "net_question \<Rightarrow> nft_policy \<Rightarrow> 32 word" where
  "selected_mark q p =
     (if np_hook p = ''prerouting'' \<or> np_hook p = ''output''
      then (case np_marks p (nb_address (binding (qu_source q))) of None \<Rightarrow> 0 | Some m \<Rightarrow> m) else 0)"

definition add_effective :: "'w native \<Rightarrow> collector \<Rightarrow> net_question \<Rightarrow> collection \<times> 'w \<Rightarrow> collection \<times> 'w" where
  "add_effective nt c q st =
     (let b = binding (qu_target q) in
      case chain_policy nt c (qu_gateway q) (nb_target b) (snd st) of
        (Inl _, w1) \<Rightarrow> (fst st, w1)
      | (Inr p, w1) \<Rightarrow>
          if \<not> np_supported p then (fst st, w1)
          else
            let st1 = (if guard_in_force q p then add_native nt c q ''vpn.fail_closed_guard'' True (fst st, w1) else (fst st, w1)) in
            if nb_require_path b
            then add_read nt c q ''vpn.path_selection''
                   (route_owned nt c (qu_gateway q) (qu_source q) (nb_target b) (nb_interface b) (selected_mark q p)) st1
            else st1)"

definition collect_vpn :: "'w native \<Rightarrow> collector \<Rightarrow> net_question \<Rightarrow> 'w \<Rightarrow> collection \<times> 'w" where
  "collect_vpn nt c q w =
     (let t = qu_target q; b = binding t;
          own = no_object\<lparr>no_binding_of := no_binding\<lparr>nb_address := nb_address b\<rparr>\<rparr> in
      if nb_protocol b \<noteq> ''wireguard'' then (empty_collection, w)
      else
        let st = add_read nt c q ''vpn.route_ownership'' (route_owned nt c t own (nb_target b) (nb_interface b) 0)
                   (add_session nt c q b
                   (add_read nt c q ''vpn.peer_binding'' (vpn_peer_binding nt b)
                   (add_read nt c q ''vpn.binding'' (interface_binding nt t) (empty_collection, w)))) in
        if nb_context (binding (qu_gateway q)) \<in> co_closed c then add_effective nt c q st else st)"

subsection \<open>What the collector does to the system\<close>

text \<open>The commands that only read.\<close>

definition read_only_command :: "string \<Rightarrow> string list \<Rightarrow> bool" where
  "read_only_command tool args \<longleftrightarrow>
     tool = ''ip'' \<and> length args \<ge> 4 \<and> hd args \<in> {''-o'', ''-j''}
       \<and> (args ! 2, args ! 3) \<in> {(''addr'', ''show''), (''route'', ''get''), (''rule'', ''show'')}
     \<or> tool = ''wg'' \<and> args \<noteq> [] \<and> hd args = ''show''
     \<or> tool = ''nft'' \<and> length args \<ge> 3 \<and> hd args = ''-j''
       \<and> (args ! 1 \<in> {''list'', ''get''} \<or> args ! 1 = ''-t'' \<and> args ! 2 = ''list'')
     \<or> tool = ''ubus'' \<and> length args = 3 \<and> hd args = ''call'' \<and> args ! 2 = ''status''
     \<or> tool = ''uci'' \<and> length args = 3 \<and> args ! 0 = ''-q'' \<and> args ! 1 = ''get''"

text \<open>
  Which namespaces may be entered: \<open>pl\<close> relates the path that is opened with the identity it has to
  have. \<open>placed pl b\<close> says that the namespace of a binding, under the identity it is bound to, is one.
\<close>

type_synonym places = "string \<Rightarrow> string \<Rightarrow> bool"

definition placed :: "places \<Rightarrow> net_binding \<Rightarrow> bool" where
  "placed pl b \<longleftrightarrow> (\<forall>p. nb_context b \<noteq> [] \<and> namespace_path (nb_namespace b) = Some p \<longrightarrow> pl p (nb_context b))"

text \<open>The namespaces of some bindings; no identity is empty.\<close>

definition places_of :: "net_binding set \<Rightarrow> places" where
  "places_of B p x \<longleftrightarrow> x \<noteq> [] \<and> (\<exists>b \<in> B. namespace_path (nb_namespace b) = Some p \<and> x = nb_context b)"

lemma placed_of: "b \<in> B \<Longrightarrow> placed (places_of B) b"
  by (auto simp: placed_def places_of_def)

text \<open>
  What the collector relies on of a system whose behaviour is watched: \<open>P\<close> holds outside of a
  namespace, \<open>Q\<close> after a permission to read, \<open>C\<close> when the identity of a place was read after that,
  \<open>D\<close> when the place was opened and had it, \<open>R\<close> inside it until a tool runs, \<open>S\<close> until the own
  namespace is restored.
\<close>

definition keeps :: "('w \<Rightarrow> bool) \<Rightarrow> ('w \<Rightarrow> 'a \<times> 'w) \<Rightarrow> bool" where
  "keeps P f \<longleftrightarrow> (\<forall>w. P w \<longrightarrow> P (snd (f w)))"

lemma keepsI: "(\<And>w a w1. P w \<Longrightarrow> f w = (a, w1) \<Longrightarrow> P w1) \<Longrightarrow> keeps P f"
  by (metis keeps_def prod.collapse)

lemma keepsD: "keeps P f \<Longrightarrow> P w \<Longrightarrow> P (snd (f w))"
  by (simp add: keeps_def)

lemma keepsE: "keeps P f \<Longrightarrow> f w = (a, w1) \<Longrightarrow> P w \<Longrightarrow> P w1"
  by (auto simp: keeps_def)

lemma keeps_then_ok: "keeps P f \<Longrightarrow> (\<And>a. keeps P (k a)) \<Longrightarrow> keeps P (then_ok f k)"
  by (fastforce simp: keeps_def then_ok_def split: prod.splits sum.splits)

locale watched_read =
  fixes nt :: "'w native" and pl :: places and P Q C D R S :: "'w \<Rightarrow> bool"
  assumes resting: "Q w \<Longrightarrow> P w" "C w \<Longrightarrow> P w" and entered: "R w \<Longrightarrow> S w"
    and clock: "keeps P (nt_now nt)" and own: "keeps C (nt_own_namespace nt)"
    and identity: "keeps P (nt_identity nt p)"
    and checked: "Q w \<Longrightarrow> nt_identity nt p w = (Inr x, w1) \<Longrightarrow> pl p x \<Longrightarrow> C w1"
    and opened: "C w \<Longrightarrow> nt_open_namespace nt p w = (i, w1) \<Longrightarrow> P w1"
      "C w \<Longrightarrow> nt_open_namespace nt p w = (Some (Some x), w1) \<Longrightarrow> pl p x \<Longrightarrow> D w1"
    and enter: "D w \<Longrightarrow> nt_enter nt w = (ok, w1) \<Longrightarrow> if ok then R w1 else P w1"
    and exec: "R w \<Longrightarrow> read_only_command tool args \<Longrightarrow> nt_exec nt tool args w = (out, w1) \<Longrightarrow> S w1"
    and restore: "S w \<Longrightarrow> nt_restore nt w = (ok, w1) \<Longrightarrow> P w1"
begin

lemma run_native_safe: "R w \<Longrightarrow> read_only_command tool args \<Longrightarrow> S (snd (run_native nt limit ns tool args w))"
  using exec [of w tool args] entered [of w] by (auto simp: run_native_def split: prod.splits option.splits)

lemma identity_safe: "P w \<Longrightarrow> P (snd (namespace_identity nt name w))"
  using identity by (auto simp: namespace_identity_def keeps_def split: option.splits)

lemma within_safe:
  assumes "C w" "placed pl b" "nb_context b \<noteq> []" "\<And>v. R v \<Longrightarrow> S (snd (f v))"
  shows "P (snd (within_namespace nt b f w))"
proof -
  obtain ok1 w1 where a: "nt_own_namespace nt w = (ok1, w1)" by fastforce
  have c1: "C w1" using keepsE [OF own a assms(1)] .
  show ?thesis
  proof (cases "ok1 \<and> namespace_path (nb_namespace b) \<noteq> None")
    case False
    then show ?thesis using resting(2) [OF c1] by (auto simp: within_namespace_def a split: option.splits bool.splits)
  next
    case True
    then obtain path where path: "namespace_path (nb_namespace b) = Some path" by auto
    obtain i w2 where i: "nt_open_namespace nt path w1 = (i, w2)" by fastforce
    have p2: "P w2" by (rule opened(1) [OF c1 i])
    show ?thesis
    proof (cases "i = Some (Some (nb_context b))")
      case False
      then show ?thesis using p2 by (auto simp: within_namespace_def a path i True split: option.splits)
    next
      case same: True
      have "pl path (nb_context b)" using assms(2,3) path by (simp add: placed_def)
      then have d2: "D w2" using opened(2) [OF c1 i [unfolded same]] by simp
      obtain ok3 w3 where e: "nt_enter nt w2 = (ok3, w3)" by fastforce
      obtain r w4 where f: "f w3 = (r, w4)" by fastforce
      obtain ok5 w5 where g: "nt_restore nt w4 = (ok5, w5)" by fastforce
      have "P w3" if "\<not> ok3" using enter [OF d2 e] that by simp
      moreover have "P w5" if "ok3" using restore [OF _ g] assms(4) [of w3] enter [OF d2 e] that f by simp
      ultimately show ?thesis
        by (auto simp: within_namespace_def a path i e f g True same split: bool.splits)
    qed
  qed
qed

lemma read_namespace_safe:
  assumes "Q w" "placed pl b" "read_only_command tool args"
  shows "P (snd (read_namespace nt limit b tool args w))"
proof -
  obtain i w1 where i: "namespace_identity nt (nb_namespace b) w = (i, w1)" by fastforce
  have p1: "P w1" using identity_safe [OF resting(1) [OF assms(1)], of "nb_namespace b"] i by simp
  show ?thesis
  proof (cases "nb_context b = [] \<or> i \<noteq> Inr (nb_context b)")
    case True
    then show ?thesis using p1 by (simp add: read_namespace_def i)
  next
    case False
    then obtain path where path: "namespace_path (nb_namespace b) = Some path"
      using i by (cases "namespace_path (nb_namespace b)") (auto simp: namespace_identity_def)
    have "pl path (nb_context b)" using assms(2) False path by (simp add: placed_def)
    then have c1: "C w1" using checked [OF assms(1), of path] i False by (simp add: namespace_identity_def path)
    obtain r w2 where r: "within_namespace nt b (run_native nt limit [] tool args) w1 = (r, w2)" by fastforce
    have p2: "P w2"
      using within_safe [OF c1 assms(2), of "run_native nt limit [] tool args"] run_native_safe assms(3) r False by simp
    then have "P (snd (namespace_identity nt (nb_namespace b) w2))" by (rule identity_safe)
    then show ?thesis using p2 False by (auto simp: read_namespace_def i r split: sum.splits prod.splits)
  qed
qed

end

text \<open>A refused permission leaves \<open>P\<close>, a granted one gives \<open>Q\<close>.\<close>

locale watched_system = watched_read +
  assumes permit: "P w \<Longrightarrow> nt_permit nt cap w = (ok, w1) \<Longrightarrow> P w1 \<and> (ok \<and> cap = ''network.read'' \<longrightarrow> Q w1)"
begin

lemma native_read_safe: "placed pl b \<Longrightarrow> read_only_command tool args \<Longrightarrow> keeps P (native_read nt b tool args)"
proof (rule keepsI)
  fix w a w1 assume b: "placed pl b" and c: "read_only_command tool args" and p: "P w"
    and r: "native_read nt b tool args w = (a, w1)"
  obtain ok v where v: "nt_permit nt ''network.read'' w = (ok, v)" by fastforce
  show "P w1" using permit [OF p v] read_namespace_safe [of v b tool args 0] b c r
    by (cases ok) (auto simp: native_read_def v)
qed

lemma add_native_safe: "P (snd st) \<Longrightarrow> P (snd (add_native nt c q property v st))"
  using keepsD [OF clock, of "snd st"] by (simp add: add_native_def native_fact_def case_prod_unfold)

lemma add_read_safe: "keeps P rd \<Longrightarrow> P (snd st) \<Longrightarrow> P (snd (add_read nt c q property rd st))"
  by (auto simp: add_read_def split: prod.splits sum.splits intro!: add_native_safe dest: keepsE)

lemma readers_safe:
  "placed pl (binding x) \<Longrightarrow> keeps P (interface_binding nt x)" "keeps P (gateway_identity nt b)"
  "placed pl b \<Longrightarrow> keeps P (vpn_peer_binding nt b)" "placed pl (binding x) \<Longrightarrow> keeps P (chain_policy nt c x target)"
  "placed pl (binding owner) \<Longrightarrow> keeps P (route_owned nt c owner source target iface mark)"
proof -
  have read: "P (snd (then_ok (native_read nt b tool args) (\<lambda>raw. Pair (f raw :: net_error + bool)) w))"
    "P (snd (then_ok (native_read nt b tool args) (\<lambda>raw. Pair (g raw :: net_error + nft_policy)) w))"
    if "placed pl b" "P w" "read_only_command tool args" for b tool args f g w
    using keepsD [OF native_read_safe [OF that(1,3)] that(2)] by (auto simp: then_ok_def split: prod.splits sum.splits)
  show "placed pl (binding x) \<Longrightarrow> keeps P (interface_binding nt x)"
    by (auto simp: interface_binding_def keeps_def Let_def read_only_command_def intro!: read)
  show "keeps P (gateway_identity nt b)"
    unfolding gateway_identity_def by (rule keeps_then_ok) (simp_all add: keeps_def identity_safe)
  show "placed pl b \<Longrightarrow> keeps P (vpn_peer_binding nt b)"
    by (auto simp: vpn_peer_binding_def keeps_def read_only_command_def intro!: read)
  show "placed pl (binding x) \<Longrightarrow> keeps P (chain_policy nt c x target)"
    by (auto simp: chain_policy_def keeps_def Let_def read_only_command_def intro!: read)
  show "placed pl (binding owner) \<Longrightarrow> keeps P (route_owned nt c owner source target iface mark)"
    by (auto simp: route_owned_def keeps_def read_only_command_def route_args_def Let_def intro!: read)
qed

lemma add_session_safe: "placed pl b \<Longrightarrow> P (snd st) \<Longrightarrow> P (snd (add_session nt c q b st))"
proof -
  assume b: "placed pl b" and p: "P (snd st)"
  obtain r w1 where r: "native_read nt b ''wg'' [''show'', nb_interface b, ''latest-handshakes''] (snd st) = (r, w1)" by fastforce
  have p1: "P w1" using keepsE [OF native_read_safe [OF b] r p] by (simp add: read_only_command_def)
  obtain n1 w2 where n1: "nt_now nt w1 = (n1, w2)" by fastforce
  have p2: "P w2" using keepsE [OF clock n1 p1] .
  have "P (snd (nt_now nt w2))" using keepsD [OF clock p2] .
  then show ?thesis using p1 p2 by (auto simp: add_session_def r n1 split: sum.splits option.splits prod.splits)
qed

lemma add_effective_safe:
  "placed pl (binding (qu_gateway q)) \<Longrightarrow> P (snd st) \<Longrightarrow> P (snd (add_effective nt c q st))"
proof -
  assume b: "placed pl (binding (qu_gateway q))" and p: "P (snd st)"
  obtain r w1 where r: "chain_policy nt c (qu_gateway q) (nb_target (binding (qu_target q))) (snd st) = (r, w1)" by fastforce
  have "P w1" using keepsE [OF readers_safe(4) [OF b] r p] .
  then show ?thesis using b
    by (auto simp: add_effective_def r Let_def split: sum.splits intro!: add_native_safe add_read_safe readers_safe)
qed

lemma collect_gateway_safe: "placed pl (binding (qu_target q)) \<Longrightarrow> P w \<Longrightarrow> P (snd (collect_gateway nt c q w))"
proof -
  assume b: "placed pl (binding (qu_target q))" and p: "P w"
  let ?b = "binding (qu_target q)"
  let ?st = "add_read nt c q ''gateway.interface_binding'' (interface_binding nt (qu_target q))
      (add_read nt c q ''gateway.binding'' (gateway_identity nt ?b) (empty_collection, w))"
  obtain r w1 where r: "chain_policy nt c (qu_target q) (nb_target ?b) (snd ?st) = (r, w1)" by fastforce
  have "P (snd ?st)" using p b by (intro add_read_safe readers_safe) simp_all
  then have "P w1" by (rule keepsE [OF readers_safe(4) [OF b] r])
  then show ?thesis using p by (auto simp: collect_gateway_def r Let_def split: sum.splits intro!: add_native_safe)
qed

lemma collect_vpn_safe:
  "placed pl (binding (qu_target q)) \<Longrightarrow> placed pl (binding (qu_gateway q)) \<Longrightarrow> P w \<Longrightarrow> P (snd (collect_vpn nt c q w))"
  by (auto simp: collect_vpn_def Let_def intro!: add_effective_safe add_read_safe add_session_safe readers_safe)

end

subsection \<open>A log of the calls\<close>

text \<open>
  The calls that the discipline is about, with what they were asked and what they answered: the path of
  a namespace and the identity read under it, the path opened and the identity of what was opened.
\<close>

datatype native_event =
    EvPermit string bool
  | EvIdentity string "net_error + string"
  | EvOpen string "string option option"
  | EvEnter bool
  | EvRun string "string list"
  | EvRestore bool

datatype native_state = Outside | Armed | Checked | Opened | Entered | Ran | Undisciplined

definition resting_states :: "native_state set" where
  "resting_states = {Outside, Armed, Checked, Opened}"

text \<open>
  The discipline as a state machine: a namespace is entered only when, in this order and with no other
  of these calls between, a permission to read was granted, the identity read at an allowed path was
  the one wanted, and the path was opened and had that identity; one command that only reads may run
  there, and the own namespace comes next.
\<close>

fun native_step :: "places \<Rightarrow> native_state \<Rightarrow> native_event \<Rightarrow> native_state" where
  "native_step pl s (EvPermit cap ok) =
     (if s \<in> resting_states then (if ok \<and> cap = ''network.read'' then Armed else Outside) else Undisciplined)"
| "native_step pl s (EvIdentity p r) =
     (if s \<in> resting_states
      then (if s = Armed \<and> (case r of Inl _ \<Rightarrow> False | Inr x \<Rightarrow> pl p x) then Checked else Outside) else Undisciplined)"
| "native_step pl s (EvOpen p i) =
     (if s \<in> resting_states
      then (if s = Checked \<and> (case i of Some (Some x) \<Rightarrow> pl p x | _ \<Rightarrow> False) then Opened else Outside) else Undisciplined)"
| "native_step pl s (EvEnter ok) = (if s = Opened then (if ok then Entered else Outside) else Undisciplined)"
| "native_step pl s (EvRun tool args) = (if s = Entered \<and> read_only_command tool args then Ran else Undisciplined)"
| "native_step pl s (EvRestore ok) = (if s = Entered \<or> s = Ran then Outside else Undisciplined)"

definition native_run_state :: "places \<Rightarrow> native_event list \<Rightarrow> native_state" where
  "native_run_state pl es = fold (\<lambda>e s. native_step pl s e) es Outside"

lemma native_run_state_simps [simp]:
  "native_run_state pl [] = Outside" "native_run_state pl (es @ [e]) = native_step pl (native_run_state pl es) e"
  by (simp_all add: native_run_state_def)

text \<open>Any system, with a log of its calls in their order.\<close>

definition with_log :: "('w \<Rightarrow> 'a \<times> 'w) \<Rightarrow> ('a \<Rightarrow> native_event list) \<Rightarrow> 'w \<times> native_event list \<Rightarrow> 'a \<times> ('w \<times> native_event list)" where
  "with_log f ev st = (case f (fst st) of (a, w) \<Rightarrow> (a, (w, snd st @ ev a)))"

definition logged :: "'w native \<Rightarrow> ('w \<times> native_event list) native" where
  "logged nt =
     \<lparr>nt_permit = (\<lambda>cap. with_log (nt_permit nt cap) (\<lambda>ok. [EvPermit cap ok])),
      nt_identity = (\<lambda>n. with_log (nt_identity nt n) (\<lambda>r. [EvIdentity n r])),
      nt_own_namespace = with_log (nt_own_namespace nt) (\<lambda>_. []),
      nt_open_namespace = (\<lambda>n. with_log (nt_open_namespace nt n) (\<lambda>i. [EvOpen n i])),
      nt_enter = with_log (nt_enter nt) (\<lambda>ok. [EvEnter ok]),
      nt_restore = with_log (nt_restore nt) (\<lambda>ok. [EvRestore ok]),
      nt_exec = (\<lambda>tool args. with_log (nt_exec nt tool args) (\<lambda>_. [EvRun tool args])),
      nt_now = with_log (nt_now nt) (\<lambda>_. [])\<rparr>"

lemma with_log_state: "snd (snd (with_log f ev st)) = snd st @ ev (fst (f (fst st)))" "fst (with_log f ev st) = fst (f (fst st))"
  by (simp_all add: with_log_def split_beta)

lemma with_log_result: "with_log f ev st = (a, st1) \<Longrightarrow> snd st1 = snd st @ ev a"
  by (auto simp: with_log_def split_beta)

interpretation logged_system: watched_system "logged nt" pl
  "\<lambda>st. native_run_state pl (snd st) \<in> resting_states" "\<lambda>st. native_run_state pl (snd st) = Armed"
  "\<lambda>st. native_run_state pl (snd st) = Checked" "\<lambda>st. native_run_state pl (snd st) = Opened"
  "\<lambda>st. native_run_state pl (snd st) = Entered" "\<lambda>st. native_run_state pl (snd st) \<in> {Entered, Ran}" for nt pl
  by unfold_locales (auto simp: logged_def keeps_def with_log_state resting_states_def dest!: with_log_result split: if_splits)

text \<open>
  (C37) Collecting for a gateway or a tunnel only reads: on any system, every namespace that is entered is
  that of the target or, for a tunnel, of its gateway, it is entered right after a permission to read was
  granted, its identity read and the path opened with the identity the binding asks for, at most one
  command runs in it, one that only reads, the own namespace is restored before anything else
  happens, and the collection ends outside.
\<close>

theorem collector_reads_only:
  "native_run_state (places_of {binding (qu_target q)}) (snd (snd (collect_gateway (logged nt) c q (w, [])))) \<in> resting_states
   \<and> native_run_state (places_of {binding (qu_target q), binding (qu_gateway q)})
       (snd (snd (collect_vpn (logged nt) c q (w, [])))) \<in> resting_states"
proof -
  have r: "native_run_state pl (snd (w, [])) \<in> resting_states" for pl by (simp add: resting_states_def)
  show ?thesis
    using logged_system.collect_gateway_safe [OF placed_of r] logged_system.collect_vpn_safe [OF placed_of placed_of r]
    by simp
qed

subsection \<open>What a guard fact means\<close>

lemma fact_property: "nf_property (fst (native_fact nt c property q tuple v w)) = property"
  by (simp add: native_fact_def new_fact_def case_prod_unfold)

lemma add_native_facts:
  "f \<in> set (cl_facts (fst (add_native nt c q property v st))) \<Longrightarrow> f \<in> set (cl_facts (fst st)) \<or> nf_property f = property"
  using fact_property [of nt c property q None v "snd st"] by (auto simp: add_native_def add_fact_def case_prod_unfold)

lemma add_read_facts:
  assumes "f \<in> set (cl_facts (fst (add_read nt c q property rd st)))"
  shows "f \<in> set (cl_facts (fst st)) \<or> nf_property f = property"
proof -
  obtain r w where r: "rd (snd st) = (r, w)" by fastforce
  show ?thesis using assms add_native_facts [of f nt c q property _ "(fst st, w)"]
    by (cases r) (auto simp: add_read_def r)
qed

lemma session_fact_property: "nf_property (session_fact c q at now) = ''vpn.session_freshness''"
  by (simp add: session_fact_def new_fact_def Let_def)

lemma add_session_result:
  "fst (add_session nt c q b st) = fst st \<or> (\<exists>at now. fst (add_session nt c q b st) = add_fact (session_fact c q at now) (fst st))"
  by (auto simp: add_session_def split: prod.splits sum.splits option.splits)

lemma add_session_facts:
  "f \<in> set (cl_facts (fst (add_session nt c q b st))) \<Longrightarrow> f \<in> set (cl_facts (fst st)) \<or> nf_property f = ''vpn.session_freshness''"
  using add_session_result [of nt c q b st] by (auto simp: add_fact_def session_fact_property)

lemma add_effective_guard:
  assumes "f \<in> set (cl_facts (fst (add_effective nt c q st)))" "nf_property f = ''vpn.fail_closed_guard''"
    "f \<notin> set (cl_facts (fst st))"
  shows "\<exists>p w1. chain_policy nt c (qu_gateway q) (nb_target (binding (qu_target q))) (snd st) = (Inr p, w1)
    \<and> np_supported p \<and> guard_in_force q p"
proof -
  obtain r w1 where r: "chain_policy nt c (qu_gateway q) (nb_target (binding (qu_target q))) (snd st) = (r, w1)" by fastforce
  show ?thesis
    using assms
    by (cases r) (auto simp: add_effective_def r Let_def split: if_splits dest!: add_read_facts)
qed

lemma chain_policy_read:
  assumes "chain_policy nt c x target w = (Inr p, w1)"
  shows "\<exists>raw. native_read nt (binding x) ''nft'' [''-j'', ''list'', ''chain'', nb_nft_family (binding x),
      nb_nft_table (binding x), nb_nft_chain (binding x)] w = (Inr raw, w1)
    \<and> p = normalize_nft (co_nft c) (co_hash_raw c) (co_hash_policy c) raw target"
  using assms by (auto simp: chain_policy_def then_ok_def Let_def split: if_splits prod.splits sum.splits)

text \<open>With an empty interface a guard that is missing counts as in force.\<close>

lemma missing_guard_in_force:
  "nb_interface (binding (qu_target q)) = [] \<Longrightarrow> nb_fail_closed (binding (qu_target q)) \<Longrightarrow> np_hook p = ''forward'' \<Longrightarrow>
     np_guards p (nb_address (binding (qu_source q))) = None \<Longrightarrow> guard_in_force q p"
  by (simp add: guard_in_force_def)


definition sample_native :: "unit native" where
  "sample_native =
     \<lparr>nt_permit = (\<lambda>_ w. (True, w)), nt_identity = (\<lambda>_ w. (Inr ''ctx'', w)), nt_own_namespace = Pair True,
      nt_open_namespace = (\<lambda>_ w. (Some (Some ''ctx''), w)), nt_enter = Pair True, nt_restore = Pair True,
      nt_exec = (\<lambda>tool args w. (\<lparr>to_chunks = [], to_ok = (tool = ''nft'')\<rparr>, w)), nt_now = Pair 1000\<rparr>"

definition sample_collector :: "nft_entry list \<Rightarrow> collector" where
  "sample_collector es =
     \<lparr>co_fixture = True, co_closed = {''ctx''}, co_hash = (\<lambda>_. []), co_nft = (\<lambda>_. Some es), co_hash_raw = id,
      co_hash_policy = (\<lambda>_. []), co_routes = (\<lambda>_. None)\<rparr>"

definition sample_tunnel :: net_question where
  "sample_tunnel =
     (let v = no_object\<lparr>no_binding_of := no_binding\<lparr>nb_context := ''ctx'', nb_interface := ''wg0'', nb_target := ''10.9.9.9'',
               nb_protocol := ''wireguard'', nb_fail_closed := True\<rparr>\<rparr>
      in (new_question ''vpn'' v None)
           \<lparr>qu_source := no_object\<lparr>no_binding_of := no_binding\<lparr>nb_address := ''10.0.0.2''\<rparr>\<rparr>,
            qu_gateway := no_object\<lparr>no_binding_of := no_binding\<lparr>nb_context := ''ctx'', nb_nft_family := ''inet'',
              nb_nft_table := ''fw'', nb_nft_chain := ''forward''\<rparr>\<rparr>\<rparr>)"

lemma sample_native_read:
  assumes "nb_namespace b = []" "nb_context b = ''ctx''" "tool \<in> native_tools"
  shows "native_read sample_native b tool args w = (if tool = ''nft'' then Inr [] else Inl NetUnsupported, w)"
  using assms
  by (simp add: native_read_def read_namespace_def namespace_identity_def namespace_path_def within_namespace_def
      run_native_def sample_native_def)

lemma sample_tunnel_fields:
  "binding (qu_target sample_tunnel) = no_binding\<lparr>nb_context := ''ctx'', nb_interface := ''wg0'', nb_target := ''10.9.9.9'',
     nb_protocol := ''wireguard'', nb_fail_closed := True\<rparr>"
  "binding (qu_source sample_tunnel) = no_binding\<lparr>nb_address := ''10.0.0.2''\<rparr>"
  "binding (qu_gateway sample_tunnel) = no_binding\<lparr>nb_context := ''ctx'', nb_nft_family := ''inet'',
     nb_nft_table := ''fw'', nb_nft_chain := ''forward''\<rparr>"
  by (simp_all add: sample_tunnel_def new_question_def)


text \<open>
  \<open>peerOwns\<close> looks for any prefix of the peer that contains the target. WireGuard sends to the peer
  with the longest matching prefix, which may be another one.
\<close>

lemma longer_prefix_elsewhere:
  "let data = ''A'' @ [CHR 0x09] @ ''10.0.0.0/8'' @ [CHR 0x0A] @ ''B'' @ [CHR 0x09] @ ''10.0.0.5/32'' @ [CHR 0x0A] in
   peer_owns data ''A'' ''10.0.0.5'' \<and> peer_owns data ''B'' ''10.0.0.5''"
proof -
  have p: "parse_addr ''10.0.0.5'' = Some (V4 [10, 0, 0, 5])"
    "parse_prefix ''10.0.0.0/8'' = Some \<lparr>np_addr = V4 [10, 0, 0, 0], np_bits = 8\<rparr>"
    "parse_prefix ''10.0.0.5/32'' = Some \<lparr>np_addr = V4 [10, 0, 0, 5], np_bits = 32\<rparr>"
    "string_fields (replace_char CHR '','' CHR '' '' (''A'' @ [CHR 0x09] @ ''10.0.0.0/8'')) = [''A'', ''10.0.0.0/8'']"
    "string_fields (replace_char CHR '','' CHR '' '' (''B'' @ [CHR 0x09] @ ''10.0.0.5/32'')) = [''B'', ''10.0.0.5/32'']"
    by code_simp+
  have "prefix_contains \<lparr>np_addr = V4 [10, 0, 0, 0], np_bits = 8\<rparr> (V4 [10, 0, 0, 5])"
    "prefix_contains \<lparr>np_addr = V4 [10, 0, 0, 5], np_bits = 32\<rparr> (V4 [10, 0, 0, 5])"
    by (simp_all add: prefix_contains_def lead_bits_def addr_bytes_def addr_bits_def is_v4_def bytes_value_def addr_zone_def)
  then have "line_owns ''A'' (V4 [10, 0, 0, 5]) (''A'' @ [CHR 0x09] @ ''10.0.0.0/8'')"
    "line_owns ''B'' (V4 [10, 0, 0, 5]) (''B'' @ [CHR 0x09] @ ''10.0.0.5/32'')"
    unfolding line_owns_def p(4,5) by (simp_all add: p(2,3))
  moreover have "split_on CHR 0x0A (''A'' @ [CHR 0x09] @ ''10.0.0.0/8'' @ [CHR 0x0A] @ ''B'' @ [CHR 0x09] @ ''10.0.0.5/32'' @ [CHR 0x0A])
      = [''A'' @ [CHR 0x09] @ ''10.0.0.0/8'', ''B'' @ [CHR 0x09] @ ''10.0.0.5/32'', []]" by code_simp
  ultimately show ?thesis by (simp add: peer_owns_def p(1) Let_def del: append_Cons append_Nil split_on.simps)
qed

end
