(* ===== verification/OwRules.thy ===== *)
theory OwRules
  imports NetCli NftChain
begin

text \<open>
  Package \<open>internal/netpolicy\<close>, the OpenWrt policy reader (\<open>openwrt.go\<close>): firewall rules and chains of
  \<open>nft\<close> in their subset, which of them match the bound packet, the policy routing rules, the walk over
  jumping chains, and the evidence that comes out of one snapshot.

  JSON is what it decodes to. A raw scalar is a \<open>jscalar\<close>; \<open>JEmptyList\<close> are the two bytes of an empty
  list. A part or an entry with more than one key is \<open>...Many\<close>: the rule or the chain is invalid
  whatever else it says. Maps from keys to values are association lists.
\<close>

subsection \<open>Scalars and addresses\<close>

datatype jscalar = JNull | JNum nat | JText string | JEmptyList | JOther

text \<open>\<open>strconv.ParseUint\<close> with base 0 and 32 bits, underscores as it allows them.\<close>

definition digit_of :: "char \<Rightarrow> nat option" where
  "digit_of c =
     (if is_digit c then Some (byte c - 48)
      else if is_lower (lower_char c) then Some (byte (lower_char c) - 87) else None)"

fun digits_of :: "nat \<Rightarrow> nat \<Rightarrow> string \<Rightarrow> nat option" where
  "digits_of base n [] = Some n"
| "digits_of base n (c # s) =
     (if c = CHR ''_'' then digits_of base n s
      else case digit_of c of
        None \<Rightarrow> None
      | Some d \<Rightarrow> if d \<ge> base then None else digits_of base (n * base + d) s)"

definition base_prefix :: "string \<Rightarrow> char option" where
  "base_prefix s =
     (case s of
        z # x # _ \<Rightarrow> if z = CHR ''0'' \<and> lower_char x \<in> {CHR ''b'', CHR ''o'', CHR ''x''} then Some (lower_char x) else None
      | _ \<Rightarrow> None)"

text \<open>The state of the loop is the kind of the last byte: digit, underscore or other.\<close>

fun underscores_ok :: "bool \<Rightarrow> char \<Rightarrow> string \<Rightarrow> bool" where
  "underscores_ok hex i [] = (i \<noteq> CHR ''_'')"
| "underscores_ok hex i (c # s) =
     (if is_digit c \<or> (hex \<and> lower_char c \<in> set ''abcdef'') then underscores_ok hex (CHR ''0'') s
      else if c = CHR ''_'' then i = CHR ''0'' \<and> underscores_ok hex (CHR ''_'') s
      else i \<noteq> CHR ''_'' \<and> underscores_ok hex (CHR ''!'') s)"

definition parse_uint32 :: "string \<Rightarrow> nat option" where
  "parse_uint32 s =
     (if s = [] then None
      else
        let p = (if length s \<ge> 3 then base_prefix s else None);
            base = (case p of Some c \<Rightarrow> if c = CHR ''b'' then 2 else if c = CHR ''o'' then 8 else 16
                    | None \<Rightarrow> if hd s = CHR ''0'' then 8 else 10);
            digits = (case p of Some _ \<Rightarrow> drop 2 s | None \<Rightarrow> if hd s = CHR ''0'' then tl s else s) in
        case digits_of base 0 digits of
          None \<Rightarrow> None
        | Some n \<Rightarrow>
            if n > 2 ^ 32 - 1 then None
            else if CHR ''_'' \<in> set digits
              \<and> \<not> (case base_prefix s of
                     Some c \<Rightarrow> underscores_ok (c = CHR ''x'') (CHR ''0'') (drop 2 s)
                   | None \<Rightarrow> underscores_ok False (CHR ''^'') s) then None
            else Some n)"

definition ow_number :: "jscalar option \<Rightarrow> nat option" where
  "ow_number raw =
     (case raw of
        Some (JNum n) \<Rightarrow> if n < 2 ^ 32 then Some n else None
      | Some (JText s) \<Rightarrow> parse_uint32 s
      | _ \<Rightarrow> None)"

definition ow_same_address :: "string \<Rightarrow> string \<Rightarrow> bool" where
  "ow_same_address text want =
     (case parse_prefix text of
        Some p \<Rightarrow> np_bits p = 32 \<and> addr_text (np_addr p) = want
      | None \<Rightarrow> text = want)"

text \<open>Whether it covers the address, and whether that is known.\<close>

definition ow_prefix :: "string \<Rightarrow> string \<Rightarrow> bool \<times> bool" where
  "ow_prefix text address =
     (if text = [] \<or> text = ''all'' then (True, True)
      else case parse_prefix text of
        Some p \<Rightarrow>
          (case parse_addr address of None \<Rightarrow> (False, False) | Some a \<Rightarrow> (prefix_contains p a, True))
      | None \<Rightarrow>
          (case (parse_addr text, parse_addr address) of
             (Some a, Some b) \<Rightarrow> (a = b, True)
           | _ \<Rightarrow> (False, False)))"

subsection \<open>What counts as the same configuration\<close>

datatype raw_json = JObject "(string \<times> raw_json) list" | JArray "raw_json list" | JLeaf string

definition churning :: "string set" where
  "churning = {''counter'', ''handle'', ''packets'', ''bytes'', ''comment'', ''position'', ''metainfo''}"

fun ow_clean :: "raw_json \<Rightarrow> raw_json" where
  "ow_clean (JObject kvs) = JObject (map (\<lambda>(k, v). (k, ow_clean v)) (filter (\<lambda>(k, v). k \<notin> churning) kvs))"
| "ow_clean (JArray vs) = JArray (filter (\<lambda>v. v \<noteq> JObject []) (map ow_clean vs))"
| "ow_clean (JLeaf s) = JLeaf s"

subsection \<open>Rules\<close>

datatype ow_part =
    PartCounter
  | PartMatch "nft_match option"
  | PartMangle "(string \<times> jscalar option) option"
  | PartVerdict string
  | PartJump "string option"
  | PartOther
  | PartMany

record ow_rule =
  or_source :: string
  or_destination :: string
  or_ingress :: string
  or_oif_not :: string
  or_action :: string
  or_jump :: string
  or_mark :: nat
  or_valid :: bool

text \<open>The rule so far, the fields seen, whether a statement has acted.\<close>

type_synonym ow_scan = "ow_rule \<times> string set \<times> bool"

definition invalid_if :: "bool \<Rightarrow> ow_rule \<Rightarrow> ow_rule" where
  "invalid_if b r = (if b then r\<lparr>or_valid := False\<rparr> else r)"

definition match_field :: "nft_match \<Rightarrow> string" where
  "match_field m = (if nm_meta m \<noteq> [] then nm_meta m else nm_field m)"

definition ow_scan_match :: "nft_match \<Rightarrow> ow_rule \<Rightarrow> string set \<Rightarrow> ow_rule" where
  "ow_scan_match m r seen =
     (let field = match_field m;
          r1 = invalid_if (nm_meta m = [] \<and> nm_protocol m \<noteq> ''ip'') r;
          r2 = invalid_if (field \<in> seen) r1;
          r3 = (if field = ''saddr'' then r2\<lparr>or_source := nm_right m\<rparr>
                else if field = ''daddr'' then r2\<lparr>or_destination := nm_right m\<rparr>
                else if field = ''iifname'' then r2\<lparr>or_ingress := nm_right m\<rparr>
                else if field = ''oifname''
                  then (invalid_if (nm_op m \<noteq> ''!='' \<or> \<not> native_ok (nm_right m)) r2)\<lparr>or_oif_not := nm_right m\<rparr>
                else r2\<lparr>or_valid := False\<rparr>)
      in invalid_if (field \<noteq> ''oifname'' \<and> nm_op m \<noteq> ''=='') r3)"

fun ow_scan_part :: "ow_part \<Rightarrow> ow_scan \<Rightarrow> ow_scan" where
  "ow_scan_part PartCounter st = st"
| "ow_scan_part (PartMatch None) (r, seen, acted) = (r\<lparr>or_valid := False\<rparr>, seen, acted)"
| "ow_scan_part (PartMatch (Some m)) (r, seen, acted) =
     (ow_scan_match m (invalid_if acted r) seen, insert (match_field m) seen, acted)"
| "ow_scan_part (PartMangle d) (r, seen, acted) =
     (let r1 = invalid_if (acted \<or> (case d of None \<Rightarrow> True | Some (key, v) \<Rightarrow> key \<noteq> ''mark'' \<or> ow_number v = None)) r
      in (r1\<lparr>or_mark := (case d of Some (key, v) \<Rightarrow> (case ow_number v of Some n \<Rightarrow> n | None \<Rightarrow> 0) | None \<Rightarrow> 0),
             or_action := ''mark''\<rparr>, seen, True))"
| "ow_scan_part (PartVerdict v) (r, seen, acted) = ((invalid_if acted r)\<lparr>or_action := v\<rparr>, seen, True)"
| "ow_scan_part (PartJump d) (r, seen, acted) =
     (let target = (case d of None \<Rightarrow> [] | Some t \<Rightarrow> t)
      in ((invalid_if (acted \<or> \<not> openwrt_name target) r)\<lparr>or_action := ''jump'', or_jump := target\<rparr>, seen, True))"
| "ow_scan_part _ (r, seen, acted) = (r\<lparr>or_valid := False\<rparr>, seen, acted)"

definition ow_start_rule :: ow_rule where
  "ow_start_rule =
     \<lparr>or_source = [], or_destination = [], or_ingress = [], or_oif_not = [], or_action = [], or_jump = [], or_mark = 0,
      or_valid = True\<rparr>"

definition ow_parse_rule :: "ow_part list \<Rightarrow> ow_rule" where
  "ow_parse_rule parts =
     (let r = fst (fold ow_scan_part parts (ow_start_rule, {}, False)) in invalid_if (or_action r = []) r)"

subsection \<open>Chains\<close>

record ow_chain_meta =
  om_family :: string
  om_table :: string
  om_name :: string
  om_hook :: string
  om_type :: string
  om_policy :: string
  om_priority :: "32 word option"

record ow_rule_entry =
  oe_family :: string
  oe_table :: string
  oe_chain :: string
  oe_expr :: "ow_part list"

datatype ow_entry =
    EntryMeta
  | EntryChain "ow_chain_meta option"
  | EntryRule "ow_rule_entry option"
  | EntryOther
  | EntryMany

record ow_chain =
  oc_bound :: net_chain
  oc_policy :: string
  oc_rules :: "ow_rule list"
  oc_valid :: bool

definition chain_meta_ok :: "net_chain \<Rightarrow> ow_chain_meta \<Rightarrow> bool" where
  "chain_meta_ok c m \<longleftrightarrow>
     om_family m = nc_family c \<and> om_table m = nc_table c \<and> om_name m = nc_chain c \<and> om_hook m = nc_hook c
     \<and> (nc_hook c \<noteq> [] \<longrightarrow>
          om_type m = ''filter'' \<and> om_priority m \<noteq> None \<and> om_priority m = nc_priority c
          \<and> (om_policy m = ''accept'' \<or> om_policy m = ''drop''))"

definition rule_entry_ok :: "net_chain \<Rightarrow> ow_rule_entry \<Rightarrow> bool" where
  "rule_entry_ok c r \<longleftrightarrow>
     oe_family r = nc_family c \<and> oe_table r = nc_table c \<and> oe_chain r = nc_chain c \<and> length (oe_expr r) \<le> 32"

text \<open>The chain so far and the number of its \<open>chain\<close> entries.\<close>

fun ow_scan_entry :: "net_chain \<Rightarrow> ow_entry \<Rightarrow> ow_chain \<times> nat \<Rightarrow> ow_chain \<times> nat" where
  "ow_scan_entry c EntryMeta st = st"
| "ow_scan_entry c (EntryChain d) (x, n) =
     (x\<lparr>oc_valid := oc_valid x \<and> (case d of None \<Rightarrow> False | Some m \<Rightarrow> chain_meta_ok c m),
        oc_policy := (case d of None \<Rightarrow> [] | Some m \<Rightarrow> om_policy m)\<rparr>, n + 1)"
| "ow_scan_entry c (EntryRule d) (x, n) =
     (case d of
        None \<Rightarrow> (x\<lparr>oc_valid := False\<rparr>, n)
      | Some r \<Rightarrow>
          if \<not> rule_entry_ok c r then (x\<lparr>oc_valid := False\<rparr>, n)
          else (x\<lparr>oc_rules := oc_rules x @ [ow_parse_rule (oe_expr r)]\<rparr>, n))"
| "ow_scan_entry c _ (x, n) = (x\<lparr>oc_valid := False\<rparr>, n)"

definition ow_parse_chain :: "net_chain \<Rightarrow> ow_entry list option \<Rightarrow> ow_chain" where
  "ow_parse_chain c body =
     (let x = \<lparr>oc_bound = c, oc_policy = [], oc_rules = [], oc_valid = True\<rparr> in
      case body of
        None \<Rightarrow> x\<lparr>oc_valid := False\<rparr>
      | Some es \<Rightarrow>
          if length es > 258 then x\<lparr>oc_valid := False\<rparr>
          else case fold (ow_scan_entry c) es (x, 0) of
            (y, n) \<Rightarrow> y\<lparr>oc_valid := oc_valid y \<and> n = 1\<rparr>)"

subsection \<open>The snapshot\<close>

record ow_set_meta =
  os_family :: string
  os_table :: string
  os_name :: string
  os_type :: string
  os_flags :: "string list"
  os_elements :: nat

datatype ow_set_entry = SetMeta | SetDecoded "ow_set_meta option" | SetOther

record ow_route =
  rr_dev :: string
  rr_type :: string
  rr_table :: "jscalar option"

type_synonym ow_rpdb = "jscalar gomap list"

record ow_snapshot =
  sn_scope :: string
  sn_context :: string
  sn_start :: time
  sn_end :: time
  sn_logical :: string
  sn_rules :: string
  sn_route :: string
  sn_set :: string
  sn_chains :: "string gomap"
  sn_stored :: "string gomap"
  sn_set_known :: bool
  sn_set_member :: bool
  sn_runtime :: bool
  sn_synthetic :: bool
  sn_closed :: bool

record ow_digest_view =
  dv_scope :: string
  dv_context :: string
  dv_logical :: "raw_json option"
  dv_rules :: "raw_json option"
  dv_route :: "raw_json option"
  dv_set :: "raw_json option"
  dv_chains :: "raw_json option gomap"
  dv_known :: bool
  dv_member :: bool

text \<open>JSON decoding and hashing. The logical state is its up flag, the device and the addresses.\<close>

record ow_codec =
  ow_json :: "string \<Rightarrow> raw_json option"
  ow_logical_of :: "string \<Rightarrow> (bool \<times> string \<times> string list) option"
  ow_chain_of :: "string \<Rightarrow> ow_entry list option"
  ow_set_of :: "string \<Rightarrow> ow_set_entry list option"
  ow_route_of :: "string \<Rightarrow> ow_route list option"
  ow_rules_of :: "string \<Rightarrow> ow_rpdb option"
  ow_hash_scope :: "string \<Rightarrow> net_object list \<Rightarrow> string"
  ow_hash_view :: "ow_digest_view \<Rightarrow> string"
  ow_hash_stored :: "string gomap \<Rightarrow> string"
  ow_hash_json :: hash_json

definition ow_semantic :: "ow_codec \<Rightarrow> string \<Rightarrow> raw_json option" where
  "ow_semantic k raw = map_option ow_clean (ow_json k raw)"

definition openwrt_runtime_digest :: "ow_codec \<Rightarrow> ow_snapshot \<Rightarrow> string" where
  "openwrt_runtime_digest k s =
     ow_hash_view k
       \<lparr>dv_scope = sn_scope s, dv_context = sn_context s, dv_logical = ow_semantic k (sn_logical s),
        dv_rules = ow_semantic k (sn_rules s), dv_route = ow_semantic k (sn_route s), dv_set = ow_semantic k (sn_set s),
        dv_chains = map (\<lambda>(c, v). (c, ow_semantic k v)) (sn_chains s), dv_known = sn_set_known s,
        dv_member = sn_set_member s\<rparr>"

definition openwrt_scope :: "ow_codec \<Rightarrow> net_question \<Rightarrow> string" where
  "openwrt_scope k q =
     ow_hash_scope k (request_digest (ow_hash_json k) (qu_request q) ''network.read'')
       (map (\<lambda>x. (clone_object (ow_hash_json k) x)\<lparr>no_alias := []\<rparr>) [qu_gateway q, qu_source q, qu_service q, qu_vpn q])"

definition ow_target :: "net_question \<Rightarrow> string" where
  "ow_target q =
     (if nb_target (binding (qu_service q)) = [] then nb_target (binding (qu_gateway q)) else nb_target (binding (qu_service q)))"

definition bound_set :: "net_question \<Rightarrow> net_set option" where
  "bound_set q = (case nb_openwrt (binding (qu_gateway q)) of None \<Rightarrow> None | Some b \<Rightarrow> ow_set b)"

definition set_meta_ok :: "net_set \<Rightarrow> ow_set_meta \<Rightarrow> bool" where
  "set_meta_ok s m \<longleftrightarrow>
     os_family m = ns_family s \<and> os_table m = ns_table s \<and> os_name m = ns_name s \<and> os_type m = ''ipv4_addr''
     \<and> os_flags m = [] \<and> os_elements m = 0 \<and> ns_element_family s = ''ipv4''"

definition ow_set_supported :: "ow_codec \<Rightarrow> net_question \<Rightarrow> ow_snapshot \<Rightarrow> bool" where
  "ow_set_supported k q s =
     (case bound_set q of
        None \<Rightarrow> False
      | Some st \<Rightarrow>
          (case ow_set_of k (sn_set s) of
             None \<Rightarrow> False
           | Some es \<Rightarrow>
               list_all (\<lambda>x. case x of SetMeta \<Rightarrow> True | SetDecoded (Some m) \<Rightarrow> set_meta_ok st m | _ \<Rightarrow> False) es
               \<and> length (filter (\<lambda>x. x \<noteq> SetMeta) es) = 1))"

subsection \<open>Which rules match\<close>

definition v4_text_ok :: "string \<Rightarrow> bool" where
  "v4_text_ok s \<longleftrightarrow> (case parse_addr s of Some a \<Rightarrow> is_v4 a | None \<Rightarrow> False)"

definition host_prefix_ok :: "string \<Rightarrow> bool" where
  "host_prefix_ok s \<longleftrightarrow> (case parse_prefix s of Some p \<Rightarrow> np_bits p = 32 | None \<Rightarrow> False)"

text \<open>Whether the rule matches, and whether that is known.\<close>

definition source_matches :: "ow_rule \<Rightarrow> net_question \<Rightarrow> bool \<times> bool" where
  "source_matches r q =
     (if or_source r \<noteq> [] \<and> \<not> ow_same_address (or_source r) (nb_address (binding (qu_source q)))
      then (False, v4_text_ok (or_source r) \<or> host_prefix_ok (or_source r)) else (True, True))"

definition destination_matches :: "ow_codec \<Rightarrow> ow_rule \<Rightarrow> net_question \<Rightarrow> ow_snapshot \<Rightarrow> bool \<times> bool" where
  "destination_matches k r q s =
     (if or_destination r = [] then (True, True)
      else if hd (or_destination r) = CHR ''@'' then
        (case bound_set q of
           None \<Rightarrow> (False, False)
         | Some st \<Rightarrow>
             if or_destination r \<noteq> CHR ''@'' # ns_name st \<or> \<not> sn_set_known s \<or> \<not> ow_set_supported k q s then (False, False)
             else (sn_set_member s, True))
      else if \<not> ow_same_address (or_destination r) (ow_target q) then (False, v4_text_ok (or_destination r))
      else (True, True))"

definition ow_rule_matches :: "ow_codec \<Rightarrow> ow_rule \<Rightarrow> net_question \<Rightarrow> ow_snapshot \<Rightarrow> bool \<times> bool" where
  "ow_rule_matches k r q s =
     (if \<not> or_valid r then (False, False)
      else if \<not> fst (source_matches r q) then source_matches r q
      else if or_ingress r \<noteq> [] \<and> or_ingress r \<noteq> nb_ingress (binding (qu_source q)) then (False, True)
      else destination_matches k r q s)"

subsection \<open>Policy routing\<close>

definition table_name :: "jscalar option \<Rightarrow> string option" where
  "table_name raw =
     (case raw of
        None \<Rightarrow> Some ''254''
      | Some v \<Rightarrow>
          (case ow_number raw of
             Some n \<Rightarrow> Some (dec_nat n)
           | None \<Rightarrow>
               (case v of
                  JText t \<Rightarrow>
                    if t = ''local'' then Some ''255'' else if t = ''main'' then Some ''254''
                    else if t = ''default'' then Some ''253'' else None
                | _ \<Rightarrow> None)))"

definition text_field :: "jscalar gomap \<Rightarrow> string \<Rightarrow> string option" where
  "text_field row key =
     (case map_of row key of None \<Rightarrow> Some [] | Some (JText t) \<Rightarrow> Some t | _ \<Rightarrow> None)"

definition rpdb_field_ok :: "string \<times> jscalar \<Rightarrow> bool" where
  "rpdb_field_ok kv =
     (case kv of (key, v) \<Rightarrow>
        if key \<in> {''priority'', ''src'', ''dst'', ''iif'', ''fwmark'', ''fwmask'', ''table'', ''protocol''} then True
        else if key = ''flags'' then v = JEmptyList \<or> v = JNull
        else key = ''action'' \<and> (v = JText ''to_tbl'' \<or> v = JText ''lookup''))"

text \<open>Whether the mark of a rule fits; \<open>None\<close> when it cannot be read.\<close>

definition mark_fits :: "32 word \<Rightarrow> jscalar gomap \<Rightarrow> bool option" where
  "mark_fits mark row =
     (case map_of row ''fwmark'' of
        None \<Rightarrow> Some True
      | Some v \<Rightarrow>
          (case (case map_of row ''fwmask'' of None \<Rightarrow> Some (2 ^ 32 - 1) | Some m \<Rightarrow> ow_number (Some m)) of
             None \<Rightarrow> None
           | Some msk \<Rightarrow>
               (case ow_number (Some v) of
                  None \<Rightarrow> None
                | Some n \<Rightarrow> Some (and mark (of_nat msk) = and (of_nat n) (of_nat msk)))))"

text \<open>One row: \<open>None\<close> gives up, otherwise the priorities seen and the rows that apply.\<close>

definition rpdb_row ::
    "net_question \<Rightarrow> 32 word \<Rightarrow> jscalar gomap \<Rightarrow> nat set \<times> (nat \<times> string) list \<Rightarrow> (nat set \<times> (nat \<times> string) list) option" where
  "rpdb_row q mark row st =
     (case (text_field row ''src'', text_field row ''dst'', text_field row ''iif'') of
        (Some src, Some dst, Some iif) \<Rightarrow>
          let (sm, sk) = ow_prefix src (nb_address (binding (qu_source q))); (dm, dk) = ow_prefix dst (ow_target q) in
          if sk \<and> dk \<and> (\<not> sm \<or> \<not> dm \<or> iif \<noteq> [] \<and> iif \<noteq> nb_ingress (binding (qu_source q))) then Some st
          else if \<not> sk \<or> \<not> dk then None
          else (case ow_number (map_of row ''priority'') of
            None \<Rightarrow> None
          | Some priority \<Rightarrow>
              if priority \<in> fst st \<or> \<not> list_all rpdb_field_ok row then None
              else
                let seen = insert priority (fst st) in
                case mark_fits mark row of
                  None \<Rightarrow> None
                | Some False \<Rightarrow> Some (seen, snd st)
                | Some True \<Rightarrow>
                    (case map_of row ''table'' of
                       None \<Rightarrow> None
                     | Some t \<Rightarrow>
                         (case table_name (Some t) of None \<Rightarrow> None | Some n \<Rightarrow> Some (seen, snd st @ [(priority, n)]))))
      | _ \<Rightarrow> None)"

fun rpdb_rows ::
    "net_question \<Rightarrow> 32 word \<Rightarrow> ow_rpdb \<Rightarrow> nat set \<times> (nat \<times> string) list \<Rightarrow> (nat \<times> string) list option" where
  "rpdb_rows q mark [] st = Some (snd st)"
| "rpdb_rows q mark (row # rows) st =
     (case rpdb_row q mark row st of None \<Rightarrow> None | Some st1 \<Rightarrow> rpdb_rows q mark rows st1)"

text \<open>The device the selected route goes to, when a rule that applies selects its table.\<close>

definition ow_route_policy :: "ow_codec \<Rightarrow> net_question \<Rightarrow> ow_snapshot \<Rightarrow> 32 word \<Rightarrow> string option" where
  "ow_route_policy k q s mark =
     (case ow_route_of k (sn_route s) of
        Some [route] \<Rightarrow>
          (case table_name (rr_table route) of
             None \<Rightarrow> None
           | Some selected \<Rightarrow>
               if rr_dev route = [] \<or> (rr_type route \<noteq> [] \<and> rr_type route \<noteq> ''unicast'') then None
               else (case ow_rules_of k (sn_rules s) of
                 None \<Rightarrow> None
               | Some rows \<Rightarrow>
                   if length rows > 64 then None
                   else (case rpdb_rows q mark rows ({}, []) of
                     None \<Rightarrow> None
                   | Some applicable \<Rightarrow>
                       if list_ex (\<lambda>(p, t). t = selected) (sort_by (\<lambda>a b. fst a \<le> fst b) applicable)
                       then Some (rr_dev route) else None)))
      | _ \<Rightarrow> None)"

subsection \<open>The walk over the chains\<close>

record ow_walk =
  wk_mark :: nat
  wk_mark_known :: bool
  wk_guard :: bool
  wk_reached :: "string set"

record ow_context =
  wc_codec :: ow_codec
  wc_question :: net_question
  wc_snapshot :: ow_snapshot
  wc_chains :: "ow_chain gomap"
  wc_source_logical :: bool
  wc_bound_vpn :: bool

datatype ow_verdict = OwAccept | OwDrop | OwReturn

definition guard_rule :: "ow_context \<Rightarrow> ow_chain \<Rightarrow> ow_rule \<Rightarrow> bool" where
  "guard_rule e x r \<longleftrightarrow>
     (let v = nb_interface (binding (qu_vpn (wc_question e))) in
      nc_role (oc_bound x) = ''guard'' \<and> or_source r \<noteq> [] \<and> or_destination r \<noteq> [] \<and> or_ingress r \<noteq> []
      \<and> (or_oif_not r = [] \<or> wc_bound_vpn e \<and> v \<noteq> [] \<and> or_oif_not r = v))"

text \<open>What a matching rule does that is no jump: go on, end the chain, or fail.\<close>

datatype ow_turn = TurnNext ow_walk | TurnEnd ow_verdict ow_walk | TurnFail ow_walk | TurnJump string

definition ow_turn_of :: "ow_context \<Rightarrow> ow_chain \<Rightarrow> ow_rule \<Rightarrow> ow_walk \<Rightarrow> ow_turn" where
  "ow_turn_of e x r st =
     (if or_action r = ''mark'' then
        (if nc_role (oc_bound x) \<noteq> ''classifier'' \<or> or_source r = [] \<or> or_destination r = [] \<or> or_ingress r = []
            \<or> or_oif_not r \<noteq> [] \<or> \<not> wc_source_logical e then TurnFail st
         else TurnNext (st\<lparr>wk_mark := or_mark r, wk_mark_known := True\<rparr>))
      else if or_action r = ''jump'' then TurnJump (or_jump r)
      else if or_action r = ''return'' then
        (if nc_hook (oc_bound x) \<noteq> [] then TurnFail st else TurnEnd OwReturn st)
      else if or_action r = ''accept'' then
        (if or_oif_not r \<noteq> [] then TurnFail st else TurnEnd OwAccept st)
      else if or_action r = ''drop'' \<or> or_action r = ''reject'' then
        (let st1 = (if guard_rule e x r then st\<lparr>wk_guard := True\<rparr> else st) in
         if or_oif_not r \<noteq> [] then TurnNext st1 else TurnEnd OwDrop st1)
      else TurnFail st)"

definition child_chain :: "ow_context \<Rightarrow> ow_chain \<Rightarrow> string \<Rightarrow> ow_chain option" where
  "child_chain e x target =
     (case map_of (wc_chains e) (nc_family (oc_bound x) @ '':'' @ nc_table (oc_bound x) @ '':'' @ target) of
        None \<Rightarrow> None
      | Some y \<Rightarrow>
          if nc_hook (oc_bound y) \<noteq> [] \<or> nc_role (oc_bound y) \<noteq> nc_role (oc_bound x) then None else Some y)"

definition chain_end :: "ow_chain \<Rightarrow> ow_verdict" where
  "chain_end x = (if nc_hook (oc_bound x) \<noteq> [] \<and> oc_policy x = ''drop'' then OwDrop else OwReturn)"

text \<open>\<open>levels\<close> is how deep the walk may still go; \<open>None\<close> when it gives up.\<close>

fun walk_rules ::
    "ow_context \<Rightarrow> nat \<Rightarrow> string list \<Rightarrow> ow_chain \<Rightarrow> ow_rule list \<Rightarrow> ow_walk \<Rightarrow> ow_verdict option \<times> ow_walk" where
  "walk_rules e levels stack x [] st = (Some (chain_end x), st)"
| "walk_rules e levels stack x (r # rs) st =
     (case ow_rule_matches (wc_codec e) r (wc_question e) (wc_snapshot e) of
        (_, False) \<Rightarrow> (None, st)
      | (False, True) \<Rightarrow> walk_rules e levels stack x rs st
      | (True, True) \<Rightarrow>
          (case ow_turn_of e x r st of
             TurnFail st1 \<Rightarrow> (None, st1)
           | TurnEnd v st1 \<Rightarrow> (Some v, st1)
           | TurnNext st1 \<Rightarrow> walk_rules e levels stack x rs st1
           | TurnJump target \<Rightarrow>
               (case child_chain e x target of
                  None \<Rightarrow> (None, st)
                | Some y \<Rightarrow>
                    let key = chain_key (oc_bound y) in
                    (case levels of
                       0 \<Rightarrow> (None, st)
                     | Suc n \<Rightarrow>
                         if key \<in> set stack \<or> \<not> oc_valid y then (None, st)
                         else
                           (case walk_rules e n (key # stack) y (oc_rules y) (st\<lparr>wk_reached := insert key (wk_reached st)\<rparr>) of
                              (None, st1) \<Rightarrow> (None, st1)
                            | (Some OwReturn, st1) \<Rightarrow> walk_rules e levels stack x rs st1
                            | (Some v, st1) \<Rightarrow> (Some v, st1))))))"

definition walk_root :: "ow_context \<Rightarrow> ow_chain \<Rightarrow> ow_walk \<Rightarrow> ow_verdict option \<times> ow_walk" where
  "walk_root e x st =
     (let key = chain_key (oc_bound x) in
      if \<not> oc_valid x then (None, st)
      else walk_rules e 3 [key] x (oc_rules x) (st\<lparr>wk_reached := insert key (wk_reached st)\<rparr>))"

text \<open>The classifying roots: the loop ends at the first that fails or drops.\<close>

fun classify :: "ow_context \<Rightarrow> ow_chain list \<Rightarrow> bool \<Rightarrow> ow_walk \<Rightarrow> bool \<times> ow_walk" where
  "classify e [] ok st = (ok, st)"
| "classify e (x # xs) ok st =
     (if nc_role (oc_bound x) \<noteq> ''classifier'' then classify e xs ok st
      else if nc_hook (oc_bound x) \<noteq> ''prerouting'' then classify e xs False st
      else case walk_root e x st of
        (None, st1) \<Rightarrow> (False, st1\<lparr>wk_mark_known := False\<rparr>)
      | (Some OwDrop, st1) \<Rightarrow> (ok, st1\<lparr>wk_mark_known := False\<rparr>)
      | (Some _, st1) \<Rightarrow> classify e xs ok st1)"

text \<open>The forwarding roots: supported, a forwarding root was seen, none of these drops.\<close>

fun forward_roots :: "ow_context \<Rightarrow> ow_chain list \<Rightarrow> bool \<times> bool \<times> bool \<Rightarrow> ow_walk \<Rightarrow> (bool \<times> bool \<times> bool) \<times> ow_walk" where
  "forward_roots e [] acc st = (acc, st)"
| "forward_roots e (x # xs) (ok, seen, allowed) st =
     (if nc_role (oc_bound x) = ''classifier'' then forward_roots e xs (ok, seen, allowed) st
      else if nc_hook (oc_bound x) \<noteq> ''forward'' then forward_roots e xs (False, seen, allowed) st
      else case walk_root e x st of
        (None, st1) \<Rightarrow> forward_roots e xs (False, seen, allowed) st1
      | (Some v, st1) \<Rightarrow>
          if nc_role (oc_bound x) = ''forwarding''
          then forward_roots e xs (ok, True, allowed \<and> v \<noteq> OwDrop) st1
          else forward_roots e xs (ok, seen, allowed) st1)"

subsection \<open>The evidence of a snapshot\<close>

record ow_evidence =
  ev_logical :: bool
  ev_source_logical :: bool
  ev_mark_known :: bool
  ev_route_selected :: bool
  ev_vpn_selected :: bool
  ev_guard_candidate :: bool
  ev_coverage :: bool
  ev_runtime :: bool
  ev_synthetic :: bool
  ev_scope_supported :: bool
  ev_mark :: nat
  ev_forwarding :: "bool option"
  ev_runtime_digest :: string
  ev_stored_digest :: string
  ev_missing :: "string list"

definition start_evidence :: "ow_codec \<Rightarrow> ow_snapshot \<Rightarrow> ow_evidence" where
  "start_evidence k s =
     \<lparr>ev_logical = False, ev_source_logical = False, ev_mark_known = False, ev_route_selected = False, ev_vpn_selected = False,
      ev_guard_candidate = False, ev_coverage = False, ev_runtime = sn_runtime s, ev_synthetic = sn_synthetic s,
      ev_scope_supported = False, ev_mark = 0, ev_forwarding = None, ev_runtime_digest = openwrt_runtime_digest k s,
      ev_stored_digest = ow_hash_stored k (sn_stored s), ev_missing = []\<rparr>"

definition fail_evidence :: "string \<Rightarrow> ow_evidence \<Rightarrow> ow_evidence" where
  "fail_evidence code n = n\<lparr>ev_missing := ev_missing n @ [code]\<rparr>"

definition snapshot_in_scope :: "ow_codec \<Rightarrow> net_question \<Rightarrow> ow_snapshot \<Rightarrow> time \<Rightarrow> time \<Rightarrow> bool" where
  "snapshot_in_scope k q s now1 now2 \<longleftrightarrow>
     nb_openwrt (binding (qu_gateway q)) \<noteq> None \<and> valid_openwrt (qu_gateway q) \<and> sn_scope s = openwrt_scope k q
     \<and> sn_context s = nb_context (binding (qu_gateway q)) \<and> sn_start s \<noteq> zero_time \<and> \<not> sn_end s < sn_start s
     \<and> \<not> sn_end s > now1 + second \<and> \<not> now2 - sn_end s > 10 * minute"

definition bound_chains :: "ow_codec \<Rightarrow> ow_snapshot \<Rightarrow> net_openwrt \<Rightarrow> ow_chain gomap" where
  "bound_chains k s b =
     map (\<lambda>c. (chain_key c, ow_parse_chain c (ow_chain_of k (case map_of (sn_chains s) (chain_key c) of None \<Rightarrow> [] | Some v \<Rightarrow> v))))
       (ow_chains b)"

definition root_le :: "ow_chain \<Rightarrow> ow_chain \<Rightarrow> bool" where
  "root_le a b =
     (let p = (\<lambda>x. case nc_priority (oc_bound x) of None \<Rightarrow> 0 | Some w \<Rightarrow> sint w) in
      if nc_hook (oc_bound a) \<noteq> nc_hook (oc_bound b) then str_less (nc_hook (oc_bound a)) (nc_hook (oc_bound b))
      else p a \<le> p b)"

definition sorted_roots :: "ow_chain gomap \<Rightarrow> ow_chain list" where
  "sorted_roots cs = sort_by root_le (filter (\<lambda>x. nc_hook (oc_bound x) \<noteq> []) (map snd cs))"

text \<open>No two roots of a hook with one priority.\<close>

definition roots_ordered :: "ow_chain gomap \<Rightarrow> bool" where
  "roots_ordered cs \<longleftrightarrow>
     distinct (map (\<lambda>x. (nc_hook (oc_bound x), nc_priority (oc_bound x))) (filter (\<lambda>x. nc_hook (oc_bound x) \<noteq> []) (map snd cs)))"

definition chains_supported :: "ow_chain gomap \<Rightarrow> bool" where
  "chains_supported cs \<longleftrightarrow>
     cs \<noteq> [] \<and> list_all (\<lambda>(key, x). nc_family (oc_bound x) \<noteq> ''ip6'' \<and> oc_valid x) cs \<and> roots_ordered cs"

definition vpn_bound :: "net_question \<Rightarrow> bool" where
  "vpn_bound q \<longleftrightarrow>
     (let v = binding (qu_vpn q); g = qu_gateway q in
      object_id (qu_vpn q) \<noteq> [] \<and> nb_gateway v = no_ref_of g \<and> nb_context v = nb_context (binding g)
      \<and> nb_namespace v = nb_namespace (binding g))"

definition source_logical :: "net_question \<Rightarrow> net_openwrt \<Rightarrow> string \<Rightarrow> bool" where
  "source_logical q b device \<longleftrightarrow>
     no_kind (qu_source q) = KindNetwork \<and> nb_gateway (binding (qu_source q)) = no_ref_of (qu_gateway q)
     \<and> (case nb_openwrt (binding (qu_source q)) of None \<Rightarrow> False | Some o2 \<Rightarrow> ow_logical o2 = ow_logical b)
     \<and> nb_ingress (binding (qu_source q)) = device"

definition start_walk :: ow_walk where
  "start_walk = \<lparr>wk_mark = 0, wk_mark_known = False, wk_guard = False, wk_reached = {}\<rparr>"

definition evaluate_chains :: "ow_codec \<Rightarrow> net_question \<Rightarrow> ow_snapshot \<Rightarrow> net_openwrt \<Rightarrow> ow_evidence \<Rightarrow> ow_evidence" where
  "evaluate_chains k q s b n =
     (let cs = bound_chains k s b; roots = sorted_roots cs;
          e = \<lparr>wc_codec = k, wc_question = q, wc_snapshot = s, wc_chains = cs, wc_source_logical = ev_source_logical n,
               wc_bound_vpn = vpn_bound q\<rparr>;
          (ok1, st1) = classify e roots (chains_supported cs) start_walk;
          use = (ok1 \<and> wk_mark_known st1);
          dev = (if use then ow_route_policy k q s (of_nat (wk_mark st1)) else None);
          n1 = (if use then n\<lparr>ev_mark_known := True, ev_mark := wk_mark st1, ev_route_selected := (dev \<noteq> None),
                  ev_vpn_selected := (vpn_bound q \<and> nb_interface (binding (qu_vpn q)) \<noteq> []
                     \<and> dev = Some (nb_interface (binding (qu_vpn q)))),
                  ev_missing := ev_missing n @ (if dev = None then [''openwrt_rpdb_coverage''] else [])\<rparr> else n);
          ok2 = (ok1 \<and> (use \<longrightarrow> dev \<noteq> None));
          ((ok3, seen, allowed), st2) = forward_roots e roots (ok2, False, True) st1;
          ok = (ok3 \<and> list_all (\<lambda>(key, _). key \<in> wk_reached st2) cs)
      in n1\<lparr>ev_guard_candidate := wk_guard st2,
            ev_forwarding := (if seen \<and> ok then Some allowed else None), ev_scope_supported := ok,
            ev_coverage := (sn_closed s \<and> ok \<and> ev_mark_known n1 \<and> ev_route_selected n1),
            ev_missing := ev_missing n1 @ (if ok then [] else [''openwrt_unsupported_or_unreachable_policy''])\<rparr>)"

definition normalize_openwrt :: "ow_codec \<Rightarrow> net_question \<Rightarrow> ow_snapshot \<Rightarrow> time \<Rightarrow> time \<Rightarrow> ow_evidence" where
  "normalize_openwrt k q s now1 now2 =
     (let n = start_evidence k s; g = binding (qu_gateway q) in
      if \<not> snapshot_in_scope k q s now1 now2 then fail_evidence ''openwrt_scope_or_time'' n
      else case (nb_openwrt g, ow_logical_of k (sn_logical s)) of
        (Some b, Some (up, device, addresses)) \<Rightarrow>
          if \<not> up \<or> device \<noteq> nb_interface g then fail_evidence ''openwrt_logical_binding'' n
          else if nb_address g \<notin> set addresses then fail_evidence ''openwrt_address_binding'' n
          else
            let n1 = n\<lparr>ev_logical := True, ev_source_logical := source_logical q b device\<rparr> in
            if ow_profile b \<noteq> ''fw4-basic'' \<and> ow_profile b \<noteq> ''gl-policy-fw4'' then fail_evidence ''openwrt_profile_unsupported'' n1
            else if \<not> v4_text_ok (ow_target q) then fail_evidence ''openwrt_family_unsupported'' n1
            else evaluate_chains k q s b n1
      | _ \<Rightarrow> fail_evidence ''openwrt_logical_binding'' n)"

end
