(* ===== verification/OwSound.thy ===== *)
theory OwSound
  imports OwRules
begin

text \<open>
  What the OpenWrt reader says of a packet against what the firewall does to it: the meaning of the
  parts of a rule, jumps and returns as nftables has them, and that the walk over the bound chains
  predicts verdicts and marks.
\<close>

subsection \<open>The firewall\<close>

record ow_packet =
  op_src :: string
  op_dst :: string
  op_iif :: string
  op_oif :: string

text \<open>The elements of a set, a prefix, or one address written out.\<close>

definition denotes :: "(string \<Rightarrow> string set) \<Rightarrow> string \<Rightarrow> string \<Rightarrow> bool" where
  "denotes sets text a \<longleftrightarrow>
     (if text \<noteq> [] \<and> hd text = CHR ''@'' then a \<in> sets (tl text)
      else case parse_prefix text of
        Some p \<Rightarrow> (case parse_addr a of Some x \<Rightarrow> prefix_contains p x | None \<Rightarrow> False)
      | None \<Rightarrow> a = text)"

datatype kern_step = KernNext "32 word" | KernVerdict string "32 word" | KernJump string "32 word"

text \<open>Constructs outside of the subset do what the parameter \<open>other\<close> says.\<close>

type_synonym kern_other = "ow_part \<Rightarrow> ow_packet \<Rightarrow> 32 word \<Rightarrow> kern_step"

definition part_matches :: "(string \<Rightarrow> string set) \<Rightarrow> nft_match \<Rightarrow> ow_packet \<Rightarrow> bool option" where
  "part_matches sets m pk =
     (let eq = (if match_field m = ''saddr'' then Some (denotes sets (nm_right m) (op_src pk))
                else if match_field m = ''daddr'' then Some (denotes sets (nm_right m) (op_dst pk))
                else if match_field m = ''iifname'' then Some (op_iif pk = nm_right m)
                else if match_field m = ''oifname'' then Some (op_oif pk = nm_right m) else None)
      in if nm_op m = ''=='' then eq else if nm_op m = ''!='' then map_option Not eq else None)"

fun exec_parts :: "(string \<Rightarrow> string set) \<Rightarrow> kern_other \<Rightarrow> ow_part list \<Rightarrow> ow_packet \<Rightarrow> 32 word \<Rightarrow> kern_step" where
  "exec_parts sets other [] pk mark = KernNext mark"
| "exec_parts sets other (x # xs) pk mark =
     (case x of
        PartCounter \<Rightarrow> exec_parts sets other xs pk mark
      | PartMatch (Some m) \<Rightarrow>
          (case part_matches sets m pk of
             None \<Rightarrow> other x pk mark
           | Some True \<Rightarrow> exec_parts sets other xs pk mark
           | Some False \<Rightarrow> KernNext mark)
      | PartMangle (Some (key, v)) \<Rightarrow>
          (case ow_number v of
             Some n \<Rightarrow> if key = ''mark'' then exec_parts sets other xs pk (of_nat n) else other x pk mark
           | None \<Rightarrow> other x pk mark)
      | PartVerdict v \<Rightarrow> KernVerdict v mark
      | PartJump (Some t) \<Rightarrow> KernJump t mark
      | _ \<Rightarrow> other x pk mark)"

text \<open>
  The rules of a chain: \<open>kr\<close> are the rules of every chain by its key, \<open>pre\<close> the family and table,
  \<open>fin\<close> what happens at the end of the chain or at a return, \<open>fuel\<close> how deep jumps may go.
\<close>

fun kern_rules ::
    "(string \<Rightarrow> string set) \<Rightarrow> kern_other \<Rightarrow> (string \<Rightarrow> ow_part list list) \<Rightarrow> string \<Rightarrow> ow_packet \<Rightarrow> nat \<Rightarrow> ow_verdict
     \<Rightarrow> ow_part list list \<Rightarrow> 32 word \<Rightarrow> (ow_verdict \<times> 32 word) option" where
  "kern_rules sets other kr pre pk fuel fin [] mark = Some (fin, mark)"
| "kern_rules sets other kr pre pk fuel fin (p # ps) mark =
     (case exec_parts sets other p pk mark of
        KernNext m \<Rightarrow> kern_rules sets other kr pre pk fuel fin ps m
      | KernVerdict v m \<Rightarrow> Some (if v = ''accept'' then OwAccept else if v = ''return'' then fin else OwDrop, m)
      | KernJump t m \<Rightarrow>
          (case fuel of
             0 \<Rightarrow> None
           | Suc n \<Rightarrow>
               (case kern_rules sets other kr pre pk n OwReturn (kr (pre @ t)) m of
                  None \<Rightarrow> None
                | Some (OwReturn, m1) \<Rightarrow> kern_rules sets other kr pre pk fuel fin ps m1
                | Some r \<Rightarrow> Some r)))"

definition part_plain :: "ow_part \<Rightarrow> bool" where
  "part_plain x \<longleftrightarrow>
     (case x of
        PartMatch (Some m) \<Rightarrow> nm_right m \<noteq> [] \<and> CHR ''/'' \<notin> set (nm_right m)
      | PartVerdict v \<Rightarrow> v \<in> {''accept'', ''drop'', ''reject'', ''return''}
      | _ \<Rightarrow> True)"

subsection \<open>One rule\<close>

definition ow_fits :: "(string \<Rightarrow> string set) \<Rightarrow> ow_rule \<Rightarrow> ow_packet \<Rightarrow> bool" where
  "ow_fits sets r pk \<longleftrightarrow>
     (or_source r = [] \<or> denotes sets (or_source r) (op_src pk))
     \<and> (or_destination r = [] \<or> denotes sets (or_destination r) (op_dst pk))
     \<and> (or_ingress r = [] \<or> op_iif pk = or_ingress r) \<and> (or_oif_not r = [] \<or> op_oif pk \<noteq> or_oif_not r)"

definition ow_effect :: "ow_rule \<Rightarrow> 32 word \<Rightarrow> kern_step" where
  "ow_effect r mark =
     (if or_action r = [] then KernNext mark
      else if or_action r = ''mark'' then KernNext (of_nat (or_mark r))
      else if or_action r = ''jump'' then KernJump (or_jump r) mark
      else KernVerdict (or_action r) mark)"

abbreviation scanned :: "ow_part list \<Rightarrow> ow_scan \<Rightarrow> ow_rule" where
  "scanned xs st \<equiv> fst (fold ow_scan_part xs st)"

lemma invalid_if_simps [simp]:
  "or_source (invalid_if b r) = or_source r" "or_destination (invalid_if b r) = or_destination r"
  "or_ingress (invalid_if b r) = or_ingress r" "or_oif_not (invalid_if b r) = or_oif_not r"
  "or_action (invalid_if b r) = or_action r" "or_jump (invalid_if b r) = or_jump r" "or_mark (invalid_if b r) = or_mark r"
  "or_valid (invalid_if b r) \<longleftrightarrow> \<not> b \<and> or_valid r"
  "invalid_if False r = r"
  by (simp_all add: invalid_if_def)

lemma scan_match_valid:
  "or_valid (ow_scan_match m r seen) \<longleftrightarrow>
     or_valid r \<and> match_field m \<notin> seen \<and> (nm_meta m = [] \<longrightarrow> nm_protocol m = ''ip'')
     \<and> (match_field m \<in> {''saddr'', ''daddr'', ''iifname''} \<and> nm_op m = ''==''
        \<or> match_field m = ''oifname'' \<and> nm_op m = ''!='' \<and> native_ok (nm_right m))"
  by (auto simp: ow_scan_match_def Let_def)

lemma scan_match_fields [simp]:
  "or_source (ow_scan_match m r seen) = (if match_field m = ''saddr'' then nm_right m else or_source r)"
  "or_destination (ow_scan_match m r seen) = (if match_field m = ''daddr'' then nm_right m else or_destination r)"
  "or_ingress (ow_scan_match m r seen) = (if match_field m = ''iifname'' then nm_right m else or_ingress r)"
  "or_oif_not (ow_scan_match m r seen) = (if match_field m = ''oifname'' then nm_right m else or_oif_not r)"
  "or_action (ow_scan_match m r seen) = or_action r" "or_jump (ow_scan_match m r seen) = or_jump r"
  "or_mark (ow_scan_match m r seen) = or_mark r"
  by (auto simp: ow_scan_match_def Let_def)

lemma scan_part_valid: "or_valid (fst (ow_scan_part x st)) \<Longrightarrow> or_valid (fst st)"
  by (cases "(x, st)" rule: ow_scan_part.cases) (auto simp: scan_match_valid Let_def)

lemma scanned_valid: "or_valid (scanned xs st) \<Longrightarrow> or_valid (fst st)"
proof (induction xs arbitrary: st)
  case (Cons x xs)
  then show ?case using Cons.IH [of "ow_scan_part x st"] scan_part_valid [of x st] by simp
qed simp

lemma scan_part_keeps:
  assumes "or_valid (fst (ow_scan_part x (r, seen, acted)))"
  shows "''saddr'' \<in> seen \<Longrightarrow> or_source (fst (ow_scan_part x (r, seen, acted))) = or_source r"
    "''daddr'' \<in> seen \<Longrightarrow> or_destination (fst (ow_scan_part x (r, seen, acted))) = or_destination r"
    "''iifname'' \<in> seen \<Longrightarrow> or_ingress (fst (ow_scan_part x (r, seen, acted))) = or_ingress r"
    "''oifname'' \<in> seen \<Longrightarrow> or_oif_not (fst (ow_scan_part x (r, seen, acted))) = or_oif_not r"
    "seen \<subseteq> fst (snd (ow_scan_part x (r, seen, acted)))"
  using assms by (cases "(x, (r, seen, acted))" rule: ow_scan_part.cases; auto simp: scan_match_valid Let_def)+

lemma scanned_keeps:
  assumes "or_valid (scanned xs (r, seen, acted))"
  shows "(''saddr'' \<in> seen \<longrightarrow> or_source (scanned xs (r, seen, acted)) = or_source r)
    \<and> (''daddr'' \<in> seen \<longrightarrow> or_destination (scanned xs (r, seen, acted)) = or_destination r)
    \<and> (''iifname'' \<in> seen \<longrightarrow> or_ingress (scanned xs (r, seen, acted)) = or_ingress r)
    \<and> (''oifname'' \<in> seen \<longrightarrow> or_oif_not (scanned xs (r, seen, acted)) = or_oif_not r)"
  using assms
proof (induction xs arbitrary: r seen acted)
  case (Cons x xs)
  obtain r1 seen1 acted1 where s: "ow_scan_part x (r, seen, acted) = (r1, seen1, acted1)" by (metis prod.exhaust)
  have "or_valid r1" using Cons.prems scanned_valid [of xs "(r1, seen1, acted1)"] by (simp add: s)
  then have "seen \<subseteq> seen1" "''saddr'' \<in> seen \<Longrightarrow> or_source r1 = or_source r" "''daddr'' \<in> seen \<Longrightarrow> or_destination r1 = or_destination r"
    "''iifname'' \<in> seen \<Longrightarrow> or_ingress r1 = or_ingress r" "''oifname'' \<in> seen \<Longrightarrow> or_oif_not r1 = or_oif_not r"
    using scan_part_keeps [of x r seen acted] by (auto simp: s)
  then show ?case using Cons.IH [of r1 seen1 acted1] Cons.prems by (auto simp: s)
qed simp

text \<open>After a statement has acted only counters may follow.\<close>

lemma scanned_acted:
  assumes "or_valid (scanned xs (r, seen, True))"
  shows "scanned xs (r, seen, True) = r \<and> exec_parts sets other xs pk mark = KernNext mark"
  using assms
proof (induction xs)
  case (Cons x xs)
  have "or_valid (fst (ow_scan_part x (r, seen, True)))" using Cons.prems scanned_valid [of xs "ow_scan_part x (r, seen, True)"] by simp
  then have "x = PartCounter" by (cases "(x, (r, seen, True))" rule: ow_scan_part.cases) (auto simp: scan_match_valid Let_def)
  then show ?case using Cons by simp
qed simp

lemma exec_scanned:
  assumes "or_valid (scanned xs (r, seen, False))" "list_all part_plain xs" "ow_fits sets r pk" "or_action r = []"
  shows "exec_parts sets other xs pk mark =
    (let r' = scanned xs (r, seen, False) in if ow_fits sets r' pk then ow_effect r' mark else KernNext mark)"
  using assms
proof (induction xs arbitrary: r seen)
  case Nil
  then show ?case by (simp add: ow_effect_def)
next
  case (Cons x xs)
  obtain r1 seen1 acted1 where s: "ow_scan_part x (r, seen, False) = (r1, seen1, acted1)" by (metis prod.exhaust)
  have v: "or_valid r1" using Cons.prems(1) scanned_valid [of xs "(r1, seen1, acted1)"] by (simp add: s)
  consider (counter) "x = PartCounter" | (match) m where "x = PartMatch (Some m)"
    | (mark) w n where "x = PartMangle (Some (''mark'', w))" "ow_number w = Some n"
    | (verdict) a where "x = PartVerdict a" | (jump) t where "x = PartJump (Some t)"
    using v s by (cases "(x, (r, seen, False))" rule: ow_scan_part.cases) (auto simp: Let_def openwrt_name_def split: option.splits)
  note cases = this
  have ended: "scanned xs (r1, seen1, acted1) = r1" "exec_parts sets other xs pk n = KernNext n" if "acted1" for n
    using that scanned_acted [of xs r1 seen1 sets other pk] Cons.prems(1) s by simp_all
  from cases show ?case
  proof cases
    case counter
    then show ?thesis using Cons by (simp add: s [symmetric])
  next
    case (match m)
    have s1: "r1 = ow_scan_match m r seen" "seen1 = insert (match_field m) seen" "acted1 = False"
      using s by (auto simp: match)
    have right: "nm_right m \<noteq> []" using Cons.prems(2) by (simp add: match part_plain_def)
    have f: "part_matches sets m pk = Some (ow_fits sets r1 pk)"
      using v right Cons.prems(3) by (auto simp: s1 scan_match_valid part_matches_def ow_fits_def)
    show ?thesis
    proof (cases "ow_fits sets r1 pk")
      case True
      then show ?thesis using Cons.IH [of r1 seen1] Cons.prems f s by (simp add: match s1 Let_def)
    next
      case False
      have k: "or_valid (scanned xs (r1, seen1, False))" using Cons.prems(1) by (simp add: s s1(3))
      have "\<not> ow_fits sets (scanned xs (r1, seen1, False)) pk"
        using False scanned_keeps [OF k] v right Cons.prems(3)
        by (auto simp: s1 scan_match_valid ow_fits_def split: if_splits)
      then show ?thesis using False f s by (simp add: match s1(3) Let_def)
    qed
  next
    case (mark w n)
    then have "acted1" "r1 = r\<lparr>or_mark := n, or_action := ''mark''\<rparr>" using s by (auto simp: invalid_if_def)
    then show ?thesis using ended s mark Cons.prems(3) by (simp add: ow_fits_def ow_effect_def Let_def)
  next
    case (verdict a)
    then have "acted1" "r1 = r\<lparr>or_action := a\<rparr>" "a \<in> {''accept'', ''drop'', ''reject'', ''return''}"
      using s Cons.prems(2) by (auto simp: invalid_if_def part_plain_def)
    then show ?thesis using ended s verdict Cons.prems(3) by (auto simp: ow_fits_def ow_effect_def)
  next
    case (jump t)
    then have "acted1" "r1 = r\<lparr>or_action := ''jump'', or_jump := t\<rparr>" using s v by (auto simp: invalid_if_def split: if_splits)
    then show ?thesis using ended s jump Cons.prems(3) by (simp add: ow_fits_def ow_effect_def)
  qed
qed

lemma exec_parsed:
  assumes "or_valid (ow_parse_rule xs)" "list_all part_plain xs"
  shows "exec_parts sets other xs pk mark =
    (if ow_fits sets (ow_parse_rule xs) pk then ow_effect (ow_parse_rule xs) mark else KernNext mark)"
proof -
  have "or_valid (scanned xs (ow_start_rule, {}, False))" using assms(1) by (simp add: ow_parse_rule_def Let_def)
  then have "exec_parts sets other xs pk mark = (let r' = scanned xs (ow_start_rule, {}, False) in
      if ow_fits sets r' pk then ow_effect r' mark else KernNext mark)"
    using assms(2) by (intro exec_scanned) (simp_all add: ow_fits_def ow_start_rule_def)
  moreover have "ow_fits sets (invalid_if b r) pk = ow_fits sets r pk" "ow_effect (invalid_if b r) mark = ow_effect r mark" for b r
    by (simp_all add: ow_fits_def ow_effect_def)
  ultimately show ?thesis by (simp add: ow_parse_rule_def Let_def)
qed

subsection \<open>Matching\<close>

lemma split_on_chars: "x \<in> set s \<Longrightarrow> x = c \<or> (\<exists>w \<in> set (split_on c s). x \<in> set w)"
proof (induction s)
  case (Cons y s)
  then show ?case by (cases "split_on c s") (auto split: if_splits)
qed simp

lemma all_some_None: "all_some xs = None \<longleftrightarrow> None \<in> set xs"
  by (induction xs rule: all_some.induct) auto

lemma v4_text_chars: "v4_text_ok s \<Longrightarrow> x \<in> set s \<Longrightarrow> x = CHR ''.'' \<or> is_digit x"
proof -
  assume v: "v4_text_ok s" and x: "x \<in> set s"
  obtain bs where "parse_v4 s = Some bs"
    using v by (auto simp: v4_text_ok_def parse_addr_def parse_v6_def is_v4_def Let_def split: option.splits list.splits if_splits prod.splits)
  then have "all_some (map v4_field (split_on CHR ''.'' s)) \<noteq> None" by (auto simp: parse_v4_def Let_def split: if_splits)
  then have "\<forall>w \<in> set (split_on CHR ''.'' s). list_all is_digit w"
    by (auto simp: all_some_None v4_field_def image_iff split: if_splits)
  then show ?thesis using split_on_chars [OF x, of "CHR ''.''"] by (auto simp: list_all_iff)
qed

text \<open>A packet of the question: its addresses and interface, and the membership the snapshot found.\<close>

definition packet_bound :: "ow_codec \<Rightarrow> net_question \<Rightarrow> ow_snapshot \<Rightarrow> (string \<Rightarrow> string set) \<Rightarrow> ow_packet \<Rightarrow> bool" where
  "packet_bound k q s sets pk \<longleftrightarrow>
     op_src pk = nb_address (binding (qu_source q)) \<and> op_dst pk = ow_target q \<and> op_iif pk = nb_ingress (binding (qu_source q))
     \<and> (op_src pk \<noteq> [] \<longrightarrow> hd (op_src pk) \<noteq> CHR ''@'')
     \<and> (\<forall>st. bound_set q = Some st \<and> sn_set_known s \<and> ow_set_supported k q s
          \<longrightarrow> (sn_set_member s \<longleftrightarrow> op_dst pk \<in> sets (ns_name st)))"

definition rule_plain :: "ow_rule \<Rightarrow> bool" where
  "rule_plain r \<longleftrightarrow> CHR ''/'' \<notin> set (or_source r) \<and> CHR ''/'' \<notin> set (or_destination r)"

lemma scanned_plain:
  "list_all part_plain xs \<Longrightarrow> rule_plain (fst st) \<Longrightarrow> rule_plain (scanned xs st)"
proof (induction xs arbitrary: st)
  case (Cons x xs)
  have "rule_plain (fst (ow_scan_part x st))"
    using Cons.prems by (cases "(x, st)" rule: ow_scan_part.cases) (auto simp: rule_plain_def part_plain_def Let_def)
  then show ?case using Cons by simp
qed simp

lemma parsed_plain: "list_all part_plain xs \<Longrightarrow> rule_plain (ow_parse_rule xs)"
  using scanned_plain [of xs "(ow_start_rule, {}, False)"]
  by (simp add: ow_parse_rule_def Let_def rule_plain_def ow_start_rule_def)

lemma split_last_None: "c \<notin> set s \<Longrightarrow> split_last c s = None"
  by (induction s) auto

lemma no_prefix: "CHR ''/'' \<notin> set s \<Longrightarrow> parse_prefix s = None"
  by (simp add: parse_prefix_def split_last_None)

lemma v4_text_plain: "v4_text_ok s \<Longrightarrow> s \<noteq> [] \<Longrightarrow> hd s \<noteq> CHR ''@''"
  using v4_text_chars [of s "hd s"] by (auto simp: is_digit_def byte_def)

lemma matches_known:
  assumes "packet_bound k q s sets pk" "rule_plain r" "ow_rule_matches k r q s = (b, True)"
  shows "or_valid r" "ow_fits sets r pk \<longleftrightarrow> b \<and> (or_oif_not r = [] \<or> op_oif pk \<noteq> or_oif_not r)"
proof -
  show v: "or_valid r" using assms(3) by (auto simp: ow_rule_matches_def split: if_splits)
  have plain: "parse_prefix (or_source r) = None" "parse_prefix (or_destination r) = None"
    using assms(2) by (simp_all add: rule_plain_def no_prefix)
  show "ow_fits sets r pk \<longleftrightarrow> b \<and> (or_oif_not r = [] \<or> op_oif pk \<noteq> or_oif_not r)"
    using assms(1,3) v plain v4_text_plain [of "or_source r"] v4_text_plain [of "or_destination r"]
    by (auto simp: ow_rule_matches_def source_matches_def destination_matches_def ow_same_address_def host_prefix_ok_def
        packet_bound_def ow_fits_def denotes_def split: if_splits option.splits)
qed

subsection \<open>The walk\<close>

abbreviation chain_prefix :: "net_chain \<Rightarrow> string" where
  "chain_prefix c \<equiv> nc_family c @ '':'' @ nc_table c @ '':''"

text \<open>
  The chains of the context are the ones the firewall has: their parsed rules are the rules \<open>kr\<close> of the
  chain, in the subset's form, and the key of a chain names it. No jump and no return depends on the
  output interface.
\<close>

definition chains_read :: "ow_context \<Rightarrow> (string \<Rightarrow> ow_part list list) \<Rightarrow> bool" where
  "chains_read e kr \<longleftrightarrow>
     (\<forall>(key, x) \<in> set (wc_chains e). key = chain_key (oc_bound x) \<and> openwrt_name (nc_table (oc_bound x))
        \<and> nc_family (oc_bound x) \<in> {''ip'', ''ip6'', ''inet''} \<and> openwrt_name (nc_chain (oc_bound x))
        \<and> list_all (\<lambda>r. or_action r \<in> {''return'', ''jump''} \<longrightarrow> or_oif_not r = []) (oc_rules x)
        \<and> (oc_valid x \<longrightarrow> oc_rules x = map ow_parse_rule (kr key) \<and> list_all (list_all part_plain) (kr key)))"

text \<open>No rule singles out another output interface than the packet's.\<close>

definition oif_open :: "ow_context \<Rightarrow> ow_packet \<Rightarrow> bool" where
  "oif_open e pk \<longleftrightarrow>
     (\<forall>(key, x) \<in> set (wc_chains e). \<forall>r \<in> set (oc_rules x). or_oif_not r = [] \<or> or_oif_not r = op_oif pk)"

definition mark_agrees :: "ow_walk \<Rightarrow> 32 word \<Rightarrow> bool" where
  "mark_agrees st m \<longleftrightarrow> (wk_mark_known st \<longrightarrow> m = of_nat (wk_mark st))"

lemma mark_agrees_simps [simp]:
  "mark_agrees (st\<lparr>wk_guard := b\<rparr>) m = mark_agrees st m" "mark_agrees (st\<lparr>wk_reached := X\<rparr>) m = mark_agrees st m"
  "mark_agrees (st\<lparr>wk_mark := n, wk_mark_known := True\<rparr>) m \<longleftrightarrow> m = of_nat n"
  by (simp_all add: mark_agrees_def)

definition predicts :: "ow_context \<Rightarrow> ow_packet \<Rightarrow> ow_verdict \<Rightarrow> ow_walk \<Rightarrow> (ow_verdict \<times> 32 word) option \<Rightarrow> bool" where
  "predicts e pk v st out \<longleftrightarrow>
     (\<exists>v' m. out = Some (v', m) \<and> (v' = v \<and> mark_agrees st m \<or> v' = OwDrop \<and> \<not> oif_open e pk))"

lemma no_colon: "openwrt_name s \<Longrightarrow> CHR '':'' \<notin> set s"
  by (cases s) (auto simp: openwrt_name_def list_all_iff is_alnum_def is_digit_def is_lower_def is_upper_def byte_def)

lemma cut_unique: "c \<notin> set a \<Longrightarrow> c \<notin> set a' \<Longrightarrow> a @ c # b = a' @ c # b' \<Longrightarrow> a = a' \<and> b = b'"
  by (induction a arbitrary: a') (case_tac a'; auto)+

lemma child_prefix:
  assumes "chains_read e kr" "(chain_key (oc_bound x), x) \<in> set (wc_chains e)" "child_chain e x t = Some y"
  shows "(chain_prefix (oc_bound x) @ t, y) \<in> set (wc_chains e)" "chain_prefix (oc_bound y) = chain_prefix (oc_bound x)"
    "chain_end y = OwReturn" "chain_key (oc_bound y) = chain_prefix (oc_bound x) @ t"
proof -
  show y: "(chain_prefix (oc_bound x) @ t, y) \<in> set (wc_chains e)"
    using assms(3) by (auto simp: child_chain_def split: option.splits if_splits dest: map_of_SomeD)
  show "chain_end y = OwReturn" using assms(3) by (auto simp: child_chain_def chain_end_def split: option.splits if_splits)
  show k: "chain_key (oc_bound y) = chain_prefix (oc_bound x) @ t" using assms(1) y by (auto simp: chains_read_def)
  have n: "CHR '':'' \<notin> set (nc_family (oc_bound x))" "CHR '':'' \<notin> set (nc_table (oc_bound x))"
    "CHR '':'' \<notin> set (nc_family (oc_bound y))" "CHR '':'' \<notin> set (nc_table (oc_bound y))"
    using assms(1,2) y no_colon by (auto simp: chains_read_def)
  have "nc_family (oc_bound y) = nc_family (oc_bound x)
      \<and> nc_table (oc_bound y) @ CHR '':'' # nc_chain (oc_bound y) = nc_table (oc_bound x) @ CHR '':'' # t"
    using cut_unique [OF n(3) n(1)] k by (simp add: chain_key_def)
  moreover from this have "nc_table (oc_bound y) = nc_table (oc_bound x)" using cut_unique [OF n(4) n(2)] by blast
  ultimately show "chain_prefix (oc_bound y) = chain_prefix (oc_bound x)" by simp
qed

lemma predicts_drop: "predicts e pk v st (Some (OwDrop, m)) \<longleftrightarrow> \<not> oif_open e pk \<or> v = OwDrop \<and> mark_agrees st m"
  by (auto simp: predicts_def)

lemma walk_predicts:
  assumes "packet_bound (wc_codec e) (wc_question e) (wc_snapshot e) sets pk" "chains_read e kr"
    and "(chain_key (oc_bound x), x) \<in> set (wc_chains e)" "rs = map ow_parse_rule ps" "list_all (list_all part_plain) ps"
      "set rs \<subseteq> set (oc_rules x)"
    and "walk_rules e levels stack x rs st = (Some v, st')" "mark_agrees st m"
  shows "predicts e pk v st' (kern_rules sets other kr (chain_prefix (oc_bound x)) pk levels (chain_end x) ps m)"
  using assms
proof (induction e levels stack x rs st arbitrary: ps v st' m rule: walk_rules.induct)
  case (1 e levels stack x st)
  then show ?case by (simp add: predicts_def)
next
  case (2 e levels stack x r rs st)
  note bound = "2.prems"(1) and read = "2.prems"(2) and x = "2.prems"(3) and walk = "2.prems"(7) and agree = "2.prems"(8)
  obtain p ps' where ps: "ps = p # ps'" and r: "r = ow_parse_rule p" and rs: "rs = map ow_parse_rule ps'"
    using "2.prems"(4) by (cases ps) auto
  have plain: "list_all part_plain p" "list_all (list_all part_plain) ps'" and rest: "set rs \<subseteq> set (oc_rules x)" "r \<in> set (oc_rules x)"
    using "2.prems"(5,6) by (simp_all add: ps)
  obtain b kn where mt: "ow_rule_matches (wc_codec e) r (wc_question e) (wc_snapshot e) = (b, kn)" by fastforce
  have kn: "kn" using walk by (cases kn; cases b) (simp_all add: mt)
  note known = matches_known [OF bound parsed_plain [OF plain(1)], folded r, of b]
  have fits: "ow_fits sets r pk \<longleftrightarrow> b \<and> (or_oif_not r = [] \<or> op_oif pk \<noteq> or_oif_not r)" and valid: "or_valid r"
    using known mt kn by simp_all
  have ex: "exec_parts sets other p pk m = (if ow_fits sets r pk then ow_effect r m else KernNext m)" for m
    using exec_parsed [of p sets other pk m] valid plain(1) by (simp add: r)
  have jr: "or_action r \<in> {''return'', ''jump''} \<longrightarrow> or_oif_not r = []"
    using read x rest(2) by (fastforce simp: chains_read_def list_all_iff)
  show ?case
  proof (cases b)
    case False
    have "walk_rules e levels stack x rs st = (Some v, st')" using walk by (simp add: mt kn False)
    from "2.IH"(4) [OF _ refl refl bound read x rs plain(2) rest(1) this agree] show ?thesis
      using mt kn False fits ex by (simp add: ps)
  next
    case True
    have mt1: "(True, True) = ow_rule_matches (wc_codec e) r (wc_question e) (wc_snapshot e)" using mt kn True by simp
    show ?thesis
    proof (cases "ow_turn_of e x r st")
      case (TurnNext st1)
      have w: "walk_rules e levels stack x rs st1 = (Some v, st')" using walk by (simp add: mt kn True TurnNext)
      have ih: "predicts e pk v st' (kern_rules sets other kr (chain_prefix (oc_bound x)) pk levels (chain_end x) ps' m1)"
        if "mark_agrees st1 m1" for m1
        by (rule "2.IH"(1) [OF mt1 refl refl TurnNext bound read x rs plain(2) rest(1) w that])
      consider (mark) "or_action r = ''mark''" "or_oif_not r = []" "st1 = st\<lparr>wk_mark := or_mark r, wk_mark_known := True\<rparr>"
        | (drop) "or_action r \<in> {''drop'', ''reject''}" "or_oif_not r \<noteq> []" "mark_agrees st1 m"
        using TurnNext agree by (auto simp: ow_turn_of_def Let_def split: if_splits)
      then show ?thesis
      proof cases
        case mark
        then show ?thesis using ih [of "of_nat (or_mark r)"] fits True ex by (simp add: ps ow_effect_def)
      next
        case drop
        show ?thesis
        proof (cases "op_oif pk = or_oif_not r")
          case True
          then show ?thesis using ih drop fits ex by (simp add: ps)
        next
          case False
          then have "\<not> oif_open e pk" using drop(2) x rest(2) by (force simp: oif_open_def)
          then show ?thesis using False fits True ex drop(1) by (auto simp: ps ow_effect_def predicts_def)
        qed
      qed
    next
      case (TurnEnd v1 st1)
      then have "v1 = v" "st1 = st'" using walk by (simp_all add: mt kn True)
      then show ?thesis using TurnEnd agree fits True ex jr
        by (auto simp: ps ow_turn_of_def ow_effect_def predicts_def chain_end_def Let_def split: if_splits)
    next
      case (TurnFail st1)
      then show ?thesis using walk by (simp add: mt kn True)
    next
      case (TurnJump t)
      then have a: "or_action r = ''jump''" "or_jump r = t" "or_oif_not r = []"
        using jr by (auto simp: ow_turn_of_def Let_def split: if_splits)
      obtain y n where y: "child_chain e x t = Some y" and n: "levels = Suc n"
        and ok: "chain_key (oc_bound y) \<notin> set stack" "oc_valid y"
        using walk by (auto simp: mt kn True TurnJump Let_def split: option.splits nat.splits if_splits)
      note c = child_prefix [OF read x y]
      let ?st = "st\<lparr>wk_reached := insert (chain_key (oc_bound y)) (wk_reached st)\<rparr>"
      obtain v1 st1 where w1: "walk_rules e n (chain_key (oc_bound y) # stack) y (oc_rules y) ?st = (v1, st1)" by fastforce
      obtain u where u: "v1 = Some u" using walk by (cases v1) (simp_all add: mt kn True TurnJump y n ok w1)
      have rules: "oc_rules y = map ow_parse_rule (kr (chain_prefix (oc_bound x) @ t))"
          "list_all (list_all part_plain) (kr (chain_prefix (oc_bound x) @ t))"
        using read c(1) ok(2) by (auto simp: chains_read_def)
      have yin: "(chain_key (oc_bound y), y) \<in> set (wc_chains e)" using c(1,4) by simp
      have "predicts e pk u st1 (kern_rules sets other kr (chain_prefix (oc_bound y)) pk n (chain_end y) (kr (chain_prefix (oc_bound x) @ t)) m)"
        by (rule "2.IH"(2) [OF mt1 refl refl TurnJump y refl n _ bound read yin rules(1,2) order_refl]) (use ok w1 u agree in simp_all)
      then have p1: "predicts e pk u st1
          (kern_rules sets other kr (chain_prefix (oc_bound x)) pk n OwReturn (kr (chain_prefix (oc_bound x) @ t)) m)"
        by (simp only: c(2,3))
      have cont: "predicts e pk v st' (kern_rules sets other kr (chain_prefix (oc_bound x)) pk levels (chain_end x) ps' m1)"
        if "u = OwReturn" "mark_agrees st1 m1" for m1
      proof -
        have "walk_rules e levels stack x rs st1 = (Some v, st')" using walk that(1) by (simp add: mt kn True TurnJump y n ok w1 u)
        with "2.IH"(3) [OF mt1 refl refl TurnJump y refl n _ _ refl refl bound read x rs plain(2) rest(1)] show ?thesis
          using ok w1 u that by simp
      qed
      have fin: "u \<noteq> OwReturn \<Longrightarrow> u = v \<and> st1 = st'"
        using walk by (cases u) (simp_all add: mt kn True TurnJump y n ok w1 u)
      show ?thesis
        using p1 cont fin fits True ex a
        by (cases u) (auto simp: ps n ow_effect_def predicts_def split: option.splits ow_verdict.splits)
    qed
  qed
qed

subsection \<open>The hooks\<close>

text \<open>The base chains of one hook in their order; a packet passes when none of them drops it.\<close>

definition kern_chain ::
    "(string \<Rightarrow> string set) \<Rightarrow> kern_other \<Rightarrow> (string \<Rightarrow> ow_part list list) \<Rightarrow> ow_packet \<Rightarrow> ow_chain \<Rightarrow> 32 word
     \<Rightarrow> (ow_verdict \<times> 32 word) option" where
  "kern_chain sets other kr pk x mark =
     kern_rules sets other kr (chain_prefix (oc_bound x)) pk 3 (chain_end x) (kr (chain_key (oc_bound x))) mark"

fun kern_hook ::
    "(string \<Rightarrow> string set) \<Rightarrow> kern_other \<Rightarrow> (string \<Rightarrow> ow_part list list) \<Rightarrow> ow_packet \<Rightarrow> ow_chain list \<Rightarrow> 32 word
     \<Rightarrow> (ow_verdict \<times> 32 word) option" where
  "kern_hook sets other kr pk [] mark = Some (OwAccept, mark)"
| "kern_hook sets other kr pk (x # xs) mark =
     (case kern_chain sets other kr pk x mark of
        None \<Rightarrow> None
      | Some (OwDrop, m) \<Rightarrow> Some (OwDrop, m)
      | Some (_, m) \<Rightarrow> kern_hook sets other kr pk xs m)"

lemma root_predicts:
  assumes "packet_bound (wc_codec e) (wc_question e) (wc_snapshot e) sets pk" "chains_read e kr"
    "(chain_key (oc_bound x), x) \<in> set (wc_chains e)" "walk_root e x st = (Some v, st')" "mark_agrees st m"
  shows "predicts e pk v st' (kern_chain sets other kr pk x m)"
proof -
  have "oc_valid x" using assms(4) by (auto simp: walk_root_def Let_def split: if_splits)
  then have r: "oc_rules x = map ow_parse_rule (kr (chain_key (oc_bound x)))" "list_all (list_all part_plain) (kr (chain_key (oc_bound x)))"
    using assms(2,3) by (auto simp: chains_read_def)
  have w: "walk_rules e 3 [chain_key (oc_bound x)] x (oc_rules x)
      (st\<lparr>wk_reached := insert (chain_key (oc_bound x)) (wk_reached st)\<rparr>) = (Some v, st')"
    using assms(4) \<open>oc_valid x\<close> by (simp add: walk_root_def Let_def)
  show ?thesis unfolding kern_chain_def
    by (rule walk_predicts [OF assms(1,2,3) r order_refl w]) (simp add: assms(5))
qed

text \<open>Outside of the classifying chains the walk leaves the mark alone.\<close>

lemma walk_keeps_mark:
  "walk_rules e levels stack x rs st = (v, st') \<Longrightarrow> nc_role (oc_bound x) \<noteq> ''classifier''
   \<Longrightarrow> wk_mark st' = wk_mark st \<and> wk_mark_known st' = wk_mark_known st"
proof (induction e levels stack x rs st arbitrary: v st' rule: walk_rules.induct)
  case (2 e levels stack x r rs st)
  obtain b kn where mt: "ow_rule_matches (wc_codec e) r (wc_question e) (wc_snapshot e) = (b, kn)" by fastforce
  note walk = "2.prems"(1) and role = "2.prems"(2)
  consider (unknown) "\<not> kn" | (other) "\<not> b" "kn" | (match) "b" "kn" by blast
  then show ?case
  proof cases
    case unknown
    then show ?thesis using walk by (cases b) (simp_all add: mt)
  next
    case other
    then have "walk_rules e levels stack x rs st = (v, st')" using walk by (simp add: mt)
    from "2.IH"(4) [OF _ refl refl this role] show ?thesis using other mt by simp
  next
    case match
    have mt1: "(True, True) = ow_rule_matches (wc_codec e) r (wc_question e) (wc_snapshot e)" using mt match by simp
    show ?thesis
    proof (cases "ow_turn_of e x r st")
      case (TurnNext st1)
      then have "wk_mark st1 = wk_mark st" "wk_mark_known st1 = wk_mark_known st"
        using role by (auto simp: ow_turn_of_def Let_def split: if_splits)
      moreover have "walk_rules e levels stack x rs st1 = (v, st')" using walk match by (simp add: mt TurnNext)
      ultimately show ?thesis using "2.IH"(1) [OF mt1 refl refl TurnNext _ role] by metis
    next
      case (TurnEnd v1 st1)
      then show ?thesis using walk match by (auto simp: mt ow_turn_of_def Let_def split: if_splits)
    next
      case (TurnFail st1)
      then show ?thesis using walk match by (auto simp: mt ow_turn_of_def Let_def split: if_splits)
    next
      case (TurnJump t)
      show ?thesis
      proof (cases "child_chain e x t")
        case None
        then show ?thesis using walk match by (simp add: mt TurnJump)
      next
        case (Some y)
        have ry: "nc_role (oc_bound y) \<noteq> ''classifier''" using Some role by (auto simp: child_chain_def split: option.splits if_splits)
        show ?thesis
        proof (cases "levels = 0 \<or> chain_key (oc_bound y) \<in> set stack \<or> \<not> oc_valid y")
          case True
          then show ?thesis using walk match by (cases levels) (auto simp: mt TurnJump Some Let_def)
        next
          case False
          then obtain n where n: "levels = Suc n" by (cases levels) auto
          obtain v1 st1 where w1: "walk_rules e n (chain_key (oc_bound y) # stack) y (oc_rules y)
              (st\<lparr>wk_reached := insert (chain_key (oc_bound y)) (wk_reached st)\<rparr>) = (v1, st1)" by fastforce
          have k1: "wk_mark st1 = wk_mark st" "wk_mark_known st1 = wk_mark_known st"
            using "2.IH"(2) [OF mt1 refl refl TurnJump Some refl n _ w1 ry] False by simp_all
          have k2: "wk_mark st' = wk_mark st1 \<and> wk_mark_known st' = wk_mark_known st1" if "v1 = Some OwReturn"
          proof -
            have "walk_rules e levels stack x rs st1 = (v, st')" using walk match False that by (simp add: mt TurnJump Some n w1)
            then show ?thesis
              using "2.IH"(3) [OF mt1 refl refl TurnJump Some refl n _ _ refl refl _ role] False w1 that by simp
          qed
          have "st' = st1" if "v1 \<noteq> Some OwReturn"
          proof (cases v1)
            case None
            then show ?thesis using walk match False by (simp add: mt TurnJump Some n w1)
          next
            case (Some u)
            then show ?thesis using walk match False that
              by (cases u) (simp_all add: mt TurnJump \<open>child_chain e x t = Some y\<close> n w1)
          qed
          then show ?thesis using k1 k2 by (cases "v1 = Some OwReturn") simp_all
        qed
      qed
    qed
  qed
qed simp

lemma root_keeps_mark:
  "walk_root e x st = (v, st') \<Longrightarrow> nc_role (oc_bound x) \<noteq> ''classifier'' \<Longrightarrow> mark_agrees st' m = mark_agrees st m"
  by (auto simp: walk_root_def mark_agrees_def Let_def split: if_splits dest!: walk_keeps_mark)

definition classifying :: "ow_chain list \<Rightarrow> ow_chain list" where
  "classifying = filter (\<lambda>x. nc_role (oc_bound x) = ''classifier'')"

lemma classify_predicts:
  assumes "packet_bound (wc_codec e) (wc_question e) (wc_snapshot e) sets pk" "chains_read e kr" "oif_open e pk"
    "\<forall>x \<in> set xs. (chain_key (oc_bound x), x) \<in> set (wc_chains e)"
    "classify e xs ok st = (True, st')" "wk_mark_known st'" "mark_agrees st m"
  shows "kern_hook sets other kr pk (classifying xs) m = Some (OwAccept, of_nat (wk_mark st'))"
  using assms(4-7)
proof (induction xs arbitrary: ok st m)
  case Nil
  then show ?case by (simp add: classifying_def mark_agrees_def)
next
  case (Cons x xs)
  show ?case
  proof (cases "nc_role (oc_bound x) = ''classifier''")
    case False
    then show ?thesis using Cons.IH [of ok st m] Cons.prems by (simp add: classifying_def)
  next
    case True
    have fails: "classify e ys False t = (True, st') \<Longrightarrow> False" for ys t
      by (induction ys arbitrary: t) (auto split: if_splits prod.splits option.splits ow_verdict.splits)
    obtain r st1 where w: "walk_root e x st = (r, st1)" by fastforce
    have hook: "nc_hook (oc_bound x) = ''prerouting''" using Cons.prems(2) True fails by (auto split: if_splits)
    obtain v where v: "r = Some v" "v \<noteq> OwDrop" and c: "classify e xs ok st1 = (True, st')"
      using Cons.prems(2,3) True hook w by (cases r; cases "the r") auto
    have "predicts e pk v st1 (kern_chain sets other kr pk x m)"
      using root_predicts [OF assms(1,2) _ _ Cons.prems(4), of x v st1 other] Cons.prems(1) w v(1) by simp
    then obtain m1 where "kern_chain sets other kr pk x m = Some (v, m1)" "mark_agrees st1 m1"
      using assms(3) by (auto simp: predicts_def)
    then show ?thesis using Cons.IH [OF _ c Cons.prems(3), of m1] Cons.prems(1) True v(2) by (cases v) (simp_all add: classifying_def)
  qed
qed

text \<open>A forwarding root that the walk sees drop does drop; when no rule asks for another interface, the others pass.\<close>

lemma forward_predicts:
  assumes "packet_bound (wc_codec e) (wc_question e) (wc_snapshot e) sets pk" "chains_read e kr"
    "\<forall>x \<in> set xs. (chain_key (oc_bound x), x) \<in> set (wc_chains e)"
    "forward_roots e xs (ok, seen, allowed) st = ((True, seen', allowed'), st')" "mark_agrees st m"
  shows "(\<not> allowed' \<longrightarrow> \<not> allowed \<or> (\<exists>x \<in> set xs. nc_role (oc_bound x) = ''forwarding'' \<and> (\<exists>m'. kern_chain sets other kr pk x m = Some (OwDrop, m'))))
    \<and> (allowed' \<and> oif_open e pk \<longrightarrow> (\<forall>x \<in> set xs. nc_role (oc_bound x) = ''forwarding''
         \<longrightarrow> (\<exists>v m'. kern_chain sets other kr pk x m = Some (v, m') \<and> v \<noteq> OwDrop)))
    \<and> (allowed' \<longrightarrow> allowed)"
  using assms(3-5)
proof (induction xs arbitrary: ok seen allowed st)
  case (Cons x xs)
  have fails: "forward_roots e ys (False, s, a) t = ((True, seen', allowed'), st') \<Longrightarrow> False" for ys s a t
    by (induction ys arbitrary: s a t) (auto split: if_splits prod.splits option.splits)
  show ?case
  proof (cases "nc_role (oc_bound x) = ''classifier''")
    case True
    then show ?thesis using Cons.IH [of ok seen allowed st] Cons.prems by simp
  next
    case False
    obtain r st1 where w: "walk_root e x st = (r, st1)" by fastforce
    obtain v where v: "r = Some v" and hook: "nc_hook (oc_bound x) = ''forward''"
      using Cons.prems(2) False fails by (cases r) (auto simp: w split: if_splits)
    have p: "predicts e pk v st1 (kern_chain sets other kr pk x m)"
      using root_predicts [OF assms(1,2) _ _ Cons.prems(3), of x v st1 other] Cons.prems(1) w v by simp
    have agree: "mark_agrees st1 m" using root_keeps_mark [OF w False] Cons.prems(3) by simp
    show ?thesis
    proof (cases "nc_role (oc_bound x) = ''forwarding''")
      case True
      have "forward_roots e xs (ok, True, allowed \<and> v \<noteq> OwDrop) st1 = ((True, seen', allowed'), st')"
        using Cons.prems(2) True hook by (simp add: w v)
      from Cons.IH [OF _ this agree] Cons.prems(1) p show ?thesis
        using True by (auto simp: predicts_def)
    next
      case False
      have "forward_roots e xs (ok, seen, allowed) st1 = ((True, seen', allowed'), st')"
        using Cons.prems(2) False \<open>nc_role (oc_bound x) \<noteq> ''classifier''\<close> hook by (simp add: w v)
      from Cons.IH [OF _ this agree] Cons.prems(1) show ?thesis using False by auto
    qed
  qed
qed simp

end
