(* ===== verification/OwEvidence.thy ===== *)
theory OwEvidence
  imports OwSound
begin

text \<open>
  The evidence of a snapshot (\<open>normalizeOpenWrt\<close> of \<open>openwrt.go\<close>) against the firewall: the mark and the
  verdict it states are the ones the listed rules give the packet.
\<close>

subsection \<open>The evidence\<close>

text \<open>The rules of a bound chain as \<open>nft\<close> listed them.\<close>

definition chain_body :: "ow_codec \<Rightarrow> ow_snapshot \<Rightarrow> string \<Rightarrow> ow_entry list option" where
  "chain_body k s key = ow_chain_of k (case map_of (sn_chains s) key of None \<Rightarrow> [] | Some v \<Rightarrow> v)"

definition body_rules :: "ow_entry list option \<Rightarrow> ow_part list list" where
  "body_rules body =
     (case body of
        None \<Rightarrow> []
      | Some es \<Rightarrow> concat (map (\<lambda>x. case x of EntryRule (Some r) \<Rightarrow> [oe_expr r] | _ \<Rightarrow> []) es))"

definition listed_rules :: "ow_codec \<Rightarrow> ow_snapshot \<Rightarrow> string \<Rightarrow> ow_part list list" where
  "listed_rules k s key = body_rules (chain_body k s key)"

text \<open>Every address is a single one, and no jump and no return depends on the output interface.\<close>

definition rules_plain :: "ow_codec \<Rightarrow> ow_snapshot \<Rightarrow> net_openwrt \<Rightarrow> bool" where
  "rules_plain k s b \<longleftrightarrow>
     list_all (\<lambda>c. list_all (\<lambda>p. list_all part_plain p
         \<and> (or_action (ow_parse_rule p) \<in> {''return'', ''jump''} \<longrightarrow> or_oif_not (ow_parse_rule p) = []))
       (listed_rules k s (chain_key c))) (ow_chains b)"

text \<open>No rule singles out another output interface than the packet's.\<close>

definition leaves_free :: "ow_codec \<Rightarrow> ow_snapshot \<Rightarrow> net_openwrt \<Rightarrow> ow_packet \<Rightarrow> bool" where
  "leaves_free k s b pk \<longleftrightarrow>
     list_all (\<lambda>c. list_all (\<lambda>p. or_oif_not (ow_parse_rule p) \<in> {[], op_oif pk}) (listed_rules k s (chain_key c))) (ow_chains b)"

lemma scan_entries:
  "fold (ow_scan_entry c) es (x, n) = (y, m) \<Longrightarrow>
     (oc_valid y \<longrightarrow> oc_valid x \<and> oc_rules y = oc_rules x @ map ow_parse_rule (body_rules (Some es)))
     \<and> set (oc_rules y) \<subseteq> set (oc_rules x) \<union> ow_parse_rule ` set (body_rules (Some es))
     \<and> oc_bound y = oc_bound x"
proof (induction es arbitrary: x n)
  case Nil
  then show ?case by (simp add: body_rules_def)
next
  case (Cons e es)
  obtain x1 n1 where e: "ow_scan_entry c e (x, n) = (x1, n1)" by fastforce
  have "fold (ow_scan_entry c) es (x1, n1) = (y, m)" using Cons.prems e by simp
  note ih = Cons.IH [OF this]
  consider r where "e = EntryRule (Some r)" | "\<forall>r. e \<noteq> EntryRule (Some r)" by blast
  then show ?case
  proof cases
    case (1 r)
    have "body_rules (Some (e # es)) = oe_expr r # body_rules (Some es)" by (simp add: 1 body_rules_def)
    then show ?thesis using ih e by (auto simp: 1 split: if_splits)
  next
    case 2
    then have "body_rules (Some (e # es)) = body_rules (Some es)"
      by (cases e) (auto simp: body_rules_def split: option.splits)
    then show ?thesis using ih e 2 by (cases e) (auto split: option.splits)
  qed
qed

lemma parsed_chain:
  "oc_valid (ow_parse_chain c body) \<Longrightarrow> oc_rules (ow_parse_chain c body) = map ow_parse_rule (body_rules body)"
  "set (oc_rules (ow_parse_chain c body)) \<subseteq> ow_parse_rule ` set (body_rules body)"
  "oc_bound (ow_parse_chain c body) = c"
proof -
  let ?x = "\<lparr>oc_bound = c, oc_policy = [], oc_rules = [], oc_valid = True\<rparr>"
  have s: "oc_valid y \<longrightarrow> oc_rules y = map ow_parse_rule (body_rules (Some es))"
    "set (oc_rules y) \<subseteq> ow_parse_rule ` set (body_rules (Some es))" "oc_bound y = c"
    if "fold (ow_scan_entry c) es (?x, 0) = (y, m)" for es y m
    using scan_entries [OF that] by auto
  show "oc_valid (ow_parse_chain c body) \<Longrightarrow> oc_rules (ow_parse_chain c body) = map ow_parse_rule (body_rules body)"
    "set (oc_rules (ow_parse_chain c body)) \<subseteq> ow_parse_rule ` set (body_rules body)"
    "oc_bound (ow_parse_chain c body) = c"
    using s by (auto simp: ow_parse_chain_def Let_def split: option.splits if_splits prod.splits)
qed

lemma bound_chains_key: "(key, x) \<in> set (bound_chains k s b) \<longleftrightarrow>
  (\<exists>c \<in> set (ow_chains b). key = chain_key c \<and> x = ow_parse_chain c (chain_body k s (chain_key c)))"
  by (auto simp: bound_chains_def chain_body_def image_iff)

lemma chains_read_listed:
  assumes "wc_chains e = bound_chains k s b" "rules_plain k s b" "list_all chain_ok (ow_chains b)"
  shows "chains_read e (listed_rules k s)"
proof -
  have "chain_ok c \<and> list_all (\<lambda>r. or_action r \<in> {''return'', ''jump''} \<longrightarrow> or_oif_not r = [])
      (oc_rules (ow_parse_chain c (chain_body k s (chain_key c))))
    \<and> list_all (list_all part_plain) (listed_rules k s (chain_key c))" if "c \<in> set (ow_chains b)" for c
  proof -
    have p: "list_all (\<lambda>p. list_all part_plain p
        \<and> (or_action (ow_parse_rule p) \<in> {''return'', ''jump''} \<longrightarrow> or_oif_not (ow_parse_rule p) = []))
      (listed_rules k s (chain_key c))" and ok: "chain_ok c"
      using assms(2,3) that by (simp_all add: rules_plain_def list_all_iff)
    have "list_all (\<lambda>r. or_action r \<in> {''return'', ''jump''} \<longrightarrow> or_oif_not r = []) (oc_rules (ow_parse_chain c (chain_body k s (chain_key c))))"
      using parsed_chain(2) [of c "chain_body k s (chain_key c)"] p unfolding list_all_iff listed_rules_def by blast
    then show ?thesis using p ok by (auto simp: list_all_iff)
  qed
  note good = this
  show ?thesis unfolding chains_read_def assms(1)
  proof clarify
    fix key x assume "(key, x) \<in> set (bound_chains k s b)"
    then obtain c where c: "c \<in> set (ow_chains b)" "key = chain_key c" "x = ow_parse_chain c (chain_body k s (chain_key c))"
      by (auto simp: bound_chains_key)
    show "key = chain_key (oc_bound x) \<and> openwrt_name (nc_table (oc_bound x)) \<and> nc_family (oc_bound x) \<in> {''ip'', ''ip6'', ''inet''}
        \<and> openwrt_name (nc_chain (oc_bound x)) \<and> list_all (\<lambda>r. or_action r \<in> {''return'', ''jump''} \<longrightarrow> or_oif_not r = []) (oc_rules x)
        \<and> (oc_valid x \<longrightarrow> oc_rules x = map ow_parse_rule (listed_rules k s key) \<and> list_all (list_all part_plain) (listed_rules k s key))"
      using good [OF c(1)] parsed_chain(1) by (simp only: c(2,3) parsed_chain(3) chain_ok_def listed_rules_def) simp
  qed
qed

lemma oif_open_listed:
  assumes "wc_chains e = bound_chains k s b" "leaves_free k s b pk"
  shows "oif_open e pk"
  unfolding oif_open_def assms(1)
proof clarify
  fix key x r assume x: "(key, x) \<in> set (bound_chains k s b)" and r: "r \<in> set (oc_rules x)" "or_oif_not r \<noteq> op_oif pk"
  obtain c where c: "c \<in> set (ow_chains b)" "x = ow_parse_chain c (chain_body k s (chain_key c))"
    using x by (auto simp: bound_chains_key)
  obtain p where "p \<in> set (listed_rules k s (chain_key c))" "r = ow_parse_rule p"
    using parsed_chain(2) [of c "chain_body k s (chain_key c)"] r(1) c(2) unfolding listed_rules_def by blast
  then show "or_oif_not r = []" using assms(2) c(1) r(2) by (auto simp: leaves_free_def list_all_iff)
qed

lemma sorted_roots_set:
  "x \<in> set (sorted_roots (bound_chains k s b)) \<Longrightarrow> (chain_key (oc_bound x), x) \<in> set (bound_chains k s b)"
proof -
  assume "x \<in> set (sorted_roots (bound_chains k s b))"
  then have "x \<in> snd ` set (bound_chains k s b)"
    by (auto simp: sorted_roots_def simp flip: set_mset_mset simp: sort_by_mset)
  then show ?thesis by (force simp: bound_chains_key parsed_chain(3))
qed

text \<open>The context of the walks.\<close>

definition evidence_context :: "ow_codec \<Rightarrow> net_question \<Rightarrow> ow_snapshot \<Rightarrow> net_openwrt \<Rightarrow> bool \<Rightarrow> ow_context" where
  "evidence_context k q s b source =
     \<lparr>wc_codec = k, wc_question = q, wc_snapshot = s, wc_chains = bound_chains k s b, wc_source_logical = source,
      wc_bound_vpn = vpn_bound q\<rparr>"

lemma classify_fails: "classify e xs False st = (True, st') \<Longrightarrow> False"
  by (induction xs arbitrary: st) (auto split: if_splits prod.splits option.splits ow_verdict.splits)

lemma forward_fails: "forward_roots e xs (False, s, a) st = ((True, seen', allowed'), st') \<Longrightarrow> False"
  by (induction xs arbitrary: s a st) (auto split: if_splits prod.splits option.splits)

lemma evaluate_chains_cases:
  assumes "evaluate_chains k q s b n0 = n" "\<not> ev_mark_known n0"
  obtains ok1 st1 ok2 ok3 seen allowed st2 where
    "classify (evidence_context k q s b (ev_source_logical n0)) (sorted_roots (bound_chains k s b)) (chains_supported (bound_chains k s b)) start_walk = (ok1, st1)"
    "forward_roots (evidence_context k q s b (ev_source_logical n0)) (sorted_roots (bound_chains k s b)) (ok2, False, True) st1 = ((ok3, seen, allowed), st2)"
    "ok2 \<longrightarrow> ok1" "ev_mark_known n \<longleftrightarrow> ok1 \<and> wk_mark_known st1" "ev_mark_known n \<longrightarrow> ev_mark n = wk_mark st1"
    "\<And>v. ev_forwarding n = Some v \<Longrightarrow> seen \<and> ok3 \<and> v = allowed"
proof -
  let ?e = "evidence_context k q s b (ev_source_logical n0)" and ?roots = "sorted_roots (bound_chains k s b)"
  obtain ok1 st1 where c: "classify ?e ?roots (chains_supported (bound_chains k s b)) start_walk = (ok1, st1)" by fastforce
  define dev where "dev = (if ok1 \<and> wk_mark_known st1 then ow_route_policy k q s (of_nat (wk_mark st1)) else None)"
  define ok2 where "ok2 = (ok1 \<and> (ok1 \<and> wk_mark_known st1 \<longrightarrow> dev \<noteq> None))"
  obtain ok3 seen allowed st2 where f: "forward_roots ?e ?roots (ok2, False, True) st1 = ((ok3, seen, allowed), st2)"
    by (metis prod.exhaust)
  have n: "ev_mark_known n \<longleftrightarrow> ok1 \<and> wk_mark_known st1" "ev_mark_known n \<longrightarrow> ev_mark n = wk_mark st1"
    "ev_forwarding n = (if seen \<and> ok3 \<and> list_all (\<lambda>(key, _). key \<in> wk_reached st2) (bound_chains k s b) then Some allowed else None)"
    by (cases "ok1 \<and> wk_mark_known st1";
        use assms c f in \<open>force simp: evaluate_chains_def evidence_context_def Let_def ok2_def dev_def\<close>)+
  show ?thesis by (rule that [OF c f _ n(1,2)]) (auto simp: ok2_def n(3) split: if_splits)
qed

lemma evaluate_chains_sound:
  assumes ev: "evaluate_chains k q s b n0 = n" "\<not> ev_mark_known n0"
    and plain: "rules_plain k s b" "list_all chain_ok (ow_chains b)" and pk: "packet_bound k q s sets pk"
  defines "roots \<equiv> sorted_roots (bound_chains k s b)" and "kr \<equiv> listed_rules k s"
  shows "(ev_mark_known n \<and> leaves_free k s b pk \<longrightarrow> kern_hook sets other kr pk (classifying roots) m0 = Some (OwAccept, of_nat (ev_mark n)))
    \<and> (ev_forwarding n = Some False \<longrightarrow> (ev_mark_known n \<longrightarrow> m = of_nat (ev_mark n)) \<longrightarrow>
         (\<exists>x \<in> set roots. nc_role (oc_bound x) = ''forwarding'' \<and> (\<exists>m'. kern_chain sets other kr pk x m = Some (OwDrop, m'))))
    \<and> (ev_forwarding n = Some True \<and> leaves_free k s b pk \<longrightarrow> (ev_mark_known n \<longrightarrow> m = of_nat (ev_mark n)) \<longrightarrow>
         (\<forall>x \<in> set roots. nc_role (oc_bound x) = ''forwarding'' \<longrightarrow> (\<exists>v m'. kern_chain sets other kr pk x m = Some (v, m') \<and> v \<noteq> OwDrop)))"
proof -
  let ?e = "evidence_context k q s b (ev_source_logical n0)"
  obtain ok1 st1 ok2 ok3 seen allowed st2 where c: "classify ?e roots (chains_supported (bound_chains k s b)) start_walk = (ok1, st1)"
    and f: "forward_roots ?e roots (ok2, False, True) st1 = ((ok3, seen, allowed), st2)" and ok: "ok2 \<longrightarrow> ok1"
    and n: "ev_mark_known n \<longleftrightarrow> ok1 \<and> wk_mark_known st1" "ev_mark_known n \<longrightarrow> ev_mark n = wk_mark st1"
    and fwd: "\<And>v. ev_forwarding n = Some v \<Longrightarrow> seen \<and> ok3 \<and> v = allowed"
    unfolding roots_def by (rule evaluate_chains_cases [OF ev]) blast
  have cs: "wc_chains ?e = bound_chains k s b" by (simp add: evidence_context_def)
  have bound: "packet_bound (wc_codec ?e) (wc_question ?e) (wc_snapshot ?e) sets pk" using pk by (simp add: evidence_context_def)
  have read: "chains_read ?e kr" unfolding kr_def by (rule chains_read_listed [OF cs plain])
  have keys: "\<forall>x \<in> set roots. (chain_key (oc_bound x), x) \<in> set (wc_chains ?e)" unfolding cs roots_def using sorted_roots_set by blast
  have free: "leaves_free k s b pk \<Longrightarrow> oif_open ?e pk" by (rule oif_open_listed [OF cs])
  have mark: "kern_hook sets other kr pk (classifying roots) m0 = Some (OwAccept, of_nat (ev_mark n))"
    if "ev_mark_known n" "leaves_free k s b pk"
    using classify_predicts [OF bound read free [OF that(2)] keys, of "chains_supported (bound_chains k s b)" start_walk st1 m0 other] c n that(1)
    by (simp add: start_walk_def mark_agrees_def)
  have hook: "(\<not> allowed \<longrightarrow> (\<exists>x \<in> set roots. nc_role (oc_bound x) = ''forwarding'' \<and> (\<exists>m'. kern_chain sets other kr pk x m = Some (OwDrop, m'))))
    \<and> (allowed \<and> oif_open ?e pk \<longrightarrow> (\<forall>x \<in> set roots. nc_role (oc_bound x) = ''forwarding''
         \<longrightarrow> (\<exists>v m'. kern_chain sets other kr pk x m = Some (v, m') \<and> v \<noteq> OwDrop)))"
    if "ok3" "ev_mark_known n \<longrightarrow> m = of_nat (ev_mark n)"
  proof -
    have "ok2" using f that(1) forward_fails [of ?e roots False True st1 seen allowed st2] by (cases ok2) auto
    then have "mark_agrees st1 m" using ok n that(2) by (simp add: mark_agrees_def)
    from forward_predicts [OF bound read keys _ this, of ok2 False True seen allowed st2 other] show ?thesis using f that(1) by simp
  qed
  show ?thesis using mark hook fwd free by blast
qed

lemma bound_chains_ok:
  "valid_openwrt x \<Longrightarrow> nb_openwrt (binding x) = Some b \<Longrightarrow> list_all chain_ok (ow_chains b)"
  by (auto simp: valid_openwrt_def split: if_splits)

lemma normalize_openwrt_cases:
  assumes "normalize_openwrt k q s now1 now2 = n" "nb_openwrt (binding (qu_gateway q)) = Some b"
  shows "\<not> ev_mark_known n \<and> ev_forwarding n = None
    \<or> list_all chain_ok (ow_chains b) \<and> (\<exists>n0. evaluate_chains k q s b n0 = n \<and> \<not> ev_mark_known n0)"
proof -
  have ok: "snapshot_in_scope k q s now1 now2 \<Longrightarrow> list_all chain_ok (ow_chains b)"
    using bound_chains_ok [OF _ assms(2)] by (simp add: snapshot_in_scope_def)
  have failed: "\<not> ev_mark_known (fail_evidence c m) \<and> ev_forwarding (fail_evidence c m) = None"
    if "\<not> ev_mark_known m" "ev_forwarding m = None" for c m
    using that by (simp add: fail_evidence_def)
  have new: "\<not> ev_mark_known (start_evidence k s)" "ev_forwarding (start_evidence k s) = None"
    by (simp_all add: start_evidence_def)
  show ?thesis
  proof (cases "snapshot_in_scope k q s now1 now2")
    case False
    then show ?thesis using assms(1) failed [OF new] by (auto simp: normalize_openwrt_def Let_def)
  next
    case True
    show ?thesis
    proof (cases "ow_logical_of k (sn_logical s)")
      case None
      then show ?thesis using assms failed [OF new] True by (auto simp: normalize_openwrt_def Let_def)
    next
      case (Some l)
      obtain up device addresses where l: "l = (up, device, addresses)" by (metis prod.exhaust)
      define n1 where "n1 = (start_evidence k s)\<lparr>ev_logical := True, ev_source_logical := source_logical q b device\<rparr>"
      have n1: "\<not> ev_mark_known n1" "ev_forwarding n1 = None" using new by (simp_all add: n1_def)
      have "n = (let g = binding (qu_gateway q) in
          if \<not> up \<or> device \<noteq> nb_interface g then fail_evidence ''openwrt_logical_binding'' (start_evidence k s)
          else if nb_address g \<notin> set addresses then fail_evidence ''openwrt_address_binding'' (start_evidence k s)
          else if ow_profile b \<noteq> ''fw4-basic'' \<and> ow_profile b \<noteq> ''gl-policy-fw4'' then fail_evidence ''openwrt_profile_unsupported'' n1
          else if \<not> v4_text_ok (ow_target q) then fail_evidence ''openwrt_family_unsupported'' n1
          else evaluate_chains k q s b n1)"
        unfolding assms(1) [symmetric] normalize_openwrt_def n1_def Let_def by (simp add: assms(2) True Some l)
      then have "n = evaluate_chains k q s b n1 \<or> (\<exists>c m. n = fail_evidence c m \<and> m \<in> {start_evidence k s, n1})"
        unfolding Let_def by (metis insertCI)
      then show ?thesis
      proof
        assume "n = evaluate_chains k q s b n1"
        then show ?thesis using ok [OF True] n1(1) by auto
      next
        assume "\<exists>c m. n = fail_evidence c m \<and> m \<in> {start_evidence k s, n1}"
        then show ?thesis using failed [OF new] failed [OF n1] by auto
      qed
    qed
  qed
qed

text \<open>
  (C38) What the reader says of a bound packet is what the firewall does with it, when the rules are
  plain (\<open>rules_plain\<close>: single addresses and no prefixes, and no jump and no return that depends on the
  output interface). For the rules as \<open>nft\<close> listed them, with jumps, returns, marks and verdicts as
  nftables has them and any meaning of the statements outside of the subset: the mark it reports is the
  one the classifying chains leave on the packet, which they let pass; when it reports that forwarding is
  denied, a forwarding hook drops the packet; when it reports that it is allowed, no hook of a chain
  bound as forwarding drops it. The mark and the permission also need that no rule asks for another
  output interface than the packet's (\<open>leaves_free\<close>). Chains bound as guards are not part of the
  permission (\<open>guard_drop_uncounted\<close>), and without plain rules it can be wrong (\<open>jump_interface_missed\<close>).
\<close>

theorem openwrt_evidence_sound:
  assumes n: "normalize_openwrt k q s now1 now2 = n" and b: "nb_openwrt (binding (qu_gateway q)) = Some b"
    and plain: "rules_plain k s b" and pk: "packet_bound k q s sets pk"
    and roots: "roots = sorted_roots (bound_chains k s b)" and m: "ev_mark_known n \<longrightarrow> m = of_nat (ev_mark n)"
  shows "(ev_mark_known n \<and> leaves_free k s b pk \<longrightarrow>
        kern_hook sets other (listed_rules k s) pk (classifying roots) m0 = Some (OwAccept, of_nat (ev_mark n)))
    \<and> (ev_forwarding n = Some False \<longrightarrow>
        (\<exists>x \<in> set roots. nc_role (oc_bound x) = ''forwarding'' \<and> (\<exists>m'. kern_chain sets other (listed_rules k s) pk x m = Some (OwDrop, m'))))
    \<and> (ev_forwarding n = Some True \<and> leaves_free k s b pk \<longrightarrow>
        (\<forall>x \<in> set roots. nc_role (oc_bound x) = ''forwarding''
           \<longrightarrow> (\<exists>v m'. kern_chain sets other (listed_rules k s) pk x m = Some (v, m') \<and> v \<noteq> OwDrop)))"
  using normalize_openwrt_cases [OF n b]
proof
  assume "\<not> ev_mark_known n \<and> ev_forwarding n = None"
  then show ?thesis by simp
next
  assume "list_all chain_ok (ow_chains b) \<and> (\<exists>n0. evaluate_chains k q s b n0 = n \<and> \<not> ev_mark_known n0)"
  then obtain n0 where "list_all chain_ok (ow_chains b)" "evaluate_chains k q s b n0 = n" "\<not> ev_mark_known n0" by blast
  from evaluate_chains_sound [OF this(2,3) plain this(1) pk, of other m0 m] m show ?thesis unfolding roots by blast
qed

text \<open>A gateway with two chains: one marks what the source sends to the target, one drops it.\<close>

definition sample_pre :: net_chain where
  "sample_pre = \<lparr>nc_family = ''ip'', nc_table = ''mangle'', nc_chain = ''pre'', nc_role = ''classifier'', nc_hook = ''prerouting'',
     nc_priority = Some 0\<rparr>"

definition sample_fwd :: net_chain where
  "sample_fwd = \<lparr>nc_family = ''ip'', nc_table = ''filter'', nc_chain = ''fwd'', nc_role = ''forwarding'', nc_hook = ''forward'',
     nc_priority = Some 0\<rparr>"

definition ow_openwrt_sample :: "net_chain list \<Rightarrow> net_openwrt" where
  "ow_openwrt_sample cs = \<lparr>ow_logical = ''lan'', ow_profile = ''fw4-basic'', ow_chains = cs, ow_set = None, ow_stored = []\<rparr>"

definition ow_question_sample :: "net_chain list \<Rightarrow> net_question" where
  "ow_question_sample cs =
     (let gw = no_object\<lparr>no_ref_of := \<lparr>nr_id = ''gw'', nr_rev = 1\<rparr>, no_kind := KindGateway,
                 no_binding_of := no_binding\<lparr>nb_context := ''ctx'', nb_interface := ''br-lan'', nb_address := ''192.168.8.1'',
                   nb_openwrt := Some (ow_openwrt_sample cs)\<rparr>\<rparr>
      in (new_question ''gateway'' gw None)
           \<lparr>qu_gateway := gw,
            qu_source := no_object\<lparr>no_kind := KindNetwork, no_binding_of := no_binding\<lparr>nb_address := ''192.168.8.7'',
              nb_ingress := ''br-lan'', nb_gateway := no_ref_of gw, nb_openwrt := Some (ow_openwrt_sample [])\<rparr>\<rparr>,
            qu_service := no_object\<lparr>no_binding_of := no_binding\<lparr>nb_target := ''10.9.9.9''\<rparr>\<rparr>\<rparr>)"

definition ip_match :: "string \<Rightarrow> string \<Rightarrow> ow_part" where
  "ip_match field right = PartMatch (Some \<lparr>nm_op = ''=='', nm_protocol = ''ip'', nm_field = field, nm_meta = [], nm_right = right\<rparr>)"

definition meta_match :: "string \<Rightarrow> string \<Rightarrow> string \<Rightarrow> ow_part" where
  "meta_match key op right = PartMatch (Some \<lparr>nm_op = op, nm_protocol = [], nm_field = [], nm_meta = key, nm_right = right\<rparr>)"

definition listed_chain :: "net_chain \<Rightarrow> string \<Rightarrow> ow_part list list \<Rightarrow> ow_entry list" where
  "listed_chain c policy ps =
     EntryMeta # EntryChain (Some \<lparr>om_family = nc_family c, om_table = nc_table c, om_name = nc_chain c, om_hook = nc_hook c,
       om_type = ''filter'', om_policy = policy, om_priority = nc_priority c\<rparr>)
     # map (\<lambda>p. EntryRule (Some \<lparr>oe_family = nc_family c, oe_table = nc_table c, oe_chain = nc_chain c, oe_expr = p\<rparr>)) ps"

definition selectors_sample :: "ow_part list" where
  "selectors_sample = [meta_match ''iifname'' ''=='' ''br-lan'', ip_match ''saddr'' ''192.168.8.7'', ip_match ''daddr'' ''10.9.9.9'']"

text \<open>A raw chain is its name.\<close>

definition ow_codec_sample :: "(string \<times> ow_entry list) list \<Rightarrow> ow_codec" where
  "ow_codec_sample bodies =
     \<lparr>ow_json = (\<lambda>_. None), ow_logical_of = (\<lambda>_. Some (True, ''br-lan'', [''192.168.8.1''])), ow_chain_of = map_of bodies,
      ow_set_of = (\<lambda>_. None), ow_route_of = (\<lambda>_. Some [\<lparr>rr_dev = ''wg0'', rr_type = [], rr_table = Some (JNum 100)\<rparr>]),
      ow_rules_of = (\<lambda>_. Some [[(''priority'', JNum 10), (''fwmark'', JNum 7), (''table'', JNum 100)]]),
      ow_hash_scope = (\<lambda>_ _. []), ow_hash_view = (\<lambda>_. []), ow_hash_stored = (\<lambda>_. []), ow_hash_json = (\<lambda>_. [])\<rparr>"

definition ow_snapshot_sample :: "net_chain list \<Rightarrow> ow_snapshot" where
  "ow_snapshot_sample cs =
     \<lparr>sn_scope = [], sn_context = ''ctx'', sn_start = 1, sn_end = 1, sn_logical = [], sn_rules = [], sn_route = [], sn_set = [],
      sn_chains = map (\<lambda>c. (chain_key c, nc_chain c)) cs, sn_stored = [], sn_set_known = False, sn_set_member = False,
      sn_runtime = True, sn_synthetic = False, sn_closed = True\<rparr>"

definition marked_bodies :: "(string \<times> ow_entry list) list" where
  "marked_bodies =
     [(''pre'', listed_chain sample_pre ''accept'' [selectors_sample @ [PartMangle (Some (''mark'', Some (JNum 7)))]]),
      (''fwd'', listed_chain sample_fwd ''accept'' [[ip_match ''daddr'' ''10.9.9.9'', PartCounter, PartVerdict ''drop'']])]"

lemma ow_number_code [code]:
  "ow_number raw =
     (case raw of
        Some (JNum n) \<Rightarrow> if int n < 4294967296 then Some n else None
      | Some (JText s) \<Rightarrow> parse_uint32 s
      | _ \<Rightarrow> None)"
  by (auto simp: ow_number_def split: option.splits jscalar.splits)

lemma mark_fits_code [code]:
  "mark_fits mark row =
     (case map_of row ''fwmark'' of
        None \<Rightarrow> Some True
      | Some v \<Rightarrow>
          (case (case map_of row ''fwmask'' of None \<Rightarrow> Some (- 1) | Some m \<Rightarrow> map_option of_nat (ow_number (Some m))) of
             None \<Rightarrow> None
           | Some (msk :: 32 word) \<Rightarrow> map_option (\<lambda>n. and mark msk = and (of_nat n) msk) (ow_number (Some v))))"
proof -
  have ones: "(4294967295 :: 32 word) = - 1" by simp
  show ?thesis by (simp add: mark_fits_def ones split: option.splits)
qed

lemma marked_evidence:
  "let n = normalize_openwrt (ow_codec_sample marked_bodies) (ow_question_sample [sample_pre, sample_fwd])
             (ow_snapshot_sample [sample_pre, sample_fwd]) 1 1
   in (ev_mark_known n, ev_mark n, ev_forwarding n, ev_missing n) = (True, 7, Some False, [])"
  by code_simp

definition sample_flow :: ow_packet where
  "sample_flow = \<lparr>op_src = ''192.168.8.7'', op_dst = ''10.9.9.9'', op_iif = ''br-lan'', op_oif = ''wan''\<rparr>"

theorem openwrt_evidence_sound_witness:
  "let k = ow_codec_sample marked_bodies; s = ow_snapshot_sample [sample_pre, sample_fwd];
       roots = sorted_roots (bound_chains k s (ow_openwrt_sample [sample_pre, sample_fwd])) in
   kern_hook (\<lambda>_. {}) (\<lambda>_ _ m. KernNext m) (listed_rules k s) sample_flow (classifying roots) 0 = Some (OwAccept, 7)
   \<and> (\<exists>x \<in> set roots. \<exists>m'. kern_chain (\<lambda>_. {}) (\<lambda>_ _ m. KernNext m) (listed_rules k s) sample_flow x 7 = Some (OwDrop, m'))"
proof -
  let ?k = "ow_codec_sample marked_bodies" and ?s = "ow_snapshot_sample [sample_pre, sample_fwd]"
  let ?q = "ow_question_sample [sample_pre, sample_fwd]" and ?b = "ow_openwrt_sample [sample_pre, sample_fwd]"
  have n: "ev_mark_known (normalize_openwrt ?k ?q ?s 1 1)" "ev_mark (normalize_openwrt ?k ?q ?s 1 1) = 7"
    "ev_forwarding (normalize_openwrt ?k ?q ?s 1 1) = Some False"
    using marked_evidence by (simp_all add: Let_def)
  have b: "nb_openwrt (binding (qu_gateway ?q)) = Some ?b" and plain: "rules_plain ?k ?s ?b" and free: "leaves_free ?k ?s ?b sample_flow"
    by code_simp+
  have pk: "packet_bound ?k ?q ?s (\<lambda>_. {}) sample_flow"
    by (simp add: packet_bound_def sample_flow_def ow_question_sample_def ow_openwrt_sample_def new_question_def ow_target_def
        bound_set_def Let_def)
  show ?thesis
    using openwrt_evidence_sound [OF refl b plain pk refl, of 1 1 7 "\<lambda>_ _ m. KernNext m" 0] n free by (auto simp: Let_def)
qed

text \<open>
  The reader takes a jump (or return) that asks for an output interface as taken whatever the interface
  is. Here it reports that forwarding is allowed, while a packet for the tunnel is dropped.
\<close>

definition sample_child :: net_chain where
  "sample_child = sample_fwd\<lparr>nc_chain := ''child'', nc_hook := [], nc_priority := None\<rparr>"

definition jumping_bodies :: "(string \<times> ow_entry list) list" where
  "jumping_bodies =
     [(''fwd'', listed_chain sample_fwd ''accept'' [[meta_match ''oifname'' ''!='' ''wg0'', PartJump (Some ''child'')], [PartVerdict ''drop'']]),
      (''child'', listed_chain sample_child [] [[PartVerdict ''accept'']])]"

lemma jump_interface_missed:
  "let k = ow_codec_sample jumping_bodies; s = ow_snapshot_sample [sample_fwd, sample_child];
       b = ow_openwrt_sample [sample_fwd, sample_child] in
   ev_forwarding (normalize_openwrt k (ow_question_sample [sample_fwd, sample_child]) s 1 1) = Some True
   \<and> map (\<lambda>x. kern_chain (\<lambda>_. {}) (\<lambda>_ _ m. KernNext m) (listed_rules k s) (sample_flow\<lparr>op_oif := ''wg0''\<rparr>) x 0)
       (sorted_roots (bound_chains k s b)) = [Some (OwDrop, 0)]"
  by code_simp

text \<open>Guards are kept apart from the permission: a guard chain that drops everything leaves it true.\<close>

definition sample_guard :: net_chain where
  "sample_guard = sample_fwd\<lparr>nc_chain := ''guard'', nc_role := ''guard'', nc_priority := Some 1\<rparr>"

definition guarded_bodies :: "(string \<times> ow_entry list) list" where
  "guarded_bodies = [(''fwd'', listed_chain sample_fwd ''accept'' []), (''guard'', listed_chain sample_guard ''accept'' [[PartVerdict ''drop'']])]"

lemma guard_drop_uncounted:
  "let k = ow_codec_sample guarded_bodies; s = ow_snapshot_sample [sample_fwd, sample_guard];
       b = ow_openwrt_sample [sample_fwd, sample_guard] in
   ev_forwarding (normalize_openwrt k (ow_question_sample [sample_fwd, sample_guard]) s 1 1) = Some True
   \<and> kern_hook (\<lambda>_. {}) (\<lambda>_ _ m. KernNext m) (listed_rules k s) sample_flow (sorted_roots (bound_chains k s b)) 0 = Some (OwDrop, 0)"
  by code_simp

end
