(* ===== verification/OwRead.thy ===== *)
theory OwRead
  imports LinuxWg OwEvidence
begin

text \<open>
  Package \<open>internal/netpolicy\<close>, reading an OpenWrt gateway (\<open>openwrt_read.go\<close>), the frozen question
  (\<open>openwrt.go\<close>) and the dispatch of a collection (\<open>linuxwg.go\<close>).

  A session is the number of its calls and the system. \<open>oc_alive\<close> says whether the context has not
  ended, \<open>oc_refused\<close> which error a refused permission was.
\<close>

subsection \<open>The frozen question\<close>

definition freeze_question :: "hash_json \<Rightarrow> net_question \<Rightarrow> net_error + net_question" where
  "freeze_question h q =
     (case qu_seal q of
        None \<Rightarrow> if nb_openwrt (binding (qu_gateway q)) \<noteq> None then Inl NetStale else Inr q
      | Some s \<Rightarrow>
          if request_digest h (qu_request q) ''network.read'' \<noteq> sl_digest s then Inl NetStale
          else Inr (q\<lparr>qu_target := clone_object h (sl_target s), qu_source := clone_object h (sl_source s),
                     qu_service := clone_object h (sl_service s), qu_gateway := clone_object h (sl_gateway s),
                     qu_vpn := clone_object h (sl_vpn s)\<rparr>))"

definition error_text :: "net_error \<Rightarrow> string" where
  "error_text e =
     (case e of
        NetInvalid \<Rightarrow> ''network_invalid_metadata'' | NetUnsafe \<Rightarrow> ''network_unsafe_state''
      | NetMissing \<Rightarrow> ''network_missing_binding'' | NetStale \<Rightarrow> ''network_stale_binding''
      | NetConflict \<Rightarrow> ''network_scope_conflict'' | NetUnsupported \<Rightarrow> ''network_unsupported''
      | _ \<Rightarrow> ''network_operational_error'')"

subsection \<open>Sessions\<close>

record 'w ow_context_calls =
  oc_native :: "'w native"
  oc_alive :: "'w \<Rightarrow> bool \<times> 'w"
  oc_refused :: "'w \<Rightarrow> net_error"

type_synonym 'w session = "nat \<times> 'w"

definition session_calls :: nat where "session_calls = 32"
definition session_output :: nat where "session_output = 65536"

text \<open>One call of the session: the context and the budget, the permission, the tool, the context again.\<close>

definition session_call ::
    "'w ow_context_calls \<Rightarrow> net_binding \<Rightarrow> string \<Rightarrow> string list \<Rightarrow> 'w session \<Rightarrow> (net_error + string) \<times> 'w session" where
  "session_call oc b tool args st =
     (case oc_alive oc (snd st) of
        (ok, w1) \<Rightarrow>
          if \<not> ok \<or> fst st \<ge> session_calls then (Inl NetUnsupported, (fst st, w1))
          else
            (case nt_permit (oc_native oc) ''network.read'' w1 of
               (False, w2) \<Rightarrow> (Inl (oc_refused oc w2), (fst st, w2))
             | (True, w2) \<Rightarrow>
                 (case read_namespace (oc_native oc) session_output b tool args w2 of
                    (r, w3) \<Rightarrow>
                      (case oc_alive oc w3 of
                         (ok1, w4) \<Rightarrow>
                           (if \<not> ok1 then Inl NetUnsupported
                            else case r of
                              Inl e \<Rightarrow> Inl e
                            | Inr raw \<Rightarrow> if length raw > session_output then Inl NetUnsupported else Inr raw,
                            (fst st + 1, w4))))))"

definition session_now :: "'w ow_context_calls \<Rightarrow> 'w session \<Rightarrow> (net_error + time) \<times> 'w session" where
  "session_now oc st = (case nt_now (oc_native oc) (snd st) of (t, w) \<Rightarrow> (Inr t, (fst st, w)))"

definition give :: "'a \<Rightarrow> 's \<Rightarrow> ('e + 'a) \<times> 's" where
  "give a st = (Inr a, st)"

definition refuse :: "'e \<Rightarrow> 's \<Rightarrow> ('e + 'a) \<times> 's" where
  "refuse e st = (Inl e, st)"

subsection \<open>Membership\<close>

text \<open>An entry of the answer: metadata, an element or a set with its names and elements, or anything else.\<close>

datatype member_entry = MemberMeta | MemberOf "(string \<times> string \<times> string \<times> string list) option" | MemberOther

record read_codec =
  rc_valid :: "string \<Rightarrow> bool"
  rc_members :: "string \<Rightarrow> member_entry list option"
  rc_logical :: "string \<Rightarrow> (bool \<times> string \<times> (string \<times> int) list) option"
  rc_marshal :: "bool \<times> string \<times> (string \<times> int) list \<Rightarrow> string"
  rc_rows :: "string \<Rightarrow> nat option"

definition spaced_braces :: "string \<Rightarrow> string" where
  "spaced_braces s = concat (map (\<lambda>c. if c = CHR ''{'' \<or> c = CHR ''}'' then [CHR '' '', c, CHR '' ''] else [c]) s)"

definition member_grammar :: "net_set \<Rightarrow> string \<Rightarrow> string list" where
  "member_grammar s target =
     [''table'', ns_family s, ns_table s, ''{'', ''set'', ns_name s, ''{'', ''type'', ''ipv4_addr'', ''elements'', ''='', ''{'',
      target, ''}'', ''}'', ''}'']"

definition ow_member :: "read_codec \<Rightarrow> net_question \<Rightarrow> string \<Rightarrow> bool" where
  "ow_member rc q raw =
     (case bound_set q of
        None \<Rightarrow> False
      | Some s \<Rightarrow>
          if \<not> rc_valid rc raw
          then join_with '' '' (string_fields (spaced_braces raw)) = join_with '' '' (member_grammar s (ow_target q))
          else (case rc_members rc raw of
            None \<Rightarrow> False
          | Some es \<Rightarrow>
              list_all (\<lambda>x. x = MemberMeta
                \<or> x = MemberOf (Some (ns_family s, ns_table s, ns_name s, [ow_target q]))) es
              \<and> length (filter (\<lambda>x. x \<noteq> MemberMeta) es) = 1))"

subsection \<open>One sample\<close>

definition read_logical ::
    "read_codec \<Rightarrow> 'w ow_context_calls \<Rightarrow> net_binding \<Rightarrow> net_openwrt \<Rightarrow> 'w session \<Rightarrow> (net_error + string) \<times> 'w session" where
  "read_logical rc oc b s =
     then_ok (session_call oc b ''ubus'' [''call'', ''network.interface.'' @ ow_logical s, ''status''])
       (\<lambda>raw. case rc_logical rc raw of
          None \<Rightarrow> refuse NetUnsupported
        | Some v \<Rightarrow> if length (snd (snd v)) > 16 then refuse NetUnsupported else give (rc_marshal rc v))"

fun read_chains ::
    "'w ow_context_calls \<Rightarrow> net_binding \<Rightarrow> net_chain list \<Rightarrow> 'w session \<Rightarrow> (net_error + string gomap) \<times> 'w session" where
  "read_chains oc b [] = give []"
| "read_chains oc b (c # cs) =
     then_ok (session_call oc b ''nft'' [''-j'', ''list'', ''chain'', nc_family c, nc_table c, nc_chain c])
       (\<lambda>raw. then_ok (read_chains oc b cs) (\<lambda>rest. give ((chain_key c, raw) # rest)))"

definition read_set ::
    "read_codec \<Rightarrow> 'w ow_context_calls \<Rightarrow> net_binding \<Rightarrow> net_question \<Rightarrow> 'w session \<Rightarrow> (net_error + string \<times> bool) \<times> 'w session" where
  "read_set rc oc b q =
     (case bound_set q of
        None \<Rightarrow> give ([], False)
      | Some s \<Rightarrow>
          then_ok (session_call oc b ''nft'' [''-j'', ''-t'', ''list'', ''set'', ns_family s, ns_table s, ns_name s])
            (\<lambda>raw. then_ok (session_call oc b ''nft''
                 [''-j'', ''get'', ''element'', ns_family s, ns_table s, ns_name s, ''{'', ow_target q, ''}''])
               (\<lambda>member. give (raw, ow_member rc q member))))"

definition read_rules ::
    "read_codec \<Rightarrow> 'w ow_context_calls \<Rightarrow> net_binding \<Rightarrow> net_question \<Rightarrow> 'w session \<Rightarrow> (net_error + string) \<times> 'w session" where
  "read_rules rc oc b q =
     (if nr_id (no_ref_of (qu_source q)) = [] then give []
      else if \<not> v4_text_ok (nb_address (binding (qu_source q))) then refuse NetUnsupported
      else then_ok (session_call oc b ''ip'' [''-j'', ''-4'', ''rule'', ''show''])
             (\<lambda>raw. case rc_rows rc raw of
                None \<Rightarrow> refuse NetUnsupported
              | Some n \<Rightarrow> if n > 64 then refuse NetUnsupported else give raw))"

definition read_route ::
    "'w ow_context_calls \<Rightarrow> net_binding \<Rightarrow> net_question \<Rightarrow> ow_evidence \<Rightarrow> 'w session \<Rightarrow> (net_error + string) \<times> 'w session" where
  "read_route oc b q n =
     (if ev_mark_known n
      then session_call oc b ''ip''
             [''-j'', ''-4'', ''route'', ''get'', ow_target q, ''from'', nb_address (binding (qu_source q)), ''iif'',
              nb_ingress (binding (qu_source q)), ''mark'', dec_nat (ev_mark n)]
      else give [])"

text \<open>The evidence of the unfinished sample says whether there is a mark to ask the route for.\<close>

definition read_sample ::
    "read_codec \<Rightarrow> ow_codec \<Rightarrow> 'w ow_context_calls \<Rightarrow> net_question \<Rightarrow> net_openwrt \<Rightarrow> 'w session
     \<Rightarrow> (net_error + ow_snapshot) \<times> 'w session" where
  "read_sample rc k oc q s =
     (let b = clone_binding (ow_hash_json k) (binding (qu_gateway q)) in
      then_ok (session_now oc) (\<lambda>t0.
      then_ok (read_logical rc oc b s) (\<lambda>logical.
      then_ok (read_chains oc b (ow_chains s)) (\<lambda>chains.
      then_ok (read_set rc oc b q) (\<lambda>set_member.
      then_ok (read_rules rc oc b q) (\<lambda>rules.
      then_ok (session_now oc) (\<lambda>t1.
      then_ok (session_now oc) (\<lambda>n1.
      then_ok (session_now oc) (\<lambda>n2.
      let x = \<lparr>sn_scope = openwrt_scope k q, sn_context = nb_context (binding (qu_gateway q)), sn_start = t0, sn_end = t1,
               sn_logical = logical, sn_rules = rules, sn_route = [], sn_set = fst set_member, sn_chains = chains,
               sn_stored = [], sn_set_known = snd set_member, sn_set_member = snd set_member, sn_runtime = False,
               sn_synthetic = False, sn_closed = False\<rparr> in
      then_ok (read_route oc b q (normalize_openwrt k q x n1 n2)) (\<lambda>route.
      then_ok (session_now oc) (\<lambda>t2. give (x\<lparr>sn_route := route, sn_end := t2\<rparr>))))))))))))"

subsection \<open>The snapshot\<close>

definition read_uci :: "'w ow_context_calls \<Rightarrow> net_binding \<Rightarrow> string \<Rightarrow> 'w session \<Rightarrow> (net_error + string) \<times> 'w session" where
  "read_uci oc b option =
     then_ok (session_call oc b ''uci'' [''-q'', ''get'', option])
       (\<lambda>v. if length v > 128 then refuse NetUnsupported else give (trim_space v))"

definition stored_options :: "net_openwrt \<Rightarrow> (string \<times> string) list" where
  "stored_options s =
     (''network.device'', ''network.'' @ ow_logical s @ ''.device'')
     # concat (map (\<lambda>x. map (\<lambda>f. (x @ ''.'' @ f, ''firewall.'' @ x @ ''.'' @ f)) [''src'', ''dest'', ''enabled'']) (ow_stored s))"

fun read_stored ::
    "'w ow_context_calls \<Rightarrow> net_binding \<Rightarrow> (string \<times> string) list \<Rightarrow> 'w session \<Rightarrow> (net_error + string gomap) \<times> 'w session" where
  "read_stored oc b [] = give []"
| "read_stored oc b ((key, option) # xs) =
     then_ok (read_uci oc b option) (\<lambda>v. then_ok (read_stored oc b xs) (\<lambda>rest. give ((key, v) # rest)))"

text \<open>How many calls a reading may need, counted as the code counts.\<close>

definition worst_calls :: "net_question \<Rightarrow> net_openwrt \<Rightarrow> nat" where
  "worst_calls q s =
     2 * (1 + length (ow_chains s)) + 1 + 3 * length (ow_stored s) + (if ow_set s \<noteq> None then 4 else 0)
     + (if nr_id (no_ref_of (qu_source q)) \<noteq> [] then 4 else 0)"

definition readable_gateway :: "net_question \<Rightarrow> net_openwrt \<Rightarrow> bool" where
  "readable_gateway q s \<longleftrightarrow>
     valid_openwrt (qu_gateway q) \<and> ow_logical s \<noteq> [] \<and> (ow_profile s = ''fw4-basic'' \<or> ow_profile s = ''gl-policy-fw4'')
     \<and> list_all (\<lambda>c. nc_family c \<noteq> ''ip6'') (ow_chains s) \<and> v4_text_ok (ow_target q)
     \<and> (case ow_set s of None \<Rightarrow> True | Some t \<Rightarrow> ns_element_family t = ''ipv4'') \<and> worst_calls q s \<le> session_calls"

definition read_snapshot ::
    "read_codec \<Rightarrow> ow_codec \<Rightarrow> 'w ow_context_calls \<Rightarrow> net_question \<Rightarrow> 'w session \<Rightarrow> (net_error + ow_snapshot) \<times> 'w session" where
  "read_snapshot rc k oc q0 =
     (case freeze_question (ow_hash_json k) q0 of
        Inl e \<Rightarrow> refuse e
      | Inr q \<Rightarrow>
          (case nb_openwrt (binding (qu_gateway q)) of
             None \<Rightarrow> refuse NetUnsupported
           | Some s \<Rightarrow>
               if \<not> readable_gateway q s then refuse NetUnsupported
               else
                 then_ok (read_sample rc k oc q s) (\<lambda>first.
                 then_ok (read_stored oc (clone_binding (ow_hash_json k) (binding (qu_gateway q))) (stored_options s)) (\<lambda>stored.
                 then_ok (read_sample rc k oc q s) (\<lambda>second.
                 if openwrt_runtime_digest k first \<noteq> openwrt_runtime_digest k second then refuse NetStale
                 else give (first\<lparr>sn_end := sn_end second, sn_stored := stored\<rparr>))))))"

subsection \<open>The facts\<close>

definition openwrt_facts :: "net_question \<Rightarrow> ow_snapshot \<Rightarrow> ow_evidence \<Rightarrow> (string \<times> bool) list" where
  "openwrt_facts q s n =
     [(''gateway.binding'', sn_context s = nb_context (binding (qu_gateway q))), (''gateway.reader'', True)]
     @ (if ev_logical n then [(''gateway.interface_binding'', True)] else [])
     @ (if ev_scope_supported n then [(''gateway.policy_scope'', True)] else [])
     @ (if ev_source_logical n then [(''network.logical_binding'', True)] else [])
     @ (if ev_route_selected n then [(''routing.policy_selection'', True)] else [])
     @ (case ev_forwarding n of
          None \<Rightarrow> []
        | Some v \<Rightarrow> (''forwarding.candidate'', v) # (if ev_coverage n then [(''forwarding.permission'', v)] else []))
     @ (if ev_guard_candidate n
        then (''enforcement.guard_candidate'', True) # (if ev_coverage n then [(''enforcement.guard'', True)] else []) else [])"

fun add_openwrt ::
    "'w native \<Rightarrow> collector \<Rightarrow> net_question \<Rightarrow> ow_snapshot \<Rightarrow> ow_evidence \<Rightarrow> (string \<times> bool) list \<Rightarrow> collection \<times> 'w \<Rightarrow> collection \<times> 'w" where
  "add_openwrt nt c q s n [] st = st"
| "add_openwrt nt c q s n ((property, v) # xs) st =
     (case native_fact nt c property q None v (snd st) of
        (f, w) \<Rightarrow>
          add_openwrt nt c q s n xs
            (add_fact (f\<lparr>nf_window_start := sn_start s, nf_window_end := sn_end s, nf_runtime_binding := ev_runtime_digest n\<rparr>)
               (fst st), w))"

definition openwrt_capability :: "net_question \<Rightarrow> ow_evidence \<Rightarrow> capability" where
  "openwrt_capability q n =
     \<lparr>cp_operation = ''gateway_evidence'', cp_support = PartialSupport, cp_scope = oq_objects (qu_request q),
      cp_missing = [''live_firmware_compatibility'', ''global_override_coverage'', ''client_origin_and_observed_path'']
        @ (if ev_scope_supported n then [] else [''native_subset''])\<rparr>"

definition sealed_snapshot :: "collector \<Rightarrow> net_question \<Rightarrow> ow_snapshot \<Rightarrow> ow_snapshot" where
  "sealed_snapshot c q s =
     s\<lparr>sn_runtime := True, sn_synthetic := co_fixture c,
       sn_closed := (co_fixture c \<and> nb_context (binding (qu_gateway q)) \<in> co_closed c)\<rparr>"

definition collect_openwrt ::
    "read_codec \<Rightarrow> ow_codec \<Rightarrow> collector \<Rightarrow> 'w ow_context_calls \<Rightarrow> net_question \<Rightarrow> 'w \<Rightarrow> collection \<times> 'w" where
  "collect_openwrt rc k c oc q0 w =
     (case freeze_question (ow_hash_json k) q0 of
        Inl _ \<Rightarrow> (missing_collection ''openwrt_frozen_scope'', w)
      | Inr q \<Rightarrow>
          (case read_snapshot rc k oc q (0, w) of
             (Inl e, st) \<Rightarrow> (missing_collection (error_text e), snd st)
           | (Inr s0, st) \<Rightarrow>
               (case nt_now (oc_native oc) (snd st) of
                  (n1, w1) \<Rightarrow>
                    (case nt_now (oc_native oc) w1 of
                       (n2, w2) \<Rightarrow>
                         let s = sealed_snapshot c q s0; n = normalize_openwrt k q s n1 n2 in
                         case add_openwrt (oc_native oc) c q s n (openwrt_facts q s n) (empty_collection, w2) of
                           (out, w3) \<Rightarrow>
                             (out\<lparr>cl_capabilities := [openwrt_capability q n],
                                cl_missing := (if oq_operation (qu_request q) \<noteq> ''gateway''
                                  then [''openwrt_readonly_no_client_proof''] else [])\<rparr>, w3)))))"

text \<open>The dispatch; \<open>dns\<close> is the collection for access and isolation.\<close>

definition collect_native ::
    "read_codec \<Rightarrow> ow_codec \<Rightarrow> collector \<Rightarrow> 'w ow_context_calls \<Rightarrow> (net_question \<Rightarrow> 'w \<Rightarrow> collection \<times> 'w)
     \<Rightarrow> net_question \<Rightarrow> 'w \<Rightarrow> collection \<times> 'w" where
  "collect_native rc k c oc dns q0 w =
     (case nt_permit (oc_native oc) ''network.read'' w of
        (False, w1) \<Rightarrow> (missing_collection ''network.read'', w1)
      | (True, w1) \<Rightarrow>
          (case freeze_question (ow_hash_json k) q0 of
             Inl _ \<Rightarrow> (missing_collection ''openwrt_frozen_scope'', w1)
           | Inr q \<Rightarrow>
               let operation = oq_operation (qu_request q) in
               if nb_openwrt (binding (qu_gateway q)) \<noteq> None then collect_openwrt rc k c oc q w1
               else if operation = ''access'' \<or> operation = ''isolation'' then dns q w1
               else if operation = ''gateway'' then collect_gateway (oc_native oc) c q w1
               else if operation = ''vpn'' then collect_vpn (oc_native oc) c q w1
               else (empty_collection, w1)))"

subsection \<open>A session only reads, and not often\<close>

lemma keeps_give [intro]: "keeps P (give a)" and keeps_refuse [intro]: "keeps P (refuse e)"
  by (simp_all add: keeps_def give_def refuse_def)

text \<open>What a reading needs of its calls, which it makes for bindings with property \<open>B\<close>.\<close>

locale read_session =
  fixes oc :: "'w ow_context_calls" and B :: "net_binding \<Rightarrow> bool" and I :: "'w session \<Rightarrow> bool"
  assumes call: "B b \<Longrightarrow> read_only_command tool args \<Longrightarrow> keeps I (session_call oc b tool args)"
    and now: "keeps I (session_now oc)"
begin

lemma logical_keeps: "B b \<Longrightarrow> keeps I (read_logical rc oc b s)"
  unfolding read_logical_def
  by (intro keeps_then_ok call) (auto simp: read_only_command_def split: option.splits)

lemma chains_keep: "B b \<Longrightarrow> keeps I (read_chains oc b cs)"
  by (induction cs) (auto simp: read_only_command_def intro!: keeps_then_ok call)

lemma set_keeps: "B b \<Longrightarrow> keeps I (read_set rc oc b q)"
  by (auto simp: read_set_def read_only_command_def split: option.splits intro!: keeps_then_ok call)

lemma rules_keep: "B b \<Longrightarrow> keeps I (read_rules rc oc b q)"
  unfolding read_rules_def
  by (auto simp: read_only_command_def intro!: keeps_then_ok call split: option.splits)

lemma route_keeps: "B b \<Longrightarrow> keeps I (read_route oc b q n)"
  by (auto simp: read_route_def read_only_command_def intro!: call)

lemma sample_keeps:
  "B (clone_binding (ow_hash_json k) (binding (qu_gateway q))) \<Longrightarrow> keeps I (read_sample rc k oc q s)"
  unfolding read_sample_def Let_def
  by (intro keeps_then_ok now logical_keeps chains_keep set_keeps rules_keep route_keeps keeps_give)

lemma stored_keeps: "B b \<Longrightarrow> keeps I (read_stored oc b xs)"
proof (induction xs)
  case Nil
  show ?case by auto
next
  case (Cons x xs)
  then show ?case by (cases x) (auto simp: read_uci_def read_only_command_def intro!: keeps_then_ok call)
qed

lemma snapshot_keeps:
  assumes "\<And>q1. freeze_question (ow_hash_json k) q = Inr q1 \<Longrightarrow> B (clone_binding (ow_hash_json k) (binding (qu_gateway q1)))"
  shows "keeps I (read_snapshot rc k oc q)"
  unfolding read_snapshot_def using assms
  by (auto intro!: keeps_then_ok sample_keeps stored_keeps split: sum.splits option.splits)

end

text \<open>The commands in a log.\<close>

definition runs :: "native_event list \<Rightarrow> nat" where
  "runs es = length (filter (\<lambda>e. case e of EvRun _ _ \<Rightarrow> True | _ \<Rightarrow> False) es)"

lemma runs_simps [simp]:
  "runs [] = 0" "runs (es @ [EvRun t a]) = runs es + 1" "runs (es @ [EvPermit c ok]) = runs es"
  "runs (es @ [EvEnter ok]) = runs es" "runs (es @ [EvRestore ok]) = runs es"
  "runs (es @ [EvIdentity p r]) = runs es" "runs (es @ [EvOpen p i]) = runs es"
  by (simp_all add: runs_def)

interpretation counted_read: watched_read "logged nt" pl
  "\<lambda>st. native_run_state pl (snd st) \<in> resting_states \<and> runs (snd st) \<le> n + 1"
  "\<lambda>st. native_run_state pl (snd st) = Armed \<and> runs (snd st) \<le> n"
  "\<lambda>st. native_run_state pl (snd st) = Checked \<and> runs (snd st) \<le> n"
  "\<lambda>st. native_run_state pl (snd st) = Opened \<and> runs (snd st) \<le> n"
  "\<lambda>st. native_run_state pl (snd st) = Entered \<and> runs (snd st) \<le> n"
  "\<lambda>st. native_run_state pl (snd st) \<in> {Entered, Ran} \<and> runs (snd st) \<le> n + 1" for nt pl n
  by unfold_locales (auto simp: logged_def keeps_def with_log_state resting_states_def dest!: with_log_result split: if_splits)

definition logged_calls :: "'w ow_context_calls \<Rightarrow> ('w \<times> native_event list) ow_context_calls" where
  "logged_calls oc =
     \<lparr>oc_native = logged (oc_native oc), oc_alive = with_log (oc_alive oc) (\<lambda>_. []), oc_refused = (\<lambda>st. oc_refused oc (fst st))\<rparr>"

definition in_budget :: "places \<Rightarrow> ('w \<times> native_event list) session \<Rightarrow> bool" where
  "in_budget pl st \<longleftrightarrow>
     native_run_state pl (snd (snd st)) \<in> resting_states \<and> runs (snd (snd st)) \<le> fst st \<and> fst st \<le> session_calls"

lemma session_call_in_budget:
  assumes "placed pl b" and "read_only_command tool args"
  shows "keeps (in_budget pl) (session_call (logged_calls oc) b tool args)"
proof (rule keepsI)
  fix st a st1 assume i: "in_budget pl st" and c: "session_call (logged_calls oc) b tool args st = (a, st1)"
  obtain ok w1 where v: "with_log (oc_alive oc) (\<lambda>_. []) (snd st) = (ok, w1)" by (metis surj_pair)
  have w1: "snd w1 = snd (snd st)" using with_log_result [OF v] by simp
  show "in_budget pl st1"
  proof (cases "\<not> ok \<or> fst st \<ge> session_calls")
    case True
    then show ?thesis using c i by (auto simp: session_call_def logged_calls_def v in_budget_def w1)
  next
    case False
    obtain ok2 w2 where p: "nt_permit (logged (oc_native oc)) ''network.read'' w1 = (ok2, w2)" by (metis surj_pair)
    have w2: "snd w2 = snd w1 @ [EvPermit ''network.read'' ok2]" using p by (auto simp: logged_def dest!: with_log_result)
    obtain r w3 where r: "read_namespace (logged (oc_native oc)) session_output b tool args w2 = (r, w3)" by (metis surj_pair)
    obtain ok3 w4 where a3: "with_log (oc_alive oc) (\<lambda>_. []) w3 = (ok3, w4)" by (metis surj_pair)
    have w4: "snd w4 = snd w3" using with_log_result [OF a3] by simp
    show ?thesis
    proof (cases ok2)
      case False
      then show ?thesis using c i \<open>\<not> (\<not> ok \<or> fst st \<ge> session_calls)\<close>
        by (auto simp: session_call_def logged_calls_def v p in_budget_def w2 w1 resting_states_def)
    next
      case True
      have "native_run_state pl (snd w2) = Armed \<and> runs (snd w2) \<le> fst st" using i by (auto simp: in_budget_def w2 w1 True)
      then have "native_run_state pl (snd w3) \<in> resting_states \<and> runs (snd w3) \<le> fst st + 1"
        using counted_read.read_namespace_safe [of pl w2 "fst st" b tool args "oc_native oc" session_output] assms r by simp
      moreover have "st1 = (fst st + 1, w4)"
        using c False True by (simp add: session_call_def logged_calls_def v p r a3)
      ultimately show ?thesis using False by (simp add: in_budget_def w4)
    qed
  qed
qed

interpretation logged_session: read_session "logged_calls oc" "placed pl" "in_budget pl" for oc pl
proof unfold_locales
  show "keeps (in_budget pl) (session_now (logged_calls oc))"
    by (auto simp: keeps_def session_now_def logged_calls_def logged_def in_budget_def with_log_def split_beta)
qed (rule session_call_in_budget)

text \<open>The whole log of a call that yields an output.\<close>

definition call_trace :: "net_binding \<Rightarrow> string \<Rightarrow> string list \<Rightarrow> native_event list \<Rightarrow> bool" where
  "call_trace b tool args es \<longleftrightarrow>
     (\<exists>p. namespace_path (nb_namespace b) = Some p \<and> nb_context b \<noteq> []
        \<and> es = [EvPermit ''network.read'' True, EvIdentity p (Inr (nb_context b)), EvOpen p (Some (Some (nb_context b))),
                EvEnter True, EvRun tool args, EvRestore True, EvIdentity p (Inr (nb_context b))])"

lemma run_native_trace:
  "run_native (logged nt) limit ns tool args st = (Inr out, st1) \<Longrightarrow> snd st1 = snd st @ [EvRun tool args]"
  by (auto simp: run_native_def logged_def dest!: with_log_result split: if_splits prod.splits option.splits)

lemma within_trace:
  assumes "within_namespace (logged nt) b (run_native (logged nt) limit [] tool args) st = (Inr out, st1)"
  shows "\<exists>p. namespace_path (nb_namespace b) = Some p
     \<and> snd st1 = snd st @ [EvOpen p (Some (Some (nb_context b))), EvEnter True, EvRun tool args, EvRestore True]"
proof -
  obtain w1 p w2 w3 r w4 where a: "nt_own_namespace (logged nt) st = (True, w1)"
    and p: "namespace_path (nb_namespace b) = Some p"
    and o: "nt_open_namespace (logged nt) p w1 = (Some (Some (nb_context b)), w2)"
    and e: "nt_enter (logged nt) w2 = (True, w3)"
    and f: "run_native (logged nt) limit [] tool args w3 = (r, w4)"
    and g: "nt_restore (logged nt) w4 = (True, st1)" and "r = Inr out"
    using assms by (auto simp: within_namespace_def split: prod.splits bool.splits option.splits if_splits)
  have "snd w1 = snd st" "snd w2 = snd w1 @ [EvOpen p (Some (Some (nb_context b)))]" "snd w3 = snd w2 @ [EvEnter True]"
      "snd st1 = snd w4 @ [EvRestore True]"
    using a o e g by (auto simp: logged_def dest!: with_log_result)
  moreover have "snd w4 = snd w3 @ [EvRun tool args]" using run_native_trace f \<open>r = Inr out\<close> by simp
  ultimately show ?thesis using p by simp
qed

lemma read_namespace_trace:
  assumes "read_namespace (logged nt) limit b tool args st = (Inr out, st1)"
  shows "\<exists>p. namespace_path (nb_namespace b) = Some p \<and> nb_context b \<noteq> []
     \<and> snd st1 = snd st @ [EvIdentity p (Inr (nb_context b)), EvOpen p (Some (Some (nb_context b))), EvEnter True,
          EvRun tool args, EvRestore True, EvIdentity p (Inr (nb_context b))]"
proof -
  obtain w1 w2 out1 where a: "namespace_identity (logged nt) (nb_namespace b) st = (Inr (nb_context b), w1)" "nb_context b \<noteq> []"
    and f: "within_namespace (logged nt) b (run_native (logged nt) limit [] tool args) w1 = (Inr out1, w2)"
    and c: "namespace_identity (logged nt) (nb_namespace b) w2 = (Inr (nb_context b), st1)"
    using assms by (auto simp: read_namespace_def split: prod.splits sum.splits if_splits)
  obtain p where p: "namespace_path (nb_namespace b) = Some p"
    and w2: "snd w2 = snd w1 @ [EvOpen p (Some (Some (nb_context b))), EvEnter True, EvRun tool args, EvRestore True]"
    using within_trace [OF f] by blast
  have "snd w1 = snd st @ [EvIdentity p (Inr (nb_context b))]" "snd st1 = snd w2 @ [EvIdentity p (Inr (nb_context b))]"
    using a(1) c by (auto simp: namespace_identity_def p logged_def dest!: with_log_result)
  then show ?thesis using p w2 a(2) by simp
qed

lemma session_call_trace:
  assumes "session_call (logged_calls oc) b tool args st = (Inr raw, st1)"
  shows "\<exists>es. snd (snd st1) = snd (snd st) @ es \<and> call_trace b tool args es"
proof -
  obtain w1 w2 w3 w4 out where a: "with_log (oc_alive oc) (\<lambda>_. []) (snd st) = (True, w1)"
    and p: "nt_permit (logged (oc_native oc)) ''network.read'' w1 = (True, w2)"
    and r: "read_namespace (logged (oc_native oc)) session_output b tool args w2 = (Inr out, w3)"
    and c: "with_log (oc_alive oc) (\<lambda>_. []) w3 = (True, w4)" and st1: "st1 = (fst st + 1, w4)"
    using assms by (auto simp: session_call_def logged_calls_def split: prod.splits sum.splits bool.splits if_splits)
  have "snd w1 = snd (snd st)" "snd w2 = snd w1 @ [EvPermit ''network.read'' True]" "snd w4 = snd w3"
    using with_log_result [OF a] with_log_result [OF c] p by (auto simp: logged_def dest!: with_log_result)
  then show ?thesis using read_namespace_trace [OF r] st1 by (auto simp: call_trace_def)
qed

lemma logged_calls_native [simp]: "oc_native (logged_calls oc) = logged (oc_native oc)"
  by (simp add: logged_calls_def)

lemma snd_through: "snd (case x of (a, b) \<Rightarrow> (g a, b)) = snd x"
  by (simp add: split_beta)

lemma add_openwrt_log:
  "snd (snd (add_openwrt (logged nt) c q s n xs st)) = snd (snd st)"
  by (induction "logged nt" c q s n xs st rule: add_openwrt.induct)
    (simp_all add: native_fact_def logged_def with_log_def split_beta)

lemma frozen_again: "freeze_question h q = Inr q1 \<Longrightarrow> freeze_question h q1 = Inr q1"
  by (auto simp: freeze_question_def split: option.splits if_splits)

lemma placed_clone [simp]: "placed pl (clone_binding h b) = placed pl b"
  by (simp add: placed_def clone_binding_def)

text \<open>
  (C39) Collecting from an OpenWrt gateway runs at most 32 commands, each of them one that only reads,
  and each in the gateway's namespace: it runs in a namespace that was entered right after a
  permission to read was granted, the identity read under the gateway's path and found the one its binding
  asks for, and the path opened with that identity; the own namespace is restored next, whatever the
  tools, the permissions and the context do. And every call that yields an output, for any binding, made
  exactly these calls in this order, with the identity read once more after it.
\<close>

theorem openwrt_reads_bounded:
  "(let log = snd (snd (collect_openwrt rc k c (logged_calls oc) q (w, []))) in
     case freeze_question (ow_hash_json k) q of
       Inl e \<Rightarrow> log = []
     | Inr q1 \<Rightarrow> native_run_state (places_of {binding (qu_gateway q1)}) log \<in> resting_states \<and> runs log \<le> session_calls)
   \<and> (\<forall>b tool args st raw st1. session_call (logged_calls oc) b tool args st = (Inr raw, st1) \<longrightarrow>
        (\<exists>es. snd (snd st1) = snd (snd st) @ es \<and> call_trace b tool args es))"
proof -
  have "let log = snd (snd (collect_openwrt rc k c (logged_calls oc) q (w, []))) in
     case freeze_question (ow_hash_json k) q of
       Inl e \<Rightarrow> log = []
     | Inr q1 \<Rightarrow> native_run_state (places_of {binding (qu_gateway q1)}) log \<in> resting_states \<and> runs log \<le> session_calls"
  proof (cases "freeze_question (ow_hash_json k) q")
    case (Inl e)
    then show ?thesis by (simp add: collect_openwrt_def)
  next
    case (Inr q1)
    let ?pl = "places_of {binding (qu_gateway q1)}"
    obtain r st where r: "read_snapshot rc k (logged_calls oc) q1 (0, (w, [])) = (r, st)" by (metis surj_pair)
    have "keeps (in_budget ?pl) (read_snapshot rc k (logged_calls oc) q1)"
      by (rule logged_session.snapshot_keeps) (auto simp: frozen_again [OF Inr] placed_of)
    moreover have "in_budget ?pl (0, (w, []))" by (simp add: in_budget_def resting_states_def)
    ultimately have "in_budget ?pl st" using r by (metis keepsE)
    then have b: "native_run_state ?pl (snd (snd st)) \<in> resting_states" "runs (snd (snd st)) \<le> session_calls"
      by (auto simp: in_budget_def)
    have now: "nt_now (logged (oc_native oc)) v = (t, v1) \<Longrightarrow> snd v1 = snd v" for v t v1
      by (auto simp: logged_def dest!: with_log_result)
    show ?thesis
    proof (cases r)
      case (Inl e)
      then show ?thesis using b by (simp add: collect_openwrt_def Inr r)
    next
      case s: (Inr s)
      obtain n1 w1 where n1: "nt_now (logged (oc_native oc)) (snd st) = (n1, w1)" by (metis surj_pair)
      obtain n2 w2 where n2: "nt_now (logged (oc_native oc)) w1 = (n2, w2)" by (metis surj_pair)
      show ?thesis using b now [OF n1] now [OF n2]
        by (simp add: collect_openwrt_def Inr r s n1 n2 Let_def snd_through add_openwrt_log)
    qed
  qed
  then show ?thesis using session_call_trace by blast
qed

text \<open>A call on a system that answers everything.\<close>

definition willing_system :: "unit ow_context_calls" where
  "willing_system =
     \<lparr>oc_native = \<lparr>nt_permit = (\<lambda>_. Pair True), nt_identity = (\<lambda>_. Pair (Inr ''ctx'')), nt_own_namespace = Pair True,
        nt_open_namespace = (\<lambda>_. Pair (Some (Some ''ctx''))), nt_enter = Pair True, nt_restore = Pair True,
        nt_exec = (\<lambda>_ _. Pair \<lparr>to_chunks = [''ok''], to_ok = True\<rparr>), nt_now = Pair 0\<rparr>,
      oc_alive = Pair True, oc_refused = (\<lambda>_. NetMissing)\<rparr>"

lemma openwrt_reads_bounded_witness:
  "\<exists>st1. session_call (logged_calls willing_system) (no_binding\<lparr>nb_context := ''ctx''\<rparr>) ''ip'' [''-j'', ''-4'', ''rule'', ''show'']
       (0, ((), [])) = (Inr ''ok'', st1)
     \<and> call_trace (no_binding\<lparr>nb_context := ''ctx''\<rparr>) ''ip'' [''-j'', ''-4'', ''rule'', ''show''] (snd (snd st1))"
proof -
  let ?call = "session_call (logged_calls willing_system) (no_binding\<lparr>nb_context := ''ctx''\<rparr>) ''ip'' [''-j'', ''-4'', ''rule'', ''show'']
       (0, ((), []))"
  have "fst ?call = Inr ''ok''"
    by (simp add: session_call_def logged_calls_def willing_system_def logged_def with_log_def read_namespace_def
        namespace_identity_def namespace_path_def within_namespace_def run_native_def native_tools_def bounded_write_def
        output_limit_def session_output_def session_calls_def no_binding_def)
  then obtain st1 where c: "?call = (Inr ''ok'', st1)" by (metis prod.collapse)
  then obtain es where "snd (snd st1) = snd (snd (0 :: nat, ((), []))) @ es"
      "call_trace (no_binding\<lparr>nb_context := ''ctx''\<rparr>) ''ip'' [''-j'', ''-4'', ''rule'', ''show''] es"
    using conjunct2 [OF openwrt_reads_bounded [where oc = willing_system], rule_format, OF c] by blast
  then show ?thesis using c by auto
qed

subsection \<open>What a forwarding fact means\<close>

lemma add_openwrt_facts:
  "f \<in> set (cl_facts (fst (add_openwrt nt c q s n xs st))) \<Longrightarrow>
     f \<in> set (cl_facts (fst st)) \<or> (nf_property f, nf_value f) \<in> set xs"
proof (induction nt c q s n xs st rule: add_openwrt.induct)
  case (2 nt c q s n property v xs st)
  obtain g w where g: "native_fact nt c property q None v (snd st) = (g, w)" by (metis surj_pair)
  have "nf_property g = property" "nf_value g = v" using g by (auto simp: native_fact_def new_fact_def split: prod.splits)
  then show ?case using "2.IH" [OF g [symmetric]] "2.prems" by (auto simp: g add_fact_def)
qed simp

lemma evaluate_chains_coverage:
  "evaluate_chains k q s b n0 = n \<Longrightarrow> ev_coverage n \<Longrightarrow> sn_closed s \<and> ev_mark_known n"
  by (auto simp: evaluate_chains_def Let_def split: prod.splits)

lemma sealed_same [simp]:
  "listed_rules k (sealed_snapshot c q s) = listed_rules k s" "bound_chains k (sealed_snapshot c q s) b = bound_chains k s b"
  "rules_plain k (sealed_snapshot c q s) b = rules_plain k s b" "leaves_free k (sealed_snapshot c q s) b pk = leaves_free k s b pk"
  "packet_bound k q1 (sealed_snapshot c q s) sets pk = packet_bound k q1 s sets pk"
  by (auto simp: listed_rules_def chain_body_def sealed_snapshot_def bound_chains_def rules_plain_def leaves_free_def
      packet_bound_def ow_set_supported_def fun_eq_iff)

text \<open>
  (C40) A fact about the permission to forward comes only from a context whose policy is closed, and of
  one snapshot that was read twice with the same result. When the rules of that snapshot are plain
  (\<open>rules_plain\<close>: single addresses, no jump or return that depends on the output interface): if the
  fact is negative, a forwarding hook of the firewall as listed drops the packet of the question; if it is
  positive and no rule asks for another output interface than the packet's (\<open>leaves_free\<close>), no hook
  of a chain bound as forwarding does, and the mark is the one of the classifying chains. Chains bound
  as guards are a fact of their own and may still drop the packet.
\<close>

theorem forwarding_fact_sound:
  assumes out: "collect_openwrt rc k c oc q w = (out, w')" and f: "f \<in> set (cl_facts out)" "nf_property f = ''forwarding.permission''"
    and frozen: "freeze_question (ow_hash_json k) q = Inr q1" and b: "nb_openwrt (binding (qu_gateway q1)) = Some b"
  shows "co_fixture c \<and> nb_context (binding (qu_gateway q1)) \<in> co_closed c
    \<and> (\<exists>s st m. read_snapshot rc k oc q1 (0, w) = (Inr s, st)
       \<and> (\<forall>sets other pk. rules_plain k s b \<and> packet_bound k q1 s sets pk \<longrightarrow>
           (\<not> nf_value f \<longrightarrow> (\<exists>x \<in> set (sorted_roots (bound_chains k s b)). nc_role (oc_bound x) = ''forwarding''
              \<and> (\<exists>m'. kern_chain sets other (listed_rules k s) pk x m = Some (OwDrop, m'))))
         \<and> (nf_value f \<and> leaves_free k s b pk \<longrightarrow>
              kern_hook sets other (listed_rules k s) pk (classifying (sorted_roots (bound_chains k s b))) 0 = Some (OwAccept, m)
            \<and> (\<forall>x \<in> set (sorted_roots (bound_chains k s b)). nc_role (oc_bound x) = ''forwarding''
              \<longrightarrow> (\<exists>v m'. kern_chain sets other (listed_rules k s) pk x m = Some (v, m') \<and> v \<noteq> OwDrop)))))"
proof -
  obtain r st where r: "read_snapshot rc k oc q1 (0, w) = (r, st)" by (metis surj_pair)
  obtain s where s: "r = Inr s"
    using out f by (cases r) (auto simp: collect_openwrt_def frozen r missing_collection_def empty_collection_def)
  obtain n1 w1 where n1: "nt_now (oc_native oc) (snd st) = (n1, w1)" by (metis surj_pair)
  obtain n2 w2 where n2: "nt_now (oc_native oc) w1 = (n2, w2)" by (metis surj_pair)
  define n where "n = normalize_openwrt k q1 (sealed_snapshot c q1 s) n1 n2"
  have "f \<in> set (cl_facts (fst (add_openwrt (oc_native oc) c q1 (sealed_snapshot c q1 s) n
      (openwrt_facts q1 (sealed_snapshot c q1 s) n) (empty_collection, w2))))"
    using out f(1) by (auto simp: collect_openwrt_def frozen r s n1 n2 Let_def n_def split: prod.splits)
  then have "(''forwarding.permission'', nf_value f) \<in> set (openwrt_facts q1 (sealed_snapshot c q1 s) n)"
    using add_openwrt_facts f(2) by (fastforce simp: empty_collection_def)
  then have fw: "ev_forwarding n = Some (nf_value f)" and cov: "ev_coverage n"
    by (auto simp: openwrt_facts_def split: option.splits if_splits)
  obtain n0 where n0: "list_all chain_ok (ow_chains b)" "evaluate_chains k q1 (sealed_snapshot c q1 s) b n0 = n" "\<not> ev_mark_known n0"
    using normalize_openwrt_cases [OF n_def [symmetric] b] fw by auto
  have closed: "sn_closed (sealed_snapshot c q1 s)" "ev_mark_known n" using evaluate_chains_coverage [OF n0(2) cov] by simp_all
  have sound: "(\<not> nf_value f \<longrightarrow> (\<exists>x \<in> set (sorted_roots (bound_chains k s b)). nc_role (oc_bound x) = ''forwarding''
        \<and> (\<exists>m'. kern_chain sets other (listed_rules k s) pk x (of_nat (ev_mark n)) = Some (OwDrop, m'))))
      \<and> (nf_value f \<and> leaves_free k s b pk \<longrightarrow>
        kern_hook sets other (listed_rules k s) pk (classifying (sorted_roots (bound_chains k s b))) 0 = Some (OwAccept, of_nat (ev_mark n))
        \<and> (\<forall>x \<in> set (sorted_roots (bound_chains k s b)). nc_role (oc_bound x) = ''forwarding''
          \<longrightarrow> (\<exists>v m'. kern_chain sets other (listed_rules k s) pk x (of_nat (ev_mark n)) = Some (v, m') \<and> v \<noteq> OwDrop)))"
    if "rules_plain k s b" "packet_bound k q1 s sets pk" for sets other pk
    using evaluate_chains_sound [OF n0(2,3) _ n0(1), of sets pk other 0 "of_nat (ev_mark n)"] that fw closed(2) by auto
  have "co_fixture c \<and> nb_context (binding (qu_gateway q1)) \<in> co_closed c" using closed(1) by (simp add: sealed_snapshot_def)
  moreover have "read_snapshot rc k oc q1 (0, w) = (Inr s, st)" using r s by simp
  ultimately show ?thesis using sound by blast
qed

text \<open>A system where every tool answers with its last argument.\<close>

definition sample_reader :: "unit ow_context_calls" where
  "sample_reader =
     \<lparr>oc_native = sample_native\<lparr>nt_exec := (\<lambda>tool args w. (\<lparr>to_chunks = [last args], to_ok = True\<rparr>, w))\<rparr>,
      oc_alive = Pair True, oc_refused = (\<lambda>_. NetMissing)\<rparr>"

definition sample_read_codec :: read_codec where
  "sample_read_codec =
     \<lparr>rc_valid = (\<lambda>_. True), rc_members = (\<lambda>_. None), rc_logical = (\<lambda>_. Some (True, ''br-lan'', [])), rc_marshal = (\<lambda>_. []),
      rc_rows = (\<lambda>_. Some 1)\<rparr>"

abbreviation "sample_asked \<equiv> seal_question (\<lambda>_. []) (ow_question_sample [sample_pre, sample_fwd])"
abbreviation "sample_codec \<equiv> ow_codec_sample marked_bodies"

definition frozen_sample :: net_question where
  "frozen_sample = (case freeze_question (\<lambda>_. []) sample_asked of Inr q \<Rightarrow> q | Inl _ \<Rightarrow> sample_asked)"

definition sample_taken :: ow_snapshot where
  "sample_taken = (ow_snapshot_sample [sample_pre, sample_fwd])\<lparr>sn_start := 1000, sn_end := 1000, sn_runtime := False, sn_closed := False\<rparr>"

lemma frozen_sample_fields:
  "freeze_question (\<lambda>_. []) sample_asked = Inr frozen_sample"
  "binding (qu_gateway frozen_sample) = no_binding\<lparr>nb_context := ''ctx'', nb_interface := ''br-lan'', nb_address := ''192.168.8.1'',
     nb_openwrt := Some (ow_openwrt_sample [sample_pre, sample_fwd])\<rparr>"
  "clone_binding (\<lambda>_. []) (no_binding\<lparr>nb_context := ''ctx'', nb_interface := ''br-lan'', nb_address := ''192.168.8.1'',
      nb_openwrt := Some (ow_openwrt_sample [sample_pre, sample_fwd])\<rparr>)
    = no_binding\<lparr>nb_context := ''ctx'', nb_interface := ''br-lan'', nb_address := ''192.168.8.1'',
      nb_openwrt := Some (ow_openwrt_sample [sample_pre, sample_fwd])\<rparr>"
  "readable_gateway frozen_sample (ow_openwrt_sample [sample_pre, sample_fwd])"
  "nr_id (no_ref_of (qu_source frozen_sample)) = []" "bound_set frozen_sample = None"
  by code_simp+

lemma sample_evidence:
  "(let n = normalize_openwrt sample_codec frozen_sample sample_taken 1000 1000 in (ev_mark_known n, ev_mark n)) = (True, 7)"
  "(let n = normalize_openwrt sample_codec frozen_sample
        (sealed_snapshot (sample_collector []) frozen_sample (sample_taken\<lparr>sn_route := ''7'', sn_stored := [(''network.device'', ''network.lan.device'')]\<rparr>)) 1000 1000
    in (ev_forwarding n, ev_coverage n)) = (Some False, True)"
  by code_simp+

lemma sample_call:
  assumes "nb_namespace b = []" "nb_context b = ''ctx''" "tool \<in> native_tools" "length (last args) \<le> 100" "u < 32"
  shows "session_call sample_reader b tool args (u, w) = (Inr (last args), (u + 1, w))"
  using assms
  by (simp add: session_call_def sample_reader_def read_namespace_def namespace_identity_def namespace_path_def
      within_namespace_def run_native_def sample_native_def session_calls_def session_output_def output_limit_def bounded_write_def)

lemma sample_sampled:
  assumes "u < 20"
  shows "read_sample sample_read_codec sample_codec sample_reader frozen_sample (ow_openwrt_sample [sample_pre, sample_fwd]) (u, ())
    = (Inr (sample_taken\<lparr>sn_route := ''7''\<rparr>), (u + 4, ()))"
proof -
  have nb: "nb_namespace no_binding = []" by (simp add: no_binding_def)
  have tools: "''ubus'' \<in> native_tools" "''nft'' \<in> native_tools" "''ip'' \<in> native_tools" by (simp_all add: native_tools_def)
  have n: "ev_mark_known (normalize_openwrt sample_codec frozen_sample sample_taken 1000 1000)"
    "ev_mark (normalize_openwrt sample_codec frozen_sample sample_taken 1000 1000) = 7" "dec_nat 7 = ''7''"
    using sample_evidence(1) by (simp_all add: Let_def) code_simp
  have now: "session_now sample_reader st = (Inr 1000, st)" for st :: "unit session"
    by (cases st) (simp add: session_now_def sample_reader_def sample_native_def)
  have h: "ow_hash_json sample_codec = (\<lambda>_. [])" "openwrt_scope sample_codec frozen_sample = []"
    by (simp_all add: ow_codec_sample_def openwrt_scope_def)
  have taken: "\<lparr>sn_scope = [], sn_context = ''ctx'', sn_start = 1000, sn_end = 1000, sn_logical = [], sn_rules = [], sn_route = [],
      sn_set = [], sn_chains = [(chain_key sample_pre, ''pre''), (chain_key sample_fwd, ''fwd'')], sn_stored = [], sn_set_known = False,
      sn_set_member = False, sn_runtime = False, sn_synthetic = False, sn_closed = False\<rparr> = sample_taken"
    by (simp add: sample_taken_def ow_snapshot_sample_def sample_pre_def sample_fwd_def)
  note routed = arg_cong [OF taken, of "sn_route_update (\<lambda>_. ''7'')", simplified, symmetric]
  have c: "ow_chains (ow_openwrt_sample [sample_pre, sample_fwd]) = [sample_pre, sample_fwd]" "nc_chain sample_pre = ''pre''"
    "nc_chain sample_fwd = ''fwd''" by (simp_all add: ow_openwrt_sample_def sample_pre_def sample_fwd_def)
  show ?thesis using assms
    by (simp add: read_sample_def Let_def h frozen_sample_fields then_ok_def now read_logical_def sample_call nb tools c
        read_set_def read_rules_def read_route_def give_def sample_read_codec_def taken routed n)
qed

lemma sample_snapshot:
  "read_snapshot sample_read_codec sample_codec sample_reader frozen_sample (0, ())
   = (Inr (sample_taken\<lparr>sn_route := ''7'', sn_stored := [(''network.device'', ''network.lan.device'')]\<rparr>), (9, ()))"
proof -
  have frozen: "freeze_question (\<lambda>_. []) frozen_sample = Inr frozen_sample" by (rule frozen_again [OF frozen_sample_fields(1)])
  have nb: "nb_namespace no_binding = []" by (simp add: no_binding_def)
  have h: "ow_hash_json sample_codec = (\<lambda>_. [])" by (simp add: ow_codec_sample_def)
  have o: "stored_options (ow_openwrt_sample [sample_pre, sample_fwd]) = [(''network.device'', ''network.lan.device'')]"
    by (simp add: stored_options_def ow_openwrt_sample_def)
  have trim: "trim_space ''network.lan.device'' = ''network.lan.device''" by code_simp
  have u: "session_call sample_reader (binding (qu_gateway frozen_sample)) ''uci'' [''-q'', ''get'', ''network.lan.device''] (4, ())
      = (Inr ''network.lan.device'', (5, ()))"
    by (subst sample_call) (simp_all add: frozen_sample_fields(2) nb native_tools_def)
  show ?thesis
    by (simp add: read_snapshot_def frozen h frozen_sample_fields then_ok_def sample_sampled o read_uci_def
        u [unfolded frozen_sample_fields(2)] trim give_def refuse_def)
qed

lemma add_openwrt_keeps:
  "f \<in> set (cl_facts (fst st)) \<Longrightarrow> f \<in> set (cl_facts (fst (add_openwrt nt c q s n xs st)))"
  by (induction nt c q s n xs st rule: add_openwrt.induct) (auto simp: add_fact_def split: prod.splits)

lemma add_openwrt_all:
  "(p, v) \<in> set xs \<Longrightarrow> \<exists>f \<in> set (cl_facts (fst (add_openwrt nt c q s n xs st))). nf_property f = p \<and> nf_value f = v"
proof (induction nt c q s n xs st rule: add_openwrt.induct)
  case (2 nt c q s n property v' xs st)
  obtain g w where g: "native_fact nt c property q None v' (snd st) = (g, w)" by (metis surj_pair)
  let ?g = "g\<lparr>nf_window_start := sn_start s, nf_window_end := sn_end s, nf_runtime_binding := ev_runtime_digest n\<rparr>"
  have gp: "nf_property ?g = property" "nf_value ?g = v'" using g by (auto simp: native_fact_def new_fact_def split: prod.splits)
  have "?g \<in> set (cl_facts (fst (add_openwrt nt c q s n xs (add_fact ?g (fst st), w))))"
    by (rule add_openwrt_keeps) (simp add: add_fact_def)
  then have hit: "\<exists>f \<in> set (cl_facts (fst (add_openwrt nt c q s n xs (add_fact ?g (fst st), w)))).
      nf_property f = property \<and> nf_value f = v'" using gp by blast
  show ?case
  proof (cases "(p, v) \<in> set xs")
    case True
    then show ?thesis using "2.IH" [OF g [symmetric]] by (simp add: g)
  next
    case False
    then show ?thesis using "2.prems" hit by (simp add: g)
  qed
qed simp

theorem forwarding_fact_sound_witness:
  "\<exists>f \<in> set (cl_facts (fst (collect_openwrt sample_read_codec sample_codec (sample_collector []) sample_reader sample_asked ()))).
     nf_property f = ''forwarding.permission'' \<and> \<not> nf_value f
   \<and> (\<exists>x \<in> set (sorted_roots (bound_chains sample_codec sample_taken (ow_openwrt_sample [sample_pre, sample_fwd]))). \<exists>m m'.
        kern_chain (\<lambda>_. {}) (\<lambda>_ _ m. KernNext m) (listed_rules sample_codec sample_taken) sample_flow x m = Some (OwDrop, m'))"
proof -
  let ?s = "sample_taken\<lparr>sn_route := ''7'', sn_stored := [(''network.device'', ''network.lan.device'')]\<rparr>"
  let ?b = "ow_openwrt_sample [sample_pre, sample_fwd]" and ?c = "sample_collector []"
  define n where "n = normalize_openwrt sample_codec frozen_sample (sealed_snapshot ?c frozen_sample ?s) 1000 1000"
  have now: "nt_now (oc_native sample_reader) w = (1000, w)" for w by (simp add: sample_reader_def sample_native_def)
  have h: "ow_hash_json sample_codec = (\<lambda>_. [])" by (simp add: ow_codec_sample_def)
  obtain out w' where out: "collect_openwrt sample_read_codec sample_codec ?c sample_reader sample_asked () = (out, w')"
    by (metis surj_pair)
  have "(''forwarding.permission'', False) \<in> set (openwrt_facts frozen_sample (sealed_snapshot ?c frozen_sample ?s) n)"
    using sample_evidence(2) by (simp add: openwrt_facts_def n_def Let_def)
  then obtain f where f: "f \<in> set (cl_facts (fst (add_openwrt (oc_native sample_reader) ?c frozen_sample (sealed_snapshot ?c frozen_sample ?s) n
      (openwrt_facts frozen_sample (sealed_snapshot ?c frozen_sample ?s) n) (empty_collection, ()))))"
    "nf_property f = ''forwarding.permission''" "\<not> nf_value f"
    using add_openwrt_all(1) by blast
  have mem: "f \<in> set (cl_facts out)"
    using out f(1) by (auto simp: collect_openwrt_def frozen_sample_fields(1) h sample_snapshot now Let_def n_def split: prod.splits)
  have b: "nb_openwrt (binding (qu_gateway frozen_sample)) = Some ?b" by (simp add: frozen_sample_fields(2))
  have frozen: "freeze_question (ow_hash_json sample_codec) sample_asked = Inr frozen_sample" by (simp add: h frozen_sample_fields(1))
  have plain: "rules_plain sample_codec ?s ?b" "packet_bound sample_codec frozen_sample ?s (\<lambda>_. {}) sample_flow"
  proof -
    show "rules_plain sample_codec ?s ?b" by code_simp
    have "nb_address (binding (qu_source frozen_sample)) = ''192.168.8.7''" "ow_target frozen_sample = ''10.9.9.9''"
      "nb_ingress (binding (qu_source frozen_sample)) = ''br-lan''" by code_simp+
    then show "packet_bound sample_codec frozen_sample ?s (\<lambda>_. {}) sample_flow"
      by (simp add: packet_bound_def sample_flow_def frozen_sample_fields(6))
  qed
  obtain m where "\<exists>x \<in> set (sorted_roots (bound_chains sample_codec ?s ?b)). \<exists>m'.
      kern_chain (\<lambda>_. {}) (\<lambda>_ _ m. KernNext m) (listed_rules sample_codec ?s) sample_flow x m = Some (OwDrop, m')"
    using forwarding_fact_sound [OF out mem f(2) frozen b] sample_snapshot plain f(3) by fastforce
  moreover have "listed_rules sample_codec ?s = listed_rules sample_codec sample_taken" "bound_chains sample_codec ?s ?b = bound_chains sample_codec sample_taken ?b"
    by (simp_all add: listed_rules_def chain_body_def bound_chains_def fun_eq_iff)
  ultimately show ?thesis using mem out f(2,3) by auto
qed

end
