(* ===== verification/Spec2Isabelle.thy ===== *)
theory Spec2Isabelle
  imports StoreCalls GatewayProps GatewaySsh SshClientRun NetCli PacketFilter AdminHelper LinuxWg OwRead
begin

text \<open>
  21pins: a verification development for the Go program of the repository.

  \<^bold>\<open>The program.\<close> 21pins puts policy between an agent and what it uses. A state file
  (\<open>internal/store\<close>) keeps provider keys, gateway tokens, grants, receipts and approvals. A local
  gateway (\<open>internal/gateway\<close>) authenticates a token, evaluates the grant of the request
  (\<open>internal/policy\<close>), forwards the call to the provider and accounts for its cost
  (\<open>internal/usage\<close>). A hosted control plane attests identities (\<open>internal/hosted\<close>,
  \<open>internal/identity\<close>). The same gateway leases SSH access: \<open>internal/sshaccess\<close> keeps leases and
  issues short certificates, \<open>internal/sshcommand\<close> is the forced command on the host,
  \<open>cmd/21pins/ssh.go\<close> the client, \<open>internal/dnsadmin\<close> the root helper behind one such role.
  \<open>internal/netpolicy\<close> keeps a registry of network objects and rules, asks the kernel, the resolver
  and the firewall about them, and turns the facts into a verdict.

  \<^bold>\<open>Theories and sources.\<close>
  \<^item> \<open>Prelude\<close>, \<open>Encoding\<close>, \<open>Files\<close>: bytes, words, times, maps and errors of Go; decimal, hex, base64 and
    RFC 3339; UTF-8, paths and the file system calls.
  \<^item> \<open>Policy\<close>, \<open>Signing\<close> (\<open>internal/policy\<close>): grants, the seven pins, \<open>EvaluateAction\<close>; receipts,
    attestations, export tokens.
  \<^item> \<open>StoreBase\<close>, \<open>ProviderKeys\<close>, \<open>StoreData\<close>, \<open>Tokens\<close>, \<open>Grants\<close>, \<open>StoreCalls\<close> (\<open>internal/store\<close>): the state
    and its atomic save, key rotation, catalogs and usage events, tokens, the policy tables; all the calls
    as one step relation, of one process (\<open>token_step\<close>) and of several processes that share the file
    (\<open>machine_step\<close>), with the permanence of a revocation.
  \<^item> \<open>Usage\<close> (\<open>internal/usage\<close>), \<open>Hosted\<close> (\<open>internal/hosted\<close>, \<open>internal/identity\<close>).
  \<^item> \<open>Gateway\<close>, \<open>GatewayProps\<close>, \<open>GatewaySsh\<close> (\<open>internal/gateway\<close>): the handlers, their properties, the SSH
    routes.
  \<^item> \<open>SshCommand\<close> (\<open>internal/sshcommand/gate.go\<close>): command lines, trusted paths, the gate.
  \<^item> \<open>SshConfig\<close>, \<open>SshHosts\<close>, \<open>SshLease\<close>, \<open>SshCert\<close>, \<open>SshSigner\<close> (\<open>internal/sshaccess\<close>, and the rules of
    \<open>internal/dnsadmin\<close> it includes): keys and host configuration, the shipped hosts, the lease service,
    certificates byte by byte, signing with an agent or a file key. \<open>LeaseMachine\<close> is the abstract
    machine of leases, \<open>LeaseProps\<close> what follows from it.
  \<^item> \<open>SshClient\<close>, \<open>SshClientRun\<close> (\<open>cmd/21pins/ssh_client.go\<close>, \<open>ssh.go\<close>): the API client, quoting, the commands.
  \<^item> \<open>AdminHelper\<close> (\<open>internal/dnsadmin/admin.go\<close>): the manifest, peers, enrolment as a transaction with
    rollback, the fixed operations.
  \<^item> \<open>NetAddr\<close> (\<open>net/netip\<close>), \<open>NetTypes\<close> (\<open>types.go\<close>), \<open>NetRegistry\<close>, \<open>NetRules\<close>, \<open>NetRulesProps\<close> (\<open>registry.go\<close>,
    \<open>policy.go\<close>), \<open>NetVerify\<close> (\<open>evidence.go\<close>, \<open>verify.go\<close>, \<open>authorize.go\<close>), \<open>NetQuestion\<close> (\<open>question.go\<close>), \<open>NetCli\<close>
    (\<open>cli.go\<close>, \<open>discover.go\<close>), all in \<open>internal/netpolicy\<close>.
  \<^item> \<open>DnsWire\<close> (\<open>dns.go\<close>): the question and the parser of answers. \<open>PacketFilter\<close> (\<open>observer_linux.go\<close>): the
    classic BPF program, its machine, and which packets it lets through.
  \<^item> \<open>NftChain\<close>, \<open>LinuxWg\<close> (\<open>linuxwg.go\<close>, \<open>namespace_linux.go\<close>): the normal form of an nft chain; running
    read-only tools in a checked namespace, the facts of gateways and tunnels.
  \<^item> \<open>OwRules\<close>, \<open>OwSound\<close>, \<open>OwEvidence\<close> (\<open>openwrt.go\<close>): the reader of OpenWrt firewalls, the firewall it reads,
    and that its evidence agrees with it. \<open>OwRead\<close> (\<open>openwrt_read.go\<close>): the session that reads a gateway twice,
    its facts, the dispatch of a collection.

  \<^bold>\<open>How the code is modelled.\<close> A Go struct is a record with the fields of the source, an enumeration a
  datatype with a case for other strings, a fixed-width integer a word, a time a number of
  nanoseconds. A string is its bytes. Errors are values of a sum or an option. A locked change of the
  store is a body on the state with the save that may fail and the rollback of memory; file systems,
  the network and running programs answer each call by a value in an environment, or are a record of
  functions on an abstract world. Concurrency is a sequence of steps: \<open>race_step\<close> of \<open>GatewayProps\<close>
  interleaves requests, \<open>lease_step\<close>, \<open>key_step\<close>, \<open>token_step\<close>, \<open>machine_step\<close> and \<open>policy_step\<close> say what
  any sequence of calls may do.

  \<^bold>\<open>Interfaces.\<close> \<open>durable\<close> and \<open>durable_inv\<close> (\<open>StoreBase\<close>) are the contract of a change of the store, which
  every operation of the store interprets; \<open>keyset_op\<close> that of an operation on a key set; \<open>id_table\<close> that
  of a table with fresh ids; \<open>lease_operation\<close> and \<open>lease_atomic\<close> that of an operation of the lease
  service against its machine; \<open>watched_system\<close> and \<open>watched_read\<close> (\<open>LinuxWg\<close>) what a collector needs of a
  system whose behaviour is watched (which permissions it may ask, which namespaces it may enter and
  under which identity, which programs it may run there), \<open>read_session\<close> (\<open>OwRead\<close>) what a reading needs
  of its calls, each interpreted on any system with a log of its calls.

  \<^bold>\<open>What is shown.\<close> Authorisation: a provider is contacted, a certificate issued, a program started, a
  configuration changed or a probe permitted only when the checks of the code hold. Permanence: revoked
  tokens and grants, closed leases and rebound objects stay without effect (a revoked token as long as
  no other process saves a memory from before the revocation: \<open>stale_save_restores_token\<close>). Invariants of key sets,
  serials, budgets and the registry over all sequences of operations. Round trips of quoting, signing,
  DNS and WireGuard sections. Refinement of the lease service to its machine, of the BPF program to its
  specification, of the nft and OpenWrt readers to the meaning of the rules they read, for the rules
  that \<open>chain_plain\<close>, \<open>rules_plain\<close> and \<open>leaves_free\<close> describe; \<open>set_reference_missed\<close>,
  \<open>statement_order_missed\<close>, \<open>missing_guard_in_force\<close>, \<open>jump_interface_missed\<close> and \<open>guard_drop_uncounted\<close> are
  rules beyond them that the code reads otherwise than the firewall. Verdicts that hold exactly when
  the facts say so.

  \<^bold>\<open>Parameters.\<close> SHA-256, Ed25519, random bytes, JSON, the clock, the answers of files, sockets, tools
  and of the provider are arguments of the definitions. Theorems that need more of them (a signature
  that verifies what was signed and nothing else, an encoder that keeps every field, a clock that
  advances) say so as hypotheses, and their witnesses instantiate them.

  \<^bold>\<open>Bounds.\<close> The wait for the state lock has 1002 attempts as fuel, and ends before that when the clock
  advances with each pause; a DNS name has 128 steps, more than the labels of 255 bytes; the search for a
  free name has as much fuel as there are names; selections are cut at 64 as in the code; the filter has
  at most 255 instructions and runs forward only; the walk over OpenWrt chains counts down from the
  code's depth of four, and a reading of a gateway has the code's budget of 32 calls.

  \<^bold>\<open>Not modelled.\<close> Flag parsing, printing and the other commands of \<open>cmd/21pins\<close>; the HTML page, logging and
  timeouts; the redirects that \<open>http.DefaultClient\<close> follows (\<open>upstream\<close> is the request the gateway
  builds); case folding beyond ASCII; the sockets and goroutines of the packet observer and of the DNS collection
  (\<open>dns_collect.go\<close>), whose parser, filter and policy reader are modelled; the stubs for other systems.
\<close>

end
